(* ===== verification/Prelude.thy ===== *)
theory Prelude
  imports Main "HOL-Library.Word" "HOL-Library.Monad_Syntax"
begin

unbundle bit_operations_syntax

text \<open>
  Shared vocabulary of the development: the fixed-width integer types of
  \<^verbatim>\<open>grpc/support/port_platform.h\<close>, the reading of an aborting run as
  \<^const>\<open>None\<close>, and the generic list facts that several components use.
\<close>

section \<open>Machine integers\<close>

type_synonym u8 = "8 word"
type_synonym u16 = "16 word"
type_synonym u32 = "32 word"
type_synonym u64 = "64 word"

type_synonym bytes = "u8 list"

text \<open>Bytes of a C string literal.\<close>

definition bytes_of_string :: "string \<Rightarrow> bytes" where
  "bytes_of_string s = map of_char s"

lemma unat_ucast_u8 [simp]: "unat (ucast (x :: u8) :: u32) = unat x"
  using unsigned_less[of x, where 'a = nat] by (simp add: unsigned_ucast_eq take_bit_nat_eq_self)

lemma ucast_u8_le [simp]: "ucast (x :: u8) \<le> (0xff :: u32)"
  using unsigned_less[of x, where 'a = nat] by (simp add: word_le_nat_alt)

section \<open>Aborting runs\<close>

text \<open>
  \<^verbatim>\<open>GPR_ASSERT\<close> aborts the process when its argument is false. A model of
  code that can abort returns an option, and \<^const>\<open>None\<close> is the aborted run.
\<close>

definition gpr_assert :: "bool \<Rightarrow> unit option" where
  "gpr_assert b = (if b then Some () else None)"

named_theorems abort_simps "simplification of runs that may abort"

lemma gpr_assert_simps [simp, abort_simps]:
  "gpr_assert True = Some ()"
  "gpr_assert False = None"
  by (simp_all add: gpr_assert_def)

lemma gpr_assert_eq_Some [simp, abort_simps]: "gpr_assert b = Some x \<longleftrightarrow> b"
  by (simp add: gpr_assert_def)

lemma gpr_assert_eq_None [simp, abort_simps]: "gpr_assert b = None \<longleftrightarrow> \<not> b"
  by (simp add: gpr_assert_def)

lemma bind_gpr_assert_eq_Some [simp, abort_simps]:
  "Option.bind (gpr_assert b) f = Some y \<longleftrightarrow> b \<and> f () = Some y"
  by (simp add: gpr_assert_def)


section \<open>Signed integers\<close>

text \<open>
  The value of a signed C expression of the given width: an overflow, undefined
  in C, aborts.
\<close>

definition c_signed :: "nat \<Rightarrow> int \<Rightarrow> int option" where
  "c_signed w x = (if - (2 ^ (w - 1)) \<le> x \<and> x < 2 ^ (w - 1) then Some x else None)"

lemma c_signed_eq_Some [abort_simps]:
  "c_signed w x = Some y \<longleftrightarrow> y = x \<and> - (2 ^ (w - 1)) \<le> x \<and> x < 2 ^ (w - 1)"
  by (auto simp: c_signed_def)

lemma c_signed_64: "- 9223372036854775808 \<le> x \<Longrightarrow> x \<le> 9223372036854775807 \<Longrightarrow> c_signed 64 x = Some x"
  by (simp add: c_signed_def)

lemma c_signed_32: "- 2147483648 \<le> x \<Longrightarrow> x \<le> 2147483647 \<Longrightarrow> c_signed 32 x = Some x"
  by (simp add: c_signed_def)


section \<open>Arrays\<close>

text \<open>Reading and writing an element of allocated memory; outside it the run aborts.\<close>

definition c_read :: "'a list \<Rightarrow> nat \<Rightarrow> 'a option" where
  "c_read xs i = (if i < length xs then Some (xs ! i) else None)"

definition c_write :: "'a list \<Rightarrow> nat \<Rightarrow> 'a \<Rightarrow> 'a list option" where
  "c_write xs i x = (if i < length xs then Some (xs[i := x]) else None)"

text \<open>
  \<^verbatim>\<open>gpr_realloc\<close> to \<open>n\<close> elements keeps the common prefix; the elements after it
  are indeterminate, here the given one.
\<close>

definition c_realloc :: "'a \<Rightarrow> 'a list \<Rightarrow> nat \<Rightarrow> 'a list" where
  "c_realloc d xs n = take n xs @ replicate (n - length xs) d"

lemma c_read_write_simps [simp]:
  "i < length xs \<Longrightarrow> c_read xs i = Some (xs ! i)"
  "i < length xs \<Longrightarrow> c_write xs i x = Some (xs[i := x])"
  by (simp_all add: c_read_def c_write_def)

lemma c_read_eq_Some [abort_simps]: "c_read xs i = Some x \<longleftrightarrow> i < length xs \<and> x = xs ! i"
  by (auto simp: c_read_def)

lemma c_write_eq_Some [abort_simps]: "c_write xs i x = Some ys \<longleftrightarrow> i < length xs \<and> ys = xs[i := x]"
  by (auto simp: c_write_def)

lemma length_c_realloc [simp]: "length (c_realloc d xs n) = n"
  by (simp add: c_realloc_def)

lemma take_c_realloc [simp]: "k \<le> n \<Longrightarrow> k \<le> length xs \<Longrightarrow> take k (c_realloc d xs n) = take k xs"
  by (simp add: c_realloc_def min_def)

end
