(* ===== verification/Json_Reader.thy ===== *)
theory Json_Reader
  imports Prelude
begin

text \<open>
  The streaming JSON reader of \<^verbatim>\<open>src/core/json/json_reader.c\<close>: the reader
  record, the table of user callbacks, one definition per group of cases of the
  big \<^verbatim>\<open>switch\<close> of \<^verbatim>\<open>grpc_json_reader_run\<close>, and the loop.
  Characters are written as their codes; the comment beside each code names the
  character of the source.
\<close>

section \<open>Types\<close>

datatype grpc_json_type =
    GRPC_JSON_OBJECT
  | GRPC_JSON_ARRAY
  | GRPC_JSON_STRING
  | GRPC_JSON_NUMBER
  | GRPC_JSON_TRUE
  | GRPC_JSON_FALSE
  | GRPC_JSON_NULL
  | GRPC_JSON_TOP_LEVEL

datatype grpc_json_reader_state =
    GRPC_JSON_STATE_OBJECT_KEY_BEGIN
  | GRPC_JSON_STATE_OBJECT_KEY_STRING
  | GRPC_JSON_STATE_OBJECT_KEY_END
  | GRPC_JSON_STATE_VALUE_BEGIN
  | GRPC_JSON_STATE_VALUE_STRING
  | GRPC_JSON_STATE_STRING_ESCAPE
  | GRPC_JSON_STATE_STRING_ESCAPE_U1
  | GRPC_JSON_STATE_STRING_ESCAPE_U2
  | GRPC_JSON_STATE_STRING_ESCAPE_U3
  | GRPC_JSON_STATE_STRING_ESCAPE_U4
  | GRPC_JSON_STATE_VALUE_NUMBER
  | GRPC_JSON_STATE_VALUE_NUMBER_WITH_DECIMAL
  | GRPC_JSON_STATE_VALUE_NUMBER_ZERO
  | GRPC_JSON_STATE_VALUE_NUMBER_DOT
  | GRPC_JSON_STATE_VALUE_NUMBER_E
  | GRPC_JSON_STATE_VALUE_NUMBER_EPM
  | GRPC_JSON_STATE_VALUE_TRUE_R
  | GRPC_JSON_STATE_VALUE_TRUE_U
  | GRPC_JSON_STATE_VALUE_TRUE_E
  | GRPC_JSON_STATE_VALUE_FALSE_A
  | GRPC_JSON_STATE_VALUE_FALSE_L
  | GRPC_JSON_STATE_VALUE_FALSE_S
  | GRPC_JSON_STATE_VALUE_FALSE_E
  | GRPC_JSON_STATE_VALUE_NULL_U
  | GRPC_JSON_STATE_VALUE_NULL_L1
  | GRPC_JSON_STATE_VALUE_NULL_L2
  | GRPC_JSON_STATE_VALUE_END
  | GRPC_JSON_STATE_END

datatype grpc_json_reader_status =
    GRPC_JSON_DONE
  | GRPC_JSON_EAGAIN
  | GRPC_JSON_READ_ERROR
  | GRPC_JSON_PARSE_ERROR
  | GRPC_JSON_INTERNAL_ERROR

definition GRPC_JSON_READ_CHAR_EOF :: u32 where
  "GRPC_JSON_READ_CHAR_EOF = 0x7ffffff0"

definition GRPC_JSON_READ_CHAR_EAGAIN :: u32 where
  "GRPC_JSON_READ_CHAR_EAGAIN = 0x7ffffff1"

definition GRPC_JSON_READ_CHAR_ERROR :: u32 where
  "GRPC_JSON_READ_CHAR_ERROR = 0x7ffffff2"

text \<open>
  The callbacks. Each takes the user data and returns it updated; \<^const>\<open>None\<close>
  is a callback that aborts the process.
\<close>

record 'u grpc_json_reader_vtable =
  string_clear :: "'u \<Rightarrow> 'u option"
  string_add_char :: "'u \<Rightarrow> u32 \<Rightarrow> 'u option"
  string_add_utf32 :: "'u \<Rightarrow> u32 \<Rightarrow> 'u option"
  read_char :: "'u \<Rightarrow> (u32 \<times> 'u) option"
  container_begins :: "'u \<Rightarrow> grpc_json_type \<Rightarrow> 'u option"
  container_ends :: "'u \<Rightarrow> (grpc_json_type \<times> 'u) option"
  set_key :: "'u \<Rightarrow> 'u option"
  set_string :: "'u \<Rightarrow> 'u option"
  set_number :: "'u \<Rightarrow> (bool \<times> 'u) option"
  set_true :: "'u \<Rightarrow> 'u option"
  set_false :: "'u \<Rightarrow> 'u option"
  set_null :: "'u \<Rightarrow> 'u option"

text \<open>The reader; user data and callback table are passed beside it.\<close>

record grpc_json_reader =
  depth :: int
  in_object :: bool
  in_array :: bool
  escaped_string_was_key :: bool
  container_just_begun :: bool
  unicode_char :: u16
  unicode_high_surrogate :: u16
  state :: grpc_json_reader_state

text \<open>What one turn of the loop does: go on, or return from the function.\<close>

datatype 'u json_turn =
    Loop grpc_json_reader 'u
  | Return grpc_json_reader_status grpc_json_reader 'u

definition grpc_json_reader_init ::
    "'u grpc_json_reader_vtable \<Rightarrow> 'u \<Rightarrow> (grpc_json_reader \<times> 'u) option" where
  "grpc_json_reader_init vt u =
     do {
       u1 \<leftarrow> string_clear vt u;
       Some (\<lparr> depth = 0, in_object = False, in_array = False,
               escaped_string_was_key = False, container_just_begun = False,
               unicode_char = 0, unicode_high_surrogate = 0,
               state = GRPC_JSON_STATE_VALUE_BEGIN \<rparr>, u1)
     }"

definition grpc_json_reader_is_complete :: "grpc_json_reader \<Rightarrow> bool" where
  "grpc_json_reader_is_complete r \<longleftrightarrow>
     depth r = 0 \<and>
     (state r = GRPC_JSON_STATE_END \<or> state r = GRPC_JSON_STATE_VALUE_END)"

section \<open>The cases of the switch\<close>

abbreviation (input) go :: "grpc_json_reader \<Rightarrow> 'u \<Rightarrow> 'u json_turn option" where
  "go r u \<equiv> Some (Loop r u)"

abbreviation (input) parse_error :: "grpc_json_reader \<Rightarrow> 'u \<Rightarrow> 'u json_turn option" where
  "parse_error r u \<equiv> Some (Return GRPC_JSON_PARSE_ERROR r u)"

text \<open>The groups of states that share their case labels in the source.\<close>

definition json_between :: "grpc_json_reader_state \<Rightarrow> bool" where
  "json_between st \<longleftrightarrow>
     st \<in> {GRPC_JSON_STATE_OBJECT_KEY_BEGIN, GRPC_JSON_STATE_OBJECT_KEY_END,
           GRPC_JSON_STATE_VALUE_BEGIN, GRPC_JSON_STATE_VALUE_END, GRPC_JSON_STATE_END}"

definition json_value_edge :: "grpc_json_reader_state \<Rightarrow> bool" where
  "json_value_edge st \<longleftrightarrow>
     st \<in> {GRPC_JSON_STATE_VALUE_END, GRPC_JSON_STATE_OBJECT_KEY_BEGIN,
           GRPC_JSON_STATE_VALUE_BEGIN}"

definition json_in_string :: "grpc_json_reader_state \<Rightarrow> bool" where
  "json_in_string st \<longleftrightarrow>
     st \<in> {GRPC_JSON_STATE_OBJECT_KEY_STRING, GRPC_JSON_STATE_VALUE_STRING}"

definition json_number_may_end :: "grpc_json_reader_state \<Rightarrow> bool" where
  "json_number_may_end st \<longleftrightarrow>
     st \<in> {GRPC_JSON_STATE_VALUE_NUMBER, GRPC_JSON_STATE_VALUE_NUMBER_WITH_DECIMAL,
           GRPC_JSON_STATE_VALUE_NUMBER_ZERO, GRPC_JSON_STATE_VALUE_NUMBER_EPM}"

definition json_in_number :: "grpc_json_reader_state \<Rightarrow> bool" where
  "json_in_number st \<longleftrightarrow>
     st \<in> {GRPC_JSON_STATE_VALUE_NUMBER, GRPC_JSON_STATE_VALUE_NUMBER_WITH_DECIMAL,
           GRPC_JSON_STATE_VALUE_NUMBER_ZERO, GRPC_JSON_STATE_VALUE_NUMBER_DOT,
           GRPC_JSON_STATE_VALUE_NUMBER_E, GRPC_JSON_STATE_VALUE_NUMBER_EPM}"

definition json_in_unicode :: "grpc_json_reader_state \<Rightarrow> bool" where
  "json_in_unicode st \<longleftrightarrow>
     st \<in> {GRPC_JSON_STATE_STRING_ESCAPE_U1, GRPC_JSON_STATE_STRING_ESCAPE_U2,
           GRPC_JSON_STATE_STRING_ESCAPE_U3, GRPC_JSON_STATE_STRING_ESCAPE_U4}"

lemmas json_state_groups =
  json_between_def json_value_edge_def json_in_string_def json_number_may_end_def
  json_in_number_def json_in_unicode_def

text \<open>Blank, tab, newline and carriage return.\<close>

definition json_turn_space ::
    "'u grpc_json_reader_vtable \<Rightarrow> u32 \<Rightarrow> grpc_json_reader \<Rightarrow> 'u \<Rightarrow> 'u json_turn option" where
  "json_turn_space vt c r u =
     (if json_between (state r) then go r u
      else if json_in_string (state r) then
        (if c \<noteq> 0x20 \<comment> \<open>blank\<close> then parse_error r u
         else if unicode_high_surrogate r \<noteq> 0 then parse_error r u
         else do { u1 \<leftarrow> string_add_char vt u c; go r u1 })
      else if json_number_may_end (state r) then
        do {
          (success, u1) \<leftarrow> set_number vt u;
          if \<not> success then parse_error r u1
          else do {
            u2 \<leftarrow> string_clear vt u1;
            go (r\<lparr>state := GRPC_JSON_STATE_VALUE_END\<rparr>) u2
          }
        }
      else parse_error r u)"

text \<open>A closing brace or bracket, in a state where one may stand.\<close>

definition json_turn_close ::
    "'u grpc_json_reader_vtable \<Rightarrow> u32 \<Rightarrow> grpc_json_reader \<Rightarrow> 'u \<Rightarrow> 'u json_turn option" where
  "json_turn_close vt c r0 u =
     (let r = r0\<lparr>depth := depth r0 - 1\<rparr> in
      if depth r0 = 0 then parse_error r u
      else if c = 0x7d \<and> \<not> in_object r then parse_error r u \<comment> \<open>closing brace\<close>
      else if c = 0x7d \<and> state r = GRPC_JSON_STATE_OBJECT_KEY_BEGIN \<and> \<not> container_just_begun r
        then parse_error r u
      else if c = 0x5d \<and> \<not> in_array r then parse_error r u \<comment> \<open>closing bracket\<close>
      else if c = 0x5d \<and> state r = GRPC_JSON_STATE_VALUE_BEGIN \<and> \<not> container_just_begun r
        then parse_error r u
      else do {
        (ty, u1) \<leftarrow> container_ends vt u;
        let r1 = r\<lparr>state := GRPC_JSON_STATE_VALUE_END\<rparr> in
        case ty of
          GRPC_JSON_OBJECT \<Rightarrow> go (r1\<lparr>in_object := True, in_array := False\<rparr>) u1
        | GRPC_JSON_ARRAY \<Rightarrow> go (r1\<lparr>in_object := False, in_array := True\<rparr>) u1
        | GRPC_JSON_TOP_LEVEL \<Rightarrow>
            (if depth r1 \<noteq> 0 then Some (Return GRPC_JSON_INTERNAL_ERROR r1 u1)
             else go (r1\<lparr>in_object := False, in_array := False,
                         state := GRPC_JSON_STATE_END\<rparr>) u1)
        | _ \<Rightarrow> Some (Return GRPC_JSON_INTERNAL_ERROR r1 u1)
      })"

text \<open>Comma, closing brace and closing bracket where a value may end.\<close>

definition json_turn_value_end ::
    "'u grpc_json_reader_vtable \<Rightarrow> u32 \<Rightarrow> grpc_json_reader \<Rightarrow> 'u \<Rightarrow> 'u json_turn option" where
  "json_turn_value_end vt c r u =
     (if c = 0x2c \<comment> \<open>comma\<close> then
        (if state r \<noteq> GRPC_JSON_STATE_VALUE_END then parse_error r u
         else if in_object r then go (r\<lparr>state := GRPC_JSON_STATE_OBJECT_KEY_BEGIN\<rparr>) u
         else go (r\<lparr>state := GRPC_JSON_STATE_VALUE_BEGIN\<rparr>) u)
      else json_turn_close vt c r u)"

definition json_turn_term ::
    "'u grpc_json_reader_vtable \<Rightarrow> u32 \<Rightarrow> grpc_json_reader \<Rightarrow> 'u \<Rightarrow> 'u json_turn option" where
  "json_turn_term vt c r u =
     (if json_in_string (state r) then
        (if unicode_high_surrogate r \<noteq> 0 then parse_error r u
         else do { u1 \<leftarrow> string_add_char vt u c; go r u1 })
      else if json_number_may_end (state r) then
        do {
          (success, u1) \<leftarrow> set_number vt u;
          if \<not> success then parse_error r u1
          else do {
            u2 \<leftarrow> string_clear vt u1;
            json_turn_value_end vt c (r\<lparr>state := GRPC_JSON_STATE_VALUE_END\<rparr>) u2
          }
        }
      else if json_value_edge (state r) then json_turn_value_end vt c r u
      else parse_error r u)"

text \<open>The state an escape sequence returns to.\<close>

definition escaped_string_state :: "grpc_json_reader \<Rightarrow> grpc_json_reader_state" where
  "escaped_string_state r =
     (if escaped_string_was_key r then GRPC_JSON_STATE_OBJECT_KEY_STRING
      else GRPC_JSON_STATE_VALUE_STRING)"

definition json_turn_backslash ::
    "'u grpc_json_reader_vtable \<Rightarrow> u32 \<Rightarrow> grpc_json_reader \<Rightarrow> 'u \<Rightarrow> 'u json_turn option" where
  "json_turn_backslash vt c r u =
     (case state r of
        GRPC_JSON_STATE_OBJECT_KEY_STRING \<Rightarrow>
          go (r\<lparr>escaped_string_was_key := True, state := GRPC_JSON_STATE_STRING_ESCAPE\<rparr>) u
      | GRPC_JSON_STATE_VALUE_STRING \<Rightarrow>
          go (r\<lparr>escaped_string_was_key := False, state := GRPC_JSON_STATE_STRING_ESCAPE\<rparr>) u
      | GRPC_JSON_STATE_STRING_ESCAPE \<Rightarrow>
          (if unicode_high_surrogate r \<noteq> 0 then parse_error r u
           else do {
             u1 \<leftarrow> string_add_char vt u 0x5c;
             go (r\<lparr>state := escaped_string_state r\<rparr>) u1
           })
      | _ \<Rightarrow> parse_error r u)"


text \<open>Every other character inside, or at the edge of, a string or a key.\<close>

definition json_turn_string ::
    "'u grpc_json_reader_vtable \<Rightarrow> u32 \<Rightarrow> grpc_json_reader \<Rightarrow> 'u \<Rightarrow> 'u json_turn option" where
  "json_turn_string vt c r u =
     (case state r of
        GRPC_JSON_STATE_OBJECT_KEY_BEGIN \<Rightarrow>
          (if c \<noteq> 0x22 \<comment> \<open>quote\<close> then parse_error r u
           else go (r\<lparr>state := GRPC_JSON_STATE_OBJECT_KEY_STRING\<rparr>) u)
      | GRPC_JSON_STATE_OBJECT_KEY_STRING \<Rightarrow>
          (if unicode_high_surrogate r \<noteq> 0 then parse_error r u
           else if c = 0x22 then do {
             u1 \<leftarrow> set_key vt u;
             u2 \<leftarrow> string_clear vt u1;
             go (r\<lparr>state := GRPC_JSON_STATE_OBJECT_KEY_END\<rparr>) u2
           }
           else if c \<le> 0x1f then parse_error r u
           else do { u1 \<leftarrow> string_add_char vt u c; go r u1 })
      | GRPC_JSON_STATE_VALUE_STRING \<Rightarrow>
          (if unicode_high_surrogate r \<noteq> 0 then parse_error r u
           else if c = 0x22 then do {
             u1 \<leftarrow> set_string vt u;
             u2 \<leftarrow> string_clear vt u1;
             go (r\<lparr>state := GRPC_JSON_STATE_VALUE_END\<rparr>) u2
           }
           else if c < 32 then parse_error r u
           else do { u1 \<leftarrow> string_add_char vt u c; go r u1 })
      | _ \<comment> \<open>\<^verbatim>\<open>OBJECT_KEY_END\<close>\<close> \<Rightarrow>
          (if c \<noteq> 0x3a \<comment> \<open>colon\<close> then parse_error r u
           else go (r\<lparr>state := GRPC_JSON_STATE_VALUE_BEGIN\<rparr>) u))"

text \<open>
  The first character of a value. The inner \<^verbatim>\<open>switch\<close> has no default case: any
  other character leaves the reader where it is.
\<close>

definition json_turn_value_begin ::
    "'u grpc_json_reader_vtable \<Rightarrow> u32 \<Rightarrow> grpc_json_reader \<Rightarrow> 'u \<Rightarrow> 'u json_turn option" where
  "json_turn_value_begin vt c r u =
     (if c = 0x74 then go (r\<lparr>state := GRPC_JSON_STATE_VALUE_TRUE_R\<rparr>) u \<comment> \<open>t\<close>
      else if c = 0x66 then go (r\<lparr>state := GRPC_JSON_STATE_VALUE_FALSE_A\<rparr>) u \<comment> \<open>f\<close>
      else if c = 0x6e then go (r\<lparr>state := GRPC_JSON_STATE_VALUE_NULL_U\<rparr>) u \<comment> \<open>n\<close>
      else if c = 0x22 then go (r\<lparr>state := GRPC_JSON_STATE_VALUE_STRING\<rparr>) u \<comment> \<open>quote\<close>
      else if c = 0x30 \<comment> \<open>0\<close> then do {
        u1 \<leftarrow> string_add_char vt u c;
        go (r\<lparr>state := GRPC_JSON_STATE_VALUE_NUMBER_ZERO\<rparr>) u1
      }
      else if 0x31 \<le> c \<and> c \<le> 0x39 \<or> c = 0x2d \<comment> \<open>1 to 9, minus\<close> then do {
        u1 \<leftarrow> string_add_char vt u c;
        go (r\<lparr>state := GRPC_JSON_STATE_VALUE_NUMBER\<rparr>) u1
      }
      else if c = 0x7b \<comment> \<open>opening brace\<close> then do {
        u1 \<leftarrow> container_begins vt u GRPC_JSON_OBJECT;
        go (r\<lparr>container_just_begun := True, depth := depth r + 1,
             state := GRPC_JSON_STATE_OBJECT_KEY_BEGIN,
             in_object := True, in_array := False\<rparr>) u1
      }
      else if c = 0x5b \<comment> \<open>opening bracket\<close> then do {
        u1 \<leftarrow> container_begins vt u GRPC_JSON_ARRAY;
        go (r\<lparr>container_just_begun := True, depth := depth r + 1,
             in_object := False, in_array := True\<rparr>) u1
      }
      else go r u)"

text \<open>The character after a backslash.\<close>

definition json_turn_escape ::
    "'u grpc_json_reader_vtable \<Rightarrow> u32 \<Rightarrow> grpc_json_reader \<Rightarrow> 'u \<Rightarrow> 'u json_turn option" where
  "json_turn_escape vt c r0 u =
     (let r = r0\<lparr>state := escaped_string_state r0\<rparr> in
      if unicode_high_surrogate r \<noteq> 0 \<and> c \<noteq> 0x75 then parse_error r u
      else if c = 0x22 \<or> c = 0x2f \<comment> \<open>quote, slash\<close> then
        do { u1 \<leftarrow> string_add_char vt u c; go r u1 }
      else if c = 0x62 then do { u1 \<leftarrow> string_add_char vt u 8; go r u1 } \<comment> \<open>b\<close>
      else if c = 0x66 then do { u1 \<leftarrow> string_add_char vt u 12; go r u1 } \<comment> \<open>f\<close>
      else if c = 0x6e then do { u1 \<leftarrow> string_add_char vt u 10; go r u1 } \<comment> \<open>n\<close>
      else if c = 0x72 then do { u1 \<leftarrow> string_add_char vt u 13; go r u1 } \<comment> \<open>r\<close>
      else if c = 0x74 then do { u1 \<leftarrow> string_add_char vt u 9; go r u1 } \<comment> \<open>t\<close>
      else if c = 0x75 \<comment> \<open>u\<close> then
        go (r\<lparr>state := GRPC_JSON_STATE_STRING_ESCAPE_U1, unicode_char := 0\<rparr>) u
      else parse_error r u)"

text \<open>The value of a hexadecimal digit, if the character is one.\<close>

definition json_hex_digit :: "u32 \<Rightarrow> u32 option" where
  "json_hex_digit c =
     (if 0x30 \<le> c \<and> c \<le> 0x39 then Some (c - 0x30)
      else if 0x41 \<le> c \<and> c \<le> 0x46 then Some (c - (0x41 - 10))
      else if 0x61 \<le> c \<and> c \<le> 0x66 then Some (c - (0x61 - 10))
      else None)"

text \<open>The fourth digit completes a UTF-16 unit: surrogates are paired here.\<close>

definition json_turn_utf16_done ::
    "'u grpc_json_reader_vtable \<Rightarrow> grpc_json_reader \<Rightarrow> 'u \<Rightarrow> 'u json_turn option" where
  "json_turn_utf16_done vt r u =
     (if unicode_char r AND 0xfc00 = 0xd800 then
        (if unicode_high_surrogate r \<noteq> 0 then parse_error r u
         else go (r\<lparr>unicode_high_surrogate := unicode_char r,
                   state := escaped_string_state r\<rparr>) u)
      else if unicode_char r AND 0xfc00 = 0xdc00 then
        (if unicode_high_surrogate r = 0 then parse_error r u
         else do {
           u1 \<leftarrow> string_add_utf32 vt u
                  (0x10000 + (ucast (unicode_high_surrogate r) - 0xd800) * 0x400
                           + (ucast (unicode_char r) - 0xdc00));
           go (r\<lparr>unicode_high_surrogate := 0, state := escaped_string_state r\<rparr>) u1
         })
      else
        (if unicode_high_surrogate r \<noteq> 0 then parse_error r u
         else do {
           u1 \<leftarrow> string_add_utf32 vt u (ucast (unicode_char r));
           go (r\<lparr>state := escaped_string_state r\<rparr>) u1
         }))"

definition json_turn_unicode ::
    "'u grpc_json_reader_vtable \<Rightarrow> u32 \<Rightarrow> grpc_json_reader \<Rightarrow> 'u \<Rightarrow> 'u json_turn option" where
  "json_turn_unicode vt c0 r0 u =
     (case json_hex_digit c0 of
        None \<Rightarrow> parse_error r0 u
      | Some c \<Rightarrow>
          (let r = r0\<lparr>unicode_char := push_bit 4 (unicode_char r0) OR ucast c\<rparr> in
           case state r of
             GRPC_JSON_STATE_STRING_ESCAPE_U1 \<Rightarrow>
               go (r\<lparr>state := GRPC_JSON_STATE_STRING_ESCAPE_U2\<rparr>) u
           | GRPC_JSON_STATE_STRING_ESCAPE_U2 \<Rightarrow>
               go (r\<lparr>state := GRPC_JSON_STATE_STRING_ESCAPE_U3\<rparr>) u
           | GRPC_JSON_STATE_STRING_ESCAPE_U3 \<Rightarrow>
               go (r\<lparr>state := GRPC_JSON_STATE_STRING_ESCAPE_U4\<rparr>) u
           | GRPC_JSON_STATE_STRING_ESCAPE_U4 \<Rightarrow> json_turn_utf16_done vt r u
           | _ \<Rightarrow> Some (Return GRPC_JSON_INTERNAL_ERROR r u)))"

text \<open>Numbers. The character is added to the scratchpad before it is checked.\<close>

definition json_digit :: "u32 \<Rightarrow> bool" where
  "json_digit c \<longleftrightarrow> 0x30 \<le> c \<and> c \<le> 0x39"

definition json_turn_number ::
    "'u grpc_json_reader_vtable \<Rightarrow> u32 \<Rightarrow> grpc_json_reader \<Rightarrow> 'u \<Rightarrow> 'u json_turn option" where
  "json_turn_number vt c r u =
     (case state r of
        GRPC_JSON_STATE_VALUE_NUMBER \<Rightarrow> do {
          u1 \<leftarrow> string_add_char vt u c;
          if json_digit c then go r u1
          else if c = 0x65 \<or> c = 0x45 \<comment> \<open>e, E\<close> then
            go (r\<lparr>state := GRPC_JSON_STATE_VALUE_NUMBER_E\<rparr>) u1
          else if c = 0x2e \<comment> \<open>point\<close> then
            go (r\<lparr>state := GRPC_JSON_STATE_VALUE_NUMBER_DOT\<rparr>) u1
          else parse_error r u1
        }
      | GRPC_JSON_STATE_VALUE_NUMBER_WITH_DECIMAL \<Rightarrow> do {
          u1 \<leftarrow> string_add_char vt u c;
          if json_digit c then go r u1
          else if c = 0x65 \<or> c = 0x45 then
            go (r\<lparr>state := GRPC_JSON_STATE_VALUE_NUMBER_E\<rparr>) u1
          else parse_error r u1
        }
      | GRPC_JSON_STATE_VALUE_NUMBER_ZERO \<Rightarrow>
          (if c \<noteq> 0x2e then parse_error r u
           else do {
             u1 \<leftarrow> string_add_char vt u c;
             go (r\<lparr>state := GRPC_JSON_STATE_VALUE_NUMBER_DOT\<rparr>) u1
           })
      | GRPC_JSON_STATE_VALUE_NUMBER_DOT \<Rightarrow> do {
          u1 \<leftarrow> string_add_char vt u c;
          if json_digit c then go (r\<lparr>state := GRPC_JSON_STATE_VALUE_NUMBER_WITH_DECIMAL\<rparr>) u1
          else parse_error r u1
        }
      | GRPC_JSON_STATE_VALUE_NUMBER_E \<Rightarrow> do {
          u1 \<leftarrow> string_add_char vt u c;
          if json_digit c \<or> c = 0x2b \<or> c = 0x2d \<comment> \<open>plus, minus\<close> then
            go (r\<lparr>state := GRPC_JSON_STATE_VALUE_NUMBER_EPM\<rparr>) u1
          else parse_error r u1
        }
      | _ \<comment> \<open>\<^verbatim>\<open>VALUE_NUMBER_EPM\<close>\<close> \<Rightarrow> do {
          u1 \<leftarrow> string_add_char vt u c;
          if json_digit c then go r u1 else parse_error r u1
        })"

text \<open>The letters of \<^verbatim>\<open>true\<close>, \<^verbatim>\<open>false\<close> and \<^verbatim>\<open>null\<close>.\<close>

definition json_turn_literal ::
    "'u grpc_json_reader_vtable \<Rightarrow> u32 \<Rightarrow> grpc_json_reader \<Rightarrow> 'u \<Rightarrow> 'u json_turn option" where
  "json_turn_literal vt c r u =
     (case state r of
        GRPC_JSON_STATE_VALUE_TRUE_R \<Rightarrow>
          (if c \<noteq> 0x72 then parse_error r u
           else go (r\<lparr>state := GRPC_JSON_STATE_VALUE_TRUE_U\<rparr>) u)
      | GRPC_JSON_STATE_VALUE_TRUE_U \<Rightarrow>
          (if c \<noteq> 0x75 then parse_error r u
           else go (r\<lparr>state := GRPC_JSON_STATE_VALUE_TRUE_E\<rparr>) u)
      | GRPC_JSON_STATE_VALUE_TRUE_E \<Rightarrow>
          (if c \<noteq> 0x65 then parse_error r u
           else do { u1 \<leftarrow> set_true vt u; go (r\<lparr>state := GRPC_JSON_STATE_VALUE_END\<rparr>) u1 })
      | GRPC_JSON_STATE_VALUE_FALSE_A \<Rightarrow>
          (if c \<noteq> 0x61 then parse_error r u
           else go (r\<lparr>state := GRPC_JSON_STATE_VALUE_FALSE_L\<rparr>) u)
      | GRPC_JSON_STATE_VALUE_FALSE_L \<Rightarrow>
          (if c \<noteq> 0x6c then parse_error r u
           else go (r\<lparr>state := GRPC_JSON_STATE_VALUE_FALSE_S\<rparr>) u)
      | GRPC_JSON_STATE_VALUE_FALSE_S \<Rightarrow>
          (if c \<noteq> 0x73 then parse_error r u
           else go (r\<lparr>state := GRPC_JSON_STATE_VALUE_FALSE_E\<rparr>) u)
      | GRPC_JSON_STATE_VALUE_FALSE_E \<Rightarrow>
          (if c \<noteq> 0x65 then parse_error r u
           else do { u1 \<leftarrow> set_false vt u; go (r\<lparr>state := GRPC_JSON_STATE_VALUE_END\<rparr>) u1 })
      | GRPC_JSON_STATE_VALUE_NULL_U \<Rightarrow>
          (if c \<noteq> 0x75 then parse_error r u
           else go (r\<lparr>state := GRPC_JSON_STATE_VALUE_NULL_L1\<rparr>) u)
      | GRPC_JSON_STATE_VALUE_NULL_L1 \<Rightarrow>
          (if c \<noteq> 0x6c then parse_error r u
           else go (r\<lparr>state := GRPC_JSON_STATE_VALUE_NULL_L2\<rparr>) u)
      | _ \<comment> \<open>\<^verbatim>\<open>VALUE_NULL_L2\<close>\<close> \<Rightarrow>
          (if c \<noteq> 0x6c then parse_error r u
           else do { u1 \<leftarrow> set_null vt u; go (r\<lparr>state := GRPC_JSON_STATE_VALUE_END\<rparr>) u1 }))"

text \<open>The default case of the outer switch.\<close>

definition json_turn_other ::
    "'u grpc_json_reader_vtable \<Rightarrow> u32 \<Rightarrow> grpc_json_reader \<Rightarrow> 'u \<Rightarrow> 'u json_turn option" where
  "json_turn_other vt c r0 u =
     (let r = r0\<lparr>container_just_begun := False\<rparr> in
      if state r \<in> {GRPC_JSON_STATE_OBJECT_KEY_BEGIN, GRPC_JSON_STATE_OBJECT_KEY_STRING,
                    GRPC_JSON_STATE_VALUE_STRING, GRPC_JSON_STATE_OBJECT_KEY_END} then
        json_turn_string vt c r u
      else if state r = GRPC_JSON_STATE_VALUE_BEGIN then json_turn_value_begin vt c r u
      else if state r = GRPC_JSON_STATE_STRING_ESCAPE then json_turn_escape vt c r u
      else if json_in_unicode (state r) then
        json_turn_unicode vt c r u
      else if json_in_number (state r) then
        json_turn_number vt c r u
      else if state r = GRPC_JSON_STATE_VALUE_END then
        (if c = 0x2c \<or> c = 0x7d \<or> c = 0x5d then Some (Return GRPC_JSON_INTERNAL_ERROR r u)
         else parse_error r u)
      else if state r = GRPC_JSON_STATE_END then parse_error r u
      else json_turn_literal vt c r u)"

section \<open>The loop\<close>

definition json_turn_char ::
    "'u grpc_json_reader_vtable \<Rightarrow> u32 \<Rightarrow> grpc_json_reader \<Rightarrow> 'u \<Rightarrow> 'u json_turn option" where
  "json_turn_char vt c r u =
     (if c = GRPC_JSON_READ_CHAR_ERROR then Some (Return GRPC_JSON_READ_ERROR r u)
      else if c = GRPC_JSON_READ_CHAR_EAGAIN then Some (Return GRPC_JSON_EAGAIN r u)
      else if c = GRPC_JSON_READ_CHAR_EOF then
        (if grpc_json_reader_is_complete r then Some (Return GRPC_JSON_DONE r u)
         else parse_error r u)
      else if c = 0x20 \<or> c = 0x09 \<or> c = 0x0a \<or> c = 0x0d then json_turn_space vt c r u
      else if c = 0x2c \<or> c = 0x7d \<or> c = 0x5d then json_turn_term vt c r u
      else if c = 0x5c then json_turn_backslash vt c r u
      else json_turn_other vt c r u)"

text \<open>
  The endless loop: \<^const>\<open>None\<close> is a run that aborts or never ends.
\<close>

partial_function (option) grpc_json_reader_run ::
    "'u grpc_json_reader_vtable \<Rightarrow> grpc_json_reader \<Rightarrow> 'u \<Rightarrow>
       (grpc_json_reader_status \<times> grpc_json_reader \<times> 'u) option" where
  "grpc_json_reader_run vt r u =
     do {
       (c, u1) \<leftarrow> read_char vt u;
       t \<leftarrow> json_turn_char vt c r u1;
       (case t of
          Loop r' u' \<Rightarrow> grpc_json_reader_run vt r' u'
        | Return st r' u' \<Rightarrow> Some (st, r', u'))
     }"

declare grpc_json_reader_run.simps [code]


text \<open>The definitions above, for evaluating the reader on closed input.\<close>

lemmas json_turn_defs =
  json_state_groups
  json_turn_char_def json_turn_space_def json_turn_term_def json_turn_value_end_def
  json_turn_close_def json_turn_backslash_def json_turn_other_def json_turn_string_def
  json_turn_value_begin_def json_turn_escape_def json_turn_unicode_def
  json_turn_utf16_done_def json_turn_number_def json_turn_literal_def
  json_hex_digit_def json_digit_def escaped_string_state_def

lemmas json_read_char_codes =
  GRPC_JSON_READ_CHAR_EOF_def GRPC_JSON_READ_CHAR_EAGAIN_def GRPC_JSON_READ_CHAR_ERROR_def

lemmas json_reader_exec =
  json_turn_defs json_read_char_codes grpc_json_reader_init_def
  grpc_json_reader_is_complete_def grpc_json_reader_run.simps

end
