(* ===== verification/Json_Writer.thy ===== *)
theory Json_Writer
  imports Json_Reader
begin

text \<open>
  The JSON writer of \<^verbatim>\<open>src/core/json/json_writer.c\<close>, over a table of output
  callbacks. A \<^verbatim>\<open>const char*\<close> argument is the list of bytes it points at; the
  end of the list reads as the terminating zero byte.
\<close>

section \<open>Types\<close>

record 'u grpc_json_writer_vtable =
  output_char :: "'u \<Rightarrow> u8 \<Rightarrow> 'u option"
  output_string :: "'u \<Rightarrow> bytes \<Rightarrow> 'u option"
  output_string_with_len :: "'u \<Rightarrow> bytes \<Rightarrow> nat \<Rightarrow> 'u option"

record grpc_json_writer =
  indent :: int
  wdepth :: int
  container_empty :: bool
  got_key :: bool

definition grpc_json_writer_init :: "int \<Rightarrow> grpc_json_writer" where
  "grpc_json_writer_init ind =
     \<lparr> indent = ind, wdepth = 0, container_empty = True, got_key = False \<rparr>"

section \<open>Spaces and separators\<close>

text \<open>The loop over the 64 blanks of \<^verbatim>\<open>spacesstr\<close>.\<close>

function json_writer_spaces ::
    "'u grpc_json_writer_vtable \<Rightarrow> nat \<Rightarrow> 'u \<Rightarrow> 'u option" where
  "json_writer_spaces vt spaces u =
     (if spaces \<ge> 64 then do {
        u1 \<leftarrow> output_string_with_len vt u (replicate 64 0x20) 64;
        json_writer_spaces vt (spaces - 64) u1
      }
      else if spaces = 0 then Some u
      else output_string_with_len vt u (replicate spaces 0x20) spaces)"
  by pat_completeness auto
termination by (relation "measure (\<lambda>(vt, n, u). n)") auto

declare json_writer_spaces.simps [simp del]

definition json_writer_output_indent ::
    "'u grpc_json_writer_vtable \<Rightarrow> grpc_json_writer \<Rightarrow> 'u \<Rightarrow> 'u option" where
  "json_writer_output_indent vt w u =
     (let spaces = unat (word_of_int (wdepth w * indent w) :: u32) in
      if indent w = 0 then Some u
      else if got_key w then output_char vt u 0x20
      else json_writer_spaces vt spaces u)"

definition json_writer_value_end ::
    "'u grpc_json_writer_vtable \<Rightarrow> grpc_json_writer \<Rightarrow> 'u \<Rightarrow> (grpc_json_writer \<times> 'u) option" where
  "json_writer_value_end vt w u =
     (if container_empty w then
        (let w1 = w\<lparr>container_empty := False\<rparr> in
         if indent w1 = 0 \<or> wdepth w1 = 0 then Some (w1, u)
         else do { u1 \<leftarrow> output_char vt u 0x0a; Some (w1, u1) })
      else do {
        u1 \<leftarrow> output_char vt u 0x2c; \<comment> \<open>comma\<close>
        if indent w = 0 then Some (w, u1)
        else do { u2 \<leftarrow> output_char vt u1 0x0a; Some (w, u2) }
      })"

section \<open>String escapes\<close>

definition json_hex :: bytes where
  "json_hex = [0x30, 0x31, 0x32, 0x33, 0x34, 0x35, 0x36, 0x37, 0x38, 0x39,
               0x61, 0x62, 0x63, 0x64, 0x65, 0x66]"

definition json_writer_escape_utf16 ::
    "'u grpc_json_writer_vtable \<Rightarrow> u16 \<Rightarrow> 'u \<Rightarrow> 'u option" where
  "json_writer_escape_utf16 vt utf16 u =
     do {
       u1 \<leftarrow> output_string_with_len vt u [0x5c, 0x75] 2; \<comment> \<open>backslash u\<close>
       u2 \<leftarrow> output_char vt u1 (json_hex ! unat (drop_bit 12 utf16 AND 0x0f));
       u3 \<leftarrow> output_char vt u2 (json_hex ! unat (drop_bit 8 utf16 AND 0x0f));
       u4 \<leftarrow> output_char vt u3 (json_hex ! unat (drop_bit 4 utf16 AND 0x0f));
       output_char vt u4 (json_hex ! unat (utf16 AND 0x0f))
     }"

text \<open>
  The continuation bytes of a UTF-8 sequence: the accumulated code point and the
  bytes after it, or \<^const>\<open>None\<close> at the first byte that is not a continuation.
\<close>

fun json_utf8_tail :: "nat \<Rightarrow> u32 \<Rightarrow> bytes \<Rightarrow> (u32 \<times> bytes) option" where
  "json_utf8_tail 0 utf32 s = Some (utf32, s)"
| "json_utf8_tail (Suc extra) utf32 [] = None"
| "json_utf8_tail (Suc extra) utf32 (c # s) =
     (if c AND 0xc0 \<noteq> 0x80 then None
      else json_utf8_tail extra (push_bit 6 utf32 OR ucast (c AND 0x3f)) s)"

text \<open>The first byte of a multi-byte sequence: initial bits and continuation count.\<close>

definition json_utf8_head :: "u8 \<Rightarrow> (u32 \<times> nat) option" where
  "json_utf8_head c =
     (if c AND 0xe0 = 0xc0 then Some (ucast (c AND 0x1f), 1)
      else if c AND 0xf0 = 0xe0 then Some (ucast (c AND 0x0f), 2)
      else if c AND 0xf8 = 0xf0 then Some (ucast (c AND 0x07), 3)
      else None)"

definition json_writer_control ::
    "'u grpc_json_writer_vtable \<Rightarrow> u8 \<Rightarrow> 'u \<Rightarrow> 'u option" where
  "json_writer_control vt c u =
     (if c = 8 then output_string_with_len vt u [0x5c, 0x62] 2
      else if c = 12 then output_string_with_len vt u [0x5c, 0x66] 2
      else if c = 10 then output_string_with_len vt u [0x5c, 0x6e] 2
      else if c = 13 then output_string_with_len vt u [0x5c, 0x72] 2
      else if c = 9 then output_string_with_len vt u [0x5c, 0x74] 2
      else json_writer_escape_utf16 vt (ucast c) u)"

definition json_writer_escape_utf32 ::
    "'u grpc_json_writer_vtable \<Rightarrow> u32 \<Rightarrow> 'u \<Rightarrow> 'u option" where
  "json_writer_escape_utf32 vt utf32 u =
     (if utf32 \<ge> 0x10000 then
        (let x = utf32 - 0x10000 in
         do {
           u1 \<leftarrow> json_writer_escape_utf16 vt (ucast (0xd800 OR drop_bit 10 x)) u;
           json_writer_escape_utf16 vt (ucast (0xdc00 OR (x AND 0x3ff))) u1
         })
      else json_writer_escape_utf16 vt (ucast utf32) u)"

lemma json_utf8_tail_length:
  "json_utf8_tail n x s = Some (y, t) \<Longrightarrow> length t \<le> length s"
  by (induction n x s rule: json_utf8_tail.induct) (auto split: if_splits)

text \<open>The loop between the two quotes; it stops at zero and at invalid UTF-8.\<close>

function json_writer_escape_loop ::
    "'u grpc_json_writer_vtable \<Rightarrow> bytes \<Rightarrow> 'u \<Rightarrow> 'u option" where
  "json_writer_escape_loop vt [] u = Some u"
| "json_writer_escape_loop vt (c # s) u =
     (if c = 0 then Some u
      else if 32 \<le> c \<and> c \<le> 126 then
        (if c = 0x5c \<or> c = 0x22 \<comment> \<open>backslash, quote\<close> then do {
           u1 \<leftarrow> output_char vt u 0x5c;
           u2 \<leftarrow> output_char vt u1 c;
           json_writer_escape_loop vt s u2
         }
         else do { u1 \<leftarrow> output_char vt u c; json_writer_escape_loop vt s u1 })
      else if c < 32 \<or> c = 127 then
        do { u1 \<leftarrow> json_writer_control vt c u; json_writer_escape_loop vt s u1 }
      else
        (case json_utf8_head c of
           None \<Rightarrow> Some u
         | Some (x, extra) \<Rightarrow>
             (case json_utf8_tail extra x s of
                None \<Rightarrow> Some u
              | Some (utf32, s') \<Rightarrow>
                  if 0xd800 \<le> utf32 \<and> utf32 \<le> 0xdfff \<or> 0x110000 \<le> utf32 then Some u
                  else do {
                    u1 \<leftarrow> json_writer_escape_utf32 vt utf32 u;
                    json_writer_escape_loop vt s' u1
                  })))"
  by pat_completeness auto
termination
  by (relation "measure (\<lambda>(vt, s, u). length s)")
    (auto dest: json_utf8_tail_length simp: less_Suc_eq_le)

definition json_writer_escape_string ::
    "'u grpc_json_writer_vtable \<Rightarrow> bytes \<Rightarrow> 'u \<Rightarrow> 'u option" where
  "json_writer_escape_string vt s u =
     do {
       u1 \<leftarrow> output_char vt u 0x22;
       u2 \<leftarrow> json_writer_escape_loop vt s u1;
       output_char vt u2 0x22
     }"

section \<open>The calls of the interface\<close>

definition grpc_json_writer_container_begins ::
    "'u grpc_json_writer_vtable \<Rightarrow> grpc_json_type \<Rightarrow> grpc_json_writer \<Rightarrow> 'u \<Rightarrow>
       (grpc_json_writer \<times> 'u) option" where
  "grpc_json_writer_container_begins vt ty w u =
     do {
       (w1, u1) \<leftarrow> (if \<not> got_key w then json_writer_value_end vt w u else Some (w, u));
       u2 \<leftarrow> json_writer_output_indent vt w1 u1;
       u3 \<leftarrow> output_char vt u2 (if ty = GRPC_JSON_OBJECT then 0x7b else 0x5b);
       Some (w1\<lparr>container_empty := True, got_key := False, wdepth := wdepth w1 + 1\<rparr>, u3)
     }"

definition grpc_json_writer_container_ends ::
    "'u grpc_json_writer_vtable \<Rightarrow> grpc_json_type \<Rightarrow> grpc_json_writer \<Rightarrow> 'u \<Rightarrow>
       (grpc_json_writer \<times> 'u) option" where
  "grpc_json_writer_container_ends vt ty w u =
     do {
       u1 \<leftarrow> (if indent w \<noteq> 0 \<and> \<not> container_empty w then output_char vt u 0x0a else Some u);
       let w1 = w\<lparr>wdepth := wdepth w - 1\<rparr>;
       u2 \<leftarrow> (if \<not> container_empty w1 then json_writer_output_indent vt w1 u1 else Some u1);
       u3 \<leftarrow> output_char vt u2 (if ty = GRPC_JSON_OBJECT then 0x7d else 0x5d);
       Some (w1\<lparr>container_empty := False, got_key := False\<rparr>, u3)
     }"

definition grpc_json_writer_object_key ::
    "'u grpc_json_writer_vtable \<Rightarrow> bytes \<Rightarrow> grpc_json_writer \<Rightarrow> 'u \<Rightarrow>
       (grpc_json_writer \<times> 'u) option" where
  "grpc_json_writer_object_key vt s w u =
     do {
       (w1, u1) \<leftarrow> json_writer_value_end vt w u;
       u2 \<leftarrow> json_writer_output_indent vt w1 u1;
       u3 \<leftarrow> json_writer_escape_string vt s u2;
       u4 \<leftarrow> output_char vt u3 0x3a; \<comment> \<open>colon\<close>
       Some (w1\<lparr>got_key := True\<rparr>, u4)
     }"

definition grpc_json_writer_value_raw ::
    "'u grpc_json_writer_vtable \<Rightarrow> bytes \<Rightarrow> grpc_json_writer \<Rightarrow> 'u \<Rightarrow>
       (grpc_json_writer \<times> 'u) option" where
  "grpc_json_writer_value_raw vt s w u =
     do {
       (w1, u1) \<leftarrow> (if \<not> got_key w then json_writer_value_end vt w u else Some (w, u));
       u2 \<leftarrow> json_writer_output_indent vt w1 u1;
       u3 \<leftarrow> output_string vt u2 s;
       Some (w1\<lparr>got_key := False\<rparr>, u3)
     }"

definition grpc_json_writer_value_raw_with_len ::
    "'u grpc_json_writer_vtable \<Rightarrow> bytes \<Rightarrow> nat \<Rightarrow> grpc_json_writer \<Rightarrow> 'u \<Rightarrow>
       (grpc_json_writer \<times> 'u) option" where
  "grpc_json_writer_value_raw_with_len vt s len w u =
     do {
       (w1, u1) \<leftarrow> (if \<not> got_key w then json_writer_value_end vt w u else Some (w, u));
       u2 \<leftarrow> json_writer_output_indent vt w1 u1;
       u3 \<leftarrow> output_string_with_len vt u2 s len;
       Some (w1\<lparr>got_key := False\<rparr>, u3)
     }"

definition grpc_json_writer_value_string ::
    "'u grpc_json_writer_vtable \<Rightarrow> bytes \<Rightarrow> grpc_json_writer \<Rightarrow> 'u \<Rightarrow>
       (grpc_json_writer \<times> 'u) option" where
  "grpc_json_writer_value_string vt s w u =
     do {
       (w1, u1) \<leftarrow> (if \<not> got_key w then json_writer_value_end vt w u else Some (w, u));
       u2 \<leftarrow> json_writer_output_indent vt w1 u1;
       u3 \<leftarrow> json_writer_escape_string vt s u2;
       Some (w1\<lparr>got_key := False\<rparr>, u3)
     }"

end
