(* ===== verification/Json_String.thy ===== *)
theory Json_String
  imports Json_Writer
begin

text \<open>
  The in-memory JSON interface of \<^verbatim>\<open>src/core/json/json.c\<close> and
  \<^verbatim>\<open>src/core/json/json_string.c\<close>: the linked \<^verbatim>\<open>grpc_json\<close> nodes in a store, the
  reader callbacks that build them while they unescape strings in place in the
  input buffer, and the writer callbacks that grow an output buffer.

  Node pointers are addresses of the store and \<^const>\<open>None\<close> is \<^verbatim>\<open>NULL\<close>; string
  pointers are offsets into the input buffer. An access outside the buffer, or
  through a pointer that is null or freed, aborts the run.
\<close>

section \<open>Nodes\<close>

record grpc_json =
  next_ptr :: "nat option"
  prev_ptr :: "nat option"
  child_ptr :: "nat option"
  parent_ptr :: "nat option"
  jtype :: grpc_json_type
  jkey :: "nat option"
  jvalue :: "nat option"

type_synonym json_store = "nat \<Rightarrow> grpc_json option"

definition grpc_json_create :: "grpc_json_type \<Rightarrow> nat \<Rightarrow> json_store \<Rightarrow> json_store" where
  "grpc_json_create ty a h =
     h(a := Some \<lparr> next_ptr = None, prev_ptr = None, child_ptr = None, parent_ptr = None,
                   jtype = ty, jkey = None, jvalue = None \<rparr>)"

text \<open>Assignment to a field of a node through a pointer.\<close>

definition json_modify ::
    "nat \<Rightarrow> (grpc_json \<Rightarrow> grpc_json) \<Rightarrow> json_store \<Rightarrow> json_store option" where
  "json_modify a f h = do { n \<leftarrow> h a; Some (h(a := Some (f n))) }"

definition json_unlink :: "nat \<Rightarrow> json_store \<Rightarrow> json_store option" where
  "json_unlink a h =
     do {
       n \<leftarrow> h a;
       h1 \<leftarrow> (case next_ptr n of
                None \<Rightarrow> Some h
              | Some x \<Rightarrow> json_modify x (\<lambda>m. m\<lparr>prev_ptr := prev_ptr n\<rparr>) h);
       h2 \<leftarrow> (case prev_ptr n of
                Some p \<Rightarrow> json_modify p (\<lambda>m. m\<lparr>next_ptr := next_ptr n\<rparr>) h1
              | None \<Rightarrow>
                  (case parent_ptr n of
                     Some q \<Rightarrow> json_modify q (\<lambda>m. m\<lparr>child_ptr := next_ptr n\<rparr>) h1
                   | None \<Rightarrow> Some h1));
       Some (h2(a := None))
     }"

text \<open>
  \<^verbatim>\<open>while (json->child) grpc_json_destroy(json->child);\<close> is one destroyed child
  followed by the same call again.
\<close>

partial_function (option) grpc_json_destroy :: "nat \<Rightarrow> json_store \<Rightarrow> json_store option" where
  "grpc_json_destroy a h =
     do {
       n \<leftarrow> h a;
       (case child_ptr n of
          Some c \<Rightarrow> do { h1 \<leftarrow> grpc_json_destroy c h; grpc_json_destroy a h1 }
        | None \<Rightarrow> json_unlink a h)
     }"

declare grpc_json_destroy.simps [code]

section \<open>Reader callbacks\<close>

record json_reader_userdata =
  top_node :: "nat option"
  current_container :: "nat option"
  current_value :: "nat option"
  buffer :: bytes \<comment> \<open>the memory behind the pointers below\<close>
  input :: nat
  key_ptr :: "nat option"
  string_base :: "nat option"
  string_ptr :: nat
  remaining_input :: nat
  store :: json_store
  fresh :: nat \<comment> \<open>the address the next allocation returns\<close>

definition json_buffer_write :: "nat \<Rightarrow> u8 \<Rightarrow> bytes \<Rightarrow> bytes option" where
  "json_buffer_write i b buf = (if i < length buf then Some (buf[i := b]) else None)"

definition json_reader_string_clear :: "json_reader_userdata \<Rightarrow> json_reader_userdata option" where
  "json_reader_string_clear s =
     do {
       s1 \<leftarrow> (if string_base s \<noteq> None then do {
                 gpr_assert (string_ptr s < input s);
                 buf \<leftarrow> json_buffer_write (string_ptr s) 0 (buffer s);
                 Some (s\<lparr>buffer := buf, string_ptr := string_ptr s + 1\<rparr>)
               }
               else Some s);
       Some (s1\<lparr>string_base := Some (string_ptr s1)\<rparr>)
     }"

definition json_reader_string_add_char ::
    "json_reader_userdata \<Rightarrow> u32 \<Rightarrow> json_reader_userdata option" where
  "json_reader_string_add_char s c =
     do {
       gpr_assert (string_ptr s < input s);
       gpr_assert (c \<le> 0xff);
       buf \<leftarrow> json_buffer_write (string_ptr s) (ucast c) (buffer s);
       Some (s\<lparr>buffer := buf, string_ptr := string_ptr s + 1\<rparr>)
     }"

definition json_reader_string_add_utf32 ::
    "json_reader_userdata \<Rightarrow> u32 \<Rightarrow> json_reader_userdata option" where
  "json_reader_string_add_utf32 s c =
     (if c \<le> 0x7f then json_reader_string_add_char s c
      else if c \<le> 0x7ff then do {
        s1 \<leftarrow> json_reader_string_add_char s (0xc0 OR (drop_bit 6 c AND 0x1f));
        json_reader_string_add_char s1 (0x80 OR (c AND 0x3f))
      }
      else if c \<le> 0xffff then do {
        s1 \<leftarrow> json_reader_string_add_char s (0xe0 OR (drop_bit 12 c AND 0x0f));
        s2 \<leftarrow> json_reader_string_add_char s1 (0x80 OR (drop_bit 6 c AND 0x3f));
        json_reader_string_add_char s2 (0x80 OR (c AND 0x3f))
      }
      else if c \<le> 0x1fffff then do {
        s1 \<leftarrow> json_reader_string_add_char s (0xf0 OR (drop_bit 18 c AND 0x07));
        s2 \<leftarrow> json_reader_string_add_char s1 (0x80 OR (drop_bit 12 c AND 0x3f));
        s3 \<leftarrow> json_reader_string_add_char s2 (0x80 OR (drop_bit 6 c AND 0x3f));
        json_reader_string_add_char s3 (0x80 OR (c AND 0x3f))
      }
      else Some s)"

definition json_reader_read_char ::
    "json_reader_userdata \<Rightarrow> (u32 \<times> json_reader_userdata) option" where
  "json_reader_read_char s =
     (if remaining_input s = 0 then Some (GRPC_JSON_READ_CHAR_EOF, s)
      else if input s < length (buffer s) then
        (let r = buffer s ! input s;
             s1 = s\<lparr>input := input s + 1, remaining_input := remaining_input s - 1\<rparr> in
         if r = 0 then Some (GRPC_JSON_READ_CHAR_EOF, s1\<lparr>remaining_input := 0\<rparr>)
         else Some (ucast r, s1))
      else None)"

definition json_create_and_link ::
    "json_reader_userdata \<Rightarrow> grpc_json_type \<Rightarrow> (nat \<times> json_reader_userdata) option" where
  "json_create_and_link s ty =
     do {
       let a = fresh s;
       let h = grpc_json_create ty a (store s);
       h1 \<leftarrow> json_modify a (\<lambda>n. n\<lparr>parent_ptr := current_container s,
                                  prev_ptr := current_value s\<rparr>) h;
       h2 \<leftarrow> (case current_value s of
                None \<Rightarrow> Some h1
              | Some p \<Rightarrow> json_modify p (\<lambda>n. n\<lparr>next_ptr := Some a\<rparr>) h1);
       h3 \<leftarrow> (case current_container s of
                None \<Rightarrow> Some h2
              | Some q \<Rightarrow> do {
                  par \<leftarrow> h2 q;
                  h4 \<leftarrow> (if child_ptr par = None
                         then json_modify q (\<lambda>n. n\<lparr>child_ptr := Some a\<rparr>) h2
                         else Some h2);
                  (if jtype par = GRPC_JSON_OBJECT
                   then json_modify a (\<lambda>n. n\<lparr>jkey := key_ptr s\<rparr>) h4
                   else Some h4)
                });
       Some (a, s\<lparr>store := h3, fresh := a + 1, current_value := Some a,
                  top_node := (if top_node s = None then Some a else top_node s)\<rparr>)
     }"

definition json_reader_container_begins ::
    "json_reader_userdata \<Rightarrow> grpc_json_type \<Rightarrow> json_reader_userdata option" where
  "json_reader_container_begins s ty =
     do {
       gpr_assert (ty = GRPC_JSON_ARRAY \<or> ty = GRPC_JSON_OBJECT);
       (container, s1) \<leftarrow> json_create_and_link s ty;
       Some (s1\<lparr>current_container := Some container, current_value := None\<rparr>)
     }"

definition json_reader_container_ends ::
    "json_reader_userdata \<Rightarrow> (grpc_json_type \<times> json_reader_userdata) option" where
  "json_reader_container_ends s =
     do {
       gpr_assert (current_container s \<noteq> None);
       n \<leftarrow> store s (the (current_container s));
       let s1 = s\<lparr>current_value := current_container s, current_container := parent_ptr n\<rparr>;
       (case current_container s1 of
          None \<Rightarrow> Some (GRPC_JSON_TOP_LEVEL, s1)
        | Some q \<Rightarrow> do { m \<leftarrow> store s1 q; Some (jtype m, s1) })
     }"

definition json_reader_set_key :: "json_reader_userdata \<Rightarrow> json_reader_userdata option" where
  "json_reader_set_key s = Some (s\<lparr>key_ptr := string_base s\<rparr>)"

definition json_reader_set_string :: "json_reader_userdata \<Rightarrow> json_reader_userdata option" where
  "json_reader_set_string s =
     do {
       (a, s1) \<leftarrow> json_create_and_link s GRPC_JSON_STRING;
       h \<leftarrow> json_modify a (\<lambda>n. n\<lparr>jvalue := string_base s1\<rparr>) (store s1);
       Some (s1\<lparr>store := h\<rparr>)
     }"

definition json_reader_set_number ::
    "json_reader_userdata \<Rightarrow> (bool \<times> json_reader_userdata) option" where
  "json_reader_set_number s =
     do {
       (a, s1) \<leftarrow> json_create_and_link s GRPC_JSON_NUMBER;
       h \<leftarrow> json_modify a (\<lambda>n. n\<lparr>jvalue := string_base s1\<rparr>) (store s1);
       Some (True, s1\<lparr>store := h\<rparr>)
     }"

definition json_reader_set_true :: "json_reader_userdata \<Rightarrow> json_reader_userdata option" where
  "json_reader_set_true s = map_option snd (json_create_and_link s GRPC_JSON_TRUE)"

definition json_reader_set_false :: "json_reader_userdata \<Rightarrow> json_reader_userdata option" where
  "json_reader_set_false s = map_option snd (json_create_and_link s GRPC_JSON_FALSE)"

definition json_reader_set_null :: "json_reader_userdata \<Rightarrow> json_reader_userdata option" where
  "json_reader_set_null s = map_option snd (json_create_and_link s GRPC_JSON_NULL)"

definition reader_vtable :: "json_reader_userdata grpc_json_reader_vtable" where
  "reader_vtable =
     \<lparr> string_clear = json_reader_string_clear,
       string_add_char = json_reader_string_add_char,
       string_add_utf32 = json_reader_string_add_utf32,
       read_char = json_reader_read_char,
       container_begins = json_reader_container_begins,
       container_ends = json_reader_container_ends,
       set_key = json_reader_set_key,
       set_string = json_reader_set_string,
       set_number = json_reader_set_number,
       set_true = json_reader_set_true,
       set_false = json_reader_set_false,
       set_null = json_reader_set_null \<rparr>"

section \<open>Parsing\<close>

definition json_parse_start :: "bytes \<Rightarrow> nat \<Rightarrow> json_reader_userdata" where
  "json_parse_start buf len =
     \<lparr> top_node = None, current_container = None, current_value = None,
       buffer = buf, input = 0, key_ptr = None, string_base = None, string_ptr = 0,
       remaining_input = len, store = (\<lambda>_. None), fresh = 0 \<rparr>"

text \<open>
  The result is the returned pointer with the final user data, whose buffer and
  store hold the strings and the nodes of the tree.
\<close>

definition grpc_json_parse_string_with_len ::
    "bytes \<Rightarrow> nat \<Rightarrow> (nat option \<times> json_reader_userdata) option" where
  "grpc_json_parse_string_with_len buf len =
     do {
       (reader, s) \<leftarrow> grpc_json_reader_init reader_vtable (json_parse_start buf len);
       (status, reader1, s1) \<leftarrow> grpc_json_reader_run reader_vtable reader s;
       (case top_node s1 of
          Some a \<Rightarrow>
            (if status \<noteq> GRPC_JSON_DONE then do {
               h \<leftarrow> grpc_json_destroy a (store s1);
               Some (None, s1\<lparr>store := h\<rparr>)
             }
             else Some (Some a, s1))
        | None \<Rightarrow> Some (None, s1))
     }"

definition UNBOUND_JSON_STRING_LENGTH :: nat where
  "UNBOUND_JSON_STRING_LENGTH = 0x7fffffff"

definition grpc_json_parse_string ::
    "bytes \<Rightarrow> (nat option \<times> json_reader_userdata) option" where
  "grpc_json_parse_string buf = grpc_json_parse_string_with_len buf UNBOUND_JSON_STRING_LENGTH"

section \<open>Writer callbacks and dumping\<close>

record json_writer_userdata =
  out_buf :: bytes \<comment> \<open>the allocated memory\<close>
  free_space :: u64
  string_len :: u64
  allocated :: u64

text \<open>
  \<^verbatim>\<open>gpr_realloc\<close> keeps the common prefix; the new bytes are indeterminate, here
  zero. \<^verbatim>\<open>~0xffU\<close> is a 32-bit constant that is widened with zeros.
\<close>

definition gpr_realloc_bytes :: "bytes \<Rightarrow> nat \<Rightarrow> bytes" where
  "gpr_realloc_bytes m n = take n m @ replicate (n - length m) 0"

definition json_writer_output_check ::
    "json_writer_userdata \<Rightarrow> u64 \<Rightarrow> json_writer_userdata" where
  "json_writer_output_check s needed =
     (if free_space s \<ge> needed then s
      else
        (let needed1 = needed - free_space s;
             needed2 = (needed1 + 0xff) AND 0xffffff00 in
         s\<lparr>out_buf := gpr_realloc_bytes (out_buf s) (unat (allocated s + needed2)),
           free_space := free_space s + needed2,
           allocated := allocated s + needed2\<rparr>))"

definition json_writer_output_char ::
    "json_writer_userdata \<Rightarrow> u8 \<Rightarrow> json_writer_userdata option" where
  "json_writer_output_char s0 c =
     (let s = json_writer_output_check s0 1 in
      do {
        m \<leftarrow> json_buffer_write (unat (string_len s)) c (out_buf s);
        Some (s\<lparr>out_buf := m, string_len := string_len s + 1, free_space := free_space s - 1\<rparr>)
      })"

text \<open>\<^verbatim>\<open>memcpy\<close> of \<open>len\<close> bytes of \<open>str\<close> to the end of the text.\<close>

definition json_writer_output_string_with_len ::
    "json_writer_userdata \<Rightarrow> bytes \<Rightarrow> nat \<Rightarrow> json_writer_userdata option" where
  "json_writer_output_string_with_len s0 str len =
     (let s = json_writer_output_check s0 (of_nat len); i = unat (string_len s) in
      do {
        gpr_assert (len \<le> length str \<and> i + len \<le> length (out_buf s));
        Some (s\<lparr>out_buf := take i (out_buf s) @ take len str @ drop (i + len) (out_buf s),
                string_len := string_len s + of_nat len,
                free_space := free_space s - of_nat len\<rparr>)
      })"

definition json_strlen :: "bytes \<Rightarrow> nat" where
  "json_strlen s = length (takeWhile (\<lambda>b. b \<noteq> 0) s)"

definition json_writer_output_string ::
    "json_writer_userdata \<Rightarrow> bytes \<Rightarrow> json_writer_userdata option" where
  "json_writer_output_string s str = json_writer_output_string_with_len s str (json_strlen str)"

definition writer_vtable :: "json_writer_userdata grpc_json_writer_vtable" where
  "writer_vtable =
     \<lparr> output_char = json_writer_output_char,
       output_string = json_writer_output_string,
       output_string_with_len = json_writer_output_string_with_len \<rparr>"

text \<open>
  The C string a pointer of the tree refers to; reading through a null pointer
  aborts.
\<close>

definition json_c_string :: "bytes \<Rightarrow> nat option \<Rightarrow> bytes option" where
  "json_c_string buf p = map_option (\<lambda>i. takeWhile (\<lambda>b. b \<noteq> 0) (drop i buf)) p"

partial_function (option) json_dump_recursive ::
    "'u grpc_json_writer_vtable \<Rightarrow> bytes \<Rightarrow> json_store \<Rightarrow> nat option \<Rightarrow> bool \<Rightarrow>
       grpc_json_writer \<times> 'u \<Rightarrow> (grpc_json_writer \<times> 'u) option" where
  "json_dump_recursive vt buf h p in_obj wu =
     (case p of
        None \<Rightarrow> Some wu
      | Some a \<Rightarrow> do {
          n \<leftarrow> h a;
          (w1, u1) \<leftarrow> (if in_obj then do {
                         k \<leftarrow> json_c_string buf (jkey n);
                         grpc_json_writer_object_key vt k (fst wu) (snd wu)
                       }
                       else Some wu);
          wu2 \<leftarrow>
            (if jtype n = GRPC_JSON_OBJECT \<or> jtype n = GRPC_JSON_ARRAY then do {
               wu3 \<leftarrow> grpc_json_writer_container_begins vt (jtype n) w1 u1;
               wu4 \<leftarrow> (if child_ptr n \<noteq> None
                       then json_dump_recursive vt buf h (child_ptr n)
                              (jtype n = GRPC_JSON_OBJECT) wu3
                       else Some wu3);
               grpc_json_writer_container_ends vt (jtype n) (fst wu4) (snd wu4)
             }
             else if jtype n = GRPC_JSON_STRING then do {
               v \<leftarrow> json_c_string buf (jvalue n);
               grpc_json_writer_value_string vt v w1 u1
             }
             else if jtype n = GRPC_JSON_NUMBER then do {
               v \<leftarrow> json_c_string buf (jvalue n);
               grpc_json_writer_value_raw vt v w1 u1
             }
             else if jtype n = GRPC_JSON_TRUE then
               grpc_json_writer_value_raw_with_len vt [0x74, 0x72, 0x75, 0x65] 4 w1 u1
             else if jtype n = GRPC_JSON_FALSE then
               grpc_json_writer_value_raw_with_len vt [0x66, 0x61, 0x6c, 0x73, 0x65] 5 w1 u1
             else if jtype n = GRPC_JSON_NULL then
               grpc_json_writer_value_raw_with_len vt [0x6e, 0x75, 0x6c, 0x6c] 4 w1 u1
             else None);
          json_dump_recursive vt buf h (next_ptr n) in_obj wu2
        })"

declare json_dump_recursive.simps [code]

definition grpc_json_dump_to_string ::
    "bytes \<Rightarrow> json_store \<Rightarrow> nat option \<Rightarrow> int \<Rightarrow> bytes option" where
  "grpc_json_dump_to_string buf h p ind =
     do {
       (w, s) \<leftarrow> json_dump_recursive writer_vtable buf h p False
                  (grpc_json_writer_init ind,
                   \<lparr> out_buf = [], free_space = 0, string_len = 0, allocated = 0 \<rparr>);
       s1 \<leftarrow> json_writer_output_char s 0;
       Some (out_buf s1)
     }"


text \<open>The definitions of the in-memory reader, for evaluation on closed input.\<close>

lemmas json_callback_defs =
  json_reader_string_clear_def json_reader_string_add_char_def
  json_reader_string_add_utf32_def json_reader_read_char_def
  json_reader_container_begins_def json_reader_container_ends_def
  json_reader_set_key_def json_reader_set_string_def json_reader_set_number_def
  json_reader_set_true_def json_reader_set_false_def json_reader_set_null_def

lemmas json_parse_exec =
  grpc_json_parse_string_def grpc_json_parse_string_with_len_def json_parse_start_def
  UNBOUND_JSON_STRING_LENGTH_def reader_vtable_def json_callback_defs json_reader_exec
  json_buffer_write_def json_create_and_link_def json_modify_def grpc_json_create_def
  json_unlink_def grpc_json_destroy.simps

end
