(* ===== verification/Json_Tree.thy ===== *)
theory Json_Tree
  imports Json_String
begin

text \<open>
  Trees of \<^verbatim>\<open>grpc_json\<close> nodes: when the linked nodes of a store represent a forest,
  and that destroying a tree frees exactly its nodes.
\<close>

datatype gtree = GNode (gaddr: nat) (gkids: "gtree list")

fun gaddrs :: "gtree list \<Rightarrow> nat list" where
  "gaddrs [] = []"
| "gaddrs (GNode a cs # ts) = a # gaddrs cs @ gaddrs ts"

definition gfirst :: "gtree list \<Rightarrow> nat option \<Rightarrow> nat option" where
  "gfirst ts d = (if ts = [] then d else Some (gaddr (hd ts)))"

definition glast :: "gtree list \<Rightarrow> nat option \<Rightarrow> nat option" where
  "glast ts d = (if ts = [] then d else Some (gaddr (last ts)))"

lemma gfirst_simps [simp]:
  "gfirst [] d = d" "gfirst (GNode a cs # ts) d = Some a"
  by (simp_all add: gfirst_def)

lemma glast_simps [simp]:
  "glast [] d = d" "glast (ts @ [GNode a cs]) d = Some a"
  by (simp_all add: glast_def)

fun glinked :: "json_store \<Rightarrow> nat option \<Rightarrow> nat option \<Rightarrow> nat option \<Rightarrow> gtree list \<Rightarrow> bool" where
  "glinked h par prv nxt [] \<longleftrightarrow> True"
| "glinked h par prv nxt (GNode a cs # ts) \<longleftrightarrow>
     (\<exists>n. h a = Some n \<and> parent_ptr n = par \<and> prev_ptr n = prv \<and>
          next_ptr n = gfirst ts nxt \<and> child_ptr n = gfirst cs None) \<and>
     glinked h (Some a) None None cs \<and> glinked h par (Some a) nxt ts"

lemma gaddrs_append [simp]: "gaddrs (xs @ ys) = gaddrs xs @ gaddrs ys"
  by (induction xs rule: gaddrs.induct) auto

lemma glinked_cong:
  "(\<And>x. x \<in> set (gaddrs ts) \<Longrightarrow> h' x = h x) \<Longrightarrow> glinked h' par prv nxt ts = glinked h par prv nxt ts"
  by (induction h par prv nxt ts rule: glinked.induct) auto

lemma glinked_dom: "glinked h par prv nxt ts \<Longrightarrow> x \<in> set (gaddrs ts) \<Longrightarrow> \<exists>n. h x = Some n"
  by (induction h par prv nxt ts rule: glinked.induct) auto

lemma glinked_append:
  "glinked h par prv nxt (xs @ ys) \<longleftrightarrow>
     glinked h par prv (gfirst ys nxt) xs \<and> glinked h par (glast xs prv) nxt ys"
proof (induction xs arbitrary: prv)
  case (Cons x xs)
  obtain a cs where "x = GNode a cs" by (cases x)
  with Cons show ?case
    by (cases xs; cases ys) (auto simp: gfirst_def glast_def)
qed simp

lemma gfirst_last_in:
  "gfirst ts None = Some x \<Longrightarrow> x \<in> set (gaddrs ts)"
  "glast ts None = Some x \<Longrightarrow> x \<in> set (gaddrs ts)"
proof -
  show "gfirst ts None = Some x \<Longrightarrow> x \<in> set (gaddrs ts)"
    by (cases ts rule: gaddrs.cases) (auto simp: gfirst_def)
  show "glast ts None = Some x \<Longrightarrow> x \<in> set (gaddrs ts)"
  proof (cases ts rule: rev_cases)
    case (snoc us t)
    then show "glast ts None = Some x \<Longrightarrow> x \<in> set (gaddrs ts)"
      by (cases t) (auto simp: glast_def)
  qed (simp add: glast_def)
qed

lemma glinked_last_next:
  assumes "glinked h par prv None (ts @ [GNode b cs])" "distinct (gaddrs (ts @ [GNode b cs]))"
    and "h' b = map_option (\<lambda>n. n\<lparr>next_ptr := nxt\<rparr>) (h b)"
    and "\<And>x. x \<in> set (gaddrs (ts @ [GNode b cs])) \<Longrightarrow> x \<noteq> b \<Longrightarrow> h' x = h x"
  shows "glinked h' par prv nxt (ts @ [GNode b cs])"
proof -
  have "glinked h' par prv (Some b) ts = glinked h par prv (Some b) ts"
    using assms(2,4) by (intro glinked_cong) auto
  moreover have "glinked h' (Some b) None None cs = glinked h (Some b) None None cs"
    using assms(2,4) by (intro glinked_cong) auto
  ultimately show ?thesis using assms(1,3) by (auto simp: glinked_append)
qed

lemma glinked_first_prev:
  assumes "glinked h par prv nxt ts" "distinct (gaddrs ts)"
    and "\<And>x. x \<in> set (gaddrs ts) \<Longrightarrow> h' x =
       (if gfirst ts None = Some x then map_option (\<lambda>n. n\<lparr>prev_ptr := prv'\<rparr>) (h x) else h x)"
  shows "glinked h' par prv' nxt ts"
proof (cases ts rule: gaddrs.cases)
  case (2 b cs us)
  have "glinked h' par (Some b) nxt us = glinked h par (Some b) nxt us"
    using assms(2,3) 2 by (intro glinked_cong) auto
  moreover have "glinked h' (Some b) None None cs = glinked h (Some b) None None cs"
    using assms(2,3) 2 by (intro glinked_cong) auto
  ultimately show ?thesis using assms(1) assms(3)[of b] 2 by auto
qed simp

section \<open>Adding a node at the end of the open container\<close>

fun gins :: "nat \<Rightarrow> nat \<Rightarrow> gtree list \<Rightarrow> gtree list" where
  "gins 0 a ts = ts @ [GNode a []]"
| "gins (Suc d) a ts = butlast ts @ [GNode (gaddr (last ts)) (gins d a (gkids (last ts)))]"

fun gspine :: "json_store \<Rightarrow> nat option \<Rightarrow> gtree list \<Rightarrow> grpc_json_type list \<Rightarrow>
    nat option \<Rightarrow> nat option \<Rightarrow> bool" where
  "gspine h par ts [] cc cv \<longleftrightarrow> cc = par \<and> cv = glast ts None"
| "gspine h par ts (ty # tys) cc cv \<longleftrightarrow>
     ts \<noteq> [] \<and> (\<exists>n. h (gaddr (last ts)) = Some n \<and> jtype n = ty) \<and>
     gspine h (Some (gaddr (last ts))) (gkids (last ts)) tys cc cv"

definition glink_store ::
    "json_store \<Rightarrow> nat \<Rightarrow> grpc_json \<Rightarrow> nat option \<Rightarrow> nat option \<Rightarrow> json_store" where
  "glink_store h a new cc cv x =
     (if x = a then Some new
      else map_option (\<lambda>n. n\<lparr>next_ptr := (if cv = Some x then Some a else next_ptr n),
             child_ptr := (if cc = Some x \<and> child_ptr n = None then Some a else child_ptr n)\<rparr>) (h x))"

lemma glink_store_same [simp]:
  "x \<noteq> a \<Longrightarrow> cv \<noteq> Some x \<Longrightarrow> cc \<noteq> Some x \<Longrightarrow> glink_store h a new cc cv x = h x"
  by (cases "h x") (auto simp: glink_store_def)

lemma glink_store_type:
  "h x = Some n \<Longrightarrow> x \<noteq> a \<Longrightarrow> \<exists>m. glink_store h a new cc cv x = Some m \<and> jtype m = jtype n"
  by (simp add: glink_store_def)

lemma gspine_last:
  assumes "gspine h par ts (ty # tys) cc cv"
  obtains us b cs where "ts = us @ [GNode b cs]" "gspine h (Some b) cs tys cc cv"
proof -
  from assms have "ts \<noteq> []" by simp
  then obtain us t where "ts = us @ [t]" by (cases ts rule: rev_cases) auto
  with assms show thesis by (cases t) (auto intro: that)
qed

lemma gspine_in:
  "gspine h par ts tys cc cv \<Longrightarrow> (cc = par \<or> (\<exists>x. cc = Some x \<and> x \<in> set (gaddrs ts)))"
  "gspine h par ts tys cc cv \<Longrightarrow> (cv = None \<or> (\<exists>x. cv = Some x \<and> x \<in> set (gaddrs ts)))"
proof (induction tys arbitrary: par ts)
  case Nil
  { case 1 then show ?case by simp }
  { case 2 then show ?case using gfirst_last_in(2)[of ts] by (cases cv) auto }
next
  case (Cons ty tys)
  { case 1
    then obtain us b cs where "ts = us @ [GNode b cs]" "gspine h (Some b) cs tys cc cv"
      by (rule gspine_last)
    with Cons.IH(1)[of "Some b" cs] show ?case by auto }
  { case 2
    then obtain us b cs where "ts = us @ [GNode b cs]" "gspine h (Some b) cs tys cc cv"
      by (rule gspine_last)
    with Cons.IH(2)[of "Some b" cs] show ?case by auto }
qed

lemma glinked_gins:
  assumes "glinked h par None None ts" "gspine h par ts tys cc cv"
    and "distinct (gaddrs ts)" "a \<notin> set (gaddrs ts)"
    and "\<And>p. par = Some p \<Longrightarrow> p \<noteq> a \<and> p \<notin> set (gaddrs ts)"
    and "parent_ptr new = cc" "prev_ptr new = cv" "next_ptr new = None" "child_ptr new = None"
  shows "glinked (glink_store h a new cc cv) par None None (gins (length tys) a ts)"
  using assms(1-5)
proof (induction tys arbitrary: par ts)
  case Nil
  let ?h = "glink_store h a new cc cv"
  from Nil.prems(2) have cc: "cc = par" "cv = glast ts None" by simp_all
  have new: "?h a = Some new" by (simp add: glink_store_def)
  show ?case
  proof (cases ts rule: rev_cases)
    case Nil
    with cc new assms(6-9) show ?thesis by simp
  next
    case (snoc us t)
    obtain b cs where t: "t = GNode b cs" by (cases t)
    from Nil.prems(3-5) snoc t cc
    have "b \<noteq> a" "cc \<noteq> Some b" "cv = Some b" by (auto simp: glast_def)
    then have hb: "?h b = map_option (\<lambda>n. n\<lparr>next_ptr := Some a\<rparr>) (h b)"
      by (cases "h b") (auto simp: glink_store_def)
    have same: "?h x = h x" if "x \<in> set (gaddrs (us @ [GNode b cs]))" "x \<noteq> b" for x
    proof (rule glink_store_same)
      have "x \<in> set (gaddrs ts)" using that(1) snoc t by simp
      with Nil.prems(4,5) cc(1) show "x \<noteq> a" "cc \<noteq> Some x" by blast+
      show "cv \<noteq> Some x" using \<open>cv = Some b\<close> that(2) by simp
    qed
    from Nil.prems(1,3) snoc t
    have "glinked h par None None (us @ [GNode b cs])" "distinct (gaddrs (us @ [GNode b cs]))"
      by (simp_all only:)
    from glinked_last_next[OF this hb same]
    have "glinked ?h par None (Some a) (us @ [GNode b cs])" .
    with snoc t new cc assms(6-9) show ?thesis
      by (simp add: glinked_append)
  qed
next
  case (Cons ty tys)
  let ?h = "glink_store h a new cc cv"
  from Cons.prems(2) have "ts \<noteq> []" by simp
  then obtain us b cs where ts: "ts = us @ [GNode b cs]"
    by (metis append_butlast_last_id gtree.collapse)
  from Cons.prems(2) ts have sp: "gspine h (Some b) cs tys cc cv" by simp
  from Cons.prems(1) ts obtain n where
    l: "glinked h par None (Some b) us" "glinked h (Some b) None None cs"
    and n: "h b = Some n" "parent_ptr n = par" "prev_ptr n = glast us None" "next_ptr n = None"
      "child_ptr n = gfirst cs None"
    by (auto simp: glinked_append)
  from Cons.prems(3,4) ts have d: "distinct (gaddrs us)" "distinct (gaddrs cs)" "b \<notin> set (gaddrs us)"
      "b \<notin> set (gaddrs cs)" "set (gaddrs us) \<inter> set (gaddrs cs) = {}" "a \<noteq> b" "a \<notin> set (gaddrs us)"
      "a \<notin> set (gaddrs cs)"
    by auto
  have kids: "glinked ?h (Some b) None None (gins (length tys) a cs)"
    using Cons.IH[OF l(2) sp d(2,8)] d by auto
  have in_cs: "\<And>x. cc = Some x \<Longrightarrow> x = b \<or> x \<in> set (gaddrs cs)" "\<And>x. cv = Some x \<Longrightarrow> x \<in> set (gaddrs cs)"
    using gspine_in[OF sp] by auto
  have us: "glinked ?h par None (Some b) us"
  proof -
    have "?h x = h x" if "x \<in> set (gaddrs us)" for x
      using that d in_cs by (intro glink_store_same) blast+
    with l(1) show ?thesis using glinked_cong[of us ?h h] by simp
  qed
  have first: "gfirst (gins (length tys) a cs) None = (if cc = Some b \<and> gfirst cs None = None then Some a else gfirst cs None)"
  proof (cases tys)
    case Nil
    with sp show ?thesis by (cases cs) (auto simp: gfirst_def)
  next
    case (Cons ty' tys')
    with sp have "cs \<noteq> []" by simp
    then show ?thesis using Cons
      by (cases cs) (auto simp: gfirst_def)
  qed
  have "cv \<noteq> Some b" using in_cs(2) d(4) by auto
  with n d(6) first have "?h b = Some (n\<lparr>child_ptr := gfirst (gins (length tys) a cs) None\<rparr>)"
    by (auto simp: glink_store_def)
  with us kids n ts show ?case by (simp add: glinked_append)
qed

lemma gaddrs_gins:
  "length tys = d \<Longrightarrow> gspine h par ts tys cc cv \<Longrightarrow>
     distinct (gaddrs (gins d a ts)) = distinct (a # gaddrs ts) \<and>
     set (gaddrs (gins d a ts)) = insert a (set (gaddrs ts))"
proof (induction tys arbitrary: d par ts)
  case (Cons ty tys)
  from Cons.prems(2) obtain us b cs where ts: "ts = us @ [GNode b cs]" "gspine h (Some b) cs tys cc cv"
    by (rule gspine_last)
  have d: "d = Suc (length tys)" using Cons.prems(1) by simp
  from Cons.IH[OF refl ts(2)]
  have "distinct (gaddrs (gins (length tys) a cs)) \<longleftrightarrow> a \<notin> set (gaddrs cs) \<and> distinct (gaddrs cs)"
    "set (gaddrs (gins (length tys) a cs)) = insert a (set (gaddrs cs))" by simp_all
  then show ?case unfolding d ts(1) by auto
qed auto

lemma gspine_gins:
  assumes "gspine h par ts tys cc cv" "a \<notin> set (gaddrs ts)" "distinct (gaddrs ts)"
    and "glinked h par None None ts"
  shows "gspine (glink_store h a new cc cv) par (gins (length tys) a ts) tys cc (Some a)"
  using assms
proof (induction tys arbitrary: par ts)
  case (Cons ty tys)
  from Cons.prems(1) obtain us b cs where ts: "ts = us @ [GNode b cs]" "gspine h (Some b) cs tys cc cv"
    by (rule gspine_last)
  with Cons.prems have "gspine (glink_store h a new cc cv) (Some b) (gins (length tys) a cs) tys cc (Some a)"
    by (intro Cons.IH) (auto simp: glinked_append)
  moreover from Cons.prems(1,2) ts(1) have "\<exists>m. glink_store h a new cc cv b = Some m \<and> jtype m = ty"
    using glink_store_type[of h b _ a new cc cv] by auto
  ultimately show ?case using ts(1) by simp
qed simp

text \<open>Opening the container just added, and closing the innermost one.\<close>

lemma gspine_push:
  "gspine h par ts tys cc cv \<Longrightarrow> h a = Some n \<Longrightarrow> jtype n = ty \<Longrightarrow> a \<notin> set (gaddrs ts) \<Longrightarrow>
     gspine h par (gins (length tys) a ts) (tys @ [ty]) (Some a) None"
proof (induction tys arbitrary: par ts)
  case (Cons ty' tys)
  then obtain us b cs where ts: "ts = us @ [GNode b cs]"
    by (metis gspine.simps(2) append_butlast_last_id gtree.collapse)
  with Cons show ?case by simp
qed simp

lemma gspine_pop:
  assumes "gspine h par ts (tys @ [ty]) cc cv" "glinked h par None None ts"
  shows "\<exists>c n. cc = Some c \<and> h c = Some n \<and> jtype n = ty \<and>
           gspine h par ts tys (parent_ptr n) (Some c)"
  using assms
proof (induction tys arbitrary: par ts)
  case Nil
  then obtain us b cs where ts: "ts = us @ [GNode b cs]"
    by (metis append_Nil gspine.simps(2) append_butlast_last_id gtree.collapse)
  with Nil show ?case by (auto simp: glinked_append glast_def)
next
  case (Cons ty' tys)
  then obtain us b cs where ts: "ts = us @ [GNode b cs]"
    by (metis append_Cons gspine.simps(2) append_butlast_last_id gtree.collapse)
  with Cons.prems(2) have "glinked h (Some b) None None cs" by (simp add: glinked_append)
  with Cons ts show ?case by auto
qed

lemma gspine_type:
  "gspine h None ts tys cc cv \<Longrightarrow>
     (tys = [] \<and> cc = None) \<or>
     (\<exists>c n. tys \<noteq> [] \<and> cc = Some c \<and> h c = Some n \<and> jtype n = last tys)"
proof (induction tys arbitrary: ts rule: rev_induct)
  case (snoc ty tys)
  have "\<exists>c n. cc = Some c \<and> h c = Some n \<and> jtype n = ty"
    if "gspine h par ts (tys @ [ty]) cc cv" for par ts
    using that by (induction tys arbitrary: par ts) auto
  with snoc.prems show ?case by force
qed simp

section \<open>Destroying a node\<close>

definition gunlink_store ::
    "json_store \<Rightarrow> nat set \<Rightarrow> nat option \<Rightarrow> nat option \<Rightarrow> nat option \<Rightarrow> json_store" where
  "gunlink_store h gone par prv nxt x =
     (if x \<in> gone then None
      else map_option (\<lambda>n. n\<lparr>prev_ptr := (if nxt = Some x then prv else prev_ptr n),
             next_ptr := (if prv = Some x then nxt else next_ptr n),
             child_ptr := (if prv = None \<and> par = Some x then nxt else child_ptr n)\<rparr>) (h x))"

lemma grpc_json_destroy_correct:
  assumes "glinked h par prv nxt' [GNode a cs]" "nxt' = nxt" "distinct (gaddrs [GNode a cs])"
    and "\<forall>q \<in> set_option par \<union> set_option prv \<union> set_option nxt. q \<notin> set (gaddrs [GNode a cs]) \<and> h q \<noteq> None"
    and "par = None \<or> par \<noteq> prv \<and> par \<noteq> nxt" "prv = None \<or> prv \<noteq> nxt"
  shows "grpc_json_destroy a h = Some (gunlink_store h (set (gaddrs [GNode a cs])) par prv nxt)"
  using assms
proof (induction "length (gaddrs [GNode a cs])" arbitrary: h par prv nxt nxt' a cs rule: less_induct)
  case less
  from less.prems(1,2) obtain n where n: "h a = Some n" "parent_ptr n = par" "prev_ptr n = prv" "next_ptr n = nxt"
      "child_ptr n = gfirst cs None" and kids: "glinked h (Some a) None None cs"
    by auto
  show ?case
  proof (cases cs rule: gaddrs.cases)
    case 1
    with n less.prems(3-6) show ?thesis
      apply (subst grpc_json_destroy.simps)
      apply (simp add: json_unlink_def json_modify_def)
      apply (cases par; cases prv; cases nxt;
          auto simp: gunlink_store_def fun_eq_iff json_modify_def option.map_ident)
      done
  next
    case (2 c ds cs')
    let ?gone = "set (gaddrs [GNode c ds])"
    let ?h1 = "gunlink_store h ?gone (Some a) None (gfirst cs' None)"
    have d: "distinct (gaddrs [GNode c ds])" "distinct (gaddrs cs')" "a \<notin> ?gone" "a \<notin> set (gaddrs cs')"
        "?gone \<inter> set (gaddrs cs') = {}"
      using less.prems(3) 2 by auto
    have fst_in: "x \<in> set (gaddrs cs')" if "gfirst cs' None = Some x" for x
      using that gfirst_last_in(1) by blast
    from kids 2 have k2: "glinked h (Some a) None (gfirst cs' None) [GNode c ds]" "glinked h (Some a) (Some c) None cs'"
      by auto
    have "grpc_json_destroy c h = Some ?h1"
    proof (rule less.hyps[OF _ k2(1) refl d(1)])
      show "\<forall>q \<in> set_option (Some a) \<union> set_option None \<union> set_option (gfirst cs' None).
          q \<notin> ?gone \<and> h q \<noteq> None"
        using n(1) d fst_in glinked_dom[OF k2(2)] by fastforce
    qed (use 2 d(4) fst_in in auto)
    moreover
    have "?h1 x = (if gfirst cs' None = Some x then map_option (\<lambda>n. n\<lparr>prev_ptr := None\<rparr>) (h x) else h x)"
      if "x \<in> set (gaddrs cs')" for x
      using that d by (cases "h x") (auto simp: gunlink_store_def)
    from glinked_first_prev[OF k2(2) d(2) this] have "glinked ?h1 (Some a) None None cs'"
      by simp
    then have l1: "glinked ?h1 par prv nxt [GNode a cs']"
      using n d by (auto simp: gunlink_store_def dest: fst_in)
    have "grpc_json_destroy a ?h1 = Some (gunlink_store ?h1 (set (gaddrs [GNode a cs'])) par prv nxt)"
    proof (rule less.hyps[OF _ l1 refl])
      show "\<forall>q \<in> set_option par \<union> set_option prv \<union> set_option nxt.
          q \<notin> set (gaddrs [GNode a cs']) \<and> ?h1 q \<noteq> None"
        using less.prems(4) 2 by (auto simp: gunlink_store_def)
    qed (use 2 d less.prems(5,6) in auto)
    moreover have "gunlink_store ?h1 (set (gaddrs [GNode a cs'])) par prv nxt =
        gunlink_store h (set (gaddrs [GNode a cs])) par prv nxt"
    proof
      fix x
      show "gunlink_store ?h1 (set (gaddrs [GNode a cs'])) par prv nxt x =
        gunlink_store h (set (gaddrs [GNode a cs])) par prv nxt x"
      proof (cases "x \<in> set (gaddrs [GNode a cs])")
        case True
        with 2 show ?thesis by (auto simp: gunlink_store_def)
      next
        case False
        with 2 fst_in have "x \<noteq> a" "x \<notin> ?gone" "gfirst cs' None \<noteq> Some x" "x \<notin> set (gaddrs cs')"
          by auto
        then have "?h1 x = h x" by (cases "h x") (auto simp: gunlink_store_def)
        with False 2 show ?thesis by (auto simp: gunlink_store_def)
      qed
    qed
    ultimately show ?thesis using n 2
      by (subst grpc_json_destroy.simps) simp
  qed
qed

end
