(* ===== verification/Json_Reader_Client.thy ===== *)
theory Json_Reader_Client
  imports Json_Reader
begin

text \<open>
  The contract between the JSON reader and its callbacks, as the locale
  \<open>json_reader_client\<close>: what the callbacks may assume of the reader's state (depth,
  open containers, the scratchpad), and that a run then ends without an abort.
\<close>

definition json_slack :: "grpc_json_reader_state \<Rightarrow> nat" where
  "json_slack st =
     (case st of
        GRPC_JSON_STATE_OBJECT_KEY_STRING \<Rightarrow> 1
      | GRPC_JSON_STATE_VALUE_STRING \<Rightarrow> 1
      | GRPC_JSON_STATE_STRING_ESCAPE \<Rightarrow> 2
      | GRPC_JSON_STATE_STRING_ESCAPE_U1 \<Rightarrow> 3
      | GRPC_JSON_STATE_STRING_ESCAPE_U2 \<Rightarrow> 4
      | GRPC_JSON_STATE_STRING_ESCAPE_U3 \<Rightarrow> 5
      | GRPC_JSON_STATE_STRING_ESCAPE_U4 \<Rightarrow> 6
      | _ \<Rightarrow> 0)"

definition json_nesting :: "grpc_json_reader \<Rightarrow> grpc_json_type list \<Rightarrow> bool" where
  "json_nesting r tys \<longleftrightarrow>
     depth r = int (length tys) \<and>
     in_object r = (tys \<noteq> [] \<and> hd tys = GRPC_JSON_OBJECT) \<and>
     in_array r = (tys \<noteq> [] \<and> hd tys = GRPC_JSON_ARRAY)"

fun json_parent_type :: "grpc_json_type list \<Rightarrow> grpc_json_type" where
  "json_parent_type [] = GRPC_JSON_TOP_LEVEL"
| "json_parent_type (ty # tys) = ty"

lemma json_slack_simps [simp]:
  "json_between st \<Longrightarrow> json_slack st = 0"
  "json_value_edge st \<Longrightarrow> json_slack st = 0"
  "json_in_string st \<Longrightarrow> json_slack st = 1"
  "json_number_may_end st \<Longrightarrow> json_slack st = 0"
  "json_in_number st \<Longrightarrow> json_slack st = 0"
  "json_slack GRPC_JSON_STATE_VALUE_END = 0"
  "json_slack GRPC_JSON_STATE_VALUE_BEGIN = 0"
  "json_slack GRPC_JSON_STATE_OBJECT_KEY_BEGIN = 0"
  "json_slack GRPC_JSON_STATE_OBJECT_KEY_END = 0"
  "json_slack GRPC_JSON_STATE_END = 0"
  by (auto simp: json_slack_def json_state_groups)

lemma json_nesting_update [simp]:
  "json_nesting (r\<lparr>state := st\<rparr>) tys = json_nesting r tys"
  "json_nesting (r\<lparr>container_just_begun := b\<rparr>) tys = json_nesting r tys"
  "json_nesting (r\<lparr>escaped_string_was_key := b\<rparr>) tys = json_nesting r tys"
  "json_nesting (r\<lparr>unicode_char := x\<rparr>) tys = json_nesting r tys"
  "json_nesting (r\<lparr>unicode_high_surrogate := x\<rparr>) tys = json_nesting r tys"
  by (simp_all add: json_nesting_def)

locale json_reader_client =
  fixes vt :: "'u grpc_json_reader_vtable"
    and ok :: "grpc_json_type list \<Rightarrow> 'u \<Rightarrow> bool"
    and room :: "'u \<Rightarrow> nat"
    and left :: "'u \<Rightarrow> nat"
  assumes ok_types: "ok tys u \<Longrightarrow> set tys \<subseteq> {GRPC_JSON_OBJECT, GRPC_JSON_ARRAY}"
    and read_char:
      "ok tys u \<Longrightarrow>
         \<exists>c u'. read_char vt u = Some (c, u') \<and> ok tys u' \<and>
           (c = GRPC_JSON_READ_CHAR_EOF \<or>
            c \<le> 0xff \<and> room u' = Suc (room u) \<and> left u' < left u)"
    and clear:
      "ok tys u \<Longrightarrow> 0 < room u \<Longrightarrow>
         \<exists>u'. string_clear vt u = Some u' \<and> ok tys u' \<and> room u \<le> room u' + 1 \<and> left u' = left u"
    and add_char:
      "ok tys u \<Longrightarrow> 0 < room u \<Longrightarrow> c \<le> 0xff \<Longrightarrow>
         \<exists>u'. string_add_char vt u c = Some u' \<and> ok tys u' \<and> room u \<le> room u' + 1 \<and> left u' = left u"
    and add_utf32:
      "ok tys u \<Longrightarrow> 4 \<le> room u \<Longrightarrow>
         \<exists>u'. string_add_utf32 vt u c = Some u' \<and> ok tys u' \<and> room u \<le> room u' + 4 \<and> left u' = left u"
    and begins:
      "ok tys u \<Longrightarrow> ty \<in> {GRPC_JSON_OBJECT, GRPC_JSON_ARRAY} \<Longrightarrow>
         \<exists>u'. container_begins vt u ty = Some u' \<and> ok (ty # tys) u' \<and> room u' = room u \<and> left u' = left u"
    and ends:
      "ok (ty # tys) u \<Longrightarrow>
         \<exists>u'. container_ends vt u = Some (json_parent_type tys, u') \<and> ok tys u' \<and>
              room u' = room u \<and> left u' = left u"
    and key: "ok tys u \<Longrightarrow> \<exists>u'. set_key vt u = Some u' \<and> ok tys u' \<and> room u' = room u \<and> left u' = left u"
    and string:
      "ok tys u \<Longrightarrow> \<exists>u'. set_string vt u = Some u' \<and> ok tys u' \<and> room u' = room u \<and> left u' = left u"
    and number:
      "ok tys u \<Longrightarrow>
         \<exists>u'. set_number vt u = Some (True, u') \<and> ok tys u' \<and> room u' = room u \<and> left u' = left u"
    and true: "ok tys u \<Longrightarrow> \<exists>u'. set_true vt u = Some u' \<and> ok tys u' \<and> room u' = room u \<and> left u' = left u"
    and false:
      "ok tys u \<Longrightarrow> \<exists>u'. set_false vt u = Some u' \<and> ok tys u' \<and> room u' = room u \<and> left u' = left u"
    and null: "ok tys u \<Longrightarrow> \<exists>u'. set_null vt u = Some u' \<and> ok tys u' \<and> room u' = room u \<and> left u' = left u"
begin

definition turn_ok :: "nat \<Rightarrow> 'u json_turn option \<Rightarrow> bool" where
  "turn_ok n t \<longleftrightarrow>
     (case t of
        None \<Rightarrow> False
      | Some (Loop r u) \<Rightarrow>
          left u = n \<and> json_slack (state r) \<le> room u \<and> (\<exists>tys. json_nesting r tys \<and> ok tys u)
      | Some (Return st r u) \<Rightarrow>
          st \<in> {GRPC_JSON_DONE, GRPC_JSON_PARSE_ERROR} \<and> left u = n \<and> (\<exists>tys. ok tys u))"

lemma turn_ok_simps [simp]:
  "turn_ok n (Some (Loop r u)) \<longleftrightarrow>
     left u = n \<and> json_slack (state r) \<le> room u \<and> (\<exists>tys. json_nesting r tys \<and> ok tys u)"
  "turn_ok n (Some (Return st r u)) \<longleftrightarrow>
     st \<in> {GRPC_JSON_DONE, GRPC_JSON_PARSE_ERROR} \<and> left u = n \<and> (\<exists>tys. ok tys u)"
  by (auto simp: turn_ok_def)

lemma turn_ok_add_char:
  assumes "ok tys u" "0 < room u" "c \<le> 0xff" "left u = n"
    and "\<And>u'. ok tys u' \<Longrightarrow> room u \<le> room u' + 1 \<Longrightarrow> left u' = n \<Longrightarrow> turn_ok n (g u')"
  shows "turn_ok n (Option.bind (string_add_char vt u c) g)"
  using add_char[OF assms(1,2,3)] assms(4,5) by auto

lemma turn_ok_clear:
  assumes "ok tys u" "0 < room u" "left u = n"
    and "\<And>u'. ok tys u' \<Longrightarrow> room u \<le> room u' + 1 \<Longrightarrow> left u' = n \<Longrightarrow> turn_ok n (g u')"
  shows "turn_ok n (Option.bind (string_clear vt u) g)"
  using clear[OF assms(1,2)] assms(3,4) by auto

lemma turn_ok_utf32:
  assumes "ok tys u" "4 \<le> room u" "left u = n"
    and "\<And>u'. ok tys u' \<Longrightarrow> room u \<le> room u' + 4 \<Longrightarrow> left u' = n \<Longrightarrow> turn_ok n (g u')"
  shows "turn_ok n (Option.bind (string_add_utf32 vt u c) g)"
  using add_utf32[OF assms(1,2), of c] assms(3,4) by auto

lemma turn_ok_number:
  assumes "ok tys u" "left u = n"
    and "\<And>u'. ok tys u' \<Longrightarrow> room u' = room u \<Longrightarrow> left u' = n \<Longrightarrow> turn_ok n (g (True, u'))"
  shows "turn_ok n (Option.bind (set_number vt u) g)"
  using number[OF assms(1)] assms(2,3) by auto

lemma turn_ok_set:
  assumes "ok tys u" "left u = n"
    and "\<And>u'. ok tys u' \<Longrightarrow> room u' = room u \<Longrightarrow> left u' = n \<Longrightarrow> turn_ok n (g u')"
  shows "turn_ok n (Option.bind (set_string vt u) g)" "turn_ok n (Option.bind (set_key vt u) g)"
    "turn_ok n (Option.bind (set_true vt u) g)" "turn_ok n (Option.bind (set_false vt u) g)"
    "turn_ok n (Option.bind (set_null vt u) g)"
  using string[OF assms(1)] key[OF assms(1)] true[OF assms(1)] false[OF assms(1)] null[OF assms(1)]
    assms(2,3) by auto

lemma turn_ok_begins:
  assumes "ok tys u" "left u = n" "ty \<in> {GRPC_JSON_OBJECT, GRPC_JSON_ARRAY}"
    and "\<And>u'. ok (ty # tys) u' \<Longrightarrow> room u' = room u \<Longrightarrow> left u' = n \<Longrightarrow> turn_ok n (g u')"
  shows "turn_ok n (Option.bind (container_begins vt u ty) g)"
  using begins[OF assms(1,3)] assms(2,4) by auto

lemmas turn_ok_intros =
  turn_ok_add_char turn_ok_number turn_ok_clear turn_ok_set turn_ok_begins turn_ok_utf32

lemma turn_space:
  assumes "json_nesting r tys" "ok tys u" "json_slack (state r) < room u" "left u = n" "c \<le> 0xff"
  shows "turn_ok n (json_turn_space vt c r u)"
  using assms unfolding json_turn_space_def
  by (auto intro!: turn_ok_intros[where tys = tys]) blast+

lemma turn_close:
  assumes "json_nesting r tys" "ok tys u" "left u = n"
  shows "turn_ok n (json_turn_close vt c r u)"
proof (cases tys)
  case Nil
  with assms show ?thesis by (auto simp: json_turn_close_def json_nesting_def)
next
  case (Cons ty tys')
  with assms(2) obtain u' where u': "container_ends vt u = Some (json_parent_type tys', u')"
      "ok tys' u'" "left u' = left u"
    using ends by blast
  from Cons assms(1) have d: "depth r = int (length tys') + 1"
    by (simp add: json_nesting_def)
  have err: "turn_ok n (Some (Return GRPC_JSON_PARSE_ERROR r' u))" for r'
    using assms(2,3) by auto
  have "tys' = [] \<or> hd tys' = GRPC_JSON_OBJECT \<or> hd tys' = GRPC_JSON_ARRAY"
    using ok_types[OF u'(2)] by (cases tys') simp_all
  then consider "tys' = []" | ts where "tys' = GRPC_JSON_OBJECT # ts" | ts where "tys' = GRPC_JSON_ARRAY # ts"
    by (cases tys') auto
  then show ?thesis
  proof cases
    case 1
    with u' d assms(3) err show ?thesis
      by (simp add: json_turn_close_def Let_def, intro impI exI[of _ tys'])
        (simp add: json_nesting_def)
  next
    case 2
    with u' d assms(3) err show ?thesis
      by (simp add: json_turn_close_def Let_def, intro impI exI[of _ tys'])
        (simp add: json_nesting_def)
  next
    case 3
    with u' d assms(3) err show ?thesis
      by (simp add: json_turn_close_def Let_def, intro impI exI[of _ tys'])
        (simp add: json_nesting_def)
  qed
qed

lemma turn_value_end:
  assumes "json_nesting r tys" "ok tys u" "left u = n"
  shows "turn_ok n (json_turn_value_end vt c r u)"
  using assms turn_close[OF assms]
  by (auto simp: json_turn_value_end_def)

lemma turn_term:
  assumes "json_nesting r tys" "ok tys u" "json_slack (state r) < room u" "left u = n" "c \<le> 0xff"
  shows "turn_ok n (json_turn_term vt c r u)"
proof (cases "json_number_may_end (state r)")
  case True
  with assms(3) have "0 < room u" by simp
  from number[OF assms(2)] obtain u1 where u1:
    "set_number vt u = Some (True, u1)" "ok tys u1" "room u1 = room u" "left u1 = left u"
    by blast
  from u1(3) \<open>0 < room u\<close> have "0 < room u1" by (simp only:)
  from clear[OF u1(2) this] u1(4) obtain u2 where u2:
    "string_clear vt u1 = Some u2" "ok tys u2" "left u2 = left u"
    by force
  from True have "\<not> json_in_string (state r)" by (auto simp: json_state_groups)
  with True u1(1) u2 assms(1,4) show ?thesis
    by (simp add: json_turn_term_def turn_value_end)
next
  case False
  note num = this
  show ?thesis
  proof (cases "json_in_string (state r)")
    case True
    with assms(3) have "0 < room u" by simp
    from add_char[OF assms(2) this assms(5)] True assms(1-4) show ?thesis
      by (auto simp: json_turn_term_def)
  next
    case False
    with num assms turn_value_end[OF assms(1,2,4)] show ?thesis
      by (auto simp: json_turn_term_def)
  qed
qed

lemma turn_backslash:
  assumes "json_nesting r tys" "ok tys u" "json_slack (state r) < room u" "left u = n"
  shows "turn_ok n (json_turn_backslash vt c r u)"
  using assms unfolding json_turn_backslash_def
  by (auto simp: json_slack_def escaped_string_state_def
      split: grpc_json_reader_state.splits intro!: turn_ok_intros[where tys = tys])

lemma turn_string:
  assumes "json_nesting r tys" "ok tys u" "json_slack (state r) < room u" "left u = n" "c \<le> 0xff"
    and "json_in_string (state r) \<or> state r = GRPC_JSON_STATE_OBJECT_KEY_BEGIN \<or>
         state r = GRPC_JSON_STATE_OBJECT_KEY_END"
  shows "turn_ok n (json_turn_string vt c r u)"
  using assms unfolding json_turn_string_def json_in_string_def
  by (auto simp: json_slack_def intro!: turn_ok_intros[where tys = tys]) blast+

lemma turn_value_begin:
  assumes "json_nesting r tys" "ok tys u" "0 < room u" "left u = n" "c \<le> 0xff"
    and "state r = GRPC_JSON_STATE_VALUE_BEGIN"
  shows "turn_ok n (json_turn_value_begin vt c r u)"
proof -
  have nest: "json_nesting (r\<lparr>container_just_begun := True, depth := depth r + 1,
      state := GRPC_JSON_STATE_OBJECT_KEY_BEGIN, in_object := True, in_array := False\<rparr>)
      (GRPC_JSON_OBJECT # tys)"
    "json_nesting (r\<lparr>container_just_begun := True, depth := depth r + 1,
      in_object := False, in_array := True\<rparr>) (GRPC_JSON_ARRAY # tys)"
    using assms(1) by (simp_all add: json_nesting_def)
  from begins[OF assms(2), of GRPC_JSON_OBJECT] begins[OF assms(2), of GRPC_JSON_ARRAY]
    add_char[OF assms(2,3,5)] add_char[OF assms(2,3), of "0x30"]
  obtain u1 u2 u3 u4 where u:
    "container_begins vt u GRPC_JSON_OBJECT = Some u1" "ok (GRPC_JSON_OBJECT # tys) u1" "left u1 = left u"
    "container_begins vt u GRPC_JSON_ARRAY = Some u2" "ok (GRPC_JSON_ARRAY # tys) u2" "left u2 = left u"
    "string_add_char vt u c = Some u3" "ok tys u3" "left u3 = left u"
    "string_add_char vt u 0x30 = Some u4" "ok tys u4" "left u4 = left u"
    by auto
  show ?thesis
    using assms u nest unfolding json_turn_value_begin_def
    by (simp add: json_slack_def) blast
qed

lemma turn_escape:
  assumes "json_nesting r tys" "ok tys u" "2 < room u" "left u = n"
  shows "turn_ok n (json_turn_escape vt c r u)"
  using assms unfolding json_turn_escape_def
  by (auto simp: json_slack_def escaped_string_state_def Let_def intro!: turn_ok_intros[where tys = tys])

lemma turn_utf16_done:
  assumes "json_nesting r tys" "ok tys u" "6 < room u" "left u = n"
  shows "turn_ok n (json_turn_utf16_done vt r u)"
  using assms unfolding json_turn_utf16_done_def
  by (auto simp: json_slack_def escaped_string_state_def Let_def intro!: turn_ok_intros[where tys = tys])

lemma turn_unicode:
  assumes "json_nesting r tys" "ok tys u" "json_slack (state r) < room u" "left u = n"
    and "json_in_unicode (state r)"
  shows "turn_ok n (json_turn_unicode vt c r u)"
  using assms unfolding json_turn_unicode_def json_in_unicode_def
  by (auto simp: json_slack_def Let_def split: option.splits intro!: turn_utf16_done[where tys = tys])

lemma turn_number:
  assumes "json_nesting r tys" "ok tys u" "0 < room u" "left u = n" "c \<le> 0xff"
    and "json_in_number (state r)"
  shows "turn_ok n (json_turn_number vt c r u)"
proof -
  from add_char[OF assms(2,3,5)] obtain u' where
    "string_add_char vt u c = Some u'" "ok tys u'" "left u' = left u" by blast
  moreover have "json_slack st = 0" if "json_in_number st" for st using that by simp
  ultimately show ?thesis
    using assms unfolding json_turn_number_def
    by (auto simp: json_in_number_def)
qed

lemma turn_literal:
  assumes "json_nesting r tys" "ok tys u" "left u = n"
  shows "turn_ok n (json_turn_literal vt c r u)"
  using assms unfolding json_turn_literal_def
  by (auto simp: json_slack_def intro!: turn_ok_intros[where tys = tys] split: grpc_json_reader_state.split)

lemma turn_other:
  assumes "json_nesting r tys" "ok tys u" "json_slack (state r) < room u" "left u = n" "c \<le> 0xff"
    and "\<not> (c = 0x2c \<or> c = 0x7d \<or> c = 0x5d)"
  shows "turn_ok n (json_turn_other vt c r u)"
proof -
  let ?r = "r\<lparr>container_just_begun := False\<rparr>"
  have r: "json_nesting ?r tys" "json_slack (state ?r) < room u" "0 < room u"
    using assms(1,3) by simp_all
  consider "json_in_string (state ?r) \<or> state ?r = GRPC_JSON_STATE_OBJECT_KEY_BEGIN \<or>
         state ?r = GRPC_JSON_STATE_OBJECT_KEY_END"
    | "state ?r = GRPC_JSON_STATE_VALUE_BEGIN"
    | "state ?r = GRPC_JSON_STATE_STRING_ESCAPE"
    | "json_in_unicode (state ?r)"
    | "json_in_number (state ?r)"
    | "state ?r \<in> {GRPC_JSON_STATE_VALUE_END, GRPC_JSON_STATE_END}"
    | "\<not> json_in_string (state ?r)" "\<not> json_in_unicode (state ?r)" "\<not> json_in_number (state ?r)"
      "state ?r \<notin> {GRPC_JSON_STATE_OBJECT_KEY_BEGIN, GRPC_JSON_STATE_OBJECT_KEY_END,
                   GRPC_JSON_STATE_VALUE_BEGIN, GRPC_JSON_STATE_STRING_ESCAPE,
                   GRPC_JSON_STATE_VALUE_END, GRPC_JSON_STATE_END}"
    by blast
  then show ?thesis
  proof cases
    case 1
    from turn_string[OF r(1) assms(2) r(2) assms(4,5) 1] 1 show ?thesis
      by (auto simp: json_turn_other_def json_in_string_def)
  next
    case 2
    from turn_value_begin[OF r(1) assms(2) r(3) assms(4,5) 2] 2 show ?thesis
      by (auto simp: json_turn_other_def)
  next
    case 3
    with r(2) have "2 < room u" by (simp add: json_slack_def)
    from turn_escape[OF r(1) assms(2) this assms(4)] 3 show ?thesis
      by (auto simp: json_turn_other_def)
  next
    case 4
    from turn_unicode[OF r(1) assms(2) r(2) assms(4) 4] 4 show ?thesis
      by (auto simp: json_turn_other_def json_in_unicode_def)
  next
    case 5
    from turn_number[OF r(1) assms(2) r(3) assms(4,5) 5] 5 show ?thesis
      by (auto simp: json_turn_other_def json_in_number_def json_in_unicode_def)
  next
    case 6
    with assms show ?thesis
      by (auto simp: json_turn_other_def json_in_number_def json_in_unicode_def)
  next
    case 7
    from turn_literal[OF r(1) assms(2,4)] 7 show ?thesis
      by (simp add: json_turn_other_def json_in_string_def)
  qed
qed

lemma turn_char:
  assumes "json_nesting r tys" "ok tys u" "json_slack (state r) < room u" "left u = n" "c \<le> 0xff"
  shows "turn_ok n (json_turn_char vt c r u)"
proof -
  have "c \<noteq> GRPC_JSON_READ_CHAR_EOF" "c \<noteq> GRPC_JSON_READ_CHAR_EAGAIN" "c \<noteq> GRPC_JSON_READ_CHAR_ERROR"
    using assms(5) by (auto simp: json_read_char_codes)
  then show ?thesis
    using turn_space[OF assms] turn_term[OF assms] turn_backslash[OF assms(1-4)] turn_other[OF assms]
    by (simp add: json_turn_char_def)
qed

theorem run_total:
  assumes "json_nesting r tys" "ok tys u" "json_slack (state r) \<le> room u"
  shows "\<exists>st r' u' tys'. grpc_json_reader_run vt r u = Some (st, r', u') \<and>
           st \<in> {GRPC_JSON_DONE, GRPC_JSON_PARSE_ERROR} \<and> ok tys' u'"
  using assms
proof (induction "left u" arbitrary: r u tys rule: less_induct)
  case less
  from read_char[OF less.prems(2)] obtain c u1 where
    rd: "read_char vt u = Some (c, u1)" "ok tys u1"
    and c: "c = GRPC_JSON_READ_CHAR_EOF \<or> c \<le> 0xff \<and> room u1 = Suc (room u) \<and> left u1 < left u"
    by blast
  show ?case
  proof (cases "c = GRPC_JSON_READ_CHAR_EOF")
    case True
    with rd show ?thesis
      by (subst grpc_json_reader_run.simps)
        (auto simp: json_turn_char_def json_read_char_codes)
  next
    case False
    with c have c': "c \<le> 0xff" "room u1 = Suc (room u)" "left u1 < left u" by auto
    with less.prems have "json_slack (state r) < room u1" by simp
    from turn_char[OF less.prems(1) rd(2) this refl c'(1)]
    obtain t where t: "json_turn_char vt c r u1 = Some t" "turn_ok (left u1) (Some t)"
      by (auto simp: turn_ok_def split: option.splits)
    show ?thesis
    proof (cases t)
      case (Loop r2 u2)
      with t(2) obtain tys2 where l: "left u2 < left u" "json_nesting r2 tys2" "ok tys2 u2"
          "json_slack (state r2) \<le> room u2" using c'(3) by auto
      from less.hyps[OF l] Loop t(1) rd(1) show ?thesis
        by (subst grpc_json_reader_run.simps) auto
    next
      case (Return st r2 u2)
      with t rd(1) show ?thesis
        by (subst grpc_json_reader_run.simps) auto
    qed
  qed
qed

end
end
