(* ===== verification/Json_Safety.thy ===== *)
theory Json_Safety
  imports Json_Tree Json_Reader_Client
begin

text \<open>
  The reader callbacks of \<^verbatim>\<open>json_string.c\<close> keep the contract that the reader of
  \<^verbatim>\<open>json_reader.c\<close> needs: \<open>json_ud_ok\<close> is their invariant (the write position never
  passes the read position, the nodes form a forest whose last branch ends at the
  open container), and the interpretation of \<open>json_reader_client\<close> at the end
  gives that a parse always returns.
\<close>

definition json_readable :: "json_reader_userdata \<Rightarrow> bool" where
  "json_readable s \<longleftrightarrow>
     input s + remaining_input s \<le> length (buffer s) \<or> 0 \<in> set (drop (input s) (buffer s))"

definition json_forest :: "json_reader_userdata \<Rightarrow> grpc_json_type list \<Rightarrow> gtree list \<Rightarrow> bool" where
  "json_forest s tys ts \<longleftrightarrow>
     glinked (store s) None None None ts \<and> distinct (gaddrs ts) \<and>
     dom (store s) = set (gaddrs ts) \<and> (\<forall>a \<in> set (gaddrs ts). a < fresh s) \<and>
     gspine (store s) None ts (rev tys) (current_container s) (current_value s) \<and>
     top_node s = gfirst ts None"

definition json_ud_ok :: "grpc_json_type list \<Rightarrow> json_reader_userdata \<Rightarrow> bool" where
  "json_ud_ok tys s \<longleftrightarrow>
     set tys \<subseteq> {GRPC_JSON_OBJECT, GRPC_JSON_ARRAY} \<and>
     string_ptr s \<le> input s \<and> input s \<le> length (buffer s) \<and>
     json_readable s \<and> (\<exists>ts. json_forest s tys ts)"

lemma gspine_neq:
  "gspine h par ts tys cc cv \<Longrightarrow> distinct (gaddrs ts) \<Longrightarrow> (\<And>p. par = Some p \<Longrightarrow> p \<notin> set (gaddrs ts)) \<Longrightarrow>
     cc = Some x \<Longrightarrow> cv \<noteq> Some x"
proof (induction tys arbitrary: par ts)
  case Nil
  then show ?case using gfirst_last_in(2)[of ts x] by auto
next
  case (Cons ty tys)
  from Cons.prems(1) obtain us b cs where ts: "ts = us @ [GNode b cs]" "gspine h (Some b) cs tys cc cv"
    by (rule gspine_last)
  with Cons.prems(2) Cons.prems(4) show ?case
    by (intro Cons.IH[OF ts(2)]) auto
qed

definition json_new_node :: "json_reader_userdata \<Rightarrow> grpc_json_type \<Rightarrow> grpc_json" where
  "json_new_node s ty =
     \<lparr> next_ptr = None, prev_ptr = current_value s, child_ptr = None,
       parent_ptr = current_container s, jtype = ty,
       jkey = (case current_container s of
                 None \<Rightarrow> None
               | Some q \<Rightarrow> (if map_option jtype (store s q) = Some GRPC_JSON_OBJECT then key_ptr s else None)),
       jvalue = None \<rparr>"

lemma json_new_node_simps [simp]:
  "jtype (json_new_node s ty) = ty" "parent_ptr (json_new_node s ty) = current_container s"
  "prev_ptr (json_new_node s ty) = current_value s" "next_ptr (json_new_node s ty) = None"
  "child_ptr (json_new_node s ty) = None"
  by (simp_all add: json_new_node_def)

lemma json_store_upd_eq:
  "h = h' \<Longrightarrow> s\<lparr>store := h, fresh := f, current_value := v, top_node := t\<rparr> =
     s\<lparr>store := h', fresh := f, current_value := v, top_node := t\<rparr>"
  "h = h' \<Longrightarrow> s\<lparr>store := h, fresh := f, current_value := v\<rparr> =
     s\<lparr>store := h', fresh := f, current_value := v\<rparr>"
  by simp_all

lemma json_create_and_link_correct:
  assumes "json_forest s tys ts"
  shows "json_create_and_link s ty = Some (fresh s,
      s\<lparr>store := glink_store (store s) (fresh s) (json_new_node s ty) (current_container s) (current_value s),
        fresh := fresh s + 1, current_value := Some (fresh s),
        top_node := (if top_node s = None then Some (fresh s) else top_node s)\<rparr>)"
proof -
  let ?h = "store s"
  let ?a = "fresh s"
  from assms(1) have f: "glinked ?h None None None ts" "distinct (gaddrs ts)"
    "dom ?h = set (gaddrs ts)" "\<And>x. x \<in> set (gaddrs ts) \<Longrightarrow> x < ?a"
    "gspine ?h None ts (rev tys) (current_container s) (current_value s)"
    by (auto simp: json_forest_def)
  have cv: "\<exists>n. ?h p = Some n" "p \<noteq> ?a" "current_container s \<noteq> Some p" if "current_value s = Some p" for p
  proof -
    from gspine_in(2)[OF f(5)] that have "p \<in> set (gaddrs ts)" by auto
    with f(3,4) show "\<exists>n. ?h p = Some n" "p \<noteq> ?a" by auto
    from gspine_neq[OF f(5,2), of p] that show "current_container s \<noteq> Some p" by auto
  qed
  have cc: "\<exists>n. ?h p = Some n" "p \<noteq> ?a" if "current_container s = Some p" for p
  proof -
    from gspine_in(1)[OF f(5)] that have "p \<in> set (gaddrs ts)" by auto
    with f(3,4) show "\<exists>n. ?h p = Some n" "p \<noteq> ?a" by auto
  qed
  note defs = json_create_and_link_def json_modify_def grpc_json_create_def
            glink_store_def fun_eq_iff option.map_ident json_new_node_def Let_def
  show ?thesis
  proof (cases "current_value s")
    case cvN: None
    show ?thesis
    proof (cases "current_container s")
      case None
      with cvN show ?thesis by (auto simp: defs intro!: json_store_upd_eq option.map_ident_strong option.map_ident_strong[symmetric])
    next
      case (Some q)
      from cc[OF Some] obtain n where "?h q = Some n" "q \<noteq> ?a" by blast
      with cvN Some show ?thesis by (auto simp: defs intro!: json_store_upd_eq option.map_ident_strong option.map_ident_strong[symmetric])
    qed
  next
    case cvS: (Some p)
    from cv[OF cvS] obtain m where m: "?h p = Some m" "p \<noteq> ?a" "current_container s \<noteq> Some p" by blast
    show ?thesis
    proof (cases "current_container s")
      case None
      with cvS m show ?thesis by (auto simp: defs intro!: json_store_upd_eq option.map_ident_strong option.map_ident_strong[symmetric])
    next
      case (Some q)
      from cc[OF Some] obtain n where "?h q = Some n" "q \<noteq> ?a" by blast
      with cvS Some m show ?thesis by (auto simp: defs intro!: json_store_upd_eq option.map_ident_strong option.map_ident_strong[symmetric])
    qed
  qed
qed


lemma gfirst_gins: "gspine h par ts tys cc cv \<Longrightarrow> gfirst (gins (length tys) a ts) None = (if ts = [] then Some a else gfirst ts None)"
proof (cases tys)
  case (Cons ty tys')
  moreover assume "gspine h par ts tys cc cv"
  ultimately show ?thesis by (cases ts) (auto simp: gfirst_def)
qed (cases ts; simp add: gfirst_def)

text \<open>Linking any node with the right pointers keeps the forest.\<close>

definition json_linked :: "json_reader_userdata \<Rightarrow> grpc_json \<Rightarrow> json_reader_userdata" where
  "json_linked s new =
     s\<lparr>store := glink_store (store s) (fresh s) new (current_container s) (current_value s),
       fresh := fresh s + 1, current_value := Some (fresh s),
       top_node := (if top_node s = None then Some (fresh s) else top_node s)\<rparr>"

lemma json_forest_linked:
  assumes "json_forest s tys ts" "parent_ptr new = current_container s" "prev_ptr new = current_value s"
    "next_ptr new = None" "child_ptr new = None"
  shows "json_forest (json_linked s new) tys (gins (length tys) (fresh s) ts)"
proof -
  let ?a = "fresh s"
  let ?h' = "glink_store (store s) ?a new (current_container s) (current_value s)"
  from assms(1) have f: "glinked (store s) None None None ts" "distinct (gaddrs ts)"
    "dom (store s) = set (gaddrs ts)" "\<And>x. x \<in> set (gaddrs ts) \<Longrightarrow> x < ?a"
    "gspine (store s) None ts (rev tys) (current_container s) (current_value s)"
    "top_node s = gfirst ts None"
    by (auto simp: json_forest_def)
  have a: "?a \<notin> set (gaddrs ts)" using f(4) by auto
  note add = gaddrs_gins[OF refl f(5), of ?a]
  have "glinked ?h' None None None (gins (length (rev tys)) ?a ts)"
    using assms(2-5) by (intro glinked_gins f(1,2,5) a) auto
  moreover have "gspine ?h' None (gins (length (rev tys)) ?a ts) (rev tys) (current_container s) (Some ?a)"
    by (intro gspine_gins f(1,2,5) a)
  moreover have "dom ?h' = insert ?a (set (gaddrs ts))"
    using f(3) by (auto simp: glink_store_def dom_def split: if_splits)
  ultimately show ?thesis
    using add a f(2,4,6) gfirst_gins[OF f(5), of ?a]
    by (auto simp: json_forest_def json_linked_def gfirst_def less_Suc_eq)
qed

lemma json_linked_fields [simp]:
  "json_ud_ok tys s \<Longrightarrow> string_ptr (json_linked s new) = string_ptr s"
  "input (json_linked s new) = input s" "buffer (json_linked s new) = buffer s"
  "string_ptr (json_linked s new) = string_ptr s"
  "remaining_input (json_linked s new) = remaining_input s"
  "json_readable (json_linked s new) = json_readable s"
  by (simp_all add: json_linked_def json_readable_def)

lemma json_linked_ok:
  assumes "json_ud_ok tys s" "parent_ptr new = current_container s" "prev_ptr new = current_value s"
    "next_ptr new = None" "child_ptr new = None"
  shows "json_ud_ok tys (json_linked s new)"
  using assms json_forest_linked[of s tys _ new] by (auto simp: json_ud_ok_def)

lemma json_create_and_link_ok:
  assumes "json_ud_ok tys s"
  shows "json_create_and_link s ty = Some (fresh s, json_linked s (json_new_node s ty))"
  using assms json_create_and_link_correct[of s tys _ ty] by (auto simp: json_ud_ok_def json_linked_def)

lemma json_modify_new:
  "json_modify (fresh s) f (store (json_linked s new)) = Some (store (json_linked s (f new)))"
  by (simp add: json_modify_def json_linked_def glink_store_def fun_eq_iff)

lemma json_linked_store: "(json_linked s new)\<lparr>store := store (json_linked s new')\<rparr> = json_linked s new'"
  by (simp add: json_linked_def)

lemma json_value_callbacks:
  assumes "json_ud_ok tys s"
  shows "json_reader_set_string s = Some (json_linked s ((json_new_node s GRPC_JSON_STRING)\<lparr>jvalue := string_base s\<rparr>))"
    "json_reader_set_number s = Some (True, json_linked s ((json_new_node s GRPC_JSON_NUMBER)\<lparr>jvalue := string_base s\<rparr>))"
    "json_reader_set_true s = Some (json_linked s (json_new_node s GRPC_JSON_TRUE))"
    "json_reader_set_false s = Some (json_linked s (json_new_node s GRPC_JSON_FALSE))"
    "json_reader_set_null s = Some (json_linked s (json_new_node s GRPC_JSON_NULL))"
proof -
  have base: "string_base (json_linked s n) = string_base s" for n by (simp add: json_linked_def)
  note [simp] = json_create_and_link_ok[OF assms] json_modify_new json_linked_store base
  show "json_reader_set_string s = Some (json_linked s ((json_new_node s GRPC_JSON_STRING)\<lparr>jvalue := string_base s\<rparr>))"
    "json_reader_set_number s = Some (True, json_linked s ((json_new_node s GRPC_JSON_NUMBER)\<lparr>jvalue := string_base s\<rparr>))"
    "json_reader_set_true s = Some (json_linked s (json_new_node s GRPC_JSON_TRUE))"
    "json_reader_set_false s = Some (json_linked s (json_new_node s GRPC_JSON_FALSE))"
    "json_reader_set_null s = Some (json_linked s (json_new_node s GRPC_JSON_NULL))"
    by (simp_all add: json_reader_set_string_def json_reader_set_number_def json_reader_set_true_def
        json_reader_set_false_def json_reader_set_null_def)
qed

section \<open>Containers\<close>

lemma gspine_types:
  "gspine h par ts tys cc cv \<Longrightarrow>
     (\<And>x n. x \<in> set (gaddrs ts) \<Longrightarrow> h x = Some n \<Longrightarrow> \<exists>m. h' x = Some m \<and> jtype m = jtype n) \<Longrightarrow>
     gspine h' par ts tys cc cv"
proof (induction tys arbitrary: par ts)
  case (Cons ty tys)
  from Cons.prems(1) obtain us b cs where ts: "ts = us @ [GNode b cs]" "gspine h (Some b) cs tys cc cv"
    by (rule gspine_last)
  with Cons.prems have "gspine h' (Some b) cs tys cc cv" by (intro Cons.IH) auto
  moreover from Cons.prems ts(1) have "\<exists>m. h' b = Some m \<and> jtype m = ty" by fastforce
  ultimately show ?case using ts(1) by simp
qed simp

lemma json_begins_ok:
  assumes "json_ud_ok tys s" "ty \<in> {GRPC_JSON_OBJECT, GRPC_JSON_ARRAY}"
  defines "s1 \<equiv> (json_linked s (json_new_node s ty))\<lparr>current_container := Some (fresh s), current_value := None\<rparr>"
  shows "json_reader_container_begins s ty = Some s1" "json_ud_ok (ty # tys) s1"
proof -
  show "json_reader_container_begins s ty = Some s1"
    using assms(2) by (auto simp: json_reader_container_begins_def json_create_and_link_ok[OF assms(1)] s1_def)
  from assms(1) obtain ts where ts: "json_forest s tys ts" by (auto simp: json_ud_ok_def)
  have l: "json_forest (json_linked s (json_new_node s ty)) tys (gins (length tys) (fresh s) ts)"
    using ts by (rule json_forest_linked) simp_all
  from ts have f: "gspine (store s) None ts (rev tys) (current_container s) (current_value s)"
      "fresh s \<notin> set (gaddrs ts)" "distinct (gaddrs ts)" "glinked (store s) None None None ts"
    by (auto simp: json_forest_def)
  have "gspine (store s1) None (gins (length (rev tys)) (fresh s) ts) (rev tys @ [ty]) (Some (fresh s)) None"
  proof -
    let ?h1 = "glink_store (store s) (fresh s) (json_new_node s ty) (current_container s) (current_value s)"
    have st: "store s1 = ?h1" by (simp add: s1_def json_linked_def)
    have "gspine ?h1 None ts (rev tys) (current_container s) (current_value s)"
    proof (rule gspine_types[OF f(1)])
      fix x n assume "x \<in> set (gaddrs ts)" "store s x = Some n"
      with f(2) show "\<exists>m. ?h1 x = Some m \<and> jtype m = jtype n"
        by (intro glink_store_type) auto
    qed
    from gspine_push[OF this _ _ f(2), of "json_new_node s ty" ty] show ?thesis
      by (simp add: st glink_store_def)
  qed
  with l assms(1,2) show "json_ud_ok (ty # tys) s1"
    by (auto simp: json_ud_ok_def json_forest_def s1_def json_readable_def json_linked_def)
qed


lemma json_ends_ok:
  assumes "json_ud_ok (ty # tys) s"
  shows "\<exists>s1. json_reader_container_ends s = Some (json_parent_type tys, s1) \<and> json_ud_ok tys s1 \<and>
            input s1 = input s \<and> string_ptr s1 = string_ptr s \<and> remaining_input s1 = remaining_input s"
proof -
  from assms obtain ts where ts: "json_forest s (ty # tys) ts" by (auto simp: json_ud_ok_def)
  then have sp: "gspine (store s) None ts (rev tys @ [ty]) (current_container s) (current_value s)"
    and gl: "glinked (store s) None None None ts"
    by (auto simp: json_forest_def)
  from gspine_pop[OF sp gl] obtain c n where c: "current_container s = Some c" "store s c = Some n"
      "gspine (store s) None ts (rev tys) (parent_ptr n) (Some c)"
    by blast
  define s1 where "s1 = s\<lparr>current_value := Some c, current_container := parent_ptr n\<rparr>"
  have "json_reader_container_ends s = Some (json_parent_type tys, s1)"
  proof (cases tys)
    case Nil
    with gspine_type[OF c(3)] have "parent_ptr n = None" by simp
    with c(1,2) Nil show ?thesis by (simp add: json_reader_container_ends_def s1_def)
  next
    case (Cons ty' tys')
    with gspine_type[OF c(3)] obtain q m where "parent_ptr n = Some q" "store s q = Some m" "jtype m = ty'"
      by auto
    with c Cons show ?thesis by (auto simp: json_reader_container_ends_def s1_def)
  qed
  moreover have "json_ud_ok tys s1"
    using assms c ts by (auto simp: json_ud_ok_def json_forest_def json_readable_def s1_def)
  ultimately show ?thesis by (auto simp: s1_def)
qed

section \<open>The buffer\<close>

lemma json_write_ok:
  assumes "json_ud_ok tys s" "string_ptr s < input s"
  shows "json_buffer_write (string_ptr s) b (buffer s) = Some ((buffer s)[string_ptr s := b])"
    "json_ud_ok tys (s\<lparr>buffer := (buffer s)[string_ptr s := b], string_ptr := string_ptr s + 1\<rparr>)"
  using assms by (auto simp: json_ud_ok_def json_readable_def json_forest_def json_buffer_write_def)

lemma json_string_base_ok: "json_ud_ok tys s \<Longrightarrow> json_ud_ok tys (s\<lparr>string_base := p\<rparr>)"
  by (simp add: json_ud_ok_def json_readable_def json_forest_def)

lemma json_key_ptr_ok: "json_ud_ok tys s \<Longrightarrow> json_ud_ok tys (s\<lparr>key_ptr := p\<rparr>)"
  by (simp add: json_ud_ok_def json_readable_def json_forest_def)

lemma json_add_char_ok:
  assumes "json_ud_ok tys s" "string_ptr s < input s" "c \<le> 0xff"
  shows "\<exists>s1. json_reader_string_add_char s c = Some s1 \<and> json_ud_ok tys s1 \<and> input s1 = input s \<and>
           string_ptr s1 = string_ptr s + 1 \<and> remaining_input s1 = remaining_input s"
  using assms(2,3) json_write_ok[OF assms(1,2), of "ucast c"]
  by (auto simp: json_reader_string_add_char_def)

lemma json_clear_ok:
  assumes "json_ud_ok tys s" "string_ptr s < input s"
  shows "\<exists>s1. json_reader_string_clear s = Some s1 \<and> json_ud_ok tys s1 \<and> input s1 = input s \<and>
           string_ptr s1 \<le> string_ptr s + 1 \<and> remaining_input s1 = remaining_input s"
  using assms(2) json_write_ok[OF assms(1,2), of 0] assms(1)
  by (auto simp: json_reader_string_clear_def json_string_base_ok)

lemma utf8_piece_le [simp]:
  "0xc0 OR (c AND 0x1f) \<le> (0xff :: u32)" "0x80 OR (c AND 0x3f) \<le> (0xff :: u32)"
  "0xe0 OR (c AND 0x0f) \<le> (0xff :: u32)" "0xf0 OR (c AND 0x07) \<le> (0xff :: u32)"
proof -
  have le: "x \<le> 0xff" if "x AND 0xff = x" for x :: u32
    using word_and_le1[of x "0xff"] that by simp
  show "0xc0 OR (c AND 0x1f) \<le> (0xff :: u32)" "0x80 OR (c AND 0x3f) \<le> (0xff :: u32)"
    "0xe0 OR (c AND 0x0f) \<le> (0xff :: u32)" "0xf0 OR (c AND 0x07) \<le> (0xff :: u32)"
    by (rule le, simp add: word_ao_dist and.assoc)+
qed

definition json_adds :: "grpc_json_type list \<Rightarrow> nat \<Rightarrow> json_reader_userdata \<Rightarrow> json_reader_userdata option \<Rightarrow> bool" where
  "json_adds tys n s r \<longleftrightarrow>
     (\<exists>s1. r = Some s1 \<and> json_ud_ok tys s1 \<and> input s1 = input s \<and>
           string_ptr s1 \<le> string_ptr s + n \<and> remaining_input s1 = remaining_input s)"

lemma json_adds_char:
  "json_ud_ok tys s \<Longrightarrow> string_ptr s < input s \<Longrightarrow> c \<le> 0xff \<Longrightarrow>
     json_adds tys (Suc 0) s (json_reader_string_add_char s c)"
  using json_add_char_ok[of tys s c] by (auto simp: json_adds_def)

lemma json_adds_bind:
  assumes "json_ud_ok tys s" "string_ptr s + n < input s" "c \<le> 0xff"
    and "\<And>s1. json_ud_ok tys s1 \<Longrightarrow> string_ptr s1 + n \<le> input s1 \<Longrightarrow> json_adds tys n s1 (g s1)"
  shows "json_adds tys (Suc n) s (Option.bind (json_reader_string_add_char s c) g)"
proof -
  from json_add_char_ok[OF assms(1) _ assms(3)] assms(2) obtain s1 where
    s1: "json_reader_string_add_char s c = Some s1" "json_ud_ok tys s1" "input s1 = input s"
      "string_ptr s1 = string_ptr s + 1" "remaining_input s1 = remaining_input s"
    by fastforce
  with assms(2) have "json_adds tys n s1 (g s1)" by (intro assms(4)) auto
  with s1 show ?thesis by (auto simp: json_adds_def)
qed

lemma json_add_utf32_ok:
  assumes "json_ud_ok tys s" "string_ptr s + 4 \<le> input s"
  shows "json_adds tys 4 s (json_reader_string_add_utf32 s c)"
proof -
  have weaken: "json_adds tys 4 s r" if "json_adds tys n s r" "n \<le> 4" for n r
    using that by (auto simp: json_adds_def)
  consider "c \<le> 0x7f" | "\<not> c \<le> 0x7f" "c \<le> 0x7ff" | "\<not> c \<le> 0x7f" "\<not> c \<le> 0x7ff" "c \<le> 0xffff"
    | "\<not> c \<le> 0x7f" "\<not> c \<le> 0x7ff" "\<not> c \<le> 0xffff" "c \<le> 0x1fffff"
    | "\<not> c \<le> 0x7f" "\<not> c \<le> 0x7ff" "\<not> c \<le> 0xffff" "\<not> c \<le> 0x1fffff" by blast
  then show ?thesis
  proof cases
    case 1
    then have "c \<le> 0xff" using order_trans[of c "0x7f" "0xff"] by simp
    with assms 1 show ?thesis using json_adds_char[of tys s c]
      by (intro weaken[of "Suc 0"]) (auto simp: json_reader_string_add_utf32_def)
  next
    case 2
    with assms have "json_adds tys (Suc (Suc 0)) s (json_reader_string_add_utf32 s c)"
      by (auto simp: json_reader_string_add_utf32_def simp del: One_nat_def
            intro!: json_adds_char json_adds_bind)
    then show ?thesis by (rule weaken) simp
  next
    case 3
    with assms have "json_adds tys (Suc (Suc (Suc 0))) s (json_reader_string_add_utf32 s c)"
      by (auto simp: json_reader_string_add_utf32_def simp del: One_nat_def
            intro!: json_adds_char json_adds_bind)
    then show ?thesis by (rule weaken) simp
  next
    case 4
    with assms have "json_adds tys (Suc (Suc (Suc (Suc 0)))) s (json_reader_string_add_utf32 s c)"
      by (auto simp: json_reader_string_add_utf32_def simp del: One_nat_def
            intro!: json_adds_char json_adds_bind)
    then show ?thesis by (rule weaken) simp
  next
    case 5
    with assms show ?thesis by (auto simp: json_reader_string_add_utf32_def json_adds_def)
  qed
qed

lemma json_read_char_ok:
  assumes "json_ud_ok tys s"
  shows "\<exists>c s1. json_reader_read_char s = Some (c, s1) \<and> json_ud_ok tys s1 \<and>
           (c = GRPC_JSON_READ_CHAR_EOF \<or>
            c \<le> 0xff \<and> input s1 = Suc (input s) \<and> string_ptr s1 = string_ptr s \<and>
            remaining_input s1 < remaining_input s)"
proof (cases "remaining_input s = 0")
  case True
  with assms show ?thesis by (auto simp: json_reader_read_char_def)
next
  case False
  from assms False have i: "input s < length (buffer s)"
    by (cases "input s < length (buffer s)") (auto simp: json_ud_ok_def json_readable_def)
  then have d: "drop (input s) (buffer s) = buffer s ! input s # drop (Suc (input s)) (buffer s)"
    by (simp add: Cons_nth_drop_Suc)
  show ?thesis
  proof (cases "buffer s ! input s = 0")
    case True
    with assms False i show ?thesis
      by (auto simp: json_reader_read_char_def json_ud_ok_def json_readable_def json_forest_def)
  next
    case nz: False
    with assms False i d have "json_ud_ok tys (s\<lparr>input := input s + 1, remaining_input := remaining_input s - 1\<rparr>)"
      by (auto simp: json_ud_ok_def json_readable_def json_forest_def)
    with nz False i show ?thesis by (auto simp: json_reader_read_char_def)
  qed
qed

interpretation json_string_reader: json_reader_client reader_vtable json_ud_ok
    "\<lambda>s. input s - string_ptr s" remaining_input
proof (unfold_locales, goal_cases)
  case (1 tys u) then show ?case by (simp add: json_ud_ok_def)
next
  case (2 tys u)
  moreover from 2 have "string_ptr u \<le> input u" by (simp add: json_ud_ok_def)
  ultimately show ?case using json_read_char_ok[of tys u] by (auto simp: reader_vtable_def Suc_diff_le)
next
  case (3 tys u) then show ?case using json_clear_ok[of tys u] by (fastforce simp: reader_vtable_def)
next
  case (4 tys u c) then show ?case using json_add_char_ok[of tys u c] by (fastforce simp: reader_vtable_def)
next
  case (5 tys u c)
  then have "string_ptr u + 4 \<le> input u" by linarith
  with 5 json_add_utf32_ok[of tys u c] show ?case by (fastforce simp: reader_vtable_def json_adds_def)
next
  case (6 tys u ty) then show ?case using json_begins_ok[of tys u ty]
    by (auto simp: reader_vtable_def)
next
  case (7 ty tys u) then show ?case using json_ends_ok[of ty tys u]
    by (auto simp: reader_vtable_def)
next
  case (8 tys u) then show ?case by (simp add: reader_vtable_def json_reader_set_key_def json_key_ptr_ok)
qed (auto simp: reader_vtable_def json_value_callbacks json_linked_ok)


section \<open>A parse always returns, with a well-formed forest\<close>

lemma json_parse_start_ok:
  "len \<le> length buf \<or> 0 \<in> set buf \<Longrightarrow>
     json_ud_ok [] ((json_parse_start buf len)\<lparr>string_base := Some 0\<rparr>)"
  by (auto simp: json_ud_ok_def json_readable_def json_forest_def json_parse_start_def intro!: exI[of _ "[]"])

lemma json_reader_init_string:
  "grpc_json_reader_init reader_vtable (json_parse_start buf len) =
     Some (\<lparr> depth = 0, in_object = False, in_array = False,
               escaped_string_was_key = False, container_just_begun = False,
               unicode_char = 0, unicode_high_surrogate = 0,
               state = GRPC_JSON_STATE_VALUE_BEGIN \<rparr>,
           (json_parse_start buf len)\<lparr>string_base := Some 0\<rparr>)"
  by (simp add: grpc_json_reader_init_def reader_vtable_def json_reader_string_clear_def json_parse_start_def)

lemma json_run_total:
  assumes "len \<le> length buf \<or> 0 \<in> set buf"
    and "grpc_json_reader_init reader_vtable (json_parse_start buf len) = Some (r, s)"
  shows "\<exists>st r1 s1 tys. grpc_json_reader_run reader_vtable r s = Some (st, r1, s1) \<and>
           st \<in> {GRPC_JSON_DONE, GRPC_JSON_PARSE_ERROR} \<and> json_ud_ok tys s1"
proof -
  have r: "s = (json_parse_start buf len)\<lparr>string_base := Some 0\<rparr>" "json_nesting r []" "json_slack (state r) = 0"
    using assms(2) by (auto simp: json_reader_init_string json_nesting_def json_slack_def)
  show ?thesis
    using json_string_reader.run_total[OF r(2) json_parse_start_ok[OF assms(1)]] r(1,3) by fastforce
qed

text \<open>What destroying the first of the top-level values leaves.\<close>

lemma json_destroy_top:
  assumes "json_forest s tys ts" "top_node s = Some a"
  shows "\<exists>t us. ts = t # us \<and> gaddr t = a \<and>
           grpc_json_destroy a (store s) = Some (gunlink_store (store s) (set (gaddrs [t])) None None (gfirst us None)) \<and>
           dom (gunlink_store (store s) (set (gaddrs [t])) None None (gfirst us None)) = set (gaddrs us)"
proof -
  from assms obtain t us where ts: "ts = t # us" "gaddr t = a"
    by (cases ts) (auto simp: json_forest_def gfirst_def)
  obtain cs where t: "t = GNode a cs" using ts(2) by (cases t) auto
  let ?r = "gunlink_store (store s) (set (gaddrs [t])) None None (gfirst us None)"
  from assms(1) ts t have f: "glinked (store s) None None None (GNode a cs # us)" "distinct (gaddrs (GNode a cs # us))"
      "dom (store s) = set (gaddrs (GNode a cs # us))"
    by (auto simp: json_forest_def)
  have first: "x \<in> set (gaddrs us)" if "gfirst us None = Some x" for x
    using that gfirst_last_in(1) by blast
  have "grpc_json_destroy a (store s) = Some ?r"
    unfolding t
  proof (rule grpc_json_destroy_correct[where nxt' = "gfirst us None"])
    show "glinked (store s) None None (gfirst us None) [GNode a cs]" using f(1) by simp
    show "\<forall>q \<in> set_option None \<union> set_option None \<union> set_option (gfirst us None).
        q \<notin> set (gaddrs [GNode a cs]) \<and> store s q \<noteq> None"
      using f(2,3) first by auto
  qed (use f(2) in auto)
  moreover have "dom ?r = dom (store s) - set (gaddrs [t])"
    by (auto simp: gunlink_store_def dom_def split: if_splits)
  then have "dom ?r = set (gaddrs us)"
    using f(2,3) t by auto
  ultimately show ?thesis using ts by blast
qed

definition json_well_formed :: "json_store \<Rightarrow> nat option \<Rightarrow> bool" where
  "json_well_formed h p \<longleftrightarrow>
     (\<exists>ts. p = gfirst ts None \<and> glinked h None None None ts \<and> distinct (gaddrs ts) \<and> dom h = set (gaddrs ts))"

lemma json_forest_well_formed: "json_ud_ok tys s \<Longrightarrow> json_well_formed (store s) (top_node s)"
  by (auto simp: json_ud_ok_def json_forest_def json_well_formed_def)

text \<open>
  C19. Parsing never aborts, never reads or writes outside the buffer, and always
  returns, on every input whose length the buffer covers or that holds a
  terminating zero. A returned pointer is the head of a forest whose sibling,
  child and parent pointers agree and that owns every allocated node.
\<close>

theorem parse_string_total:
  assumes "len \<le> length buf \<or> 0 \<in> set buf"
  shows "\<exists>p s. grpc_json_parse_string_with_len buf len = Some (p, s) \<and>
           (p \<noteq> None \<longrightarrow> json_well_formed (store s) p)"
proof -
  let ?s0 = "json_parse_start buf len"
  obtain r s where i: "grpc_json_reader_init reader_vtable ?s0 = Some (r, s)"
    by (auto simp: json_reader_init_string)
  from json_run_total[OF assms i] obtain st r1 s1 tys where
    run: "grpc_json_reader_run reader_vtable r s = Some (st, r1, s1)" "json_ud_ok tys s1"
    by blast
  from run(2) obtain ts where ts: "json_forest s1 tys ts" by (auto simp: json_ud_ok_def)
  show ?thesis
  proof (cases "top_node s1")
    case None
    with i run(1) show ?thesis by (simp add: grpc_json_parse_string_with_len_def)
  next
    case (Some a)
    from json_destroy_top[OF ts Some] obtain h where "grpc_json_destroy a (store s1) = Some h" by blast
    with i run(1) Some json_forest_well_formed[OF run(2)] show ?thesis
      by (auto simp: grpc_json_parse_string_with_len_def)
  qed
qed

theorem parse_string_total_witness:
  "\<exists>p s. grpc_json_parse_string_with_len [0x7b, 0x22, 0x61, 0x22, 0x3a, 0x31, 0x7d] 7 = Some (p, s) \<and>
     (p \<noteq> None \<longrightarrow> json_well_formed (store s) p)"
  by (rule parse_string_total) simp


section \<open>Inputs outside the grammar\<close>

text \<open>
  Characters outside the grammar are ignored where a value may begin: the text
  \<open>xyz[xx1]\<close> parses, to the array that \<open>[1]\<close> denotes, although the reader's
  description says it implements ECMA-404 strictly.
\<close>

theorem parse_skips_junk:
  "map_option (\<lambda>(p, s). (p, map (\<lambda>a. map_option (\<lambda>n. (jtype n, child_ptr n, next_ptr n)) (store s a)) [0, 1, 2]))
      (grpc_json_parse_string_with_len (bytes_of_string ''xyz[xx1]'') 8) =
   Some (Some 0, [Some (GRPC_JSON_ARRAY, Some 1, None), Some (GRPC_JSON_NUMBER, None, None), None])"
  by (simp add: json_parse_exec bytes_of_string_def)

text \<open>
  A key without a value is dropped: \<open>{"a":}\<close> parses as the empty object, where
  the grammar requires a value after the colon.
\<close>

theorem parse_key_without_value:
  "map_option (\<lambda>(p, s). (p, map (\<lambda>a. map_option (\<lambda>n. (jtype n, child_ptr n, next_ptr n)) (store s a)) [0, 1]))
      (grpc_json_parse_string_with_len [0x7b, 0x22, 0x61, 0x22, 0x3a, 0x7d] 6) =
   Some (Some 0, [Some (GRPC_JSON_OBJECT, None, None), None])"
  by (simp add: json_parse_exec)

text \<open>
  A comma is accepted between values at the top level, and a parse that fails
  after it frees the first value only: the nodes of the others are leaked
  (\<open>1,[2,\<close> fails, with the two nodes of the array still allocated).
\<close>

theorem parse_failure_leaks:
  "map_option (\<lambda>(p, s). (p, map (\<lambda>a. map_option jtype (store s a)) [0, 1, 2]))
      (grpc_json_parse_string_with_len (bytes_of_string ''1,[2,'') 5) =
   Some (None, [None, Some GRPC_JSON_ARRAY, Some GRPC_JSON_NUMBER])"
  by (simp add: json_parse_exec bytes_of_string_def)

end
