(* ===== verification/Gpr_Time.thy ===== *)
theory Gpr_Time
  imports Prelude "HOL-Library.Signed_Division"
begin

text \<open>
  Points in time and time spans of \<^verbatim>\<open>src/core/support/time.c\<close>. Seconds are a
  signed 64-bit \<^verbatim>\<open>time_t\<close> (and \<^verbatim>\<open>long\<close>), nanoseconds a 32-bit \<^verbatim>\<open>int\<close>: both
  are integers here and every operation on them goes through \<^const>\<open>c_signed\<close>, for
  which an overflow, undefined in C, is \<^const>\<open>None\<close>. So is a failed
  \<^verbatim>\<open>GPR_ASSERT\<close>. Division truncates.
\<close>

section \<open>Data\<close>

datatype gpr_clock_type = GPR_CLOCK_MONOTONIC | GPR_CLOCK_REALTIME | GPR_CLOCK_PRECISE | GPR_TIMESPAN

record gpr_timespec =
  tv_sec :: int
  tv_nsec :: int
  clock_type :: gpr_clock_type

definition TIME_MAX :: int where "TIME_MAX = 0x7fffffffffffffff"
definition TIME_MIN :: int where "TIME_MIN = - 0x8000000000000000"

abbreviation (input) GPR_NS_PER_SEC :: int where "GPR_NS_PER_SEC \<equiv> 1000000000"
abbreviation (input) GPR_NS_PER_MS :: int where "GPR_NS_PER_MS \<equiv> 1000000"
abbreviation (input) GPR_MS_PER_SEC :: int where "GPR_MS_PER_SEC \<equiv> 1000"

section \<open>Comparison\<close>

definition gpr_time_cmp :: "gpr_timespec \<Rightarrow> gpr_timespec \<Rightarrow> int option" where
  "gpr_time_cmp a b =
     (let cmp = of_bool (tv_sec a > tv_sec b) - of_bool (tv_sec a < tv_sec b) in
      do {
        gpr_assert (clock_type a = clock_type b);
        Some (if cmp = 0 then of_bool (tv_nsec a > tv_nsec b) - of_bool (tv_nsec a < tv_nsec b)
              else cmp)
      })"

definition gpr_time_min :: "gpr_timespec \<Rightarrow> gpr_timespec \<Rightarrow> gpr_timespec option" where
  "gpr_time_min a b = do { c \<leftarrow> gpr_time_cmp a b; Some (if c < 0 then a else b) }"

definition gpr_time_max :: "gpr_timespec \<Rightarrow> gpr_timespec \<Rightarrow> gpr_timespec option" where
  "gpr_time_max a b = do { c \<leftarrow> gpr_time_cmp a b; Some (if c > 0 then a else b) }"

section \<open>Constants and conversions from units\<close>

definition gpr_time_0 :: "gpr_clock_type \<Rightarrow> gpr_timespec" where
  "gpr_time_0 ct = \<lparr> tv_sec = 0, tv_nsec = 0, clock_type = ct \<rparr>"

definition gpr_inf_future :: "gpr_clock_type \<Rightarrow> gpr_timespec" where
  "gpr_inf_future ct = \<lparr> tv_sec = TIME_MAX, tv_nsec = 0, clock_type = ct \<rparr>"

definition gpr_inf_past :: "gpr_clock_type \<Rightarrow> gpr_timespec" where
  "gpr_inf_past ct = \<lparr> tv_sec = TIME_MIN, tv_nsec = 0, clock_type = ct \<rparr>"

definition gpr_time_from_nanos :: "int \<Rightarrow> gpr_clock_type \<Rightarrow> gpr_timespec option" where
  "gpr_time_from_nanos ns ct =
     (if ns = TIME_MAX then Some (gpr_inf_future ct)
      else if ns = TIME_MIN then Some (gpr_inf_past ct)
      else do {
        sec \<leftarrow> (if ns \<ge> 0 then Some (ns sdiv GPR_NS_PER_SEC)
               else do {
                 t \<leftarrow> c_signed 64 (ns + GPR_NS_PER_SEC);
                 u \<leftarrow> c_signed 64 (999999999 - t);
                 Some ((- u) sdiv GPR_NS_PER_SEC - 1)
               });
        p \<leftarrow> c_signed 64 (sec * GPR_NS_PER_SEC);
        d \<leftarrow> c_signed 64 (ns - p);
        nsec \<leftarrow> c_signed 32 d;
        Some \<lparr> tv_sec = sec, tv_nsec = nsec, clock_type = ct \<rparr>
      })"

definition gpr_time_from_micros :: "int \<Rightarrow> gpr_clock_type \<Rightarrow> gpr_timespec option" where
  "gpr_time_from_micros us ct =
     (if us = TIME_MAX then Some (gpr_inf_future ct)
      else if us = TIME_MIN then Some (gpr_inf_past ct)
      else do {
        sec \<leftarrow> (if us \<ge> 0 then Some (us sdiv 1000000)
               else do {
                 t \<leftarrow> c_signed 64 (us + 1000000);
                 u \<leftarrow> c_signed 64 (999999 - t);
                 Some ((- u) sdiv 1000000 - 1)
               });
        p \<leftarrow> c_signed 64 (sec * 1000000);
        d \<leftarrow> c_signed 64 (us - p);
        e \<leftarrow> c_signed 64 (d * 1000);
        nsec \<leftarrow> c_signed 32 e;
        Some \<lparr> tv_sec = sec, tv_nsec = nsec, clock_type = ct \<rparr>
      })"

definition gpr_time_from_millis :: "int \<Rightarrow> gpr_clock_type \<Rightarrow> gpr_timespec option" where
  "gpr_time_from_millis ms ct =
     (if ms = TIME_MAX then Some (gpr_inf_future ct)
      else if ms = TIME_MIN then Some (gpr_inf_past ct)
      else do {
        sec \<leftarrow> (if ms \<ge> 0 then Some (ms sdiv 1000)
               else do {
                 t \<leftarrow> c_signed 64 (ms + 1000);
                 u \<leftarrow> c_signed 64 (999 - t);
                 Some ((- u) sdiv 1000 - 1)
               });
        p \<leftarrow> c_signed 64 (sec * 1000);
        d \<leftarrow> c_signed 64 (ms - p);
        e \<leftarrow> c_signed 64 (d * 1000000);
        nsec \<leftarrow> c_signed 32 e;
        Some \<lparr> tv_sec = sec, tv_nsec = nsec, clock_type = ct \<rparr>
      })"

definition gpr_time_from_seconds :: "int \<Rightarrow> gpr_clock_type \<Rightarrow> gpr_timespec" where
  "gpr_time_from_seconds s ct =
     (if s = TIME_MAX then gpr_inf_future ct
      else if s = TIME_MIN then gpr_inf_past ct
      else \<lparr> tv_sec = s, tv_nsec = 0, clock_type = ct \<rparr>)"

definition gpr_time_from_minutes :: "int \<Rightarrow> gpr_clock_type \<Rightarrow> gpr_timespec option" where
  "gpr_time_from_minutes m ct =
     (if m \<ge> TIME_MAX sdiv 60 then Some (gpr_inf_future ct)
      else if m \<le> TIME_MIN sdiv 60 then Some (gpr_inf_past ct)
      else do { s \<leftarrow> c_signed 64 (m * 60); Some \<lparr> tv_sec = s, tv_nsec = 0, clock_type = ct \<rparr> })"

definition gpr_time_from_hours :: "int \<Rightarrow> gpr_clock_type \<Rightarrow> gpr_timespec option" where
  "gpr_time_from_hours h ct =
     (if h \<ge> TIME_MAX sdiv 3600 then Some (gpr_inf_future ct)
      else if h \<le> TIME_MIN sdiv 3600 then Some (gpr_inf_past ct)
      else do { s \<leftarrow> c_signed 64 (h * 3600); Some \<lparr> tv_sec = s, tv_nsec = 0, clock_type = ct \<rparr> })"

section \<open>Arithmetic\<close>

definition gpr_time_add :: "gpr_timespec \<Rightarrow> gpr_timespec \<Rightarrow> gpr_timespec option" where
  "gpr_time_add a b =
     do {
       gpr_assert (clock_type b = GPR_TIMESPAN);
       n0 \<leftarrow> c_signed 32 (tv_nsec a + tv_nsec b);
       let (n, inc) = (if n0 \<ge> GPR_NS_PER_SEC then (n0 - GPR_NS_PER_SEC, 1) else (n0, 0));
       (if tv_sec a = TIME_MAX \<or> tv_sec a = TIME_MIN then Some a
        else if tv_sec b = TIME_MAX \<or> (tv_sec b \<ge> 0 \<and> tv_sec a \<ge> TIME_MAX - tv_sec b) then
          Some (gpr_inf_future (clock_type a))
        else if tv_sec b = TIME_MIN \<or> (tv_sec b \<le> 0 \<and> tv_sec a \<le> TIME_MIN - tv_sec b) then
          Some (gpr_inf_past (clock_type a))
        else do {
          s \<leftarrow> c_signed 64 (tv_sec a + tv_sec b);
          (if inc \<noteq> 0 \<and> s = TIME_MAX - 1 then Some (gpr_inf_future (clock_type a))
           else do {
             s1 \<leftarrow> c_signed 64 (s + inc);
             Some \<lparr> tv_sec = s1, tv_nsec = n, clock_type = clock_type a \<rparr>
           })
        })
     }"

definition gpr_time_sub :: "gpr_timespec \<Rightarrow> gpr_timespec \<Rightarrow> gpr_timespec option" where
  "gpr_time_sub a b =
     do {
       ct \<leftarrow> (if clock_type b = GPR_TIMESPAN then Some (clock_type a)
             else do { gpr_assert (clock_type a = clock_type b); Some GPR_TIMESPAN });
       n0 \<leftarrow> c_signed 32 (tv_nsec a - tv_nsec b);
       let (n, dec) = (if n0 < 0 then (n0 + GPR_NS_PER_SEC, 1) else (n0, 0));
       (if tv_sec a = TIME_MAX \<or> tv_sec a = TIME_MIN then Some a
        else if tv_sec b = TIME_MIN \<or> (tv_sec b \<le> 0 \<and> tv_sec a \<ge> TIME_MAX + tv_sec b) then
          Some (gpr_inf_future GPR_CLOCK_REALTIME)
        else if tv_sec b = TIME_MAX \<or> (tv_sec b \<ge> 0 \<and> tv_sec a \<le> TIME_MIN + tv_sec b) then
          Some (gpr_inf_past GPR_CLOCK_REALTIME)
        else do {
          s \<leftarrow> c_signed 64 (tv_sec a - tv_sec b);
          (if dec \<noteq> 0 \<and> s = TIME_MIN + 1 then Some (gpr_inf_past GPR_CLOCK_REALTIME)
           else do {
             s1 \<leftarrow> c_signed 64 (s - dec);
             Some \<lparr> tv_sec = s1, tv_nsec = n, clock_type = ct \<rparr>
           })
        })
     }"

definition gpr_time_similar ::
    "gpr_timespec \<Rightarrow> gpr_timespec \<Rightarrow> gpr_timespec \<Rightarrow> bool option" where
  "gpr_time_similar a b threshold =
     do {
       gpr_assert (clock_type a = clock_type b);
       gpr_assert (clock_type threshold = GPR_TIMESPAN);
       cmp_ab \<leftarrow> gpr_time_cmp a b;
       (if cmp_ab = 0 then Some True
        else if cmp_ab < 0 then do {
          d \<leftarrow> gpr_time_sub b a;
          c \<leftarrow> gpr_time_cmp d threshold;
          Some (c \<le> 0)
        }
        else do {
          d \<leftarrow> gpr_time_sub a b;
          c \<leftarrow> gpr_time_cmp d threshold;
          Some (c \<le> 0)
        })
     }"

definition gpr_time_to_millis :: "gpr_timespec \<Rightarrow> int option" where
  "gpr_time_to_millis t =
     (if tv_sec t \<ge> 2147483 then
        (if tv_sec t = 2147483 \<and> tv_nsec t < 648 * GPR_NS_PER_MS then
           c_signed 32 (2147483 * GPR_MS_PER_SEC + tv_nsec t sdiv GPR_NS_PER_MS)
         else Some 2147483647)
      else if tv_sec t \<le> -2147483 then Some (-2147483647)
      else c_signed 32 (tv_sec t * GPR_MS_PER_SEC + tv_nsec t sdiv GPR_NS_PER_MS))"

text \<open>
  \<^verbatim>\<open>gpr_now\<close> reads a clock of the system. One conversion reads no clock twice, so what it reads
  is a function of the clock, the parameter \<open>now\<close>; each conversion has its own.
\<close>

definition gpr_convert_clock_type ::
    "(gpr_clock_type \<Rightarrow> gpr_timespec) \<Rightarrow> gpr_timespec \<Rightarrow> gpr_clock_type \<Rightarrow> gpr_timespec option" where
  "gpr_convert_clock_type now t ct =
     (if clock_type t = ct then Some t
      else if tv_nsec t = 0 \<and> tv_sec t = TIME_MAX then Some (t\<lparr>clock_type := ct\<rparr>)
      else if tv_nsec t = 0 \<and> tv_sec t = TIME_MIN then Some (t\<lparr>clock_type := ct\<rparr>)
      else if ct = GPR_TIMESPAN then gpr_time_sub t (now (clock_type t))
      else if clock_type t = GPR_TIMESPAN then gpr_time_add (now ct) t
      else do { d \<leftarrow> gpr_time_sub t (now (clock_type t)); gpr_time_add (now ct) d })"


section \<open>Normalised times\<close>

definition time_ok :: "gpr_timespec \<Rightarrow> bool" where
  "time_ok t \<longleftrightarrow> TIME_MIN \<le> tv_sec t \<and> tv_sec t \<le> TIME_MAX \<and> 0 \<le> tv_nsec t \<and> tv_nsec t < GPR_NS_PER_SEC"

definition time_finite :: "gpr_timespec \<Rightarrow> bool" where
  "time_finite t \<longleftrightarrow> TIME_MIN < tv_sec t \<and> tv_sec t < TIME_MAX"

text \<open>The number of nanoseconds a time stands for.\<close>

definition time_ns :: "gpr_timespec \<Rightarrow> int" where
  "time_ns t = tv_sec t * GPR_NS_PER_SEC + tv_nsec t"

named_theorems time_simps "unfolding of time values and bounds"

lemmas [time_simps] = time_ok_def time_finite_def time_ns_def TIME_MAX_def TIME_MIN_def
  gpr_inf_future_def gpr_inf_past_def gpr_time_0_def

lemma sdiv_nonneg: "0 \<le> x \<Longrightarrow> 0 < k \<Longrightarrow> x sdiv k = x div k" for x k :: int
  by (auto simp: signed_divide_int_def sgn_if)

lemma sdiv_neg: "x < 0 \<Longrightarrow> 0 < k \<Longrightarrow> (x + 1) sdiv k - 1 = x div k" for x k :: int
proof -
  assume x: "x < 0" "0 < k"
  then have "(x + 1) sdiv k = - ((- x - 1) div k)"
    by (auto simp: signed_divide_int_def sgn_if)
  moreover have "x div k = - ((- x - 1) div k) - 1"
  proof (rule int_div_pos_eq)
    show "x = k * (- ((- x - 1) div k) - 1) + (k - 1 - (- x - 1) mod k)"
      using mult_div_mod_eq[of k "- x - 1"] by (simp add: algebra_simps)
    show "0 \<le> k - 1 - (- x - 1) mod k" using pos_mod_bound[OF x(2), of "- x - 1"] by linarith
    show "k - 1 - (- x - 1) mod k < k" using pos_mod_sign[OF x(2), of "- x - 1"] by linarith
  qed
  ultimately show ?thesis by simp
qed


section \<open>Comparison orders times by their nanoseconds\<close>

lemma time_cmp_correct:
  assumes "time_ok a" "time_ok b" "clock_type a = clock_type b"
  shows "gpr_time_cmp a b = Some (sgn (time_ns a - time_ns b))"
proof -
  have "tv_sec a < tv_sec b \<Longrightarrow> time_ns a < time_ns b" "tv_sec b < tv_sec a \<Longrightarrow> time_ns b < time_ns a"
    using assms by (auto simp: time_simps)
  moreover have "tv_sec a = tv_sec b \<Longrightarrow> time_ns a - time_ns b = tv_nsec a - tv_nsec b"
    by (simp add: time_simps)
  ultimately show ?thesis using assms(3)
    by (cases "tv_sec a" "tv_sec b" rule: linorder_cases)
      (auto simp: gpr_time_cmp_def Let_def)
qed

section \<open>Conversions from units\<close>

text \<open>
  The seconds of a negative count are the floor of the quotient; the product of
  that floor and the unit overflows below the last whole second.
\<close>

lemma time_floor_bounds: "0 < k \<Longrightarrow> x div k * k \<le> x \<and> x < x div k * k + k" for x k :: int
  using div_mult_mod_eq[of x k] pos_mod_bound[of k x] pos_mod_sign[of k x] by linarith

lemma time_floor_product:
  assumes "0 < k" "TIME_MIN \<le> x" "x \<le> TIME_MAX"
  shows "c_signed 64 (x div k * k) = (if x div k * k < TIME_MIN then None else Some (x div k * k))"
  using time_floor_bounds[OF assms(1), of x] assms(2,3) by (auto simp: c_signed_def time_simps)

lemma time_floor_rest: "c_signed 64 (x - x div 1000000000 * 1000000000) = Some (x mod 1000000000)"
  "c_signed 64 (x - x div 1000000 * 1000000) = Some (x mod 1000000)"
  "c_signed 64 (x - x div 1000 * 1000) = Some (x mod 1000)"
proof -
  have b: "0 \<le> x mod k" "x mod k < k" if "0 < k" for k :: int using that by simp_all
  show "c_signed 64 (x - x div 1000000000 * 1000000000) = Some (x mod 1000000000)"
    "c_signed 64 (x - x div 1000000 * 1000000) = Some (x mod 1000000)"
    "c_signed 64 (x - x div 1000 * 1000) = Some (x mod 1000)"
    using b[of 1000000000] b[of 1000000] b[of 1000]
    by (simp_all only: minus_div_mult_eq_mod) (simp_all add: c_signed_64)
qed

lemma time_floor_seconds:
  assumes "TIME_MIN \<le> x" "x \<le> TIME_MAX" "0 < k" "k \<le> 1000000000" "k1 = k - 1"
  shows "(if 0 \<le> x then Some (x sdiv k)
      else do { t \<leftarrow> c_signed 64 (x + k); u \<leftarrow> c_signed 64 (k1 - t); Some ((- u) sdiv k - 1) }) =
    Some (x div k)"
proof (cases "0 \<le> x")
  case True
  with assms show ?thesis by (simp add: sdiv_nonneg)
next
  case False
  with assms have "c_signed 64 (x + k) = Some (x + k)" "c_signed 64 (k1 - (x + k)) = Some (k1 - (x + k))"
    by (auto intro!: c_signed_64 simp: time_simps)
  moreover have "- (k1 - (x + k)) = x + 1" using assms(5) by simp
  ultimately show ?thesis using False assms(3) by (simp only: bind.simps if_False sdiv_neg)
qed

lemma time_from_units:
  assumes "TIME_MIN \<le> x" "x \<le> TIME_MAX"
  shows "gpr_time_from_nanos x ct =
     (if x = TIME_MAX then Some (gpr_inf_future ct)
      else if x = TIME_MIN then Some (gpr_inf_past ct)
      else if x div 1000000000 * 1000000000 < TIME_MIN then None
      else Some \<lparr> tv_sec = x div 1000000000, tv_nsec = x mod 1000000000, clock_type = ct \<rparr>)"
    "gpr_time_from_micros x ct =
     (if x = TIME_MAX then Some (gpr_inf_future ct)
      else if x = TIME_MIN then Some (gpr_inf_past ct)
      else if x div 1000000 * 1000000 < TIME_MIN then None
      else Some \<lparr> tv_sec = x div 1000000, tv_nsec = x mod 1000000 * 1000, clock_type = ct \<rparr>)"
    "gpr_time_from_millis x ct =
     (if x = TIME_MAX then Some (gpr_inf_future ct)
      else if x = TIME_MIN then Some (gpr_inf_past ct)
      else if x div 1000 * 1000 < TIME_MIN then None
      else Some \<lparr> tv_sec = x div 1000, tv_nsec = x mod 1000 * 1000000, clock_type = ct \<rparr>)"
proof -
  have b: "0 \<le> x mod k" "x mod k < k" if "0 < k" for k :: int using that by simp_all
  have narrow: "c_signed 32 (x mod 1000000000) = Some (x mod 1000000000)"
    "c_signed 64 (x mod 1000000 * 1000) = Some (x mod 1000000 * 1000)"
    "c_signed 32 (x mod 1000000 * 1000) = Some (x mod 1000000 * 1000)"
    "c_signed 64 (x mod 1000 * 1000000) = Some (x mod 1000 * 1000000)"
    "c_signed 32 (x mod 1000 * 1000000) = Some (x mod 1000 * 1000000)"
    using b[of 1000000000] b[of 1000000] b[of 1000] by (auto intro!: c_signed_64 c_signed_32)
  note p = time_floor_product[OF _ assms, of 1000000000, simplified] time_floor_product[OF _ assms, of 1000000, simplified]
    time_floor_product[OF _ assms, of 1000, simplified]
  show "gpr_time_from_nanos x ct =
     (if x = TIME_MAX then Some (gpr_inf_future ct)
      else if x = TIME_MIN then Some (gpr_inf_past ct)
      else if x div 1000000000 * 1000000000 < TIME_MIN then None
      else Some \<lparr> tv_sec = x div 1000000000, tv_nsec = x mod 1000000000, clock_type = ct \<rparr>)"
    by (subst gpr_time_from_nanos_def, subst time_floor_seconds[OF assms])
      (simp_all add: p time_floor_rest narrow del: minus_div_mult_eq_mod)
  show "gpr_time_from_micros x ct =
     (if x = TIME_MAX then Some (gpr_inf_future ct)
      else if x = TIME_MIN then Some (gpr_inf_past ct)
      else if x div 1000000 * 1000000 < TIME_MIN then None
      else Some \<lparr> tv_sec = x div 1000000, tv_nsec = x mod 1000000 * 1000, clock_type = ct \<rparr>)"
    by (subst gpr_time_from_micros_def, subst time_floor_seconds[OF assms])
      (simp_all add: p time_floor_rest narrow del: minus_div_mult_eq_mod)
  show "gpr_time_from_millis x ct =
     (if x = TIME_MAX then Some (gpr_inf_future ct)
      else if x = TIME_MIN then Some (gpr_inf_past ct)
      else if x div 1000 * 1000 < TIME_MIN then None
      else Some \<lparr> tv_sec = x div 1000, tv_nsec = x mod 1000 * 1000000, clock_type = ct \<rparr>)"
    by (subst gpr_time_from_millis_def, subst time_floor_seconds[OF assms])
      (simp_all add: p time_floor_rest narrow del: minus_div_mult_eq_mod)
qed


text \<open>
  C32. Converting a count of nanoseconds gives the normalised time of exactly that
  many nanoseconds, the two extreme counts standing for the infinities; the one
  exception is a count below \<open>-9223372036\<close> seconds, for which the code's
  multiplication overflows although it is written to avoid that.
\<close>

theorem time_from_nanos_exact:
  assumes "TIME_MIN \<le> ns" "ns \<le> TIME_MAX"
  shows "(case gpr_time_from_nanos ns ct of
            None \<Rightarrow> TIME_MIN < ns \<and> ns < -9223372036000000000
          | Some t \<Rightarrow> time_ok t \<and> clock_type t = ct \<and>
              (ns = TIME_MAX \<and> t = gpr_inf_future ct \<or> ns = TIME_MIN \<and> t = gpr_inf_past ct \<or>
               -9223372036000000000 \<le> ns \<and> time_finite t \<and> time_ns t = ns))"
proof -
  have f: "ns div 1000000000 * 1000000000 \<le> ns \<and> ns < ns div 1000000000 * 1000000000 + 1000000000"
    by (rule time_floor_bounds) simp
  have "ns div 1000000000 * 1000000000 < TIME_MIN \<longleftrightarrow> ns < -9223372036000000000"
  proof -
    have "q * 1000000000 < - 9223372036854775808 \<longleftrightarrow> q < - 9223372036" for q :: int by (rule iffI; linarith)
    moreover have "ns div 1000000000 < - 9223372036 \<longleftrightarrow> ns < -9223372036000000000" using f by linarith
    ultimately show ?thesis by (simp only: TIME_MIN_def)
  qed
  moreover have "0 \<le> ns mod 1000000000" "ns mod 1000000000 < 1000000000" by simp_all
  moreover have "ns div 1000000000 * 1000000000 + ns mod 1000000000 = ns" by simp
  ultimately show ?thesis using assms f
    by (subst time_from_units(1)[OF assms]) (auto simp: time_simps)
qed

theorem time_from_nanos_exact_witness:
  "case gpr_time_from_nanos (- 1500000000) GPR_TIMESPAN of
     None \<Rightarrow> TIME_MIN < - 1500000000 \<and> - 1500000000 < (-9223372036000000000 :: int)
   | Some t \<Rightarrow> time_ok t \<and> clock_type t = GPR_TIMESPAN \<and>
       (- 1500000000 = TIME_MAX \<and> t = gpr_inf_future GPR_TIMESPAN \<or>
        - 1500000000 = TIME_MIN \<and> t = gpr_inf_past GPR_TIMESPAN \<or>
        -9223372036000000000 \<le> (- 1500000000 :: int) \<and> time_finite t \<and> time_ns t = - 1500000000)"
  by (rule time_from_nanos_exact) (simp_all add: time_simps)

section \<open>Addition and subtraction\<close>

lemma time_add_cases:
  assumes "time_ok a" "time_ok b" "clock_type b = GPR_TIMESPAN" "time_finite a" "time_finite b"
  defines "s \<equiv> tv_sec a + tv_sec b" and "n \<equiv> tv_nsec a + tv_nsec b"
  shows "gpr_time_add a b =
     Some (if s \<ge> TIME_MAX \<or> s = TIME_MAX - 1 \<and> n \<ge> GPR_NS_PER_SEC then gpr_inf_future (clock_type a)
           else if s \<le> TIME_MIN then gpr_inf_past (clock_type a)
           else if n \<ge> GPR_NS_PER_SEC then
             \<lparr> tv_sec = s + 1, tv_nsec = n - GPR_NS_PER_SEC, clock_type = clock_type a \<rparr>
           else \<lparr> tv_sec = s, tv_nsec = n, clock_type = clock_type a \<rparr>)"
proof -
  from assms have n: "c_signed 32 n = Some n"
    by (intro c_signed_32) (auto simp: time_simps n_def)
  have "tv_sec a \<noteq> TIME_MAX" "tv_sec a \<noteq> TIME_MIN" "tv_sec b \<noteq> TIME_MAX" "tv_sec b \<noteq> TIME_MIN"
    using assms by (auto simp: time_simps)
  moreover have "tv_sec b \<ge> 0 \<and> tv_sec a \<ge> TIME_MAX - tv_sec b \<longleftrightarrow> s \<ge> TIME_MAX"
    "tv_sec b \<le> 0 \<and> tv_sec a \<le> TIME_MIN - tv_sec b \<longleftrightarrow> s \<le> TIME_MIN"
    using assms by (auto simp: time_simps)
  moreover have "c_signed 64 s = Some s" "s < TIME_MAX - 1 \<Longrightarrow> c_signed 64 (s + 1) = Some (s + 1)"
    if "\<not> s \<ge> TIME_MAX" "\<not> s \<le> TIME_MIN"
    using that by (auto intro!: c_signed_64 simp: time_simps)
  moreover have "\<not> TIME_MAX - 1 \<le> TIME_MIN" by (simp add: time_simps)
  ultimately show ?thesis using assms(3) n
    by (auto simp: gpr_time_add_def Let_def s_def[symmetric] n_def[symmetric])
qed


lemma time_sub_cases:
  assumes "time_ok a" "time_ok b" "clock_type b = GPR_TIMESPAN \<or> clock_type a = clock_type b"
    "time_finite a" "time_finite b"
  defines "s \<equiv> tv_sec a - tv_sec b" and "n \<equiv> tv_nsec a - tv_nsec b"
    and "ct \<equiv> (if clock_type b = GPR_TIMESPAN then clock_type a else GPR_TIMESPAN)"
  shows "gpr_time_sub a b =
     Some (if s \<ge> TIME_MAX then gpr_inf_future GPR_CLOCK_REALTIME
           else if s \<le> TIME_MIN \<or> s = TIME_MIN + 1 \<and> n < 0 then gpr_inf_past GPR_CLOCK_REALTIME
           else if n < 0 then \<lparr> tv_sec = s - 1, tv_nsec = n + GPR_NS_PER_SEC, clock_type = ct \<rparr>
           else \<lparr> tv_sec = s, tv_nsec = n, clock_type = ct \<rparr>)"
proof -
  from assms have n: "c_signed 32 n = Some n"
    by (intro c_signed_32) (auto simp: time_simps n_def)
  have "(if clock_type b = GPR_TIMESPAN then Some (clock_type a)
         else do { gpr_assert (clock_type a = clock_type b); Some GPR_TIMESPAN }) = Some ct"
    using assms(3) by (auto simp: ct_def)
  moreover have "tv_sec a \<noteq> TIME_MAX" "tv_sec a \<noteq> TIME_MIN" "tv_sec b \<noteq> TIME_MAX" "tv_sec b \<noteq> TIME_MIN"
    using assms by (auto simp: time_simps)
  moreover have "tv_sec b \<le> 0 \<and> tv_sec a \<ge> TIME_MAX + tv_sec b \<longleftrightarrow> s \<ge> TIME_MAX"
    "tv_sec b \<ge> 0 \<and> tv_sec a \<le> TIME_MIN + tv_sec b \<longleftrightarrow> s \<le> TIME_MIN"
    using assms by (auto simp: time_simps)
  moreover have "c_signed 64 s = Some s" "s > TIME_MIN + 1 \<Longrightarrow> c_signed 64 (s - 1) = Some (s - 1)"
    if "\<not> s \<ge> TIME_MAX" "\<not> s \<le> TIME_MIN"
    using that by (auto intro!: c_signed_64 simp: time_simps)
  moreover have "\<not> TIME_MAX \<le> TIME_MIN" "\<not> TIME_MAX \<le> TIME_MIN + 1" by (simp_all add: time_simps)
  ultimately show ?thesis using n
    by (auto simp: gpr_time_sub_def Let_def s_def[symmetric] n_def[symmetric])
qed

text \<open>
  C30. Adding a time span to a time never overflows: the result is the exact sum,
  normalised and on the clock of the first argument, or an infinity of that
  clock, reached only when the exact sum is within two seconds of it or beyond.
\<close>

theorem time_add_saturates:
  assumes "time_ok a" "time_ok b" "clock_type b = GPR_TIMESPAN" "time_finite a" "time_finite b"
  shows "\<exists>r. gpr_time_add a b = Some r \<and> time_ok r \<and> clock_type r = clock_type a \<and>
     (time_finite r \<and> time_ns r = time_ns a + time_ns b \<or>
      r = gpr_inf_future (clock_type a) \<and> TIME_MAX * GPR_NS_PER_SEC \<le> time_ns a + time_ns b \<or>
      r = gpr_inf_past (clock_type a) \<and> time_ns a + time_ns b < (TIME_MIN + 2) * GPR_NS_PER_SEC)"
  using assms by (subst time_add_cases) (auto simp: time_simps)

theorem time_add_saturates_witness:
  "\<exists>r. gpr_time_add \<lparr> tv_sec = 1, tv_nsec = 999999999, clock_type = GPR_CLOCK_REALTIME \<rparr>
         \<lparr> tv_sec = 1, tv_nsec = 1, clock_type = GPR_TIMESPAN \<rparr> = Some r \<and> time_ok r \<and>
     clock_type r = GPR_CLOCK_REALTIME \<and>
     (time_finite r \<and> time_ns r = 1999999999 + 1000000001 \<or>
      r = gpr_inf_future GPR_CLOCK_REALTIME \<and> TIME_MAX * GPR_NS_PER_SEC \<le> 1999999999 + 1000000001 \<or>
      r = gpr_inf_past GPR_CLOCK_REALTIME \<and> 1999999999 + 1000000001 < (TIME_MIN + 2) * GPR_NS_PER_SEC)"
  using time_add_saturates[of "\<lparr> tv_sec = 1, tv_nsec = 999999999, clock_type = GPR_CLOCK_REALTIME \<rparr>"
      "\<lparr> tv_sec = 1, tv_nsec = 1, clock_type = GPR_TIMESPAN \<rparr>"]
  by (simp add: time_simps)

text \<open>
  Subtracting a span that was added gives the first time back, whenever the
  sum did not saturate.
\<close>

theorem time_add_sub:
  assumes "time_ok a" "time_ok b" "clock_type b = GPR_TIMESPAN" "time_finite a" "time_finite b"
    and "gpr_time_add a b = Some r" "time_finite r" "tv_sec a < TIME_MAX - 1"
  shows "gpr_time_sub r b = Some a"
proof -
  let ?s = "tv_sec a + tv_sec b" and ?n = "tv_nsec a + tv_nsec b"
  have r: "r = (if ?n \<ge> GPR_NS_PER_SEC then
             \<lparr> tv_sec = ?s + 1, tv_nsec = ?n - GPR_NS_PER_SEC, clock_type = clock_type a \<rparr>
           else \<lparr> tv_sec = ?s, tv_nsec = ?n, clock_type = clock_type a \<rparr>)"
    using assms(6,7) unfolding time_add_cases[OF assms(1-5)]
    by (auto simp: gpr_inf_future_def gpr_inf_past_def time_finite_def split: if_splits)
  have ok: "time_ok r" "clock_type r = clock_type a"
    using r assms by (auto simp: time_simps)
  have "tv_nsec a - GPR_NS_PER_SEC < 0" "0 \<le> tv_nsec a" using assms(1) by (auto simp: time_simps)
  then show ?thesis
    unfolding time_sub_cases[OF ok(1) assms(2) disjI1[OF assms(3)] assms(7,5)]
    using assms(1,3,4,8) r by (auto simp: time_finite_def)
qed

theorem time_add_sub_witness:
  "gpr_time_sub \<lparr> tv_sec = 3, tv_nsec = 0, clock_type = GPR_CLOCK_REALTIME \<rparr>
     \<lparr> tv_sec = 1, tv_nsec = 1, clock_type = GPR_TIMESPAN \<rparr> =
   Some \<lparr> tv_sec = 1, tv_nsec = 999999999, clock_type = GPR_CLOCK_REALTIME \<rparr>"
  by (rule time_add_sub) (simp_all add: gpr_time_add_def c_signed_def time_simps)

text \<open>
  C33. A difference of two absolute times that saturates is an infinity of the
  real-time clock and not a span, so comparing it with a span aborts.
\<close>

theorem time_sub_wrong_clock:
  assumes "time_ok a" "time_ok b" "time_ok t" "clock_type a = clock_type b" "clock_type t = GPR_TIMESPAN"
    and "time_finite a" "time_finite b" "TIME_MAX \<le> tv_sec a - tv_sec b"
  shows "gpr_time_sub a b = Some (gpr_inf_future GPR_CLOCK_REALTIME) \<and> gpr_time_similar a b t = None"
proof -
  have sub: "gpr_time_sub a b = Some (gpr_inf_future GPR_CLOCK_REALTIME)"
    using assms by (subst time_sub_cases) auto
  have "time_ns a - time_ns b > 0" using assms(1,2,8) by (auto simp: time_simps)
  then have cmp: "gpr_time_cmp a b = Some 1" using time_cmp_correct[OF assms(1,2,4)] by simp
  have "gpr_time_cmp (gpr_inf_future GPR_CLOCK_REALTIME) t = None"
    using assms(5) by (simp add: gpr_time_cmp_def gpr_inf_future_def)
  with sub cmp show ?thesis by (simp add: gpr_time_similar_def assms(4,5))
qed

theorem time_sub_wrong_clock_witness:
  "gpr_time_sub \<lparr> tv_sec = TIME_MAX - 1, tv_nsec = 0, clock_type = GPR_CLOCK_MONOTONIC \<rparr>
     \<lparr> tv_sec = -1, tv_nsec = 0, clock_type = GPR_CLOCK_MONOTONIC \<rparr> =
     Some (gpr_inf_future GPR_CLOCK_REALTIME) \<and>
   gpr_time_similar \<lparr> tv_sec = TIME_MAX - 1, tv_nsec = 0, clock_type = GPR_CLOCK_MONOTONIC \<rparr>
     \<lparr> tv_sec = -1, tv_nsec = 0, clock_type = GPR_CLOCK_MONOTONIC \<rparr> (gpr_time_0 GPR_TIMESPAN) = None"
  by (rule time_sub_wrong_clock) (simp_all add: time_simps)

text \<open>
  A time in milliseconds is the floor of its nanoseconds, capped at the largest
  32-bit integer; a time 2147483 seconds or more before the epoch is the smallest
  value instead.
\<close>

theorem time_to_millis_correct:
  assumes "time_ok t"
  shows "gpr_time_to_millis t =
     Some (if tv_sec t \<le> -2147483 then -2147483647 else min (time_ns t div GPR_NS_PER_MS) 2147483647)"
proof -
  have ns: "time_ns t div 1000000 = tv_sec t * 1000 + tv_nsec t div 1000000"
  proof -
    have "time_ns t = tv_nsec t + tv_sec t * 1000 * 1000000" by (simp add: time_ns_def)
    then show ?thesis by simp
  qed
  have n: "0 \<le> tv_nsec t div 1000000" "tv_nsec t div 1000000 < 1000"
    using assms time_floor_bounds[of 1000000 "tv_nsec t"] by (auto simp: time_simps pos_imp_zdiv_nonneg_iff)
  have t648: "tv_nsec t < 648000000 \<longleftrightarrow> tv_nsec t div 1000000 < 648"
    using time_floor_bounds[of 1000000 "tv_nsec t"] by linarith
  have "tv_nsec t sdiv 1000000 = tv_nsec t div 1000000" using assms by (simp add: sdiv_nonneg time_simps)
  then show ?thesis using n unfolding ns
    by (auto simp: gpr_time_to_millis_def c_signed_def t648 min_def)
qed

theorem time_to_millis_correct_witness:
  "gpr_time_to_millis \<lparr> tv_sec = -1, tv_nsec = 999000000, clock_type = GPR_TIMESPAN \<rparr> =
     Some (if (-1 :: int) \<le> -2147483 then -2147483647 else min ((- 1000000) div 1000000) 2147483647)"
  using time_to_millis_correct[of "\<lparr> tv_sec = -1, tv_nsec = 999000000, clock_type = GPR_TIMESPAN \<rparr>"]
  by (simp add: time_simps)


lemma time_add_exact:
  assumes "time_ok a" "time_ok b" "clock_type b = GPR_TIMESPAN" "time_finite a" "time_finite b"
    and "(TIME_MIN + 2) * GPR_NS_PER_SEC \<le> time_ns a + time_ns b" "time_ns a + time_ns b < TIME_MAX * GPR_NS_PER_SEC"
  obtains r where "gpr_time_add a b = Some r" "time_ok r" "clock_type r = clock_type a" "time_ns r = time_ns a + time_ns b"
  using assms by (subst (asm) time_add_cases) (auto simp: time_simps split: if_splits)

lemma time_sub_exact:
  assumes "time_ok a" "time_ok b" "clock_type a = clock_type b" "clock_type b \<noteq> GPR_TIMESPAN" "time_finite a" "time_finite b"
    and "(TIME_MIN + 2) * GPR_NS_PER_SEC \<le> time_ns a - time_ns b" "time_ns a - time_ns b < (TIME_MAX - 1) * GPR_NS_PER_SEC"
  obtains d where "gpr_time_sub a b = Some d" "time_ok d" "time_finite d" "clock_type d = GPR_TIMESPAN"
    "time_ns d = time_ns a - time_ns b"
  using assms by (subst (asm) time_sub_cases) (auto simp: time_simps split: if_splits)

lemma time_ns_unique:
  assumes "time_ok a" "time_ok b" "time_ns a = time_ns b" "clock_type a = clock_type b"
  shows "a = b"
proof -
  have "0 \<le> tv_nsec a" "tv_nsec a < 1000000000" "0 \<le> tv_nsec b" "tv_nsec b < 1000000000"
    "tv_sec a * 1000000000 + tv_nsec a = tv_sec b * 1000000000 + tv_nsec b"
    using assms(1-3) by (simp_all add: time_simps)
  moreover from this have "tv_sec a = tv_sec b" by arith
  ultimately have "tv_sec a = tv_sec b" "tv_nsec a = tv_nsec b" by simp_all
  with assms(4) show ?thesis by simp
qed

text \<open>
  C31. Turning a time of one clock into a span from now, and the span later into a time of a
  clock, moves the time by exactly what lies between the two readings: that of the first clock
  at the first conversion and that of the second at the second. With readings that are equal
  and one clock the time comes back; from one clock to another with the readings of one moment,
  the two steps are the direct conversion. This holds while neither result leaves the range of
  the seconds.
\<close>

theorem time_convert_roundtrip:
  assumes "time_ok t" "time_finite t" "clock_type t = ct" "ct \<noteq> GPR_TIMESPAN" "ct' \<noteq> GPR_TIMESPAN"
    and "time_ok (now ct)" "time_finite (now ct)" "clock_type (now ct) = ct"
    and "time_ok (later ct')" "time_finite (later ct')" "clock_type (later ct') = ct'"
    and "(TIME_MIN + 2) * GPR_NS_PER_SEC \<le> time_ns t - time_ns (now ct)" "time_ns t - time_ns (now ct) < (TIME_MAX - 1) * GPR_NS_PER_SEC"
    and "(TIME_MIN + 2) * GPR_NS_PER_SEC \<le> time_ns t + (time_ns (later ct') - time_ns (now ct))"
      "time_ns t + (time_ns (later ct') - time_ns (now ct)) < TIME_MAX * GPR_NS_PER_SEC"
  shows "\<exists>d r. gpr_convert_clock_type now t GPR_TIMESPAN = Some d \<and> clock_type d = GPR_TIMESPAN \<and>
           gpr_convert_clock_type later d ct' = Some r \<and> clock_type r = ct' \<and> time_ok r \<and>
           time_ns r = time_ns t + (time_ns (later ct') - time_ns (now ct)) \<and>
           (later ct' = now ct \<longrightarrow> r = t) \<and>
           (later = now \<and> ct' \<noteq> ct \<longrightarrow> gpr_convert_clock_type now t ct' = Some r)"
proof -
  obtain d where d: "gpr_time_sub t (now ct) = Some d" "time_ok d" "time_finite d" "clock_type d = GPR_TIMESPAN"
    "time_ns d = time_ns t - time_ns (now ct)"
    using time_sub_exact[OF assms(1,6) _ _ assms(2,7,12,13)] assms(3,4,8) by auto
  obtain r where r: "gpr_time_add (later ct') d = Some r" "time_ok r" "clock_type r = ct'"
    "time_ns r = time_ns (later ct') + time_ns d"
    using time_add_exact[OF assms(9) d(2,4) assms(10) d(3)] d(5) assms(11,14,15) by auto
  have inf: "tv_sec t \<noteq> TIME_MAX" "tv_sec t \<noteq> TIME_MIN" "tv_sec d \<noteq> TIME_MAX" "tv_sec d \<noteq> TIME_MIN"
    using assms(2) d(3) by (auto simp: time_finite_def)
  have same: "r = t" if "later ct' = now ct"
    using that assms(1,3,8,11) r d(5) by (intro time_ns_unique) auto
  have "gpr_convert_clock_type now t GPR_TIMESPAN = Some d" "gpr_convert_clock_type later d ct' = Some r"
    using assms(3-5) d(1,4) r(1) inf by (auto simp: gpr_convert_clock_type_def)
  moreover have "gpr_convert_clock_type now t ct' = Some r" if "later = now" "ct' \<noteq> ct"
    using that assms(3-5) d(1) r(1) inf by (auto simp: gpr_convert_clock_type_def)
  moreover have "time_ns r = time_ns t + (time_ns (later ct') - time_ns (now ct))" using r(4) d(5) by simp
  ultimately show ?thesis using d(4) r(2,3) same by blast
qed

theorem time_convert_roundtrip_witness:
  "\<exists>d r. gpr_convert_clock_type (\<lambda>ct. \<lparr> tv_sec = 100, tv_nsec = 5, clock_type = ct \<rparr>)
         \<lparr> tv_sec = 103, tv_nsec = 1, clock_type = GPR_CLOCK_REALTIME \<rparr> GPR_TIMESPAN = Some d \<and>
       gpr_convert_clock_type (\<lambda>ct. \<lparr> tv_sec = 20, tv_nsec = 6, clock_type = ct \<rparr>) d GPR_CLOCK_MONOTONIC = Some r \<and>
       clock_type r = GPR_CLOCK_MONOTONIC \<and> time_ns r = 23000000002"
  using time_convert_roundtrip[of "\<lparr> tv_sec = 103, tv_nsec = 1, clock_type = GPR_CLOCK_REALTIME \<rparr>" GPR_CLOCK_REALTIME
      GPR_CLOCK_MONOTONIC "\<lambda>ct. \<lparr> tv_sec = 100, tv_nsec = 5, clock_type = ct \<rparr>"
      "\<lambda>ct. \<lparr> tv_sec = 20, tv_nsec = 6, clock_type = ct \<rparr>"]
  by (auto simp: time_simps)

end
