(* ===== verification/Alarm_Heap.thy ===== *)
theory Alarm_Heap
  imports Gpr_Time "HOL-Library.Multiset"
begin

text \<open>
  The array heap of alarms of \<^verbatim>\<open>src/core/iomgr/alarm_heap.c\<close>. Alarms are objects
  that the caller owns, so they live in a store; a heap holds references to them
  and each alarm holds its index in the heap.
\<close>

section \<open>Alarms\<close>

text \<open>
  A reference is the address of an alarm, or the list head that each shard of
  \<^verbatim>\<open>alarm.c\<close> embeds.
\<close>

datatype alarm_ref = Alarm u64 | List_Head nat

record grpc_alarm =
  deadline :: gpr_timespec
  heap_index :: u32
  triggered :: bool
  next_alarm :: alarm_ref
  prev_alarm :: alarm_ref
  cb_arg :: nat \<comment> \<open>the callback with its argument\<close>

type_synonym alarm_store = "alarm_ref \<Rightarrow> grpc_alarm option"

definition alarm_modify ::
    "alarm_ref \<Rightarrow> (grpc_alarm \<Rightarrow> grpc_alarm) \<Rightarrow> alarm_store \<Rightarrow> alarm_store option" where
  "alarm_modify r f st = do { a \<leftarrow> st r; Some (st(r \<mapsto> f a)) }"

definition alarm_cmp :: "alarm_store \<Rightarrow> alarm_ref \<Rightarrow> alarm_ref \<Rightarrow> int option" where
  "alarm_cmp st r q = do { a \<leftarrow> st r; b \<leftarrow> st q; gpr_time_cmp (deadline a) (deadline b) }"

section \<open>The heap\<close>

record grpc_alarm_heap =
  alarms :: "alarm_ref list" \<comment> \<open>the allocated array\<close>
  alarm_count :: nat
  alarm_capacity :: nat

text \<open>\<^verbatim>\<open>first[i] = t; t->heap_index = i\<close>\<close>

definition alarm_place ::
    "alarm_ref list \<Rightarrow> nat \<Rightarrow> alarm_ref \<Rightarrow> alarm_store \<Rightarrow> (alarm_ref list \<times> alarm_store) option" where
  "alarm_place first i t st =
     do {
       first1 \<leftarrow> c_write first i t;
       st1 \<leftarrow> alarm_modify t (\<lambda>a. a\<lparr>heap_index := of_nat i\<rparr>) st;
       Some (first1, st1)
     }"

fun adjust_upwards ::
    "alarm_ref list \<Rightarrow> nat \<Rightarrow> alarm_ref \<Rightarrow> alarm_store \<Rightarrow> (alarm_ref list \<times> alarm_store) option" where
  "adjust_upwards first i t st =
     (if 0 < i then
        (let parent = (i - 1) div 2 in
         do {
           p \<leftarrow> c_read first parent;
           c \<leftarrow> alarm_cmp st p t;
           (if 0 \<le> c then alarm_place first i t st
            else do {
              (first1, st1) \<leftarrow> alarm_place first i p st;
              adjust_upwards first1 parent t st1
            })
         })
      else alarm_place first i t st)"

declare adjust_upwards.simps [simp del]

function adjust_downwards ::
    "alarm_ref list \<Rightarrow> nat \<Rightarrow> nat \<Rightarrow> alarm_ref \<Rightarrow> alarm_store \<Rightarrow>
       (alarm_ref list \<times> alarm_store) option" where
  "adjust_downwards first i len t st =
     (let left_child = 1 + 2 * i; right_child = left_child + 1 in
      if len \<le> left_child then alarm_place first i t st
      else do {
        l \<leftarrow> c_read first left_child;
        next_i \<leftarrow> (if right_child < len then do {
                     r \<leftarrow> c_read first right_child;
                     c \<leftarrow> alarm_cmp st l r;
                     Some (if c < 0 then right_child else left_child)
                   }
                   else Some left_child);
        m \<leftarrow> c_read first next_i;
        c \<leftarrow> alarm_cmp st t m;
        (if 0 \<le> c then alarm_place first i t st
         else do {
           (first1, st1) \<leftarrow> alarm_place first i m st;
           adjust_downwards first1 next_i len t st1
         })
      })"
  by auto
termination
  by (relation "measure (\<lambda>(_, i, len, _). len - i)")
    (auto simp: Option.bind_eq_Some_conv split: if_splits)

declare adjust_downwards.simps [simp del]

definition SHRINK_MIN_ELEMS :: nat where "SHRINK_MIN_ELEMS = 8"
definition SHRINK_FULLNESS_FACTOR :: nat where "SHRINK_FULLNESS_FACTOR = 2"

definition maybe_shrink :: "grpc_alarm_heap \<Rightarrow> grpc_alarm_heap" where
  "maybe_shrink h =
     (if 8 \<le> alarm_count h \<and> alarm_count h \<le> alarm_capacity h div SHRINK_FULLNESS_FACTOR div 2
      then h\<lparr>alarm_capacity := alarm_count h * SHRINK_FULLNESS_FACTOR,
             alarms := c_realloc (Alarm 0) (alarms h) (alarm_count h * SHRINK_FULLNESS_FACTOR)\<rparr>
      else h)"

definition note_changed_priority ::
    "grpc_alarm_heap \<Rightarrow> alarm_ref \<Rightarrow> alarm_store \<Rightarrow> (grpc_alarm_heap \<times> alarm_store) option" where
  "note_changed_priority h alarm st =
     do {
       a \<leftarrow> st alarm;
       let i = unat (heap_index a);
       let parent = (i - 1) div 2; \<comment> \<open>\<open>(0 - 1) / 2\<close> is 0 in C\<close>
       p \<leftarrow> c_read (alarms h) parent;
       c \<leftarrow> alarm_cmp st p alarm;
       (first, st1) \<leftarrow> (if c < 0 then adjust_upwards (alarms h) i alarm st
                         else adjust_downwards (alarms h) i (alarm_count h) alarm st);
       Some (h\<lparr>alarms := first\<rparr>, st1)
     }"

definition grpc_alarm_heap_init :: grpc_alarm_heap where
  "grpc_alarm_heap_init = \<lparr> alarms = [], alarm_count = 0, alarm_capacity = 0 \<rparr>"

definition grpc_alarm_heap_add ::
    "grpc_alarm_heap \<Rightarrow> alarm_ref \<Rightarrow> alarm_store \<Rightarrow> (bool \<times> grpc_alarm_heap \<times> alarm_store) option" where
  "grpc_alarm_heap_add h alarm st =
     do {
       h1 \<leftarrow> (if alarm_count h = alarm_capacity h then do {
                t \<leftarrow> c_signed 32 (int (alarm_capacity h) * 3);
                let cap = max (alarm_capacity h + 1) (nat t div 2);
                Some (h\<lparr>alarm_capacity := cap, alarms := c_realloc (Alarm 0) (alarms h) cap\<rparr>)
              }
              else Some h);
       st1 \<leftarrow> alarm_modify alarm (\<lambda>a. a\<lparr>heap_index := of_nat (alarm_count h1)\<rparr>) st;
       (first, st2) \<leftarrow> adjust_upwards (alarms h1) (alarm_count h1) alarm st1;
       a \<leftarrow> st2 alarm;
       Some (heap_index a = 0, h1\<lparr>alarms := first, alarm_count := alarm_count h1 + 1\<rparr>, st2)
     }"

definition grpc_alarm_heap_remove ::
    "grpc_alarm_heap \<Rightarrow> alarm_ref \<Rightarrow> alarm_store \<Rightarrow> (grpc_alarm_heap \<times> alarm_store) option" where
  "grpc_alarm_heap_remove h alarm st =
     do {
       a \<leftarrow> st alarm;
       let i = unat (heap_index a);
       gpr_assert (0 < alarm_count h); \<comment> \<open>else an access before the array\<close>
       (if i = alarm_count h - 1 then
          Some (maybe_shrink (h\<lparr>alarm_count := alarm_count h - 1\<rparr>), st)
        else do {
          m \<leftarrow> c_read (alarms h) (alarm_count h - 1);
          (first, st1) \<leftarrow> alarm_place (alarms h) i m st;
          let h1 = maybe_shrink (h\<lparr>alarms := first, alarm_count := alarm_count h - 1\<rparr>);
          t \<leftarrow> c_read (alarms h1) i;
          note_changed_priority h1 t st1
        })
     }"

definition grpc_alarm_heap_is_empty :: "grpc_alarm_heap \<Rightarrow> bool" where
  "grpc_alarm_heap_is_empty h \<longleftrightarrow> alarm_count h = 0"

definition grpc_alarm_heap_top :: "grpc_alarm_heap \<Rightarrow> alarm_ref option" where
  "grpc_alarm_heap_top h = c_read (alarms h) 0"

definition grpc_alarm_heap_pop ::
    "grpc_alarm_heap \<Rightarrow> alarm_store \<Rightarrow> (grpc_alarm_heap \<times> alarm_store) option" where
  "grpc_alarm_heap_pop h st = do { t \<leftarrow> grpc_alarm_heap_top h; grpc_alarm_heap_remove h t st }"


section \<open>What sifting changes\<close>

definition alarm_key :: "alarm_store \<Rightarrow> alarm_ref \<Rightarrow> int" where
  "alarm_key st r = time_ns (deadline (the (st r)))"

definition alarm_valid :: "gpr_clock_type \<Rightarrow> alarm_store \<Rightarrow> alarm_ref \<Rightarrow> bool" where
  "alarm_valid ct st r \<longleftrightarrow>
     (\<exists>a. st r = Some a \<and> time_ok (deadline a) \<and> clock_type (deadline a) = ct)"

text \<open>Two stores that differ in the heap indices of the given alarms only.\<close>

definition alarms_reindexed :: "alarm_ref set \<Rightarrow> alarm_store \<Rightarrow> alarm_store \<Rightarrow> bool" where
  "alarms_reindexed R st st' \<longleftrightarrow>
     (\<forall>r. (r \<notin> R \<longrightarrow> st' r = st r) \<and>
          map_option (heap_index_update (\<lambda>_. 0)) (st' r) = map_option (heap_index_update (\<lambda>_. 0)) (st r))"

lemma alarms_reindexed_refl [simp]: "alarms_reindexed R st st"
  by (simp add: alarms_reindexed_def)

lemma alarms_reindexed_trans:
  "alarms_reindexed R st st1 \<Longrightarrow> alarms_reindexed R st1 st2 \<Longrightarrow> alarms_reindexed R st st2"
  by (simp add: alarms_reindexed_def)

lemma alarms_reindexed_field:
  assumes "alarms_reindexed R st st'" "st r = Some a"
  obtains x where "st' r = Some (a\<lparr>heap_index := x\<rparr>)"
proof -
  from assms have "map_option (heap_index_update (\<lambda>_. 0)) (st' r) = Some (a\<lparr>heap_index := 0\<rparr>)"
    by (simp add: alarms_reindexed_def)
  then obtain b where "st' r = Some b" "b\<lparr>heap_index := 0\<rparr> = a\<lparr>heap_index := 0\<rparr>" by auto
  then have "b = a\<lparr>heap_index := heap_index b\<rparr>"
    by (cases a; cases b) simp
  with \<open>st' r = Some b\<close> that show thesis by metis
qed

lemma alarms_reindexed_None: "alarms_reindexed R st st' \<Longrightarrow> st r = None \<longleftrightarrow> st' r = None"
  unfolding alarms_reindexed_def by (cases "st r"; cases "st' r") (auto dest: spec[of _ r])

lemma alarms_reindexed_key: "alarms_reindexed R st st' \<Longrightarrow> alarm_key st' = alarm_key st"
proof
  fix r assume R: "alarms_reindexed R st st'"
  show "alarm_key st' r = alarm_key st r"
  proof (cases "st r")
    case None
    with alarms_reindexed_None[OF R, of r] show ?thesis by (simp add: alarm_key_def)
  next
    case (Some a)
    with R obtain x where "st' r = Some (a\<lparr>heap_index := x\<rparr>)" by (rule alarms_reindexed_field)
    with Some show ?thesis by (simp add: alarm_key_def)
  qed
qed

lemma alarms_reindexed_valid: "alarms_reindexed R st st' \<Longrightarrow> alarm_valid ct st r \<Longrightarrow> alarm_valid ct st' r"
  unfolding alarm_valid_def by (auto elim!: alarms_reindexed_field)

lemma alarm_cmp_valid:
  "alarm_valid ct st r \<Longrightarrow> alarm_valid ct st q \<Longrightarrow>
     alarm_cmp st r q = Some (sgn (alarm_key st r - alarm_key st q))"
  by (auto simp: alarm_valid_def alarm_cmp_def alarm_key_def time_cmp_correct)

lemma sgn_diff_sign [simp]:
  "0 \<le> sgn (x - y) \<longleftrightarrow> y \<le> x" "sgn (x - y) < 0 \<longleftrightarrow> x < y" "0 < sgn (x - y) \<longleftrightarrow> y < x"
  for x y :: int
  by (auto simp: sgn_if)

section \<open>The heap invariant\<close>

definition heap_refs_ok :: "gpr_clock_type \<Rightarrow> alarm_store \<Rightarrow> alarm_ref list \<Rightarrow> nat \<Rightarrow> bool" where
  "heap_refs_ok ct st xs n \<longleftrightarrow>
     n \<le> length xs \<and> length xs < 2 ^ 31 \<and> distinct (take n xs) \<and>
     (\<forall>r \<in> set (take n xs). alarm_valid ct st r)"

text \<open>Every alarm but the one at the hole \<open>i\<close> holds its index; \<open>i = n\<close> is no hole.\<close>

definition heap_indexed :: "alarm_store \<Rightarrow> alarm_ref list \<Rightarrow> nat \<Rightarrow> nat \<Rightarrow> bool" where
  "heap_indexed st xs n i \<longleftrightarrow>
     (\<forall>j < n. j \<noteq> i \<longrightarrow> (\<exists>a. st (xs ! j) = Some a \<and> unat (heap_index a) = j))"

definition heap_order :: "(alarm_ref \<Rightarrow> int) \<Rightarrow> alarm_ref list \<Rightarrow> nat \<Rightarrow> bool" where
  "heap_order k xs n \<longleftrightarrow> (\<forall>j. 0 < j \<and> j < n \<longrightarrow> k (xs ! j) \<le> k (xs ! ((j - 1) div 2)))"

text \<open>The order with a hole at \<open>i\<close> whose element may have to move up, or down.\<close>

definition heap_order_up :: "(alarm_ref \<Rightarrow> int) \<Rightarrow> alarm_ref list \<Rightarrow> nat \<Rightarrow> nat \<Rightarrow> bool" where
  "heap_order_up k xs n i \<longleftrightarrow>
     (\<forall>j. 0 < j \<and> j < n \<and> j \<noteq> i \<longrightarrow> k (xs ! j) \<le> k (xs ! ((j - 1) div 2))) \<and>
     (\<forall>c. 0 < i \<and> 0 < c \<and> c < n \<and> (c - 1) div 2 = i \<longrightarrow> k (xs ! c) \<le> k (xs ! ((i - 1) div 2)))"

definition heap_order_down :: "(alarm_ref \<Rightarrow> int) \<Rightarrow> alarm_ref list \<Rightarrow> nat \<Rightarrow> nat \<Rightarrow> bool" where
  "heap_order_down k xs n i \<longleftrightarrow>
     (\<forall>j. 0 < j \<and> j < n \<and> (j - 1) div 2 \<noteq> i \<longrightarrow> k (xs ! j) \<le> k (xs ! ((j - 1) div 2))) \<and>
     (\<forall>c. 0 < i \<and> 0 < c \<and> c < n \<and> (c - 1) div 2 = i \<longrightarrow> k (xs ! c) \<le> k (xs ! ((i - 1) div 2)))"

lemma heap_order_up_step:
  assumes "heap_order_up k xs n i" "0 < i" "i < n" "n \<le> length xs"
    and "p = (i - 1) div 2" "k (xs ! p) < k (xs ! i)"
  shows "heap_order_up k (xs[i := xs ! p, p := xs ! i]) n p"
proof -
  have ord: "k (xs ! j) \<le> k (xs ! ((j - 1) div 2))" if "0 < j" "j < n" "j \<noteq> i" for j
    using assms(1) that by (simp add: heap_order_up_def)
  have kids: "k (xs ! c) \<le> k (xs ! p)" if "0 < c" "c < n" "(c - 1) div 2 = i" for c
    using assms(1,2,5) that by (simp add: heap_order_up_def)
  let ?ys = "xs[i := xs ! p, p := xs ! i]"
  have pi: "p < i" using assms(2,5) by simp
  have at: "?ys ! j = (if j = p then xs ! i else if j = i then xs ! p else xs ! j)" if "j < n" for j
    using that assms(4) pi by (auto simp: nth_list_update)
  have "k (?ys ! j) \<le> k (?ys ! ((j - 1) div 2))" if j: "0 < j" "j < n" "j \<noteq> p" for j
  proof -
    have lt: "(j - 1) div 2 < n" "(j - 1) div 2 \<noteq> j" using j by auto
    consider "j = i" | "j \<noteq> i" "(j - 1) div 2 = i" | "j \<noteq> i" "(j - 1) div 2 = p" | "j \<noteq> i" "(j - 1) div 2 \<noteq> i" "(j - 1) div 2 \<noteq> p"
      by blast
    then show ?thesis
    proof cases
      case 1
      then have "(j - 1) div 2 = p" using assms(5) by simp
      with 1 show ?thesis using at[OF j(2)] at[OF lt(1)] assms(6) pi by simp
    next
      case 2 then show ?thesis using at[OF j(2)] at[OF lt(1)] j kids[OF j(1,2)] pi by simp
    next
      case 3 then show ?thesis using at[OF j(2)] at[OF lt(1)] j ord[OF j(1,2)] assms(6) by simp
    next
      case 4 then show ?thesis using at[OF j(2)] at[OF lt(1)] j ord[OF j(1,2)] by simp
    qed
  qed
  moreover have "k (?ys ! c) \<le> k (?ys ! ((p - 1) div 2))"
    if c: "0 < p" "0 < c" "c < n" "(c - 1) div 2 = p" for c
  proof -
    have pp: "k (xs ! p) \<le> k (xs ! ((p - 1) div 2))" using ord[of p] c(1) pi assms(3) by simp
    have "(p - 1) div 2 < p" using c(1) by simp
    then have q: "?ys ! ((p - 1) div 2) = xs ! ((p - 1) div 2)"
      using at[of "(p - 1) div 2"] pi assms(3) by simp
    show ?thesis
    proof (cases "c = i")
      case True
      then show ?thesis using at[of c] c pi pp q by simp
    next
      case False
      then have "k (xs ! c) \<le> k (xs ! p)" using ord[of c] c by simp
      moreover have "c \<noteq> p" using c by auto
      ultimately show ?thesis using at[of c] c False pp q by simp
    qed
  qed
  ultimately show ?thesis unfolding heap_order_up_def by blast
qed


lemma heap_order_down_step:
  assumes "heap_order_down k xs n i" "m < n" "n \<le> length xs" "0 < m" "(m - 1) div 2 = i"
    and "k (xs ! i) < k (xs ! m)"
    and "\<And>c. 0 < c \<Longrightarrow> c < n \<Longrightarrow> (c - 1) div 2 = i \<Longrightarrow> k (xs ! c) \<le> k (xs ! m)"
  shows "heap_order_down k (xs[i := xs ! m, m := xs ! i]) n m"
proof -
  have ord: "k (xs ! j) \<le> k (xs ! ((j - 1) div 2))" if "0 < j" "j < n" "(j - 1) div 2 \<noteq> i" for j
    using assms(1) that by (simp add: heap_order_down_def)
  have up: "k (xs ! c) \<le> k (xs ! ((i - 1) div 2))" if "0 < i" "0 < c" "c < n" "(c - 1) div 2 = i" for c
    using assms(1) that by (simp add: heap_order_down_def)
  let ?ys = "xs[i := xs ! m, m := xs ! i]"
  have im: "i < m" using assms(4,5) by auto
  have at: "?ys ! j = (if j = m then xs ! i else if j = i then xs ! m else xs ! j)" if "j < n" for j
    using that assms(3) im by (auto simp: nth_list_update)
  have "k (?ys ! j) \<le> k (?ys ! ((j - 1) div 2))" if j: "0 < j" "j < n" "(j - 1) div 2 \<noteq> m" for j
  proof -
    have lt: "(j - 1) div 2 < n" "(j - 1) div 2 \<noteq> j" using j by auto
    consider "j = m" | "j \<noteq> m" "(j - 1) div 2 = i" | "j = i" "(j - 1) div 2 \<noteq> i" | "j \<noteq> i" "j \<noteq> m" "(j - 1) div 2 \<noteq> i"
      by blast
    then show ?thesis
    proof cases
      case 1
      with assms(5) have "(j - 1) div 2 = i" by simp
      with 1 show ?thesis using at[OF j(2)] at[OF lt(1)] assms(6) im by simp
    next
      case 2
      then show ?thesis using at[OF j(2)] at[OF lt(1)] assms(7)[OF j(1,2)] im by simp
    next
      case 3
      have "k (xs ! m) \<le> k (xs ! ((j - 1) div 2))"
        using up[of m] j(1) 3(1) assms(2,4,5) by simp
      with 3 j(3) show ?thesis using at[OF j(2)] at[OF lt(1)] im by simp
    next
      case 4
      show ?thesis using at[OF j(2)] at[OF lt(1)] j(3) 4(1,2) ord[OF j(1,2) 4(3)] 4(3) by simp
    qed
  qed
  moreover have "k (?ys ! c) \<le> k (?ys ! ((m - 1) div 2))"
    if c: "0 < c" "c < n" "(c - 1) div 2 = m" for c
  proof -
    have "c \<noteq> m" "c \<noteq> i" using c im by auto
    moreover have "?ys ! ((m - 1) div 2) = xs ! m" using at[of i] im assms(2,5) by simp
    moreover have "k (xs ! c) \<le> k (xs ! m)" using ord[of c] c im by simp
    ultimately show ?thesis using at[OF c(2)] by simp
  qed
  ultimately show ?thesis unfolding heap_order_down_def by blast
qed

lemma heap_order_up_done:
  assumes "heap_order_up k xs n i" "i = 0 \<or> k (xs ! i) \<le> k (xs ! ((i - 1) div 2))"
  shows "heap_order k xs n"
  using assms by (auto simp: heap_order_up_def heap_order_def)

lemma heap_order_down_done:
  assumes "heap_order_down k xs n i"
    and "\<And>c. 0 < c \<Longrightarrow> c < n \<Longrightarrow> (c - 1) div 2 = i \<Longrightarrow> k (xs ! c) \<le> k (xs ! i)"
  shows "heap_order k xs n"
  using assms by (auto simp: heap_order_down_def heap_order_def)

lemma heap_order_root:
  assumes "heap_order k xs n" "j < n"
  shows "k (xs ! j) \<le> k (xs ! 0)"
  using assms(2)
proof (induction j rule: less_induct)
  case (less j)
  show ?case
  proof (cases "j = 0")
    case False
    then have "k (xs ! j) \<le> k (xs ! ((j - 1) div 2))" using assms(1) less.prems by (simp add: heap_order_def)
    also have "\<dots> \<le> k (xs ! 0)" using False less.prems by (intro less.IH) auto
    finally show ?thesis .
  qed simp
qed

section \<open>Sifting\<close>

text \<open>One sifting move: the element at \<open>m\<close> goes to the hole at \<open>i\<close>, the hole to \<open>m\<close>.\<close>

definition heap_sifted ::
    "alarm_store \<Rightarrow> alarm_ref list \<Rightarrow> nat \<Rightarrow> alarm_store \<Rightarrow> alarm_ref list \<Rightarrow> bool" where
  "heap_sifted st xs n st' ys \<longleftrightarrow>
     length ys = length xs \<and> mset (take n ys) = mset (take n xs) \<and>
     alarms_reindexed (set (take n xs)) st st'"

lemma heap_sifted_trans:
  "heap_sifted st xs n st1 ys \<Longrightarrow> heap_sifted st1 ys n st2 zs \<Longrightarrow> heap_sifted st xs n st2 zs"
  unfolding heap_sifted_def using mset_eq_setD[of "take n ys" "take n xs"]
  by (auto intro: alarms_reindexed_trans)

lemma heap_sifted_refs_ok:
  "heap_sifted st xs n st' ys \<Longrightarrow> heap_refs_ok ct st xs n \<Longrightarrow> heap_refs_ok ct st' ys n"
  unfolding heap_sifted_def heap_refs_ok_def
  by (metis alarms_reindexed_valid mset_eq_imp_distinct_iff mset_eq_setD)

lemma heap_take_swap:
  "i < n \<Longrightarrow> m < n \<Longrightarrow> n \<le> length xs \<Longrightarrow>
     mset (take n (xs[i := xs ! m, m := xs ! i])) = mset (take n xs)"
  using mset_swap[of m "take n xs" i] by (simp add: take_update_swap)

lemma heap_place:
  assumes "heap_refs_ok ct st xs n" "heap_indexed st xs n i" "i < n" "m < n" "xs = first[i := t]" "m \<noteq> i"
  obtains st1 where "alarm_place first i (xs ! m) st = Some (first[i := xs ! m], st1)"
    "heap_sifted st xs n st1 (xs[i := xs ! m, m := xs ! i])"
    "heap_indexed st1 (xs[i := xs ! m, m := xs ! i]) n m"
    "(first[i := xs ! m])[m := t] = xs[i := xs ! m, m := xs ! i]"
proof -
  let ?ys = "xs[i := xs ! m, m := xs ! i]"
  have n: "n \<le> length xs" "i < 2 ^ 31" using assms(1,3) by (auto simp: heap_refs_ok_def)
  then have ui: "unat (of_nat i :: u32) = i" by (simp add: unsigned_of_nat take_bit_nat_eq_self)
  have m_in: "xs ! m \<in> set (take n xs)" using n assms(4) by (auto simp: in_set_conv_nth intro!: exI[of _ m])
  with assms(1) obtain a where a: "st (xs ! m) = Some a" by (auto simp: heap_refs_ok_def alarm_valid_def)
  let ?st = "st(xs ! m \<mapsto> a\<lparr>heap_index := of_nat i\<rparr>)"
  have inj: "xs ! j \<noteq> xs ! m" if "j < n" "j \<noteq> m" for j
    using assms(1,4) that nth_eq_iff_index_eq[of "take n xs" j m] by (auto simp: heap_refs_ok_def)
  show thesis
  proof (rule that)
    show "alarm_place first i (xs ! m) st = Some (first[i := xs ! m], ?st)"
      using a n assms(3,5) by (simp add: alarm_place_def alarm_modify_def)
    show "heap_sifted st xs n ?st ?ys"
      using heap_take_swap[OF assms(3,4) n(1)] m_in a by (auto simp: heap_sifted_def alarms_reindexed_def)
    show "heap_indexed ?st ?ys n m"
      unfolding heap_indexed_def
    proof (intro allI impI)
      fix j assume j: "j < n" "j \<noteq> m"
      show "\<exists>b. ?st (?ys ! j) = Some b \<and> unat (heap_index b) = j"
      proof (cases "j = i")
        case True
        with j n ui assms(6) show ?thesis by simp
      next
        case False
        with j n inj[OF j] assms(2) show ?thesis by (auto simp: heap_indexed_def)
      qed
    qed
    show "(first[i := xs ! m])[m := t] = ?ys"
      using assms(3,5,6) n by (auto simp: list_update_swap)
  qed
qed

lemma heap_place_last:
  assumes "heap_refs_ok ct st xs n" "heap_indexed st xs n i" "i < n" "xs = first[i := t]"
  obtains st1 where "alarm_place first i t st = Some (xs, st1)"
    "heap_sifted st xs n st1 xs" "heap_indexed st1 xs n n"
proof -
  have n: "n \<le> length xs" "i < 2 ^ 31" using assms(1,3) by (auto simp: heap_refs_ok_def)
  then have ui: "unat (of_nat i :: u32) = i" by (simp add: unsigned_of_nat take_bit_nat_eq_self)
  have xi: "xs ! i = t" using assms(3,4) n by simp
  have i_in: "t \<in> set (take n xs)" using n assms(3) xi by (auto simp: in_set_conv_nth intro!: exI[of _ i])
  with assms(1) obtain a where a: "st t = Some a" by (auto simp: heap_refs_ok_def alarm_valid_def)
  let ?st = "st(t \<mapsto> a\<lparr>heap_index := of_nat i\<rparr>)"
  have inj: "xs ! j \<noteq> t" if "j < n" "j \<noteq> i" for j
    using assms(1,3) that nth_eq_iff_index_eq[of "take n xs" j i] xi by (auto simp: heap_refs_ok_def)
  show thesis
  proof (rule that)
    show "alarm_place first i t st = Some (xs, ?st)"
      using a n assms(3,4) by (simp add: alarm_place_def alarm_modify_def)
    show "heap_sifted st xs n ?st xs"
      using i_in a by (auto simp: heap_sifted_def alarms_reindexed_def)
    show "heap_indexed ?st xs n n"
      unfolding heap_indexed_def
    proof (intro allI impI)
      fix j assume j: "j < n" "j \<noteq> n"
      show "\<exists>b. ?st (xs ! j) = Some b \<and> unat (heap_index b) = j"
        using j ui xi inj[OF j(1)] assms(2) by (cases "j = i") (auto simp: heap_indexed_def)
    qed
  qed
qed


definition heap_adjusted ::
    "alarm_store \<Rightarrow> alarm_ref list \<Rightarrow> nat \<Rightarrow> (alarm_ref list \<times> alarm_store) option \<Rightarrow> bool" where
  "heap_adjusted st xs n r \<longleftrightarrow>
     (\<exists>ys st'. r = Some (ys, st') \<and> heap_sifted st xs n st' ys \<and> heap_indexed st' ys n n \<and>
               heap_order (alarm_key st') ys n)"

lemma heap_valid_nth: "heap_refs_ok ct st xs n \<Longrightarrow> j < n \<Longrightarrow> alarm_valid ct st (xs ! j)"
  unfolding heap_refs_ok_def by (metis in_set_conv_nth length_take min.absorb2 nth_take)

lemma heap_adjusted_step:
  "heap_sifted st xs n st1 xs1 \<Longrightarrow> heap_adjusted st1 xs1 n r \<Longrightarrow> heap_adjusted st xs n r"
  unfolding heap_adjusted_def by (blast intro: heap_sifted_trans)

lemma heap_sifted_key: "heap_sifted st xs n st' ys \<Longrightarrow> alarm_key st' = alarm_key st"
  by (auto simp: heap_sifted_def alarms_reindexed_key)

lemma heap_adjusted_place:
  assumes "heap_refs_ok ct st xs n" "heap_indexed st xs n i" "i < n" "xs = first[i := t]"
    and "heap_order (alarm_key st) xs n"
  shows "heap_adjusted st xs n (alarm_place first i t st)"
proof -
  from heap_place_last[OF assms(1-4)] obtain st1 where
    "alarm_place first i t st = Some (xs, st1)" "heap_sifted st xs n st1 xs" "heap_indexed st1 xs n n" .
  with assms(5) heap_sifted_key[of st xs n st1 xs] show ?thesis by (auto simp: heap_adjusted_def)
qed

lemma adjust_upwards_correct:
  assumes "heap_refs_ok ct st xs n" "heap_indexed st xs n i" "i < n" "xs = first[i := t]"
    and "heap_order_up (alarm_key st) xs n i"
  shows "heap_adjusted st xs n (adjust_upwards first i t st)"
  using assms
proof (induction i arbitrary: first st xs rule: less_induct)
  case (less i)
  note ok = less.prems
  have n: "n \<le> length xs" "length xs = length first" using ok(1,4) by (auto simp: heap_refs_ok_def)
  have xi: "xs ! i = t" using ok(3,4) n by simp
  let ?p = "(i - 1) div 2"
  show ?case
  proof (cases "i = 0")
    case True
    with heap_adjusted_place[OF ok(1-4)] heap_order_up_done[OF ok(5)] show ?thesis
      by (subst adjust_upwards.simps) simp
  next
    case False
    then have p: "?p < i" by simp
    then have fp: "first ! ?p = xs ! ?p" using ok(4) by simp
    have cmp: "alarm_cmp st (xs ! ?p) t = Some (sgn (alarm_key st (xs ! ?p) - alarm_key st t))"
      using alarm_cmp_valid[OF heap_valid_nth[OF ok(1)] heap_valid_nth[OF ok(1,3)]] p ok(3) xi by simp
    show ?thesis
    proof (cases "alarm_key st t \<le> alarm_key st (xs ! ?p)")
      case True
      with heap_order_up_done[OF ok(5)] xi have "heap_adjusted st xs n (alarm_place first i t st)"
        by (intro heap_adjusted_place[OF ok(1-4)]) simp
      with True False cmp fp p ok(3) n show ?thesis
        by (subst adjust_upwards.simps) (simp add: Let_def)
    next
      case lt: False
      let ?ys = "xs[i := xs ! ?p, ?p := xs ! i]"
      have "?p < n" using p ok(3) by simp
      from heap_place[OF ok(1-3) this ok(4)] p obtain st1 where
        st1: "alarm_place first i (xs ! ?p) st = Some (first[i := xs ! ?p], st1)"
          "heap_sifted st xs n st1 ?ys" "heap_indexed st1 ?ys n ?p"
          "(first[i := xs ! ?p])[?p := t] = ?ys" by auto
      have "heap_adjusted st1 ?ys n (adjust_upwards (first[i := xs ! ?p]) ?p t st1)"
      proof (rule less.IH[OF p])
        show "heap_refs_ok ct st1 ?ys n" using st1(2) ok(1) by (rule heap_sifted_refs_ok)
        show "heap_order_up (alarm_key st1) ?ys n ?p"
          unfolding heap_sifted_key[OF st1(2)]
          using lt xi False by (intro heap_order_up_step[OF ok(5) _ ok(3) n(1) refl]) auto
      qed (use st1 p ok(3) in auto)
      with heap_adjusted_step[OF st1(2)] lt False cmp fp p ok(3) n st1(1) show ?thesis
        by (subst adjust_upwards.simps) (simp add: Let_def)
    qed
  qed
qed

lemma adjust_downwards_correct:
  assumes "heap_refs_ok ct st xs n" "heap_indexed st xs n i" "i < n" "xs = first[i := t]"
    and "heap_order_down (alarm_key st) xs n i"
  shows "heap_adjusted st xs n (adjust_downwards first i n t st)"
  using assms
proof (induction "n - i" arbitrary: i first st xs rule: less_induct)
  case less
  note ok = less.prems
  let ?k = "alarm_key st"
  let ?l = "1 + 2 * i"
  let ?r = "2 + 2 * i"
  have n: "n \<le> length xs" "length xs = length first" using ok(1,4) by (auto simp: heap_refs_ok_def)
  have xi: "xs ! i = t" using ok(3,4) n by simp
  have kids: "c = ?l \<or> c = ?r" if "0 < c" "(c - 1) div 2 = i" for c using that by auto
  have f: "first ! c = xs ! c" if "i < c" for c using that ok(4) by simp
  have cmp: "alarm_cmp st (xs ! a) (xs ! b) = Some (sgn (?k (xs ! a) - ?k (xs ! b)))" if "a < n" "b < n" for a b
    using that by (rule alarm_cmp_valid[OF heap_valid_nth[OF ok(1)] heap_valid_nth[OF ok(1)]])
  show ?case
  proof (cases "n \<le> ?l")
    case True
    then have "heap_order ?k xs n" by (intro heap_order_down_done[OF ok(5)]) (auto dest: kids)
    with heap_adjusted_place[OF ok(1-4)] True show ?thesis
      by (subst adjust_downwards.simps) simp
  next
    case False
    define m where "m = (if ?r < n \<and> ?k (xs ! ?l) < ?k (xs ! ?r) then ?r else ?l)"
    have m: "m < n" "i < m" "(m - 1) div 2 = i" using False by (auto simp: m_def)
    have max: "?k (xs ! c) \<le> ?k (xs ! m)" if "0 < c" "c < n" "(c - 1) div 2 = i" for c
      using kids[OF that(1,3)] that(2) by (auto simp: m_def)
    have step: "adjust_downwards first i n t st =
        (if ?k (xs ! m) \<le> ?k t then alarm_place first i t st
         else do { (first1, st1) \<leftarrow> alarm_place first i (xs ! m) st; adjust_downwards first1 m n t st1 })"
      using f[of ?l] f[of ?r] cmp[of ?l ?r] cmp[of i ?l] cmp[of i ?r] n False ok(3) xi
      by (subst adjust_downwards.simps) (auto simp: Let_def m_def)
    show ?thesis
    proof (cases "?k (xs ! m) \<le> ?k t")
      case True
      then have "heap_order ?k xs n" using max xi
        by (intro heap_order_down_done[OF ok(5)]) force
      with heap_adjusted_place[OF ok(1-4)] True show ?thesis by (simp add: step)
    next
      case lt: False
      let ?ys = "xs[i := xs ! m, m := xs ! i]"
      from heap_place[OF ok(1-3) m(1) ok(4)] m(2) obtain st1 where
        st1: "alarm_place first i (xs ! m) st = Some (first[i := xs ! m], st1)"
          "heap_sifted st xs n st1 ?ys" "heap_indexed st1 ?ys n m"
          "(first[i := xs ! m])[m := t] = ?ys" by auto
      have "heap_adjusted st1 ?ys n (adjust_downwards (first[i := xs ! m]) m n t st1)"
      proof (rule less.hyps)
        show "n - m < n - i" using m by simp
        show "heap_refs_ok ct st1 ?ys n" using st1(2) ok(1) by (rule heap_sifted_refs_ok)
        show "heap_order_down (alarm_key st1) ?ys n m"
          unfolding heap_sifted_key[OF st1(2)]
          using lt xi m max by (intro heap_order_down_step[OF ok(5) m(1) n(1) _ m(3)]) auto
      qed (use st1 m in auto)
      with heap_adjusted_step[OF st1(2)] lt st1(1) show ?thesis by (simp add: step)
    qed
  qed
qed


section \<open>The operations\<close>

definition alarm_heap_ok :: "gpr_clock_type \<Rightarrow> grpc_alarm_heap \<Rightarrow> alarm_store \<Rightarrow> bool" where
  "alarm_heap_ok ct h st \<longleftrightarrow>
     length (alarms h) = alarm_capacity h \<and> heap_refs_ok ct st (alarms h) (alarm_count h) \<and>
     heap_indexed st (alarms h) (alarm_count h) (alarm_count h) \<and>
     heap_order (alarm_key st) (alarms h) (alarm_count h)"

definition alarm_heap_refs :: "grpc_alarm_heap \<Rightarrow> alarm_ref set" where
  "alarm_heap_refs h = set (take (alarm_count h) (alarms h))"

lemma heap_cong_take:
  assumes "take n xs = take n ys" "n \<le> length xs" "n \<le> length ys"
  shows "heap_indexed st xs n i = heap_indexed st ys n i" "heap_order k xs n = heap_order k ys n"
proof -
  have nth: "xs ! j = ys ! j" if "j < n" for j
    using assms that by (metis nth_take)
  show "heap_indexed st xs n i = heap_indexed st ys n i" using nth by (simp add: heap_indexed_def)
  have "xs ! ((j - 1) div 2) = ys ! ((j - 1) div 2)" if "j < n" for j
    using that by (intro nth) auto
  with nth show "heap_order k xs n = heap_order k ys n" unfolding heap_order_def by auto
qed

lemma alarm_heap_ok_realloc:
  assumes "alarm_heap_ok ct h st" "alarm_count h \<le> cap" "cap < 2 ^ 31"
  shows "alarm_heap_ok ct (h\<lparr>alarm_capacity := cap, alarms := c_realloc d (alarms h) cap\<rparr>) st"
    "alarm_heap_refs (h\<lparr>alarm_capacity := cap, alarms := c_realloc d (alarms h) cap\<rparr>) = alarm_heap_refs h"
proof -
  have n: "alarm_count h \<le> length (alarms h)" using assms(1) by (simp add: alarm_heap_ok_def heap_refs_ok_def)
  with assms(2) have t: "take (alarm_count h) (c_realloc d (alarms h) cap) = take (alarm_count h) (alarms h)" by simp
  note c = heap_cong_take[OF t _ n]
  show "alarm_heap_ok ct (h\<lparr>alarm_capacity := cap, alarms := c_realloc d (alarms h) cap\<rparr>) st"
    using assms t by (simp add: alarm_heap_ok_def heap_refs_ok_def c)
  show "alarm_heap_refs (h\<lparr>alarm_capacity := cap, alarms := c_realloc d (alarms h) cap\<rparr>) = alarm_heap_refs h"
    using t by (simp add: alarm_heap_refs_def)
qed

lemma maybe_shrink_ok:
  assumes "alarm_heap_ok ct h st"
  shows "alarm_heap_ok ct (maybe_shrink h) st" "alarm_heap_refs (maybe_shrink h) = alarm_heap_refs h"
    "alarm_count (maybe_shrink h) = alarm_count h"
    "take (alarm_count h) (alarms (maybe_shrink h)) = take (alarm_count h) (alarms h)"
proof -
  let ?cap = "alarm_count h * SHRINK_FULLNESS_FACTOR"
  have n: "alarm_count h \<le> length (alarms h)" "alarm_capacity h < 2 ^ 31"
    using assms by (auto simp: alarm_heap_ok_def heap_refs_ok_def)
  have "alarm_count h \<le> alarm_capacity h div SHRINK_FULLNESS_FACTOR div 2 \<Longrightarrow> ?cap < 2 ^ 31"
    using n(2) by (simp add: SHRINK_FULLNESS_FACTOR_def)
  with alarm_heap_ok_realloc[OF assms, of ?cap] n assms
  show "alarm_heap_ok ct (maybe_shrink h) st" "alarm_heap_refs (maybe_shrink h) = alarm_heap_refs h"
    "alarm_count (maybe_shrink h) = alarm_count h"
    "take (alarm_count h) (alarms (maybe_shrink h)) = take (alarm_count h) (alarms h)"
    by (auto simp: maybe_shrink_def SHRINK_FULLNESS_FACTOR_def)
qed

lemma heap_indexed_index:
  assumes "heap_refs_ok ct st xs n" "heap_indexed st xs n n" "r \<in> set (take n xs)"
  obtains a i where "st r = Some a" "i = unat (heap_index a)" "i < n" "xs ! i = r"
proof -
  from assms(3) obtain i where "i < n" "xs ! i = r" by (auto simp: in_set_conv_nth)
  with assms(2) that show thesis by (force simp: heap_indexed_def)
qed

lemma grpc_alarm_heap_top_correct:
  assumes "alarm_heap_ok ct h st" "alarm_heap_refs h \<noteq> {}"
  shows "\<exists>r \<in> alarm_heap_refs h. grpc_alarm_heap_top h = Some r \<and>
           (\<forall>q \<in> alarm_heap_refs h. alarm_key st q \<le> alarm_key st r)"
proof -
  let ?n = "alarm_count h"
  from assms have n: "0 < ?n" "?n \<le> length (alarms h)" "heap_order (alarm_key st) (alarms h) ?n"
    by (auto simp: alarm_heap_refs_def alarm_heap_ok_def heap_refs_ok_def)
  then have "take ?n (alarms h) ! 0 \<in> set (take ?n (alarms h))" by (intro nth_mem) auto
  with n have "alarms h ! 0 \<in> alarm_heap_refs h" by (simp add: alarm_heap_refs_def)
  moreover have "grpc_alarm_heap_top h = Some (alarms h ! 0)"
    using n by (auto simp: grpc_alarm_heap_top_def c_read_def)
  moreover have "alarm_key st q \<le> alarm_key st (alarms h ! 0)" if "q \<in> alarm_heap_refs h" for q
    using that heap_order_root[OF n(3)] n(2) by (auto simp: alarm_heap_refs_def in_set_conv_nth)
  ultimately show ?thesis by blast
qed

lemma grpc_alarm_heap_add_correct:
  assumes "alarm_heap_ok ct h st" "alarm_valid ct st r" "r \<notin> alarm_heap_refs h"
    and "alarm_capacity h \<le> 715827882"
  shows "\<exists>b h' st'. grpc_alarm_heap_add h r st = Some (b, h', st') \<and> alarm_heap_ok ct h' st' \<and>
           alarm_heap_refs h' = insert r (alarm_heap_refs h) \<and>
           alarms_reindexed (insert r (alarm_heap_refs h)) st st' \<and>
           b = (grpc_alarm_heap_top h' = Some r) \<and> alarm_count h' = alarm_count h + 1"
proof -
  let ?n = "alarm_count h"
  define cap where "cap = (if ?n = alarm_capacity h then max (alarm_capacity h + 1) (alarm_capacity h * 3 div 2) else alarm_capacity h)"
  define h1 where "h1 = (if ?n = alarm_capacity h
    then h\<lparr>alarm_capacity := cap, alarms := c_realloc (Alarm 0) (alarms h) cap\<rparr> else h)"
  have n: "?n \<le> alarm_capacity h" using assms(1) by (auto simp: alarm_heap_ok_def heap_refs_ok_def)
  have cap: "?n < cap" "cap < 2 ^ 31" using assms(4) n by (auto simp: cap_def)
  have h1: "alarm_heap_ok ct h1 st" "alarm_heap_refs h1 = alarm_heap_refs h" "alarm_count h1 = ?n"
      "length (alarms h1) = cap"
    using alarm_heap_ok_realloc[OF assms(1) _ cap(2), of "Alarm 0"] cap(1) assms(1)
    by (auto simp: h1_def cap_def alarm_heap_ok_def split: if_splits)
  obtain a where a: "st r = Some a" using assms(2) by (auto simp: alarm_valid_def)
  define st1 where "st1 = st(r \<mapsto> a\<lparr>heap_index := of_nat ?n\<rparr>)"
  have re1: "alarms_reindexed {r} st st1" using a by (simp add: st1_def alarms_reindexed_def)
  let ?xs = "(alarms h1)[?n := r]"
  have tk: "take (Suc ?n) ?xs = take ?n (alarms h1) @ [r]"
    using h1(4) cap(1) by (simp add: take_Suc_conv_app_nth)
  have nth: "?xs ! j = (if j = ?n then r else alarms h1 ! j)" for j
    using h1(4) cap(1) by (simp add: nth_list_update)
  have old: "heap_refs_ok ct st (alarms h1) ?n" "heap_indexed st (alarms h1) ?n ?n" "heap_order (alarm_key st) (alarms h1) ?n"
    using h1(1,3) by (auto simp: alarm_heap_ok_def)
  have r: "r \<notin> set (take ?n (alarms h1))" using assms(3) h1(2,3) by (simp add: alarm_heap_refs_def)
  have refs: "heap_refs_ok ct st1 ?xs (Suc ?n)"
    unfolding heap_refs_ok_def tk
    using old(1) r cap h1(4) assms(2) alarms_reindexed_valid[OF re1] by (auto simp: heap_refs_ok_def)
  have idx: "heap_indexed st1 ?xs (Suc ?n) ?n"
    unfolding heap_indexed_def
  proof (intro allI impI)
    fix j assume j: "j < Suc ?n" "j \<noteq> ?n"
    then have jn: "j < ?n" by simp
    with old(1) have "alarms h1 ! j \<in> set (take ?n (alarms h1))"
      by (auto simp: heap_refs_ok_def in_set_conv_nth intro!: exI[of _ j])
    with r have "alarms h1 ! j \<noteq> r" by auto
    with old(2) jn nth show "\<exists>b. st1 (?xs ! j) = Some b \<and> unat (heap_index b) = j"
      by (simp add: heap_indexed_def st1_def)
  qed
  have ord: "heap_order_up (alarm_key st1) ?xs (Suc ?n) ?n"
    unfolding alarms_reindexed_key[OF re1]
    using old(3) by (auto simp: heap_order_up_def heap_order_def nth)
  from adjust_upwards_correct[OF refs idx _ refl ord] obtain ys st' where
    adj: "adjust_upwards (alarms h1) ?n r st1 = Some (ys, st')" "heap_sifted st1 ?xs (Suc ?n) st' ys"
      "heap_indexed st' ys (Suc ?n) (Suc ?n)" "heap_order (alarm_key st') ys (Suc ?n)"
    by (auto simp: heap_adjusted_def)
  have refs': "heap_refs_ok ct st' ys (Suc ?n)" using adj(2) refs by (rule heap_sifted_refs_ok)
  have set: "set (take (Suc ?n) ys) = insert r (alarm_heap_refs h)"
    using adj(2) tk h1(2,3) mset_eq_setD[of "take (Suc ?n) ys" "take (Suc ?n) ?xs"]
    by (simp add: heap_sifted_def alarm_heap_refs_def)
  then have r_in: "r \<in> set (take (Suc ?n) ys)" by simp
  from heap_indexed_index[OF refs' adj(3) r_in] obtain b i where
    b: "st' r = Some b" "i = unat (heap_index b)" "i < Suc ?n" "ys ! i = r" .
  have len: "length ys = cap" using adj(2) h1(4) by (simp add: heap_sifted_def)
  have first: "heap_index b = 0 \<longleftrightarrow> ys ! 0 = r"
  proof
    assume "heap_index b = 0" with b show "ys ! 0 = r" by simp
  next
    assume "ys ! 0 = r"
    with b(3,4) refs' have "i = 0"
      using nth_eq_iff_index_eq[of "take (Suc ?n) ys" i 0] by (simp add: heap_refs_ok_def)
    with b(2) show "heap_index b = 0" by (simp add: unat_eq_0)
  qed
  let ?h' = "h1\<lparr>alarms := ys, alarm_count := Suc ?n\<rparr>"
  have "grpc_alarm_heap_add h r st = Some (heap_index b = 0, ?h', st')"
  proof -
    have "c_signed 32 (int (alarm_capacity h) * 3) = Some (int (alarm_capacity h) * 3)"
      using assms(4) by (intro c_signed_32) auto
    then have "(if ?n = alarm_capacity h then do {
                t \<leftarrow> c_signed 32 (int (alarm_capacity h) * 3);
                let cap = max (alarm_capacity h + 1) (nat t div 2);
                Some (h\<lparr>alarm_capacity := cap, alarms := c_realloc (Alarm 0) (alarms h) cap\<rparr>)
              } else Some h) = Some h1"
      by (auto simp: h1_def cap_def nat_mult_distrib Let_def)
    with a adj(1) b(1) h1(3) show ?thesis
      by (simp add: grpc_alarm_heap_add_def alarm_modify_def st1_def)
  qed
  moreover have "alarm_heap_ok ct ?h' st'"
    using adj(3,4) refs' len h1(1,4) by (auto simp: alarm_heap_ok_def)
  moreover have "alarms_reindexed (insert r (alarm_heap_refs h)) st st'"
  proof -
    have "alarms_reindexed (insert r (alarm_heap_refs h)) st st1" using re1 by (simp add: alarms_reindexed_def)
    moreover have "alarms_reindexed (insert r (alarm_heap_refs h)) st1 st'"
      using adj(2) tk h1(2,3) by (simp add: heap_sifted_def alarm_heap_refs_def)
    ultimately show ?thesis by (rule alarms_reindexed_trans)
  qed
  moreover have "grpc_alarm_heap_top ?h' = Some r \<longleftrightarrow> heap_index b = 0"
    using first len cap by (simp add: grpc_alarm_heap_top_def c_read_def)
  moreover have "alarm_heap_refs ?h' = insert r (alarm_heap_refs h)"
    using set by (simp add: alarm_heap_refs_def)
  ultimately show ?thesis using h1(3) by (intro exI conjI) auto
qed


lemma heap_order_replace:
  assumes "heap_order k xs (Suc n)" "i < n" "n < length xs" "ys = xs[i := t]"
  shows "k (xs ! ((i - 1) div 2)) < k t \<Longrightarrow> 0 < i \<Longrightarrow> heap_order_up k ys n i"
    "\<not> (0 < i \<and> k (xs ! ((i - 1) div 2)) < k t) \<Longrightarrow> heap_order_down k ys n i"
proof -
  have at: "ys ! j = (if j = i then t else xs ! j)" for j using assms by simp
  have ord: "k (xs ! j) \<le> k (xs ! ((j - 1) div 2))" if "0 < j" "j < n" for j
    using assms(1) that by (simp add: heap_order_def)
  have grand: "k (xs ! c) \<le> k (xs ! ((i - 1) div 2))" if "0 < i" "0 < c" "c < n" "(c - 1) div 2 = i" for c
    using ord[of c] ord[of i] that assms(2) by simp
  have ne: "(i - 1) div 2 \<noteq> i" if "0 < i" using that by auto
  have cne: "c \<noteq> i" if "0 < c" "(c - 1) div 2 = i" for c using that by auto
  show "heap_order_up k ys n i" if t: "k (xs ! ((i - 1) div 2)) < k t" "0 < i"
    unfolding heap_order_up_def
  proof (intro conjI allI impI; elim conjE)
    fix j assume j: "0 < j" "j < n" "j \<noteq> i"
    show "k (ys ! j) \<le> k (ys ! ((j - 1) div 2))"
    proof (cases "(j - 1) div 2 = i")
      case True
      with j grand[OF t(2) j(1,2)] t(1) show ?thesis by (simp add: at)
    next
      case False
      with j ord[OF j(1,2)] show ?thesis by (simp add: at)
    qed
  next
    fix c assume c: "0 < i" "0 < c" "c < n" "(c - 1) div 2 = i"
    with grand[OF c] ne cne[OF c(2,4)] show "k (ys ! c) \<le> k (ys ! ((i - 1) div 2))" by (simp add: at)
  qed
  show "heap_order_down k ys n i" if t: "\<not> (0 < i \<and> k (xs ! ((i - 1) div 2)) < k t)"
    unfolding heap_order_down_def
  proof (intro conjI allI impI; elim conjE)
    fix j assume j: "0 < j" "j < n" "(j - 1) div 2 \<noteq> i"
    show "k (ys ! j) \<le> k (ys ! ((j - 1) div 2))"
    proof (cases "j = i")
      case True
      with j t show ?thesis by (simp add: at)
    next
      case False
      with j ord[OF j(1,2)] show ?thesis by (simp add: at)
    qed
  next
    fix c assume c: "0 < i" "0 < c" "c < n" "(c - 1) div 2 = i"
    with grand[OF c] ne cne[OF c(2,4)] show "k (ys ! c) \<le> k (ys ! ((i - 1) div 2))" by (simp add: at)
  qed
qed

lemma note_changed_priority_correct:
  assumes "heap_refs_ok ct st (alarms h) n" "heap_indexed st (alarms h) n n" "n = alarm_count h" "i < n"
    and "alarms h ! i = t"
    and "0 < i \<Longrightarrow> alarm_key st (alarms h ! ((i - 1) div 2)) < alarm_key st t \<Longrightarrow> heap_order_up (alarm_key st) (alarms h) n i"
    and "\<not> (0 < i \<and> alarm_key st (alarms h ! ((i - 1) div 2)) < alarm_key st t) \<Longrightarrow> heap_order_down (alarm_key st) (alarms h) n i"
  shows "\<exists>ys st'. note_changed_priority h t st = Some (h\<lparr>alarms := ys\<rparr>, st') \<and>
           heap_sifted st (alarms h) n st' ys \<and> heap_indexed st' ys n n \<and> heap_order (alarm_key st') ys n"
proof -
  let ?p = "(i - 1) div 2"
  have n: "n \<le> length (alarms h)" using assms(1) by (simp add: heap_refs_ok_def)
  from assms(2,4,5) obtain a where a: "st t = Some a" "unat (heap_index a) = i" by (force simp: heap_indexed_def)
  have v: "alarm_valid ct st (alarms h ! ?p)" "alarm_valid ct st t"
    using heap_valid_nth[OF assms(1), of ?p] heap_valid_nth[OF assms(1,4)] assms(4,5) by auto
  have cmp: "alarm_cmp st (alarms h ! ?p) t = Some (sgn (alarm_key st (alarms h ! ?p) - alarm_key st t))"
    using v by (rule alarm_cmp_valid)
  have upd: "alarms h = (alarms h)[i := t]" using assms(5) by (metis list_update_id)
  have idx: "heap_indexed st (alarms h) n i" using assms(2) by (auto simp: heap_indexed_def)
  have p: "?p < length (alarms h)" using assms(4) n by simp
  show ?thesis
  proof (cases "0 < i \<and> alarm_key st (alarms h ! ?p) < alarm_key st t")
    case True
    from adjust_upwards_correct[OF assms(1) idx assms(4) upd] assms(6) True
    have "heap_adjusted st (alarms h) n (adjust_upwards (alarms h) i t st)" by blast
    with True a cmp p show ?thesis
      by (auto simp: note_changed_priority_def heap_adjusted_def)
  next
    case False
    from adjust_downwards_correct[OF assms(1) idx assms(4) upd] assms(7)[OF False]
    have adj: "heap_adjusted st (alarms h) n (adjust_downwards (alarms h) i n t st)" by blast
    have "\<not> alarm_key st (alarms h ! ?p) < alarm_key st t"
      using False assms(5) by (cases "i = 0") auto
    with adj a cmp p assms(3) show ?thesis
      by (auto simp: note_changed_priority_def heap_adjusted_def)
  qed
qed

lemma grpc_alarm_heap_remove_correct:
  assumes "alarm_heap_ok ct h st" "r \<in> alarm_heap_refs h"
  shows "\<exists>h' st'. grpc_alarm_heap_remove h r st = Some (h', st') \<and> alarm_heap_ok ct h' st' \<and>
           alarm_heap_refs h' = alarm_heap_refs h - {r} \<and>
           alarms_reindexed (alarm_heap_refs h) st st' \<and> alarm_count h' = alarm_count h - 1"
proof -
  let ?xs = "alarms h"
  obtain n where n: "alarm_count h = Suc n"
    using assms(2) by (cases "alarm_count h") (auto simp: alarm_heap_refs_def)
  have ok: "heap_refs_ok ct st ?xs (Suc n)" "heap_indexed st ?xs (Suc n) (Suc n)" "heap_order (alarm_key st) ?xs (Suc n)"
    "length ?xs = alarm_capacity h" "n < length ?xs"
    using assms(1) n by (auto simp: alarm_heap_ok_def heap_refs_ok_def)
  from assms(2) n have r_in: "r \<in> set (take (Suc n) ?xs)" by (simp add: alarm_heap_refs_def)
  from heap_indexed_index[OF ok(1,2) r_in] obtain a i where
    a: "st r = Some a" "i = unat (heap_index a)" "i < Suc n" "?xs ! i = r" .
  have tk: "take (Suc n) ?xs = take n ?xs @ [?xs ! n]" using ok(5) by (simp add: take_Suc_conv_app_nth)
  have refs: "alarm_heap_refs h = set (take n ?xs) \<union> {?xs ! n}" using n tk by (simp add: alarm_heap_refs_def)
  have d: "distinct (take n ?xs)" "?xs ! n \<notin> set (take n ?xs)" using ok(1) tk by (auto simp: heap_refs_ok_def)
  have small: "heap_refs_ok ct st ?xs n" using ok(1) tk by (auto simp: heap_refs_ok_def)
  have small_idx: "heap_indexed st ?xs n n" using ok(2) by (auto simp: heap_indexed_def)
  show ?thesis
  proof (cases "i = n")
    case True
    let ?h = "h\<lparr>alarm_count := n\<rparr>"
    have "alarm_heap_ok ct ?h st"
      using small small_idx ok(3,4) by (auto simp: alarm_heap_ok_def heap_order_def)
    note sh = maybe_shrink_ok[OF this]
    have "grpc_alarm_heap_remove h r st = Some (maybe_shrink ?h, st)"
      using a n True by (simp add: grpc_alarm_heap_remove_def)
    moreover have "alarm_heap_refs ?h = alarm_heap_refs h - {r}"
      using refs d True a(4) by (auto simp: alarm_heap_refs_def)
    ultimately show ?thesis using sh n by auto
  next
    case False
    with a(3) have i: "i < n" by simp
    let ?m = "?xs ! n"
    let ?ys = "?xs[i := ?m]"
    have m_in: "?m \<in> set (take (Suc n) ?xs)" using tk by simp
    with ok(1) obtain b where b: "st ?m = Some b" by (auto simp: heap_refs_ok_def alarm_valid_def)
    have i31: "i < 2 ^ 31" using i ok(1) by (auto simp: heap_refs_ok_def)
    define st1 where "st1 = st(?m \<mapsto> b\<lparr>heap_index := of_nat i\<rparr>)"
    have re1: "alarms_reindexed (alarm_heap_refs h) st st1"
      using b refs by (simp add: st1_def alarms_reindexed_def)
    have place: "alarm_place ?xs i ?m st = Some (?ys, st1)"
      using b i ok(5) by (simp add: alarm_place_def alarm_modify_def st1_def)
    have tky: "take n ?ys = (take n ?xs)[i := ?m]" by (simp add: take_update_swap)
    have r_nth: "take n ?xs ! i = r" using a(4) i by simp
    have sety: "set (take n ?ys) = alarm_heap_refs h - {r}"
    proof -
      have "set ((take n ?xs)[i := ?m]) = insert ?m (set (take n ?xs) - {take n ?xs ! i})"
        using d(1) i ok(5) by (intro set_update_distinct) auto
      moreover have "?m \<noteq> r" using d(2) r_nth i ok(5) by (metis length_take min.absorb4 nth_mem)
      ultimately show ?thesis using refs r_nth tky by auto
    qed
    have dy: "distinct (take n ?ys)" unfolding tky using d by (intro distinct_list_update) auto
    have okys: "heap_refs_ok ct st1 ?ys n"
      using ok(1) sety dy refs alarms_reindexed_valid[OF re1] tk by (auto simp: heap_refs_ok_def)
    have inj: "?xs ! j \<noteq> ?m" if "j < n" for j
      using that d(2) ok(5) by (metis length_take min.absorb4 nth_mem nth_take)
    have idxys: "heap_indexed st1 ?ys n n"
      unfolding heap_indexed_def
    proof (intro allI impI)
      fix j assume "j < n" "j \<noteq> n"
      then show "\<exists>c. st1 (?ys ! j) = Some c \<and> unat (heap_index c) = j"
        using small_idx inj[of j] i31 ok(5)
        by (cases "j = i") (auto simp: heap_indexed_def st1_def unsigned_of_nat take_bit_nat_eq_self)
    qed
    let ?h0 = "h\<lparr>alarms := ?ys, alarm_count := n\<rparr>"
    let ?h1 = "maybe_shrink ?h0"
    have sh: "alarm_count ?h1 = n" "take n (alarms ?h1) = take n ?ys" "length (alarms ?h1) = alarm_capacity ?h1"
      "n \<le> length (alarms ?h1)" "length (alarms ?h1) < 2 ^ 31"
      using ok by (auto simp: maybe_shrink_def SHRINK_FULLNESS_FACTOR_def heap_refs_ok_def)
    have cong: "heap_indexed s (alarms ?h1) n j = heap_indexed s ?ys n j" "heap_order k (alarms ?h1) n = heap_order k ?ys n"
      for s j k using heap_cong_take[OF sh(2,4)] ok(5) by auto
    have nth: "alarms ?h1 ! j = ?ys ! j" if "j < n" for j using sh(2) that by (metis nth_take)
    have key: "alarm_key st1 = alarm_key st" by (rule alarms_reindexed_key[OF re1])
    have up_cong: "heap_order_up k (alarms ?h1) n j = heap_order_up k ?ys n j"
      "heap_order_down k (alarms ?h1) n j = heap_order_down k ?ys n j" if "j < n" for k j
    proof -
      have "alarms ?h1 ! ((c - 1) div 2) = ?ys ! ((c - 1) div 2)" if "c < n" for c
        using that by (intro nth) auto
      with nth that show "heap_order_up k (alarms ?h1) n j = heap_order_up k ?ys n j"
        "heap_order_down k (alarms ?h1) n j = heap_order_down k ?ys n j"
        unfolding heap_order_up_def heap_order_down_def by auto
    qed
    have par: "alarms ?h1 ! ((i - 1) div 2) = ?xs ! ((i - 1) div 2)" if "0 < i"
      using that i nth[of "(i - 1) div 2"] by auto
    have "\<exists>zs st2. note_changed_priority ?h1 ?m st1 = Some (?h1\<lparr>alarms := zs\<rparr>, st2) \<and>
           heap_sifted st1 (alarms ?h1) n st2 zs \<and> heap_indexed st2 zs n n \<and> heap_order (alarm_key st2) zs n"
    proof (rule note_changed_priority_correct[where ct = ct and i = i])
      show "heap_refs_ok ct st1 (alarms ?h1) n" using okys sh by (simp add: heap_refs_ok_def)
      show "heap_indexed st1 (alarms ?h1) n n" using idxys by (simp add: cong)
      show "alarms ?h1 ! i = ?m" using nth[OF i] i ok(5) by simp
    next
      assume "0 < i" "alarm_key st1 (alarms ?h1 ! ((i - 1) div 2)) < alarm_key st1 ?m"
      then show "heap_order_up (alarm_key st1) (alarms ?h1) n i"
        using heap_order_replace(1)[OF ok(3) i ok(5) refl, of ?m] par by (simp add: key up_cong(1)[OF i])
    next
      assume "\<not> (0 < i \<and> alarm_key st1 (alarms ?h1 ! ((i - 1) div 2)) < alarm_key st1 ?m)"
      then show "heap_order_down (alarm_key st1) (alarms ?h1) n i"
        using heap_order_replace(2)[OF ok(3) i ok(5) refl, of ?m] par unfolding key up_cong(2)[OF i] by (cases "i = 0") simp_all
    qed (use sh i in auto)
    then obtain zs st2 where z: "note_changed_priority ?h1 ?m st1 = Some (?h1\<lparr>alarms := zs\<rparr>, st2)"
      "heap_sifted st1 (alarms ?h1) n st2 zs" "heap_indexed st2 zs n n" "heap_order (alarm_key st2) zs n" by blast
    have zset: "set (take n zs) = alarm_heap_refs h - {r}"
      using z(2) sh(2) sety mset_eq_setD[of "take n zs" "take n (alarms ?h1)"] by (simp add: heap_sifted_def)
    have zre: "alarms_reindexed (alarm_heap_refs h) st st2"
    proof (rule alarms_reindexed_trans[OF re1])
      show "alarms_reindexed (alarm_heap_refs h) st1 st2"
        using z(2) sh(2) sety by (auto simp: heap_sifted_def alarms_reindexed_def)
    qed
    have "heap_refs_ok ct st2 zs n"
      by (rule heap_sifted_refs_ok[OF z(2)]) (use okys sh in \<open>simp add: heap_refs_ok_def\<close>)
    then have okz: "alarm_heap_ok ct (?h1\<lparr>alarms := zs\<rparr>) st2"
      using z sh by (simp add: alarm_heap_ok_def heap_sifted_def)
    have "grpc_alarm_heap_remove h r st = note_changed_priority ?h1 ?m st1"
      using a n False place nth[OF i] i ok(5) sh(4)
      by (simp add: grpc_alarm_heap_remove_def)
    with z(1) okz zset zre sh(1) n show ?thesis by (auto simp: alarm_heap_refs_def)
  qed
qed


section \<open>The interface of a priority queue of alarms\<close>

text \<open>
  What \<^verbatim>\<open>alarm.c\<close> can rely on: elements go in with a key and come out at the
  top, which is extreme for an order \<open>before\<close> on keys.
\<close>

locale alarm_queue =
  fixes ok :: "'h \<Rightarrow> 's \<Rightarrow> bool"
    and refs :: "'h \<Rightarrow> 'r set"
    and key :: "'s \<Rightarrow> 'r \<Rightarrow> int"
    and fits :: "'s \<Rightarrow> 'r \<Rightarrow> bool"
    and room :: "'h \<Rightarrow> bool"
    and before :: "int \<Rightarrow> int \<Rightarrow> bool"
    and top :: "'h \<Rightarrow> 'r option"
    and add :: "'h \<Rightarrow> 'r \<Rightarrow> 's \<Rightarrow> (bool \<times> 'h \<times> 's) option"
    and pop :: "'h \<Rightarrow> 's \<Rightarrow> ('h \<times> 's) option"
  assumes finite: "ok h s \<Longrightarrow> finite (refs h)"
    and top: "ok h s \<Longrightarrow> refs h \<noteq> {} \<Longrightarrow>
      \<exists>r \<in> refs h. top h = Some r \<and> (\<forall>q \<in> refs h. before (key s r) (key s q))"
    and add: "ok h s \<Longrightarrow> fits s r \<Longrightarrow> r \<notin> refs h \<Longrightarrow> room h \<Longrightarrow>
      \<exists>b h' s'. add h r s = Some (b, h', s') \<and> ok h' s' \<and> refs h' = insert r (refs h) \<and>
                key s' = key s \<and> b = (top h' = Some r)"
    and pop: "ok h s \<Longrightarrow> top h = Some r \<Longrightarrow> r \<in> refs h \<Longrightarrow>
      \<exists>h' s'. pop h s = Some (h', s') \<and> ok h' s' \<and> refs h' = refs h - {r} \<and> key s' = key s"
begin

fun popped :: "nat \<Rightarrow> 'h \<Rightarrow> 's \<Rightarrow> 'r list option" where
  "popped 0 h s = Some []"
| "popped (Suc n) h s =
     do { r \<leftarrow> top h; (h1, s1) \<leftarrow> pop h s; rs \<leftarrow> popped n h1 s1; Some (r # rs) }"

lemma popped_sorted:
  "ok h s \<Longrightarrow> card (refs h) = n \<Longrightarrow>
     \<exists>rs. popped n h s = Some rs \<and> set rs = refs h \<and> distinct rs \<and>
          sorted_wrt (\<lambda>r q. before (key s r) (key s q)) rs"
proof (induction n arbitrary: h s)
  case 0
  then show ?case using finite[OF 0(1)] by simp
next
  case (Suc n)
  then have "refs h \<noteq> {}" by auto
  from top[OF Suc.prems(1) this] obtain r where
    r: "r \<in> refs h" "top h = Some r" "\<And>q. q \<in> refs h \<Longrightarrow> before (key s r) (key s q)" by blast
  from pop[OF Suc.prems(1) r(2,1)] obtain h1 s1 where
    p: "pop h s = Some (h1, s1)" "ok h1 s1" "refs h1 = refs h - {r}" "key s1 = key s" by blast
  have "card (refs h1) = n" using p(3) r(1) Suc.prems(2) finite[OF Suc.prems(1)] by simp
  from Suc.IH[OF p(2) this] obtain rs where
    "popped n h1 s1 = Some rs" "set rs = refs h1" "distinct rs"
    "sorted_wrt (\<lambda>r q. before (key s r) (key s q)) rs" unfolding p(4) by blast
  with r p show ?case by auto
qed

lemma add_top:
  assumes "ok h s" "fits s r" "r \<notin> refs h" "room h"
  shows "\<exists>b h' s'. add h r s = Some (b, h', s') \<and> (b \<longrightarrow> (\<forall>q \<in> refs h. before (key s r) (key s q)))"
proof -
  from add[OF assms] obtain b h' s' where a: "add h r s = Some (b, h', s')" "ok h' s'"
    "refs h' = insert r (refs h)" "key s' = key s" "b = (top h' = Some r)" by blast
  from top[OF a(2)] a show ?thesis by auto
qed

end

interpretation deadline_heap: alarm_queue "alarm_heap_ok ct" alarm_heap_refs alarm_key "alarm_valid ct"
    "\<lambda>h. alarm_capacity h \<le> 715827882" "(\<ge>)" grpc_alarm_heap_top grpc_alarm_heap_add grpc_alarm_heap_pop
  for ct
proof (unfold_locales, goal_cases)
  case (1 h s) then show ?case by (simp add: alarm_heap_refs_def)
next
  case (2 h s) then show ?case by (rule grpc_alarm_heap_top_correct)
next
  case (3 h s r)
  from grpc_alarm_heap_add_correct[OF this] show ?case by (auto dest: alarms_reindexed_key)
next
  case (4 h s r)
  from grpc_alarm_heap_remove_correct[OF 4(1,3)] 4(2) show ?case
    by (auto simp: grpc_alarm_heap_pop_def dest: alarms_reindexed_key)
qed

text \<open>The alarms that popping \<open>n\<close> times returns.\<close>

fun alarm_heap_drain :: "nat \<Rightarrow> grpc_alarm_heap \<Rightarrow> alarm_store \<Rightarrow> alarm_ref list option" where
  "alarm_heap_drain 0 h st = Some []"
| "alarm_heap_drain (Suc n) h st =
     do {
       r \<leftarrow> grpc_alarm_heap_top h;
       (h1, st1) \<leftarrow> grpc_alarm_heap_pop h st;
       rs \<leftarrow> alarm_heap_drain n h1 st1;
       Some (r # rs)
     }"

lemma alarm_heap_drain_popped: "deadline_heap.popped n h st = alarm_heap_drain n h st"
  by (induction n arbitrary: h st) (simp_all cong: Option.bind_cong)

text \<open>
  Popping a heap until it is empty never aborts and returns each of its alarms
  once, the latest deadline first: the heap keeps the maximum on top, where its client
  \<^verbatim>\<open>alarm.c\<close> takes the top for the earliest deadline (\<^verbatim>\<open>compute_min_deadline\<close>, \<^verbatim>\<open>pop_one\<close>).
\<close>

theorem heap_drain_sorted:
  assumes "alarm_heap_ok ct h st"
  shows "\<exists>rs. alarm_heap_drain (card (alarm_heap_refs h)) h st = Some rs \<and>
           set rs = alarm_heap_refs h \<and> distinct rs \<and>
           sorted_wrt (\<lambda>r q. alarm_key st r \<ge> alarm_key st q) rs"
  using deadline_heap.popped_sorted[OF assms refl] by (simp add: alarm_heap_drain_popped)

text \<open>
  C24. Adding an alarm keeps the heap invariant (array and index fields agree, every
  parent's deadline is at least its children's), adds exactly that alarm, changes
  nothing but heap indices in the store, and reports whether the new alarm is now
  on top. It fails only for a capacity whose growth overflows an \<^verbatim>\<open>int\<close>.
\<close>

theorem heap_add_keeps_invariant:
  assumes "alarm_heap_ok ct h st" "alarm_valid ct st r" "r \<notin> alarm_heap_refs h"
    and "alarm_capacity h \<le> 715827882"
  shows "\<exists>b h' st'. grpc_alarm_heap_add h r st = Some (b, h', st') \<and> alarm_heap_ok ct h' st' \<and>
           alarm_heap_refs h' = insert r (alarm_heap_refs h) \<and>
           alarms_reindexed (insert r (alarm_heap_refs h)) st st' \<and>
           b = (grpc_alarm_heap_top h' = Some r)"
  using grpc_alarm_heap_add_correct[OF assms] by blast

text \<open>
  C23. Removing any alarm of a heap, not only the top one, keeps the heap invariant
  and removes exactly that alarm.
\<close>

theorem heap_remove_keeps_invariant:
  assumes "alarm_heap_ok ct h st" "r \<in> alarm_heap_refs h"
  shows "\<exists>h' st'. grpc_alarm_heap_remove h r st = Some (h', st') \<and> alarm_heap_ok ct h' st' \<and>
           alarm_heap_refs h' = alarm_heap_refs h - {r} \<and>
           alarms_reindexed (alarm_heap_refs h) st st'"
  using grpc_alarm_heap_remove_correct[OF assms] by blast


section \<open>An example heap\<close>

text \<open>Two alarms in a heap of capacity two, and a third one outside it.\<close>

definition example_alarm :: "int \<Rightarrow> u32 \<Rightarrow> grpc_alarm" where
  "example_alarm s i =
     \<lparr> deadline = \<lparr> tv_sec = s, tv_nsec = 0, clock_type = GPR_CLOCK_MONOTONIC \<rparr>, heap_index = i,
       triggered = False, next_alarm = List_Head 0, prev_alarm = List_Head 0, cb_arg = 0 \<rparr>"

definition example_store :: alarm_store where
  "example_store = [Alarm 16 \<mapsto> example_alarm 5 0, Alarm 32 \<mapsto> example_alarm 3 1, Alarm 48 \<mapsto> example_alarm 9 0]"

definition example_heap :: grpc_alarm_heap where
  "example_heap = \<lparr> alarms = [Alarm 16, Alarm 32], alarm_count = 2, alarm_capacity = 2 \<rparr>"

lemma example_heap_ok:
  "alarm_heap_ok GPR_CLOCK_MONOTONIC example_heap example_store"
  "alarm_heap_refs example_heap = {Alarm 16, Alarm 32}"
  "alarm_valid GPR_CLOCK_MONOTONIC example_store (Alarm 48)"
proof -
  have two: "j < 2 \<longleftrightarrow> j = 0 \<or> j = 1" for j :: nat by auto
  have take: "take 2 [Alarm 16, Alarm 32] = [Alarm 16, Alarm 32]" by simp
  show v: "alarm_valid GPR_CLOCK_MONOTONIC example_store (Alarm 48)"
    by (simp add: alarm_valid_def example_store_def example_alarm_def time_simps)
  show "alarm_heap_refs example_heap = {Alarm 16, Alarm 32}"
    by (simp add: alarm_heap_refs_def example_heap_def take)
  have "heap_refs_ok GPR_CLOCK_MONOTONIC example_store [Alarm 16, Alarm 32] 2"
    by (simp add: heap_refs_ok_def take alarm_valid_def example_store_def example_alarm_def time_simps)
  moreover have "heap_indexed example_store [Alarm 16, Alarm 32] 2 2"
    by (auto simp: heap_indexed_def two example_store_def example_alarm_def)
  moreover have "heap_order (alarm_key example_store) [Alarm 16, Alarm 32] 2"
    by (auto simp: heap_order_def two alarm_key_def example_store_def example_alarm_def time_simps)
  ultimately show "alarm_heap_ok GPR_CLOCK_MONOTONIC example_heap example_store"
    by (simp add: alarm_heap_ok_def example_heap_def)
qed

theorem heap_drain_sorted_witness:
  "\<exists>rs. alarm_heap_drain 2 example_heap example_store = Some rs \<and>
     set rs = {Alarm 16, Alarm 32} \<and> distinct rs \<and>
     sorted_wrt (\<lambda>r q. alarm_key example_store r \<ge> alarm_key example_store q) rs"
proof -
  have "card {Alarm 16, Alarm 32} = 2" by simp
  from heap_drain_sorted[OF example_heap_ok(1), unfolded example_heap_ok(2) this] show ?thesis .
qed

theorem heap_add_keeps_invariant_witness:
  "\<exists>b h' st'. grpc_alarm_heap_add example_heap (Alarm 48) example_store = Some (b, h', st') \<and>
     alarm_heap_ok GPR_CLOCK_MONOTONIC h' st' \<and>
     alarm_heap_refs h' = {Alarm 16, Alarm 32, Alarm 48} \<and>
     alarms_reindexed {Alarm 16, Alarm 32, Alarm 48} example_store st' \<and>
     b = (grpc_alarm_heap_top h' = Some (Alarm 48))"
proof -
  have set: "insert (Alarm 48) {Alarm 16, Alarm 32} = {Alarm 16, Alarm 32, Alarm 48}" by auto
  show ?thesis
    using heap_add_keeps_invariant[OF example_heap_ok(1,3)]
    by (simp add: example_heap_ok(2) set) (simp add: example_heap_def)
qed

theorem heap_remove_keeps_invariant_witness:
  "\<exists>h' st'. grpc_alarm_heap_remove example_heap (Alarm 16) example_store = Some (h', st') \<and>
     alarm_heap_ok GPR_CLOCK_MONOTONIC h' st' \<and> alarm_heap_refs h' = {Alarm 16, Alarm 32} - {Alarm 16} \<and>
     alarms_reindexed {Alarm 16, Alarm 32} example_store st'"
  using heap_remove_keeps_invariant[OF example_heap_ok(1), of "Alarm 16"] by (simp add: example_heap_ok(2))

end
