(* ===== verification/Alarm_Shard.thy ===== *)
theory Alarm_Shard
  imports Alarm_Heap
begin

text \<open>
  One shard of the alarms of \<^verbatim>\<open>src/core/iomgr/alarm.c\<close>: alarms that are due soon in a heap, the
  others in a circular list through their \<^verbatim>\<open>next\<close> and \<^verbatim>\<open>prev\<close> with a head embedded in the shard.
  The queue of shards, the locks and the statistics are left out; the width of the window that
  is computed from the statistics in floating point is a parameter.
\<close>

section \<open>Shards\<close>

text \<open>\<open>shard_list\<close> is the address of the head of the list.\<close>

record shard_type =
  queue_deadline_cap :: gpr_timespec
  shard_heap :: grpc_alarm_heap
  shard_list :: alarm_ref

definition compute_min_deadline :: "shard_type \<Rightarrow> alarm_store \<Rightarrow> gpr_timespec option" where
  "compute_min_deadline shard st =
     (if grpc_alarm_heap_is_empty (shard_heap shard) then Some (queue_deadline_cap shard)
      else do { r \<leftarrow> grpc_alarm_heap_top (shard_heap shard); a \<leftarrow> st r; Some (deadline a) })"

definition list_join :: "alarm_ref \<Rightarrow> alarm_ref \<Rightarrow> alarm_store \<Rightarrow> alarm_store option" where
  "list_join head alarm st =
     do {
       st \<leftarrow> alarm_modify alarm (\<lambda>a. a\<lparr>next_alarm := head\<rparr>) st;
       h \<leftarrow> st head;
       st \<leftarrow> alarm_modify alarm (\<lambda>a. a\<lparr>prev_alarm := prev_alarm h\<rparr>) st;
       a \<leftarrow> st alarm;
       st \<leftarrow> alarm_modify (prev_alarm a) (\<lambda>p. p\<lparr>next_alarm := alarm\<rparr>) st;
       a \<leftarrow> st alarm;
       alarm_modify (next_alarm a) (\<lambda>n. n\<lparr>prev_alarm := alarm\<rparr>) st
     }"

definition list_remove :: "alarm_ref \<Rightarrow> alarm_store \<Rightarrow> alarm_store option" where
  "list_remove alarm st =
     do {
       a \<leftarrow> st alarm;
       st \<leftarrow> alarm_modify (next_alarm a) (\<lambda>n. n\<lparr>prev_alarm := prev_alarm a\<rparr>) st;
       a \<leftarrow> st alarm;
       alarm_modify (prev_alarm a) (\<lambda>p. p\<lparr>next_alarm := next_alarm a\<rparr>) st
     }"

text \<open>The loop of \<^verbatim>\<open>refill_queue\<close>; a list that does not lead back to its head would not end.\<close>

partial_function (option) refill_loop ::
    "alarm_ref \<Rightarrow> gpr_timespec \<Rightarrow> grpc_alarm_heap \<Rightarrow> alarm_store \<Rightarrow> alarm_ref \<Rightarrow> (grpc_alarm_heap \<times> alarm_store) option" where
  "refill_loop head cap h st alarm =
     (if alarm = head then Some (h, st)
      else do {
        a \<leftarrow> st alarm;
        c \<leftarrow> gpr_time_cmp (deadline a) cap;
        (h1, st1) \<leftarrow> (if c < 0 then do {
                      st1 \<leftarrow> list_remove alarm st;
                      (b, h1, st1) \<leftarrow> grpc_alarm_heap_add h alarm st1;
                      Some (h1, st1)
                    }
                    else Some (h, st));
        refill_loop head cap h1 st1 (next_alarm a)
      })"

definition refill_queue ::
    "gpr_timespec \<Rightarrow> shard_type \<Rightarrow> alarm_store \<Rightarrow> gpr_timespec \<Rightarrow> (bool \<times> shard_type \<times> alarm_store) option" where
  "refill_queue deadline_delta shard st now =
     do {
       m \<leftarrow> gpr_time_max now (queue_deadline_cap shard);
       cap \<leftarrow> gpr_time_add m deadline_delta;
       head \<leftarrow> st (shard_list shard);
       (h, st) \<leftarrow> refill_loop (shard_list shard) cap (shard_heap shard) st (next_alarm head);
       Some (\<not> grpc_alarm_heap_is_empty h, shard\<lparr>queue_deadline_cap := cap, shard_heap := h\<rparr>, st)
     }"

text \<open>No turn of the loop of \<^verbatim>\<open>pop_one\<close> is followed by another.\<close>

definition pop_top ::
    "shard_type \<Rightarrow> alarm_store \<Rightarrow> gpr_timespec \<Rightarrow> (alarm_ref option \<times> shard_type \<times> alarm_store) option" where
  "pop_top shard st now =
     do {
       alarm \<leftarrow> grpc_alarm_heap_top (shard_heap shard);
       a \<leftarrow> st alarm;
       c \<leftarrow> gpr_time_cmp (deadline a) now;
       (if c > 0 then Some (None, shard, st)
        else do {
          st \<leftarrow> alarm_modify alarm (\<lambda>a. a\<lparr>triggered := True\<rparr>) st;
          (h, st) \<leftarrow> grpc_alarm_heap_pop (shard_heap shard) st;
          Some (Some alarm, shard\<lparr>shard_heap := h\<rparr>, st)
        })
     }"

definition pop_one ::
    "gpr_timespec \<Rightarrow> shard_type \<Rightarrow> alarm_store \<Rightarrow> gpr_timespec \<Rightarrow> (alarm_ref option \<times> shard_type \<times> alarm_store) option" where
  "pop_one deadline_delta shard st now =
     (if grpc_alarm_heap_is_empty (shard_heap shard) then do {
        c \<leftarrow> gpr_time_cmp now (queue_deadline_cap shard);
        (if c < 0 then Some (None, shard, st)
         else do {
           (filled, shard, st) \<leftarrow> refill_queue deadline_delta shard st now;
           (if filled then pop_top shard st now else Some (None, shard, st))
         })
      }
      else pop_top shard st now)"

text \<open>
  The loop of \<^verbatim>\<open>pop_alarms\<close>. The width of the window depends on how often it was computed, so
  there is one for each turn.
\<close>

fun pop_loop ::
    "gpr_timespec list \<Rightarrow> shard_type \<Rightarrow> alarm_store \<Rightarrow> gpr_timespec \<Rightarrow> (alarm_ref list \<times> shard_type \<times> alarm_store) option" where
  "pop_loop [] shard st now = Some ([], shard, st)"
| "pop_loop (delta # deltas) shard st now =
     do {
       (r, shard, st) \<leftarrow> pop_one delta shard st now;
       (case r of
          None \<Rightarrow> Some ([], shard, st)
        | Some alarm \<Rightarrow> do {
            (rs, shard, st) \<leftarrow> pop_loop deltas shard st now;
            Some (alarm # rs, shard, st)
          })
     }"

text \<open>The results are the alarms and the new minimum deadline; \<open>deltas\<close> has \<open>max_alarms\<close> windows.\<close>

definition pop_alarms ::
    "gpr_timespec list \<Rightarrow> shard_type \<Rightarrow> alarm_store \<Rightarrow> gpr_timespec \<Rightarrow>
      (alarm_ref list \<times> gpr_timespec \<times> shard_type \<times> alarm_store) option" where
  "pop_alarms deltas shard st now =
     do {
       (rs, shard, st) \<leftarrow> pop_loop deltas shard st now;
       new_min_deadline \<leftarrow> compute_min_deadline shard st;
       Some (rs, new_min_deadline, shard, st)
     }"

section \<open>Alarms that are due\<close>

lemma heap_not_empty: "r \<in> alarm_heap_refs h \<Longrightarrow> \<not> grpc_alarm_heap_is_empty h"
  by (cases "alarm_count h = 0") (auto simp: alarm_heap_refs_def grpc_alarm_heap_is_empty_def)

lemma shard_top:
  assumes "alarm_heap_ok ct (shard_heap shard) st" "r \<in> alarm_heap_refs (shard_heap shard)"
  obtains q a where "grpc_alarm_heap_top (shard_heap shard) = Some q" "st q = Some a" "q \<in> alarm_heap_refs (shard_heap shard)"
    "time_ok (deadline a)" "clock_type (deadline a) = ct" "\<forall>r \<in> alarm_heap_refs (shard_heap shard). alarm_key st r \<le> time_ns (deadline a)"
proof -
  from grpc_alarm_heap_top_correct[OF assms(1)] assms(2) obtain q where
    q: "q \<in> alarm_heap_refs (shard_heap shard)" "grpc_alarm_heap_top (shard_heap shard) = Some q"
    "\<forall>r \<in> alarm_heap_refs (shard_heap shard). alarm_key st r \<le> alarm_key st q" by blast
  from assms(1) q(1) have "alarm_valid ct st q" by (auto simp: alarm_heap_ok_def heap_refs_ok_def alarm_heap_refs_def)
  then obtain a where "st q = Some a" "time_ok (deadline a)" "clock_type (deadline a) = ct" by (auto simp: alarm_valid_def)
  with q that show thesis by (auto simp: alarm_key_def)
qed

text \<open>
  C25. Due alarms wait for later ones. While the heap of a shard holds an alarm that is not due
  yet, taking the alarms that are due from the shard takes none, however many alarms of the
  heap are due and for however long; and the minimum deadline that it reports, which orders the
  shards and is the time of the next check, is not before any deadline in the heap.
\<close>

theorem due_alarms_wait:
  assumes "alarm_heap_ok ct (shard_heap shard) st" "r \<in> alarm_heap_refs (shard_heap shard)"
    and "time_ok now" "clock_type now = ct" "time_ns now < alarm_key st r"
  shows "\<exists>d. pop_alarms deltas shard st now = Some ([], d, shard, st) \<and> clock_type d = ct \<and>
     (\<forall>q \<in> alarm_heap_refs (shard_heap shard). alarm_key st q \<le> time_ns d)"
proof -
  from shard_top[OF assms(1,2)] obtain q a where q: "grpc_alarm_heap_top (shard_heap shard) = Some q" "st q = Some a"
    "time_ok (deadline a)" "clock_type (deadline a) = ct" "\<forall>r \<in> alarm_heap_refs (shard_heap shard). alarm_key st r \<le> time_ns (deadline a)"
    by blast
  have "time_ns now < time_ns (deadline a)" using q(5) assms(2,5) by force
  then have "gpr_time_cmp (deadline a) now = Some 1" using time_cmp_correct[OF q(3) assms(3)] q(4) assms(4) by simp
  then have "pop_one delta shard st now = Some (None, shard, st)" for delta
    using q(1,2) heap_not_empty[OF assms(2)] by (simp add: pop_one_def pop_top_def)
  then have "pop_loop deltas shard st now = Some ([], shard, st)" by (cases deltas) simp_all
  with q heap_not_empty[OF assms(2)] show ?thesis by (simp add: pop_alarms_def compute_min_deadline_def)
qed

text \<open>An alarm is due at 3 and now is 4, but another one is due at 5.\<close>

definition example_shard :: shard_type where
  "example_shard =
     \<lparr> queue_deadline_cap = \<lparr> tv_sec = 6, tv_nsec = 0, clock_type = GPR_CLOCK_MONOTONIC \<rparr>, shard_heap = example_heap,
       shard_list = List_Head 0 \<rparr>"

theorem due_alarms_wait_witness:
  "alarm_key example_store (Alarm 32) < 4000000000 \<and>
   (\<exists>d. pop_alarms (replicate 128 (gpr_time_0 GPR_TIMESPAN)) example_shard example_store
       \<lparr> tv_sec = 4, tv_nsec = 0, clock_type = GPR_CLOCK_MONOTONIC \<rparr> = Some ([], d, example_shard, example_store) \<and>
     clock_type d = GPR_CLOCK_MONOTONIC \<and> (\<forall>q \<in> {Alarm 16, Alarm 32}. alarm_key example_store q \<le> time_ns d))"
proof -
  have h: "shard_heap example_shard = example_heap" by (simp add: example_shard_def)
  have now: "time_ok \<lparr> tv_sec = 4, tv_nsec = 0, clock_type = GPR_CLOCK_MONOTONIC \<rparr>" by (simp add: time_simps)
  have key: "alarm_key example_store (Alarm 16) = 5000000000" "alarm_key example_store (Alarm 32) = 3000000000"
    by (simp_all add: alarm_key_def example_store_def example_alarm_def time_simps)
  have "time_ns \<lparr> tv_sec = 4, tv_nsec = 0, clock_type = GPR_CLOCK_MONOTONIC \<rparr> < alarm_key example_store (Alarm 16)"
    using key by (simp add: time_simps)
  with due_alarms_wait[of GPR_CLOCK_MONOTONIC example_shard example_store "Alarm 16", unfolded h, OF example_heap_ok(1) _ now]
    example_heap_ok(2) key(2) show ?thesis by simp
qed

end
