(* ===== verification/Stream_Map.thy ===== *)
theory Stream_Map
  imports Prelude
begin

text \<open>
  The map from stream identifiers to streams of
  \<^verbatim>\<open>src/core/transport/chttp2/stream_map.c\<close>: two parallel arrays with strictly
  increasing keys, in which a deleted entry keeps its key and has a null value
  until the arrays are compacted. Sizes are natural numbers (\<^verbatim>\<open>size_t\<close> bounded by
  memory); an access outside the arrays or a failed assertion is \<^const>\<open>None\<close>.
\<close>

section \<open>Data and operations\<close>

record 'v stream_map =
  sm_keys :: "u32 list"
  sm_values :: "'v option list" \<comment> \<open>\<^const>\<open>None\<close> is the null pointer\<close>
  sm_count :: nat
  sm_free :: nat
  sm_capacity :: nat

text \<open>The fill of fresh memory is indeterminate; here zero keys and null values.\<close>

definition grpc_chttp2_stream_map_init :: "nat \<Rightarrow> 'v stream_map option" where
  "grpc_chttp2_stream_map_init initial_capacity =
     do {
       gpr_assert (1 < initial_capacity);
       Some \<lparr> sm_keys = replicate initial_capacity 0, sm_values = replicate initial_capacity None,
              sm_count = 0, sm_free = 0, sm_capacity = initial_capacity \<rparr>
     }"

text \<open>The loop of \<^verbatim>\<open>compact\<close>, from \<open>i\<close> on; the third result is \<open>out\<close>.\<close>

function compact_loop ::
    "u32 list \<Rightarrow> 'v option list \<Rightarrow> nat \<Rightarrow> nat \<Rightarrow> nat \<Rightarrow>
       (u32 list \<times> 'v option list \<times> nat) option" where
  "compact_loop ks vs cnt i out =
     (if i < cnt then do {
        v \<leftarrow> c_read vs i;
        (case v of
           None \<Rightarrow> compact_loop ks vs cnt (i + 1) out
         | Some x \<Rightarrow> do {
             k \<leftarrow> c_read ks i;
             ks1 \<leftarrow> c_write ks out k;
             vs1 \<leftarrow> c_write vs out v;
             compact_loop ks1 vs1 cnt (i + 1) (out + 1)
           })
      }
      else Some (ks, vs, out))"
  by auto
termination by (relation "measure (\<lambda>(_, _, cnt, i, _). cnt - i)") auto

declare compact_loop.simps [simp del]

definition compact :: "u32 list \<Rightarrow> 'v option list \<Rightarrow> nat \<Rightarrow> (u32 list \<times> 'v option list \<times> nat) option" where
  "compact ks vs cnt = compact_loop ks vs cnt 0 0"

definition grpc_chttp2_stream_map_add :: "'v stream_map \<Rightarrow> u32 \<Rightarrow> 'v option \<Rightarrow> 'v stream_map option" where
  "grpc_chttp2_stream_map_add m key v =
     do {
       (if sm_count m = 0 then Some ()
        else do { k \<leftarrow> c_read (sm_keys m) (sm_count m - 1); gpr_assert (k < key) });
       gpr_assert (v \<noteq> None);
       m1 \<leftarrow> (if sm_count m = sm_capacity m then
                (if sm_free m > sm_capacity m div 4 then do {
                   (ks, vs, n) \<leftarrow> compact (sm_keys m) (sm_values m) (sm_count m);
                   Some (m\<lparr>sm_keys := ks, sm_values := vs, sm_count := n, sm_free := 0\<rparr>)
                 }
                 else
                   (let cap = 3 * sm_capacity m div 2 in
                    Some (m\<lparr>sm_capacity := cap, sm_keys := c_realloc 0 (sm_keys m) cap,
                            sm_values := c_realloc None (sm_values m) cap\<rparr>)))
              else Some m);
       ks \<leftarrow> c_write (sm_keys m1) (sm_count m1) key;
       vs \<leftarrow> c_write (sm_values m1) (sm_count m1) v;
       Some (m1\<lparr>sm_keys := ks, sm_values := vs, sm_count := sm_count m1 + 1\<rparr>)
     }"

text \<open>\<^verbatim>\<open>memcpy(dst + at, src, n)\<close>\<close>

definition c_copy :: "'a list \<Rightarrow> nat \<Rightarrow> 'a list \<Rightarrow> nat \<Rightarrow> 'a list option" where
  "c_copy dst at src n =
     (if n \<le> length src \<and> at + n \<le> length dst
      then Some (take at dst @ take n src @ drop (at + n) dst) else None)"

text \<open>The resize of \<^verbatim>\<open>dst\<close> in \<^verbatim>\<open>grpc_chttp2_stream_map_move_into\<close>.\<close>

definition stream_map_reserve :: "'v stream_map \<Rightarrow> nat \<Rightarrow> 'v stream_map" where
  "stream_map_reserve dst n =
     (if sm_capacity dst < sm_count dst + n
      then (let cap = max (sm_capacity dst * 3 div 2) (sm_count dst + n) in
            dst\<lparr>sm_capacity := cap, sm_keys := c_realloc 0 (sm_keys dst) cap,
                sm_values := c_realloc None (sm_values dst) cap\<rparr>)
      else dst)"

definition grpc_chttp2_stream_map_move_into ::
    "'v stream_map \<Rightarrow> 'v stream_map \<Rightarrow> ('v stream_map \<times> 'v stream_map) option" where
  "grpc_chttp2_stream_map_move_into src dst =
     (if sm_count src = sm_free src then Some (src, dst)
      else if sm_count dst = sm_free dst then Some (dst, src)
      else do {
        s0 \<leftarrow> c_read (sm_keys src) 0;
        dl \<leftarrow> c_read (sm_keys dst) (sm_count dst - 1);
        (src1, dst1) \<leftarrow>
          (if s0 \<le> dl then do {
             (ks, vs, n) \<leftarrow> compact (sm_keys src) (sm_values src) (sm_count src);
             (ks', vs', n') \<leftarrow> compact (sm_keys dst) (sm_values dst) (sm_count dst);
             Some (src\<lparr>sm_keys := ks, sm_values := vs, sm_count := n, sm_free := 0\<rparr>,
                   dst\<lparr>sm_keys := ks', sm_values := vs', sm_count := n', sm_free := 0\<rparr>)
           }
           else Some (src, dst));
        s1 \<leftarrow> c_read (sm_keys src1) 0;
        dl1 \<leftarrow> c_read (sm_keys dst1) (sm_count dst1 - 1);
        gpr_assert (dl1 < s1);
        let dst2 = stream_map_reserve dst1 (sm_count src1);
        ks \<leftarrow> c_copy (sm_keys dst2) (sm_count dst2) (sm_keys src1) (sm_count src1);
        vs \<leftarrow> c_copy (sm_values dst2) (sm_count dst2) (sm_values src1) (sm_count src1);
        Some (src1\<lparr>sm_count := 0, sm_free := 0\<rparr>,
              dst2\<lparr>sm_keys := ks, sm_values := vs, sm_count := sm_count dst2 + sm_count src1,
                   sm_free := sm_free dst2 + sm_free src1\<rparr>)
      })"

text \<open>The binary search of \<^verbatim>\<open>find\<close>; the result is the index of the slot it points to.\<close>

function find_loop :: "u32 list \<Rightarrow> u32 \<Rightarrow> nat \<Rightarrow> nat \<Rightarrow> nat option option" where
  "find_loop ks key min_idx max_idx =
     (if min_idx < max_idx then
        (let mid_idx = min_idx + (max_idx - min_idx) div 2 in
         do {
           mid_key \<leftarrow> c_read ks mid_idx;
           (if mid_key < key then find_loop ks key (mid_idx + 1) max_idx
            else if key < mid_key then find_loop ks key min_idx mid_idx
            else Some (Some mid_idx))
         })
      else Some None)"
  by auto
termination
  by (relation "measure (\<lambda>(_, _, lo, hi). hi - lo)") auto

declare find_loop.simps [simp del]

definition stream_map_slot :: "'v stream_map \<Rightarrow> u32 \<Rightarrow> nat option option" where
  "stream_map_slot m key =
     (if sm_count m = 0 then Some None else find_loop (sm_keys m) key 0 (sm_count m))"

definition grpc_chttp2_stream_map_delete ::
    "'v stream_map \<Rightarrow> u32 \<Rightarrow> ('v option \<times> 'v stream_map) option" where
  "grpc_chttp2_stream_map_delete m key =
     do {
       slot \<leftarrow> stream_map_slot m key;
       (case slot of
          None \<Rightarrow> Some (None, m)
        | Some i \<Rightarrow> do {
            out \<leftarrow> c_read (sm_values m) i;
            vs \<leftarrow> c_write (sm_values m) i None;
            let m1 = m\<lparr>sm_values := vs, sm_free := sm_free m + of_bool (out \<noteq> None)\<rparr>;
            Some (out, if sm_free m1 = sm_count m1 then m1\<lparr>sm_free := 0, sm_count := 0\<rparr> else m1)
          })
     }"

definition grpc_chttp2_stream_map_find :: "'v stream_map \<Rightarrow> u32 \<Rightarrow> 'v option option" where
  "grpc_chttp2_stream_map_find m key =
     do {
       slot \<leftarrow> stream_map_slot m key;
       (case slot of None \<Rightarrow> Some None | Some i \<Rightarrow> c_read (sm_values m) i)
     }"

definition grpc_chttp2_stream_map_size :: "'v stream_map \<Rightarrow> nat" where
  "grpc_chttp2_stream_map_size m = sm_count m - sm_free m"

text \<open>The callback is a function on the user data.\<close>

fun for_each_loop ::
    "u32 list \<Rightarrow> 'v option list \<Rightarrow> nat \<Rightarrow> (u32 \<Rightarrow> 'v \<Rightarrow> 'u \<Rightarrow> 'u) \<Rightarrow> 'u \<Rightarrow> 'u option" where
  "for_each_loop ks vs 0 f u = Some u"
| "for_each_loop [] vs (Suc n) f u = None"
| "for_each_loop ks [] (Suc n) f u = None"
| "for_each_loop (k # ks) (v # vs) (Suc n) f u =
     for_each_loop ks vs n f (case v of None \<Rightarrow> u | Some x \<Rightarrow> f k x u)"

definition grpc_chttp2_stream_map_for_each ::
    "'v stream_map \<Rightarrow> (u32 \<Rightarrow> 'v \<Rightarrow> 'u \<Rightarrow> 'u) \<Rightarrow> 'u \<Rightarrow> 'u option" where
  "grpc_chttp2_stream_map_for_each m f u = for_each_loop (sm_keys m) (sm_values m) (sm_count m) f u"

section \<open>The invariant and the map a state stands for\<close>

fun live :: "u32 list \<Rightarrow> 'v option list \<Rightarrow> (u32 \<times> 'v) list" where
  "live (k # ks) (Some x # vs) = (k, x) # live ks vs"
| "live (k # ks) (None # vs) = live ks vs"
| "live ks vs = []"

definition stream_map_live :: "'v stream_map \<Rightarrow> (u32 \<times> 'v) list" where
  "stream_map_live m = live (take (sm_count m) (sm_keys m)) (take (sm_count m) (sm_values m))"

definition stream_map_abs :: "'v stream_map \<Rightarrow> u32 \<Rightarrow> 'v option" where
  "stream_map_abs m = map_of (stream_map_live m)"

definition stream_map_ok :: "'v stream_map \<Rightarrow> bool" where
  "stream_map_ok m \<longleftrightarrow>
     1 < sm_capacity m \<and> length (sm_keys m) = sm_capacity m \<and> length (sm_values m) = sm_capacity m \<and>
     sm_count m \<le> sm_capacity m \<and> sorted_wrt (<) (take (sm_count m) (sm_keys m)) \<and>
     sm_free m = count_list (take (sm_count m) (sm_values m)) None"

lemma live_append:
  "length ks = length vs \<Longrightarrow> live (ks @ ks') (vs @ vs') = live ks vs @ live ks' vs'"
  by (induction ks vs rule: live.induct) auto

lemma live_keys: "length ks = length vs \<Longrightarrow> set (map fst (live ks vs)) \<subseteq> set ks"
  by (induction ks vs rule: live.induct) auto

lemma live_sorted: "length ks = length vs \<Longrightarrow> sorted_wrt (<) ks \<Longrightarrow> sorted_wrt (<) (map fst (live ks vs))"
proof (induction ks vs rule: live.induct)
  case (1 k ks x vs)
  then show ?case using live_keys[of ks vs] by fastforce
qed auto

lemma live_length: "length ks = length vs \<Longrightarrow> length (live ks vs) + count_list vs None = length vs"
  by (induction ks vs rule: live.induct) auto

lemma live_Some: "map_of (live ks vs) k = Some x \<Longrightarrow> \<exists>i < length ks. ks ! i = k \<and> i < length vs \<and> vs ! i = Some x"
proof (induction ks vs rule: live.induct)
  case (1 k' ks x' vs)
  then show ?case by (fastforce split: if_splits)
qed fastforce+

lemma live_nth:
  assumes "length ks = length vs" "sorted_wrt (<) ks" "i < length ks"
  shows "map_of (live ks vs) (ks ! i) = vs ! i"
  using assms
proof (induction ks vs arbitrary: i rule: live.induct)
  case (1 k ks x vs)
  then show ?case by (cases i) (auto simp: dest: nth_mem)
next
  case (2 k ks vs)
  show ?case
  proof (cases i)
    case 0
    have "k \<notin> fst ` set (live ks vs)" using live_keys[of ks vs] 2 by fastforce
    with 0 show ?thesis by (simp add: map_of_eq_None_iff)
  qed (use 2 in auto)
qed auto

lemma stream_map_okD:
  assumes "stream_map_ok m"
  defines "ks \<equiv> take (sm_count m) (sm_keys m)" and "vs \<equiv> take (sm_count m) (sm_values m)"
  shows "length ks = sm_count m" "length vs = sm_count m" "sorted_wrt (<) ks"
    "sm_count m \<le> sm_capacity m" "length (sm_keys m) = sm_capacity m" "length (sm_values m) = sm_capacity m"
    "sm_free m = count_list vs None" "1 < sm_capacity m" "sm_free m \<le> sm_count m"
  using assms live_length[of ks vs] by (auto simp: stream_map_ok_def)


section \<open>Compaction\<close>

lemma live_all: "live (map fst L) (map (Some \<circ> snd) L) = L" "count_list (map (Some \<circ> snd) L) None = 0"
  by (induction L) auto

lemma compact_loop_correct:
  assumes "length vs = length ks" "cnt \<le> length ks" "out \<le> i" "i \<le> cnt"
  defines "L \<equiv> live (drop i (take cnt ks)) (drop i (take cnt vs))"
  shows "\<exists>ks' vs' n. compact_loop ks vs cnt i out = Some (ks', vs', n) \<and> n = out + length L \<and>
           length ks' = length ks \<and> length vs' = length ks \<and>
           take n ks' = take out ks @ map fst L \<and> take n vs' = take out vs @ map (Some \<circ> snd) L \<and> n \<le> cnt"
  using assms(1-4) unfolding L_def
proof (induction "cnt - i" arbitrary: ks vs i out)
  case 0
  then show ?case by (subst compact_loop.simps) simp
next
  case (Suc d)
  note prems = Suc.prems
  have i: "i < cnt" using Suc.hyps(2) by simp
  let ?rest = "\<lambda>xs. drop (Suc i) (take cnt xs)"
  have split: "drop i (take cnt ks) = ks ! i # ?rest ks" "drop i (take cnt vs) = vs ! i # ?rest vs"
    using i prems(1,2) by (simp_all add: Cons_nth_drop_Suc[symmetric])
  show ?case
  proof (cases "vs ! i")
    case None
    have "cnt - Suc i = d" using Suc.hyps(2) by simp
    from Suc.hyps(1)[of "Suc i" vs ks out] this prems i show ?thesis
      by (subst compact_loop.simps) (simp add: None split)
  next
    case (Some x)
    let ?ks = "ks[out := ks ! i]" and ?vs = "vs[out := Some x]"
    have rest: "?rest ?ks = ?rest ks" "?rest ?vs = ?rest vs"
      using prems(3) by (simp_all add: drop_take)
    have out: "take (Suc out) ?ks = take out ks @ [ks ! i]" "take (Suc out) ?vs = take out vs @ [Some x]"
      using prems i by (simp_all add: take_Suc_conv_app_nth)
    have "d = cnt - Suc i" using Suc.hyps(2) by simp
    from Suc.hyps(1)[OF this, of ?vs ?ks "Suc out"] prems i
    obtain ks' vs' n where "compact_loop ?ks ?vs cnt (Suc i) (Suc out) = Some (ks', vs', n)"
      "n = Suc out + length (live (?rest ?ks) (?rest ?vs))" "length ks' = length ks" "length vs' = length ks"
      "take n ks' = take (Suc out) ?ks @ map fst (live (?rest ?ks) (?rest ?vs))"
      "take n vs' = take (Suc out) ?vs @ map (Some \<circ> snd) (live (?rest ?ks) (?rest ?vs))" "n \<le> cnt"
      by auto
    then show ?thesis using i prems Some
      by (subst compact_loop.simps) (simp add: split rest out)
  qed
qed

text \<open>A state whose arrays have been compacted.\<close>

lemma compact_ok:
  assumes "stream_map_ok m"
  obtains ks vs n where "compact (sm_keys m) (sm_values m) (sm_count m) = Some (ks, vs, n)"
    "n = sm_count m - sm_free m"
    "stream_map_ok (m\<lparr>sm_keys := ks, sm_values := vs, sm_count := n, sm_free := 0\<rparr>)"
    "stream_map_live (m\<lparr>sm_keys := ks, sm_values := vs, sm_count := n, sm_free := 0\<rparr>) = stream_map_live m"
    "take n ks = map fst (stream_map_live m)"
proof -
  note m = stream_map_okD[OF assms]
  let ?L = "stream_map_live m"
  from compact_loop_correct[of "sm_values m" "sm_keys m" "sm_count m" 0 0] m obtain ks vs n where
    c: "compact (sm_keys m) (sm_values m) (sm_count m) = Some (ks, vs, n)" "n = length ?L"
      "length ks = sm_capacity m" "length vs = sm_capacity m"
      "take n ks = map fst ?L" "take n vs = map (Some \<circ> snd) ?L" "n \<le> sm_count m"
    by (auto simp: compact_def stream_map_live_def)
  let ?m = "m\<lparr>sm_keys := ks, sm_values := vs, sm_count := n, sm_free := 0\<rparr>"
  have live: "stream_map_live ?m = ?L"
    using c(5,6) by (simp add: stream_map_live_def live_all)
  have "sorted_wrt (<) (map fst ?L)" using m(1-3) by (simp add: live_sorted stream_map_live_def)
  with c m live have "stream_map_ok ?m" by (simp add: stream_map_ok_def live_all)
  moreover have "n = sm_count m - sm_free m"
    using c(2) m live_length[of "take (sm_count m) (sm_keys m)" "take (sm_count m) (sm_values m)"]
    by (simp add: stream_map_live_def)
  ultimately show thesis using c live by (intro that) auto
qed

section \<open>Search, deletion and insertion\<close>

lemma find_loop_correct:
  assumes "sorted_wrt (<) ks" "length ks = n" "n \<le> length xs" "take n xs = ks" "hi \<le> n"
    and "\<And>i. i < n \<Longrightarrow> i < lo \<Longrightarrow> ks ! i < key" "\<And>i. i < n \<Longrightarrow> hi \<le> i \<Longrightarrow> key < ks ! i"
  shows "\<exists>s. find_loop xs key lo hi = Some s \<and>
           (case s of None \<Rightarrow> key \<notin> set ks | Some i \<Rightarrow> i < n \<and> ks ! i = key)"
  using assms(5-7)
proof (induction "hi - lo" arbitrary: lo hi rule: less_induct)
  case less
  show ?case
  proof (cases "lo < hi")
    case False
    then have "\<forall>i < n. ks ! i \<noteq> key" using less.prems(2,3) by (metis leI less_irrefl order.strict_trans2)
    then have "key \<notin> set ks" using assms(2) by (auto simp: in_set_conv_nth)
    with False show ?thesis by (subst find_loop.simps) simp
  next
    case True
    let ?mid = "lo + (hi - lo) div 2"
    have mid: "?mid < hi" "lo \<le> ?mid" "?mid < n" "?mid < length xs" using True less.prems(1) assms(3) by auto
    have nth: "xs ! ?mid = ks ! ?mid" using assms(4) mid(3) by auto
    have mono: "i < j \<Longrightarrow> j < n \<Longrightarrow> ks ! i < ks ! j" for i j
      using assms(1,2) by (simp add: sorted_wrt_nth_less)
    consider "ks ! ?mid < key" | "key < ks ! ?mid" | "ks ! ?mid = key" by (rule linorder_cases)
    then show ?thesis
    proof cases
      case 1
      have "\<exists>s. find_loop xs key (?mid + 1) hi = Some s \<and>
           (case s of None \<Rightarrow> key \<notin> set ks | Some i \<Rightarrow> i < n \<and> ks ! i = key)"
      proof (rule less.hyps)
        show "ks ! i < key" if "i < n" "i < ?mid + 1" for i
          using that 1 mono[of i ?mid] mid(3) by (cases "i = ?mid") auto
      qed (use True less.prems mid in auto)
      with 1 True mid(4) nth show ?thesis by (subst find_loop.simps) (simp add: Let_def)
    next
      case 2
      have "\<exists>s. find_loop xs key lo ?mid = Some s \<and>
           (case s of None \<Rightarrow> key \<notin> set ks | Some i \<Rightarrow> i < n \<and> ks ! i = key)"
      proof (rule less.hyps)
        show "key < ks ! i" if "i < n" "?mid \<le> i" for i
          using that 2 mono[of ?mid i] by (cases "i = ?mid") auto
      qed (use True less.prems mid in auto)
      moreover have "\<not> ks ! ?mid < key" using 2 by simp
      ultimately show ?thesis using 2 True mid(4) nth by (subst find_loop.simps) (simp add: Let_def)
    next
      case 3
      with True mid nth show ?thesis by (subst find_loop.simps) (simp add: Let_def)
    qed
  qed
qed

lemma stream_map_slot_correct:
  assumes "stream_map_ok m"
  obtains (none) "stream_map_slot m key = Some None" "stream_map_abs m key = None"
  | (slot) i where "stream_map_slot m key = Some (Some i)" "i < sm_count m" "sm_keys m ! i = key"
      "stream_map_abs m key = sm_values m ! i"
proof -
  note m = stream_map_okD[OF assms]
  let ?ks = "take (sm_count m) (sm_keys m)" and ?vs = "take (sm_count m) (sm_values m)"
  show thesis
  proof (cases "sm_count m = 0")
    case True
    then show thesis by (intro none) (simp_all add: stream_map_slot_def stream_map_abs_def stream_map_live_def)
  next
    case False
    from find_loop_correct[OF m(3,1) _ refl, of "sm_count m" 0 key] m obtain s where
      s: "find_loop (sm_keys m) key 0 (sm_count m) = Some s"
        "case s of None \<Rightarrow> key \<notin> set ?ks | Some i \<Rightarrow> i < sm_count m \<and> ?ks ! i = key" by auto
    show thesis
    proof (cases s)
      case None
      with s(2) live_keys[of ?ks ?vs] m have "map_of (live ?ks ?vs) key = None"
        by (auto simp: map_of_eq_None_iff)
      with None s(1) False show thesis
        by (intro none) (simp_all add: stream_map_slot_def stream_map_abs_def stream_map_live_def)
    next
      case (Some i)
      with s(2) have i: "i < sm_count m" "?ks ! i = key" by auto
      with live_nth[of ?ks ?vs i] m have "map_of (live ?ks ?vs) key = ?vs ! i" by auto
      with Some s(1) False i show thesis
        by (intro slot[of i]) (simp_all add: stream_map_slot_def stream_map_abs_def stream_map_live_def)
    qed
  qed
qed

lemma stream_map_find_correct:
  assumes "stream_map_ok m"
  shows "grpc_chttp2_stream_map_find m key = Some (stream_map_abs m key)"
proof (cases rule: stream_map_slot_correct[OF assms, where key = key, case_names none slot])
  case none
  then show ?thesis by (simp add: grpc_chttp2_stream_map_find_def)
next
  case (slot i)
  with stream_map_okD[OF assms] show ?thesis by (simp add: grpc_chttp2_stream_map_find_def)
qed


lemma live_update:
  assumes "length ks = length vs" "sorted_wrt (<) ks" "i < length ks"
  shows "map_of (live ks (vs[i := v])) = (map_of (live ks vs))(ks ! i := v)"
proof
  fix k
  show "map_of (live ks (vs[i := v])) k = ((map_of (live ks vs))(ks ! i := v)) k"
  proof (cases "k \<in> set ks")
    case True
    then obtain j where j: "j < length ks" "k = ks ! j" by (auto simp: in_set_conv_nth)
    have "distinct ks" using assms(2) by (simp add: strict_sorted_iff)
    then have "ks ! j = ks ! i \<longleftrightarrow> j = i" using j assms(3) by (simp add: nth_eq_iff_index_eq)
    with live_nth[of ks "vs[i := v]" j] live_nth[of ks vs j] assms j show ?thesis
      by (auto simp: nth_list_update)
  next
    case False
    with live_keys[of ks vs] live_keys[of ks "vs[i := v]"] assms
    have "map_of (live ks vs) k = None" "map_of (live ks (vs[i := v])) k = None"
      by (auto simp: map_of_eq_None_iff)
    with False assms(3) show ?thesis by auto
  qed
qed

lemma count_list_update:
  "i < length xs \<Longrightarrow> count_list (xs[i := y]) x + of_bool (xs ! i = x) = count_list xs x + of_bool (y = x)"
proof (induction xs arbitrary: i)
  case (Cons a xs)
  show ?case
  proof (cases i)
    case (Suc j)
    with Cons.prems have "j < length xs" by simp
    from Cons.IH[OF this] Suc show ?thesis by auto
  qed auto
qed simp

lemma stream_map_delete_correct:
  assumes "stream_map_ok m"
  shows "\<exists>m'. grpc_chttp2_stream_map_delete m key = Some (stream_map_abs m key, m') \<and>
           stream_map_ok m' \<and> stream_map_abs m' = (stream_map_abs m)(key := None)"
proof (cases rule: stream_map_slot_correct[OF assms, where key = key, case_names none slot])
  case none
  with assms show ?thesis by (auto simp: grpc_chttp2_stream_map_delete_def fun_eq_iff)
next
  case (slot i)
  note m = stream_map_okD[OF assms]
  let ?n = "sm_count m"
  let ?ks = "take ?n (sm_keys m)" and ?vs = "take ?n (sm_values m)"
  define out where "out = sm_values m ! i"
  define m1 where "m1 = m\<lparr>sm_values := (sm_values m)[i := None], sm_free := sm_free m + of_bool (out \<noteq> None)\<rparr>"
  have vs: "take ?n (sm_values m1) = ?vs[i := None]" by (simp add: m1_def take_update_swap)
  have cnt: "count_list (?vs[i := None]) None = sm_free m1"
    using count_list_update[of i ?vs None None] slot(2) m by (auto simp: m1_def out_def)
  have ok1: "stream_map_ok m1"
    using m vs cnt by (simp add: stream_map_ok_def m1_def)
  have abs1: "stream_map_abs m1 = (stream_map_abs m)(key := None)"
    using live_update[of ?ks ?vs i None] m slot(2,3) vs
    by (simp add: stream_map_abs_def stream_map_live_def m1_def)
  define m2 where "m2 = (if sm_free m1 = sm_count m1 then m1\<lparr>sm_free := 0, sm_count := 0\<rparr> else m1)"
  have "stream_map_ok m2" using ok1 by (simp add: m2_def stream_map_ok_def)
  moreover have "stream_map_abs m2 = stream_map_abs m1"
  proof (cases "sm_free m1 = sm_count m1")
    case True
    then have "stream_map_live m1 = []"
      using live_length[of "take (sm_count m1) (sm_keys m1)" "take (sm_count m1) (sm_values m1)"]
        stream_map_okD[OF ok1] by (simp add: stream_map_live_def)
    with True show ?thesis by (simp add: m2_def stream_map_abs_def stream_map_live_def)
  qed (simp add: m2_def)
  moreover have "grpc_chttp2_stream_map_delete m key = Some (stream_map_abs m key, m2)"
    using slot m by (simp add: grpc_chttp2_stream_map_delete_def m2_def m1_def out_def Let_def)
  ultimately show ?thesis using abs1 by auto
qed

lemma sorted_append_bound:
  fixes ks :: "'a :: linorder list"
  shows "sorted_wrt (<) ks \<Longrightarrow> ks \<noteq> [] \<Longrightarrow> last ks < k \<Longrightarrow> x \<in> set ks \<Longrightarrow> x < k"
  by (induction ks rule: rev_induct) (auto simp: sorted_wrt_append)

lemma sorted_wrt_last: "sorted_wrt (<) ks \<Longrightarrow> k \<in> set ks \<Longrightarrow> k \<le> last ks" for k :: "'a :: linorder"
  by (cases ks rule: rev_cases) (auto simp: sorted_wrt_append)

text \<open>The keys of a map, live or deleted, in order.\<close>

definition stream_map_keys :: "'v stream_map \<Rightarrow> u32 list" where
  "stream_map_keys m = take (sm_count m) (sm_keys m)"

lemma stream_map_last:
  assumes "stream_map_ok m" "sm_count m \<noteq> 0"
  shows "c_read (sm_keys m) (sm_count m - 1) = Some (last (stream_map_keys m))" "stream_map_keys m \<noteq> []"
proof -
  note m = stream_map_okD[OF assms(1)]
  then have "length (stream_map_keys m) = sm_count m" by (simp add: stream_map_keys_def)
  with assms(2) show ne: "stream_map_keys m \<noteq> []" by auto
  have "last (stream_map_keys m) = stream_map_keys m ! (sm_count m - 1)"
    using ne m(1) by (simp add: last_conv_nth stream_map_keys_def)
  with assms(2) m show "c_read (sm_keys m) (sm_count m - 1) = Some (last (stream_map_keys m))"
    by (simp add: stream_map_keys_def)
qed

lemma stream_map_abs_keys:
  "stream_map_ok m \<Longrightarrow> stream_map_abs m k \<noteq> None \<Longrightarrow> k \<in> set (stream_map_keys m)"
  using live_keys[of "take (sm_count m) (sm_keys m)" "take (sm_count m) (sm_values m)"]
  by (auto simp: stream_map_ok_def stream_map_abs_def stream_map_live_def stream_map_keys_def
      dest!: map_of_SomeD)

lemma stream_map_push:
  fixes m :: "'v stream_map" and v :: 'v
  assumes "stream_map_ok m" "sm_count m < sm_capacity m" "\<And>k. k \<in> set (stream_map_keys m) \<Longrightarrow> k < key"
  defines "m' \<equiv> m\<lparr>sm_keys := (sm_keys m)[sm_count m := key], sm_values := (sm_values m)[sm_count m := Some v],
                  sm_count := sm_count m + 1\<rparr>"
  shows "stream_map_ok m'" "stream_map_live m' = stream_map_live m @ [(key, v)]"
proof -
  note m = stream_map_okD[OF assms(1)]
  have t: "take (sm_count m + 1) (sm_keys m') = take (sm_count m) (sm_keys m) @ [key]"
    "take (sm_count m + 1) (sm_values m') = take (sm_count m) (sm_values m) @ [Some v]"
    using m assms(2) by (simp_all add: m'_def take_Suc_conv_app_nth)
  have "sm_count m' = sm_count m + 1" by (simp add: m'_def)
  with t m assms(2,3) show "stream_map_ok m'" "stream_map_live m' = stream_map_live m @ [(key, v)]"
    by (auto simp: stream_map_ok_def stream_map_live_def stream_map_keys_def sorted_wrt_append live_append)
      (simp_all add: m'_def)
qed

lemma stream_map_add_correct:
  assumes "stream_map_ok m" "\<And>k. k \<in> set (stream_map_keys m) \<Longrightarrow> k < key"
  shows "\<exists>m'. grpc_chttp2_stream_map_add m key (Some v) = Some m' \<and> stream_map_ok m' \<and>
           stream_map_abs m' = (stream_map_abs m)(key \<mapsto> v) \<and>
           set (stream_map_keys m') \<subseteq> insert key (set (stream_map_keys m))"
proof -
  note m = stream_map_okD[OF assms(1)]
  have guard: "(if sm_count m = 0 then Some ()
        else do { k \<leftarrow> c_read (sm_keys m) (sm_count m - 1); gpr_assert (k < key) }) = Some ()"
    using stream_map_last[OF assms(1)] assms(2)[of "last (stream_map_keys m)"] by auto
  define step where "step = (if sm_count m = sm_capacity m then
                (if sm_free m > sm_capacity m div 4 then do {
                   (ks, vs, n) \<leftarrow> compact (sm_keys m) (sm_values m) (sm_count m);
                   Some (m\<lparr>sm_keys := ks, sm_values := vs, sm_count := n, sm_free := 0\<rparr>)
                 }
                 else
                   (let cap = 3 * sm_capacity m div 2 in
                    Some (m\<lparr>sm_capacity := cap, sm_keys := c_realloc 0 (sm_keys m) cap,
                            sm_values := c_realloc None (sm_values m) cap\<rparr>)))
              else Some m)"
  have "\<exists>m1. step = Some m1 \<and> stream_map_ok m1 \<and> sm_count m1 < sm_capacity m1 \<and>
      stream_map_live m1 = stream_map_live m \<and> set (stream_map_keys m1) \<subseteq> set (stream_map_keys m)"
  proof (cases "sm_count m = sm_capacity m")
    case full: True
    show ?thesis
    proof (cases "sm_free m > sm_capacity m div 4")
      case True
      from compact_ok[OF assms(1)] obtain ks vs n where
        c: "compact (sm_keys m) (sm_values m) (sm_count m) = Some (ks, vs, n)" "n = sm_count m - sm_free m"
          "stream_map_ok (m\<lparr>sm_keys := ks, sm_values := vs, sm_count := n, sm_free := 0\<rparr>)"
          "stream_map_live (m\<lparr>sm_keys := ks, sm_values := vs, sm_count := n, sm_free := 0\<rparr>) = stream_map_live m"
          "take n ks = map fst (stream_map_live m)" .
      moreover have "set (take n ks) \<subseteq> set (stream_map_keys m)"
        unfolding c(5) stream_map_live_def stream_map_keys_def using m(1,2) by (intro live_keys) simp
      moreover have "n < sm_capacity m" using c(2) full True m(8) by linarith
      ultimately show ?thesis using full True by (simp add: step_def stream_map_keys_def)
    next
      case False
      let ?cap = "3 * sm_capacity m div 2"
      have "sm_capacity m < ?cap" using m(8) by linarith
      with full False m show ?thesis
        by (auto simp: step_def Let_def stream_map_ok_def stream_map_live_def stream_map_keys_def)
    qed
  next
    case False
    with assms(1) m show ?thesis by (simp add: step_def)
  qed
  then obtain m1 where m1: "step = Some m1" "stream_map_ok m1" "sm_count m1 < sm_capacity m1"
    "stream_map_live m1 = stream_map_live m" "set (stream_map_keys m1) \<subseteq> set (stream_map_keys m)" by blast
  define m2 where "m2 = m1\<lparr>sm_keys := (sm_keys m1)[sm_count m1 := key],
    sm_values := (sm_values m1)[sm_count m1 := Some v], sm_count := sm_count m1 + 1\<rparr>"
  have lt: "k < key" if "k \<in> set (stream_map_keys m1)" for k using that m1(5) assms(2) by blast
  note p = stream_map_push[OF m1(2,3) lt, of v]
  have res: "grpc_chttp2_stream_map_add m key (Some v) = Some m2"
    unfolding grpc_chttp2_stream_map_add_def guard step_def[symmetric] m1(1)
    using stream_map_okD[OF m1(2)] m1(3) by (simp add: m2_def)
  have ok: "stream_map_ok m2" "stream_map_live m2 = stream_map_live m @ [(key, v)]"
    using p m1(4) by (simp_all add: m2_def)
  have "stream_map_abs m key = None" using stream_map_abs_keys[OF assms(1), of key] assms(2)[of key] by fastforce
  with ok(2) have "stream_map_abs m2 = (stream_map_abs m)(key \<mapsto> v)"
    by (auto simp: stream_map_abs_def map_add_def fun_eq_iff split: option.splits)
  moreover have "set (stream_map_keys m2) \<subseteq> insert key (set (stream_map_keys m))"
  proof -
    have "stream_map_keys m2 = stream_map_keys m1 @ [key]"
      using m1(3) stream_map_okD[OF m1(2)] by (simp add: m2_def stream_map_keys_def take_Suc_conv_app_nth)
    with m1(5) show ?thesis by auto
  qed
  ultimately show ?thesis using res ok(1) by blast
qed


section \<open>Moving one map into another\<close>

lemma take_c_copy: "at \<le> length dst \<Longrightarrow> c_copy dst at src n = Some xs \<Longrightarrow>
     length xs = length dst \<and> take (at + n) xs = take at dst @ take n src"
  by (auto simp: c_copy_def split: if_splits)

text \<open>Appending the entries of a map with only greater keys.\<close>

lemma stream_map_append:
  fixes src dst :: "'v stream_map"
  assumes "stream_map_ok src" "stream_map_ok dst"
    and "\<And>k q. k \<in> set (stream_map_keys dst) \<Longrightarrow> q \<in> set (stream_map_keys src) \<Longrightarrow> k < q"
  defines "dst2 \<equiv> stream_map_reserve dst (sm_count src)"
  shows "\<exists>ks vs. c_copy (sm_keys dst2) (sm_count dst2) (sm_keys src) (sm_count src) = Some ks \<and>
           c_copy (sm_values dst2) (sm_count dst2) (sm_values src) (sm_count src) = Some vs \<and>
           stream_map_ok (dst2\<lparr>sm_keys := ks, sm_values := vs, sm_count := sm_count dst2 + sm_count src,
                   sm_free := sm_free dst2 + sm_free src\<rparr>) \<and>
           stream_map_live (dst2\<lparr>sm_keys := ks, sm_values := vs, sm_count := sm_count dst2 + sm_count src,
                   sm_free := sm_free dst2 + sm_free src\<rparr>) = stream_map_live dst @ stream_map_live src"
proof -
  note s = stream_map_okD[OF assms(1)] and d = stream_map_okD[OF assms(2)]
  have d2: "sm_count dst2 = sm_count dst" "sm_free dst2 = sm_free dst"
    "take (sm_count dst) (sm_keys dst2) = take (sm_count dst) (sm_keys dst)"
    "take (sm_count dst) (sm_values dst2) = take (sm_count dst) (sm_values dst)"
    "length (sm_keys dst2) = sm_capacity dst2" "length (sm_values dst2) = sm_capacity dst2"
    "sm_count dst + sm_count src \<le> sm_capacity dst2" "1 < sm_capacity dst2"
    using d by (auto simp: dst2_def stream_map_reserve_def Let_def)
  obtain ks where ks: "c_copy (sm_keys dst2) (sm_count dst2) (sm_keys src) (sm_count src) = Some ks"
    using d2 s by (auto simp: c_copy_def)
  obtain vs where vs: "c_copy (sm_values dst2) (sm_count dst2) (sm_values src) (sm_count src) = Some vs"
    using d2 s by (auto simp: c_copy_def)
  have tk: "length ks = sm_capacity dst2" "length vs = sm_capacity dst2"
    "take (sm_count dst + sm_count src) ks = stream_map_keys dst @ stream_map_keys src"
    "take (sm_count dst + sm_count src) vs = take (sm_count dst) (sm_values dst) @ take (sm_count src) (sm_values src)"
    using take_c_copy[OF _ ks] take_c_copy[OF _ vs] d2 by (auto simp: stream_map_keys_def)
  let ?m = "dst2\<lparr>sm_keys := ks, sm_values := vs, sm_count := sm_count dst2 + sm_count src,
                   sm_free := sm_free dst2 + sm_free src\<rparr>"
  have "sorted_wrt (<) (stream_map_keys dst @ stream_map_keys src)"
    using s(3) d(3) assms(3) by (auto simp: sorted_wrt_append stream_map_keys_def)
  with tk d2 s d have "stream_map_ok ?m" by (simp add: stream_map_ok_def)
  moreover have "stream_map_live ?m = stream_map_live dst @ stream_map_live src"
    using tk d2 s d by (simp add: stream_map_live_def stream_map_keys_def live_append)
  ultimately show ?thesis using ks vs by blast
qed

lemma stream_map_empty_iff:
  assumes "stream_map_ok m"
  shows "sm_count m = sm_free m \<longleftrightarrow> stream_map_live m = []" "stream_map_abs m = Map.empty \<longleftrightarrow> stream_map_live m = []"
  using stream_map_okD[OF assms] live_length[of "take (sm_count m) (sm_keys m)" "take (sm_count m) (sm_values m)"]
  by (auto simp: stream_map_live_def stream_map_abs_def length_0_conv[symmetric] simp del: length_0_conv)

lemma stream_map_dom: "dom (stream_map_abs m) = set (map fst (stream_map_live m))"
  by (simp add: stream_map_abs_def dom_map_of_conv_image_fst)

lemma stream_map_live_sorted: "stream_map_ok m \<Longrightarrow> sorted_wrt (<) (map fst (stream_map_live m))"
  using stream_map_okD[of m] by (simp add: stream_map_live_def live_sorted)

lemma stream_map_move_ordered:
  assumes "stream_map_ok src" "stream_map_ok dst" "sm_count src \<noteq> sm_free src" "sm_count dst \<noteq> sm_free dst"
    and "\<And>k q. k \<in> dom (stream_map_abs dst) \<Longrightarrow> q \<in> dom (stream_map_abs src) \<Longrightarrow> k < q"
  shows "\<exists>s0 dl src1 dst1. c_read (sm_keys src) 0 = Some s0 \<and>
     c_read (sm_keys dst) (sm_count dst - 1) = Some dl \<and>
     (if s0 \<le> dl then do {
             (ks, vs, n) \<leftarrow> compact (sm_keys src) (sm_values src) (sm_count src);
             (ks', vs', n') \<leftarrow> compact (sm_keys dst) (sm_values dst) (sm_count dst);
             Some (src\<lparr>sm_keys := ks, sm_values := vs, sm_count := n, sm_free := 0\<rparr>,
                   dst\<lparr>sm_keys := ks', sm_values := vs', sm_count := n', sm_free := 0\<rparr>)
           }
           else Some (src, dst)) = Some (src1, dst1) \<and> stream_map_ok src1 \<and> stream_map_ok dst1 \<and>
     stream_map_live src1 = stream_map_live src \<and> stream_map_live dst1 = stream_map_live dst \<and>
     sm_count src1 \<noteq> 0 \<and> sm_count dst1 \<noteq> 0 \<and> hd (stream_map_keys src1) > last (stream_map_keys dst1)"
proof -
  note s = stream_map_okD[OF assms(1)] and d = stream_map_okD[OF assms(2)]
  have ne: "sm_count src \<noteq> 0" "sm_count dst \<noteq> 0" "stream_map_live src \<noteq> []" "stream_map_live dst \<noteq> []"
    using assms(3,4) s d stream_map_empty_iff[OF assms(1)] stream_map_empty_iff[OF assms(2)] by auto
  have s0: "c_read (sm_keys src) 0 = Some (hd (stream_map_keys src))"
    using ne s by (cases "sm_keys src") (auto simp: c_read_def stream_map_keys_def take_Cons')
  note dl = stream_map_last[OF assms(2) ne(2)]
  show ?thesis
  proof (cases "hd (stream_map_keys src) \<le> last (stream_map_keys dst)")
    case False
    with s0 dl(1) ne assms(1,2) show ?thesis by auto
  next
    case True
    from compact_ok[OF assms(1)] obtain ks vs n where
      c: "compact (sm_keys src) (sm_values src) (sm_count src) = Some (ks, vs, n)" "n = sm_count src - sm_free src"
        "stream_map_ok (src\<lparr>sm_keys := ks, sm_values := vs, sm_count := n, sm_free := 0\<rparr>)"
        "stream_map_live (src\<lparr>sm_keys := ks, sm_values := vs, sm_count := n, sm_free := 0\<rparr>) = stream_map_live src"
        "take n ks = map fst (stream_map_live src)" .
    from compact_ok[OF assms(2)] obtain ks' vs' n' where
      c': "compact (sm_keys dst) (sm_values dst) (sm_count dst) = Some (ks', vs', n')" "n' = sm_count dst - sm_free dst"
        "stream_map_ok (dst\<lparr>sm_keys := ks', sm_values := vs', sm_count := n', sm_free := 0\<rparr>)"
        "stream_map_live (dst\<lparr>sm_keys := ks', sm_values := vs', sm_count := n', sm_free := 0\<rparr>) = stream_map_live dst"
        "take n' ks' = map fst (stream_map_live dst)" .
    have "last (map fst (stream_map_live dst)) \<in> dom (stream_map_abs dst)"
      "hd (map fst (stream_map_live src)) \<in> dom (stream_map_abs src)"
      using ne(3,4) unfolding stream_map_dom by (simp_all only: last_in_set hd_in_set map_is_Nil_conv not_False_eq_True)
    then have lt: "last (map fst (stream_map_live dst)) < hd (map fst (stream_map_live src))"
      by (rule assms(5))
    have nn: "n \<noteq> 0" "n' \<noteq> 0" using c(2) c'(2) assms(3,4) s(9) d(9) by auto
    from True s0 dl(1) c c' lt nn show ?thesis
      by (intro exI[of _ "hd (stream_map_keys src)"] exI[of _ "last (stream_map_keys dst)"] exI[of _ "src\<lparr>sm_keys := ks, sm_values := vs, sm_count := n, sm_free := 0\<rparr>"]
            exI[of _ "dst\<lparr>sm_keys := ks', sm_values := vs', sm_count := n', sm_free := 0\<rparr>"])
         (simp add: stream_map_keys_def)
  qed
qed


lemma stream_map_move_correct:
  assumes "stream_map_ok src" "stream_map_ok dst"
    and "\<And>k q. k \<in> dom (stream_map_abs dst) \<Longrightarrow> q \<in> dom (stream_map_abs src) \<Longrightarrow> k < q"
  shows "\<exists>src' dst'. grpc_chttp2_stream_map_move_into src dst = Some (src', dst') \<and>
           stream_map_ok src' \<and> stream_map_ok dst' \<and> stream_map_abs src' = Map.empty \<and>
           stream_map_abs dst' = stream_map_abs dst ++ stream_map_abs src"
proof (cases "sm_count src = sm_free src \<or> sm_count dst = sm_free dst")
  case True
  with assms(1,2) stream_map_empty_iff[OF assms(1)] stream_map_empty_iff[OF assms(2)] show ?thesis
    by (auto simp: grpc_chttp2_stream_map_move_into_def stream_map_abs_def)
next
  case False
  then obtain s0 dl src1 dst1 where
    o: "c_read (sm_keys src) 0 = Some s0" "c_read (sm_keys dst) (sm_count dst - 1) = Some dl"
     "(if s0 \<le> dl then do {
             (ks, vs, n) \<leftarrow> compact (sm_keys src) (sm_values src) (sm_count src);
             (ks', vs', n') \<leftarrow> compact (sm_keys dst) (sm_values dst) (sm_count dst);
             Some (src\<lparr>sm_keys := ks, sm_values := vs, sm_count := n, sm_free := 0\<rparr>,
                   dst\<lparr>sm_keys := ks', sm_values := vs', sm_count := n', sm_free := 0\<rparr>)
           }
           else Some (src, dst)) = Some (src1, dst1)" "stream_map_ok src1" "stream_map_ok dst1"
    and l: "stream_map_live src1 = stream_map_live src" "stream_map_live dst1 = stream_map_live dst"
     "sm_count src1 \<noteq> 0" "sm_count dst1 \<noteq> 0" "last (stream_map_keys dst1) < hd (stream_map_keys src1)"
    using stream_map_move_ordered[OF assms(1,2) _ _ assms(3)] by auto
  note s1 = stream_map_okD[OF o(4)]
  have s0': "c_read (sm_keys src1) 0 = Some (hd (stream_map_keys src1))"
    using l(3) s1 by (cases "sm_keys src1") (auto simp: c_read_def stream_map_keys_def take_Cons')
  note dl' = stream_map_last[OF o(5) l(4)]
  have lt: "k < q" if "k \<in> set (stream_map_keys dst1)" "q \<in> set (stream_map_keys src1)" for k q
  proof -
    have "k \<le> last (stream_map_keys dst1)"
      using stream_map_okD(3)[OF o(5)] that(1) unfolding stream_map_keys_def[symmetric]
      by (rule sorted_wrt_last)
    also note l(5)
    also have "hd (stream_map_keys src1) \<le> q"
      using that(2) s1(3) by (cases "stream_map_keys src1") (auto simp: stream_map_keys_def[symmetric])
    finally show ?thesis .
  qed
  from stream_map_append[OF o(4,5) lt] obtain ks vs dst2 where
    a: "dst2 = stream_map_reserve dst1 (sm_count src1)"
      "c_copy (sm_keys dst2) (sm_count dst2) (sm_keys src1) (sm_count src1) = Some ks"
      "c_copy (sm_values dst2) (sm_count dst2) (sm_values src1) (sm_count src1) = Some vs"
      "stream_map_ok (dst2\<lparr>sm_keys := ks, sm_values := vs, sm_count := sm_count dst2 + sm_count src1,
                   sm_free := sm_free dst2 + sm_free src1\<rparr>)"
      "stream_map_live (dst2\<lparr>sm_keys := ks, sm_values := vs, sm_count := sm_count dst2 + sm_count src1,
                   sm_free := sm_free dst2 + sm_free src1\<rparr>) = stream_map_live dst1 @ stream_map_live src1"
    by blast
  note inner = a(2,3)[unfolded a(1)]
  let ?src = "src1\<lparr>sm_count := 0, sm_free := 0\<rparr>"
  let ?dst = "dst2\<lparr>sm_keys := ks, sm_values := vs, sm_count := sm_count dst2 + sm_count src1,
                   sm_free := sm_free dst2 + sm_free src1\<rparr>"
  have "grpc_chttp2_stream_map_move_into src dst = Some (?src, ?dst)"
    using False o(1,2,3) s0' dl'(1) l(5) inner
    by (simp add: grpc_chttp2_stream_map_move_into_def a(1) Let_def del: One_nat_def)
  moreover have "stream_map_ok ?src" using o(4) by (simp add: stream_map_ok_def)
  moreover have "stream_map_abs ?src = Map.empty" by (simp add: stream_map_abs_def stream_map_live_def)
  moreover have "stream_map_abs ?dst = stream_map_abs dst ++ stream_map_abs src"
  proof -
    have "dom (stream_map_abs dst) \<inter> dom (stream_map_abs src) = {}" using assms(3) by blast
    then show ?thesis
      unfolding stream_map_abs_def a(5) l(1,2) by (simp add: map_add_comm Int_commute)
  qed
  ultimately show ?thesis using a(4) by blast
qed

lemma for_each_loop_correct:
  "n \<le> length ks \<Longrightarrow> length vs = length ks \<Longrightarrow>
     for_each_loop ks vs n f u = Some (fold (\<lambda>(k, v). f k v) (live (take n ks) (take n vs)) u)"
  by (induction ks vs n f u rule: for_each_loop.induct) (auto split: option.splits)

section \<open>The interface of a map with increasing keys\<close>

locale increasing_map =
  fixes ok :: "'m \<Rightarrow> bool"
    and abs :: "'m \<Rightarrow> u32 \<Rightarrow> 'v option"
    and keys :: "'m \<Rightarrow> u32 set"
    and add :: "'m \<Rightarrow> u32 \<Rightarrow> 'v \<Rightarrow> 'm option"
    and del :: "'m \<Rightarrow> u32 \<Rightarrow> ('v option \<times> 'm) option"
    and lookup :: "'m \<Rightarrow> u32 \<Rightarrow> 'v option option"
  assumes add: "ok m \<Longrightarrow> (\<And>q. q \<in> keys m \<Longrightarrow> q < k) \<Longrightarrow>
      \<exists>m'. add m k v = Some m' \<and> ok m' \<and> abs m' = (abs m)(k \<mapsto> v) \<and> keys m' \<subseteq> insert k (keys m)"
    and del: "ok m \<Longrightarrow> \<exists>m'. del m k = Some (abs m k, m') \<and> ok m' \<and> abs m' = (abs m)(k := None)"
    and lookup: "ok m \<Longrightarrow> lookup m k = Some (abs m k)"
begin

fun add_all :: "'m \<Rightarrow> (u32 \<times> 'v) list \<Rightarrow> 'm option" where
  "add_all m [] = Some m"
| "add_all m ((k, v) # kvs) = do { m1 \<leftarrow> add m k v; add_all m1 kvs }"

lemma add_all_correct:
  "ok m \<Longrightarrow> sorted_wrt (<) (map fst kvs) \<Longrightarrow> (\<And>q k. q \<in> keys m \<Longrightarrow> k \<in> set (map fst kvs) \<Longrightarrow> q < k) \<Longrightarrow>
     \<exists>m'. add_all m kvs = Some m' \<and> ok m' \<and> abs m' = abs m ++ map_of kvs"
proof (induction kvs arbitrary: m)
  case (Cons kv kvs)
  obtain k v where kv: "kv = (k, v)" by (cases kv)
  from add[OF Cons.prems(1), of k v] Cons.prems(3) kv obtain m1 where
    m1: "add m k v = Some m1" "ok m1" "abs m1 = (abs m)(k \<mapsto> v)" "keys m1 \<subseteq> insert k (keys m)" by auto
  have "\<exists>m'. add_all m1 kvs = Some m' \<and> ok m' \<and> abs m' = abs m1 ++ map_of kvs"
    using Cons.prems(2,3) m1(4) kv by (intro Cons.IH[OF m1(2)]) auto
  moreover have "k \<notin> set (map fst kvs)" using Cons.prems(2) kv by auto
  then have "(abs m)(k \<mapsto> v) ++ map_of kvs = abs m ++ map_of ((k, v) # kvs)"
    by (auto simp: map_add_def fun_eq_iff split: option.splits dest!: map_of_SomeD intro: rev_image_eqI)
  ultimately show ?case using m1 kv by (auto simp: fun_eq_iff map_add_def split: option.splits)
qed simp

lemma lookup_added:
  assumes "ok m" "sorted_wrt (<) (map fst kvs)" "\<And>q k. q \<in> keys m \<Longrightarrow> k \<in> set (map fst kvs) \<Longrightarrow> q < k"
  shows "\<exists>m'. add_all m kvs = Some m' \<and> (\<forall>(k, v) \<in> set kvs. lookup m' k = Some (Some v))"
proof -
  from add_all_correct[OF assms] obtain m' where
    m': "add_all m kvs = Some m'" "ok m'" "abs m' = abs m ++ map_of kvs" by blast
  have "distinct (map fst kvs)" using assms(2) by (simp add: strict_sorted_iff)
  then have "map_of kvs k = Some v" if "(k, v) \<in> set kvs" for k v using that by simp
  with m' lookup show ?thesis by auto
qed

lemma lookup_deleted: "ok m \<Longrightarrow> \<exists>m'. del m k = Some (abs m k, m') \<and> lookup m' k = Some None"
  using del[of m k] lookup by fastforce

end

interpretation stream_ids: increasing_map stream_map_ok stream_map_abs "\<lambda>m. set (stream_map_keys m)"
    "\<lambda>m k v. grpc_chttp2_stream_map_add m k (Some v)" grpc_chttp2_stream_map_delete grpc_chttp2_stream_map_find
  by unfold_locales (auto intro!: stream_map_add_correct stream_map_delete_correct stream_map_find_correct)


section \<open>What the operations compute\<close>

text \<open>
  C29. A lookup never reads outside the arrays and returns what the map holds for
  the key; a deletion returns the same and removes the key, whether or not it was
  present, and leaves a well-formed map.
\<close>

theorem find_and_delete_refine:
  assumes "stream_map_ok m"
  shows "grpc_chttp2_stream_map_find m key = Some (stream_map_abs m key) \<and>
     (\<exists>m'. grpc_chttp2_stream_map_delete m key = Some (stream_map_abs m key, m') \<and> stream_map_ok m' \<and>
           stream_map_abs m' = (stream_map_abs m)(key := None) \<and>
           grpc_chttp2_stream_map_find m' key = Some None)"
  using stream_ids.lookup[OF assms, of key] stream_ids.del[OF assms, of key] stream_ids.lookup by fastforce

text \<open>
  C28. Adding a key greater than every key the map has held succeeds at any fill, whether the
  arrays have room, are compacted or grow, and updates the map at that key only.
\<close>

theorem add_refines:
  assumes "stream_map_ok m" "\<forall>k \<in> set (stream_map_keys m). k < key"
  shows "\<exists>m'. grpc_chttp2_stream_map_add m key (Some v) = Some m' \<and> stream_map_ok m' \<and>
           stream_map_abs m' = (stream_map_abs m)(key \<mapsto> v)"
  using stream_ids.add[OF assms(1), of key v] assms(2) by blast

text \<open>
  C21. Moving a map into one with smaller live keys never aborts, empties the source
  and gives the destination the union; keys of deleted entries do not matter.
\<close>

theorem move_into_refines:
  assumes "stream_map_ok src" "stream_map_ok dst"
    and "\<forall>k \<in> dom (stream_map_abs dst). \<forall>q \<in> dom (stream_map_abs src). k < q"
  shows "\<exists>src' dst'. grpc_chttp2_stream_map_move_into src dst = Some (src', dst') \<and>
           stream_map_ok src' \<and> stream_map_ok dst' \<and> stream_map_abs src' = Map.empty \<and>
           stream_map_abs dst' = stream_map_abs dst ++ stream_map_abs src"
  using stream_map_move_correct[OF assms(1,2)] assms(3) by blast

text \<open>
  The size is the number of live keys, and iteration calls the function once
  for each of them, in increasing key order, with its value.
\<close>

theorem for_each_and_size:
  assumes "stream_map_ok m"
  shows "grpc_chttp2_stream_map_size m = card (dom (stream_map_abs m)) \<and>
     (\<exists>kvs. grpc_chttp2_stream_map_for_each m f u = Some (fold (\<lambda>(k, v). f k v) kvs u) \<and>
            sorted_wrt (<) (map fst kvs) \<and> map_of kvs = stream_map_abs m)"
proof -
  note m = stream_map_okD[OF assms]
  have len: "length (stream_map_live m) = grpc_chttp2_stream_map_size m"
    using live_length[of "take (sm_count m) (sm_keys m)" "take (sm_count m) (sm_values m)"] m
    by (simp add: grpc_chttp2_stream_map_size_def stream_map_live_def)
  have srt: "sorted_wrt (<) (map fst (stream_map_live m))" by (rule stream_map_live_sorted[OF assms])
  then have "distinct (map fst (stream_map_live m))" by (simp add: strict_sorted_iff)
  then have "card (dom (stream_map_abs m)) = length (map fst (stream_map_live m))"
    unfolding stream_map_dom by (rule distinct_card)
  moreover have "grpc_chttp2_stream_map_for_each m f u = Some (fold (\<lambda>(k, v). f k v) (stream_map_live m) u)"
    using for_each_loop_correct[of "sm_count m" "sm_keys m" "sm_values m" f u] m
    by (simp add: grpc_chttp2_stream_map_for_each_def stream_map_live_def)
  ultimately show ?thesis using len srt by (auto simp: stream_map_abs_def)
qed

definition example_stream_map :: "nat \<Rightarrow> u32 \<Rightarrow> nat stream_map" where
  "example_stream_map v k =
     \<lparr> sm_keys = [k, k + 2], sm_values = [None, Some v], sm_count = 2, sm_free = 1, sm_capacity = 2 \<rparr>"

lemma example_stream_map_ok:
  "stream_map_ok (example_stream_map v 1)" "stream_map_ok (example_stream_map v 5)"
  "stream_map_keys (example_stream_map v k) = [k, k + 2]"
  "stream_map_abs (example_stream_map v k) = [k + 2 \<mapsto> v]"
  by (simp_all add: stream_map_ok_def example_stream_map_def stream_map_keys_def stream_map_abs_def
      stream_map_live_def fun_eq_iff)

theorem find_and_delete_refine_witness:
  "grpc_chttp2_stream_map_find (example_stream_map 7 1) 3 = Some (Some 7) \<and>
   (\<exists>m'. grpc_chttp2_stream_map_delete (example_stream_map 7 1) 3 = Some (Some 7, m') \<and> stream_map_ok m' \<and>
         stream_map_abs m' = [3 \<mapsto> 7](3 := None) \<and> grpc_chttp2_stream_map_find m' 3 = Some None)"
  using find_and_delete_refine[OF example_stream_map_ok(1), of 7 3] by (simp add: example_stream_map_ok(4))

theorem add_refines_witness:
  "\<exists>m'. grpc_chttp2_stream_map_add (example_stream_map 7 1) 5 (Some 8) = Some m' \<and> stream_map_ok m' \<and>
        stream_map_abs m' = [3 \<mapsto> 7, 5 \<mapsto> 8]"
  using add_refines[OF example_stream_map_ok(1), of 7 5 8] by (simp add: example_stream_map_ok(3,4))

theorem move_into_refines_witness:
  "\<exists>src' dst'. grpc_chttp2_stream_map_move_into (example_stream_map 8 5) (example_stream_map 7 1) = Some (src', dst') \<and>
     stream_map_ok src' \<and> stream_map_ok dst' \<and> stream_map_abs src' = Map.empty \<and>
     stream_map_abs dst' = [3 \<mapsto> 7] ++ [7 \<mapsto> 8]"
  using move_into_refines[OF example_stream_map_ok(2,1), of 7 8] by (simp add: example_stream_map_ok(4))

theorem for_each_and_size_witness:
  "grpc_chttp2_stream_map_size (example_stream_map 7 1) = card (dom [(3 :: u32) \<mapsto> (7 :: nat)]) \<and>
   (\<exists>kvs. grpc_chttp2_stream_map_for_each (example_stream_map 7 1) (\<lambda>k v u. u @ [(k, v)]) [] =
            Some (fold (\<lambda>(k, v). (\<lambda>k v u. u @ [(k, v)]) k v) kvs []) \<and>
          sorted_wrt (<) (map fst kvs) \<and> map_of kvs = [3 \<mapsto> 7])"
  using for_each_and_size[OF example_stream_map_ok(1), of 7 "\<lambda>k v u. u @ [(k, v)]" "[]"]
  by (simp only: example_stream_map_ok(4)) simp

end
