(* ===== verification/Hpack_Table.thy ===== *)
theory Hpack_Table
  imports Prelude
begin

text \<open>
  The header table of \<^verbatim>\<open>src/core/transport/chttp2/hpack_table.c\<close>: 61 static
  entries and a ring buffer of dynamic ones, with the accounting of HPACK.

  A metadata element is its key and its value. The code compares strings by
  pointer, which the interning of \<^verbatim>\<open>metadata.c\<close> makes equality of contents. The
  counters are 16 bits wide; C promotes them to \<^verbatim>\<open>int\<close> for arithmetic and
  truncates on assignment.
\<close>

section \<open>Data\<close>

record grpc_mdelem =
  md_key :: bytes
  md_value :: bytes

abbreviation GRPC_CHTTP2_LAST_STATIC_ENTRY :: nat where "GRPC_CHTTP2_LAST_STATIC_ENTRY \<equiv> 61"
abbreviation GRPC_CHTTP2_INITIAL_HPACK_TABLE_SIZE :: nat where "GRPC_CHTTP2_INITIAL_HPACK_TABLE_SIZE \<equiv> 4096"
abbreviation GRPC_CHTTP2_HPACK_ENTRY_OVERHEAD :: nat where "GRPC_CHTTP2_HPACK_ENTRY_OVERHEAD \<equiv> 32"

definition GRPC_CHTTP2_MAX_TABLE_COUNT :: nat where
  "GRPC_CHTTP2_MAX_TABLE_COUNT =
     (GRPC_CHTTP2_INITIAL_HPACK_TABLE_SIZE + GRPC_CHTTP2_HPACK_ENTRY_OVERHEAD - 1) div
     GRPC_CHTTP2_HPACK_ENTRY_OVERHEAD"

definition static_table :: "(string \<times> string) list" where
  "static_table =
     [('':authority'', ''''),
      ('':method'', ''GET''),
      ('':method'', ''POST''),
      ('':path'', ''/''),
      ('':path'', ''/index.html''),
      ('':scheme'', ''http''),
      ('':scheme'', ''https''),
      ('':status'', ''200''),
      ('':status'', ''204''),
      ('':status'', ''206''),
      ('':status'', ''304''),
      ('':status'', ''400''),
      ('':status'', ''404''),
      ('':status'', ''500''),
      (''accept-charset'', ''''),
      (''accept-encoding'', ''gzip, deflate''),
      (''accept-language'', ''''),
      (''accept-ranges'', ''''),
      (''accept'', ''''),
      (''access-control-allow-origin'', ''''),
      (''age'', ''''),
      (''allow'', ''''),
      (''authorization'', ''''),
      (''cache-control'', ''''),
      (''content-disposition'', ''''),
      (''content-encoding'', ''''),
      (''content-language'', ''''),
      (''content-length'', ''''),
      (''content-location'', ''''),
      (''content-range'', ''''),
      (''content-type'', ''''),
      (''cookie'', ''''),
      (''date'', ''''),
      (''etag'', ''''),
      (''expect'', ''''),
      (''expires'', ''''),
      (''from'', ''''),
      (''host'', ''''),
      (''if-match'', ''''),
      (''if-modified-since'', ''''),
      (''if-none-match'', ''''),
      (''if-range'', ''''),
      (''if-unmodified-since'', ''''),
      (''last-modified'', ''''),
      (''link'', ''''),
      (''location'', ''''),
      (''max-forwards'', ''''),
      (''proxy-authenticate'', ''''),
      (''proxy-authorization'', ''''),
      (''range'', ''''),
      (''referer'', ''''),
      (''refresh'', ''''),
      (''retry-after'', ''''),
      (''server'', ''''),
      (''set-cookie'', ''''),
      (''strict-transport-security'', ''''),
      (''transfer-encoding'', ''''),
      (''user-agent'', ''''),
      (''vary'', ''''),
      (''via'', ''''),
      (''www-authenticate'', '''')]"

record grpc_chttp2_hptbl =
  first_ent :: u16
  last_ent :: u16
  num_ents :: u16
  mem_used :: u16
  max_bytes :: u16
  ents :: "grpc_mdelem option list" \<comment> \<open>\<^const>\<open>None\<close> is a null pointer\<close>
  static_ents :: "grpc_mdelem option list"

definition hpack_static_mdelem :: "string \<times> string \<Rightarrow> grpc_mdelem" where
  "hpack_static_mdelem kv = \<lparr> md_key = bytes_of_string (fst kv), md_value = bytes_of_string (snd kv) \<rparr>"

definition grpc_chttp2_hptbl_init :: grpc_chttp2_hptbl where
  "grpc_chttp2_hptbl_init =
     \<lparr> first_ent = 0, last_ent = 0, num_ents = 0, mem_used = 0,
       max_bytes = of_nat GRPC_CHTTP2_INITIAL_HPACK_TABLE_SIZE,
       ents = replicate GRPC_CHTTP2_MAX_TABLE_COUNT None,
       static_ents = map (Some \<circ> hpack_static_mdelem) static_table \<rparr>"

section \<open>Operations\<close>

text \<open>
  Index 0 makes the code read \<^verbatim>\<open>static_ents[-1]\<close>; that read aborts here. The
  result is the returned pointer.
\<close>

definition grpc_chttp2_hptbl_lookup :: "grpc_chttp2_hptbl \<Rightarrow> u32 \<Rightarrow> grpc_mdelem option option" where
  "grpc_chttp2_hptbl_lookup tbl index =
     (if index \<le> of_nat GRPC_CHTTP2_LAST_STATIC_ENTRY then do {
        gpr_assert (index \<noteq> 0);
        c_read (static_ents tbl) (unat index - 1)
      }
      else
        (let index1 = index - of_nat (GRPC_CHTTP2_LAST_STATIC_ENTRY + 1) in
         if index1 < ucast (num_ents tbl) then
           (let offset = (ucast (num_ents tbl) - 1 - index1 + ucast (first_ent tbl)) mod
                         of_nat GRPC_CHTTP2_MAX_TABLE_COUNT in
            c_read (ents tbl) (unat offset))
         else Some None))"

definition hpack_entry_size :: "grpc_mdelem \<Rightarrow> nat" where
  "hpack_entry_size md =
     length (md_key md) + length (md_value md) + GRPC_CHTTP2_HPACK_ENTRY_OVERHEAD"

text \<open>
  Evicting from an empty table would read a slot that is null or holds a released
  element; it aborts.
\<close>

definition evict1 :: "grpc_chttp2_hptbl \<Rightarrow> grpc_chttp2_hptbl option" where
  "evict1 tbl =
     do {
       gpr_assert (num_ents tbl \<noteq> 0);
       e \<leftarrow> c_read (ents tbl) (unat (first_ent tbl));
       e1 \<leftarrow> e;
       Some (tbl\<lparr>mem_used := mem_used tbl - of_nat (hpack_entry_size e1),
                 first_ent := of_nat ((unat (first_ent tbl) + 1) mod GRPC_CHTTP2_MAX_TABLE_COUNT),
                 num_ents := num_ents tbl - 1\<rparr>)
     }"

lemma evict1_num: "evict1 tbl = Some t \<Longrightarrow> unat (num_ents t) < unat (num_ents tbl)"
  by (auto simp: evict1_def bind_eq_Some_conv unat_minus_one unat_gt_0)

text \<open>\<^verbatim>\<open>while (tbl->num_ents) evict1(tbl);\<close>\<close>

function evict_all :: "grpc_chttp2_hptbl \<Rightarrow> grpc_chttp2_hptbl option" where
  "evict_all tbl =
     (if num_ents tbl \<noteq> 0 then do { t \<leftarrow> evict1 tbl; evict_all t } else Some tbl)"
  by auto
termination by (relation "measure (\<lambda>t. unat (num_ents t))") (auto simp: evict1_num)

declare evict_all.simps [simp del]

text \<open>\<^verbatim>\<open>while (elem_bytes > tbl->max_bytes - tbl->mem_used) evict1(tbl);\<close>\<close>

function evict_for :: "u16 \<Rightarrow> grpc_chttp2_hptbl \<Rightarrow> grpc_chttp2_hptbl option" where
  "evict_for elem_bytes tbl =
     (if int (unat elem_bytes) > int (unat (max_bytes tbl)) - int (unat (mem_used tbl))
      then do { t \<leftarrow> evict1 tbl; evict_for elem_bytes t } else Some tbl)"
  by auto
termination by (relation "measure (\<lambda>(_, t). unat (num_ents t))") (auto simp: evict1_num)

declare evict_for.simps [simp del]

definition grpc_chttp2_hptbl_add :: "grpc_chttp2_hptbl \<Rightarrow> grpc_mdelem \<Rightarrow> grpc_chttp2_hptbl option" where
  "grpc_chttp2_hptbl_add tbl md =
     (let elem_bytes = of_nat (hpack_entry_size md) :: u16 in
      if elem_bytes > max_bytes tbl then evict_all tbl
      else do {
        t \<leftarrow> evict_for elem_bytes tbl;
        es \<leftarrow> c_write (ents t) (unat (last_ent t)) (Some md);
        Some (t\<lparr>ents := es,
                last_ent := of_nat ((unat (last_ent t) + 1) mod GRPC_CHTTP2_MAX_TABLE_COUNT),
                num_ents := num_ents t + 1,
                mem_used := mem_used t + elem_bytes\<rparr>)
      })"

text \<open>
  The two loops of \<^verbatim>\<open>grpc_chttp2_hptbl_find\<close>. A result carries the index and
  whether the value matches too; a loop returns it with \<^const>\<open>True\<close> when the code
  returns from inside the loop.
\<close>

type_synonym hptbl_find_result = "u16 \<times> bool"

fun find_static ::
    "grpc_mdelem option list \<Rightarrow> nat \<Rightarrow> grpc_mdelem \<Rightarrow> hptbl_find_result \<Rightarrow> (bool \<times> hptbl_find_result) option" where
  "find_static [] i md r = Some (False, r)"
| "find_static (e # es) i md r =
     do {
       ent \<leftarrow> e;
       (if md_key md \<noteq> md_key ent then find_static es (i + 1) md r
        else
          (let r1 = (of_nat (i + 1), md_value md = md_value ent) in
           if snd r1 then Some (True, r1) else find_static es (i + 1) md r1))
     }"

function find_dynamic ::
    "grpc_chttp2_hptbl \<Rightarrow> nat \<Rightarrow> grpc_mdelem \<Rightarrow> hptbl_find_result \<Rightarrow> (bool \<times> hptbl_find_result) option" where
  "find_dynamic tbl i md r =
     (if i < unat (num_ents tbl) then do {
        let idx = unat (num_ents tbl) - i + GRPC_CHTTP2_LAST_STATIC_ENTRY;
        e \<leftarrow> c_read (ents tbl) ((unat (first_ent tbl) + i) mod GRPC_CHTTP2_MAX_TABLE_COUNT);
        ent \<leftarrow> e;
        (if md_key md \<noteq> md_key ent then find_dynamic tbl (i + 1) md r
         else
           (let r1 = (of_nat idx, md_value md = md_value ent) in
            if snd r1 then Some (True, r1) else find_dynamic tbl (i + 1) md r1))
      }
      else Some (False, r))"
  by auto
termination by (relation "measure (\<lambda>(tbl, i, _, _). unat (num_ents tbl) - i)") auto

declare find_dynamic.simps [simp del]

definition grpc_chttp2_hptbl_find :: "grpc_chttp2_hptbl \<Rightarrow> grpc_mdelem \<Rightarrow> hptbl_find_result option" where
  "grpc_chttp2_hptbl_find tbl md =
     do {
       (found, r) \<leftarrow> find_static (take GRPC_CHTTP2_LAST_STATIC_ENTRY (static_ents tbl)) 0 md (0, False);
       (if found then Some r
        else do { (_, r1) \<leftarrow> find_dynamic tbl 0 md r; Some r1 })
     }"


section \<open>The dynamic table as a list\<close>

text \<open>
  The table HPACK describes (RFC 7541, section 4): entries newest first, and an
  insertion that keeps the newest entries that fit.
\<close>

fun hpack_keep :: "nat \<Rightarrow> grpc_mdelem list \<Rightarrow> grpc_mdelem list" where
  "hpack_keep m [] = []"
| "hpack_keep m (x # xs) =
     (if hpack_entry_size x \<le> m then x # hpack_keep (m - hpack_entry_size x) xs else [])"

definition hpack_insert :: "nat \<Rightarrow> grpc_mdelem \<Rightarrow> grpc_mdelem list \<Rightarrow> grpc_mdelem list" where
  "hpack_insert m e xs = (if m < hpack_entry_size e then [] else e # hpack_keep (m - hpack_entry_size e) xs)"

abbreviation hpack_size :: "grpc_mdelem list \<Rightarrow> nat" where
  "hpack_size xs \<equiv> sum_list (map hpack_entry_size xs)"

lemma hpack_keep_snoc:
  "hpack_keep m (xs @ [x]) = (if hpack_size (xs @ [x]) \<le> m then xs @ [x] else hpack_keep m xs)"
  by (induction xs arbitrary: m) auto

lemma hpack_keep_all: "hpack_size xs \<le> m \<Longrightarrow> hpack_keep m xs = xs"
  by (induction xs arbitrary: m) auto

lemma hpack_keep_size: "hpack_size (hpack_keep m xs) \<le> m"
  by (induction m xs rule: hpack_keep.induct) auto

lemma hpack_size_rev [simp]: "hpack_size (rev xs) = hpack_size xs"
  by (simp flip: rev_map)

lemma hpack_size_length: "32 * length xs \<le> hpack_size xs"
  by (induction xs) (auto simp: hpack_entry_size_def)

section \<open>The invariant of the ring buffer\<close>

text \<open>\<open>xs\<close> lists the dynamic entries, oldest first.\<close>

definition hptbl_rep :: "grpc_chttp2_hptbl \<Rightarrow> grpc_mdelem list \<Rightarrow> bool" where
  "hptbl_rep t xs \<longleftrightarrow>
     length (ents t) = 128 \<and> static_ents t = map (Some \<circ> hpack_static_mdelem) static_table \<and>
     max_bytes t = 4096 \<and> unat (num_ents t) = length xs \<and> length xs \<le> 128 \<and>
     unat (first_ent t) < 128 \<and> unat (last_ent t) = (unat (first_ent t) + length xs) mod 128 \<and>
     unat (mem_used t) = hpack_size xs \<and> hpack_size xs \<le> 4096 \<and>
     (\<forall>i < length xs. ents t ! ((unat (first_ent t) + i) mod 128) = Some (xs ! i))"

lemma max_table_count [simp]: "GRPC_CHTTP2_MAX_TABLE_COUNT = 128"
  by (simp add: GRPC_CHTTP2_MAX_TABLE_COUNT_def)

lemma unat_of_nat_16 [simp]: "n < 65536 \<Longrightarrow> unat (of_nat n :: u16) = n"
  by (simp add: unsigned_of_nat take_bit_nat_eq_self)

lemma hptbl_init_rep: "hptbl_rep grpc_chttp2_hptbl_init []"
  by (simp add: hptbl_rep_def grpc_chttp2_hptbl_init_def)

lemma evict1_rep:
  assumes "hptbl_rep t (x # xs)"
  shows "\<exists>t'. evict1 t = Some t' \<and> hptbl_rep t' xs"
proof -
  from assms have t: "length (ents t) = 128" "unat (num_ents t) = Suc (length xs)" "unat (first_ent t) < 128"
    "unat (mem_used t) = hpack_entry_size x + hpack_size xs" "hpack_entry_size x + hpack_size xs \<le> 4096"
    "length xs < 128" "unat (last_ent t) = (unat (first_ent t) + Suc (length xs)) mod 128"
    and nth: "\<And>i. i < Suc (length xs) \<Longrightarrow> ents t ! ((unat (first_ent t) + i) mod 128) = Some ((x # xs) ! i)"
    by (auto simp: hptbl_rep_def)
  let ?t = "t\<lparr>mem_used := mem_used t - of_nat (hpack_entry_size x),
                 first_ent := of_nat ((unat (first_ent t) + 1) mod 128), num_ents := num_ents t - 1\<rparr>"
  have "ents t ! unat (first_ent t) = Some x" using nth[of 0] t(3) by simp
  moreover have "num_ents t \<noteq> 0" using t(2) by auto
  ultimately have "evict1 t = Some ?t"
    using t(1,3) by (simp add: evict1_def)
  moreover have "hptbl_rep ?t xs"
    unfolding hptbl_rep_def
  proof (intro conjI allI impI)
    show "unat (mem_used ?t) = hpack_size xs"
      using t(4,5) by (simp add: unat_sub word_le_nat_alt)
    show "unat (num_ents ?t) = length xs" using t(2) \<open>num_ents t \<noteq> 0\<close> by (simp add: unat_minus_one)
    fix i assume i: "i < length xs"
    have "unat (first_ent ?t) = (unat (first_ent t) + 1) mod 128" by simp
    then have "(unat (first_ent ?t) + i) mod 128 = (unat (first_ent t) + Suc i) mod 128"
      by (simp add: mod_add_left_eq)
    then show "ents ?t ! ((unat (first_ent ?t) + i) mod 128) = Some (xs ! i)" using nth[of "Suc i"] i by simp
  next
    show "unat (last_ent ?t) = (unat (first_ent ?t) + length xs) mod 128"
      using t(7) by (simp add: mod_add_left_eq)
  qed (use assms t in \<open>auto simp: hptbl_rep_def\<close>)
  ultimately show ?thesis by blast
qed

lemma evict_all_rep: "hptbl_rep t xs \<Longrightarrow> \<exists>t'. evict_all t = Some t' \<and> hptbl_rep t' []"
proof (induction xs arbitrary: t)
  case Nil
  then have "num_ents t = 0" by (simp add: hptbl_rep_def unat_eq_0)
  with Nil show ?case by (subst evict_all.simps) simp
next
  case (Cons x xs)
  from evict1_rep[OF Cons.prems] obtain t' where "evict1 t = Some t'" "hptbl_rep t' xs" by blast
  moreover have "num_ents t \<noteq> 0" using Cons.prems by (auto simp: hptbl_rep_def)
  ultimately show ?case using Cons.IH by (subst evict_all.simps) simp
qed

lemma evict_for_rep:
  assumes "hptbl_rep t xs" "unat b \<le> 4096"
  shows "\<exists>t'. evict_for b t = Some t' \<and> hptbl_rep t' (rev (hpack_keep (4096 - unat b) (rev xs)))"
  using assms(1)
proof (induction xs arbitrary: t)
  case Nil
  then have m: "unat (mem_used t) = 0" "unat (max_bytes t) = 4096" by (simp_all add: hptbl_rep_def)
  with assms(2) have "\<not> int (unat b) > int (unat (max_bytes t)) - int (unat (mem_used t))" by linarith
  with Nil show ?case by (subst evict_for.simps) simp
next
  case (Cons x xs)
  have m: "unat (mem_used t) = hpack_size (x # xs)" "unat (max_bytes t) = 4096"
    using Cons.prems by (simp_all add: hptbl_rep_def)
  have keep: "hpack_keep (4096 - unat b) (rev (x # xs)) =
      (if hpack_size (x # xs) \<le> 4096 - unat b then rev (x # xs) else hpack_keep (4096 - unat b) (rev xs))"
    using hpack_keep_snoc[of "4096 - unat b" "rev xs" x] by (simp add: rev_map add.commute)
  show ?case
  proof (cases "hpack_size (x # xs) \<le> 4096 - unat b")
    case True
    with m assms(2) have "\<not> int (unat b) > int (unat (max_bytes t)) - int (unat (mem_used t))" by linarith
    with Cons.prems True keep show ?thesis by (subst evict_for.simps) simp
  next
    case False
    with m assms(2) have c: "int (unat b) > int (unat (max_bytes t)) - int (unat (mem_used t))" by linarith
    from evict1_rep[OF Cons.prems] obtain t' where "evict1 t = Some t'" "hptbl_rep t' xs" by blast
    with Cons.IH[of t'] c False keep show ?thesis by (subst evict_for.simps) simp
  qed
qed

lemma ring_slots: "i < n \<Longrightarrow> n < 128 \<Longrightarrow> (f + i) mod 128 \<noteq> (f + n) mod 128" for f i n :: nat
  using mod_eq_dvd_iff_nat[of "f + i" "f + n" 128] nat_dvd_not_less[of "n - i" 128] by auto

lemma hptbl_push_rep:
  assumes "hptbl_rep t xs" "hpack_size xs + hpack_entry_size md \<le> 4096"
  defines "t' \<equiv> t\<lparr>ents := (ents t)[unat (last_ent t) := Some md],
                last_ent := of_nat ((unat (last_ent t) + 1) mod 128),
                num_ents := num_ents t + 1, mem_used := mem_used t + of_nat (hpack_entry_size md)\<rparr>"
  shows "hptbl_rep t' (xs @ [md])"
proof -
  from assms(1) have t: "length (ents t) = 128" "unat (num_ents t) = length xs" "unat (first_ent t) < 128"
    "unat (mem_used t) = hpack_size xs" "unat (last_ent t) = (unat (first_ent t) + length xs) mod 128"
    and nth: "\<And>i. i < length xs \<Longrightarrow> ents t ! ((unat (first_ent t) + i) mod 128) = Some (xs ! i)"
    by (auto simp: hptbl_rep_def)
  have len: "length xs < 128"
    using hpack_size_length[of xs] assms(2) by (auto simp: hpack_entry_size_def)
  show ?thesis
    unfolding hptbl_rep_def
  proof (intro conjI allI impI)
    show "unat (num_ents t') = length (xs @ [md])"
      using t(2) len by (simp add: t'_def unat_word_ariths)
    show "unat (mem_used t') = hpack_size (xs @ [md])"
      using t(4) assms(2) by (simp add: t'_def unat_word_ariths)
    show "unat (last_ent t') = (unat (first_ent t') + length (xs @ [md])) mod 128"
      using t(5) by (simp add: t'_def mod_add_left_eq add.assoc mod_Suc_eq)
    fix i assume i: "i < length (xs @ [md])"
    show "ents t' ! ((unat (first_ent t') + i) mod 128) = Some ((xs @ [md]) ! i)"
    proof (cases "i = length xs")
      case True
      then show ?thesis using t by (simp add: t'_def)
    next
      case False
      with i have i': "i < length xs" by simp
      have "(unat (first_ent t) + i) mod 128 \<noteq> (unat (first_ent t) + length xs) mod 128"
        using i' len by (rule ring_slots)
      then show ?thesis using nth[OF i'] i' t by (simp add: t'_def nth_append)
    qed
  qed (use assms(1,2) len in \<open>auto simp: t'_def hptbl_rep_def\<close>)
qed


section \<open>The operations on the list\<close>

text \<open>The dynamic entries of a state, newest first, and the invariant.\<close>

definition hptbl_entries :: "grpc_chttp2_hptbl \<Rightarrow> grpc_mdelem list" where
  "hptbl_entries t =
     rev (map (\<lambda>i. the (ents t ! ((unat (first_ent t) + i) mod 128))) [0..<unat (num_ents t)])"

definition hptbl_ok :: "grpc_chttp2_hptbl \<Rightarrow> bool" where
  "hptbl_ok t \<longleftrightarrow> hptbl_rep t (rev (hptbl_entries t))"

lemma hptbl_rep_entries: "hptbl_rep t xs \<Longrightarrow> hptbl_entries t = rev xs"
  by (auto simp: hptbl_rep_def hptbl_entries_def intro!: nth_equalityI)

lemma hptbl_rep_ok: "hptbl_rep t xs \<Longrightarrow> hptbl_ok t"
  by (simp add: hptbl_ok_def hptbl_rep_entries)

lemma static_table_length [simp]: "length static_table = 61"
  by (simp add: static_table_def)

lemma hptbl_add_rep:
  assumes "hptbl_rep t xs" "hpack_entry_size md < 65536"
  shows "\<exists>t'. grpc_chttp2_hptbl_add t md = Some t' \<and> hptbl_rep t' (rev (hpack_insert 4096 md (rev xs)))"
proof -
  let ?b = "of_nat (hpack_entry_size md) :: u16"
  have b: "unat ?b = hpack_entry_size md" using assms(2) by simp
  have max: "max_bytes t = 4096" using assms(1) by (simp add: hptbl_rep_def)
  show ?thesis
  proof (cases "4096 < hpack_entry_size md")
    case True
    then have "max_bytes t < ?b" using b max by (simp add: word_less_nat_alt)
    with True evict_all_rep[OF assms(1)] show ?thesis
      by (simp add: grpc_chttp2_hptbl_add_def hpack_insert_def)
  next
    case False
    then have "\<not> max_bytes t < ?b" using b max by (simp add: word_less_nat_alt)
    moreover from False b have "unat ?b \<le> 4096" by simp
    from evict_for_rep[OF assms(1) this] obtain t1 where
      t1: "evict_for ?b t = Some t1" "hptbl_rep t1 (rev (hpack_keep (4096 - hpack_entry_size md) (rev xs)))"
      using b by auto
    moreover have "length (ents t1) = 128" "unat (last_ent t1) < 128"
      using t1(2) by (auto simp: hptbl_rep_def)
    moreover have "hpack_size (rev (hpack_keep (4096 - hpack_entry_size md) (rev xs))) + hpack_entry_size md \<le> 4096"
      using hpack_keep_size[of "4096 - hpack_entry_size md" "rev xs"] False by simp
    note push = hptbl_push_rep[OF t1(2) this]
    ultimately show ?thesis using False
      by (simp add: grpc_chttp2_hptbl_add_def hpack_insert_def)
  qed
qed

lemma hptbl_lookup_rep:
  assumes "hptbl_rep t xs"
  shows "grpc_chttp2_hptbl_lookup t index =
     (if index = 0 then None
      else if unat index \<le> 61 then Some (Some (hpack_static_mdelem (static_table ! (unat index - 1))))
      else if unat index - 62 < length xs then Some (Some (rev xs ! (unat index - 62)))
      else Some None)"
proof (cases "unat index \<le> 61")
  case True
  then have "index \<le> 61" by (simp add: word_le_nat_alt)
  moreover have "index \<noteq> 0 \<Longrightarrow> unat index - 1 < 61" using True by (simp add: unat_gt_0)
  ultimately show ?thesis using True assms
    by (auto simp: grpc_chttp2_hptbl_lookup_def hptbl_rep_def unat_gt_0)
next
  case False
  then have big: "\<not> index \<le> 61" "index \<noteq> 0" by (auto simp: word_le_nat_alt)
  let ?i = "index - 62"
  have i: "unat ?i = unat index - 62" using False by (simp add: unat_sub word_le_nat_alt)
  have n: "unat (ucast (num_ents t) :: u32) = length xs" "unat (ucast (first_ent t) :: u32) = unat (first_ent t)"
    using assms by (simp_all add: hptbl_rep_def unsigned_ucast_eq take_bit_nat_eq_self
        order.strict_trans1[OF less_imp_le[OF unsigned_less[where 'b = 16]]])
  show ?thesis
  proof (cases "unat index - 62 < length xs")
    case True
    let ?off = "(ucast (num_ents t) - 1 - ?i + ucast (first_ent t) :: u32)"
    have len: "length xs \<le> 128" "unat (first_ent t) < 128" "length (ents t) = 128" using assms by (auto simp: hptbl_rep_def)
    have one: "unat (ucast (num_ents t) - 1 :: u32) = length xs - 1"
      using n(1) True by (simp add: unat_sub word_le_nat_alt)
    have two: "unat (ucast (num_ents t) - 1 - ?i :: u32) = length xs - 1 - (unat index - 62)"
      using one True i by (subst unat_sub) (auto simp: word_le_nat_alt)
    have sum: "unat ?off = unat (first_ent t) + (length xs - 1 - (unat index - 62))"
      using two n(2) len by (simp add: unat_word_ariths)
    have "unat (128 :: u32) = 128" by simp
    then have off: "unat (?off mod 128) = (unat (first_ent t) + (length xs - 1 - (unat index - 62))) mod 128"
      by (simp only: unat_mod sum)
    have "ents t ! unat (?off mod 128) = Some (xs ! (length xs - 1 - (unat index - 62)))"
    proof -
      have nth: "\<And>i. i < length xs \<Longrightarrow> ents t ! ((unat (first_ent t) + i) mod 128) = Some (xs ! i)"
        using assms by (simp add: hptbl_rep_def)
      show ?thesis unfolding off by (rule nth) (use True in auto)
    qed
    moreover have "xs ! (length xs - 1 - (unat index - 62)) = rev xs ! (unat index - 62)"
      using True by (simp add: rev_nth)
    moreover have "?i < ucast (num_ents t)" using True i n by (simp add: word_less_nat_alt)
    moreover have "unat (?off mod 128) < length (ents t)" unfolding off using len by simp
    ultimately show ?thesis using big False True
      by (simp add: grpc_chttp2_hptbl_lookup_def Let_def)
  next
    case no: False
    then have "\<not> ?i < ucast (num_ents t)" using i n by (simp add: word_less_nat_alt)
    with big False no show ?thesis by (simp add: grpc_chttp2_hptbl_lookup_def)
  qed
qed

text \<open>Both loops of a search, on a list of entries whose \<open>j\<close>th has index \<open>f j\<close>.\<close>

fun find_entries ::
    "(nat \<Rightarrow> nat) \<Rightarrow> grpc_mdelem list \<Rightarrow> nat \<Rightarrow> grpc_mdelem \<Rightarrow> hptbl_find_result \<Rightarrow> bool \<times> hptbl_find_result" where
  "find_entries f [] i md r = (False, r)"
| "find_entries f (e # es) i md r =
     (if md_key md \<noteq> md_key e then find_entries f es (i + 1) md r
      else if md_value md = md_value e then (True, of_nat (f i), True)
      else find_entries f es (i + 1) md (of_nat (f i), False))"

lemma find_static_entries:
  "find_static (map Some es) i md r = Some (find_entries Suc es i md r)"
  by (induction es arbitrary: i r) auto

lemma find_dynamic_entries:
  assumes "hptbl_rep t xs" "i \<le> length xs"
  shows "find_dynamic t i md r = Some (find_entries (\<lambda>j. length xs - j + 61) (drop i xs) i md r)"
  using assms(2)
proof (induction "length xs - i" arbitrary: i r)
  case 0
  then show ?case using assms(1) by (subst find_dynamic.simps) (simp add: hptbl_rep_def)
next
  case (Suc d)
  have i: "i < length xs" "d = length xs - Suc i" using Suc.hyps(2) by simp_all
  have n: "unat (num_ents t) = length xs" "length (ents t) = 128" using assms(1) by (simp_all add: hptbl_rep_def)
  have e: "ents t ! ((unat (first_ent t) + i) mod 128) = Some (xs ! i)" using assms(1) i by (simp add: hptbl_rep_def)
  have "drop i xs = xs ! i # drop (Suc i) xs" using i by (simp add: Cons_nth_drop_Suc)
  with e n i Suc.hyps(1)[OF i(2)] show ?case by (subst find_dynamic.simps) simp
qed

lemma find_entries_correct:
  "\<exists>ix hv. find_entries f es i md (ix0, False) = (hv, ix, hv) \<and>
     (hv \<longrightarrow> (\<exists>j < length es. ix = of_nat (f (i + j)) \<and> es ! j = md)) \<and>
     (\<not> hv \<longrightarrow> md \<notin> set es \<and>
        (ix = ix0 \<and> md_key md \<notin> md_key ` set es \<or>
         (\<exists>j < length es. ix = of_nat (f (i + j)) \<and> md_key (es ! j) = md_key md)))"
proof (induction es arbitrary: i ix0)
  case (Cons e es)
  have ex: "(\<exists>j < Suc n. P j) \<longleftrightarrow> P 0 \<or> (\<exists>j < n. P (Suc j))" for P n by (rule Ex_less_Suc2)
  show ?case
  proof (cases "md_key md = md_key e")
    case True
    show ?thesis
    proof (cases "md_value md = md_value e")
      case val: True
      have "md = e" using True val by simp
      then show ?thesis by (auto simp: ex)
    next
      case False
      then have "md \<noteq> e" by auto
      with Cons.IH[of "Suc i" "of_nat (f i)"] True False show ?thesis by (auto simp: ex)
    qed
  next
    case False
    then have "md \<noteq> e" by auto
    with Cons.IH[of "Suc i" ix0] False show ?thesis by (auto simp: ex)
  qed
next
  case Nil
  show ?case by (intro exI[of _ ix0] exI[of _ False]) simp
qed

section \<open>What the table computes\<close>

lemma hptbl_okE:
  assumes "hptbl_ok t"
  obtains xs where "hptbl_rep t xs" "hptbl_entries t = rev xs"
  using assms by (auto simp: hptbl_ok_def)

text \<open>
  C20. Adding an element to a well-formed table is the insertion HPACK prescribes, on
  the list of dynamic entries, for an element of less than 65536 bytes (its size is kept in
  16 bits): an element larger than the table empties it, any other
  evicts only as many of the oldest entries as needed. Every counter stays exact, so the
  ring buffer never overflows.
\<close>

theorem hptbl_add_refines:
  assumes "hptbl_ok t" "hpack_entry_size md < 65536"
  shows "\<exists>t'. grpc_chttp2_hptbl_add t md = Some t' \<and> hptbl_ok t' \<and>
           hptbl_entries t' = hpack_insert 4096 md (hptbl_entries t) \<and>
           unat (mem_used t') = hpack_size (hptbl_entries t') \<and> hpack_size (hptbl_entries t') \<le> 4096"
proof -
  from assms(1) obtain xs where xs: "hptbl_rep t xs" "hptbl_entries t = rev xs" by (rule hptbl_okE)
  from hptbl_add_rep[OF xs(1) assms(2)] obtain t' where
    t': "grpc_chttp2_hptbl_add t md = Some t'" "hptbl_rep t' (rev (hpack_insert 4096 md (rev xs)))" by blast
  from hptbl_rep_entries[OF t'(2)] t' hptbl_rep_ok[OF t'(2)] xs(2) show ?thesis
    by (auto simp: hptbl_rep_def)
qed

text \<open>
  C27. A lookup on a well-formed table returns the static entry for an index up to
  61, the dynamic entry that many places from the newest for the indices after it,
  and null for an index past the table. Index 0 reads before the static array.
\<close>

theorem hptbl_lookup_correct:
  assumes "hptbl_ok t"
  shows "grpc_chttp2_hptbl_lookup t index =
     (if index = 0 then None
      else if unat index \<le> 61 then Some (Some (hpack_static_mdelem (static_table ! (unat index - 1))))
      else if unat index - 62 < length (hptbl_entries t) then Some (Some (hptbl_entries t ! (unat index - 62)))
      else Some None)"
proof -
  from assms obtain xs where xs: "hptbl_rep t xs" "hptbl_entries t = rev xs" by (rule hptbl_okE)
  show ?thesis using hptbl_lookup_rep[OF xs(1)] xs(2) by simp
qed

lemma unat_ucast_16: "unat (ucast (x :: u16) :: u32) = unat x"
  using unsigned_less[of x, where 'a = nat] by (simp add: unsigned_ucast_eq take_bit_nat_eq_self)

text \<open>
  C26. A search agrees with lookup: an index returned with a matching value looks up
  to the element itself, an index returned without one looks up to an element with
  the same key, and index 0 is returned only when no entry has the key.
\<close>

theorem hptbl_find_lookup:
  assumes "hptbl_ok t"
  shows "\<exists>ix hv. grpc_chttp2_hptbl_find t md = Some (ix, hv) \<and>
     (hv \<longrightarrow> grpc_chttp2_hptbl_lookup t (ucast ix) = Some (Some md)) \<and>
     (\<not> hv \<longrightarrow> md \<notin> set (map hpack_static_mdelem static_table @ hptbl_entries t)) \<and>
     (\<not> hv \<and> ix \<noteq> 0 \<longrightarrow>
        (\<exists>e. grpc_chttp2_hptbl_lookup t (ucast ix) = Some (Some e) \<and> md_key e = md_key md)) \<and>
     (ix = 0 \<longrightarrow> md_key md \<notin> md_key ` set (map hpack_static_mdelem static_table @ hptbl_entries t))"
proof -
  from assms obtain xs where xs: "hptbl_rep t xs" "hptbl_entries t = rev xs" by (rule hptbl_okE)
  let ?st = "map hpack_static_mdelem static_table"
  have len: "length xs \<le> 128" using xs(1) by (simp add: hptbl_rep_def)
  have st: "find_static (take GRPC_CHTTP2_LAST_STATIC_ENTRY (static_ents t)) 0 md r = Some (find_entries Suc ?st 0 md r)" for r
    using xs(1) find_static_entries[of ?st 0 md r] by (simp add: hptbl_rep_def comp_def)
  have dy: "find_dynamic t 0 md r = Some (find_entries (\<lambda>j. length xs - j + 61) xs 0 md r)" for r
    using find_dynamic_entries[OF xs(1), of 0] by simp
  have look_st: "grpc_chttp2_hptbl_lookup t (ucast (of_nat (Suc j) :: u16)) = Some (Some (?st ! j))"
    "of_nat (Suc j) \<noteq> (0 :: u16)" if "j < length ?st" for j
    using that hptbl_lookup_rep[OF xs(1), of "ucast (of_nat (Suc j) :: u16)"]
    by (auto simp: unat_ucast_16 unat_eq_0[symmetric] simp del: of_nat_Suc)
  have look_dy: "grpc_chttp2_hptbl_lookup t (ucast (of_nat (length xs - j + 61) :: u16)) = Some (Some (xs ! j))"
    "of_nat (length xs - j + 61) \<noteq> (0 :: u16)" if "j < length xs" for j
    using that len hptbl_lookup_rep[OF xs(1), of "ucast (of_nat (length xs - j + 61) :: u16)"]
    by (auto simp: unat_ucast_16 unat_eq_0[symmetric] rev_nth simp del: of_nat_add of_nat_diff)
  from find_entries_correct[of Suc ?st 0 md 0] obtain ix hv where
    s: "find_entries Suc ?st 0 md (0, False) = (hv, ix, hv)"
      "hv \<Longrightarrow> \<exists>j < length ?st. ix = of_nat (Suc j) \<and> ?st ! j = md"
      "\<not> hv \<Longrightarrow> md \<notin> set ?st \<and>
         (ix = 0 \<and> md_key md \<notin> md_key ` set ?st \<or>
          (\<exists>j < length ?st. ix = of_nat (Suc j) \<and> md_key (?st ! j) = md_key md))"
    unfolding add_0 by blast
  show ?thesis
  proof (cases hv)
    case True
    from s(2)[OF True] obtain j where j: "j < length ?st" "ix = of_nat (Suc j)" "?st ! j = md" by blast
    with look_st[OF j(1)] s(1) True show ?thesis
      by (intro exI[of _ ix] exI[of _ True]) (simp add: grpc_chttp2_hptbl_find_def st del: of_nat_Suc)
  next
    case False
    from find_entries_correct[of "\<lambda>j. length xs - j + 61" xs 0 md ix] obtain ix' hv' where
      d: "find_entries (\<lambda>j. length xs - j + 61) xs 0 md (ix, False) = (hv', ix', hv')"
        "hv' \<Longrightarrow> \<exists>j < length xs. ix' = of_nat (length xs - j + 61) \<and> xs ! j = md"
        "\<not> hv' \<Longrightarrow> md \<notin> set xs \<and>
           (ix' = ix \<and> md_key md \<notin> md_key ` set xs \<or>
            (\<exists>j < length xs. ix' = of_nat (length xs - j + 61) \<and> md_key (xs ! j) = md_key md))"
      unfolding add_0 by blast
    have res: "grpc_chttp2_hptbl_find t md = Some (ix', hv')"
      using s(1) d(1) False by (simp add: grpc_chttp2_hptbl_find_def st dy)
    have mem: "e \<in> set (map hpack_static_mdelem static_table @ hptbl_entries t) \<longleftrightarrow> e \<in> set ?st \<or> e \<in> set xs" for e
      using xs(2) by simp
    show ?thesis
    proof (cases hv')
      case True
      from d(2)[OF True] obtain j where j: "j < length xs" "ix' = of_nat (length xs - j + 61)" "xs ! j = md" by blast
      from look_dy[OF j(1)] have "grpc_chttp2_hptbl_lookup t (ucast ix') = Some (Some md)" "ix' \<noteq> 0"
        unfolding j(2,3) by blast+
      with res True show ?thesis by (intro exI[of _ ix'] exI[of _ True]) simp
    next
      case no: False
      have not_in: "md \<notin> set (map hpack_static_mdelem static_table @ hptbl_entries t)"
        unfolding mem using s(3)[OF False] d(3)[OF no] by blast
      have key: "(ix' \<noteq> 0 \<and> (\<exists>e. grpc_chttp2_hptbl_lookup t (ucast ix') = Some (Some e) \<and> md_key e = md_key md)) \<or>
          (ix' = 0 \<and> md_key md \<notin> md_key ` set ?st \<and> md_key md \<notin> md_key ` set xs)"
      proof -
        from d(3)[OF no] consider "ix' = ix" "md_key md \<notin> md_key ` set xs"
          | j where "j < length xs" "ix' = of_nat (length xs - j + 61)" "md_key (xs ! j) = md_key md"
          by blast
        then show ?thesis
        proof cases
          case 1
          from s(3)[OF False] consider "ix = 0" "md_key md \<notin> md_key ` set ?st"
            | j where "j < length ?st" "ix = of_nat (Suc j)" "md_key (?st ! j) = md_key md" by blast
          then show ?thesis
          proof cases
            case 1
            with \<open>ix' = ix\<close> \<open>md_key md \<notin> md_key ` set xs\<close> show ?thesis by blast
          next
            case (2 j)
            from look_st[OF 2(1)] 2(3) show ?thesis unfolding \<open>ix' = ix\<close> 2(2) by blast
          qed
        next
          case (2 j)
          from look_dy[OF 2(1)] 2(3) show ?thesis unfolding 2(2) by blast
        qed
      qed
      have key': "md_key md \<notin> md_key ` set (map hpack_static_mdelem static_table @ hptbl_entries t)" if "ix' = 0"
        using key that xs(2) by (auto simp only: set_append image_Un set_rev)
      have "grpc_chttp2_hptbl_find t md = Some (ix', False)" using res no by simp
      with not_in key key' show ?thesis
        by (intro exI[of _ ix'] exI[of _ False]) blast
    qed
  qed
qed

text \<open>
  C34. The size of an element is truncated to 16 bits before it is compared with the
  table: an element of 65536 bytes counts as 0, is added to any table that has a
  free slot, and raises the number of entries without the memory accounting.
\<close>

theorem hptbl_add_truncates:
  assumes "hptbl_ok t" "hpack_entry_size md = 65536"
  shows "\<exists>t'. grpc_chttp2_hptbl_add t md = Some t' \<and> mem_used t' = mem_used t \<and>
           num_ents t' = num_ents t + 1"
proof -
  from assms(1) obtain xs where "hptbl_rep t xs" by (rule hptbl_okE)
  then have t: "length (ents t) = 128" "unat (last_ent t) < 128" "unat (mem_used t) \<le> 4096" "max_bytes t = 4096"
    by (auto simp: hptbl_rep_def)
  have b: "(of_nat (hpack_entry_size md) :: u16) = 0"
    unfolding assms(2) by simp
  have "\<not> int (unat (0 :: u16)) > int (unat (max_bytes t)) - int (unat (mem_used t))"
  proof -
    have "unat (max_bytes t) = 4096" "unat (0 :: u16) = 0" using t(4) by simp_all
    with t(3) show ?thesis by linarith
  qed
  then have "evict_for 0 t = Some t" by (subst evict_for.simps) simp
  with t show ?thesis by (simp add: grpc_chttp2_hptbl_add_def b)
qed


text \<open>An example table: one element added to the initial one.\<close>

definition example_mdelem :: grpc_mdelem where
  "example_mdelem = \<lparr> md_key = [0x61], md_value = [0x62, 0x63] \<rparr>"

definition example_hptbl :: grpc_chttp2_hptbl where
  "example_hptbl =
     grpc_chttp2_hptbl_init\<lparr>ents := Some example_mdelem # replicate 127 None, last_ent := 1, num_ents := 1, mem_used := 35\<rparr>"

lemma example_hptbl_ok: "hptbl_ok example_hptbl" "hptbl_entries example_hptbl = [example_mdelem]"
proof -
  have "hptbl_rep example_hptbl [example_mdelem]"
    by (simp add: hptbl_rep_def example_hptbl_def grpc_chttp2_hptbl_init_def example_mdelem_def hpack_entry_size_def)
  from hptbl_rep_ok[OF this] hptbl_rep_entries[OF this]
  show "hptbl_ok example_hptbl" "hptbl_entries example_hptbl = [example_mdelem]" by simp_all
qed

theorem hptbl_add_refines_witness:
  "\<exists>t'. grpc_chttp2_hptbl_add example_hptbl example_mdelem = Some t' \<and> hptbl_ok t' \<and>
     hptbl_entries t' = hpack_insert 4096 example_mdelem [example_mdelem] \<and>
     unat (mem_used t') = hpack_size (hptbl_entries t') \<and> hpack_size (hptbl_entries t') \<le> 4096"
  using hptbl_add_refines[OF example_hptbl_ok(1), of example_mdelem]
  by (simp add: example_hptbl_ok(2) example_mdelem_def hpack_entry_size_def)

theorem hptbl_lookup_correct_witness:
  "grpc_chttp2_hptbl_lookup example_hptbl 62 = Some (Some example_mdelem)"
  using hptbl_lookup_correct[OF example_hptbl_ok(1), of 62] by (simp add: example_hptbl_ok(2))

theorem hptbl_find_lookup_witness:
  "\<exists>ix hv. grpc_chttp2_hptbl_find example_hptbl example_mdelem = Some (ix, hv) \<and>
     (hv \<longrightarrow> grpc_chttp2_hptbl_lookup example_hptbl (ucast ix) = Some (Some example_mdelem)) \<and>
     (\<not> hv \<longrightarrow> example_mdelem \<notin> set (map hpack_static_mdelem static_table @ [example_mdelem]))"
  using hptbl_find_lookup[OF example_hptbl_ok(1), of example_mdelem] unfolding example_hptbl_ok(2) by blast

theorem hptbl_add_truncates_witness:
  "\<exists>t'. grpc_chttp2_hptbl_add example_hptbl \<lparr> md_key = replicate 65504 0, md_value = [] \<rparr> = Some t' \<and>
     mem_used t' = mem_used example_hptbl \<and> num_ents t' = num_ents example_hptbl + 1"
  by (rule hptbl_add_truncates[OF example_hptbl_ok(1)]) (simp add: hpack_entry_size_def)

end
