(* ===== verification/Hpack_Parser.thy ===== *)
theory Hpack_Parser
  imports Hpack_Huffman Hpack_Table
begin

text \<open>
  The HPACK parser of \<^verbatim>\<open>src/core/transport/chttp2/hpack_parser.c\<close>: a record for
  the parser object, one definition per C function, and the run of its tail calls.

  A function pointer is a constructor of \<open>grpc_chttp2_hpack_parser_state\<close>; a call
  in tail position is the outcome \<open>Hpack_call\<close>, and \<open>hpack_run\<close> performs the calls
  until a function returns. The bytes between \<open>cur\<close> and \<open>end\<close> are a list. Logging
  and reference counts are left out.
\<close>

section \<open>Data\<close>

record grpc_chttp2_hpack_parser_string =
  str :: bytes \<comment> \<open>the allocated buffer\<close>
  string_length :: u32
  capacity :: u32

datatype binary_state = NOT_BINARY | B64_BYTE0 | B64_BYTE1 | B64_BYTE2 | B64_BYTE3

datatype grpc_chttp2_hpack_parser_state =
    Parse_begin
  | Parse_error
  | Parse_stream_weight
  | Parse_stream_dep3
  | Parse_stream_dep2
  | Parse_stream_dep1
  | Parse_stream_dep0
  | Parse_indexed_field
  | Parse_indexed_field_x
  | Parse_lithdr_incidx
  | Parse_lithdr_incidx_x
  | Parse_lithdr_incidx_v
  | Parse_lithdr_notidx
  | Parse_lithdr_notidx_x
  | Parse_lithdr_notidx_v
  | Parse_lithdr_nvridx
  | Parse_lithdr_nvridx_x
  | Parse_lithdr_nvridx_v
  | Parse_max_tbl_size
  | Parse_max_tbl_size_x
  | Finish_indexed_field
  | Finish_lithdr_incidx
  | Finish_lithdr_incidx_v
  | Finish_lithdr_notidx
  | Finish_lithdr_notidx_v
  | Finish_lithdr_nvridx
  | Finish_lithdr_nvridx_v
  | Finish_max_tbl_size
  | Parse_value0
  | Parse_value1
  | Parse_value2
  | Parse_value3
  | Parse_value4
  | Parse_value5up
  | Parse_string_prefix
  | Parse_string
  | Parse_key_string
  | Parse_value_string_with_indexed_key
  | Parse_value_string_with_literal_key
  | Parse_next \<comment> \<open>called, but never stored in the parser\<close>

text \<open>
  The union \<open>parsing\<close>: a pointer to one of the parser's integers, or to one of
  its strings.
\<close>

datatype hpack_parsing =
    Parsing_index
  | Parsing_strlen
  | Parsing_key
  | Parsing_value

text \<open>
  \<open>on_header\<close> takes the user data and the element and gives the user data after
  the call, or \<^const>\<open>None\<close> when it aborts.
\<close>

record 'u grpc_chttp2_hpack_parser =
  on_header :: "'u option \<Rightarrow> grpc_mdelem \<Rightarrow> 'u option option"
  on_header_user_data :: "'u option"
  state :: grpc_chttp2_hpack_parser_state
  next_state :: "grpc_chttp2_hpack_parser_state list" \<comment> \<open>the rest of the array it points into\<close>
  after_prioritization :: grpc_chttp2_hpack_parser_state
  parsing :: hpack_parsing
  key :: grpc_chttp2_hpack_parser_string
  "value" :: grpc_chttp2_hpack_parser_string
  index :: u32
  strlen :: u32
  strgot :: u32
  huff_state :: nat
  binary :: binary_state
  huff :: u8
  is_boundary :: u8
  is_eof :: u8
  base64_buffer :: u32
  table :: grpc_chttp2_hptbl

text \<open>
  How a run can end other than by returning: it dereferences a null element, it
  calls \<^verbatim>\<open>abort()\<close> (itself, in the callback or in a failed assertion), it writes
  past a string buffer because a 32-bit length wrapped, the accounting of the
  table is broken, or it uses memory it must not (an array read past its end, the
  wrong member of the union).
\<close>

datatype hpack_fault =
    Hpack_null_element
  | Hpack_abort
  | Hpack_string_overflow
  | Hpack_table_fault
  | Hpack_undefined

datatype 'u hpack_out =
    Hpack_return bool "'u grpc_chttp2_hpack_parser"
  | Hpack_call grpc_chttp2_hpack_parser_state "'u grpc_chttp2_hpack_parser" bytes

type_synonym 'u hpack_step = "hpack_fault + 'u hpack_out"

definition hpack_try :: "'e + 'a \<Rightarrow> ('a \<Rightarrow> 'e + 'b) \<Rightarrow> 'e + 'b" where
  "hpack_try x f = (case x of Inl e \<Rightarrow> Inl e | Inr y \<Rightarrow> f y)"

lemma hpack_try_simps [simp]:
  "hpack_try (Inl e) f = Inl e"
  "hpack_try (Inr y) f = f y"
  by (simp_all add: hpack_try_def)

definition hpack_fault_if_none :: "'e \<Rightarrow> 'a option \<Rightarrow> 'e + 'a" where
  "hpack_fault_if_none e x = (case x of None \<Rightarrow> Inl e | Some y \<Rightarrow> Inr y)"

lemma hpack_fault_if_none_simps [simp]:
  "hpack_fault_if_none e None = Inl e"
  "hpack_fault_if_none e (Some y) = Inr y"
  by (simp_all add: hpack_fault_if_none_def)

abbreviation hpack_suspend ::
    "grpc_chttp2_hpack_parser_state \<Rightarrow> 'u grpc_chttp2_hpack_parser \<Rightarrow> 'u hpack_step" where
  "hpack_suspend s p \<equiv> Inr (Hpack_return True (p\<lparr>state := s\<rparr>))"

section \<open>The first byte of a field\<close>

datatype first_byte_type =
    INDEXED_FIELD
  | INDEXED_FIELD_X
  | LITHDR_INCIDX
  | LITHDR_INCIDX_X
  | LITHDR_INCIDX_V
  | LITHDR_NOTIDX
  | LITHDR_NOTIDX_X
  | LITHDR_NOTIDX_V
  | LITHDR_NVRIDX
  | LITHDR_NVRIDX_X
  | LITHDR_NVRIDX_V
  | MAX_TBL_SIZE
  | MAX_TBL_SIZE_X
  | ILLEGAL

fun first_byte_action :: "first_byte_type \<Rightarrow> grpc_chttp2_hpack_parser_state" where
  "first_byte_action INDEXED_FIELD = Parse_indexed_field"
| "first_byte_action INDEXED_FIELD_X = Parse_indexed_field_x"
| "first_byte_action LITHDR_INCIDX = Parse_lithdr_incidx"
| "first_byte_action LITHDR_INCIDX_X = Parse_lithdr_incidx_x"
| "first_byte_action LITHDR_INCIDX_V = Parse_lithdr_incidx_v"
| "first_byte_action LITHDR_NOTIDX = Parse_lithdr_notidx"
| "first_byte_action LITHDR_NOTIDX_X = Parse_lithdr_notidx_x"
| "first_byte_action LITHDR_NOTIDX_V = Parse_lithdr_notidx_v"
| "first_byte_action LITHDR_NVRIDX = Parse_lithdr_nvridx"
| "first_byte_action LITHDR_NVRIDX_X = Parse_lithdr_nvridx_x"
| "first_byte_action LITHDR_NVRIDX_V = Parse_lithdr_nvridx_v"
| "first_byte_action MAX_TBL_SIZE = Parse_max_tbl_size"
| "first_byte_action MAX_TBL_SIZE_X = Parse_max_tbl_size_x"
| "first_byte_action ILLEGAL = Parse_error"

definition first_byte_lut :: "first_byte_type list" where
  "first_byte_lut =
     LITHDR_NOTIDX_V # replicate 14 LITHDR_NOTIDX @ LITHDR_NOTIDX_X #
     LITHDR_NVRIDX_V # replicate 14 LITHDR_NVRIDX @ LITHDR_NVRIDX_X #
     ILLEGAL # replicate 30 MAX_TBL_SIZE @ MAX_TBL_SIZE_X #
     LITHDR_INCIDX_V # replicate 62 LITHDR_INCIDX @ LITHDR_INCIDX_X #
     ILLEGAL # replicate 126 INDEXED_FIELD @ [INDEXED_FIELD_X]"

section \<open>Strings\<close>

text \<open>
  The length and the capacity are 32 bits wide; the sum compared with the capacity
  is a \<^verbatim>\<open>size_t\<close>. A copy that does not fit the buffer is a fault.
\<close>

definition append_bytes ::
    "grpc_chttp2_hpack_parser_string \<Rightarrow> bytes \<Rightarrow> hpack_fault + grpc_chttp2_hpack_parser_string" where
  "append_bytes s data =
     (let s1 = (if length data + unat (string_length s) > unat (capacity s)
                then (let cap = string_length s + of_nat (length data) in
                      s\<lparr>capacity := cap, str := c_realloc 0 (str s) (unat cap)\<rparr>)
                else s) in
      if unat (string_length s1) + length data \<le> length (str s1)
      then Inr (s1\<lparr>str := take (unat (string_length s1)) (str s1) @ data @
                           drop (unat (string_length s1) + length data) (str s1),
                   string_length := string_length s1 + of_nat (length data)\<rparr>)
      else Inl Hpack_string_overflow)"

text \<open>The string that \<open>parsing.str\<close> points to.\<close>

definition append_to_parsing ::
    "'u grpc_chttp2_hpack_parser \<Rightarrow> bytes \<Rightarrow> hpack_fault + 'u grpc_chttp2_hpack_parser" where
  "append_to_parsing p data =
     (case parsing p of
        Parsing_key \<Rightarrow> hpack_try (append_bytes (key p) data) (\<lambda>s. Inr (p\<lparr>key := s\<rparr>))
      | Parsing_value \<Rightarrow> hpack_try (append_bytes (value p) data) (\<lambda>s. Inr (p\<lparr>value := s\<rparr>))
      | _ \<Rightarrow> Inl Hpack_undefined)"

text \<open>
  The base64 part of \<^verbatim>\<open>append_string\<close>: what is done with six bits at each label,
  and the loop over the input. The first argument is the label that the code is
  at; \<open>binary\<close> is stored only when the input ends.
\<close>

fun base64_symbol ::
    "binary_state \<Rightarrow> 'u grpc_chttp2_hpack_parser \<Rightarrow> u32 \<Rightarrow>
     hpack_fault + binary_state \<times> 'u grpc_chttp2_hpack_parser" where
  "base64_symbol NOT_BINARY p b = Inl Hpack_undefined"
| "base64_symbol B64_BYTE0 p b = Inr (B64_BYTE1, p\<lparr>base64_buffer := push_bit 18 b\<rparr>)"
| "base64_symbol B64_BYTE1 p b = Inr (B64_BYTE2, p\<lparr>base64_buffer := base64_buffer p OR push_bit 12 b\<rparr>)"
| "base64_symbol B64_BYTE2 p b = Inr (B64_BYTE3, p\<lparr>base64_buffer := base64_buffer p OR push_bit 6 b\<rparr>)"
| "base64_symbol B64_BYTE3 p b =
     (let buf = base64_buffer p OR b in
      hpack_try (append_to_parsing (p\<lparr>base64_buffer := buf\<rparr>)
                   [ucast (drop_bit 16 buf), ucast (drop_bit 8 buf), ucast buf])
        (\<lambda>p1. Inr (B64_BYTE0, p1)))"

fun append_base64 ::
    "binary_state \<Rightarrow> 'u grpc_chttp2_hpack_parser \<Rightarrow> bytes \<Rightarrow> hpack_fault + bool \<times> 'u grpc_chttp2_hpack_parser" where
  "append_base64 st p [] = Inr (True, p\<lparr>binary := st\<rparr>)"
| "append_base64 st p (c # cur) =
     (let b = ucast (inverse_base64 ! unat c) :: u32 in
      if b = 255 then Inr (False, p)
      else if b = 64 then append_base64 st p cur
      else hpack_try (base64_symbol st p b) (\<lambda>(st1, p1). append_base64 st1 p1 cur))"

definition append_string ::
    "'u grpc_chttp2_hpack_parser \<Rightarrow> bytes \<Rightarrow> hpack_fault + bool \<times> 'u grpc_chttp2_hpack_parser" where
  "append_string p cur =
     (case binary p of
        NOT_BINARY \<Rightarrow> hpack_try (append_to_parsing p cur) (\<lambda>p1. Inr (True, p1))
      | st \<Rightarrow> append_base64 st p cur)"

text \<open>The last step of \<^verbatim>\<open>finish_str\<close> for each string.\<close>

definition terminate_parsing ::
    "'u grpc_chttp2_hpack_parser \<Rightarrow> hpack_fault + bool \<times> 'u grpc_chttp2_hpack_parser" where
  "terminate_parsing p =
     hpack_try (append_to_parsing p [0])
       (\<lambda>p1. Inr (True,
          if parsing p1 = Parsing_key
          then p1\<lparr>key := (key p1)\<lparr>string_length := string_length (key p1) - 1\<rparr>\<rparr>
          else p1\<lparr>value := (value p1)\<lparr>string_length := string_length (value p1) - 1\<rparr>\<rparr>))"

definition finish_str ::
    "'u grpc_chttp2_hpack_parser \<Rightarrow> hpack_fault + bool \<times> 'u grpc_chttp2_hpack_parser" where
  "finish_str p =
     (case binary p of
        NOT_BINARY \<Rightarrow> terminate_parsing p
      | B64_BYTE0 \<Rightarrow> terminate_parsing p
      | B64_BYTE1 \<Rightarrow> Inr (False, p)
      | B64_BYTE2 \<Rightarrow>
          (if base64_buffer p AND 0xffff \<noteq> 0 then Inr (False, p)
           else hpack_try (append_to_parsing p [ucast (drop_bit 16 (base64_buffer p))]) terminate_parsing)
      | B64_BYTE3 \<Rightarrow>
          (if base64_buffer p AND 0xff \<noteq> 0 then Inr (False, p)
           else hpack_try
             (append_to_parsing p [ucast (drop_bit 16 (base64_buffer p)), ucast (drop_bit 8 (base64_buffer p))])
             terminate_parsing))"

definition huff_nibble ::
    "'u grpc_chttp2_hpack_parser \<Rightarrow> u8 \<Rightarrow> hpack_fault + bool \<times> 'u grpc_chttp2_hpack_parser" where
  "huff_nibble p nibble =
     hpack_try (hpack_fault_if_none Hpack_undefined
       (do { e \<leftarrow> c_read emit_tbl (huff_state p);
             n \<leftarrow> c_read next_tbl (huff_state p);
             emit \<leftarrow> c_read emit_sub_tbl (16 * e + unat nibble);
             next_st \<leftarrow> c_read next_sub_tbl (16 * n + unat nibble);
             Some (emit, next_st) }))
       (\<lambda>(emit, next_st).
          if emit = -1 then Inr (True, p\<lparr>huff_state := next_st\<rparr>)
          else if 0 \<le> emit \<and> emit < 256 then
            hpack_try (append_string p [of_int emit])
              (\<lambda>(ok, p1). if ok then Inr (True, p1\<lparr>huff_state := next_st\<rparr>) else Inr (False, p1))
          else if emit = 256 then Inr (True, p\<lparr>huff_state := next_st\<rparr>)
          else Inl Hpack_abort)"

fun add_huff_bytes ::
    "'u grpc_chttp2_hpack_parser \<Rightarrow> bytes \<Rightarrow> hpack_fault + bool \<times> 'u grpc_chttp2_hpack_parser" where
  "add_huff_bytes p [] = Inr (True, p)"
| "add_huff_bytes p (c # cur) =
     hpack_try (huff_nibble p (drop_bit 4 c))
       (\<lambda>(ok, p1). if \<not> ok then Inr (False, p1)
          else hpack_try (huff_nibble p1 (c AND 0xf))
            (\<lambda>(ok, p2). if \<not> ok then Inr (False, p2) else add_huff_bytes p2 cur))"

definition add_str_bytes ::
    "'u grpc_chttp2_hpack_parser \<Rightarrow> bytes \<Rightarrow> hpack_fault + bool \<times> 'u grpc_chttp2_hpack_parser" where
  "add_str_bytes p cur = (if huff p \<noteq> 0 then add_huff_bytes p cur else append_string p cur)"

definition parse_string :: "'u grpc_chttp2_hpack_parser \<Rightarrow> bytes \<Rightarrow> 'u hpack_step" where
  "parse_string p cur =
     (let remaining = unat (strlen p - strgot p); given = length cur in
      if remaining \<le> given then
        hpack_try (add_str_bytes p (take remaining cur))
          (\<lambda>(ok, p1). if \<not> ok then Inr (Hpack_return False p1)
             else hpack_try (finish_str p1)
               (\<lambda>(ok, p2). if \<not> ok then Inr (Hpack_return False p2)
                  else Inr (Hpack_call Parse_next p2 (drop remaining cur))))
      else
        hpack_try (add_str_bytes p cur)
          (\<lambda>(ok, p1). if \<not> ok then Inr (Hpack_return False p1)
             else hpack_suspend Parse_string (p1\<lparr>strgot := strgot p1 + of_nat given\<rparr>)))"

text \<open>The string argument is \<open>Parsing_key\<close> or \<open>Parsing_value\<close>.\<close>

definition begin_parse_string ::
    "'u grpc_chttp2_hpack_parser \<Rightarrow> bytes \<Rightarrow> binary_state \<Rightarrow> hpack_parsing \<Rightarrow> 'u hpack_step" where
  "begin_parse_string p cur bin ptr =
     (let p1 = p\<lparr>strgot := 0\<rparr>;
          p2 = (if ptr = Parsing_key then p1\<lparr>key := (key p1)\<lparr>string_length := 0\<rparr>\<rparr>
                else p1\<lparr>value := (value p1)\<lparr>string_length := 0\<rparr>\<rparr>) in
      Inr (Hpack_call Parse_string (p2\<lparr>parsing := ptr, huff_state := 0, binary := bin\<rparr>) cur))"

definition parse_key_string :: "'u grpc_chttp2_hpack_parser \<Rightarrow> bytes \<Rightarrow> 'u hpack_step" where
  "parse_key_string p cur = begin_parse_string p cur NOT_BINARY Parsing_key"

datatype is_binary_header = BINARY_HEADER | PLAINTEXT_HEADER | ERROR_HEADER

definition grpc_is_binary_header :: "bytes \<Rightarrow> bool" where
  "grpc_is_binary_header k =
     (if length k < 5 then False else drop (length k - 4) k = bytes_of_string ''-bin'')"

definition is_binary_literal_header :: "'u grpc_chttp2_hpack_parser \<Rightarrow> is_binary_header" where
  "is_binary_literal_header p =
     (if grpc_is_binary_header (take (unat (string_length (key p))) (str (key p)))
      then BINARY_HEADER else PLAINTEXT_HEADER)"

definition is_binary_indexed_header :: "'u grpc_chttp2_hpack_parser \<Rightarrow> hpack_fault + is_binary_header" where
  "is_binary_indexed_header p =
     hpack_try (hpack_fault_if_none Hpack_undefined (grpc_chttp2_hptbl_lookup (table p) (index p)))
       (\<lambda>elem. case elem of
            None \<Rightarrow> Inr ERROR_HEADER
          | Some e \<Rightarrow> Inr (if grpc_is_binary_header (md_key e) then BINARY_HEADER else PLAINTEXT_HEADER))"

fun parse_value_string ::
    "'u grpc_chttp2_hpack_parser \<Rightarrow> bytes \<Rightarrow> is_binary_header \<Rightarrow> 'u hpack_step" where
  "parse_value_string p cur BINARY_HEADER = begin_parse_string p cur B64_BYTE0 Parsing_value"
| "parse_value_string p cur PLAINTEXT_HEADER = begin_parse_string p cur NOT_BINARY Parsing_value"
| "parse_value_string p cur ERROR_HEADER = Inr (Hpack_return False p)"

definition parse_value_string_with_indexed_key ::
    "'u grpc_chttp2_hpack_parser \<Rightarrow> bytes \<Rightarrow> 'u hpack_step" where
  "parse_value_string_with_indexed_key p cur =
     hpack_try (is_binary_indexed_header p) (parse_value_string p cur)"

definition parse_value_string_with_literal_key ::
    "'u grpc_chttp2_hpack_parser \<Rightarrow> bytes \<Rightarrow> 'u hpack_step" where
  "parse_value_string_with_literal_key p cur = parse_value_string p cur (is_binary_literal_header p)"

section \<open>Integers\<close>

text \<open>\<open>*p->parsing.value\<close>.\<close>

definition parsing_get :: "'u grpc_chttp2_hpack_parser \<Rightarrow> hpack_fault + u32" where
  "parsing_get p =
     (case parsing p of
        Parsing_index \<Rightarrow> Inr (index p)
      | Parsing_strlen \<Rightarrow> Inr (strlen p)
      | _ \<Rightarrow> Inl Hpack_undefined)"

definition parsing_put :: "'u grpc_chttp2_hpack_parser \<Rightarrow> u32 \<Rightarrow> 'u grpc_chttp2_hpack_parser" where
  "parsing_put p v = (if parsing p = Parsing_index then p\<lparr>index := v\<rparr> else p\<lparr>strlen := v\<rparr>)"

text \<open>The shape that the first four bytes of a varint share: own state, shift, next state.\<close>

definition parse_value_at ::
    "grpc_chttp2_hpack_parser_state \<Rightarrow> nat \<Rightarrow> grpc_chttp2_hpack_parser_state \<Rightarrow>
     'u grpc_chttp2_hpack_parser \<Rightarrow> bytes \<Rightarrow> 'u hpack_step" where
  "parse_value_at self shift continued p bs =
     (case bs of
        [] \<Rightarrow> hpack_suspend self p
      | c # cur \<Rightarrow>
          hpack_try (parsing_get p)
            (\<lambda>v. let p1 = parsing_put p (v + push_bit shift (ucast (c AND 0x7f))) in
                 if c AND 0x80 \<noteq> 0 then Inr (Hpack_call continued p1 cur)
                 else Inr (Hpack_call Parse_next p1 cur)))"

definition parse_value0 :: "'u grpc_chttp2_hpack_parser \<Rightarrow> bytes \<Rightarrow> 'u hpack_step" where
  "parse_value0 = parse_value_at Parse_value0 0 Parse_value1"

definition parse_value1 :: "'u grpc_chttp2_hpack_parser \<Rightarrow> bytes \<Rightarrow> 'u hpack_step" where
  "parse_value1 = parse_value_at Parse_value1 7 Parse_value2"

definition parse_value2 :: "'u grpc_chttp2_hpack_parser \<Rightarrow> bytes \<Rightarrow> 'u hpack_step" where
  "parse_value2 = parse_value_at Parse_value2 14 Parse_value3"

definition parse_value3 :: "'u grpc_chttp2_hpack_parser \<Rightarrow> bytes \<Rightarrow> 'u hpack_step" where
  "parse_value3 = parse_value_at Parse_value3 21 Parse_value4"

definition parse_value4 :: "'u grpc_chttp2_hpack_parser \<Rightarrow> bytes \<Rightarrow> 'u hpack_step" where
  "parse_value4 p bs =
     (case bs of
        [] \<Rightarrow> hpack_suspend Parse_value4 p
      | b # cur \<Rightarrow>
          (let c = b AND 0x7f in
           if c > 0xf then Inr (Hpack_call Parse_error p bs)
           else
             hpack_try (parsing_get p)
               (\<lambda>cur_value.
                  let add_value = push_bit 28 (ucast c) in
                  if add_value > 0xffffffff - cur_value then Inr (Hpack_call Parse_error p bs)
                  else
                    (let p1 = parsing_put p (cur_value + add_value) in
                     if b AND 0x80 \<noteq> 0 then Inr (Hpack_call Parse_value5up p1 cur)
                     else Inr (Hpack_call Parse_next p1 cur)))))"

fun parse_value5up :: "'u grpc_chttp2_hpack_parser \<Rightarrow> bytes \<Rightarrow> 'u hpack_step" where
  "parse_value5up p [] = hpack_suspend Parse_value5up p"
| "parse_value5up p (c # cur) =
     (if c = 0x80 then parse_value5up p cur
      else if c = 0 then Inr (Hpack_call Parse_next p cur)
      else Inr (Hpack_call Parse_error p (c # cur)))"

definition parse_string_prefix :: "'u grpc_chttp2_hpack_parser \<Rightarrow> bytes \<Rightarrow> 'u hpack_step" where
  "parse_string_prefix p bs =
     (case bs of
        [] \<Rightarrow> hpack_suspend Parse_string_prefix p
      | c # cur \<Rightarrow>
          (let p1 = p\<lparr>strlen := ucast (c AND 0x7f), huff := drop_bit 7 c\<rparr> in
           if strlen p1 = 0x7f then Inr (Hpack_call Parse_value0 (p1\<lparr>parsing := Parsing_strlen\<rparr>) cur)
           else Inr (Hpack_call Parse_next p1 cur)))"

section \<open>Fields\<close>

definition parse_next :: "'u grpc_chttp2_hpack_parser \<Rightarrow> bytes \<Rightarrow> 'u hpack_step" where
  "parse_next p bs =
     (case next_state p of
        [] \<Rightarrow> Inl Hpack_undefined
      | s # ss \<Rightarrow> Inr (Hpack_call s (p\<lparr>state := s, next_state := ss\<rparr>) bs))"

definition parse_begin :: "'u grpc_chttp2_hpack_parser \<Rightarrow> bytes \<Rightarrow> 'u hpack_step" where
  "parse_begin p bs =
     (case bs of
        [] \<Rightarrow> hpack_suspend Parse_begin p
      | c # cur \<Rightarrow> Inr (Hpack_call (first_byte_action (first_byte_lut ! unat c)) p bs))"

definition parse_error :: "'u grpc_chttp2_hpack_parser \<Rightarrow> bytes \<Rightarrow> 'u hpack_step" where
  "parse_error p bs = Inr (Hpack_return False (p\<lparr>state := Parse_error\<rparr>))"

text \<open>Stream dependency and weight: one byte is skipped, then the next function is called.\<close>

definition parse_skip ::
    "grpc_chttp2_hpack_parser_state \<Rightarrow> grpc_chttp2_hpack_parser_state \<Rightarrow>
     'u grpc_chttp2_hpack_parser \<Rightarrow> bytes \<Rightarrow> 'u hpack_step" where
  "parse_skip self nxt p bs =
     (case bs of [] \<Rightarrow> hpack_suspend self p | c # cur \<Rightarrow> Inr (Hpack_call nxt p cur))"

definition parse_stream_weight :: "'u grpc_chttp2_hpack_parser \<Rightarrow> bytes \<Rightarrow> 'u hpack_step" where
  "parse_stream_weight p = parse_skip Parse_stream_weight (after_prioritization p) p"

definition parse_stream_dep3 :: "'u grpc_chttp2_hpack_parser \<Rightarrow> bytes \<Rightarrow> 'u hpack_step" where
  "parse_stream_dep3 = parse_skip Parse_stream_dep3 Parse_stream_weight"

definition parse_stream_dep2 :: "'u grpc_chttp2_hpack_parser \<Rightarrow> bytes \<Rightarrow> 'u hpack_step" where
  "parse_stream_dep2 = parse_skip Parse_stream_dep2 Parse_stream_dep3"

definition parse_stream_dep1 :: "'u grpc_chttp2_hpack_parser \<Rightarrow> bytes \<Rightarrow> 'u hpack_step" where
  "parse_stream_dep1 = parse_skip Parse_stream_dep1 Parse_stream_dep2"

definition parse_stream_dep0 :: "'u grpc_chttp2_hpack_parser \<Rightarrow> bytes \<Rightarrow> 'u hpack_step" where
  "parse_stream_dep0 = parse_skip Parse_stream_dep0 Parse_stream_dep1"

definition on_hdr ::
    "'u grpc_chttp2_hpack_parser \<Rightarrow> grpc_mdelem \<Rightarrow> bool \<Rightarrow> hpack_fault + 'u grpc_chttp2_hpack_parser" where
  "on_hdr p md add_to_table =
     hpack_try
       (if add_to_table
        then hpack_try (hpack_fault_if_none Hpack_table_fault (grpc_chttp2_hptbl_add (table p) md))
               (\<lambda>t. Inr (p\<lparr>table := t\<rparr>))
        else Inr p)
       (\<lambda>p1. case on_header p1 (on_header_user_data p1) md of
            None \<Rightarrow> Inl Hpack_abort
          | Some u \<Rightarrow> Inr (p1\<lparr>on_header_user_data := u\<rparr>))"

text \<open>\<^verbatim>\<open>take_string\<close>: the bytes of a string, which becomes empty.\<close>

definition take_string :: "grpc_chttp2_hpack_parser_string \<Rightarrow> bytes" where
  "take_string s = take (unat (string_length s)) (str s)"

definition take_value :: "'u grpc_chttp2_hpack_parser \<Rightarrow> bytes \<times> 'u grpc_chttp2_hpack_parser" where
  "take_value p = (take_string (value p), p\<lparr>value := (value p)\<lparr>string_length := 0\<rparr>\<rparr>)"

definition take_key :: "'u grpc_chttp2_hpack_parser \<Rightarrow> bytes \<times> 'u grpc_chttp2_hpack_parser" where
  "take_key p = (take_string (key p), p\<lparr>key := (key p)\<lparr>string_length := 0\<rparr>\<rparr>)"

definition finish_indexed_field :: "'u grpc_chttp2_hpack_parser \<Rightarrow> bytes \<Rightarrow> 'u hpack_step" where
  "finish_indexed_field p cur =
     hpack_try (hpack_fault_if_none Hpack_undefined (grpc_chttp2_hptbl_lookup (table p) (index p)))
       (\<lambda>elem. case elem of
            None \<Rightarrow> Inl Hpack_null_element
          | Some md \<Rightarrow> hpack_try (on_hdr p md False) (\<lambda>p1. Inr (Hpack_call Parse_begin p1 cur)))"

text \<open>The literal fields whose key is an index, and those whose key is a string.\<close>

definition finish_lithdr ::
    "bool \<Rightarrow> 'u grpc_chttp2_hpack_parser \<Rightarrow> bytes \<Rightarrow> 'u hpack_step" where
  "finish_lithdr add_to_table p cur =
     hpack_try (hpack_fault_if_none Hpack_undefined (grpc_chttp2_hptbl_lookup (table p) (index p)))
       (\<lambda>elem. case elem of
            None \<Rightarrow> Inl Hpack_null_element
          | Some md \<Rightarrow>
              (let (v, p1) = take_value p in
               hpack_try (on_hdr p1 \<lparr> md_key = md_key md, md_value = v \<rparr> add_to_table)
                 (\<lambda>p2. Inr (Hpack_call Parse_begin p2 cur))))"

definition finish_lithdr_v ::
    "bool \<Rightarrow> 'u grpc_chttp2_hpack_parser \<Rightarrow> bytes \<Rightarrow> 'u hpack_step" where
  "finish_lithdr_v add_to_table p cur =
     (let (k, p1) = take_key p; (v, p2) = take_value p1 in
      hpack_try (on_hdr p2 \<lparr> md_key = k, md_value = v \<rparr> add_to_table)
        (\<lambda>p3. Inr (Hpack_call Parse_begin p3 cur)))"

definition finish_lithdr_incidx :: "'u grpc_chttp2_hpack_parser \<Rightarrow> bytes \<Rightarrow> 'u hpack_step" where
  "finish_lithdr_incidx = finish_lithdr True"

definition finish_lithdr_incidx_v :: "'u grpc_chttp2_hpack_parser \<Rightarrow> bytes \<Rightarrow> 'u hpack_step" where
  "finish_lithdr_incidx_v = finish_lithdr_v True"

definition finish_lithdr_notidx :: "'u grpc_chttp2_hpack_parser \<Rightarrow> bytes \<Rightarrow> 'u hpack_step" where
  "finish_lithdr_notidx = finish_lithdr False"

definition finish_lithdr_notidx_v :: "'u grpc_chttp2_hpack_parser \<Rightarrow> bytes \<Rightarrow> 'u hpack_step" where
  "finish_lithdr_notidx_v = finish_lithdr_v False"

definition finish_lithdr_nvridx :: "'u grpc_chttp2_hpack_parser \<Rightarrow> bytes \<Rightarrow> 'u hpack_step" where
  "finish_lithdr_nvridx = finish_lithdr False"

definition finish_lithdr_nvridx_v :: "'u grpc_chttp2_hpack_parser \<Rightarrow> bytes \<Rightarrow> 'u hpack_step" where
  "finish_lithdr_nvridx_v = finish_lithdr_v False"

definition finish_max_tbl_size :: "'u grpc_chttp2_hpack_parser \<Rightarrow> bytes \<Rightarrow> 'u hpack_step" where
  "finish_max_tbl_size p cur = Inl Hpack_abort"

text \<open>
  The functions for a first byte read it without a check: an empty input would be
  a read past the end.
\<close>

definition parse_field ::
    "u8 \<Rightarrow> grpc_chttp2_hpack_parser_state list \<Rightarrow> grpc_chttp2_hpack_parser_state \<Rightarrow>
     'u grpc_chttp2_hpack_parser \<Rightarrow> bytes \<Rightarrow> 'u hpack_step" where
  "parse_field prefix_mask and_then f p bs =
     (case bs of
        [] \<Rightarrow> Inl Hpack_undefined
      | c # cur \<Rightarrow> Inr (Hpack_call f (p\<lparr>next_state := and_then, index := ucast (c AND prefix_mask)\<rparr>) cur))"

definition parse_field_x ::
    "u32 \<Rightarrow> grpc_chttp2_hpack_parser_state list \<Rightarrow> 'u grpc_chttp2_hpack_parser \<Rightarrow> bytes \<Rightarrow> 'u hpack_step" where
  "parse_field_x prefix and_then p bs =
     (case bs of
        [] \<Rightarrow> Inl Hpack_undefined
      | c # cur \<Rightarrow>
          Inr (Hpack_call Parse_value0 (p\<lparr>next_state := and_then, index := prefix, parsing := Parsing_index\<rparr>) cur))"

definition parse_field_v ::
    "grpc_chttp2_hpack_parser_state list \<Rightarrow> 'u grpc_chttp2_hpack_parser \<Rightarrow> bytes \<Rightarrow> 'u hpack_step" where
  "parse_field_v and_then p bs =
     (case bs of
        [] \<Rightarrow> Inl Hpack_undefined
      | c # cur \<Rightarrow> Inr (Hpack_call Parse_string_prefix (p\<lparr>next_state := and_then\<rparr>) cur))"

definition parse_indexed_field :: "'u grpc_chttp2_hpack_parser \<Rightarrow> bytes \<Rightarrow> 'u hpack_step" where
  "parse_indexed_field p bs =
     (case bs of
        [] \<Rightarrow> Inl Hpack_undefined
      | c # cur \<Rightarrow> Inr (Hpack_call Finish_indexed_field (p\<lparr>index := ucast (c AND 0x7f)\<rparr>) cur))"

definition parse_indexed_field_x :: "'u grpc_chttp2_hpack_parser \<Rightarrow> bytes \<Rightarrow> 'u hpack_step" where
  "parse_indexed_field_x = parse_field_x 0x7f [Finish_indexed_field]"

definition parse_lithdr_incidx :: "'u grpc_chttp2_hpack_parser \<Rightarrow> bytes \<Rightarrow> 'u hpack_step" where
  "parse_lithdr_incidx =
     parse_field 0x3f [Parse_value_string_with_indexed_key, Finish_lithdr_incidx] Parse_string_prefix"

definition parse_lithdr_incidx_x :: "'u grpc_chttp2_hpack_parser \<Rightarrow> bytes \<Rightarrow> 'u hpack_step" where
  "parse_lithdr_incidx_x =
     parse_field_x 0x3f [Parse_string_prefix, Parse_value_string_with_indexed_key, Finish_lithdr_incidx]"

definition parse_lithdr_incidx_v :: "'u grpc_chttp2_hpack_parser \<Rightarrow> bytes \<Rightarrow> 'u hpack_step" where
  "parse_lithdr_incidx_v =
     parse_field_v [Parse_key_string, Parse_string_prefix, Parse_value_string_with_literal_key,
                    Finish_lithdr_incidx_v]"

definition parse_lithdr_notidx :: "'u grpc_chttp2_hpack_parser \<Rightarrow> bytes \<Rightarrow> 'u hpack_step" where
  "parse_lithdr_notidx =
     parse_field 0xf [Parse_value_string_with_indexed_key, Finish_lithdr_notidx] Parse_string_prefix"

definition parse_lithdr_notidx_x :: "'u grpc_chttp2_hpack_parser \<Rightarrow> bytes \<Rightarrow> 'u hpack_step" where
  "parse_lithdr_notidx_x =
     parse_field_x 0xf [Parse_string_prefix, Parse_value_string_with_indexed_key, Finish_lithdr_notidx]"

definition parse_lithdr_notidx_v :: "'u grpc_chttp2_hpack_parser \<Rightarrow> bytes \<Rightarrow> 'u hpack_step" where
  "parse_lithdr_notidx_v =
     parse_field_v [Parse_key_string, Parse_string_prefix, Parse_value_string_with_literal_key,
                    Finish_lithdr_notidx_v]"

definition parse_lithdr_nvridx :: "'u grpc_chttp2_hpack_parser \<Rightarrow> bytes \<Rightarrow> 'u hpack_step" where
  "parse_lithdr_nvridx =
     parse_field 0xf [Parse_value_string_with_indexed_key, Finish_lithdr_nvridx] Parse_string_prefix"

definition parse_lithdr_nvridx_x :: "'u grpc_chttp2_hpack_parser \<Rightarrow> bytes \<Rightarrow> 'u hpack_step" where
  "parse_lithdr_nvridx_x =
     parse_field_x 0xf [Parse_string_prefix, Parse_value_string_with_indexed_key, Finish_lithdr_nvridx]"

definition parse_lithdr_nvridx_v :: "'u grpc_chttp2_hpack_parser \<Rightarrow> bytes \<Rightarrow> 'u hpack_step" where
  "parse_lithdr_nvridx_v =
     parse_field_v [Parse_key_string, Parse_string_prefix, Parse_value_string_with_literal_key,
                    Finish_lithdr_nvridx_v]"

definition parse_max_tbl_size :: "'u grpc_chttp2_hpack_parser \<Rightarrow> bytes \<Rightarrow> 'u hpack_step" where
  "parse_max_tbl_size p bs =
     (case bs of
        [] \<Rightarrow> Inl Hpack_undefined
      | c # cur \<Rightarrow> Inr (Hpack_call Finish_max_tbl_size (p\<lparr>index := ucast (c AND 0xf)\<rparr>) cur))"

definition parse_max_tbl_size_x :: "'u grpc_chttp2_hpack_parser \<Rightarrow> bytes \<Rightarrow> 'u hpack_step" where
  "parse_max_tbl_size_x = parse_field_x 0xf [Finish_max_tbl_size]"

section \<open>The run\<close>

fun hpack_call :: "grpc_chttp2_hpack_parser_state \<Rightarrow> 'u grpc_chttp2_hpack_parser \<Rightarrow> bytes \<Rightarrow> 'u hpack_step" where
  "hpack_call Parse_begin = parse_begin"
| "hpack_call Parse_error = parse_error"
| "hpack_call Parse_stream_weight = parse_stream_weight"
| "hpack_call Parse_stream_dep3 = parse_stream_dep3"
| "hpack_call Parse_stream_dep2 = parse_stream_dep2"
| "hpack_call Parse_stream_dep1 = parse_stream_dep1"
| "hpack_call Parse_stream_dep0 = parse_stream_dep0"
| "hpack_call Parse_indexed_field = parse_indexed_field"
| "hpack_call Parse_indexed_field_x = parse_indexed_field_x"
| "hpack_call Parse_lithdr_incidx = parse_lithdr_incidx"
| "hpack_call Parse_lithdr_incidx_x = parse_lithdr_incidx_x"
| "hpack_call Parse_lithdr_incidx_v = parse_lithdr_incidx_v"
| "hpack_call Parse_lithdr_notidx = parse_lithdr_notidx"
| "hpack_call Parse_lithdr_notidx_x = parse_lithdr_notidx_x"
| "hpack_call Parse_lithdr_notidx_v = parse_lithdr_notidx_v"
| "hpack_call Parse_lithdr_nvridx = parse_lithdr_nvridx"
| "hpack_call Parse_lithdr_nvridx_x = parse_lithdr_nvridx_x"
| "hpack_call Parse_lithdr_nvridx_v = parse_lithdr_nvridx_v"
| "hpack_call Parse_max_tbl_size = parse_max_tbl_size"
| "hpack_call Parse_max_tbl_size_x = parse_max_tbl_size_x"
| "hpack_call Finish_indexed_field = finish_indexed_field"
| "hpack_call Finish_lithdr_incidx = finish_lithdr_incidx"
| "hpack_call Finish_lithdr_incidx_v = finish_lithdr_incidx_v"
| "hpack_call Finish_lithdr_notidx = finish_lithdr_notidx"
| "hpack_call Finish_lithdr_notidx_v = finish_lithdr_notidx_v"
| "hpack_call Finish_lithdr_nvridx = finish_lithdr_nvridx"
| "hpack_call Finish_lithdr_nvridx_v = finish_lithdr_nvridx_v"
| "hpack_call Finish_max_tbl_size = finish_max_tbl_size"
| "hpack_call Parse_value0 = parse_value0"
| "hpack_call Parse_value1 = parse_value1"
| "hpack_call Parse_value2 = parse_value2"
| "hpack_call Parse_value3 = parse_value3"
| "hpack_call Parse_value4 = parse_value4"
| "hpack_call Parse_value5up = parse_value5up"
| "hpack_call Parse_string_prefix = parse_string_prefix"
| "hpack_call Parse_string = parse_string"
| "hpack_call Parse_key_string = parse_key_string"
| "hpack_call Parse_value_string_with_indexed_key = parse_value_string_with_indexed_key"
| "hpack_call Parse_value_string_with_literal_key = parse_value_string_with_literal_key"
| "hpack_call Parse_next = parse_next"

end
