(* ===== verification/Hpack_Parser_Run.thy ===== *)
theory Hpack_Parser_Run
  imports Hpack_Parser
begin

text \<open>
  The run of the HPACK parser's calls. It always ends: a call either consumes input
  or moves on in the order of the pending functions.
\<close>

text \<open>Reading strings and reporting headers leave the rest of the parser alone.\<close>

definition hpack_same_control :: "'u grpc_chttp2_hpack_parser \<Rightarrow> 'u grpc_chttp2_hpack_parser \<Rightarrow> bool" where
  "hpack_same_control p q \<longleftrightarrow>
     next_state q = next_state p \<and> after_prioritization q = after_prioritization p \<and>
     parsing q = parsing p \<and> index q = index p \<and> strlen q = strlen p \<and> strgot q = strgot p \<and>
     state q = state p \<and> huff q = huff p \<and> on_header q = on_header p"

lemma hpack_same_control_refl [simp]: "hpack_same_control p p"
  by (simp add: hpack_same_control_def)

lemma hpack_same_control_trans:
  "hpack_same_control p q \<Longrightarrow> hpack_same_control q r \<Longrightarrow> hpack_same_control p r"
  by (simp add: hpack_same_control_def)

lemma hpack_try_eq_Inr: "hpack_try x f = Inr z \<longleftrightarrow> (\<exists>y. x = Inr y \<and> f y = Inr z)"
  by (cases x) auto

lemma hpack_fault_if_none_eq_Inr: "hpack_fault_if_none e x = Inr y \<longleftrightarrow> x = Some y"
  by (cases x) auto

lemma hpack_try_eq_Inl: "hpack_try x f = Inl e \<longleftrightarrow> x = Inl e \<or> (\<exists>y. x = Inr y \<and> f y = Inl e)"
  by (cases x) auto

lemma append_to_parsing_frame:
  "append_to_parsing p data = Inr q \<Longrightarrow>
     hpack_same_control p q \<and> table q = table p \<and> huff_state q = huff_state p \<and> binary q = binary p \<and>
     on_header_user_data q = on_header_user_data p"
  by (auto simp: append_to_parsing_def hpack_try_eq_Inr hpack_same_control_def split: hpack_parsing.splits)

lemma base64_symbol_frame:
  assumes "base64_symbol st p b = Inr (st1, q)"
  shows "hpack_same_control p q \<and> table q = table p \<and> huff_state q = huff_state p \<and>
     on_header_user_data q = on_header_user_data p"
proof (cases st)
  case B64_BYTE3
  with assms show ?thesis
    by (auto simp: hpack_try_eq_Inr Let_def hpack_same_control_def dest!: append_to_parsing_frame)
qed (use assms in \<open>auto simp: hpack_same_control_def\<close>)

lemma append_base64_frame:
  "append_base64 st p bs = Inr (ok, q) \<Longrightarrow>
     hpack_same_control p q \<and> table q = table p \<and> huff_state q = huff_state p \<and>
     on_header_user_data q = on_header_user_data p"
proof (induction bs arbitrary: st p)
  case Nil
  then show ?case by (auto simp: hpack_same_control_def)
next
  case (Cons c cur)
  let ?b = "ucast (inverse_base64 ! unat c) :: u32"
  consider "?b = 255" | "?b \<noteq> 255" "?b = 64" | "?b \<noteq> 255" "?b \<noteq> 64" by blast
  then show ?case
  proof cases
    case 1
    with Cons.prems show ?thesis by simp
  next
    case 2
    with Cons show ?thesis by simp
  next
    case 3
    with Cons.prems obtain st1 p1 where s: "base64_symbol st p ?b = Inr (st1, p1)" "append_base64 st1 p1 cur = Inr (ok, q)"
      by (auto simp: hpack_try_eq_Inr)
    from base64_symbol_frame[OF s(1)] Cons.IH[OF s(2)] show ?thesis by (simp add: hpack_same_control_def)
  qed
qed

lemma append_string_frame:
  "append_string p bs = Inr (ok, q) \<Longrightarrow>
     hpack_same_control p q \<and> table q = table p \<and> huff_state q = huff_state p \<and>
     on_header_user_data q = on_header_user_data p"
  by (auto simp: append_string_def hpack_try_eq_Inr split: binary_state.splits
      dest!: append_to_parsing_frame append_base64_frame)

definition hpack_same_rest :: "'u grpc_chttp2_hpack_parser \<Rightarrow> 'u grpc_chttp2_hpack_parser \<Rightarrow> bool" where
  "hpack_same_rest p q \<longleftrightarrow>
     hpack_same_control p q \<and> table q = table p \<and> on_header_user_data q = on_header_user_data p"

lemma hpack_same_rest_refl [simp]: "hpack_same_rest p p"
  by (simp add: hpack_same_rest_def)

lemma hpack_same_rest_trans: "hpack_same_rest p q \<Longrightarrow> hpack_same_rest q r \<Longrightarrow> hpack_same_rest p r"
  by (auto simp: hpack_same_rest_def intro: hpack_same_control_trans)

lemma huff_nibble_frame: "huff_nibble p n = Inr (ok, q) \<Longrightarrow> hpack_same_rest p q"
  by (auto simp: huff_nibble_def hpack_try_eq_Inr hpack_same_rest_def split: if_splits dest!: append_string_frame)
     (simp_all add: hpack_same_control_def)

lemma add_huff_bytes_frame: "add_huff_bytes p bs = Inr (ok, q) \<Longrightarrow> hpack_same_rest p q"
proof (induction bs arbitrary: p)
  case (Cons c cur)
  then obtain ok1 p1 where 1: "huff_nibble p (drop_bit 4 c) = Inr (ok1, p1)"
    and r: "(if \<not> ok1 then Inr (False, p1)
          else hpack_try (huff_nibble p1 (c AND 0xf))
            (\<lambda>(ok, p2). if \<not> ok then Inr (False, p2) else add_huff_bytes p2 cur)) = Inr (ok, q)"
    by (auto simp: hpack_try_eq_Inr)
  show ?case
  proof (cases ok1)
    case True
    with r obtain ok2 p2 where 2: "huff_nibble p1 (c AND 0xf) = Inr (ok2, p2)"
      and r2: "(if \<not> ok2 then Inr (False, p2) else add_huff_bytes p2 cur) = Inr (ok, q)"
      by (auto simp: hpack_try_eq_Inr)
    from r2 Cons.IH have "hpack_same_rest p2 q" by (cases ok2) auto
    with huff_nibble_frame[OF 1] huff_nibble_frame[OF 2] show ?thesis by (blast intro: hpack_same_rest_trans)
  qed (use r huff_nibble_frame[OF 1] in auto)
qed simp

lemma add_str_bytes_frame: "add_str_bytes p bs = Inr (ok, q) \<Longrightarrow> hpack_same_rest p q"
  by (auto simp: add_str_bytes_def hpack_same_rest_def split: if_splits
      dest!: append_string_frame add_huff_bytes_frame)

lemma terminate_parsing_frame: "terminate_parsing p = Inr (ok, q) \<Longrightarrow> hpack_same_rest p q"
  by (auto simp: terminate_parsing_def hpack_try_eq_Inr hpack_same_rest_def dest!: append_to_parsing_frame)
     (simp_all add: hpack_same_control_def)

lemma finish_str_frame: "finish_str p = Inr (ok, q) \<Longrightarrow> hpack_same_rest p q"
proof -
  assume *: "finish_str p = Inr (ok, q)"
  have more: "hpack_try (append_to_parsing p d) terminate_parsing = Inr (ok, q) \<Longrightarrow> hpack_same_rest p q" for d
    by (auto simp: hpack_try_eq_Inr hpack_same_rest_def dest!: append_to_parsing_frame terminate_parsing_frame
        intro: hpack_same_control_trans)
  show ?thesis
    by (cases "binary p") (use * more in \<open>auto simp: finish_str_def terminate_parsing_frame split: if_splits\<close>)
qed

text \<open>
  A measure that every call decreases: the bytes left, the functions still to be
  called after the current one, and the order of the calls that consume neither.
\<close>

fun hpack_rank :: "grpc_chttp2_hpack_parser_state \<Rightarrow> nat" where
  "hpack_rank Parse_begin = 2"
| "hpack_rank Parse_error = 0"
| "hpack_rank Parse_next = 0"
| "hpack_rank Finish_indexed_field = 3"
| "hpack_rank Finish_lithdr_incidx = 3"
| "hpack_rank Finish_lithdr_incidx_v = 3"
| "hpack_rank Finish_lithdr_notidx = 3"
| "hpack_rank Finish_lithdr_notidx_v = 3"
| "hpack_rank Finish_lithdr_nvridx = 3"
| "hpack_rank Finish_lithdr_nvridx_v = 3"
| "hpack_rank Parse_key_string = 2"
| "hpack_rank Parse_value_string_with_indexed_key = 2"
| "hpack_rank Parse_value_string_with_literal_key = 2"
| "hpack_rank s = 1"

definition hpack_order ::
    "((grpc_chttp2_hpack_parser_state \<times> 'u grpc_chttp2_hpack_parser \<times> bytes) \<times>
      (grpc_chttp2_hpack_parser_state \<times> 'u grpc_chttp2_hpack_parser \<times> bytes)) set" where
  "hpack_order = measures [\<lambda>(s, p, bs). length bs, \<lambda>(s, p, bs). length (next_state p), \<lambda>(s, p, bs). hpack_rank s]"

lemma hpack_order_iff [simp]:
  "((g, q, cur), (f, p, bs)) \<in> hpack_order \<longleftrightarrow>
     length cur < length bs \<or>
     length cur = length bs \<and> (length (next_state q) < length (next_state p) \<or>
       length (next_state q) = length (next_state p) \<and> hpack_rank g < hpack_rank f)"
  by (auto simp: hpack_order_def)

lemma on_hdr_frame:
  "on_hdr p md a = Inr q \<Longrightarrow>
     hpack_same_control p q \<and> key q = key p \<and> value q = value p \<and> huff_state q = huff_state p \<and> binary q = binary p"
  by (auto simp: on_hdr_def hpack_try_eq_Inr hpack_same_control_def split: if_splits option.splits)

lemmas hpack_control_defs =
  parse_begin_def parse_error_def parse_stream_weight_def parse_stream_dep3_def parse_stream_dep2_def
  parse_stream_dep1_def parse_stream_dep0_def parse_skip_def parse_indexed_field_def parse_indexed_field_x_def
  parse_lithdr_incidx_def parse_lithdr_incidx_x_def parse_lithdr_incidx_v_def parse_lithdr_notidx_def
  parse_lithdr_notidx_x_def parse_lithdr_notidx_v_def parse_lithdr_nvridx_def parse_lithdr_nvridx_x_def
  parse_lithdr_nvridx_v_def parse_max_tbl_size_def parse_max_tbl_size_x_def parse_field_def parse_field_x_def
  parse_field_v_def finish_max_tbl_size_def parse_string_prefix_def parse_next_def

lemmas hpack_value_defs =
  parse_value0_def parse_value1_def parse_value2_def parse_value3_def parse_value_at_def

lemmas hpack_finish_defs =
  finish_lithdr_incidx_def finish_lithdr_incidx_v_def finish_lithdr_notidx_def finish_lithdr_notidx_v_def
  finish_lithdr_nvridx_def finish_lithdr_nvridx_v_def

lemma parse_value5up_call:
  "parse_value5up p bs = Inr (Hpack_call g q cur) \<Longrightarrow> ((g, q, cur), (Parse_value5up, p, bs)) \<in> hpack_order"
  by (induction p bs rule: parse_value5up.induct) (auto split: if_splits)

lemma parse_value4_call:
  "parse_value4 p bs = Inr (Hpack_call g q cur) \<Longrightarrow> ((g, q, cur), (Parse_value4, p, bs)) \<in> hpack_order"
  by (auto simp: parse_value4_def Let_def hpack_try_eq_Inr split: list.splits if_splits)

lemma parse_value_at_call:
  "parse_value_at s k n p bs = Inr (Hpack_call g q cur) \<Longrightarrow> ((g, q, cur), (f, p, bs)) \<in> hpack_order"
  by (auto simp: parse_value_at_def Let_def hpack_try_eq_Inr split: list.splits if_splits)

lemma finish_call:
  "finish_lithdr a p bs = Inr (Hpack_call g q cur) \<Longrightarrow> g = Parse_begin \<and> cur = bs \<and> next_state q = next_state p"
  "finish_lithdr_v a p bs = Inr (Hpack_call g q cur) \<Longrightarrow> g = Parse_begin \<and> cur = bs \<and> next_state q = next_state p"
  "finish_indexed_field p bs = Inr (Hpack_call g q cur) \<Longrightarrow> g = Parse_begin \<and> cur = bs \<and> next_state q = next_state p"
  by (auto simp: finish_lithdr_def finish_lithdr_v_def finish_indexed_field_def take_value_def take_key_def
      hpack_try_eq_Inr Let_def hpack_same_control_def split: option.splits dest!: on_hdr_frame)

lemma begin_parse_string_call:
  "begin_parse_string p bs b s = Inr (Hpack_call g q cur) \<Longrightarrow>
     g = Parse_string \<and> cur = bs \<and> next_state q = next_state p"
  by (auto simp: begin_parse_string_def Let_def)

lemma parse_value_string_call:
  "parse_value_string p bs t = Inr (Hpack_call g q cur) \<Longrightarrow>
     g = Parse_string \<and> cur = bs \<and> next_state q = next_state p"
  by (cases t) (auto dest: begin_parse_string_call)

lemma hpack_same_rest_next: "hpack_same_rest p q \<Longrightarrow> next_state q = next_state p"
  by (simp add: hpack_same_rest_def hpack_same_control_def)

lemma parse_string_call:
  assumes "parse_string p bs = Inr (Hpack_call g q cur)"
  shows "g = Parse_next \<and> length cur \<le> length bs \<and> next_state q = next_state p"
proof (cases "unat (strlen p - strgot p) \<le> length bs")
  case True
  with assms obtain p1 where p1:
    "add_str_bytes p (take (unat (strlen p - strgot p)) bs) = Inr (True, p1)" "finish_str p1 = Inr (True, q)"
    "g = Parse_next" "cur = drop (unat (strlen p - strgot p)) bs"
    by (auto simp: parse_string_def Let_def hpack_try_eq_Inr split: if_splits)
  have "next_state q = next_state p"
    using hpack_same_rest_next[OF add_str_bytes_frame[OF p1(1)]] hpack_same_rest_next[OF finish_str_frame[OF p1(2)]]
    by simp
  with p1 show ?thesis by simp
next
  case False
  with assms show ?thesis
    by (auto simp: parse_string_def Let_def hpack_try_eq_Inr split: if_splits)
qed

lemma first_byte_rank: "hpack_rank (first_byte_action t) < 2"
  by (cases t) auto

lemma hpack_call_decreases:
  "hpack_call f p bs = Inr (Hpack_call g q cur) \<Longrightarrow> ((g, q, cur), (f, p, bs)) \<in> hpack_order"
proof (cases f)
  case Parse_value5up
  then show "hpack_call f p bs = Inr (Hpack_call g q cur) \<Longrightarrow> ?thesis" by (auto dest: parse_value5up_call)
next
  case Parse_begin
  then show "hpack_call f p bs = Inr (Hpack_call g q cur) \<Longrightarrow> ?thesis"
    using first_byte_rank by (auto simp: parse_begin_def split: list.splits)
qed (auto simp: hpack_control_defs hpack_finish_defs Let_def parse_value0_def parse_value1_def parse_value2_def
       parse_value3_def parse_key_string_def parse_value_string_with_indexed_key_def
       parse_value_string_with_literal_key_def hpack_try_eq_Inr
     split: list.splits if_splits
     dest!: parse_value4_call parse_value_at_call finish_call parse_string_call begin_parse_string_call parse_value_string_call)

text \<open>The run of the calls: \<open>p->state(p, beg, end)\<close>.\<close>

function hpack_run ::
    "grpc_chttp2_hpack_parser_state \<Rightarrow> 'u grpc_chttp2_hpack_parser \<Rightarrow> bytes \<Rightarrow>
     hpack_fault + bool \<times> 'u grpc_chttp2_hpack_parser" where
  "hpack_run f p bs =
     (case hpack_call f p bs of
        Inl e \<Rightarrow> Inl e
      | Inr (Hpack_return ok q) \<Rightarrow> Inr (ok, q)
      | Inr (Hpack_call g q cur) \<Rightarrow> hpack_run g q cur)"
  by auto
termination
proof (relation hpack_order)
  show "wf hpack_order" by (simp add: hpack_order_def)
qed (use hpack_call_decreases in blast)

declare hpack_run.simps [simp del]

definition grpc_chttp2_hpack_parser_parse ::
    "'u grpc_chttp2_hpack_parser \<Rightarrow> bytes \<Rightarrow> hpack_fault + bool \<times> 'u grpc_chttp2_hpack_parser" where
  "grpc_chttp2_hpack_parser_parse p bs = hpack_run (state p) p bs"

definition on_header_not_set :: "'u option \<Rightarrow> grpc_mdelem \<Rightarrow> 'u option option" where
  "on_header_not_set user_data md = None"

text \<open>The fields that the code does not set keep what the memory held.\<close>

definition grpc_chttp2_hpack_parser_init :: "'u grpc_chttp2_hpack_parser \<Rightarrow> 'u grpc_chttp2_hpack_parser" where
  "grpc_chttp2_hpack_parser_init p =
     p\<lparr>on_header := on_header_not_set, on_header_user_data := None, state := Parse_begin,
       key := \<lparr> str = [], string_length = 0, capacity = 0 \<rparr>,
       value := \<lparr> str = [], string_length = 0, capacity = 0 \<rparr>,
       table := grpc_chttp2_hptbl_init\<rparr>"

definition grpc_chttp2_hpack_parser_set_has_priority ::
    "'u grpc_chttp2_hpack_parser \<Rightarrow> 'u grpc_chttp2_hpack_parser" where
  "grpc_chttp2_hpack_parser_set_has_priority p =
     p\<lparr>after_prioritization := state p, state := Parse_stream_dep0\<rparr>"

lemma hpack_run_call:
  "hpack_call f p bs = Inl e \<Longrightarrow> hpack_run f p bs = Inl e"
  "hpack_call f p bs = Inr (Hpack_return ok q) \<Longrightarrow> hpack_run f p bs = Inr (ok, q)"
  "hpack_call f p bs = Inr (Hpack_call g q cur) \<Longrightarrow> hpack_run f p bs = hpack_run g q cur"
  by (subst hpack_run.simps, simp)+

end
