(* ===== verification/Hpack_Parser_Safety.thy ===== *)
theory Hpack_Parser_Safety
  imports Hpack_Parser_Run
begin

text \<open>
  What the parser keeps between two calls: the pending functions, the union and
  the index fit the function that runs next, the string buffers and the table have
  their shape. From there no input makes it use memory it must not.
\<close>

section \<open>The Huffman tables\<close>

lemma huffman_table_lengths:
  "length next_tbl = 256" "length emit_tbl = 256" "length next_sub_tbl = 768" "length emit_sub_tbl = 3984"
  by (simp_all add: next_tbl_def emit_tbl_def next_sub_tbl_def emit_sub_tbl_def emit_sub_tbl_0_def
      emit_sub_tbl_1_def emit_sub_tbl_2_def emit_sub_tbl_3_def emit_sub_tbl_4_def emit_sub_tbl_5_def
      emit_sub_tbl_6_def emit_sub_tbl_7_def)

lemma huffman_next_rows: "list_all (\<lambda>n. n < 48) next_tbl"
  by (simp add: next_tbl_def)

lemma huffman_emit_rows: "list_all (\<lambda>n. n < 249) emit_tbl"
  by (simp add: emit_tbl_def)

lemma huffman_next_states: "list_all (\<lambda>n. n < 256) next_sub_tbl"
  by (simp add: next_sub_tbl_def)

lemma huffman_emissions: "list_all (\<lambda>e. -1 \<le> e \<and> e \<le> 256) emit_sub_tbl"
  by (simp add: emit_sub_tbl_def emit_sub_tbl_0_def
      emit_sub_tbl_1_def emit_sub_tbl_2_def emit_sub_tbl_3_def emit_sub_tbl_4_def emit_sub_tbl_5_def
      emit_sub_tbl_6_def emit_sub_tbl_7_def)

lemma huffman_lookup:
  assumes "s < 256" "k < 16"
  shows "next_tbl ! s < 48" "emit_tbl ! s < 249"
    "next_sub_tbl ! (16 * (next_tbl ! s) + k) < 256"
    "16 * (next_tbl ! s) + k < length next_sub_tbl" "16 * (emit_tbl ! s) + k < length emit_sub_tbl"
    "-1 \<le> emit_sub_tbl ! (16 * (emit_tbl ! s) + k)" "emit_sub_tbl ! (16 * (emit_tbl ! s) + k) \<le> 256"
proof -
  show n: "next_tbl ! s < 48" and e: "emit_tbl ! s < 249"
    using huffman_next_rows huffman_emit_rows assms(1) by (simp_all add: list_all_length huffman_table_lengths)
  show ln: "16 * (next_tbl ! s) + k < length next_sub_tbl" and le: "16 * (emit_tbl ! s) + k < length emit_sub_tbl"
    using n e assms(2) by (simp_all add: huffman_table_lengths)
  show "next_sub_tbl ! (16 * (next_tbl ! s) + k) < 256"
    using huffman_next_states ln by (auto simp: list_all_length)
  show "-1 \<le> emit_sub_tbl ! (16 * (emit_tbl ! s) + k)" "emit_sub_tbl ! (16 * (emit_tbl ! s) + k) \<le> 256"
    using huffman_emissions le by (auto simp: list_all_length)
qed

section \<open>String buffers\<close>

definition hpack_string_ok :: "grpc_chttp2_hpack_parser_string \<Rightarrow> bool" where
  "hpack_string_ok s \<longleftrightarrow> length (str s) = unat (capacity s) \<and> unat (string_length s) \<le> unat (capacity s)"

lemma unat_u32_less [simp]: "unat (x :: u32) < 4294967296"
  using unsigned_less[of x, where 'a = nat] by simp

lemma unat_of_nat_u32 [simp]: "n < 4294967296 \<Longrightarrow> unat (of_nat n :: u32) = n"
  by (simp add: unsigned_of_nat take_bit_nat_eq_self)

lemma unat_add_of_nat_u32:
  "unat (a :: u32) + n < 4294967296 \<Longrightarrow> unat (a + of_nat n) = unat a + n"
  by (simp add: unat_word_ariths unsigned_of_nat take_bit_nat_eq_self)

lemma append_bytes_fits:
  assumes "hpack_string_ok s" "length data + unat (string_length s) < 4294967296"
  obtains s1 where "append_bytes s data = Inr s1"
    "str s1 = take (unat (string_length s)) (str s) @ data @ drop (unat (string_length s) + length data) (str s)"
    "unat (string_length s1) = unat (string_length s) + length data"
    "unat (capacity s1) = max (unat (capacity s)) (unat (string_length s) + length data)"
proof (cases "length data + unat (string_length s) > unat (capacity s)")
  case True
  then show thesis
    by (intro that[of "\<lparr> str = take (unat (string_length s)) (str s) @ data @ drop (unat (string_length s) + length data) (str s),
          string_length = string_length s + of_nat (length data), capacity = string_length s + of_nat (length data) \<rparr>"])
       (use assms in \<open>auto simp: append_bytes_def Let_def unat_add_of_nat_u32 add.commute hpack_string_ok_def
          c_realloc_def max_def min_def\<close>)
next
  case False
  then show thesis
    by (intro that[of "s\<lparr> str := take (unat (string_length s)) (str s) @ data @ drop (unat (string_length s) + length data) (str s),
          string_length := string_length s + of_nat (length data) \<rparr>"])
       (use assms in \<open>auto simp: append_bytes_def unat_add_of_nat_u32 add.commute hpack_string_ok_def max_def\<close>)
qed

lemma append_bytes_overflow:
  assumes "hpack_string_ok s" "\<not> length data + unat (string_length s) < 4294967296"
  shows "append_bytes s data = Inl Hpack_string_overflow"
proof -
  have "unat x < length data + unat (string_length s)" for x :: u32
    using assms(2) unat_u32_less[of x] by linarith
  then have c: "unat (capacity s) < length data + unat (string_length s)"
    "unat (string_length s + of_nat (length data)) < length data + unat (string_length s)" by blast+
  then show ?thesis using assms(1) by (simp add: append_bytes_def Let_def)
qed

lemma append_bytes_ok:
  assumes "hpack_string_ok s" "append_bytes s data = Inr s1"
  shows "hpack_string_ok s1 \<and> take_string s1 = take_string s @ data \<and>
     unat (string_length s1) = unat (string_length s) + length data"
proof -
  have "length data + unat (string_length s) < 4294967296"
    using append_bytes_overflow[OF assms(1)] assms(2) by fastforce
  then obtain s2 where "append_bytes s data = Inr s2"
    "str s2 = take (unat (string_length s)) (str s) @ data @ drop (unat (string_length s) + length data) (str s)"
    "unat (string_length s2) = unat (string_length s) + length data"
    "unat (capacity s2) = max (unat (capacity s)) (unat (string_length s) + length data)"
    using append_bytes_fits[OF assms(1)] by blast
  then show ?thesis using assms by (auto simp: hpack_string_ok_def take_string_def)
qed

lemma hpack_string_eqI:
  "str s = str t \<Longrightarrow> unat (string_length s) = unat (string_length t) \<Longrightarrow>
     unat (capacity s) = unat (capacity t) \<Longrightarrow> s = (t :: grpc_chttp2_hpack_parser_string)"
  by (cases s, cases t) (simp add: word_unat_eq_iff)

lemma append_bytes_append:
  assumes "hpack_string_ok s"
  shows "append_bytes s (xs @ ys) = hpack_try (append_bytes s xs) (\<lambda>s1. append_bytes s1 ys)"
proof (cases "length xs + unat (string_length s) < 4294967296")
  case True
  obtain s1 where s1: "append_bytes s xs = Inr s1"
    "str s1 = take (unat (string_length s)) (str s) @ xs @ drop (unat (string_length s) + length xs) (str s)"
    "unat (string_length s1) = unat (string_length s) + length xs"
    "unat (capacity s1) = max (unat (capacity s)) (unat (string_length s) + length xs)"
    by (rule append_bytes_fits[OF assms True])
  from append_bytes_ok[OF assms s1(1)] have ok1: "hpack_string_ok s1" by simp
  show ?thesis
  proof (cases "length (xs @ ys) + unat (string_length s) < 4294967296")
    case fits: True
    obtain s2 where s2: "append_bytes s (xs @ ys) = Inr s2"
      "str s2 = take (unat (string_length s)) (str s) @ (xs @ ys) @ drop (unat (string_length s) + length (xs @ ys)) (str s)"
      "unat (string_length s2) = unat (string_length s) + length (xs @ ys)"
      "unat (capacity s2) = max (unat (capacity s)) (unat (string_length s) + length (xs @ ys))"
      by (rule append_bytes_fits[OF assms fits])
    have "length ys + unat (string_length s1) < 4294967296" using fits s1(3) by simp
    from append_bytes_fits[OF ok1 this] obtain s3 where s3: "append_bytes s1 ys = Inr s3"
      "str s3 = take (unat (string_length s1)) (str s1) @ ys @ drop (unat (string_length s1) + length ys) (str s1)"
      "unat (string_length s3) = unat (string_length s1) + length ys"
      "unat (capacity s3) = max (unat (capacity s1)) (unat (string_length s1) + length ys)" by blast
    have "length (take (unat (string_length s)) (str s)) = unat (string_length s)"
      using assms by (simp add: hpack_string_ok_def)
    then have "s2 = s3"
      by (intro hpack_string_eqI) (use s1 s2 s3 in \<open>auto simp: ac_simps\<close>)
    then show ?thesis by (simp add: s1(1) s2(1) s3(1))
  next
    case False
    then have "append_bytes s1 ys = Inl Hpack_string_overflow" "append_bytes s (xs @ ys) = Inl Hpack_string_overflow"
      using append_bytes_overflow[OF ok1, of ys] append_bytes_overflow[OF assms, of "xs @ ys"] s1(3) by auto
    then show ?thesis by (simp add: s1)
  qed
next
  case False
  then show ?thesis using append_bytes_overflow[OF assms, of xs] append_bytes_overflow[OF assms, of "xs @ ys"] by simp
qed

section \<open>Reading a string\<close>

text \<open>The table keeps its two arrays, and its positions stay inside the ring.\<close>

definition hptbl_shape :: "grpc_chttp2_hptbl \<Rightarrow> bool" where
  "hptbl_shape t \<longleftrightarrow>
     length (ents t) = 128 \<and> static_ents t = map (Some \<circ> hpack_static_mdelem) static_table \<and>
     unat (first_ent t) < 128 \<and> unat (last_ent t) < 128"

definition hpack_base :: "'u grpc_chttp2_hpack_parser \<Rightarrow> bool" where
  "hpack_base p \<longleftrightarrow>
     hpack_string_ok (key p) \<and> hpack_string_ok (value p) \<and> huff_state p < 256 \<and> hptbl_shape (table p)"

definition hpack_reading :: "'u grpc_chttp2_hpack_parser \<Rightarrow> bool" where
  "hpack_reading p \<longleftrightarrow> hpack_base p \<and> (parsing p = Parsing_key \<or> parsing p = Parsing_value)"

definition hpack_op_ok :: "hpack_fault + bool \<times> 'u grpc_chttp2_hpack_parser \<Rightarrow> bool" where
  "hpack_op_ok r = (case r of Inl e \<Rightarrow> e = Hpack_string_overflow | Inr (ok, q) \<Rightarrow> hpack_reading q)"

lemma hpack_op_ok_simps [simp]:
  "hpack_op_ok (Inl e) \<longleftrightarrow> e = Hpack_string_overflow"
  "hpack_op_ok (Inr (ok, q)) \<longleftrightarrow> hpack_reading q"
  by (simp_all add: hpack_op_ok_def)

lemma hpack_op_ok_try:
  "hpack_op_ok x \<Longrightarrow> (\<And>ok q. x = Inr (ok, q) \<Longrightarrow> hpack_reading q \<Longrightarrow> hpack_op_ok (f (ok, q))) \<Longrightarrow>
     hpack_op_ok (hpack_try x f)"
  by (cases x) auto

lemma append_to_parsing_ok:
  assumes "hpack_reading p" "\<And>q. append_to_parsing p data = Inr q \<Longrightarrow> hpack_reading q \<Longrightarrow> hpack_op_ok (f q)"
  shows "hpack_op_ok (hpack_try (append_to_parsing p data) f)"
proof (cases "append_to_parsing p data")
  case (Inl e)
  have "e' = Hpack_string_overflow" if "append_bytes s data = Inl e'" for s e'
    using that by (auto simp: append_bytes_def Let_def split: if_splits)
  with Inl assms(1) show ?thesis
    by (auto simp: append_to_parsing_def hpack_reading_def hpack_try_eq_Inl)
next
  case (Inr q)
  have "hpack_reading q"
  proof (cases "parsing p = Parsing_key")
    case True
    with Inr obtain s1 where "append_bytes (key p) data = Inr s1" "q = p\<lparr>key := s1\<rparr>"
      by (auto simp: append_to_parsing_def hpack_try_eq_Inr)
    with True assms(1) append_bytes_ok[of "key p" data s1] show ?thesis
      by (simp add: hpack_reading_def hpack_base_def)
  next
    case False
    with assms(1) have v: "parsing p = Parsing_value" by (simp add: hpack_reading_def)
    with Inr obtain s1 where "append_bytes (value p) data = Inr s1" "q = p\<lparr>value := s1\<rparr>"
      by (auto simp: append_to_parsing_def hpack_try_eq_Inr)
    with v assms(1) append_bytes_ok[of "value p" data s1] show ?thesis
      by (simp add: hpack_reading_def hpack_base_def)
  qed
  with assms(2)[OF Inr] Inr show ?thesis by simp
qed

lemma hpack_try_assoc: "hpack_try (hpack_try x f) g = hpack_try x (\<lambda>y. hpack_try (f y) g)"
  by (cases x) simp_all

lemma hpack_reading_update [simp]:
  "hpack_reading (p\<lparr>base64_buffer := b\<rparr>) = hpack_reading p"
  "hpack_reading (p\<lparr>binary := s\<rparr>) = hpack_reading p"
  by (simp_all add: hpack_reading_def hpack_base_def)

lemma append_base64_ok:
  "hpack_reading p \<Longrightarrow> st \<noteq> NOT_BINARY \<Longrightarrow> hpack_op_ok (append_base64 st p bs)"
proof (induction bs arbitrary: st p)
  case (Cons c cur)
  let ?b = "ucast (inverse_base64 ! unat c) :: u32"
  have "hpack_op_ok (hpack_try (base64_symbol st p ?b) (\<lambda>(st1, p1). append_base64 st1 p1 cur))"
  proof (cases st)
    case B64_BYTE3
    have "hpack_op_ok (hpack_try (append_to_parsing (p\<lparr>base64_buffer := buf\<rparr>) data)
            (\<lambda>p1. append_base64 B64_BYTE0 p1 cur))" for buf data
      using Cons by (intro append_to_parsing_ok) auto
    then show ?thesis using B64_BYTE3 by (simp add: Let_def hpack_try_assoc)
  qed (use Cons in auto)
  then show ?case using Cons by (simp add: Let_def)
qed simp

lemma append_string_ok: "hpack_reading p \<Longrightarrow> hpack_op_ok (append_string p bs)"
  by (auto simp: append_string_def intro: append_to_parsing_ok append_base64_ok split: binary_state.splits)

lemma huff_nibble_ok:
  assumes "hpack_reading p" "unat n < 16"
  shows "hpack_op_ok (huff_nibble p n)"
proof -
  have s: "huff_state p < 256" using assms(1) by (simp add: hpack_reading_def hpack_base_def)
  note t = huffman_lookup[OF s assms(2)]
  let ?emit = "emit_sub_tbl ! (16 * (emit_tbl ! huff_state p) + unat n)"
  let ?next = "next_sub_tbl ! (16 * (next_tbl ! huff_state p) + unat n)"
  have upd: "hpack_reading (q\<lparr>huff_state := ?next\<rparr>)" if "hpack_reading q" for q :: "'a grpc_chttp2_hpack_parser"
    using that t(3) by (simp add: hpack_reading_def hpack_base_def)
  have "huff_nibble p n =
    (if ?emit = -1 then Inr (True, p\<lparr>huff_state := ?next\<rparr>)
     else if ?emit < 256 then
       hpack_try (append_string p [of_int ?emit])
         (\<lambda>(ok, p1). if ok then Inr (True, p1\<lparr>huff_state := ?next\<rparr>) else Inr (False, p1))
     else Inr (True, p\<lparr>huff_state := ?next\<rparr>))"
    using t s by (simp add: huff_nibble_def huffman_table_lengths)
  then show ?thesis
    using assms(1) by (auto intro!: hpack_op_ok_try append_string_ok upd)
qed

lemma nibble_less: "unat (drop_bit 4 c :: u8) < 16" "unat (c AND 0xf :: u8) < 16"
proof -
  have "unat (drop_bit 4 c :: u8) = unat c div 16" by (simp only: unat_drop_bit_eq) (simp add: drop_bit_eq_div)
  then show "unat (drop_bit 4 c :: u8) < 16" using unsigned_less[of c, where 'a = nat] by simp
  have "c AND 0xf = take_bit 4 c" by (simp add: take_bit_eq_mask mask_eq_exp_minus_1)
  then have "unat (c AND 0xf) = take_bit 4 (unat c)" by (simp only: unsigned_take_bit_eq)
  then have "unat (c AND 0xf) = unat c mod 16" by (simp add: take_bit_eq_mod)
  then show "unat (c AND 0xf :: u8) < 16" by simp
qed

lemma add_huff_bytes_ok: "hpack_reading p \<Longrightarrow> hpack_op_ok (add_huff_bytes p bs)"
proof (induction bs arbitrary: p)
  case (Cons c cur)
  then show ?case
    by (auto intro!: hpack_op_ok_try huff_nibble_ok nibble_less)
qed simp

lemma add_str_bytes_ok: "hpack_reading p \<Longrightarrow> hpack_op_ok (add_str_bytes p bs)"
  by (simp add: add_str_bytes_def append_string_ok add_huff_bytes_ok)

lemma terminate_parsing_ok:
  assumes "hpack_reading p"
  shows "hpack_op_ok (terminate_parsing p)"
  unfolding terminate_parsing_def
proof (rule append_to_parsing_ok[OF assms])
  fix q assume q: "append_to_parsing p [0] = Inr q" "hpack_reading q"
  have "unat (string_length s1 - 1) \<le> unat (capacity s1)"
    if "hpack_string_ok s" "append_bytes s [0] = Inr s1" for s s1
  proof -
    from append_bytes_ok[OF that] have "unat (string_length s1) = Suc (unat (string_length s))" "hpack_string_ok s1" by auto
    then show ?thesis by (auto simp: hpack_string_ok_def unat_sub word_le_nat_alt)
  qed
  with q assms show "hpack_op_ok (Inr (True,
          if parsing q = Parsing_key
          then q\<lparr>key := (key q)\<lparr>string_length := string_length (key q) - 1\<rparr>\<rparr>
          else q\<lparr>value := (value q)\<lparr>string_length := string_length (value q) - 1\<rparr>\<rparr>))"
    by (auto simp: append_to_parsing_def hpack_reading_def hpack_base_def hpack_try_eq_Inr hpack_string_ok_def)
qed

lemma finish_str_ok: "hpack_reading p \<Longrightarrow> hpack_op_ok (finish_str p)"
  by (cases "binary p")
     (auto simp: finish_str_def intro!: terminate_parsing_ok append_to_parsing_ok)

section \<open>The table\<close>

lemma hptbl_init_shape: "hptbl_shape grpc_chttp2_hptbl_init"
  by (simp add: hptbl_shape_def grpc_chttp2_hptbl_init_def)

lemma evict1_shape: "hptbl_shape t \<Longrightarrow> evict1 t = Some t1 \<Longrightarrow> hptbl_shape t1"
  by (auto simp: evict1_def bind_eq_Some_conv hptbl_shape_def)

lemma evict_all_shape: "hptbl_shape t \<Longrightarrow> evict_all t = Some t1 \<Longrightarrow> hptbl_shape t1"
proof (induction t rule: evict_all.induct)
  case (1 t)
  from 1(3) show ?case
    by (subst (asm) evict_all.simps) (use 1 in \<open>auto simp: bind_eq_Some_conv evict1_shape split: if_splits\<close>)
qed

lemma evict_for_shape: "hptbl_shape t \<Longrightarrow> evict_for b t = Some t1 \<Longrightarrow> hptbl_shape t1"
proof (induction b t rule: evict_for.induct)
  case (1 b t)
  from 1(3) show ?case
    by (subst (asm) evict_for.simps) (use 1 in \<open>auto simp: bind_eq_Some_conv evict1_shape split: if_splits\<close>)
qed

lemma hptbl_add_shape:
  assumes "hptbl_shape t" "grpc_chttp2_hptbl_add t md = Some t1"
  shows "hptbl_shape t1"
proof (cases "(of_nat (hpack_entry_size md) :: u16) > max_bytes t")
  case True
  with assms show ?thesis by (auto simp: grpc_chttp2_hptbl_add_def intro: evict_all_shape)
next
  case False
  with assms(2) obtain t2 where t2: "evict_for (of_nat (hpack_entry_size md)) t = Some t2"
    and t1: "do { es \<leftarrow> c_write (ents t2) (unat (last_ent t2)) (Some md);
        Some (t2\<lparr>ents := es,
                last_ent := of_nat ((unat (last_ent t2) + 1) mod GRPC_CHTTP2_MAX_TABLE_COUNT),
                num_ents := num_ents t2 + 1,
                mem_used := mem_used t2 + of_nat (hpack_entry_size md)\<rparr>) } = Some t1"
    by (auto simp: grpc_chttp2_hptbl_add_def Let_def bind_eq_Some_conv)
  from evict_for_shape[OF assms(1) t2] t1 show ?thesis
    by (auto simp: hptbl_shape_def bind_eq_Some_conv c_write_eq_Some)
qed

lemma hptbl_lookup_shape:
  assumes "hptbl_shape t" "ix \<noteq> 0"
  shows "\<exists>e. grpc_chttp2_hptbl_lookup t ix = Some e"
proof (cases "ix \<le> 61")
  case True
  have "unat ix \<noteq> 0" "unat ix \<le> 61" using True assms(2) by (simp_all add: unat_eq_0 word_le_nat_alt)
  with assms True show ?thesis
    by (simp add: grpc_chttp2_hptbl_lookup_def hptbl_shape_def)
next
  case False
  have "unat (x mod 128 :: u32) < 128" for x by (simp add: unat_mod)
  with False assms show ?thesis
    by (simp add: grpc_chttp2_hptbl_lookup_def hptbl_shape_def Let_def)
qed

section \<open>What the next function needs\<close>

abbreviation "hpack_finish_idx \<equiv> {Finish_lithdr_incidx, Finish_lithdr_notidx, Finish_lithdr_nvridx}"
abbreviation "hpack_finish_v \<equiv> {Finish_lithdr_incidx_v, Finish_lithdr_notidx_v, Finish_lithdr_nvridx_v}"

text \<open>Continuations after an index, at a string's length, and inside a string.\<close>

definition plan_index :: "grpc_chttp2_hpack_parser_state list \<Rightarrow> bool" where
  "plan_index ns \<longleftrightarrow>
     ns = [Finish_indexed_field] \<or> ns = [Finish_max_tbl_size] \<or>
     (\<exists>f \<in> hpack_finish_idx. ns = [Parse_string_prefix, Parse_value_string_with_indexed_key, f])"

definition plan_prefix :: "u32 \<Rightarrow> grpc_chttp2_hpack_parser_state list \<Rightarrow> bool" where
  "plan_prefix ix ns \<longleftrightarrow>
     ix \<noteq> 0 \<and> (\<exists>f \<in> hpack_finish_idx. ns = [Parse_value_string_with_indexed_key, f]) \<or>
     (\<exists>f \<in> hpack_finish_v. ns = [Parse_key_string, Parse_string_prefix, Parse_value_string_with_literal_key, f] \<or>
                           ns = [Parse_value_string_with_literal_key, f])"

definition plan_string :: "'u grpc_chttp2_hpack_parser \<Rightarrow> bool" where
  "plan_string p \<longleftrightarrow>
     parsing p = Parsing_value \<and>
       (\<exists>f \<in> hpack_finish_idx. next_state p = [f] \<and>
          index p \<noteq> 0 \<and> grpc_chttp2_hptbl_lookup (table p) (index p) \<noteq> Some None) \<or>
     parsing p = Parsing_key \<and>
       (\<exists>f \<in> hpack_finish_v. next_state p = [Parse_string_prefix, Parse_value_string_with_literal_key, f]) \<or>
     parsing p = Parsing_value \<and> (\<exists>f \<in> hpack_finish_v. next_state p = [f])"

definition plan_value :: "nat \<Rightarrow> 'u grpc_chttp2_hpack_parser \<Rightarrow> bool" where
  "plan_value bound p \<longleftrightarrow>
     parsing p = Parsing_index \<and> 0 < unat (index p) \<and> unat (index p) < bound \<and> plan_index (next_state p) \<or>
     parsing p = Parsing_strlen \<and> plan_prefix (index p) (next_state p)"

fun hpack_ready :: "grpc_chttp2_hpack_parser_state \<Rightarrow> 'u grpc_chttp2_hpack_parser \<Rightarrow> bytes \<Rightarrow> bool" where
  "hpack_ready Parse_begin p bs = True"
| "hpack_ready Parse_error p bs = True"
| "hpack_ready Parse_stream_weight p bs = (after_prioritization p = Parse_begin)"
| "hpack_ready Parse_stream_dep3 p bs = (after_prioritization p = Parse_begin)"
| "hpack_ready Parse_stream_dep2 p bs = (after_prioritization p = Parse_begin)"
| "hpack_ready Parse_stream_dep1 p bs = (after_prioritization p = Parse_begin)"
| "hpack_ready Parse_stream_dep0 p bs = (after_prioritization p = Parse_begin)"
| "hpack_ready Parse_value0 p bs = plan_value 128 p"
| "hpack_ready Parse_value1 p bs = plan_value 256 p"
| "hpack_ready Parse_value2 p bs = plan_value 32768 p"
| "hpack_ready Parse_value3 p bs = plan_value 4194304 p"
| "hpack_ready Parse_value4 p bs = plan_value 536870912 p"
| "hpack_ready Parse_value5up p bs = plan_value 4294967296 p"
| "hpack_ready Parse_string_prefix p bs = plan_prefix (index p) (next_state p)"
| "hpack_ready Parse_string p bs = plan_string p"
| "hpack_ready Parse_key_string p bs =
     (\<exists>f \<in> hpack_finish_v. next_state p = [Parse_string_prefix, Parse_value_string_with_literal_key, f])"
| "hpack_ready Parse_value_string_with_indexed_key p bs =
     (index p \<noteq> 0 \<and> (\<exists>f \<in> hpack_finish_idx. next_state p = [f]))"
| "hpack_ready Parse_value_string_with_literal_key p bs = (\<exists>f \<in> hpack_finish_v. next_state p = [f])"
| "hpack_ready Finish_lithdr_incidx p bs =
     (index p \<noteq> 0 \<and> grpc_chttp2_hptbl_lookup (table p) (index p) \<noteq> Some None)"
| "hpack_ready Finish_lithdr_notidx p bs =
     (index p \<noteq> 0 \<and> grpc_chttp2_hptbl_lookup (table p) (index p) \<noteq> Some None)"
| "hpack_ready Finish_lithdr_nvridx p bs =
     (index p \<noteq> 0 \<and> grpc_chttp2_hptbl_lookup (table p) (index p) \<noteq> Some None)"
| "hpack_ready Finish_lithdr_incidx_v p bs = True"
| "hpack_ready Finish_lithdr_notidx_v p bs = True"
| "hpack_ready Finish_lithdr_nvridx_v p bs = True"
| "hpack_ready Finish_indexed_field p bs = (index p \<noteq> 0)"
| "hpack_ready Finish_max_tbl_size p bs = True"
| "hpack_ready Parse_next p bs =
     (plan_string p \<or> plan_prefix (index p) (next_state p) \<or> index p \<noteq> 0 \<and> plan_index (next_state p))"
| "hpack_ready f p bs = (\<exists>c cur. bs = c # cur \<and> first_byte_action (first_byte_lut ! unat c) = f)"

text \<open>The invariant between two calls of the parser.\<close>

definition hpack_parser_ok :: "'u grpc_chttp2_hpack_parser \<Rightarrow> bool" where
  "hpack_parser_ok p \<longleftrightarrow> hpack_base p \<and> hpack_ready (state p) p []"

section \<open>Every call keeps it\<close>

text \<open>The outcome of one call: no use of wrong memory, and what follows is ready.\<close>

definition hpack_step_ok :: "'u hpack_step \<Rightarrow> bool" where
  "hpack_step_ok r =
     (case r of
        Inl e \<Rightarrow> e \<noteq> Hpack_undefined
      | Inr (Hpack_return ok q) \<Rightarrow> ok \<longrightarrow> hpack_parser_ok q
      | Inr (Hpack_call g q cur) \<Rightarrow> hpack_base q \<and> hpack_ready g q cur)"

lemma hpack_step_ok_simps [simp]:
  "hpack_step_ok (Inl e) \<longleftrightarrow> e \<noteq> Hpack_undefined"
  "hpack_step_ok (Inr (Hpack_return ok q)) \<longleftrightarrow> (ok \<longrightarrow> hpack_parser_ok q)"
  "hpack_step_ok (Inr (Hpack_call g q cur)) \<longleftrightarrow> hpack_base q \<and> hpack_ready g q cur"
  by (simp_all add: hpack_step_ok_def)

lemma hpack_base_update [simp]:
  "hpack_base (p\<lparr>state := s\<rparr>) = hpack_base p"
  "hpack_base (p\<lparr>next_state := ns\<rparr>) = hpack_base p"
  "hpack_base (p\<lparr>index := ix\<rparr>) = hpack_base p"
  "hpack_base (p\<lparr>strlen := n\<rparr>) = hpack_base p"
  "hpack_base (p\<lparr>strgot := n\<rparr>) = hpack_base p"
  "hpack_base (p\<lparr>huff := h\<rparr>) = hpack_base p"
  "hpack_base (p\<lparr>binary := b\<rparr>) = hpack_base p"
  "hpack_base (p\<lparr>parsing := x\<rparr>) = hpack_base p"
  "hpack_base (p\<lparr>on_header_user_data := u\<rparr>) = hpack_base p"
  "hpack_base p \<Longrightarrow> hpack_base (p\<lparr>huff_state := 0\<rparr>)"
  by (auto simp: hpack_base_def)

text \<open>The state that a suspended parser stores does not matter to what is ready.\<close>

lemma plan_state [simp]:
  "plan_string (p\<lparr>state := s\<rparr>) = plan_string p"
  "plan_string (p\<lparr>strgot := n\<rparr>) = plan_string p"
  "plan_value b (p\<lparr>state := s\<rparr>) = plan_value b p"
  by (simp_all add: plan_string_def plan_value_def)

lemma hpack_step_ok_try:
  "(\<And>e. x = Inl e \<Longrightarrow> e \<noteq> Hpack_undefined) \<Longrightarrow> (\<And>y. x = Inr y \<Longrightarrow> hpack_step_ok (f y)) \<Longrightarrow>
     hpack_step_ok (hpack_try x f)"
  by (cases x) auto

lemma on_hdr_ok:
  assumes "hpack_base p" "\<And>q. hpack_base q \<Longrightarrow> hpack_step_ok (f q)"
  shows "hpack_step_ok (hpack_try (on_hdr p md a) f)"
proof (rule hpack_step_ok_try)
  fix e assume "on_hdr p md a = Inl e"
  then show "e \<noteq> Hpack_undefined"
    by (auto simp: on_hdr_def hpack_try_eq_Inl hpack_fault_if_none_def split: if_splits option.splits)
next
  fix q assume "on_hdr p md a = Inr q"
  then have "hpack_base q"
    using assms(1)
    by (auto simp: on_hdr_def hpack_try_eq_Inr hpack_fault_if_none_eq_Inr hpack_base_def
        split: if_splits option.splits) (blast intro: hptbl_add_shape)
  then show "hpack_step_ok (f q)" by (rule assms(2))
qed

lemma hpack_base_take:
  assumes "hpack_base p"
  shows "hpack_base (p\<lparr>key := (key p)\<lparr>string_length := 0\<rparr>\<rparr>)" "hpack_base (p\<lparr>value := (value p)\<lparr>string_length := 0\<rparr>\<rparr>)"
  using assms by (simp_all add: hpack_base_def hpack_string_ok_def)

lemma finish_lithdr_v_ok:
  assumes "hpack_base p"
  shows "hpack_step_ok (finish_lithdr_v a p bs)"
proof -
  have "hpack_base (snd (take_value (snd (take_key p))))"
    using assms by (simp add: take_value_def take_key_def hpack_base_def hpack_string_ok_def)
  then show ?thesis
    by (simp add: finish_lithdr_v_def Let_def split_def on_hdr_ok)
qed

lemma table_lookup_ok:
  assumes "hpack_base p" "ix \<noteq> 0"
  obtains e where "grpc_chttp2_hptbl_lookup (table p) ix = Some e"
  using assms hptbl_lookup_shape by (auto simp: hpack_base_def)

lemma finish_lithdr_ok:
  assumes "hpack_base p" "index p \<noteq> 0" "grpc_chttp2_hptbl_lookup (table p) (index p) \<noteq> Some None"
  shows "hpack_step_ok (finish_lithdr a p bs)"
proof -
  obtain e where e: "grpc_chttp2_hptbl_lookup (table p) (index p) = Some e"
    by (rule table_lookup_ok[OF assms(1,2)])
  with assms(3) obtain md where "e = Some md" by (cases e) auto
  moreover have "hpack_base (snd (take_value p))" using assms(1) by (simp add: take_value_def hpack_base_take)
  ultimately show ?thesis
    using e by (simp add: finish_lithdr_def Let_def split_def on_hdr_ok)
qed

lemma finish_indexed_field_ok:
  assumes "hpack_base p" "index p \<noteq> 0"
  shows "hpack_step_ok (finish_indexed_field p bs)"
proof -
  obtain e where e: "grpc_chttp2_hptbl_lookup (table p) (index p) = Some e"
    by (rule table_lookup_ok[OF assms])
  then show ?thesis using assms(1) by (cases e) (simp_all add: finish_indexed_field_def on_hdr_ok)
qed

lemma begin_parse_string_ok:
  assumes "hpack_base p" "ptr = Parsing_key \<or> ptr = Parsing_value" "plan_string (p\<lparr>parsing := ptr\<rparr>)"
  shows "hpack_step_ok (begin_parse_string p bs bin ptr)"
  using assms
  by (auto simp: begin_parse_string_def Let_def plan_string_def hpack_base_def hpack_string_ok_def)

lemma parse_value_string_with_indexed_key_ok:
  assumes "hpack_base p" "hpack_ready Parse_value_string_with_indexed_key p bs"
  shows "hpack_step_ok (parse_value_string_with_indexed_key p bs)"
proof -
  from assms(2) have ix: "index p \<noteq> 0" and ns: "\<exists>f \<in> hpack_finish_idx. next_state p = [f]" by simp_all
  obtain e where e: "grpc_chttp2_hptbl_lookup (table p) (index p) = Some e"
    by (rule table_lookup_ok[OF assms(1) ix])
  show ?thesis
  proof (cases e)
    case None
    with e show ?thesis by (simp add: parse_value_string_with_indexed_key_def is_binary_indexed_header_def)
  next
    case (Some md)
    have "plan_string (p\<lparr>parsing := Parsing_value\<rparr>)" using e Some ix ns by (simp add: plan_string_def)
    then show ?thesis
      using e Some assms(1)
      by (simp add: parse_value_string_with_indexed_key_def is_binary_indexed_header_def begin_parse_string_ok)
  qed
qed

lemma parse_value_string_with_literal_key_ok:
  assumes "hpack_base p" "hpack_ready Parse_value_string_with_literal_key p bs"
  shows "hpack_step_ok (parse_value_string_with_literal_key p bs)"
  using assms
  by (auto simp: parse_value_string_with_literal_key_def is_binary_literal_header_def plan_string_def
      intro!: begin_parse_string_ok)

lemma plan_string_same: "hpack_same_rest p q \<Longrightarrow> plan_string q = plan_string p"
  by (simp add: plan_string_def hpack_same_rest_def hpack_same_control_def)

lemma parse_string_ok:
  assumes "hpack_base p" "plan_string p"
  shows "hpack_step_ok (parse_string p bs)"
proof -
  have reading: "hpack_reading p" using assms by (auto simp: hpack_reading_def plan_string_def)
  have add: "case add_str_bytes p xs of Inl e \<Rightarrow> e \<noteq> Hpack_undefined
      | Inr (ok, q) \<Rightarrow> hpack_reading q \<and> plan_string q" for xs
    using add_str_bytes_ok[OF reading, of xs] add_str_bytes_frame[of p xs] plan_string_same assms(2)
    by (auto simp: hpack_op_ok_def split: sum.splits)
  have fin: "case finish_str q of Inl e \<Rightarrow> e \<noteq> Hpack_undefined | Inr (ok, r) \<Rightarrow> hpack_base r \<and> plan_string r"
    if "hpack_reading q" "plan_string q" for q :: "'a grpc_chttp2_hpack_parser"
    using finish_str_ok[OF that(1)] finish_str_frame[of q] plan_string_same that(2)
    by (auto simp: hpack_op_ok_def hpack_reading_def split: sum.splits)
  show ?thesis
  proof (cases "unat (strlen p - strgot p) \<le> length bs")
    case True
    show ?thesis
      using add[of "take (unat (strlen p - strgot p)) bs"] True
      by (auto simp: parse_string_def Let_def hpack_parser_ok_def intro!: hpack_step_ok_try dest: fin split: if_splits)
         (auto dest!: fin)
  next
    case False
    show ?thesis
      using add[of bs] False
      by (auto simp: parse_string_def Let_def hpack_parser_ok_def hpack_reading_def intro!: hpack_step_ok_try)
  qed
qed

section \<open>Integers\<close>

lemma low_bits: "unat (ucast (c AND 0x7f :: u8) :: u32) < 128"
proof -
  have "c AND 0x7f = take_bit 7 c" by (simp add: take_bit_eq_mask mask_eq_exp_minus_1)
  then have "unat (c AND 0x7f) = take_bit 7 (unat c)" by (simp only: unsigned_take_bit_eq)
  then show ?thesis by (simp add: take_bit_eq_mod)
qed

lemma unat_push_low:
  assumes "k \<le> 24"
  shows "unat (push_bit k (ucast (c AND 0x7f :: u8)) :: u32) = unat (ucast (c AND 0x7f :: u8) :: u32) * 2 ^ k"
proof -
  let ?x = "ucast (c AND 0x7f :: u8) :: u32"
  have "unat ?x * 2 ^ k < 128 * 2 ^ k" using low_bits[of c] by simp
  also have "128 * 2 ^ k \<le> (128 :: nat) * 2 ^ 24" using assms by (intro mult_left_mono power_increasing) auto
  finally have "unat ?x * 2 ^ k < 4294967296" by simp
  then show ?thesis
    by (simp only: unsigned_push_bit_eq) (simp add: push_bit_eq_mult take_bit_nat_eq_self)
qed

lemma unat_add_u32: "unat (a :: u32) + unat b < 4294967296 \<Longrightarrow> unat (a + b) = unat a + unat b"
  by (simp add: unat_word_ariths)

lemma plan_value_next:
  "plan_value b p \<Longrightarrow> hpack_ready Parse_next p bs"
  by (auto simp: plan_value_def unat_gt_0)

text \<open>Adding seven bits at \<open>k\<close> to an index below \<open>b\<close> stays below \<open>b2\<close>, without wrapping.\<close>

lemma plan_value_put:
  assumes "plan_value b p" "b + 127 * 2 ^ k \<le> b2" "b2 \<le> 4294967296" "k \<le> 24"
    "parsing_get p = Inr v"
  shows "plan_value b2 (parsing_put p (v + push_bit k (ucast (c AND 0x7f :: u8))))"
proof (cases "parsing p = Parsing_index")
  case True
  with assms(1,5) have p: "0 < unat (index p)" "unat (index p) < b" "plan_index (next_state p)" "v = index p"
    by (auto simp: plan_value_def parsing_get_def)
  have "unat (ucast (c AND 0x7f) :: u32) * 2 ^ k \<le> 127 * 2 ^ k" using low_bits[of c] by (intro mult_right_mono) auto
  then have "unat v + unat (push_bit k (ucast (c AND 0x7f)) :: u32) < b2"
    using p assms(2) by (simp only: unat_push_low[OF assms(4)])
  moreover from this assms(3) have "unat v + unat (push_bit k (ucast (c AND 0x7f)) :: u32) < 4294967296" by linarith
  ultimately have "unat (v + push_bit k (ucast (c AND 0x7f))) < b2" "0 < unat (v + push_bit k (ucast (c AND 0x7f)))"
    using p by (simp_all only: unat_add_u32)
  with True p(3) show ?thesis by (simp add: plan_value_def parsing_put_def)
next
  case False
  with assms(1) show ?thesis by (simp add: plan_value_def parsing_put_def)
qed

lemma parsing_put_base: "hpack_base p \<Longrightarrow> hpack_base (parsing_put p v)"
  by (simp add: parsing_put_def)

lemma parsing_get_plan: "plan_value b p \<Longrightarrow> \<exists>v. parsing_get p = Inr v"
  by (auto simp: plan_value_def parsing_get_def)

lemma parse_value_at_ok:
  fixes p :: "'u grpc_chttp2_hpack_parser"
  assumes "hpack_base p" "plan_value b p" "b + 127 * 2 ^ k \<le> b2" "b2 \<le> 4294967296" "k \<le> 24"
    "\<And>(q :: 'u grpc_chttp2_hpack_parser) bs. hpack_ready self q bs = plan_value b q"
    "\<And>(q :: 'u grpc_chttp2_hpack_parser) bs. hpack_ready nxt q bs = plan_value b2 q"
  shows "hpack_step_ok (parse_value_at self k nxt p bs)"
proof (cases bs)
  case Nil
  then show ?thesis using assms by (simp add: parse_value_at_def hpack_parser_ok_def)
next
  case (Cons c cur)
  obtain v where v: "parsing_get p = Inr v" using parsing_get_plan[OF assms(2)] by blast
  note put = plan_value_put[OF assms(2-5) v, of c]
  show ?thesis
    using Cons v put plan_value_next[OF put] parsing_put_base[OF assms(1)] assms(7)
    by (simp add: parse_value_at_def Let_def del: hpack_ready.simps)
qed

lemma parse_value4_ok:
  assumes "hpack_base p" "plan_value 536870912 p"
  shows "hpack_step_ok (parse_value4 p bs)"
proof (cases bs)
  case Nil
  then show ?thesis using assms by (simp add: parse_value4_def hpack_parser_ok_def)
next
  case (Cons b cur)
  obtain v where v: "parsing_get p = Inr v" using parsing_get_plan[OF assms(2)] by blast
  let ?a = "push_bit 28 (ucast (b AND 0x7f)) :: u32"
  have put: "plan_value 4294967296 (parsing_put p (v + ?a))" if "\<not> ?a > 0xffffffff - v"
  proof (cases "parsing p = Parsing_index")
    case True
    have "unat ?a \<le> unat (0xffffffff - v)" using that by (simp add: word_le_nat_alt not_less)
    also have "unat (0xffffffff - v) = 0xffffffff - unat v"
      by (subst unat_sub) (simp_all add: word_le_nat_alt, use unat_u32_less[of v] in linarith)
    finally have "unat v + unat ?a < 4294967296" using unat_u32_less[of v] by linarith
    then have "unat (v + ?a) = unat v + unat ?a" by (rule unat_add_u32)
    moreover have "unat v \<noteq> 0" using True assms(2) v by (auto simp: plan_value_def parsing_get_def)
    ultimately have "0 < unat (v + ?a)" by linarith
    with True assms(2) show ?thesis by (simp add: plan_value_def parsing_put_def)
  next
    case False
    with assms(2) show ?thesis by (simp add: plan_value_def parsing_put_def)
  qed
  show ?thesis
    using Cons v put plan_value_next[OF put] parsing_put_base[OF assms(1)] assms(1)
    by (simp add: parse_value4_def Let_def del: hpack_ready.simps(27))
qed

lemma parse_value5up_ok:
  "hpack_base p \<Longrightarrow> plan_value 4294967296 p \<Longrightarrow> hpack_step_ok (parse_value5up p bs)"
  by (induction bs) (auto simp: hpack_parser_ok_def plan_value_next simp del: hpack_ready.simps(27))

section \<open>The first byte\<close>

text \<open>No first byte stands for an index of 0 that is looked up.\<close>

lemma first_byte_lut_table:
  "list_all (\<lambda>(k, t). t =
      (if k = 0 then LITHDR_NOTIDX_V else if k < 15 then LITHDR_NOTIDX else if k = 15 then LITHDR_NOTIDX_X
       else if k = 16 then LITHDR_NVRIDX_V else if k < 31 then LITHDR_NVRIDX else if k = 31 then LITHDR_NVRIDX_X
       else if k = 32 then ILLEGAL else if k < 63 then MAX_TBL_SIZE else if k = 63 then MAX_TBL_SIZE_X
       else if k = 64 then LITHDR_INCIDX_V else if k < 127 then LITHDR_INCIDX else if k = 127 then LITHDR_INCIDX_X
       else if k = 128 then ILLEGAL else if k < 255 then INDEXED_FIELD else INDEXED_FIELD_X))
     (enumerate 0 first_byte_lut)"
  by code_simp

lemma first_byte_lut_length [simp]: "length first_byte_lut = 256"
  by (simp add: first_byte_lut_def)

lemma first_byte_lut_nth:
  "k < 256 \<Longrightarrow> first_byte_lut ! k =
      (if k = 0 then LITHDR_NOTIDX_V else if k < 15 then LITHDR_NOTIDX else if k = 15 then LITHDR_NOTIDX_X
       else if k = 16 then LITHDR_NVRIDX_V else if k < 31 then LITHDR_NVRIDX else if k = 31 then LITHDR_NVRIDX_X
       else if k = 32 then ILLEGAL else if k < 63 then MAX_TBL_SIZE else if k = 63 then MAX_TBL_SIZE_X
       else if k = 64 then LITHDR_INCIDX_V else if k < 127 then LITHDR_INCIDX else if k = 127 then LITHDR_INCIDX_X
       else if k = 128 then ILLEGAL else if k < 255 then INDEXED_FIELD else INDEXED_FIELD_X)"
  using first_byte_lut_table[unfolded list_all_length, rule_format, of k]
  by (simp only: nth_enumerate_eq length_enumerate first_byte_lut_length add_0 prod.case)

lemma first_byte_lut_nonzero:
  "list_all (\<lambda>(k, t).
      (t = INDEXED_FIELD \<longrightarrow> k mod 128 \<noteq> 0) \<and> (t = LITHDR_INCIDX \<longrightarrow> k mod 64 \<noteq> 0) \<and>
      (t = LITHDR_NOTIDX \<or> t = LITHDR_NVRIDX \<longrightarrow> k mod 16 \<noteq> 0)) (enumerate 0 first_byte_lut)"
  by code_simp

lemma first_byte_nonzero:
  fixes c :: u8
  shows
  "first_byte_lut ! unat c = INDEXED_FIELD \<Longrightarrow> ucast (c AND 0x7f) \<noteq> (0 :: u32)"
  "first_byte_lut ! unat c = LITHDR_INCIDX \<Longrightarrow> ucast (c AND 0x3f) \<noteq> (0 :: u32)"
  "first_byte_lut ! unat c = LITHDR_NOTIDX \<or> first_byte_lut ! unat c = LITHDR_NVRIDX \<Longrightarrow> ucast (c AND 0xf) \<noteq> (0 :: u32)"
proof -
  have c: "unat c < 256" using unsigned_less[of c, where 'a = nat] by simp
  have zero: "ucast (c AND mask k) = (0 :: u32) \<longleftrightarrow> unat c mod 2 ^ k = 0" for k
  proof -
    have "ucast (c AND mask k) = (0 :: u32) \<longleftrightarrow> unat (ucast (c AND mask k) :: u32) = 0" by (simp only: unat_eq_0)
    also have "\<dots> \<longleftrightarrow> unat (take_bit k c) = 0" by (simp only: unat_ucast_u8 flip: take_bit_eq_mask)
    also have "\<dots> \<longleftrightarrow> take_bit k (unat c) = 0" by (simp only: unsigned_take_bit_eq)
    also have "\<dots> \<longleftrightarrow> unat c mod 2 ^ k = 0" by (simp only: take_bit_eq_mod)
    finally show ?thesis .
  qed
  have m: "(0x7f :: u8) = mask 7" "(0x3f :: u8) = mask 6" "(0xf :: u8) = mask 4"
    by (simp_all add: mask_eq_exp_minus_1)
  note all = first_byte_lut_nonzero[unfolded list_all_length, rule_format, of "unat c"]
  show
    "first_byte_lut ! unat c = INDEXED_FIELD \<Longrightarrow> ucast (c AND 0x7f) \<noteq> (0 :: u32)"
    "first_byte_lut ! unat c = LITHDR_INCIDX \<Longrightarrow> ucast (c AND 0x3f) \<noteq> (0 :: u32)"
    "first_byte_lut ! unat c = LITHDR_NOTIDX \<or> first_byte_lut ! unat c = LITHDR_NVRIDX \<Longrightarrow> ucast (c AND 0xf) \<noteq> (0 :: u32)"
    using all c by (simp_all only: m zero) (auto simp: nth_enumerate_eq)
qed

lemma parse_begin_ok: "hpack_base p \<Longrightarrow> hpack_step_ok (parse_begin p bs)"
proof (cases bs)
  case (Cons c cur)
  then show "hpack_base p \<Longrightarrow> ?thesis"
    by (cases "first_byte_lut ! unat c") (simp_all add: parse_begin_def)
qed (simp add: parse_begin_def hpack_parser_ok_def)

text \<open>The functions for a first byte are ready for what follows.\<close>

lemma parse_action_ok:
  assumes "hpack_base p" "bs = c # cur" "first_byte_lut ! unat c = t"
  shows "hpack_step_ok (hpack_call (first_byte_action t) p bs)"
  using assms first_byte_nonzero[of c]
  by (cases t)
     (simp_all add: hpack_control_defs plan_prefix_def plan_value_def plan_index_def hpack_parser_ok_def)

lemma parse_skip_ok:
  assumes "hpack_base p" "hpack_ready self (p\<lparr>state := self\<rparr>) []" "\<And>bs. hpack_ready nxt p bs"
  shows "hpack_step_ok (parse_skip self nxt p bs)"
  using assms by (cases bs) (simp_all add: parse_skip_def hpack_parser_ok_def)

lemma parse_string_prefix_ok:
  assumes "hpack_base p" "plan_prefix (index p) (next_state p)"
  shows "hpack_step_ok (parse_string_prefix p bs)"
  using assms by (cases bs) (simp_all add: parse_string_prefix_def hpack_parser_ok_def plan_value_def Let_def)

lemma parse_next_ok:
  assumes "hpack_base p" "hpack_ready Parse_next p bs"
  shows "hpack_step_ok (parse_next p bs)"
proof -
  from assms(2) consider "plan_string p" | "plan_prefix (index p) (next_state p)" | "index p \<noteq> 0" "plan_index (next_state p)"
    by auto
  then show ?thesis
  proof cases
    case 1
    with assms(1) show ?thesis
      by (auto simp: parse_next_def plan_string_def plan_prefix_def)
  next
    case 2
    with assms(1) show ?thesis
      by (auto simp: parse_next_def plan_prefix_def)
  next
    case 3
    with assms(1) show ?thesis
      by (auto simp: parse_next_def plan_index_def plan_prefix_def)
  qed
qed

lemma parse_key_string_ok:
  assumes "hpack_base p" "hpack_ready Parse_key_string p bs"
  shows "hpack_step_ok (parse_key_string p bs)"
  using assms by (auto simp: parse_key_string_def plan_string_def intro!: begin_parse_string_ok)

lemma hpack_call_ok:
  assumes "hpack_base p" "hpack_ready f p bs"
  shows "hpack_step_ok (hpack_call f p bs)"
proof (cases "\<exists>c cur. bs = c # cur \<and> first_byte_action (first_byte_lut ! unat c) = f")
  case True
  with assms(1) show ?thesis by (auto intro: parse_action_ok)
next
  case not_first: False
  show ?thesis
  proof (cases f)
    case Parse_begin
    with assms show ?thesis by (simp add: parse_begin_ok)
  next
    case Parse_error
    with assms show ?thesis by (simp add: parse_error_def)
  next
    case Parse_next
    with assms parse_next_ok show ?thesis by (simp del: hpack_ready.simps)
  next
    case Parse_value0
    with assms show ?thesis by (simp add: parse_value0_def parse_value_at_ok[where b = 128 and ?b2.0 = 256])
  next
    case Parse_value1
    with assms show ?thesis by (simp add: parse_value1_def parse_value_at_ok[where b = 256 and ?b2.0 = 32768])
  next
    case Parse_value2
    with assms show ?thesis by (simp add: parse_value2_def parse_value_at_ok[where b = 32768 and ?b2.0 = 4194304])
  next
    case Parse_value3
    with assms show ?thesis by (simp add: parse_value3_def parse_value_at_ok[where b = 4194304 and ?b2.0 = 536870912])
  next
    case Parse_value_string_with_indexed_key
    with assms parse_value_string_with_indexed_key_ok show ?thesis by (simp del: hpack_ready.simps)
  next
    case Parse_value_string_with_literal_key
    with assms parse_value_string_with_literal_key_ok show ?thesis by (simp del: hpack_ready.simps)
  next
    case Parse_key_string
    with assms parse_key_string_ok show ?thesis by (simp del: hpack_ready.simps)
  qed (use assms not_first in \<open>simp_all add: parse_value4_ok parse_value5up_ok parse_string_prefix_ok
       parse_string_ok finish_lithdr_ok finish_lithdr_v_ok finish_indexed_field_ok hpack_finish_defs
       finish_max_tbl_size_def parse_stream_weight_def parse_stream_dep3_def parse_stream_dep2_def
       parse_stream_dep1_def parse_stream_dep0_def parse_skip_ok\<close>)
qed

lemma hpack_run_ok:
  "hpack_base p \<Longrightarrow> hpack_ready f p bs \<Longrightarrow>
     (case hpack_run f p bs of Inl e \<Rightarrow> e \<noteq> Hpack_undefined | Inr (ok, q) \<Rightarrow> ok \<longrightarrow> hpack_parser_ok q)"
proof (induction f p bs rule: hpack_run.induct)
  case (1 f p bs)
  note step = hpack_call_ok[OF 1(2,3)]
  show ?case
  proof (cases "hpack_call f p bs")
    case (Inl e)
    with step show ?thesis by (simp add: hpack_run_call)
  next
    case (Inr out)
    then show ?thesis
    proof (cases out)
      case (Hpack_return ok q)
      with Inr step show ?thesis by (simp add: hpack_run_call)
    next
      case (Hpack_call g q cur)
      with Inr step 1(1)[OF Inr Hpack_call] show ?thesis by (simp add: hpack_run_call)
    qed
  qed
qed

text \<open>Only the functions for a first byte depend on the input.\<close>

lemma hpack_ready_input: "hpack_ready f p [] \<Longrightarrow> hpack_ready f p bs"
  by (cases f) simp_all

section \<open>The parser\<close>

text \<open>The transport clears the memory of a new parser.\<close>

lemma hpack_parser_init_ok: "huff_state p = 0 \<Longrightarrow> hpack_parser_ok (grpc_chttp2_hpack_parser_init p)"
  by (simp add: hpack_parser_ok_def hpack_base_def grpc_chttp2_hpack_parser_init_def hpack_string_ok_def hptbl_init_shape)

lemma hpack_parser_set_has_priority_ok:
  "hpack_parser_ok p \<Longrightarrow> state p = Parse_begin \<Longrightarrow> hpack_parser_ok (grpc_chttp2_hpack_parser_set_has_priority p)"
  by (simp add: hpack_parser_ok_def grpc_chttp2_hpack_parser_set_has_priority_def hpack_base_def)

lemma hpack_parser_set_on_header_ok [simp]:
  "hpack_parser_ok (p\<lparr>on_header := f, on_header_user_data := u\<rparr>) = hpack_parser_ok p"
proof -
  have "hpack_ready s (p\<lparr>on_header := f, on_header_user_data := u\<rparr>) [] = hpack_ready s p []" for s
    by (cases s) (simp_all add: plan_value_def plan_string_def)
  then show ?thesis by (simp add: hpack_parser_ok_def hpack_base_def)
qed

text \<open>
  C12. What the HPACK parser cannot do: from a well-formed parser, and for every input, the run
  of the calls ends, and it never reads past a table, through the wrong member of the union,
  past the pending functions or past the input. When it reports success the parser is well
  formed again. The four other faults are not excluded: the use of a null element and an abort,
  which do happen, a string longer than 32 bits, and broken accounting in the table.
\<close>

theorem hpack_parse_safe:
  assumes "hpack_parser_ok p"
  shows "case grpc_chttp2_hpack_parser_parse p bs of
           Inl e \<Rightarrow> e \<in> {Hpack_null_element, Hpack_abort, Hpack_string_overflow, Hpack_table_fault}
         | Inr (ok, q) \<Rightarrow> ok \<longrightarrow> hpack_parser_ok q"
proof (cases "grpc_chttp2_hpack_parser_parse p bs")
  case (Inl e)
  with hpack_run_ok[of p "state p" bs] assms show ?thesis
    by (cases e) (auto simp: hpack_parser_ok_def grpc_chttp2_hpack_parser_parse_def hpack_ready_input)
next
  case (Inr r)
  with hpack_run_ok[of p "state p" bs] assms show ?thesis
    by (auto simp: hpack_parser_ok_def grpc_chttp2_hpack_parser_parse_def hpack_ready_input)
qed

text \<open>A parser that collects the headers it is given, on cleared memory.\<close>

definition collect_header :: "grpc_mdelem list option \<Rightarrow> grpc_mdelem \<Rightarrow> grpc_mdelem list option option" where
  "collect_header u md = Some (map_option (\<lambda>mds. mds @ [md]) u)"

definition example_hpack_parser :: "grpc_mdelem list grpc_chttp2_hpack_parser" where
  "example_hpack_parser =
     (grpc_chttp2_hpack_parser_init
       \<lparr> on_header = on_header_not_set, on_header_user_data = None, state = Parse_begin, next_state = [],
         after_prioritization = Parse_begin, parsing = Parsing_index,
         key = \<lparr> str = [], string_length = 0, capacity = 0 \<rparr>, value = \<lparr> str = [], string_length = 0, capacity = 0 \<rparr>,
         index = 0, strlen = 0, strgot = 0, huff_state = 0, binary = NOT_BINARY, huff = 0, is_boundary = 0, is_eof = 0,
         base64_buffer = 0, table = grpc_chttp2_hptbl_init \<rparr>)
       \<lparr>on_header := collect_header, on_header_user_data := Some []\<rparr>"

lemma example_hpack_parser_ok: "hpack_parser_ok example_hpack_parser"
  by (simp add: example_hpack_parser_def hpack_parser_init_ok)

theorem hpack_parse_safe_witness:
  "\<exists>q. grpc_chttp2_hpack_parser_parse example_hpack_parser [0x82] = Inr (True, q) \<and> hpack_parser_ok q \<and>
     on_header_user_data q = Some [hpack_static_mdelem ('':method'', ''GET'')]"
proof -
  have t: "first_byte_lut ! 130 = INDEXED_FIELD" "static_table ! Suc 0 = ('':method'', ''GET'')"
    by (simp_all add: first_byte_lut_nth static_table_def)
  have "\<exists>q. grpc_chttp2_hpack_parser_parse example_hpack_parser [0x82] = Inr (True, q) \<and>
      on_header_user_data q = Some [hpack_static_mdelem ('':method'', ''GET'')]"
    by (simp add: grpc_chttp2_hpack_parser_parse_def example_hpack_parser_def grpc_chttp2_hpack_parser_init_def
        hpack_run.simps parse_begin_def parse_indexed_field_def finish_indexed_field_def
        grpc_chttp2_hptbl_lookup_def grpc_chttp2_hptbl_init_def on_hdr_def collect_header_def t)
  then show ?thesis using hpack_parse_safe[OF example_hpack_parser_ok, of "[0x82]"] by auto
qed

section \<open>Inputs that end the process\<close>

text \<open>
  C17. A peer can crash the process with one byte: an indexed field whose index is
  past the table looks up to a null element, which the code dereferences without a
  check. The literal fields with the same index are rejected instead.
\<close>

theorem hpack_index_past_table_crashes:
  assumes "hptbl_ok (table p)" "state p = Parse_begin"
    "62 + length (hptbl_entries (table p)) \<le> unat ix" "unat ix < 127"
  shows "grpc_chttp2_hpack_parser_parse p ((0x80 + ix) # bs) = Inl Hpack_null_element"
proof -
  have n: "unat (0x80 + ix) = 128 + unat ix" using assms(4) by (simp add: unat_word_ariths)
  then have "first_byte_lut ! unat (0x80 + ix) = INDEXED_FIELD" using assms(3,4) by (simp add: first_byte_lut_nth)
  moreover have "(0x80 + ix) AND 0x7f = ix"
  proof (rule word_unat_eq_iff[THEN iffD2])
    have "(0x80 + ix) AND 0x7f = take_bit 7 (0x80 + ix)" by (simp add: take_bit_eq_mask mask_eq_exp_minus_1)
    then have "unat ((0x80 + ix) AND 0x7f) = take_bit 7 (unat (0x80 + ix))" by (simp only: unsigned_take_bit_eq)
    then show "unat ((0x80 + ix) AND 0x7f) = unat ix" using n assms(4) by (simp add: take_bit_eq_mod)
  qed
  moreover have "ucast ix \<noteq> (0 :: u32)" using assms(3) by (metis unat_ucast_u8 unat_0 add_leD1 not_numeral_le_zero)
  moreover have "\<not> unat ix - 62 < length (hptbl_entries (table p))" using assms(3) by linarith
  ultimately show ?thesis
    using hptbl_lookup_correct[OF assms(1), of "ucast ix"] assms(2,3)
    by (simp add: grpc_chttp2_hpack_parser_parse_def hpack_run.simps parse_begin_def parse_indexed_field_def
        finish_indexed_field_def)
qed

text \<open>
  C18. A peer can abort the process with one byte: a change of the maximum table
  size (RFC 7541, section 6.3) is answered by \<^verbatim>\<open>abort()\<close>.
\<close>

theorem hpack_max_table_size_aborts:
  assumes "state p = Parse_begin" "0x20 < c" "c < 0x3f"
  shows "grpc_chttp2_hpack_parser_parse p (c # bs) = Inl Hpack_abort"
proof -
  have "32 < unat c" "unat c < 63" using assms(2,3) by (simp_all add: word_less_nat_alt)
  then have "first_byte_lut ! unat c = MAX_TBL_SIZE" by (simp add: first_byte_lut_nth)
  then show ?thesis
    using assms(1)
    by (simp add: grpc_chttp2_hpack_parser_parse_def hpack_run.simps parse_begin_def parse_max_tbl_size_def
        finish_max_tbl_size_def)
qed

theorem hpack_index_past_table_crashes_witness:
  "grpc_chttp2_hpack_parser_parse example_hpack_parser [0xbe] = Inl Hpack_null_element"
proof -
  have ok: "hptbl_ok (table example_hpack_parser)" and es: "hptbl_entries (table example_hpack_parser) = []"
    using hptbl_rep_ok[OF hptbl_init_rep] hptbl_rep_entries[OF hptbl_init_rep]
    by (simp_all add: example_hpack_parser_def grpc_chttp2_hpack_parser_init_def)
  have st: "state example_hpack_parser = Parse_begin"
    by (simp add: example_hpack_parser_def grpc_chttp2_hpack_parser_init_def)
  show ?thesis using hpack_index_past_table_crashes[OF ok st, of 62 "[]"] by (simp add: es)
qed

theorem hpack_max_table_size_aborts_witness:
  "grpc_chttp2_hpack_parser_parse example_hpack_parser [0x3e] = Inl Hpack_abort"
  by (rule hpack_max_table_size_aborts) (simp_all add: example_hpack_parser_def grpc_chttp2_hpack_parser_init_def)

end
