(* ===== verification/Hpack_Parser_Chunks.thy ===== *)
theory Hpack_Parser_Chunks
  imports Hpack_Parser_Safety
begin

text \<open>
  The HPACK parser is incremental: how the bytes of a header block are cut into
  slices does not matter to the headers it reports, to its table, to its answer,
  nor to the state it continues from.
\<close>

section \<open>Changes that reading a string does not see\<close>

text \<open>
  An update of the parser that leaves the two strings and the base64 state alone
  commutes with every operation on strings.
\<close>

locale hpack_string_blind =
  fixes u :: "'u grpc_chttp2_hpack_parser \<Rightarrow> 'u grpc_chttp2_hpack_parser"
  assumes reads:
      "key (u p) = key p" "value (u p) = value p" "parsing (u p) = parsing p" "binary (u p) = binary p"
      "base64_buffer (u p) = base64_buffer p"
    and writes:
      "u (p\<lparr>key := k\<rparr>) = (u p)\<lparr>key := k\<rparr>" "u (p\<lparr>value := k\<rparr>) = (u p)\<lparr>value := k\<rparr>"
      "u (p\<lparr>binary := b\<rparr>) = (u p)\<lparr>binary := b\<rparr>" "u (p\<lparr>base64_buffer := x\<rparr>) = (u p)\<lparr>base64_buffer := x\<rparr>"
begin

abbreviation both :: "hpack_fault + bool \<times> 'u grpc_chttp2_hpack_parser \<Rightarrow> hpack_fault + bool \<times> 'u grpc_chttp2_hpack_parser" where
  "both r \<equiv> hpack_try r (\<lambda>y. Inr (fst y, u (snd y)))"

lemma append_to_parsing: "append_to_parsing (u p) d = hpack_try (append_to_parsing p d) (\<lambda>q. Inr (u q))"
  by (simp add: append_to_parsing_def reads writes hpack_try_assoc split: hpack_parsing.splits)

lemma base64_symbol: "base64_symbol st (u p) b = hpack_try (base64_symbol st p b) (\<lambda>y. Inr (fst y, u (snd y)))"
  by (cases st) (simp_all add: reads Let_def append_to_parsing hpack_try_assoc writes flip: writes(4))

lemma append_base64: "append_base64 st (u p) bs = both (append_base64 st p bs)"
proof (induction bs arbitrary: st p)
  case (Cons c cur)
  then show ?case by (simp add: Let_def base64_symbol hpack_try_assoc split_def)
qed (simp add: writes)

lemma append_string: "append_string (u p) bs = both (append_string p bs)"
  by (simp add: append_string_def reads append_to_parsing append_base64 hpack_try_assoc split: binary_state.splits)

lemma both_if: "both (if b then x else y) = (if b then both x else both y)"
  by simp

lemma terminate_parsing: "terminate_parsing (u p) = both (terminate_parsing p)"
  by (simp add: terminate_parsing_def append_to_parsing hpack_try_assoc reads writes if_distrib[of u] cong: if_cong)

lemma finish_str: "finish_str (u p) = both (finish_str p)"
  by (simp add: finish_str_def reads terminate_parsing append_to_parsing hpack_try_assoc split: binary_state.splits)

end

text \<open>One that leaves the Huffman state, the table and the callback alone too.\<close>

locale hpack_blind = hpack_string_blind +
  assumes reads_more:
      "huff_state (u p) = huff_state p" "huff (u p) = huff p" "table (u p) = table p"
      "on_header (u p) = on_header p" "on_header_user_data (u p) = on_header_user_data p"
    and writes_more:
      "u (p\<lparr>huff_state := h\<rparr>) = (u p)\<lparr>huff_state := h\<rparr>" "u (p\<lparr>table := t\<rparr>) = (u p)\<lparr>table := t\<rparr>"
      "u (p\<lparr>on_header_user_data := d\<rparr>) = (u p)\<lparr>on_header_user_data := d\<rparr>"
begin

lemma huff_nibble: "huff_nibble (u p) n = both (huff_nibble p n)"
  by (simp add: huff_nibble_def reads_more append_string hpack_try_assoc split_def both_if writes_more cong: if_cong)

lemma add_huff_bytes: "add_huff_bytes (u p) bs = both (add_huff_bytes p bs)"
proof (induction bs arbitrary: p)
  case (Cons c cur)
  then show ?case by (simp add: huff_nibble hpack_try_assoc split_def both_if cong: if_cong)
qed simp

lemma add_str_bytes: "add_str_bytes (u p) bs = both (add_str_bytes p bs)"
  by (simp add: add_str_bytes_def reads_more add_huff_bytes append_string)

lemma on_hdr: "on_hdr (u p) md a = hpack_try (on_hdr p md a) (\<lambda>q. Inr (u q))"
  by (cases a; cases "grpc_chttp2_hptbl_add (table p) md"; cases "on_header p (on_header_user_data p) md")
     (simp_all add: on_hdr_def reads_more writes_more)

end

definition set_control ::
    "grpc_chttp2_hpack_parser_state \<Rightarrow> u32 \<Rightarrow> 'u grpc_chttp2_hpack_parser \<Rightarrow> 'u grpc_chttp2_hpack_parser" where
  "set_control s g p = p\<lparr>state := s, strgot := g\<rparr>"

interpretation control: hpack_blind "set_control s g" for s g
  by unfold_locales (simp_all add: set_control_def)

interpretation huff: hpack_string_blind "huff_state_update (\<lambda>_. h)" for h
  by unfold_locales simp_all

section \<open>Strings in pieces\<close>

definition hpack_seq ::
    "hpack_fault + bool \<times> 'u grpc_chttp2_hpack_parser \<Rightarrow>
     ('u grpc_chttp2_hpack_parser \<Rightarrow> hpack_fault + bool \<times> 'u grpc_chttp2_hpack_parser) \<Rightarrow>
     hpack_fault + bool \<times> 'u grpc_chttp2_hpack_parser" where
  "hpack_seq x f = hpack_try x (\<lambda>(ok, q). if ok then f q else Inr (False, q))"

lemma hpack_seq_simps [simp]:
  "hpack_seq (Inl e) f = Inl e"
  "hpack_seq (Inr (True, q)) f = f q"
  "hpack_seq (Inr (False, q)) f = Inr (False, q)"
  by (simp_all add: hpack_seq_def)

lemma hpack_seq_assoc: "hpack_seq (hpack_seq x f) g = hpack_seq x (\<lambda>q. hpack_seq (f q) g)"
  by (auto simp: hpack_seq_def hpack_try_def split: sum.splits)

text \<open>The same fault, the same answer, and on success the same parser.\<close>

definition string_agree ::
    "hpack_fault + bool \<times> 'u grpc_chttp2_hpack_parser \<Rightarrow> hpack_fault + bool \<times> 'u grpc_chttp2_hpack_parser \<Rightarrow> bool" where
  "string_agree x y \<longleftrightarrow>
     (case x of Inl e \<Rightarrow> y = Inl e | Inr (ok, q) \<Rightarrow> \<exists>q1. y = Inr (ok, q1) \<and> (ok \<longrightarrow> q1 = q))"

lemma string_agree_refl [simp]: "string_agree x x"
  by (auto simp: string_agree_def split: sum.splits)

lemma string_agree_simps [simp]:
  "string_agree (Inl e) y \<longleftrightarrow> y = Inl e"
  "string_agree (Inr (True, q)) y \<longleftrightarrow> y = Inr (True, q)"
  "string_agree (Inr (False, q)) y \<longleftrightarrow> (\<exists>q1. y = Inr (False, q1))"
  by (auto simp: string_agree_def)

lemma base64_symbol_binary:
  "base64_symbol st (p\<lparr>binary := b\<rparr>) x = hpack_try (base64_symbol st p x) (\<lambda>y. Inr (fst y, (snd y)\<lparr>binary := b\<rparr>))"
proof (cases st)
  case B64_BYTE3
  have "append_to_parsing (p\<lparr>binary := b, base64_buffer := v\<rparr>) d =
      hpack_try (append_to_parsing (p\<lparr>base64_buffer := v\<rparr>) d) (\<lambda>q. Inr (q\<lparr>binary := b\<rparr>))" for v d
    by (cases "parsing p"; cases "append_bytes (key p) d"; cases "append_bytes (value p) d")
       (simp_all add: append_to_parsing_def)
  with B64_BYTE3 show ?thesis by (simp add: Let_def hpack_try_assoc)
qed simp_all

lemma append_base64_binary:
  fixes p :: "'u grpc_chttp2_hpack_parser"
  shows "string_agree (append_base64 st p bs) (append_base64 st (p\<lparr>binary := b\<rparr>) bs)"
proof (induction bs arbitrary: st p)
  case (Cons c cur)
  have "string_agree (hpack_try x (\<lambda>y. append_base64 (fst y) (snd y) cur))
     (hpack_try x (\<lambda>y. append_base64 (fst y) ((snd y)\<lparr>binary := b\<rparr>) cur))"
    for x :: "hpack_fault + binary_state \<times> 'u grpc_chttp2_hpack_parser"
    using Cons.IH by (cases x) auto
  with Cons.IH show ?case by (auto simp: Let_def base64_symbol_binary hpack_try_assoc split_def)
qed simp

lemma append_base64_append:
  "string_agree (append_base64 st p (xs @ ys)) (hpack_seq (append_base64 st p xs) (\<lambda>p1. append_base64 (binary p1) p1 ys))"
proof (induction xs arbitrary: st p)
  case Nil
  then show ?case by (simp add: append_base64_binary)
next
  case (Cons c cur)
  let ?b = "ucast (inverse_base64 ! unat c) :: u32"
  show ?case
  proof (cases "base64_symbol st p ?b")
    case (Inr y)
    with Cons.IH show ?thesis by (cases y) (auto simp: Let_def)
  qed (use Cons.IH in \<open>auto simp: Let_def\<close>)
qed

lemma append_base64_binary_state:
  "append_base64 st p bs = Inr (True, q) \<Longrightarrow> st \<noteq> NOT_BINARY \<Longrightarrow> binary q \<noteq> NOT_BINARY"
proof (induction bs arbitrary: st p)
  case (Cons c cur)
  let ?b = "ucast (inverse_base64 ! unat c) :: u32"
  show ?case
  proof (cases "?b = 255 \<or> ?b = 64")
    case True
    with Cons show ?thesis by auto
  next
    case False
    with Cons.prems(1) obtain st1 p1 where s: "base64_symbol st p ?b = Inr (st1, p1)" "append_base64 st1 p1 cur = Inr (True, q)"
      by (auto simp: hpack_try_eq_Inr)
    moreover have "st1 \<noteq> NOT_BINARY" using s(1) Cons.prems(2) by (cases st) (auto simp: Let_def hpack_try_eq_Inr)
    ultimately show ?thesis using Cons.IH by blast
  qed
qed auto

lemma append_to_parsing_append:
  assumes "hpack_reading p"
  shows "append_to_parsing p (xs @ ys) = hpack_try (append_to_parsing p xs) (\<lambda>p1. append_to_parsing p1 ys)"
  using assms
  by (auto simp: append_to_parsing_def hpack_reading_def hpack_base_def append_bytes_append hpack_try_assoc
      split: hpack_parsing.splits)

lemma append_string_append:
  assumes "hpack_reading p"
  shows "string_agree (append_string p (xs @ ys)) (hpack_seq (append_string p xs) (\<lambda>p1. append_string p1 ys))"
proof (cases "binary p = NOT_BINARY")
  case True
  have "binary q = NOT_BINARY" if "append_to_parsing p xs = Inr q" for q
    using append_to_parsing_frame[OF that] True by simp
  with True show ?thesis
    by (cases "append_to_parsing p xs") (auto simp: append_string_def append_to_parsing_append[OF assms])
next
  case False
  then have s: "append_string p bs = append_base64 (binary p) p bs" for bs
    by (simp add: append_string_def split: binary_state.splits)
  have "append_string q ys = append_base64 (binary q) q ys" if "append_base64 (binary p) p xs = Inr (True, q)" for q
    using append_base64_binary_state[OF that False] by (simp add: append_string_def split: binary_state.splits)
  then have "hpack_seq (append_string p xs) (\<lambda>p1. append_string p1 ys) =
      hpack_seq (append_base64 (binary p) p xs) (\<lambda>p1. append_base64 (binary p1) p1 ys)"
    unfolding s by (auto simp: hpack_seq_def hpack_try_def split: sum.splits)
  then show ?thesis using append_base64_append[of "binary p" p xs ys] by (simp add: s)
qed

lemma add_huff_bytes_append: "add_huff_bytes p (xs @ ys) = hpack_seq (add_huff_bytes p xs) (\<lambda>p1. add_huff_bytes p1 ys)"
proof (induction xs arbitrary: p)
  case (Cons c cur)
  then show ?case
    by (auto simp: hpack_try_def split: sum.splits)
qed simp

lemma hpack_seq_cong: "(\<And>q. x = Inr (True, q) \<Longrightarrow> f q = g q) \<Longrightarrow> hpack_seq x f = hpack_seq x g"
  by (auto simp: hpack_seq_def hpack_try_def split: sum.splits)

lemma add_str_bytes_append:
  assumes "hpack_reading p"
  shows "string_agree (add_str_bytes p (xs @ ys)) (hpack_seq (add_str_bytes p xs) (\<lambda>p1. add_str_bytes p1 ys))"
proof -
  have huff: "huff q = huff p" if "add_str_bytes p xs = Inr (True, q)" for q
    using add_str_bytes_frame[OF that] by (simp add: hpack_same_rest_def hpack_same_control_def)
  show ?thesis
  proof (cases "huff p = 0")
    case True
    have p: "add_str_bytes p bs = append_string p bs" for bs using True by (simp add: add_str_bytes_def)
    have "add_str_bytes q ys = append_string q ys" if "add_str_bytes p xs = Inr (True, q)" for q
      using huff[OF that] True by (simp add: add_str_bytes_def)
    from hpack_seq_cong[OF this] show ?thesis using append_string_append[OF assms] by (simp add: p)
  next
    case False
    have p: "add_str_bytes p bs = add_huff_bytes p bs" for bs using False by (simp add: add_str_bytes_def)
    have "add_str_bytes q ys = add_huff_bytes q ys" if "add_str_bytes p xs = Inr (True, q)" for q
      using huff[OF that] False by (simp add: add_str_bytes_def)
    from hpack_seq_cong[OF this] show ?thesis by (simp add: p add_huff_bytes_append)
  qed
qed

section \<open>Parsers that differ in stale fields\<close>

text \<open>
  A function overwrites the stored state before it suspends, and only the reading
  of a string depends on the count of its bytes.
\<close>

definition control_sim ::
    "grpc_chttp2_hpack_parser_state \<Rightarrow> 'u grpc_chttp2_hpack_parser \<Rightarrow> 'u grpc_chttp2_hpack_parser \<Rightarrow> bool" where
  "control_sim f p q \<longleftrightarrow>
     q = set_control (state q) (strgot q) p \<and> (f = Parse_string \<longrightarrow> strgot q = strgot p)"

text \<open>
  Equality of suspended parsers: everything but the count of the bytes of a string,
  and that too while a string is being read.
\<close>

definition hpack_same :: "'u grpc_chttp2_hpack_parser \<Rightarrow> 'u grpc_chttp2_hpack_parser \<Rightarrow> bool" where
  "hpack_same p q \<longleftrightarrow> state q = state p \<and> control_sim (state p) p q"

lemma control_simI:
  "q = set_control s g p \<Longrightarrow> (f = Parse_string \<Longrightarrow> g = strgot p) \<Longrightarrow> control_sim f p q"
  by (simp add: control_sim_def set_control_def)

lemma control_sim_self [simp]: "control_sim f p p"
  by (simp add: control_sim_def set_control_def)

lemma hpack_same_refl [simp]: "hpack_same p p"
  by (simp add: hpack_same_def)

lemma hpack_same_sym: "hpack_same p q \<Longrightarrow> hpack_same q p"
  by (cases p; cases q) (auto simp: hpack_same_def control_sim_def set_control_def)

lemma hpack_same_trans: "hpack_same p q \<Longrightarrow> hpack_same q r \<Longrightarrow> hpack_same p r"
  by (cases p; cases q; cases r) (auto simp: hpack_same_def control_sim_def set_control_def)

text \<open>The part that a caller sees after an error.\<close>

definition hpack_visible :: "'u grpc_chttp2_hpack_parser \<Rightarrow> grpc_chttp2_hptbl \<times> 'u option" where
  "hpack_visible p = (table p, on_header_user_data p)"

definition hpack_agree ::
    "hpack_fault + bool \<times> 'u grpc_chttp2_hpack_parser \<Rightarrow> hpack_fault + bool \<times> 'u grpc_chttp2_hpack_parser \<Rightarrow> bool" where
  "hpack_agree x y \<longleftrightarrow>
     (case (x, y) of
        (Inl e, Inl e1) \<Rightarrow> e = e1
      | (Inr (ok, q), Inr (ok1, q1)) \<Rightarrow>
          ok = ok1 \<and> hpack_visible q = hpack_visible q1 \<and> (ok \<longrightarrow> hpack_same q q1)
      | _ \<Rightarrow> False)"

lemma hpack_agree_simps [simp]:
  "hpack_agree (Inl e) (Inl e1) \<longleftrightarrow> e = e1"
  "hpack_agree (Inl e) (Inr r) \<longleftrightarrow> False"
  "hpack_agree (Inr r) (Inl e) \<longleftrightarrow> False"
  "hpack_agree (Inr (ok, q)) (Inr (ok1, q1)) \<longleftrightarrow>
     ok = ok1 \<and> hpack_visible q = hpack_visible q1 \<and> (ok \<longrightarrow> hpack_same q q1)"
  by (auto simp: hpack_agree_def split: prod.splits)

lemma hpack_agree_refl [simp]: "hpack_agree x x"
  by (cases x) auto

lemma hpack_agree_sym: "hpack_agree x y \<Longrightarrow> hpack_agree y x"
  by (cases x; cases y) (auto intro: hpack_same_sym)

lemma hpack_agree_trans: "hpack_agree x y \<Longrightarrow> hpack_agree y z \<Longrightarrow> hpack_agree x z"
  by (cases x; cases y; cases z) (auto intro: hpack_same_trans)

definition step_sim :: "'u hpack_step \<Rightarrow> 'u hpack_step \<Rightarrow> bool" where
  "step_sim r r1 \<longleftrightarrow>
     (case r of
        Inl e \<Rightarrow> r1 = Inl e
      | Inr (Hpack_return ok q) \<Rightarrow>
          (\<exists>q1. r1 = Inr (Hpack_return ok q1) \<and> hpack_visible q = hpack_visible q1 \<and> (ok \<longrightarrow> hpack_same q q1))
      | Inr (Hpack_call g q cur) \<Rightarrow> (\<exists>q1. r1 = Inr (Hpack_call g q1 cur) \<and> control_sim g q q1))"

lemma step_sim_simps [simp]:
  "step_sim (Inl e) r1 \<longleftrightarrow> r1 = Inl e"
  "step_sim (Inr (Hpack_return ok q)) r1 \<longleftrightarrow>
     (\<exists>q1. r1 = Inr (Hpack_return ok q1) \<and> hpack_visible q = hpack_visible q1 \<and> (ok \<longrightarrow> hpack_same q q1))"
  "step_sim (Inr (Hpack_call g q cur)) r1 \<longleftrightarrow> (\<exists>q1. r1 = Inr (Hpack_call g q1 cur) \<and> control_sim g q q1)"
  by (simp_all add: step_sim_def)

lemma step_sim_try: "(\<And>y. x = Inr y \<Longrightarrow> step_sim (f y) (g y)) \<Longrightarrow> step_sim (hpack_try x f) (hpack_try x g)"
  by (cases x) auto

lemma step_sim_suspend:
  "f \<noteq> Parse_string \<Longrightarrow> step_sim (hpack_suspend f p) (hpack_suspend f (set_control s g p))"
  by (auto simp: set_control_def hpack_visible_def hpack_same_def control_sim_def)

lemma set_control_commute:
  "(set_control s g p)\<lparr>index := i\<rparr> = set_control s g (p\<lparr>index := i\<rparr>)"
  "(set_control s g p)\<lparr>strlen := i\<rparr> = set_control s g (p\<lparr>strlen := i\<rparr>)"
  "(set_control s g p)\<lparr>parsing := x\<rparr> = set_control s g (p\<lparr>parsing := x\<rparr>)"
  "(set_control s g p)\<lparr>next_state := ns\<rparr> = set_control s g (p\<lparr>next_state := ns\<rparr>)"
  "(set_control s g p)\<lparr>huff := h\<rparr> = set_control s g (p\<lparr>huff := h\<rparr>)"
  "(set_control s g p)\<lparr>key := k\<rparr> = set_control s g (p\<lparr>key := k\<rparr>)"
  "(set_control s g p)\<lparr>value := k\<rparr> = set_control s g (p\<lparr>value := k\<rparr>)"
  by (simp_all add: set_control_def)

lemma set_control_reads [simp]:
  "index (set_control s g p) = index p" "strlen (set_control s g p) = strlen p"
  "parsing (set_control s g p) = parsing p" "next_state (set_control s g p) = next_state p"
  "after_prioritization (set_control s g p) = after_prioritization p" "table (set_control s g p) = table p"
  "key (set_control s g p) = key p" "value (set_control s g p) = value p" "huff (set_control s g p) = huff p"
  "strgot (set_control s g p) = g" "state (set_control s g p) = s" "binary (set_control s g p) = binary p"
  "on_header_user_data (set_control s g p) = on_header_user_data p"
  by (simp_all add: set_control_def)

lemma control_sim_set: "f \<noteq> Parse_string \<Longrightarrow> control_sim f p (set_control s g p)"
  by (rule control_simI[OF refl]) simp

lemma parsing_set_control:
  "parsing_get (set_control s g p) = parsing_get p"
  "parsing_put (set_control s g p) v = set_control s g (parsing_put p v)"
  by (auto simp: parsing_get_def parsing_put_def set_control_commute split: hpack_parsing.splits)

lemma parse_value_at_sim:
  assumes "self \<noteq> Parse_string" "nxt \<noteq> Parse_string"
  shows "step_sim (parse_value_at self k nxt p bs) (parse_value_at self k nxt (set_control s g p) bs)"
proof (cases bs)
  case Nil
  then show ?thesis using step_sim_suspend[OF assms(1)] by (simp add: parse_value_at_def)
next
  case (Cons c cur)
  then show ?thesis
    using assms(2) by (auto simp: parse_value_at_def parsing_set_control Let_def control_sim_set intro!: step_sim_try)
qed

lemma parse_error_sim: "step_sim (parse_error p bs) (parse_error (set_control s g p) bs)"
  by (simp add: parse_error_def hpack_visible_def set_control_def)

lemma parse_value4_sim: "step_sim (parse_value4 p bs) (parse_value4 (set_control s g p) bs)"
proof (cases bs)
  case Nil
  then show ?thesis using step_sim_suspend[of Parse_value4] by (simp add: parse_value4_def)
next
  case (Cons c cur)
  then show ?thesis
    by (auto simp: parse_value4_def parsing_set_control Let_def control_sim_set intro!: step_sim_try)
qed

lemma parse_value5up_sim: "step_sim (parse_value5up p bs) (parse_value5up (set_control s g p) bs)"
proof (induction bs)
  case Nil
  then show ?case using step_sim_suspend[of Parse_value5up] by simp
qed (auto simp: control_sim_set)

lemma parse_skip_sim:
  assumes "self \<noteq> Parse_string" "nxt \<noteq> Parse_string"
  shows "step_sim (parse_skip self nxt p bs) (parse_skip self nxt (set_control s g p) bs)"
  using step_sim_suspend[OF assms(1)] assms(2) by (cases bs) (auto simp: parse_skip_def control_sim_set)

lemma begin_parse_string_sim:
  "step_sim (begin_parse_string p bs b ptr) (begin_parse_string (set_control s g p) bs b ptr)"
  by (auto simp: begin_parse_string_def Let_def set_control_def intro!: control_simI[where s = s])

lemma parse_value_string_sim:
  "step_sim (parse_value_string p bs t) (parse_value_string (set_control s g p) bs t)"
  by (cases t) (auto simp: hpack_visible_def intro: begin_parse_string_sim)

lemma parse_string_sim:
  assumes "control_sim Parse_string p q"
  shows "step_sim (parse_string p bs) (parse_string q bs)"
proof -
  obtain s where q: "q = set_control s (strgot p) p"
    using assms unfolding control_sim_def by metis
  have fin: "step_sim
      (hpack_try (finish_str p1) (\<lambda>(ok, p2). if \<not> ok then Inr (Hpack_return False p2) else Inr (Hpack_call Parse_next p2 cur)))
      (hpack_try (finish_str (set_control s (strgot p) p1))
         (\<lambda>(ok, p2). if \<not> ok then Inr (Hpack_return False p2) else Inr (Hpack_call Parse_next p2 cur)))"
    for p1 :: "'a grpc_chttp2_hpack_parser" and cur
    by (cases "finish_str p1") (auto simp: control.finish_str hpack_visible_def control_sim_set)
  have susp: "hpack_suspend Parse_string ((set_control s (strgot p) p1)\<lparr>strgot := strgot (set_control s (strgot p) p1) + k\<rparr>) =
      hpack_suspend Parse_string (p1\<lparr>strgot := strgot p1 + k\<rparr>)"
    if "strgot p1 = strgot p" for p1 :: "'a grpc_chttp2_hpack_parser" and k
    using that by (simp add: set_control_def)
  have got: "strgot p1 = strgot p" if "add_str_bytes p xs = Inr (ok, p1)" for xs ok p1
    using add_str_bytes_frame[OF that] by (simp add: hpack_same_rest_def hpack_same_control_def)
  show ?thesis
  proof (cases "unat (strlen p - strgot p) \<le> length bs")
    case True
    show ?thesis
    proof (cases "add_str_bytes p (take (unat (strlen p - strgot p)) bs)")
      case (Inr y)
      then show ?thesis
        using True fin by (cases y) (auto simp: parse_string_def q control.add_str_bytes hpack_visible_def)
    qed (use True in \<open>simp add: parse_string_def q control.add_str_bytes\<close>)
  next
    case False
    show ?thesis
    proof (cases "add_str_bytes p bs")
      case (Inr y)
      obtain ok p1 where y: "y = (ok, p1)" by (cases y)
      show ?thesis
        using False Inr susp[OF got[of bs ok p1]] y
        by (auto simp: parse_string_def q control.add_str_bytes hpack_visible_def)
    qed (use False in \<open>simp add: parse_string_def q control.add_str_bytes\<close>)
  qed
qed

lemma parse_string_prefix_sim: "step_sim (parse_string_prefix p bs) (parse_string_prefix (set_control s g p) bs)"
proof (cases bs)
  case Nil
  then show ?thesis using step_sim_suspend[of Parse_string_prefix] by (simp add: parse_string_prefix_def)
qed (auto simp: parse_string_prefix_def Let_def set_control_commute control_sim_set)

lemma parse_begin_sim: "step_sim (parse_begin p bs) (parse_begin (set_control s g p) bs)"
proof (cases bs)
  case Nil
  then show ?thesis using step_sim_suspend[of Parse_begin] by (simp add: parse_begin_def)
next
  case (Cons c cur)
  have "first_byte_action t \<noteq> Parse_string" for t by (cases t) auto
  with Cons show ?thesis by (simp add: parse_begin_def control_sim_set)
qed

lemma on_hdr_sim:
  "step_sim (hpack_try (on_hdr p md a) (\<lambda>q. Inr (Hpack_call Parse_begin q cur)))
     (hpack_try (on_hdr (set_control s g p) md a) (\<lambda>q. Inr (Hpack_call Parse_begin q cur)))"
  by (cases "on_hdr p md a") (auto simp: control.on_hdr control_sim_set)

lemma finish_sim:
  "step_sim (finish_lithdr a p bs) (finish_lithdr a (set_control s g p) bs)"
  "step_sim (finish_lithdr_v a p bs) (finish_lithdr_v a (set_control s g p) bs)"
  "step_sim (finish_indexed_field p bs) (finish_indexed_field (set_control s g p) bs)"
  by (auto simp: finish_lithdr_def finish_lithdr_v_def finish_indexed_field_def take_value_def take_key_def Let_def
      set_control_commute on_hdr_sim split: option.splits intro!: step_sim_try)

lemma hpack_call_sim:
  assumes "control_sim f p q" "hpack_ready f p bs"
  shows "step_sim (hpack_call f p bs) (hpack_call f q bs)"
proof (cases "f = Parse_string")
  case True
  with assms parse_string_sim show ?thesis by simp
next
  case not_string: False
  from assms(1) obtain s g where q: "q = set_control s g p" by (auto simp: control_sim_def)
  show ?thesis
  proof (cases f)
    case Parse_next
    with assms(2) obtain t ts where "next_state p = t # ts" "t \<noteq> Parse_string"
      by (auto simp: plan_string_def plan_prefix_def plan_index_def)
    with Parse_next show ?thesis
      by (auto simp: q parse_next_def set_control_def intro!: control_simI[where g = g and s = t])
  qed (use assms(2) not_string in \<open>auto simp: q parse_begin_sim parse_error_sim parse_value4_sim parse_value5up_sim
      parse_string_prefix_sim finish_sim hpack_finish_defs finish_max_tbl_size_def parse_value_at_sim parse_value0_def
      parse_value1_def parse_value2_def parse_value3_def parse_skip_sim parse_stream_weight_def parse_stream_dep3_def
      parse_stream_dep2_def parse_stream_dep1_def parse_stream_dep0_def parse_key_string_def begin_parse_string_sim
      parse_value_string_with_indexed_key_def parse_value_string_with_literal_key_def parse_value_string_sim
      is_binary_indexed_header_def is_binary_literal_header_def parse_indexed_field_def parse_indexed_field_x_def
      parse_lithdr_incidx_def parse_lithdr_incidx_x_def parse_lithdr_incidx_v_def parse_lithdr_notidx_def
      parse_lithdr_notidx_x_def parse_lithdr_notidx_v_def parse_lithdr_nvridx_def parse_lithdr_nvridx_x_def
      parse_lithdr_nvridx_v_def parse_max_tbl_size_def parse_max_tbl_size_x_def parse_field_def parse_field_x_def
      parse_field_v_def set_control_commute control_sim_set intro!: step_sim_try\<close>)
qed

lemma hpack_run_sim:
  "hpack_base p \<Longrightarrow> hpack_ready f p bs \<Longrightarrow> control_sim f p q \<Longrightarrow> hpack_agree (hpack_run f p bs) (hpack_run f q bs)"
proof (induction f p bs arbitrary: q rule: hpack_run.induct)
  case (1 f p bs)
  note sim = hpack_call_sim[OF 1(4,3)] and ok = hpack_call_ok[OF 1(2,3)]
  show ?case
  proof (cases "hpack_call f p bs")
    case (Inl e)
    with sim show ?thesis by (simp add: hpack_run_call)
  next
    case (Inr out)
    show ?thesis
    proof (cases out)
      case (Hpack_return ok1 p1)
      with Inr sim show ?thesis by (auto simp: hpack_run_call)
    next
      case (Hpack_call g p1 cur)
      with Inr sim obtain q1 where q1: "hpack_call f q bs = Inr (Hpack_call g q1 cur)" "control_sim g p1 q1" by auto
      from Hpack_call Inr ok have "hpack_base p1" "hpack_ready g p1 cur" by auto
      from 1(1)[OF Inr Hpack_call this q1(2)] Inr Hpack_call q1(1) show ?thesis by (simp add: hpack_run_call)
    qed
  qed
qed

section \<open>One call on more input\<close>

text \<open>
  What a call does on an input and what it does on a longer one: the same, unless
  it suspends, and then it continues from the suspended parser.
\<close>

definition step_extends :: "'u hpack_step \<Rightarrow> 'u hpack_step \<Rightarrow> bytes \<Rightarrow> bool" where
  "step_extends r r1 ys \<longleftrightarrow>
     (case r of
        Inl e \<Rightarrow> r1 = Inl e
      | Inr (Hpack_return False q) \<Rightarrow> \<exists>q1. r1 = Inr (Hpack_return False q1) \<and> hpack_visible q = hpack_visible q1
      | Inr (Hpack_return True q) \<Rightarrow> step_sim r1 (hpack_call (state q) q ys)
      | Inr (Hpack_call g q cur) \<Rightarrow> r1 = Inr (Hpack_call g q (cur @ ys)))"

lemma step_extends_simps [simp]:
  "step_extends (Inl e) r1 ys \<longleftrightarrow> r1 = Inl e"
  "step_extends (Inr (Hpack_return False q)) r1 ys \<longleftrightarrow>
     (\<exists>q1. r1 = Inr (Hpack_return False q1) \<and> hpack_visible q = hpack_visible q1)"
  "step_extends (Inr (Hpack_return True q)) r1 ys \<longleftrightarrow> step_sim r1 (hpack_call (state q) q ys)"
  "step_extends (Inr (Hpack_call g q cur)) r1 ys \<longleftrightarrow> r1 = Inr (Hpack_call g q (cur @ ys))"
  by (simp_all add: step_extends_def)

lemma step_extends_try:
  "(\<And>y. x = Inr y \<Longrightarrow> step_extends (f y) (g y) ys) \<Longrightarrow> step_extends (hpack_try x f) (hpack_try x g) ys"
  by (cases x) auto

lemma step_extends_suspend:
  assumes "hpack_ready f p ys" "f \<noteq> Parse_string"
  shows "step_extends (hpack_suspend f p) (hpack_call f p ys) ys"
proof -
  have "control_sim f p (p\<lparr>state := f\<rparr>)"
    using control_sim_set[OF assms(2), of p f "strgot p"] by (simp add: set_control_def)
  from hpack_call_sim[OF this assms(1)] show ?thesis by simp
qed

lemma parse_value_at_extends:
  assumes "hpack_call self p ys = parse_value_at self k nxt p ys" "hpack_ready self p ys" "self \<noteq> Parse_string"
  shows "step_extends (parse_value_at self k nxt p xs) (parse_value_at self k nxt p (xs @ ys)) ys"
proof (cases xs)
  case Nil
  then show ?thesis using step_extends_suspend[OF assms(2,3)] assms(1) by (simp add: parse_value_at_def)
next
  case (Cons c cur)
  then show ?thesis by (auto simp: parse_value_at_def Let_def intro!: step_extends_try)
qed

lemma parse_value4_extends:
  assumes "hpack_ready Parse_value4 p ys"
  shows "step_extends (parse_value4 p xs) (parse_value4 p (xs @ ys)) ys"
proof (cases xs)
  case Nil
  then show ?thesis using step_extends_suspend[OF assms] by (simp add: parse_value4_def)
next
  case (Cons c cur)
  then show ?thesis by (auto simp: parse_value4_def Let_def intro!: step_extends_try)
qed

lemma parse_value5up_extends:
  assumes "hpack_ready Parse_value5up p ys"
  shows "step_extends (parse_value5up p xs) (parse_value5up p (xs @ ys)) ys"
proof (induction xs)
  case Nil
  then show ?case using step_extends_suspend[OF assms] by simp
qed auto

lemma parse_skip_extends:
  assumes "hpack_call self p ys = parse_skip self nxt p ys" "hpack_ready self p ys" "self \<noteq> Parse_string"
  shows "step_extends (parse_skip self nxt p xs) (parse_skip self nxt p (xs @ ys)) ys"
proof (cases xs)
  case Nil
  then show ?thesis using step_extends_suspend[OF assms(2,3)] assms(1) by (simp add: parse_skip_def)
qed (simp add: parse_skip_def)

lemma parse_string_prefix_extends:
  assumes "hpack_ready Parse_string_prefix p ys"
  shows "step_extends (parse_string_prefix p xs) (parse_string_prefix p (xs @ ys)) ys"
proof (cases xs)
  case Nil
  then show ?thesis using step_extends_suspend[OF assms] by (simp add: parse_string_prefix_def)
qed (simp add: parse_string_prefix_def Let_def)

lemma parse_begin_extends: "step_extends (parse_begin p xs) (parse_begin p (xs @ ys)) ys"
proof (cases xs)
  case Nil
  then show ?thesis using step_extends_suspend[of Parse_begin p ys] by (simp add: parse_begin_def)
qed (simp add: parse_begin_def)

lemma begin_parse_string_extends:
  "step_extends (begin_parse_string p xs b ptr) (begin_parse_string p (xs @ ys) b ptr) ys"
  by (simp add: begin_parse_string_def Let_def)

lemma parse_value_string_extends:
  "step_extends (parse_value_string p xs t) (parse_value_string p (xs @ ys) t) ys"
  by (cases t) (simp_all add: begin_parse_string_extends)

lemma finish_extends:
  "step_extends (finish_lithdr a p xs) (finish_lithdr a p (xs @ ys)) ys"
  "step_extends (finish_lithdr_v a p xs) (finish_lithdr_v a p (xs @ ys)) ys"
  "step_extends (finish_indexed_field p xs) (finish_indexed_field p (xs @ ys)) ys"
  by (auto simp: finish_lithdr_def finish_lithdr_v_def finish_indexed_field_def Let_def
      split: option.splits prod.splits intro!: step_extends_try)

text \<open>A string that the input does not end.\<close>

lemma remaining_after:
  assumes "n \<le> unat (a - b :: u32)"
  shows "unat (a - (b + of_nat n)) = unat (a - b) - n"
proof -
  have "n < 4294967296" using assms unat_u32_less[of "a - b"] by linarith
  then have n: "unat (of_nat n :: u32) = n" by simp
  have "a - (b + of_nat n) = (a - b) - of_nat n" by (simp add: algebra_simps)
  moreover have "of_nat n \<le> a - b" using assms n by (simp add: word_le_nat_alt)
  then have "unat ((a - b) - of_nat n) = unat (a - b) - n" using n by (simp only: unat_sub)
  ultimately show ?thesis by (simp only:)
qed

definition string_rest ::
    "nat \<Rightarrow> bytes \<Rightarrow> hpack_fault + bool \<times> 'u grpc_chttp2_hpack_parser \<Rightarrow> 'u hpack_step" where
  "string_rest r cur x =
     hpack_try x (\<lambda>(ok, p1). if \<not> ok then Inr (Hpack_return False p1)
        else if r \<le> length cur then
          hpack_try (finish_str p1) (\<lambda>(ok, p2). if \<not> ok then Inr (Hpack_return False p2)
                  else Inr (Hpack_call Parse_next p2 (drop r cur)))
        else hpack_suspend Parse_string (p1\<lparr>strgot := strgot p1 + of_nat (length cur)\<rparr>))"

lemma parse_string_rest:
  "parse_string p cur =
     string_rest (unat (strlen p - strgot p)) cur (add_str_bytes p (take (unat (strlen p - strgot p)) cur))"
  by (cases "unat (strlen p - strgot p) \<le> length cur"; cases "add_str_bytes p (take (unat (strlen p - strgot p)) cur)")
     (auto simp: parse_string_def string_rest_def Let_def)

lemma string_rest_sim:
  assumes "string_agree x y" "n \<le> r"
    "\<And>ok q. x = Inr (ok, q) \<Longrightarrow> hpack_same_rest p q" "\<And>ok q. y = Inr (ok, q) \<Longrightarrow> hpack_same_rest p q"
    "length xs = n"
  shows "step_sim (string_rest r (xs @ ys) x)
     (string_rest (r - n) ys (hpack_try y (\<lambda>y. Inr (fst y, set_control Parse_string (strgot p + of_nat n) (snd y)))))"
proof (cases x)
  case (Inl e)
  with assms(1) show ?thesis by (simp add: string_rest_def)
next
  case (Inr a)
  obtain ok q where a: "a = (ok, q)" by (cases a)
  with assms(1) Inr obtain q1 where y: "y = Inr (ok, q1)" "ok \<longrightarrow> q1 = q" by (auto simp: string_agree_def)
  note same = assms(3)[OF Inr[unfolded a]] assms(4)[OF y(1)]
  then have vis: "hpack_visible q = hpack_visible q1" and got: "strgot q = strgot p"
    by (simp_all add: hpack_visible_def hpack_same_rest_def hpack_same_control_def)
  show ?thesis
  proof (cases ok)
    case False
    with Inr a y vis show ?thesis by (simp add: string_rest_def hpack_visible_def)
  next
    case True
    show ?thesis
    proof (cases "r \<le> length (xs @ ys)")
      case le: True
      then have "r - n \<le> length ys" "drop r (xs @ ys) = drop (r - n) ys" using assms(2,5) by auto
      with True le Inr a y show ?thesis
        by (cases "finish_str q")
           (auto simp: string_rest_def control.finish_str hpack_visible_def control_sim_set)
    next
      case False
      then have "\<not> r - n \<le> length ys" using assms(2,5) by auto
      with True False Inr a y got assms(5) show ?thesis
        by (simp add: string_rest_def hpack_visible_def set_control_def add.assoc)
    qed
  qed
qed

lemma parse_string_extends:
  assumes "hpack_base p" "plan_string p"
  shows "step_extends (parse_string p xs) (parse_string p (xs @ ys)) ys"
proof -
  let ?r = "unat (strlen p - strgot p)"
  have reading: "hpack_reading p" using assms by (auto simp: hpack_reading_def plan_string_def)
  show ?thesis
  proof (cases "?r \<le> length xs")
    case True
    then show ?thesis
      by (simp add: parse_string_def Let_def, intro step_extends_try) (auto intro!: step_extends_try)
  next
    case False
    show ?thesis
    proof (cases "add_str_bytes p xs")
      case (Inl e)
      have "add_str_bytes p (xs @ zs) = Inl e" for zs
        using add_str_bytes_append[OF reading, of xs zs] Inl
        by (cases "add_str_bytes p (xs @ zs)") (auto simp: string_agree_def)
      with False Inl show ?thesis by (simp add: parse_string_rest string_rest_def)
    next
      case (Inr a)
      obtain ok p1 where a: "a = (ok, p1)" by (cases a)
      let ?zs = "take (?r - length xs) ys"
      have app: "string_agree (add_str_bytes p (xs @ ?zs)) (hpack_seq (add_str_bytes p xs) (\<lambda>p1. add_str_bytes p1 ?zs))"
        by (rule add_str_bytes_append[OF reading])
      have rest1: "hpack_same_rest p p1" by (rule add_str_bytes_frame[OF Inr[unfolded a]])
      show ?thesis
      proof (cases ok)
        case bad: False
        with app Inr a obtain q where q: "add_str_bytes p (xs @ ?zs) = Inr (False, q)"
          by (cases "add_str_bytes p (xs @ ?zs)") (auto simp: string_agree_def split: prod.splits)
        have "hpack_visible p1 = hpack_visible q"
          using rest1 add_str_bytes_frame[OF q] by (simp add: hpack_visible_def hpack_same_rest_def)
        with False Inr a bad q show ?thesis by (simp add: parse_string_rest string_rest_def)
      next
        case True
        let ?q = "set_control Parse_string (strgot p + of_nat (length xs)) p1"
        have p1: "strlen p1 = strlen p" "strgot p1 = strgot p"
          using rest1 by (simp_all add: hpack_same_rest_def hpack_same_control_def)
        have rem: "unat (strlen p1 - (strgot p + of_nat (length xs))) = ?r - length xs"
          using False p1 remaining_after[of "length xs" "strlen p" "strgot p"] by simp
        have x: "string_agree (add_str_bytes p (xs @ ?zs)) (add_str_bytes p1 ?zs)"
          using app Inr a True by simp
        have "step_sim (string_rest ?r (xs @ ys) (add_str_bytes p (xs @ ?zs)))
           (string_rest (?r - length xs) ys (hpack_try (add_str_bytes p1 ?zs)
             (\<lambda>y. Inr (fst y, set_control Parse_string (strgot p + of_nat (length xs)) (snd y)))))"
          using False rest1
          by (intro string_rest_sim[OF x]) (auto dest: add_str_bytes_frame intro: hpack_same_rest_trans)
        then have "step_sim (parse_string p (xs @ ys)) (parse_string ?q ys)"
          using False by (simp add: parse_string_rest[of p] parse_string_rest[of ?q] rem control.add_str_bytes)
        moreover have "parse_string p xs = Inr (Hpack_return True ?q)"
          using False Inr a True p1 by (simp add: parse_string_rest string_rest_def set_control_def)
        ultimately show ?thesis by simp
      qed
    qed
  qed
qed

lemma hpack_call_extends:
  assumes "hpack_base p" "hpack_ready f p xs"
  shows "step_extends (hpack_call f p xs) (hpack_call f p (xs @ ys)) ys"
proof (cases "\<exists>c cur. xs = c # cur \<and> first_byte_action (first_byte_lut ! unat c) = f")
  case True
  then obtain c cur where c: "xs = c # cur" "first_byte_action (first_byte_lut ! unat c) = f" by blast
  show ?thesis
    by (cases "first_byte_lut ! unat c") (use c in \<open>simp_all add: hpack_control_defs\<close>)
next
  case not_first: False
  have ready: "hpack_ready f p ys" if "\<And>zs. hpack_ready f p zs = hpack_ready f p xs" using assms(2) that by blast
  show ?thesis
    by (cases f)
       (use assms not_first in \<open>simp_all add: parse_begin_extends parse_error_def parse_value4_extends
          parse_value5up_extends parse_string_prefix_extends parse_string_extends finish_extends hpack_finish_defs
          finish_max_tbl_size_def parse_value_at_extends parse_value0_def parse_value1_def parse_value2_def
          parse_value3_def parse_skip_extends parse_stream_weight_def parse_stream_dep3_def parse_stream_dep2_def
          parse_stream_dep1_def parse_stream_dep0_def parse_key_string_def begin_parse_string_extends
          parse_value_string_with_indexed_key_def parse_value_string_with_literal_key_def
          parse_value_string_extends step_extends_try parse_next_def split: list.splits\<close>)
qed

section \<open>Slices\<close>

lemma hpack_ready_append: "hpack_ready f p xs \<Longrightarrow> hpack_ready f p (xs @ ys)"
  by (cases f) auto

lemma hpack_run_step_sim:
  assumes "hpack_step_ok (hpack_call f p bs)" "step_sim (hpack_call f p bs) (hpack_call g q cs)"
  shows "hpack_agree (hpack_run f p bs) (hpack_run g q cs)"
proof (cases "hpack_call f p bs")
  case (Inl e)
  with assms(2) show ?thesis by (simp add: hpack_run_call)
next
  case (Inr out)
  show ?thesis
  proof (cases out)
    case (Hpack_return ok1 p1)
    with Inr assms(2) show ?thesis by (auto simp: hpack_run_call)
  next
    case (Hpack_call h p1 cur)
    with Inr assms(2) obtain q1 where q1: "hpack_call g q cs = Inr (Hpack_call h q1 cur)" "control_sim h p1 q1" by auto
    from Hpack_call Inr assms(1) have "hpack_base p1" "hpack_ready h p1 cur" by auto
    from hpack_run_sim[OF this q1(2)] Inr Hpack_call q1(1) show ?thesis by (simp add: hpack_run_call)
  qed
qed

lemma hpack_run_extends:
  "hpack_base p \<Longrightarrow> hpack_ready f p xs \<Longrightarrow>
     hpack_agree (hpack_run f p (xs @ ys))
       (hpack_seq (hpack_run f p xs) (\<lambda>q. hpack_run (state q) q ys))"
proof (induction f p xs rule: hpack_run.induct)
  case (1 f p xs)
  note ext = hpack_call_extends[OF 1(2,3), of ys] and ok = hpack_call_ok[OF 1(2,3)]
  show ?case
  proof (cases "hpack_call f p xs")
    case (Inl e)
    with ext show ?thesis by (simp add: hpack_run_call)
  next
    case (Inr out)
    show ?thesis
    proof (cases out)
      case (Hpack_call g q cur)
      with Inr ok have "hpack_base q" "hpack_ready g q cur" by auto
      from 1(1)[OF Inr Hpack_call this] Inr Hpack_call ext show ?thesis by (simp add: hpack_run_call)
    next
      case (Hpack_return b q)
      show ?thesis
      proof (cases b)
        case False
        with Inr Hpack_return ext show ?thesis by (auto simp: hpack_run_call)
      next
        case True
        with Inr Hpack_return ok have q: "hpack_base q" "hpack_ready (state q) q ys"
          by (auto simp: hpack_parser_ok_def hpack_ready_input)
        from True Inr Hpack_return ext have sim: "step_sim (hpack_call f p (xs @ ys)) (hpack_call (state q) q ys)" by simp
        have "hpack_agree (hpack_run f p (xs @ ys)) (hpack_run (state q) q ys)"
          using hpack_call_ok[OF 1(2) hpack_ready_append[OF 1(3)]] sim by (rule hpack_run_step_sim)
        with True Inr Hpack_return show ?thesis by (simp add: hpack_run_call)
      qed
    qed
  qed
qed

lemma hpack_parse_append:
  assumes "hpack_parser_ok p"
  shows "hpack_agree (grpc_chttp2_hpack_parser_parse p (xs @ ys))
     (hpack_seq (grpc_chttp2_hpack_parser_parse p xs) (\<lambda>q. grpc_chttp2_hpack_parser_parse q ys))"
  using hpack_run_extends[of p "state p" xs ys] assms
  by (simp add: grpc_chttp2_hpack_parser_parse_def hpack_parser_ok_def hpack_ready_input)

text \<open>Agreeing parsers agree on every input.\<close>

lemma hpack_parse_same:
  assumes "hpack_parser_ok p" "hpack_same p q"
  shows "hpack_agree (grpc_chttp2_hpack_parser_parse p ys) (grpc_chttp2_hpack_parser_parse q ys)"
  using hpack_run_sim[of p "state p" ys q] assms
  by (simp add: grpc_chttp2_hpack_parser_parse_def hpack_parser_ok_def hpack_ready_input hpack_same_def)

lemma hpack_seq_agree:
  assumes "hpack_agree x y" "\<And>q. x = Inr (True, q) \<Longrightarrow> hpack_parser_ok q"
    "\<And>q r. hpack_parser_ok q \<Longrightarrow> hpack_same q r \<Longrightarrow> hpack_agree (f q) (g r)"
  shows "hpack_agree (hpack_seq x f) (hpack_seq y g)"
proof (cases x)
  case (Inl e)
  with assms(1) show ?thesis by (cases y) auto
next
  case (Inr a)
  obtain ok q where a: "a = (ok, q)" by (cases a)
  with Inr assms(1) obtain r where y: "y = Inr (ok, r)" "hpack_visible q = hpack_visible r" "ok \<longrightarrow> hpack_same q r"
    by (cases y) auto
  then show ?thesis using Inr a assms(2,3) by (cases ok) auto
qed

text \<open>Feeding the parser slice by slice, until one fails.\<close>

fun hpack_feed ::
    "'u grpc_chttp2_hpack_parser \<Rightarrow> bytes list \<Rightarrow> hpack_fault + bool \<times> 'u grpc_chttp2_hpack_parser" where
  "hpack_feed p [] = Inr (True, p)"
| "hpack_feed p (c # cs) = hpack_seq (grpc_chttp2_hpack_parser_parse p c) (\<lambda>q. hpack_feed q cs)"

lemma parse_True_ok:
  "hpack_parser_ok p \<Longrightarrow> grpc_chttp2_hpack_parser_parse p c = Inr (True, q) \<Longrightarrow> hpack_parser_ok q"
  using hpack_run_ok[of p "state p" c]
  by (simp add: hpack_parser_ok_def grpc_chttp2_hpack_parser_parse_def hpack_ready_input)

lemma hpack_feed_same:
  "hpack_parser_ok p \<Longrightarrow> hpack_same p q \<Longrightarrow> hpack_agree (hpack_feed p cs) (hpack_feed q cs)"
proof (induction cs arbitrary: p q)
  case (Cons c cs)
  show ?case
    unfolding hpack_feed.simps
    by (rule hpack_seq_agree[OF hpack_parse_same[OF Cons.prems]])
       (use parse_True_ok[OF Cons.prems(1)] Cons.IH in auto)
qed (simp add: hpack_visible_def hpack_same_def control_sim_def, metis set_control_reads(6,13))

lemma hpack_feed_concat:
  "hpack_parser_ok p \<Longrightarrow> hpack_agree (grpc_chttp2_hpack_parser_parse p (concat (c # cs))) (hpack_feed p (c # cs))"
proof (induction cs arbitrary: p c)
  case Nil
  have "hpack_seq x (\<lambda>q. Inr (True, q)) = x" for x :: "hpack_fault + bool \<times> 'a grpc_chttp2_hpack_parser"
    by (auto simp: hpack_seq_def hpack_try_def split: sum.splits)
  then show ?case by simp
next
  case (Cons d cs)
  have "hpack_agree (grpc_chttp2_hpack_parser_parse p (c @ concat (d # cs)))
      (hpack_seq (grpc_chttp2_hpack_parser_parse p c) (\<lambda>q. grpc_chttp2_hpack_parser_parse q (concat (d # cs))))"
    by (rule hpack_parse_append[OF Cons.prems])
  moreover have "hpack_agree \<dots> (hpack_seq (grpc_chttp2_hpack_parser_parse p c) (\<lambda>q. hpack_feed q (d # cs)))"
  proof (rule hpack_seq_agree[OF hpack_agree_refl parse_True_ok[OF Cons.prems]])
    fix q r :: "'a grpc_chttp2_hpack_parser" assume "hpack_parser_ok q" "hpack_same q r"
    with Cons.IH[of q d] hpack_feed_same[of q r "d # cs"]
    show "hpack_agree (grpc_chttp2_hpack_parser_parse q (concat (d # cs))) (hpack_feed r (d # cs))"
      by (blast intro: hpack_agree_trans)
  qed
  ultimately show ?case by (auto intro: hpack_agree_trans)
qed

text \<open>
  C11. The HPACK parser is incremental: two ways of cutting the same bytes into
  slices give the same answer or the same fault, the same headers in the same
  order to the callback, and the same table; on success the two parsers are equal,
  but for the count of the bytes of a string when no string is being read.
\<close>

theorem hpack_parse_slices:
  assumes "hpack_parser_ok p" "concat (c # cs) = concat (d # ds)"
  shows "hpack_agree (hpack_feed p (c # cs)) (hpack_feed p (d # ds))"
  using hpack_feed_concat[OF assms(1), of c cs] hpack_feed_concat[OF assms(1), of d ds] assms(2)
  by (metis hpack_agree_sym hpack_agree_trans)

theorem hpack_parse_slices_witness:
  "hpack_agree (hpack_feed example_hpack_parser [[0x10, 0x01], [0x61, 0x02, 0x62], [0x63, 0x82]])
     (hpack_feed example_hpack_parser [[0x10, 0x01, 0x61, 0x02, 0x62, 0x63, 0x82]])"
  by (rule hpack_parse_slices[OF example_hpack_parser_ok]) simp

end
