(* ===== verification/Bin_Encoder.thy ===== *)
theory Bin_Encoder
  imports Hpack_Huffman
begin

text \<open>
  The encoders of \<^verbatim>\<open>src/core/transport/chttp2/bin_encoder.c\<close>: base64 without
  padding, Huffman compression, and the routine that does both in one pass. A slice
  is its list of bytes; a read past the input or a failed assertion aborts.
\<close>

section \<open>Base64\<close>

definition alphabet :: bytes where
  "alphabet = bytes_of_string ''ABCDEFGHIJKLMNOPQRSTUVWXYZabcdefghijklmnopqrstuvwxyz0123456789+/''"

definition tail_xtra :: "nat list" where
  "tail_xtra = [0, 2, 3]"

text \<open>The 6-bit groups of a triplet and of the two kinds of tail.\<close>

definition b64_first :: "u8 \<Rightarrow> u8" where "b64_first a = drop_bit 2 a"

definition b64_second :: "u8 \<Rightarrow> u8 \<Rightarrow> u8" where "b64_second a b = push_bit 4 (a AND 0x3) OR drop_bit 4 b"

definition b64_third :: "u8 \<Rightarrow> u8 \<Rightarrow> u8" where "b64_third b c = push_bit 2 (b AND 0xf) OR drop_bit 6 c"

definition b64_fourth :: "u8 \<Rightarrow> u8" where "b64_fourth c = c AND 0x3f"

definition b64_end1 :: "u8 \<Rightarrow> u8" where "b64_end1 a = push_bit 4 (a AND 0x3)"

definition b64_end2 :: "u8 \<Rightarrow> u8" where "b64_end2 b = push_bit 2 (b AND 0xf)"

text \<open>\<open>alphabet[...]\<close> for a group.\<close>

definition b64_char :: "u8 \<Rightarrow> u8 option" where
  "b64_char g = c_read alphabet (unat g)"

text \<open>The loop over full triplets; the result is the output and the rest of the input.\<close>

fun base64_triplets :: "nat \<Rightarrow> bytes \<Rightarrow> (bytes \<times> bytes) option" where
  "base64_triplets 0 inp = Some ([], inp)"
| "base64_triplets (Suc n) (a # b # c # inp) =
     do {
       o0 \<leftarrow> b64_char (b64_first a);
       o1 \<leftarrow> b64_char (b64_second a b);
       o2 \<leftarrow> b64_char (b64_third b c);
       o3 \<leftarrow> b64_char (b64_fourth c);
       (out, rest) \<leftarrow> base64_triplets n inp;
       Some (o0 # o1 # o2 # o3 # out, rest)
     }"
| "base64_triplets (Suc n) _ = None"

text \<open>The remaining bytes, by \<open>tail_case\<close>.\<close>

fun base64_tail :: "nat \<Rightarrow> bytes \<Rightarrow> (bytes \<times> bytes) option" where
  "base64_tail 0 inp = Some ([], inp)"
| "base64_tail (Suc 0) (a # inp) =
     do {
       o0 \<leftarrow> b64_char (b64_first a);
       o1 \<leftarrow> b64_char (b64_end1 a);
       Some ([o0, o1], inp)
     }"
| "base64_tail (Suc (Suc 0)) (a # b # inp) =
     do {
       o0 \<leftarrow> b64_char (b64_first a);
       o1 \<leftarrow> b64_char (b64_second a b);
       o2 \<leftarrow> b64_char (b64_end2 b);
       Some ([o0, o1, o2], inp)
     }"
| "base64_tail _ _ = None"

definition grpc_chttp2_base64_encode :: "bytes \<Rightarrow> bytes option" where
  "grpc_chttp2_base64_encode input =
     (let input_length = length input;
          input_triplets = input_length div 3;
          tail_case = input_length mod 3 in
      do {
        extra \<leftarrow> c_read tail_xtra tail_case;
        (out, inp) \<leftarrow> base64_triplets input_triplets input;
        (out_tail, inp) \<leftarrow> base64_tail tail_case inp;
        gpr_assert (length (out @ out_tail) = input_triplets * 4 + extra);
        gpr_assert (inp = []);
        Some (out @ out_tail)
      })"

section \<open>Huffman compression\<close>

text \<open>The output register: 32 bits of pending output, their number, and the bytes written.\<close>

record huff_out =
  temp :: u32
  temp_length :: nat
  out_bytes :: bytes

text \<open>\<^verbatim>\<open>while (temp_length > 8)\<close>: the inner loop of the compressor and \<^verbatim>\<open>enc_flush_some\<close>.\<close>

function enc_flush_some :: "huff_out \<Rightarrow> huff_out" where
  "enc_flush_some out =
     (if temp_length out > 8
      then (let n = temp_length out - 8 in
            enc_flush_some (out\<lparr>temp_length := n, out_bytes := out_bytes out @ [ucast (drop_bit n (temp out))]\<rparr>))
      else out)"
  by auto
termination by (relation "measure temp_length") auto

declare enc_flush_some.simps [simp del]

text \<open>The last, partial byte, padded with ones.\<close>

definition huff_pad :: "huff_out \<Rightarrow> bytes" where
  "huff_pad out =
     (if temp_length out \<noteq> 0
      then out_bytes out @ [ucast (push_bit (8 - temp_length out) (temp out)) OR drop_bit (temp_length out) 0xff]
      else out_bytes out)"

definition huff_add_sym :: "grpc_chttp2_huffsym \<Rightarrow> huff_out \<Rightarrow> huff_out" where
  "huff_add_sym s out =
     enc_flush_some (out\<lparr>temp := push_bit (unat (sym_length s)) (temp out) OR bits s,
                         temp_length := temp_length out + unat (sym_length s)\<rparr>)"

definition huff_init :: huff_out where
  "huff_init = \<lparr> temp = 0, temp_length = 0, out_bytes = [] \<rparr>"

definition grpc_chttp2_huffman_compress :: "bytes \<Rightarrow> bytes option" where
  "grpc_chttp2_huffman_compress input =
     (let nbits = sum_list (map (\<lambda>c. unat (sym_length (grpc_chttp2_huffsyms ! unat c))) input);
          out = fold (\<lambda>c. huff_add_sym (grpc_chttp2_huffsyms ! unat c)) input huff_init in
      do {
        gpr_assert (length (huff_pad out) = nbits div 8 + (if nbits mod 8 \<noteq> 0 then 1 else 0));
        Some (huff_pad out)
      })"

section \<open>Both at once\<close>

record b64_huff_sym =
  b64_bits :: u16
  b64_length :: u8

definition b64_huff_sym_of :: "u16 \<times> u8 \<Rightarrow> b64_huff_sym" where
  "b64_huff_sym_of s = \<lparr> b64_bits = fst s, b64_length = snd s \<rparr>"

definition huff_alphabet :: "b64_huff_sym list" where
  "huff_alphabet =
     map b64_huff_sym_of
     [(0x21, 6), (0x5d, 7), (0x5e, 7), (0x5f, 7), (0x60, 7), (0x61, 7),
      (0x62, 7), (0x63, 7), (0x64, 7), (0x65, 7), (0x66, 7), (0x67, 7),
      (0x68, 7), (0x69, 7), (0x6a, 7), (0x6b, 7), (0x6c, 7), (0x6d, 7),
      (0x6e, 7), (0x6f, 7), (0x70, 7), (0x71, 7), (0x72, 7), (0xfc, 8),
      (0x73, 7), (0xfd, 8), (0x3, 5), (0x23, 6), (0x4, 5), (0x24, 6),
      (0x5, 5), (0x25, 6), (0x26, 6), (0x27, 6), (0x6, 5), (0x74, 7),
      (0x75, 7), (0x28, 6), (0x29, 6), (0x2a, 6), (0x7, 5), (0x2b, 6),
      (0x76, 7), (0x2c, 6), (0x8, 5), (0x9, 5), (0x2d, 6), (0x77, 7),
      (0x78, 7), (0x79, 7), (0x7a, 7), (0x7b, 7), (0x0, 5), (0x1, 5),
      (0x2, 5), (0x19, 6), (0x1a, 6), (0x1b, 6), (0x1c, 6), (0x1d, 6),
      (0x1e, 6), (0x1f, 6), (0x7fb, 11), (0x18, 6)]"

definition enc_add2 :: "huff_out \<Rightarrow> u8 \<Rightarrow> u8 \<Rightarrow> huff_out option" where
  "enc_add2 out a b =
     do {
       sa \<leftarrow> c_read huff_alphabet (unat a);
       sb \<leftarrow> c_read huff_alphabet (unat b);
       Some (enc_flush_some
         (out\<lparr>temp := push_bit (unat (b64_length sa) + unat (b64_length sb)) (temp out) OR
                      push_bit (unat (b64_length sb)) (ucast (b64_bits sa)) OR ucast (b64_bits sb),
              temp_length := temp_length out + (unat (b64_length sa) + unat (b64_length sb))\<rparr>))
     }"

definition enc_add1 :: "huff_out \<Rightarrow> u8 \<Rightarrow> huff_out option" where
  "enc_add1 out a =
     do {
       sa \<leftarrow> c_read huff_alphabet (unat a);
       Some (enc_flush_some
         (out\<lparr>temp := push_bit (unat (b64_length sa)) (temp out) OR ucast (b64_bits sa),
              temp_length := temp_length out + unat (b64_length sa)\<rparr>))
     }"

fun enc_triplets :: "nat \<Rightarrow> huff_out \<Rightarrow> bytes \<Rightarrow> (huff_out \<times> bytes) option" where
  "enc_triplets 0 out inp = Some (out, inp)"
| "enc_triplets (Suc n) out (a # b # c # inp) =
     do {
       out1 \<leftarrow> enc_add2 out (b64_first a) (b64_second a b);
       out2 \<leftarrow> enc_add2 out1 (b64_third b c) (b64_fourth c);
       enc_triplets n out2 inp
     }"
| "enc_triplets (Suc n) out _ = None"

fun enc_tail :: "nat \<Rightarrow> huff_out \<Rightarrow> bytes \<Rightarrow> (huff_out \<times> bytes) option" where
  "enc_tail 0 out inp = Some (out, inp)"
| "enc_tail (Suc 0) out (a # inp) =
     do { out1 \<leftarrow> enc_add2 out (b64_first a) (b64_end1 a); Some (out1, inp) }"
| "enc_tail (Suc (Suc 0)) out (a # b # inp) =
     do {
       out1 \<leftarrow> enc_add2 out (b64_first a) (b64_second a b);
       out2 \<leftarrow> enc_add1 out1 (b64_end2 b);
       Some (out2, inp)
     }"
| "enc_tail _ _ _ = None"

definition grpc_chttp2_base64_encode_and_huffman_compress :: "bytes \<Rightarrow> bytes option" where
  "grpc_chttp2_base64_encode_and_huffman_compress input =
     (let input_length = length input;
          input_triplets = input_length div 3;
          tail_case = input_length mod 3 in
      do {
        extra \<leftarrow> c_read tail_xtra tail_case;
        let max_output_bits = 11 * (input_triplets * 4 + extra);
        let max_output_length = max_output_bits div 8 + (if max_output_bits mod 8 \<noteq> 0 then 1 else 0);
        (out, inp) \<leftarrow> enc_triplets input_triplets huff_init input;
        (out, inp) \<leftarrow> enc_tail tail_case out inp;
        gpr_assert (length (huff_pad out) \<le> max_output_length);
        gpr_assert (inp = []);
        Some (huff_pad out)
      })"

end
