(* ===== verification/Bit_Strings.thy ===== *)
theory Bit_Strings
  imports Prelude
begin

text \<open>
  Bit strings, most significant bit first: the reference that the bitwise encoders
  and decoders are compared with.
\<close>

definition nbits :: "nat \<Rightarrow> 'a::semiring_bit_operations \<Rightarrow> bool list" where
  "nbits n v = map (bit v) (rev [0..<n])"

definition byte_bits :: "bytes \<Rightarrow> bool list" where
  "byte_bits bs = concat (map (nbits 8) bs)"

lemma length_nbits [simp]: "length (nbits n v) = n"
  by (simp add: nbits_def)

lemma nbits_0 [simp]: "nbits 0 v = []"
  by (simp add: nbits_def)

lemma nbits_Suc: "nbits (Suc n) v = bit v n # nbits n v"
  by (simp add: nbits_def)

lemma nbits_cong: "(\<And>i. i < n \<Longrightarrow> bit v i = bit w i) \<Longrightarrow> nbits n v = nbits n w"
  by (simp add: nbits_def)

lemma nbits_add: "nbits (a + b) v = nbits a (drop_bit b v) @ nbits b v"
proof -
  have upt: "[0..<b] @ map ((+) b) [0..<a] = [0..<a + b]"
    by (induction a) (auto simp: add.commute)
  have "nbits a (drop_bit b v) @ nbits b v = map (bit v) (map ((+) b) (rev [0..<a]) @ rev [0..<b])"
    by (simp add: nbits_def bit_drop_bit_eq comp_def)
  also have "map ((+) b) (rev [0..<a]) @ rev [0..<b] = rev [0..<a + b]"
    by (simp only: flip: upt) (simp add: rev_map)
  finally show ?thesis by (simp add: nbits_def)
qed

lemma nbits_or_push:
  assumes "\<And>i. b \<le> i \<Longrightarrow> \<not> bit w i" "\<And>i. i < a \<Longrightarrow> bit (push_bit b v) (b + i) = bit v i"
    "\<And>i. i < b \<Longrightarrow> \<not> bit (push_bit b v) i"
  shows "nbits (a + b) (push_bit b v OR w) = nbits a v @ nbits b w"
proof -
  have "nbits a (drop_bit b (push_bit b v OR w)) = nbits a v"
    using assms(1,2) by (intro nbits_cong) (simp add: bit_drop_bit_eq bit_or_iff)
  moreover have "nbits b (push_bit b v OR w) = nbits b w"
    using assms(3) by (intro nbits_cong) (simp add: bit_or_iff)
  ultimately show ?thesis by (simp add: nbits_add)
qed

lemma byte_bits_simps [simp]:
  "byte_bits [] = []"
  "byte_bits (b # bs) = nbits 8 b @ byte_bits bs"
  "byte_bits (xs @ ys) = byte_bits xs @ byte_bits ys"
  by (simp_all add: byte_bits_def)

lemma length_byte_bits [simp]: "length (byte_bits bs) = 8 * length bs"
  by (induction bs) auto

lemma nbits_inj:
  assumes "nbits 8 (a :: u8) = nbits 8 b"
  shows "a = b"
proof (rule bit_word_eqI)
  fix i assume "i < LENGTH(8)"
  moreover have "nbits 8 a ! (7 - i) = nbits 8 b ! (7 - i)" using assms by simp
  ultimately show "bit a i \<longleftrightarrow> bit b i" by (simp add: nbits_def rev_nth)
qed

lemma byte_bits_inj: "byte_bits xs = byte_bits ys \<Longrightarrow> xs = ys"
proof (induction xs arbitrary: ys)
  case Nil
  then show ?case by (cases ys) (auto dest: arg_cong[where f = length])
next
  case (Cons x xs)
  then show ?case by (cases ys) (auto dest: nbits_inj arg_cong[where f = length])
qed

end
