(* ===== verification/Huffman_Encoder.thy ===== *)
theory Huffman_Encoder
  imports Bin_Encoder Bit_Strings
begin

text \<open>
  Huffman compression writes the codes of its symbols one after the other and fills
  the last byte with ones, as long as the 32-bit register holds the pending bits;
  the one-pass encoder computes the same bytes as base64 followed by compression.
\<close>

section \<open>The output register\<close>

definition out_bits :: "huff_out \<Rightarrow> bool list" where
  "out_bits out = byte_bits (out_bytes out) @ nbits (temp_length out) (temp out)"

lemma bit_u32_bound: "bit (v :: u32) i \<Longrightarrow> i < 32"
  using bit_imp_le_length[of v i] by simp

lemma nbits_ucast_8: "nbits 8 (ucast (v :: u32) :: u8) = nbits 8 v"
  by (rule nbits_cong) (simp add: bit_simps)

lemma enc_flush_some_bits:
  "temp_length out \<le> 32 \<Longrightarrow>
     out_bits (enc_flush_some out) = out_bits out \<and> temp_length (enc_flush_some out) \<le> 8 \<and>
     temp (enc_flush_some out) = temp out"
proof (induction out rule: enc_flush_some.induct)
  case (1 out)
  show ?case
  proof (cases "temp_length out > 8")
    case True
    let ?n = "temp_length out - 8"
    let ?o = "out\<lparr>temp_length := ?n, out_bytes := out_bytes out @ [ucast (drop_bit ?n (temp out))]\<rparr>"
    have "enc_flush_some out = enc_flush_some ?o"
      using True by (subst enc_flush_some.simps) (simp add: Let_def)
    moreover have "out_bits ?o = out_bits out"
      using True nbits_add[of 8 ?n "temp out"] by (simp add: out_bits_def nbits_ucast_8)
    ultimately show ?thesis using 1(1)[OF True refl] 1(2) by simp
  next
    case False
    then show ?thesis by (subst (1 2 3) enc_flush_some.simps) simp
  qed
qed

text \<open>Pushing a code into the register keeps the pending bits if they and the code fit 32 bits.\<close>

lemma nbits_push_code:
  fixes t :: u32
  assumes "a + b \<le> 32" "\<And>i. b \<le> i \<Longrightarrow> \<not> bit w i"
  shows "nbits (a + b) (push_bit b t OR w) = nbits a t @ nbits b w"
proof (rule nbits_or_push)
  fix i assume "i < a"
  then show "bit (push_bit b t) (b + i) = bit t i" using assms(1) by (simp add: bit_simps)
qed (use assms(2) in \<open>auto simp: bit_simps\<close>)

definition sym_bits :: "grpc_chttp2_huffsym \<Rightarrow> bool list" where
  "sym_bits s = nbits (unat (sym_length s)) (bits s)"

definition sym_ok :: "nat \<Rightarrow> grpc_chttp2_huffsym \<Rightarrow> bool" where
  "sym_ok n s \<longleftrightarrow> unat (sym_length s) \<le> n \<and> unat (bits s) < 2 ^ unat (sym_length s)"

lemma bit_above:
  assumes "unat (v :: u32) < 2 ^ n" "n \<le> i"
  shows "\<not> bit v i"
proof -
  have "unat v < 2 ^ i" using assms by (meson less_le_trans one_le_numeral power_increasing)
  then have "\<not> bit (unat v) i" by (simp add: bit_iff_odd)
  then show ?thesis by (simp add: bit_unsigned_iff)
qed

lemma huff_add_sym_bits:
  assumes "temp_length out \<le> 8" "sym_ok 24 s"
  shows "out_bits (huff_add_sym s out) = out_bits out @ sym_bits s \<and> temp_length (huff_add_sym s out) \<le> 8"
proof -
  let ?o = "out\<lparr>temp := push_bit (unat (sym_length s)) (temp out) OR bits s,
                temp_length := temp_length out + unat (sym_length s)\<rparr>"
  have l: "temp_length out + unat (sym_length s) \<le> 32" using assms by (simp add: sym_ok_def)
  have "\<not> bit (bits s) i" if "unat (sym_length s) \<le> i" for i
    using bit_above[OF _ that] assms(2) by (simp add: sym_ok_def)
  from nbits_push_code[OF l this] have "out_bits ?o = out_bits out @ sym_bits s"
    by (simp add: out_bits_def sym_bits_def)
  then show ?thesis using enc_flush_some_bits[of ?o] l by (simp add: huff_add_sym_def)
qed

lemma huff_fold_bits:
  "temp_length out \<le> 8 \<Longrightarrow> \<forall>c \<in> set cs. sym_ok 24 (f c) \<Longrightarrow>
     out_bits (fold (\<lambda>c. huff_add_sym (f c)) cs out) = out_bits out @ concat (map (\<lambda>c. sym_bits (f c)) cs) \<and>
     temp_length (fold (\<lambda>c. huff_add_sym (f c)) cs out) \<le> 8"
proof (induction cs arbitrary: out)
  case (Cons c cs)
  with huff_add_sym_bits[of out "f c"] show ?case by simp
qed simp

lemma huff_pad_bits:
  assumes "temp_length out \<le> 8"
  shows "\<exists>k < 8. byte_bits (huff_pad out) = out_bits out @ replicate k True"
proof (cases "temp_length out = 0")
  case True
  then show ?thesis by (intro exI[of _ 0]) (simp add: huff_pad_def out_bits_def)
next
  case False
  let ?n = "temp_length out"
  let ?b = "ucast (push_bit (8 - ?n) (temp out)) OR drop_bit ?n (0xff :: u8)"
  have "(0xff :: u8) = mask 8" by (simp add: mask_eq_exp_minus_1)
  then have ones: "?b = ucast (push_bit (8 - ?n) (temp out)) OR drop_bit ?n (mask 8)" by (simp only:)
  have "nbits (?n + (8 - ?n)) ?b = nbits ?n (drop_bit (8 - ?n) ?b) @ nbits (8 - ?n) ?b" by (rule nbits_add)
  also have "nbits ?n (drop_bit (8 - ?n) ?b) = nbits ?n (temp out)"
    unfolding nbits_def ones using assms False by (auto simp: bit_simps)
  also have "nbits (8 - ?n) ?b = replicate (8 - ?n) True"
    unfolding nbits_def ones using assms by (intro nth_equalityI) (auto simp: rev_nth bit_simps)
  finally have "nbits 8 ?b = nbits ?n (temp out) @ replicate (8 - ?n) True" using assms by simp
  with False show ?thesis
    by (intro exI[of _ "8 - ?n"]) (simp add: huff_pad_def out_bits_def)
qed

section \<open>The compressor\<close>

definition huffman_sym :: "u8 \<Rightarrow> grpc_chttp2_huffsym" where
  "huffman_sym c = grpc_chttp2_huffsyms ! unat c"

definition huffman_code :: "bytes \<Rightarrow> bool list" where
  "huffman_code cs = concat (map (\<lambda>c. sym_bits (huffman_sym c)) cs)"

lemma huffsyms_ok: "list_all (\<lambda>s. unat (bits s) < 2 ^ unat (sym_length s)) grpc_chttp2_huffsyms"
  by (simp add: grpc_chttp2_huffsyms_def huffsym_def)

lemma huffsyms_length: "length grpc_chttp2_huffsyms = 257"
  by (simp add: grpc_chttp2_huffsyms_def)

lemma unat_u8_less: "unat (c :: u8) < 256"
  using unsigned_less[of c, where 'a = nat] by simp

lemma huffman_sym_bound: "unat (bits (huffman_sym c)) < 2 ^ unat (sym_length (huffman_sym c))"
proof -
  have "unat c < length grpc_chttp2_huffsyms" using unat_u8_less[of c] by (simp only: huffsyms_length)
  with huffsyms_ok show ?thesis unfolding list_all_length huffman_sym_def by blast
qed

lemma huffman_sym_ok: "unat (sym_length (huffman_sym c)) \<le> n \<Longrightarrow> sym_ok n (huffman_sym c)"
  by (simp add: sym_ok_def huffman_sym_bound)

lemma huffman_code_length: "length (huffman_code cs) = sum_list (map (\<lambda>c. unat (sym_length (huffman_sym c))) cs)"
  by (induction cs) (simp_all add: huffman_code_def sym_bits_def)

lemma padded_length: "8 * (m :: nat) = n + k \<Longrightarrow> k < 8 \<Longrightarrow> m = n div 8 + (if n mod 8 \<noteq> 0 then 1 else 0)"
proof (cases "k = 0")
  case False
  assume a: "8 * m = n + k" "k < 8"
  with False obtain j where "m = Suc j" by (cases m) auto
  with a False obtain r where "n = 8 * j + r" "0 < r" "r < 8" by (intro that[of "8 - k"]) auto
  then show ?thesis using \<open>m = Suc j\<close> by simp
qed auto

lemma huffman_compress_bits:
  assumes "\<forall>c \<in> set input. unat (sym_length (huffman_sym c)) \<le> 24"
  shows "\<exists>out k. grpc_chttp2_huffman_compress input = Some out \<and> k < 8 \<and>
           byte_bits out = huffman_code input @ replicate k True"
proof -
  let ?out = "fold (\<lambda>c. huff_add_sym (huffman_sym c)) input huff_init"
  have "out_bits ?out = huffman_code input" "temp_length ?out \<le> 8"
    using huff_fold_bits[of huff_init input huffman_sym] assms
    by (auto simp: huff_init_def out_bits_def huffman_code_def huffman_sym_ok)
  then obtain k where k: "k < 8" "byte_bits (huff_pad ?out) = huffman_code input @ replicate k True"
    using huff_pad_bits by metis
  from arg_cong[OF k(2), of length] have "8 * length (huff_pad ?out) = length (huffman_code input) + k" by simp
  from padded_length[OF this k(1)] show ?thesis
    using k by (auto simp: grpc_chttp2_huffman_compress_def Let_def huffman_code_length huffman_sym_def)
qed

text \<open>
  C16. Huffman compression: when no symbol has a code longer than 24 bits (every
  printable character has a shorter one), the output is the concatenation of the
  codes, filled up with fewer than eight ones, in exactly the space computed for it.
\<close>

theorem huffman_compress_correct:
  assumes "\<forall>c \<in> set input. unat (sym_length (huffman_sym c)) \<le> 24"
  shows "\<exists>out k. grpc_chttp2_huffman_compress input = Some out \<and> k < 8 \<and>
           byte_bits out = huffman_code input @ replicate k True \<and>
           length out = length (huffman_code input) div 8 + (if length (huffman_code input) mod 8 \<noteq> 0 then 1 else 0)"
proof -
  from huffman_compress_bits[OF assms] obtain out k where
    "grpc_chttp2_huffman_compress input = Some out" "k < 8" "byte_bits out = huffman_code input @ replicate k True"
    by blast
  moreover from this(3) have "8 * length out = length (huffman_code input) + k"
    by (metis length_append length_byte_bits length_replicate)
  ultimately show ?thesis using padded_length by blast
qed

lemma printable_codes: "0x20 \<le> c \<Longrightarrow> c \<le> 0x7e \<Longrightarrow> unat (sym_length (huffman_sym c)) \<le> 24"
proof -
  assume "0x20 \<le> c" "c \<le> 0x7e"
  then have "unat c - 32 < 95" "32 \<le> unat c" by (simp_all add: word_le_nat_alt)
  moreover have "list_all (\<lambda>s. unat (sym_length s) \<le> 24) (take 95 (drop 32 grpc_chttp2_huffsyms))"
    by (simp add: grpc_chttp2_huffsyms_def huffsym_def)
  then have "unat (sym_length (take 95 (drop 32 grpc_chttp2_huffsyms) ! (unat c - 32))) \<le> 24"
    using \<open>unat c - 32 < 95\<close> unfolding list_all_length by (simp add: huffsyms_length)
  ultimately show ?thesis by (simp add: huffsyms_length huffman_sym_def)
qed

text \<open>
  The register is too short for the longest codes: eight bits can be pending
  when a code of up to 30 bits is pushed into 32. The byte 0xf8 that the code of the
  first symbol would give is written as 0x08.
\<close>

theorem huffman_compress_long_code:
  "\<exists>out. grpc_chttp2_huffman_compress [0x26, 0x02] = Some (0x08 # out) \<and>
     take 8 (huffman_code [0x26, 0x02]) = nbits 8 (0xf8 :: u8)"
proof -
  have s: "grpc_chttp2_huffsyms ! 38 = huffsym (0xf8, 8)" "grpc_chttp2_huffsyms ! 2 = huffsym (0xfffffe2, 28)"
    by (simp_all add: grpc_chttp2_huffsyms_def)
  have "take 8 (huffman_code [0x26, 0x02]) = nbits 8 (0xf8 :: u32)"
    by (simp add: huffman_code_def huffman_sym_def s sym_bits_def huffsym_def)
  moreover have "nbits 8 (0xf8 :: u32) = nbits 8 (0xf8 :: u8)"
    by (simp add: nbits_def upt_rec)
  ultimately show ?thesis
    by (simp add: grpc_chttp2_huffman_compress_def s huffsym_def huff_add_sym_def huff_init_def huff_pad_def
        enc_flush_some.simps Let_def)
qed

section \<open>Base64\<close>

text \<open>The 6-bit groups of an input.\<close>

fun b64_groups :: "bytes \<Rightarrow> u8 list" where
  "b64_groups [] = []"
| "b64_groups [a] = [b64_first a, b64_end1 a]"
| "b64_groups [a, b] = [b64_first a, b64_second a b, b64_end2 b]"
| "b64_groups (a # b # c # cs) = b64_first a # b64_second a b # b64_third b c # b64_fourth c # b64_groups cs"

text \<open>A byte without bits from 6 on is a group.\<close>

lemma group_less: "(\<And>i. 6 \<le> i \<Longrightarrow> \<not> bit (g :: u8) i) \<Longrightarrow> unat g < 64"
proof -
  assume "\<And>i. 6 \<le> i \<Longrightarrow> \<not> bit g i"
  then have "g = take_bit 6 g" by (intro bit_word_eqI) (metis bit_take_bit_iff not_less)
  then have "unat g = take_bit 6 (unat g)" by (metis unsigned_take_bit_eq)
  also have "\<dots> < 2 ^ 6" by (rule take_bit_nat_less_exp)
  finally show ?thesis by simp
qed

lemma b64_masks: "(0x3 :: u8) = mask 2" "(0xf :: u8) = mask 4" "(0x3f :: u8) = mask 6"
  by (simp_all add: mask_eq_exp_minus_1)

lemma b64_group_less:
  "unat (b64_first a) < 64" "unat (b64_second a b) < 64" "unat (b64_third a b) < 64" "unat (b64_fourth a) < 64"
  "unat (b64_end1 a) < 64" "unat (b64_end2 a) < 64"
  unfolding b64_end1_def b64_end2_def b64_first_def b64_second_def b64_third_def b64_fourth_def b64_masks
  by (rule group_less; force simp: bit_simps dest: bit_imp_le_length)+

lemma b64_groups_less: "\<forall>g \<in> set (b64_groups xs). unat g < 64"
  by (induction xs rule: b64_groups.induct) (auto simp: b64_group_less)

lemma alphabet_codes: "alphabet =
   [65, 66, 67, 68, 69, 70, 71, 72, 73, 74, 75, 76, 77, 78, 79, 80, 81, 82, 83, 84, 85, 86, 87, 88, 89, 90,
    97, 98, 99, 100, 101, 102, 103, 104, 105, 106, 107, 108, 109, 110, 111, 112, 113, 114, 115, 116, 117, 118,
    119, 120, 121, 122, 48, 49, 50, 51, 52, 53, 54, 55, 56, 57, 43, 47]"
  by (simp add: alphabet_def bytes_of_string_def of_char_def)

lemma triplet_length [simp]: "(3 + n) div 3 = Suc (n div 3)" "Suc (Suc (Suc n)) div 3 = Suc (n div 3)"
  "Suc (Suc (Suc n)) mod 3 = n mod 3" for n :: nat
proof -
  show "(3 + n) div 3 = Suc (n div 3)" by simp
  moreover have "Suc (Suc (Suc n)) = 3 + n" by simp
  ultimately show "Suc (Suc (Suc n)) div 3 = Suc (n div 3)" "Suc (Suc (Suc n)) mod 3 = n mod 3" by simp_all
qed

lemma b64_char_group: "unat g < 64 \<Longrightarrow> b64_char g = Some (alphabet ! unat g)"
  by (simp add: b64_char_def alphabet_codes)

definition base64_spec :: "bytes \<Rightarrow> bytes" where
  "base64_spec xs = map (\<lambda>g. alphabet ! unat g) (b64_groups xs)"

lemma base64_loop:
  "do { (out, inp) \<leftarrow> base64_triplets (length xs div 3) xs;
        (out_tail, inp) \<leftarrow> base64_tail (length xs mod 3) inp;
        Some (out @ out_tail, inp) } = Some (base64_spec xs, [])"
proof (induction xs rule: b64_groups.induct)
  case (4 a b c cs)
  then show ?case
    by (auto simp: base64_spec_def b64_char_group b64_group_less bind_eq_Some_conv)
qed (simp_all add: base64_spec_def b64_char_group b64_group_less numeral_2_eq_2)

lemma base64_spec_length: "length (base64_spec xs) = (length xs div 3) * 4 + tail_xtra ! (length xs mod 3)"
  by (induction xs rule: b64_groups.induct) (simp_all add: base64_spec_def tail_xtra_def numeral_2_eq_2)

lemma base64_encode_spec: "grpc_chttp2_base64_encode xs = Some (base64_spec xs)"
proof -
  have "length xs mod 3 < length tail_xtra" by (simp add: tail_xtra_def)
  then show ?thesis
    using base64_loop[of xs] base64_spec_length[of xs]
    by (auto simp: grpc_chttp2_base64_encode_def Let_def bind_eq_Some_conv c_read_def simp flip: length_append)
qed

section \<open>Both at once\<close>

text \<open>The table of the one-pass encoder holds the codes of the alphabet.\<close>

lemma huff_alphabet_codes:
  "map (\<lambda>s. (ucast (b64_bits s), unat (b64_length s))) huff_alphabet =
   map (\<lambda>c. (bits (grpc_chttp2_huffsyms ! unat c), unat (sym_length (grpc_chttp2_huffsyms ! unat c)))) alphabet"
  by (simp add: alphabet_codes huff_alphabet_def b64_huff_sym_of_def grpc_chttp2_huffsyms_def huffsym_def)

lemma huff_alphabet_short: "list_all (\<lambda>s. unat (b64_length s) \<le> 11) huff_alphabet"
  by (simp add: huff_alphabet_def b64_huff_sym_of_def)

lemma huff_alphabet_length: "length huff_alphabet = 64"
  by (simp add: huff_alphabet_def)

definition group_sym :: "u8 \<Rightarrow> grpc_chttp2_huffsym" where
  "group_sym g = huffman_sym (alphabet ! unat g)"

lemma huff_alphabet_sym:
  assumes "unat g < 64"
  shows "ucast (b64_bits (huff_alphabet ! unat g)) = bits (group_sym g)"
    "unat (b64_length (huff_alphabet ! unat g)) = unat (sym_length (group_sym g))"
    "unat (sym_length (group_sym g)) \<le> 11"
proof -
  have l: "unat g < length huff_alphabet" "unat g < length alphabet"
    using assms by (simp_all add: huff_alphabet_length alphabet_codes)
  from arg_cong[OF huff_alphabet_codes, of "\<lambda>xs. xs ! unat g"] l
  show "ucast (b64_bits (huff_alphabet ! unat g)) = bits (group_sym g)"
    and e: "unat (b64_length (huff_alphabet ! unat g)) = unat (sym_length (group_sym g))"
    by (simp_all add: group_sym_def huffman_sym_def)
  show "unat (sym_length (group_sym g)) \<le> 11"
    using huff_alphabet_short l(1) unfolding list_all_length e[symmetric] by blast
qed

lemma group_sym_ok: "unat g < 64 \<Longrightarrow> sym_ok 11 (group_sym g)"
  using huff_alphabet_sym(3) by (simp add: group_sym_def huffman_sym_ok)

lemma sym_ok_above: "sym_ok n s \<Longrightarrow> unat (sym_length s) \<le> i \<Longrightarrow> \<not> bit (bits s) i"
  using bit_above by (auto simp: sym_ok_def)

lemma enc_add1_bits:
  assumes "temp_length out \<le> 8" "unat g < 64"
  shows "\<exists>out1. enc_add1 out g = Some out1 \<and> out_bits out1 = out_bits out @ sym_bits (group_sym g) \<and> temp_length out1 \<le> 8"
proof -
  have "enc_add1 out g = Some (huff_add_sym (group_sym g) out)"
    using assms(2) by (simp add: enc_add1_def huff_add_sym_def huff_alphabet_length huff_alphabet_sym)
  moreover have "sym_ok 24 (group_sym g)" using group_sym_ok[OF assms(2)] by (simp add: sym_ok_def)
  ultimately show ?thesis using huff_add_sym_bits[OF assms(1)] by blast
qed

lemma enc_add2_bits:
  assumes "temp_length out \<le> 8" "unat g < 64" "unat h < 64"
  shows "\<exists>out1. enc_add2 out g h = Some out1 \<and>
     out_bits out1 = out_bits out @ sym_bits (group_sym g) @ sym_bits (group_sym h) \<and> temp_length out1 \<le> 8"
proof -
  let ?g = "group_sym g" and ?h = "group_sym h"
  let ?a = "unat (sym_length ?g)" and ?b = "unat (sym_length ?h)"
  let ?w = "push_bit ?b (bits ?g) OR bits ?h"
  let ?o = "out\<lparr>temp := push_bit (?a + ?b) (temp out) OR ?w, temp_length := temp_length out + (?a + ?b)\<rparr>"
  have ab: "?a \<le> 11" "?b \<le> 11" using huff_alphabet_sym(3) assms by auto
  have above: "\<not> bit ?w i" if "?a + ?b \<le> i" for i
    using that sym_ok_above[OF group_sym_ok[OF assms(2)], of "i - ?b"] sym_ok_above[OF group_sym_ok[OF assms(3)], of i]
    by (auto simp: bit_simps)
  have "nbits (temp_length out + (?a + ?b)) (push_bit (?a + ?b) (temp out) OR ?w) =
      nbits (temp_length out) (temp out) @ nbits (?a + ?b) ?w"
    using ab assms(1) above by (intro nbits_push_code) auto
  also have "nbits (?a + ?b) ?w = sym_bits ?g @ sym_bits ?h"
    unfolding sym_bits_def
    using ab sym_ok_above[OF group_sym_ok[OF assms(3)]] by (intro nbits_push_code) auto
  finally have "out_bits ?o = out_bits out @ sym_bits ?g @ sym_bits ?h" by (simp add: out_bits_def)
  moreover have "enc_add2 out g h = Some (enc_flush_some ?o)"
    using assms(2,3) by (simp add: enc_add2_def huff_alphabet_length huff_alphabet_sym or.assoc)
  ultimately show ?thesis using enc_flush_some_bits[of ?o] ab assms(1) by simp
qed

lemma enc_loop:
  "temp_length out \<le> 8 \<Longrightarrow>
   \<exists>out1. do { (o1, inp) \<leftarrow> enc_triplets (length xs div 3) out xs; enc_tail (length xs mod 3) o1 inp } = Some (out1, []) \<and>
     out_bits out1 = out_bits out @ concat (map (\<lambda>g. sym_bits (group_sym g)) (b64_groups xs)) \<and> temp_length out1 \<le> 8"
proof (induction xs arbitrary: out rule: b64_groups.induct)
  case (2 a)
  from enc_add2_bits[OF 2 b64_group_less(1)[of a] b64_group_less(5)[of a]] show ?case by auto
next
  case (3 a b)
  from enc_add2_bits[OF 3 b64_group_less(1) b64_group_less(2)] obtain o1 where
    o1: "enc_add2 out (b64_first a) (b64_second a b) = Some o1" "temp_length o1 \<le> 8"
    "out_bits o1 = out_bits out @ sym_bits (group_sym (b64_first a)) @ sym_bits (group_sym (b64_second a b))" by blast
  from enc_add1_bits[OF o1(2) b64_group_less(6)[of b]] o1(1,3) show ?case by (auto simp: numeral_2_eq_2)
next
  case (4 a b c cs)
  from enc_add2_bits[OF 4(2) b64_group_less(1) b64_group_less(2)] obtain o1 where
    o1: "enc_add2 out (b64_first a) (b64_second a b) = Some o1" "temp_length o1 \<le> 8"
    "out_bits o1 = out_bits out @ sym_bits (group_sym (b64_first a)) @ sym_bits (group_sym (b64_second a b))" by blast
  from enc_add2_bits[OF o1(2) b64_group_less(3) b64_group_less(4)] obtain o2 where
    o2: "enc_add2 o1 (b64_third b c) (b64_fourth c) = Some o2" "temp_length o2 \<le> 8"
    "out_bits o2 = out_bits o1 @ sym_bits (group_sym (b64_third b c)) @ sym_bits (group_sym (b64_fourth c))" by blast
  from 4(1)[OF o2(2)] o1 o2 show ?case by auto
qed simp

lemma padded_bits_eq:
  assumes "byte_bits xs = bs @ replicate k True" "byte_bits ys = bs @ replicate l True" "k < 8" "l < 8"
  shows "xs = ys"
proof -
  from assms(1,2) have "8 * length xs = length bs + k" "8 * length ys = length bs + l"
    by (metis length_append length_byte_bits length_replicate)+
  with assms(3,4) have "k = l" by presburger
  with assms show ?thesis by (intro byte_bits_inj) simp
qed

lemma group_code_length: "length (concat (map (\<lambda>g. sym_bits (group_sym g)) (b64_groups xs))) \<le> 11 * length (b64_groups xs)"
proof -
  have "length (concat (map (\<lambda>g. sym_bits (group_sym g)) gs)) \<le> 11 * length gs" if "\<forall>g \<in> set gs. unat g < 64" for gs
    using that
  proof (induction gs)
    case (Cons g gs)
    with huff_alphabet_sym(3)[of g] show ?case by (simp add: sym_bits_def)
  qed simp
  then show ?thesis using b64_groups_less by blast
qed

lemma padded_bound: "8 * (m :: nat) = n + k \<Longrightarrow> k < 8 \<Longrightarrow> n \<le> b \<Longrightarrow> m \<le> b div 8 + (if b mod 8 \<noteq> 0 then 1 else 0)"
proof -
  assume a: "8 * m = n + k" "k < 8" "n \<le> b"
  have "b = 8 * (b div 8) + b mod 8" "b mod 8 < 8" by simp_all
  with a show ?thesis by (cases "b mod 8 = 0") auto
qed

lemma one_pass_bits:
  "\<exists>out k. grpc_chttp2_base64_encode_and_huffman_compress input = Some out \<and> k < 8 \<and>
     byte_bits out = concat (map (\<lambda>g. sym_bits (group_sym g)) (b64_groups input)) @ replicate k True"
proof -
  have "temp_length huff_init \<le> 8" by (simp add: huff_init_def)
  from enc_loop[OF this, of input] obtain o1 where
    o1: "do { (o1, inp) \<leftarrow> enc_triplets (length input div 3) huff_init input; enc_tail (length input mod 3) o1 inp } = Some (o1, [])"
    "out_bits o1 = concat (map (\<lambda>g. sym_bits (group_sym g)) (b64_groups input))" "temp_length o1 \<le> 8"
    by (auto simp: huff_init_def out_bits_def)
  obtain k where k: "k < 8" "byte_bits (huff_pad o1) = out_bits o1 @ replicate k True"
    using huff_pad_bits[OF o1(3)] by blast
  have t: "length input mod 3 < length tail_xtra" by (simp add: tail_xtra_def)
  have "8 * length (huff_pad o1) = length (out_bits o1) + k" using arg_cong[OF k(2), of length] by simp
  from padded_bound[OF this k(1), of "11 * length (b64_groups input)"]
  have "length (huff_pad o1) \<le> (11 * length (b64_groups input)) div 8 +
      (if (11 * length (b64_groups input)) mod 8 \<noteq> 0 then 1 else 0)"
    using group_code_length[of input] o1(2) by simp
  moreover have "length (b64_groups input) = length input div 3 * 4 + tail_xtra ! (length input mod 3)"
    using base64_spec_length[of input] by (simp add: base64_spec_def)
  ultimately show ?thesis
    using o1 k t
    by (auto simp: grpc_chttp2_base64_encode_and_huffman_compress_def Let_def c_read_def bind_eq_Some_conv)
qed

text \<open>
  C15. The one-pass encoder of binary headers is base64 encoding followed by Huffman
  compression, on every input; neither aborts, and the buffer it allocates suffices.
\<close>

theorem base64_huffman_one_pass:
  "\<exists>text out. grpc_chttp2_base64_encode input = Some text \<and> grpc_chttp2_huffman_compress text = Some out \<and>
     grpc_chttp2_base64_encode_and_huffman_compress input = Some out"
proof -
  have code: "huffman_code (base64_spec input) = concat (map (\<lambda>g. sym_bits (group_sym g)) (b64_groups input))"
    by (simp add: huffman_code_def base64_spec_def group_sym_def comp_def)
  have short: "unat (sym_length (huffman_sym c)) \<le> 24" if c: "c \<in> set (base64_spec input)" for c
  proof -
    from c obtain g where "g \<in> set (b64_groups input)" "c = alphabet ! unat g" by (auto simp: base64_spec_def)
    with b64_groups_less[of input] huff_alphabet_sym(3)[of g] show ?thesis by (auto simp: group_sym_def)
  qed
  from huffman_compress_bits[of "base64_spec input"] short obtain out k where
    out: "grpc_chttp2_huffman_compress (base64_spec input) = Some out" "k < 8"
      "byte_bits out = huffman_code (base64_spec input) @ replicate k True" by blast
  from one_pass_bits[of input] obtain out1 l where
    out1: "grpc_chttp2_base64_encode_and_huffman_compress input = Some out1" "l < 8"
      "byte_bits out1 = huffman_code (base64_spec input) @ replicate l True" by (auto simp: code)
  from padded_bits_eq[OF out(3) out1(3) out(2) out1(2)] out out1 show ?thesis
    by (simp add: base64_encode_spec)
qed

theorem huffman_compress_correct_witness:
  "\<exists>out k. grpc_chttp2_huffman_compress [0x61, 0x62, 0x63] = Some out \<and> k < 8 \<and>
     byte_bits out = huffman_code [0x61, 0x62, 0x63] @ replicate k True"
  using huffman_compress_correct[of "[0x61, 0x62, 0x63]"] printable_codes by (auto simp: word_le_nat_alt)

end
