(* ===== verification/Huffman_Tables.thy ===== *)
theory Huffman_Tables
  imports Hpack_Huffman
begin

text \<open>
  The check of the generated Huffman tables of the HPACK parser, entry by entry,
  against the codes of the encoder's table. A decoder state stands for the bits read
  since the last symbol.
\<close>

section \<open>The states and the codes as numbers\<close>

text \<open>Length and value of the bits that each state stands for, and of each code.\<close>

definition huff_prefixes :: "(nat \<times> nat) list" where
  "huff_prefixes =
     [(0, 0), (4, 0), (3, 0), (2, 0), (1, 0), (5, 10), (3, 1), (2, 1),
      (1, 1), (5, 16), (3, 2), (2, 2), (6, 46), (3, 3), (3, 4), (3, 5),
      (3, 6), (3, 7), (7, 124), (7, 125), (7, 126), (7, 127), (11, 2045), (11, 2046),
      (2, 3), (6, 48), (6, 49), (6, 50), (6, 51), (6, 52), (6, 53), (6, 54),
      (6, 55), (6, 56), (6, 57), (6, 58), (6, 59), (6, 60), (6, 61), (6, 62),
      (6, 63), (10, 1021), (10, 1022), (10, 1023), (14, 16382), (14, 16383), (18, 262136), (18, 262137),
      (18, 262138), (18, 262139), (18, 262140), (18, 262141), (18, 262142), (22, 4194284), (22, 4194285), (22, 4194286),
      (22, 4194287), (18, 262143), (22, 4194288), (22, 4194289), (22, 4194290), (22, 4194291), (22, 4194292), (22, 4194293),
      (22, 4194294), (22, 4194295), (22, 4194296), (22, 4194297), (22, 4194298), (22, 4194299), (22, 4194300), (22, 4194301),
      (22, 4194302), (26, 67108847), (22, 4194303), (26, 67108848), (26, 67108849), (26, 67108850), (26, 67108851), (26, 67108852),
      (26, 67108853), (26, 67108854), (26, 67108855), (26, 67108856), (26, 67108857), (26, 67108858), (26, 67108859), (26, 67108860),
      (26, 67108861), (26, 67108862), (26, 67108863), (11, 2047), (15, 32767), (19, 524275), (19, 524276), (19, 524277),
      (19, 524278), (19, 524279), (19, 524280), (19, 524281), (19, 524282), (19, 524283), (19, 524284), (19, 524285),
      (19, 524286), (19, 524287), (23, 8388597), (23, 8388598), (23, 8388599), (23, 8388600), (23, 8388601), (23, 8388602),
      (23, 8388603), (23, 8388604), (23, 8388605), (23, 8388606), (23, 8388607), (27, 134217713), (27, 134217714), (27, 134217715),
      (27, 134217716), (27, 134217717), (27, 134217718), (27, 134217719), (27, 134217720), (27, 134217721), (27, 134217722), (27, 134217723),
      (27, 134217724), (27, 134217725), (27, 134217726), (27, 134217727), (6, 47), (5, 17), (5, 18), (5, 19),
      (5, 20), (5, 21), (5, 22), (5, 23), (5, 24), (5, 25), (5, 26), (5, 27),
      (5, 28), (5, 29), (5, 30), (5, 31), (9, 508), (9, 509), (9, 510), (9, 511),
      (13, 8190), (13, 8191), (17, 131068), (17, 131069), (17, 131070), (21, 2097129), (21, 2097130), (21, 2097131),
      (21, 2097132), (21, 2097133), (21, 2097134), (21, 2097135), (17, 131071), (21, 2097136), (21, 2097137), (21, 2097138),
      (21, 2097139), (21, 2097140), (21, 2097141), (21, 2097142), (21, 2097143), (21, 2097144), (21, 2097145), (21, 2097146),
      (21, 2097147), (21, 2097148), (21, 2097149), (21, 2097150), (21, 2097151), (25, 33554416), (25, 33554417), (25, 33554418),
      (25, 33554419), (25, 33554420), (25, 33554421), (25, 33554422), (25, 33554423), (25, 33554424), (25, 33554425), (25, 33554426),
      (25, 33554427), (25, 33554428), (25, 33554429), (25, 33554430), (25, 33554431), (29, 536870910), (29, 536870911), (5, 11),
      (5, 12), (5, 13), (5, 14), (5, 15), (4, 1), (4, 2), (4, 3), (4, 4),
      (4, 5), (4, 6), (4, 7), (4, 8), (4, 9), (4, 10), (4, 11), (4, 12),
      (4, 13), (4, 14), (4, 15), (8, 254), (8, 255), (12, 4092), (12, 4093), (12, 4094),
      (12, 4095), (16, 65534), (20, 1048558), (20, 1048559), (16, 65535), (20, 1048560), (20, 1048561), (20, 1048562),
      (20, 1048563), (20, 1048564), (20, 1048565), (20, 1048566), (20, 1048567), (20, 1048568), (20, 1048569), (20, 1048570),
      (20, 1048571), (20, 1048572), (20, 1048573), (20, 1048574), (20, 1048575), (24, 16777206), (24, 16777207), (24, 16777208),
      (24, 16777209), (24, 16777210), (24, 16777211), (24, 16777212), (24, 16777213), (24, 16777214), (24, 16777215), (28, 268435455)]"

definition huff_codes :: "(nat \<times> nat) list" where
  "huff_codes = map (\<lambda>s. (unat (sym_length s), unat (bits s))) grpc_chttp2_huffsyms"

text \<open>The tables cut into their rows of 16 entries.\<close>

fun rows16 :: "'a list \<Rightarrow> 'a list list" where
  "rows16 (a0 # a1 # a2 # a3 # a4 # a5 # a6 # a7 # a8 # a9 # a10 # a11 # a12 # a13 # a14 # a15 # xs) =
     [a0, a1, a2, a3, a4, a5, a6, a7, a8, a9, a10, a11, a12, a13, a14, a15] # rows16 xs"
| "rows16 _ = []"

definition emit_rows :: "int list list" where "emit_rows = rows16 emit_sub_tbl"

definition next_rows :: "nat list list" where "next_rows = rows16 next_sub_tbl"

lemma rows16_nth: "16 * i + 15 < length xs \<Longrightarrow> j < 16 \<Longrightarrow> rows16 xs ! i ! j = xs ! (16 * i + j)"
proof (induction xs arbitrary: i rule: rows16.induct)
  case (1 a0 a1 a2 a3 a4 a5 a6 a7 a8 a9 a10 a11 a12 a13 a14 a15 xs)
  show ?case
  proof (cases i)
    case 0
    have "[a0, a1, a2, a3, a4, a5, a6, a7, a8, a9, a10, a11, a12, a13, a14, a15] ! j =
      ([a0, a1, a2, a3, a4, a5, a6, a7, a8, a9, a10, a11, a12, a13, a14, a15] @ xs) ! j"
      using 1(3) by (subst nth_append) simp
    then show ?thesis by (simp add: 0)
  next
    case (Suc k)
    have "([a0, a1, a2, a3, a4, a5, a6, a7, a8, a9, a10, a11, a12, a13, a14, a15] @ xs) ! (16 * i + j) = xs ! (16 * k + j)"
      by (subst nth_append) (simp add: Suc)
    then show ?thesis using 1(1)[of k] 1(2,3) by (simp add: Suc)
  qed
qed auto

text \<open>The entries of a list as equations, one per index.\<close>

definition indexed :: "(nat \<Rightarrow> 'a \<Rightarrow> bool) \<Rightarrow> nat \<Rightarrow> 'a list \<Rightarrow> bool" where
  "indexed P i xs \<longleftrightarrow> (\<forall>j < length xs. P (i + j) (xs ! j))"

lemma indexed_Cons: "indexed P i (x # xs) \<longleftrightarrow> P i x \<and> indexed P (Suc i) xs"
  by (auto simp: indexed_def less_Suc_eq_0_disj)

lemma indexed_simps:
  "indexed P i [] \<longleftrightarrow> True"
  "indexed P 0 (x # xs) \<longleftrightarrow> P 0 x \<and> indexed P (Suc 0) xs"
  "indexed P (Suc 0) (x # xs) \<longleftrightarrow> P (Suc 0) x \<and> indexed P 2 xs"
  "indexed P (numeral k) (x # xs) \<longleftrightarrow> P (numeral k) x \<and> indexed P (numeral (Num.inc k)) xs"
  by (simp_all add: indexed_Cons numeral_inc) (simp_all add: indexed_def numeral_2_eq_2)

lemma entries: "xs = ys \<Longrightarrow> indexed (\<lambda>i x. xs ! i = x) 0 ys"
  by (simp add: indexed_def)

lemmas emit_sub_tbl_parts =
  emit_sub_tbl_def emit_sub_tbl_0_def emit_sub_tbl_1_def emit_sub_tbl_2_def emit_sub_tbl_3_def emit_sub_tbl_4_def
  emit_sub_tbl_5_def emit_sub_tbl_6_def emit_sub_tbl_7_def

lemmas prefix_entries = entries[OF huff_prefixes_def, simplified indexed_simps Num.inc.simps]

lemmas code_entries =
  entries[OF huff_codes_def[unfolded grpc_chttp2_huffsyms_def huffsym_def, simplified],
    simplified indexed_simps Num.inc.simps]

lemmas next_row_entries =
  entries[OF next_rows_def[unfolded next_sub_tbl_def, simplified], simplified indexed_simps Num.inc.simps]

lemmas emit_row_entries =
  entries[OF emit_rows_def[unfolded emit_sub_tbl_parts, simplified], simplified indexed_simps Num.inc.simps]

section \<open>The check of the tables\<close>

text \<open>
  From a state with prefix \<open>(pl, pv)\<close>, nibble \<open>n\<close>: without an emission the nibble
  extends the prefix; with one, prefix and nibble are the emitted symbol's code
  followed by the next state's prefix.
\<close>

fun huff_row_ok :: "nat \<Rightarrow> nat \<Rightarrow> nat \<Rightarrow> int list \<Rightarrow> nat list \<Rightarrow> bool" where
  "huff_row_ok pl pv n (e # es) (s # ss) =
    ((case huff_prefixes ! s of (nl, nv) \<Rightarrow>
      (if e = -1 then nl = pl + 4 \<and> nv = 16 * pv + n
       else (case huff_codes ! nat e of (cl, cv) \<Rightarrow> cl + nl = pl + 4 \<and> cv * 2 ^ nl + nv = 16 * pv + n))) \<and>
     huff_row_ok pl pv (Suc n) es ss)"
| "huff_row_ok pl pv n _ _ = True"

fun huff_check :: "nat list \<Rightarrow> nat list \<Rightarrow> (nat \<times> nat) list \<Rightarrow> bool" where
  "huff_check (e # es) (n # ns) ((pl, pv) # ps) =
    (huff_row_ok pl pv 0 (emit_rows ! e) (next_rows ! n) \<and> huff_check es ns ps)"
| "huff_check _ _ _ = True"

lemma huff_tables_check: "huff_check emit_tbl next_tbl huff_prefixes"
  apply (simp only: emit_tbl_def next_tbl_def huff_prefixes_def)
  apply (simp only: huff_check.simps)
  apply (simp only: emit_row_entries next_row_entries)
  apply (simp add: prefix_entries code_entries emit_row_entries next_row_entries)
  done

section \<open>No code is a prefix of another\<close>

text \<open>The symbols in the order of their codes, and the interval of 30-bit strings that a code starts.\<close>

definition huff_order :: "nat list" where
  "huff_order =
     [48, 49, 50, 97, 99, 101, 105, 111, 115, 116, 32, 37, 45, 46, 47, 51,
      52, 53, 54, 55, 56, 57, 61, 65, 95, 98, 100, 102, 103, 104, 108, 109,
      110, 112, 114, 117, 58, 66, 67, 68, 69, 70, 71, 72, 73, 74, 75, 76,
      77, 78, 79, 80, 81, 82, 83, 84, 85, 86, 87, 89, 106, 107, 113, 118,
      119, 120, 121, 122, 38, 42, 44, 59, 88, 90, 33, 34, 40, 41, 63, 39,
      43, 124, 35, 62, 0, 36, 64, 91, 93, 126, 94, 125, 60, 96, 123, 92,
      195, 208, 128, 130, 131, 162, 184, 194, 224, 226, 153, 161, 167, 172, 176, 177,
      179, 209, 216, 217, 227, 229, 230, 129, 132, 133, 134, 136, 146, 154, 156, 160,
      163, 164, 169, 170, 173, 178, 181, 185, 186, 187, 189, 190, 196, 198, 228, 232,
      233, 1, 135, 137, 138, 139, 140, 141, 143, 147, 149, 150, 151, 152, 155, 157,
      158, 165, 166, 168, 174, 175, 180, 182, 183, 188, 191, 197, 231, 239, 9, 142,
      144, 145, 148, 159, 171, 206, 215, 225, 236, 237, 199, 207, 234, 235, 192, 193,
      200, 201, 202, 205, 210, 213, 218, 219, 238, 240, 242, 243, 255, 203, 204, 211,
      212, 214, 221, 222, 223, 241, 244, 245, 246, 247, 248, 250, 251, 252, 253, 254,
      2, 3, 4, 5, 6, 7, 8, 11, 12, 14, 15, 16, 17, 18, 19, 20,
      21, 23, 24, 25, 26, 27, 28, 29, 30, 31, 127, 220, 249, 10, 13, 22,
      256]"

definition code_low :: "nat \<Rightarrow> nat" where
  "code_low c = (case huff_codes ! c of (l, v) \<Rightarrow> v * 2 ^ (30 - l))"

definition code_high :: "nat \<Rightarrow> nat" where
  "code_high c = (case huff_codes ! c of (l, v) \<Rightarrow> (v + 1) * 2 ^ (30 - l))"

fun intervals_ok :: "nat list \<Rightarrow> bool" where
  "intervals_ok (c # d # cs) \<longleftrightarrow> code_low c < code_high c \<and> code_high c \<le> code_low d \<and> intervals_ok (d # cs)"
| "intervals_ok [c] \<longleftrightarrow> code_low c < code_high c"
| "intervals_ok [] \<longleftrightarrow> True"

lemma huff_intervals_check: "intervals_ok huff_order"
  apply (simp only: huff_order_def)
  apply (simp only: intervals_ok.simps code_low_def code_high_def)
  apply (simp add: code_entries)
  done

lemma huff_order_length: "length huff_order = 257"
  by (simp add: huff_order_def)

lemma huff_order_less: "list_all (\<lambda>c. c < 257) huff_order"
  by (simp add: huff_order_def)

lemma intervals_increase:
  "intervals_ok (c # cs) \<Longrightarrow> d \<in> set cs \<Longrightarrow> code_high c \<le> code_low d"
proof (induction cs arbitrary: c)
  case (Cons e cs)
  then have e: "code_high c \<le> code_low e" "intervals_ok (e # cs)" by simp_all
  moreover have "code_low e < code_high e" using e(2) by (cases cs) auto
  ultimately show ?case using Cons.IH[OF e(2)] Cons.prems(2) by fastforce
qed simp

lemma intervals_sorted: "intervals_ok cs \<Longrightarrow> sorted_wrt (\<lambda>c d. code_high c \<le> code_low d) cs"
proof (induction cs)
  case (Cons c cs)
  then have "intervals_ok cs" by (cases cs) auto
  with Cons intervals_increase show ?case by auto
qed simp

lemma intervals_nonempty: "intervals_ok cs \<Longrightarrow> c \<in> set cs \<Longrightarrow> code_low c < code_high c"
  by (induction cs rule: intervals_ok.induct) auto

lemma huff_order_distinct: "distinct huff_order"
proof -
  have "distinct cs" if "intervals_ok cs" for cs
    using that
  proof (induction cs)
    case (Cons c cs)
    moreover from Cons.prems have "intervals_ok cs" by (cases cs) auto
    moreover have "c \<notin> set cs"
      using intervals_increase[OF Cons.prems, of c] intervals_nonempty[OF Cons.prems, of c] by auto
    ultimately show ?case by simp
  qed simp
  then show ?thesis using huff_intervals_check by blast
qed

lemma huff_order_set: "set huff_order = {..<257}"
proof (rule card_subset_eq)
  show "set huff_order \<subseteq> {..<257}" using huff_order_less by (auto simp: list_all_iff)
  show "card (set huff_order) = card {..<257::nat}"
    using distinct_card[OF huff_order_distinct] by (simp add: huff_order_length)
qed simp

text \<open>Different symbols have disjoint intervals.\<close>

lemma code_intervals_disjoint:
  assumes "c < 257" "d < 257" "c \<noteq> d"
  shows "code_high c \<le> code_low d \<or> code_high d \<le> code_low c"
proof -
  from assms have "c \<in> set huff_order" "d \<in> set huff_order" by (simp_all add: huff_order_set)
  then obtain i j where ij: "i < length huff_order" "j < length huff_order" "huff_order ! i = c" "huff_order ! j = d"
    by (auto simp: in_set_conv_nth)
  with assms(3) have "i < j \<or> j < i" by (cases i j rule: linorder_cases) auto
  then show ?thesis
    using ij intervals_sorted[OF huff_intervals_check] unfolding sorted_wrt_iff_nth_less by blast
qed

lemma code_interval_nonempty: "c < 257 \<Longrightarrow> code_low c < code_high c"
  using intervals_nonempty[OF huff_intervals_check] by (simp add: huff_order_set)

lemma huff_codes_length: "length huff_codes = 257"
  by (simp add: huff_codes_def grpc_chttp2_huffsyms_def)

lemma huff_codes_ok:
  "list_all (\<lambda>(l, v). 5 \<le> l \<and> l \<le> 30 \<and> v < 2 ^ l \<and> (l < 8 \<longrightarrow> v + 1 \<noteq> 2 ^ l)) huff_codes"
  by (simp add: huff_codes_def grpc_chttp2_huffsyms_def huffsym_def)

section \<open>A state is a proper prefix of a code\<close>

definition huff_prefix_codes :: "nat list" where
  "huff_prefix_codes =
     [0, 48, 48, 48, 32, 32, 99, 32, 0, 61, 32, 58, 58, 47, 61, 58,
      69, 0, 38, 44, 88, 0, 35, 0, 0, 69, 71, 73, 75, 77, 79, 81,
      83, 85, 87, 106, 113, 119, 121, 38, 0, 39, 35, 0, 60, 1, 92, 128,
      131, 153, 176, 129, 1, 1, 137, 139, 141, 2, 147, 150, 152, 157, 165, 168,
      175, 182, 188, 197, 9, 144, 171, 199, 192, 203, 2, 211, 214, 222, 241, 245,
      247, 250, 252, 2, 4, 8, 15, 19, 24, 28, 10, 1, 1, 128, 131, 184,
      224, 153, 176, 216, 129, 154, 178, 1, 147, 2, 9, 144, 148, 171, 215, 236,
      199, 192, 203, 211, 2, 2, 4, 6, 8, 12, 15, 17, 19, 21, 24, 26,
      28, 30, 127, 10, 67, 95, 100, 103, 108, 110, 114, 58, 69, 73, 77, 81,
      85, 106, 119, 0, 33, 40, 39, 0, 94, 1, 92, 131, 129, 129, 133, 136,
      154, 160, 164, 170, 1, 178, 185, 187, 190, 198, 232, 1, 139, 147, 152, 165,
      175, 188, 9, 171, 2, 192, 200, 202, 210, 218, 238, 242, 203, 211, 222, 245,
      250, 2, 8, 19, 10, 10, 22, 45, 47, 52, 54, 56, 50, 99, 105, 115,
      32, 47, 54, 61, 100, 108, 58, 69, 77, 85, 0, 33, 0, 0, 64, 93,
      1, 92, 153, 167, 1, 176, 179, 216, 227, 129, 133, 154, 164, 178, 187, 198,
      1, 147, 165, 9, 2, 199, 234, 192, 202, 218, 203, 211, 245, 2, 10, 10]"

fun prefixes_ok :: "(nat \<times> nat) list \<Rightarrow> nat list \<Rightarrow> bool" where
  "prefixes_ok ((l, v) # ps) (c # cs) \<longleftrightarrow>
     (case huff_codes ! c of (cl, cv) \<Rightarrow> l < cl \<and> v = cv div 2 ^ (cl - l)) \<and> v < 2 ^ l \<and> c < 257 \<and> prefixes_ok ps cs"
| "prefixes_ok _ _ \<longleftrightarrow> True"

lemma huff_prefixes_check: "prefixes_ok huff_prefixes huff_prefix_codes"
  apply (simp only: huff_prefixes_def huff_prefix_codes_def)
  apply (simp only: prefixes_ok.simps)
  apply (simp add: code_entries)
  done

lemma huff_prefixes_length: "length huff_prefixes = 256" "length huff_prefix_codes = 256"
  by (simp_all add: huff_prefixes_def huff_prefix_codes_def)

end
