(* ===== verification/Huffman_Decoder.thy ===== *)
theory Huffman_Decoder
  imports Hpack_Parser_Chunks Huffman_Encoder Huffman_Tables
begin

text \<open>
  The nibble tables of the HPACK parser decode what the Huffman compressor writes:
  from the checked tables, the bits that the decoder has read are always the codes
  of the symbols it has emitted followed by the prefix of its state, and no code is
  a prefix of another.
\<close>

section \<open>Codes and prefixes as bit strings\<close>

definition code_bits :: "nat \<Rightarrow> bool list" where
  "code_bits c = (case huff_codes ! c of (l, v) \<Rightarrow> nbits l v)"

definition state_bits :: "nat \<Rightarrow> bool list" where
  "state_bits s = (case huff_prefixes ! s of (l, v) \<Rightarrow> nbits l v)"

lemma nbits_take_bit: "nbits n (take_bit n v :: nat) = nbits n v"
  by (rule nbits_cong) (simp add: bit_take_bit_iff)

lemma nbits_inj_nat:
  assumes "nbits n (a :: nat) = nbits n b" "a < 2 ^ n" "b < 2 ^ n"
  shows "a = b"
proof (rule bit_eqI)
  fix i
  show "bit a i \<longleftrightarrow> bit b i"
  proof (cases "i < n")
    case True
    have "nbits n a ! (n - 1 - i) = nbits n b ! (n - 1 - i)" using assms(1) by simp
    with True show ?thesis by (simp add: nbits_def rev_nth)
  next
    case False
    with assms(2,3) have "take_bit n a = a" "take_bit n b = b" by (simp_all add: take_bit_nat_eq_self)
    with False show ?thesis by (metis bit_take_bit_iff)
  qed
qed

lemma nbits_concat:
  fixes x y :: nat
  assumes "y < 2 ^ b"
  shows "nbits (a + b) (x * 2 ^ b + y) = nbits a x @ nbits b y"
proof -
  have "drop_bit b (x * 2 ^ b + y) = x" using assms by (simp add: drop_bit_eq_div)
  moreover have "nbits b (x * 2 ^ b + y) = nbits b y"
    using nbits_take_bit[of b "x * 2 ^ b + y"] nbits_take_bit[of b y] by (simp add: take_bit_eq_mod)
  ultimately show ?thesis by (simp add: nbits_add)
qed

lemma nbits_unat: "n \<le> 32 \<Longrightarrow> nbits n (v :: u32) = nbits n (unat v)"
  by (rule nbits_cong) (simp add: bit_unsigned_iff)

lemma code_entry:
  assumes "c < 257" "huff_codes ! c = (l, v)"
  shows "5 \<le> l" "l \<le> 30" "v < 2 ^ l" "l < 8 \<Longrightarrow> v + 1 \<noteq> 2 ^ l"
  using huff_codes_ok assms unfolding list_all_length huff_codes_length by auto

lemma code_bits_sym: "c < 257 \<Longrightarrow> code_bits c = sym_bits (grpc_chttp2_huffsyms ! c)"
  using code_entry[of c "unat (sym_length (grpc_chttp2_huffsyms ! c))" "unat (bits (grpc_chttp2_huffsyms ! c))"]
  by (simp add: code_bits_def huff_codes_def sym_bits_def nbits_unat huffsyms_length)

lemma huffman_code_bits: "huffman_code cs = concat (map (\<lambda>c. code_bits (unat c)) cs)"
proof -
  have "code_bits (unat c) = sym_bits (huffman_sym c)" for c :: u8
    using unat_u8_less[of c] by (simp add: code_bits_sym huffman_sym_def)
  then show ?thesis by (simp add: huffman_code_def)
qed

section \<open>Prefixes\<close>

text \<open>A code that is a prefix of another would start inside its interval.\<close>

lemma code_prefix_free:
  assumes "c < 257" "d < 257" "code_bits d = code_bits c @ rest"
  shows "c = d"
proof (rule ccontr)
  assume ne: "c \<noteq> d"
  obtain l v m w where c: "huff_codes ! c = (l, v)" and d: "huff_codes ! d = (m, w)" by fastforce
  note lc = code_entry[OF assms(1) c] and ld = code_entry[OF assms(2) d]
  have len: "m = l + length rest" using arg_cong[OF assms(3), of length] by (simp add: code_bits_def c d)
  have "nbits l (drop_bit (length rest) w) @ nbits (length rest) w = nbits l v @ rest"
    using assms(3) nbits_add[of l "length rest" w] by (simp add: code_bits_def c d len)
  then have "nbits l (w div 2 ^ length rest) = nbits l v" by (simp add: drop_bit_eq_div)
  moreover have "w div 2 ^ length rest < 2 ^ l"
    using ld(3) by (simp add: len power_add less_mult_imp_div_less)
  ultimately have v: "v = w div 2 ^ length rest" using lc(3) nbits_inj_nat by metis
  define k where "k = (2 :: nat) ^ (30 - m)"
  have "30 - l = length rest + (30 - m)" using ld(2) len by simp
  then have p: "(2 :: nat) ^ (30 - l) = 2 ^ length rest * k" by (simp add: power_add k_def)
  have "v * 2 ^ length rest \<le> w" "w < (v + 1) * 2 ^ length rest"
    using v by (simp_all add: div_times_less_eq_dividend dividend_less_div_times)
  then have "v * (2 ^ length rest * k) \<le> w * k" "w * k < (v + 1) * (2 ^ length rest * k)"
    by (simp_all add: k_def flip: mult.assoc)
  then have "code_low c \<le> code_low d" "code_low d < code_high c"
    by (simp_all only: code_low_def code_high_def c d prod.case p flip: k_def)
  with code_intervals_disjoint[OF assms(1,2) ne] code_interval_nonempty[OF assms(2)] show False by linarith
qed

lemma prefixes_okD:
  "prefixes_ok ps cs \<Longrightarrow> i < length ps \<Longrightarrow> length cs = length ps \<Longrightarrow>
     (case ps ! i of (l, v) \<Rightarrow> (case huff_codes ! (cs ! i) of (cl, cv) \<Rightarrow> l < cl \<and> v = cv div 2 ^ (cl - l)) \<and>
        v < 2 ^ l \<and> cs ! i < 257)"
proof (induction ps cs arbitrary: i rule: prefixes_ok.induct)
  case (1 l v ps c cs)
  then show ?case by (cases i) auto
qed auto

text \<open>The prefix of a state is a proper prefix of a code.\<close>

lemma state_bits_proper:
  assumes "s < 256"
  shows "\<exists>c rest. c < 257 \<and> rest \<noteq> [] \<and> code_bits c = state_bits s @ rest"
proof -
  obtain l v where p: "huff_prefixes ! s = (l, v)" by fastforce
  obtain cl cv where c: "huff_codes ! (huff_prefix_codes ! s) = (cl, cv)" by fastforce
  from prefixes_okD[OF huff_prefixes_check, of s] assms p c
  have *: "l < cl" "v = cv div 2 ^ (cl - l)" "huff_prefix_codes ! s < 257" by (simp_all add: huff_prefixes_length)
  have "code_bits (huff_prefix_codes ! s) = state_bits s @ nbits (cl - l) cv"
    using nbits_add[of l "cl - l" cv] *(1,2) by (simp add: code_bits_def state_bits_def p c drop_bit_eq_div)
  moreover have "nbits (cl - l) cv \<noteq> []" using *(1) by (metis length_nbits list.size(3) zero_less_diff less_nat_zero_code)
  ultimately show ?thesis using *(3) by blast
qed

lemma state_entry: "s < 256 \<Longrightarrow> huff_prefixes ! s = (l, v) \<Longrightarrow> v < 2 ^ l"
  using prefixes_okD[OF huff_prefixes_check, of s] by (simp add: huff_prefixes_length split: prod.splits)

lemma state_bits_0: "state_bits 0 = []"
  by (simp add: state_bits_def huff_prefixes_def)

lemma code_bits_nonempty: "c < 257 \<Longrightarrow> code_bits c \<noteq> []"
  using code_entry(1)[of c] by (cases "huff_codes ! c") (auto simp: code_bits_def nbits_def)

text \<open>Reading codes followed by fewer than eight ones, or by the prefix of a state, is unambiguous.\<close>

lemma code_not_ones:
  assumes "c < 257" "replicate k True = code_bits c @ rest" "k < 8"
  shows False
proof -
  obtain l v where c: "huff_codes ! c = (l, v)" by fastforce
  note e = code_entry[OF assms(1) c]
  have len: "l + length rest = k" using arg_cong[OF assms(2), of length] by (simp add: code_bits_def c)
  then have "code_bits c = replicate l True"
    using assms(2) by (metis append_eq_append_conv code_bits_def c length_nbits length_replicate prod.case replicate_add)
  also have "replicate l True = nbits l (mask l :: nat)"
    by (intro nth_equalityI) (auto simp: nbits_def rev_nth bit_mask_iff)
  finally have "nbits l v = nbits l (mask l :: nat)" by (simp add: code_bits_def c)
  from nbits_inj_nat[OF this e(3)] have "v = mask l" by (simp add: mask_eq_exp_minus_1)
  then have "v + 1 = 2 ^ l" by (simp add: mask_eq_exp_minus_1)
  with e(4) len assms(3) show False by simp
qed

lemma codes_comparable:
  assumes "c < 257" "d < 257" "code_bits c @ xs = code_bits d @ ys"
  shows "c = d \<and> xs = ys"
proof -
  from assms(3) obtain rest where "code_bits d = code_bits c @ rest \<or> code_bits c = code_bits d @ rest"
    unfolding append_eq_append_conv2 by metis
  then have "c = d" using code_prefix_free assms(1,2) by metis
  with assms(3) show ?thesis by simp
qed

lemma state_no_code:
  assumes "s < 256" "c < 257" "state_bits s = code_bits c @ xs"
  shows False
proof -
  from state_bits_proper[OF assms(1)] obtain d rest where d: "d < 257" "rest \<noteq> []" "code_bits d = state_bits s @ rest" by blast
  then have "code_bits d @ [] = code_bits c @ xs @ rest" using assms(3) by simp
  from codes_comparable[OF d(1) assms(2) this] d(2) show False by simp
qed

lemma unique_decoding:
  assumes "k < 8" "s < 256"
  shows "set xs \<subseteq> {..<257} \<Longrightarrow> set ys \<subseteq> {..<257} \<Longrightarrow>
    concat (map code_bits xs) @ replicate k True = concat (map code_bits ys) @ state_bits s \<Longrightarrow> xs = ys"
proof (induction xs arbitrary: ys)
  case Nil
  then show ?case
    using code_not_ones[OF _ _ assms(1)] by (cases ys) (auto simp: append.assoc)
next
  case (Cons x xs)
  show ?case
  proof (cases ys)
    case Nil
    with Cons.prems(3) have "state_bits s = code_bits x @ concat (map code_bits xs) @ replicate k True" by simp
    from state_no_code[OF assms(2) _ this] Cons.prems(1) show ?thesis by simp
  next
    case (Cons y zs)
    with Cons.prems codes_comparable[of x y "concat (map code_bits xs) @ replicate k True" "concat (map code_bits zs) @ state_bits s"]
      Cons.IH[of zs] show ?thesis by auto
  qed
qed

end
