(* ===== verification/Huffman_Roundtrip.thy ===== *)
theory Huffman_Roundtrip
  imports Huffman_Decoder
begin

text \<open>
  The round trips of header strings: what the encoder compresses or writes in
  base64 is read back by the parser's string functions.
\<close>

section \<open>Nibbles\<close>

text \<open>The emission and the next state of the tables.\<close>

definition huff_trans :: "nat \<Rightarrow> nat \<Rightarrow> int \<times> nat" where
  "huff_trans s n = (emit_sub_tbl ! (16 * emit_tbl ! s + n), next_sub_tbl ! (16 * next_tbl ! s + n))"

lemma huff_checkD:
  "huff_check es ns ps \<Longrightarrow> length ns = length es \<Longrightarrow> length ps = length es \<Longrightarrow> i < length es \<Longrightarrow>
     huff_row_ok (fst (ps ! i)) (snd (ps ! i)) 0 (emit_rows ! (es ! i)) (next_rows ! (ns ! i))"
proof (induction es ns ps arbitrary: i rule: huff_check.induct)
  case (1 e es n ns pl pv ps)
  then show ?case by (cases i) auto
qed auto

definition huff_entry_ok :: "nat \<Rightarrow> nat \<Rightarrow> nat \<Rightarrow> int \<Rightarrow> nat \<Rightarrow> bool" where
  "huff_entry_ok pl pv n e s \<longleftrightarrow>
     (case huff_prefixes ! s of (nl, nv) \<Rightarrow>
       (if e = -1 then nl = pl + 4 \<and> nv = 16 * pv + n
        else (case huff_codes ! nat e of (cl, cv) \<Rightarrow> cl + nl = pl + 4 \<and> cv * 2 ^ nl + nv = 16 * pv + n)))"

lemma huff_row_ok_Cons:
  "huff_row_ok pl pv n (e # es) (s # ss) \<longleftrightarrow> huff_entry_ok pl pv n e s \<and> huff_row_ok pl pv (Suc n) es ss"
  by (simp add: huff_entry_ok_def)

lemma huff_row_okD:
  "huff_row_ok pl pv n es ss \<Longrightarrow> length ss = length es \<Longrightarrow> j < length es \<Longrightarrow>
     huff_entry_ok pl pv (n + j) (es ! j) (ss ! j)"
proof (induction es arbitrary: n j ss)
  case (Cons e es)
  from Cons.prems(2) obtain s ss1 where ss: "ss = s # ss1" by (cases ss) auto
  show ?case
  proof (cases j)
    case 0
    with Cons.prems ss show ?thesis by (simp add: huff_row_ok_Cons del: huff_row_ok.simps)
  next
    case (Suc k)
    with Cons.prems Cons.IH[of "Suc n" ss1 k] ss show ?thesis by (simp add: huff_row_ok_Cons del: huff_row_ok.simps)
  qed
qed simp

lemma rows16_length: "16 * i + 15 < length xs \<Longrightarrow> length (rows16 xs ! i) = 16"
proof (induction xs arbitrary: i rule: rows16.induct)
  case (1 a0 a1 a2 a3 a4 a5 a6 a7 a8 a9 a10 a11 a12 a13 a14 a15 xs)
  then show ?case by (cases i) auto
qed auto

lemma huff_trans_bits:
  assumes "s < 256" "n < 16" "huff_trans s n = (e, t)"
  shows "t < 256" "-1 \<le> e" "e \<le> 256"
    "e = -1 \<Longrightarrow> state_bits t = state_bits s @ nbits 4 n"
    "e \<noteq> -1 \<Longrightarrow> code_bits (nat e) @ state_bits t = state_bits s @ nbits 4 n"
proof -
  note lk = huffman_lookup[OF assms(1,2)]
  from assms(3) have e: "e = emit_sub_tbl ! (16 * emit_tbl ! s + n)" and t: "t = next_sub_tbl ! (16 * next_tbl ! s + n)"
    by (simp_all add: huff_trans_def)
  show t256: "t < 256" and e1: "-1 \<le> e" and e2: "e \<le> 256" using lk by (simp_all add: e t)
  have len: "16 * emit_tbl ! s + 15 < length emit_sub_tbl" "16 * next_tbl ! s + 15 < length next_sub_tbl"
    using lk(1,2) by (simp_all add: huffman_table_lengths)
  have rows: "emit_rows ! (emit_tbl ! s) ! n = e" "next_rows ! (next_tbl ! s) ! n = t"
    "length (emit_rows ! (emit_tbl ! s)) = 16" "length (next_rows ! (next_tbl ! s)) = 16"
    using rows16_nth[OF len(1) assms(2)] rows16_nth[OF len(2) assms(2)] rows16_length[OF len(1)] rows16_length[OF len(2)]
    by (simp_all add: emit_rows_def next_rows_def e t)
  obtain pl pv where p: "huff_prefixes ! s = (pl, pv)" by fastforce
  obtain nl nv where n: "huff_prefixes ! t = (nl, nv)" by fastforce
  have "huff_row_ok pl pv 0 (emit_rows ! (emit_tbl ! s)) (next_rows ! (next_tbl ! s))"
    using huff_checkD[OF huff_tables_check, of s] assms(1) by (simp add: huffman_table_lengths huff_prefixes_length p)
  from huff_row_okD[OF this, of n] rows assms(2) have "huff_entry_ok pl pv n e t" by simp
  then have row: "if e = -1 then nl = pl + 4 \<and> nv = 16 * pv + n
      else (case huff_codes ! nat e of (cl, cv) \<Rightarrow> cl + nl = pl + 4 \<and> cv * 2 ^ nl + nv = 16 * pv + n)"
    by (simp add: huff_entry_ok_def n)
  have "n < 2 ^ 4" using assms(2) by simp
  from nbits_concat[OF this, of pl pv] have cat: "nbits (pl + 4) (16 * pv + n) = state_bits s @ nbits 4 n"
    by (simp add: state_bits_def p mult.commute)
  show "state_bits t = state_bits s @ nbits 4 n" if "e = -1"
    using row that cat by (simp add: state_bits_def n)
  show "code_bits (nat e) @ state_bits t = state_bits s @ nbits 4 n" if "e \<noteq> -1"
  proof -
    obtain cl cv where c: "huff_codes ! nat e = (cl, cv)" by fastforce
    with row that have "cl + nl = pl + 4" "cv * 2 ^ nl + nv = 16 * pv + n" by simp_all
    with nbits_concat[OF state_entry[OF t256 n], of cl cv] cat show ?thesis
      by (simp add: code_bits_def state_bits_def c n)
  qed
qed

text \<open>The nibbles of a byte, and the symbols emitted for a list of bytes.\<close>

fun huff_symbols :: "nat \<Rightarrow> bytes \<Rightarrow> int list \<times> nat" where
  "huff_symbols s [] = ([], s)"
| "huff_symbols s (c # cs) =
     (let (e1, s1) = huff_trans s (unat (drop_bit 4 c));
          (e2, s2) = huff_trans s1 (unat (c AND 0xf));
          (es, t) = huff_symbols s2 cs in
      (filter (\<lambda>e. e \<noteq> -1) [e1, e2] @ es, t))"

lemma nbits_nibbles: "nbits 8 (c :: u8) = nbits 4 (unat (drop_bit 4 c)) @ nbits 4 (unat (c AND 0xf))"
proof -
  have m: "(0xf :: u8) = mask 4" by (simp add: mask_eq_exp_minus_1)
  have "nbits 4 (unat (c AND 0xf)) = nbits 4 c"
    unfolding m by (intro nbits_cong) (simp add: bit_unsigned_iff bit_and_iff bit_mask_iff)
  moreover have "nbits 4 (unat (drop_bit 4 c)) = nbits 4 (drop_bit 4 c)"
    by (intro nbits_cong) (simp add: bit_unsigned_iff)
  ultimately show ?thesis using nbits_add[of 4 4 c] by simp
qed

lemma huff_symbols_bits:
  "s < 256 \<Longrightarrow> huff_symbols s cs = (es, t) \<Longrightarrow>
     t < 256 \<and> set es \<subseteq> {0..256} \<and>
     state_bits s @ byte_bits cs = concat (map (\<lambda>e. code_bits (nat e)) es) @ state_bits t"
proof (induction cs arbitrary: s es t)
  case (Cons c cs)
  obtain e1 s1 where 1: "huff_trans s (unat (drop_bit 4 c)) = (e1, s1)" by fastforce
  obtain e2 s2 where 2: "huff_trans s1 (unat (c AND 0xf)) = (e2, s2)" by fastforce
  obtain es1 t1 where r: "huff_symbols s2 cs = (es1, t1)" by fastforce
  note b1 = huff_trans_bits[OF Cons.prems(1) nibble_less(1) 1]
  note b2 = huff_trans_bits[OF b1(1) nibble_less(2) 2]
  from Cons.IH[OF b2(1) r] have IH: "t1 < 256" "set es1 \<subseteq> {0..256}"
    "state_bits s2 @ byte_bits cs = concat (map (\<lambda>e. code_bits (nat e)) es1) @ state_bits t1" by auto
  have es: "es = filter (\<lambda>e. e \<noteq> -1) [e1, e2] @ es1" "t = t1" using Cons.prems(2) 1 2 r by (auto simp: Let_def)
  have step1: "state_bits s @ nbits 4 (unat (drop_bit 4 c)) @ xs =
      concat (map (\<lambda>e. code_bits (nat e)) (filter (\<lambda>e. e \<noteq> -1) [e1])) @ state_bits s1 @ xs" for xs
    using b1(4,5) by (cases "e1 = -1") (simp_all flip: append_assoc)
  have step2: "state_bits s1 @ nbits 4 (unat (c AND 0xf)) @ xs =
      concat (map (\<lambda>e. code_bits (nat e)) (filter (\<lambda>e. e \<noteq> -1) [e2])) @ state_bits s2 @ xs" for xs
    using b2(4,5) by (cases "e2 = -1") (simp_all flip: append_assoc)
  have "state_bits s @ byte_bits (c # cs) = concat (map (\<lambda>e. code_bits (nat e)) es) @ state_bits t"
    using IH(3) step1[of "nbits 4 (unat (c AND 0xf)) @ byte_bits cs"] step2[of "byte_bits cs"]
    by (auto simp: nbits_nibbles es)
  then show ?case using IH(1,2) b1(2,3) b2(2,3) by (auto simp: es)
qed auto

text \<open>Decoding what the codes say.\<close>

lemma huff_symbols_decode:
  assumes "byte_bits cs = huffman_code xs @ replicate k True" "k < 8"
  shows "\<exists>t < 256. huff_symbols 0 cs = (map (\<lambda>c. int (unat c)) xs, t)"
proof -
  obtain es t where r: "huff_symbols 0 cs = (es, t)" by fastforce
  from huff_symbols_bits[OF _ r] have b: "t < 256" "set es \<subseteq> {0..256}"
    "byte_bits cs = concat (map (\<lambda>e. code_bits (nat e)) es) @ state_bits t" by (auto simp: state_bits_0)
  have "map unat xs = map nat es"
  proof (rule unique_decoding[OF assms(2) b(1)])
    have "unat (c :: u8) < 257" for c using unat_u8_less[of c] by linarith
    then show "set (map unat xs) \<subseteq> {..<257}" by auto
    show "set (map nat es) \<subseteq> {..<257}" using b(2) by (fastforce simp: nat_less_iff)
    show "concat (map code_bits (map unat xs)) @ replicate k True = concat (map code_bits (map nat es)) @ state_bits t"
      using b(3) assms(1) by (simp add: huffman_code_bits comp_def)
  qed
  then have "map int (map unat xs) = map int (map nat es)" by (simp only:)
  also have "map int (map nat es) = es" using b(2) by (simp, intro map_idI, auto)
  finally show ?thesis using r b(1) by (simp add: comp_def)
qed

section \<open>The parser's strings\<close>

lemma string_agree_sym: "string_agree x y \<Longrightarrow> string_agree y x"
  by (cases x; cases y) (auto simp: string_agree_def split: prod.splits)

lemma string_agree_trans: "string_agree x y \<Longrightarrow> string_agree y z \<Longrightarrow> string_agree x z"
  by (cases x) (auto simp: string_agree_def split: prod.splits)

lemma string_agree_seq:
  assumes "string_agree x y" "\<And>q. x = Inr (True, q) \<Longrightarrow> string_agree (f q) (g q)"
  shows "string_agree (hpack_seq x f) (hpack_seq y g)"
proof (cases x)
  case (Inl e)
  with assms(1) show ?thesis by simp
next
  case (Inr a)
  obtain ok q where "a = (ok, q)" by (cases a)
  with Inr assms show ?thesis by (cases ok) auto
qed

lemma append_string_Nil:
  assumes "hpack_reading p"
  shows "append_string p [] = Inr (True, p)"
proof -
  have "append_bytes s [] = Inr s" if "hpack_string_ok s" for s
    using that by (simp add: append_bytes_def hpack_string_ok_def Let_def)
  with assms show ?thesis
    by (auto simp: append_string_def append_to_parsing_def hpack_reading_def hpack_base_def split: binary_state.splits)
qed

definition emitted :: "int \<Rightarrow> bytes" where
  "emitted e = (if e = -1 then [] else [of_int e])"

lemma huff_nibble_trans:
  assumes "hpack_reading p" "unat n < 16" "huff_trans (huff_state p) (unat n) = (e, t)" "e \<noteq> 256"
  shows "huff_nibble p n = hpack_seq (append_string p (emitted e)) (\<lambda>q. Inr (True, q\<lparr>huff_state := t\<rparr>))"
proof -
  have s: "huff_state p < 256" using assms(1) by (simp add: hpack_reading_def hpack_base_def)
  note lk = huffman_lookup[OF s assms(2)]
  from assms(3) have e: "emit_sub_tbl ! (16 * emit_tbl ! huff_state p + unat n) = e"
    and t: "next_sub_tbl ! (16 * next_tbl ! huff_state p + unat n) = t" by (simp_all add: huff_trans_def)
  have "-1 \<le> e" "e < 256" using lk(6,7) assms(4) by (simp_all add: e)
  then show ?thesis
    using lk(1-5) s e t append_string_Nil[OF assms(1)]
    by (auto simp: huff_nibble_def huffman_table_lengths emitted_def hpack_seq_def)
qed

lemma hpack_reading_huff_state: "hpack_reading p \<Longrightarrow> t < 256 \<Longrightarrow> hpack_reading (p\<lparr>huff_state := t\<rparr>)"
  by (simp add: hpack_reading_def hpack_base_def)

lemma append_string_reading: "hpack_reading p \<Longrightarrow> append_string p bs = Inr (ok, q) \<Longrightarrow> hpack_reading q"
  using append_string_ok[of p bs] by (simp add: hpack_op_ok_def)

lemma append_string_huff_state:
  "string_agree (hpack_seq (append_string (q\<lparr>huff_state := h\<rparr>) bs) f)
     (hpack_seq (append_string q bs) (\<lambda>r. f (r\<lparr>huff_state := h\<rparr>)))"
proof (cases "append_string q bs")
  case (Inr a)
  then show ?thesis by (cases a; cases "fst a") (auto simp: huff.append_string)
qed (simp add: huff.append_string)

lemma add_huff_bytes_Cons:
  "add_huff_bytes p (c # cs) = hpack_seq (huff_nibble p (drop_bit 4 c))
     (\<lambda>p1. hpack_seq (huff_nibble p1 (c AND 0xf)) (\<lambda>p2. add_huff_bytes p2 cs))"
proof (cases "huff_nibble p (drop_bit 4 c)")
  case (Inr a)
  obtain ok q where a: "a = (ok, q)" by (cases a)
  show ?thesis
  proof (cases "huff_nibble q (c AND 0xf)")
    case (Inr b)
    then show ?thesis using \<open>huff_nibble p (drop_bit 4 c) = Inr a\<close> a by (cases b; cases ok; cases "fst b") auto
  qed (use \<open>huff_nibble p (drop_bit 4 c) = Inr a\<close> a in \<open>cases ok; simp\<close>)
qed simp

lemma symbols_first:
  assumes "map (\<lambda>c :: u8. int (unat c)) xs = filter (\<lambda>e. e \<noteq> -1) [e1] @ es"
  obtains zs where "xs = emitted e1 @ zs" "map (\<lambda>c. int (unat c)) zs = es" "e1 \<noteq> 256"
proof (cases "e1 = -1")
  case True
  with assms show thesis by (intro that[of xs]) (simp_all add: emitted_def)
next
  case False
  with assms obtain x zs where x: "xs = x # zs" "e1 = uint x" "map (\<lambda>c. int (unat c)) zs = es"
    by (auto simp: map_eq_Cons_conv)
  have "uint x < 256" using unat_u8_less[of x] by (simp add: uint_nat del: of_nat_unat)
  with x False show thesis by (intro that[of zs]) (auto simp: emitted_def)
qed

lemma symbols_split:
  assumes "map (\<lambda>c :: u8. int (unat c)) xs = filter (\<lambda>e. e \<noteq> -1) [e1, e2] @ es"
  obtains zs where "xs = emitted e1 @ emitted e2 @ zs" "map (\<lambda>c. int (unat c)) zs = es" "e1 \<noteq> 256" "e2 \<noteq> 256"
proof -
  from assms have "map (\<lambda>c :: u8. int (unat c)) xs = filter (\<lambda>e. e \<noteq> -1) [e1] @ filter (\<lambda>e. e \<noteq> -1) [e2] @ es"
    by simp
  then obtain ys where y: "xs = emitted e1 @ ys" "map (\<lambda>c. int (unat c)) ys = filter (\<lambda>e. e \<noteq> -1) [e2] @ es"
    "e1 \<noteq> 256" by (rule symbols_first)
  from y(2) obtain zs where "ys = emitted e2 @ zs" "map (\<lambda>c. int (unat c)) zs = es" "e2 \<noteq> 256"
    by (rule symbols_first)
  with y show thesis by (intro that[of zs]) simp_all
qed

text \<open>Huffman decoding appends the emitted bytes.\<close>

lemma add_huff_bytes_symbols:
  "hpack_reading p \<Longrightarrow> huff_symbols (huff_state p) cs = (map (\<lambda>c. int (unat c)) xs, t) \<Longrightarrow>
     string_agree (add_huff_bytes p cs) (hpack_seq (append_string p xs) (\<lambda>q. Inr (True, q\<lparr>huff_state := t\<rparr>)))"
proof (induction cs arbitrary: p xs t)
  case Nil
  then show ?case using append_string_Nil[OF Nil(1)] by simp
next
  case (Cons c cs)
  obtain e1 s1 where 1: "huff_trans (huff_state p) (unat (drop_bit 4 c)) = (e1, s1)" by fastforce
  obtain e2 s2 where 2: "huff_trans s1 (unat (c AND 0xf)) = (e2, s2)" by fastforce
  obtain es t1 where r: "huff_symbols s2 cs = (es, t1)" by fastforce
  have s: "huff_state p < 256" using Cons.prems(1) by (simp add: hpack_reading_def hpack_base_def)
  note b1 = huff_trans_bits[OF s nibble_less(1) 1]
  note b2 = huff_trans_bits[OF b1(1) nibble_less(2) 2]
  have map: "map (\<lambda>c. int (unat c)) xs = filter (\<lambda>e. e \<noteq> -1) [e1, e2] @ es" "t = t1"
    using Cons.prems(2) 1 2 r by (auto simp: Let_def)
  obtain zs where xs: "xs = emitted e1 @ emitted e2 @ zs" "map (\<lambda>c. int (unat c)) zs = es"
    and e: "e1 \<noteq> 256" "e2 \<noteq> 256" by (rule symbols_split[OF map(1)])
  let ?F = "\<lambda>q. Inr (True, q\<lparr>huff_state := t\<rparr>) :: hpack_fault + bool \<times> 'a grpc_chttp2_hpack_parser"
  have rest: "string_agree (add_huff_bytes (q\<lparr>huff_state := s2\<rparr>) cs) (hpack_seq (append_string q zs) ?F)"
    if "hpack_reading q" for q :: "'a grpc_chttp2_hpack_parser"
  proof -
    have "string_agree (add_huff_bytes (q\<lparr>huff_state := s2\<rparr>) cs)
        (hpack_seq (append_string (q\<lparr>huff_state := s2\<rparr>) zs) ?F)"
      using Cons.IH[of "q\<lparr>huff_state := s2\<rparr>" zs t] r map(2) xs(2) hpack_reading_huff_state[OF that b2(1)] by simp
    moreover have "string_agree (hpack_seq (append_string (q\<lparr>huff_state := s2\<rparr>) zs) ?F) (hpack_seq (append_string q zs) ?F)"
      using append_string_huff_state[where q = q and h = s2 and bs = zs and f = ?F] by simp
    ultimately show ?thesis by (rule string_agree_trans)
  qed
  have second: "string_agree (hpack_seq (huff_nibble (q\<lparr>huff_state := s1\<rparr>) (c AND 0xf)) (\<lambda>p2. add_huff_bytes p2 cs))
      (hpack_seq (append_string q (emitted e2 @ zs)) ?F)"
    if q: "hpack_reading q" for q :: "'a grpc_chttp2_hpack_parser"
  proof -
    let ?G = "\<lambda>q. add_huff_bytes (q\<lparr>huff_state := s2\<rparr>) cs"
    have "hpack_seq (huff_nibble (q\<lparr>huff_state := s1\<rparr>) (c AND 0xf)) (\<lambda>p2. add_huff_bytes p2 cs) =
        hpack_seq (append_string (q\<lparr>huff_state := s1\<rparr>) (emitted e2)) ?G"
      using huff_nibble_trans[OF hpack_reading_huff_state[OF q b1(1)] nibble_less(2), of c e2 s2] 2 e(2)
      by (simp add: hpack_seq_assoc)
    moreover have "string_agree (hpack_seq (append_string (q\<lparr>huff_state := s1\<rparr>) (emitted e2)) ?G)
        (hpack_seq (append_string q (emitted e2)) ?G)"
      using append_string_huff_state[where q = q and h = s1 and bs = "emitted e2" and f = ?G] by simp
    moreover have "string_agree (hpack_seq (append_string q (emitted e2)) ?G)
        (hpack_seq (append_string q (emitted e2)) (\<lambda>q. hpack_seq (append_string q zs) ?F))"
      by (rule string_agree_seq[OF string_agree_refl]) (rule rest, rule append_string_reading[OF q])
    moreover have "string_agree (hpack_seq (append_string q (emitted e2)) (\<lambda>q. hpack_seq (append_string q zs) ?F))
        (hpack_seq (append_string q (emitted e2 @ zs)) ?F)"
      unfolding hpack_seq_assoc[symmetric]
      by (rule string_agree_seq[OF string_agree_sym[OF append_string_append[OF q]]]) simp
    ultimately show ?thesis by (auto elim!: string_agree_trans)
  qed
  have "add_huff_bytes p (c # cs) = hpack_seq (append_string p (emitted e1))
      (\<lambda>q. hpack_seq (huff_nibble (q\<lparr>huff_state := s1\<rparr>) (c AND 0xf)) (\<lambda>p2. add_huff_bytes p2 cs))"
    unfolding add_huff_bytes_Cons
    using huff_nibble_trans[OF Cons.prems(1) nibble_less(1) 1 e(1)] by (simp add: hpack_seq_assoc)
  note all = this
  have "string_agree (add_huff_bytes p (c # cs))
      (hpack_seq (append_string p (emitted e1)) (\<lambda>q. hpack_seq (append_string q (emitted e2 @ zs)) ?F))"
    unfolding all
    by (rule string_agree_seq[OF string_agree_refl]) (rule second, rule append_string_reading[OF Cons.prems(1)])
  moreover have "string_agree (hpack_seq (append_string p (emitted e1)) (\<lambda>q. hpack_seq (append_string q (emitted e2 @ zs)) ?F))
      (hpack_seq (append_string p xs) ?F)"
    unfolding hpack_seq_assoc[symmetric] xs(1)
    by (rule string_agree_seq[OF string_agree_sym[OF append_string_append[OF Cons.prems(1)]]]) simp
  ultimately show ?case by (rule string_agree_trans)
qed

end
