(* ===== verification/String_Roundtrip.thy ===== *)
theory String_Roundtrip
  imports Huffman_Roundtrip
begin

text \<open>
  The round trips of header strings: what the encoders of
  \<^verbatim>\<open>bin_encoder.c\<close> write is read back by the string functions of the parser.
\<close>

section \<open>The string being read\<close>

definition parsed :: "'u grpc_chttp2_hpack_parser \<Rightarrow> grpc_chttp2_hpack_parser_string" where
  "parsed p = (if parsing p = Parsing_key then key p else value p)"

definition set_parsed ::
    "grpc_chttp2_hpack_parser_string \<Rightarrow> 'u grpc_chttp2_hpack_parser \<Rightarrow> 'u grpc_chttp2_hpack_parser" where
  "set_parsed s p = (if parsing p = Parsing_key then p\<lparr>key := s\<rparr> else p\<lparr>value := s\<rparr>)"

lemma set_parsed_simps [simp]:
  "parsed (set_parsed s p) = s"
  "set_parsed t (set_parsed s p) = set_parsed t p"
  "parsing (set_parsed s p) = parsing p"
  "binary (set_parsed s p) = binary p"
  "base64_buffer (set_parsed s p) = base64_buffer p"
  by (simp_all add: parsed_def set_parsed_def)

lemma parsed_update [simp]:
  "parsed (p\<lparr>base64_buffer := b\<rparr>) = parsed p"
  "parsed (p\<lparr>binary := st\<rparr>) = parsed p"
  "parsed (p\<lparr>huff_state := h\<rparr>) = parsed p"
  "set_parsed s (p\<lparr>base64_buffer := b\<rparr>) = (set_parsed s p)\<lparr>base64_buffer := b\<rparr>"
  "set_parsed s (p\<lparr>binary := st\<rparr>) = (set_parsed s p)\<lparr>binary := st\<rparr>"
  by (simp_all add: parsed_def set_parsed_def)

lemma hpack_reading_parsed:
  "hpack_reading p \<Longrightarrow> hpack_string_ok (parsed p)"
  by (auto simp: hpack_reading_def hpack_base_def parsed_def)

lemma hpack_reading_set_parsed [simp]:
  "hpack_reading p \<Longrightarrow> hpack_string_ok s \<Longrightarrow> hpack_reading (set_parsed s p)"
  by (auto simp: hpack_reading_def hpack_base_def set_parsed_def)

text \<open>\<open>string_holds s xs\<close>: the buffer is well formed and its bytes are \<open>xs\<close>.\<close>

definition string_holds :: "grpc_chttp2_hpack_parser_string \<Rightarrow> bytes \<Rightarrow> bool" where
  "string_holds s xs \<longleftrightarrow> hpack_string_ok s \<and> take_string s = xs"

lemma string_holds_length: "string_holds s xs \<Longrightarrow> length xs = unat (string_length s)"
  by (auto simp: string_holds_def hpack_string_ok_def take_string_def)

lemma append_to_parsing_holds:
  assumes "hpack_reading p" "string_holds (parsed p) xs" "length xs + length ys < 4294967296"
  obtains s where "append_to_parsing p ys = Inr (set_parsed s p)" "string_holds s (xs @ ys)"
    "hpack_reading (set_parsed s p)"
proof -
  have ok: "hpack_string_ok (parsed p)" and room: "length ys + unat (string_length (parsed p)) < 4294967296"
    using assms(2,3) string_holds_length[OF assms(2)] by (simp_all add: string_holds_def)
  obtain s where s: "append_bytes (parsed p) ys = Inr s" by (rule append_bytes_fits[OF ok room])
  have "string_holds s (xs @ ys)" using append_bytes_ok[OF ok s] assms(2) by (simp add: string_holds_def)
  moreover have "append_to_parsing p ys = Inr (set_parsed s p)"
    using s assms(1) by (auto simp: append_to_parsing_def parsed_def set_parsed_def hpack_reading_def)
  ultimately show thesis using assms(1) that by (simp add: string_holds_def)
qed

lemma terminate_parsing_holds:
  assumes "hpack_reading p" "string_holds (parsed p) xs" "length xs + 1 < 4294967296"
  obtains s where "terminate_parsing p = Inr (True, set_parsed s p)" "string_holds s xs"
proof -
  have "length xs + length [0 :: u8] < 4294967296" using assms(3) by simp
  from append_to_parsing_holds[OF assms(1,2) this]
  obtain t where t: "append_to_parsing p [0] = Inr (set_parsed t p)" "string_holds t (xs @ [0])" by blast
  define s where "s = t\<lparr>string_length := string_length t - 1\<rparr>"
  have l: "unat (string_length t) = Suc (length xs)" using string_holds_length[OF t(2)] by simp
  then have "string_length t \<noteq> 0" by auto
  then have l1: "unat (string_length s) = length xs" using l by (simp add: s_def unat_minus_one)
  have "string_holds s xs"
    using t(2) l l1 by (auto simp: string_holds_def hpack_string_ok_def take_string_def s_def take_Suc_conv_app_nth)
  moreover have "terminate_parsing p = Inr (True, set_parsed s p)"
    by (auto simp: terminate_parsing_def t(1) set_parsed_def s_def)
  ultimately show thesis by (rule that[rotated])
qed

section \<open>Base64\<close>

lemma inverse_base64_alphabet:
  assumes "unat g < 64"
  shows "inverse_base64 ! unat (alphabet ! unat g) = g"
proof -
  have "list_all (\<lambda>i. inverse_base64 ! unat (alphabet ! i) = of_nat i) [0..<64]"
    by (simp add: upt_rec inverse_base64_def alphabet_def bytes_of_string_def)
  with assms have "inverse_base64 ! unat (alphabet ! unat g) = of_nat (unat g)"
    unfolding list_all_iff by auto
  then show ?thesis by simp
qed

text \<open>One character of the alphabet, and the bytes that the groups of a triplet make.\<close>

lemma append_base64_char:
  fixes g :: u8
  assumes "unat g < 64"
  shows "append_base64 st p (alphabet ! unat g # cur) =
    hpack_try (base64_symbol st p (ucast g)) (\<lambda>(st1, p1). append_base64 st1 p1 cur)"
proof -
  have "unat (ucast g :: u32) = unat g"
    using unat_u8_less[of g] by (simp add: unsigned_ucast_eq take_bit_nat_eq_self_iff)
  then have "(ucast g :: u32) \<noteq> 255" "(ucast g :: u32) \<noteq> 64" using assms by (auto dest: arg_cong[where f = unat])
  then show ?thesis by (simp add: inverse_base64_alphabet[OF assms] Let_def)
qed

definition b64_word :: "u8 \<Rightarrow> u8 \<Rightarrow> u8 \<Rightarrow> u8 \<Rightarrow> u32" where
  "b64_word g0 g1 g2 g3 =
     push_bit 18 (ucast g0) OR push_bit 12 (ucast g1) OR push_bit 6 (ucast g2) OR ucast g3"

lemmas b64_group_defs = b64_first_def b64_second_def b64_third_def b64_fourth_def b64_end1_def b64_end2_def

lemma b64_mask: "(0x3 :: u8) = mask 2" "(0xf :: u8) = mask 4" "(0x3f :: u8) = mask 6"
  by (simp_all add: mask_eq_exp_minus_1)

lemma bit_u8_ge: "8 \<le> i \<Longrightarrow> \<not> bit (c :: u8) i"
  using bit_imp_le_length[of c i] by auto

lemma eq_u8I: "(\<And>i. i < 8 \<Longrightarrow> bit (x :: u8) i = bit y i) \<Longrightarrow> x = y"
  by (rule bit_word_eqI) simp

lemma less_8_cases: "(i :: nat) < 8 \<Longrightarrow> i = 0 \<or> i = 1 \<or> i = 2 \<or> i = 3 \<or> i = 4 \<or> i = 5 \<or> i = 6 \<or> i = 7"
  by auto

lemma b64_word_triplet:
  fixes a b c :: u8
  defines "w \<equiv> b64_word (b64_first a) (b64_second a b) (b64_third b c) (b64_fourth c)"
  shows "ucast (drop_bit 16 w) = a" "ucast (drop_bit 8 w) = b" "ucast w = c"
  unfolding w_def b64_word_def b64_group_defs b64_mask
  by (rule eq_u8I, drule less_8_cases, elim disjE, simp_all add: bit_simps bit_u8_ge)+

lemma b64_word_end1:
  fixes a :: u8
  defines "w \<equiv> b64_word (b64_first a) (b64_end1 a) 0 0"
  shows "ucast (drop_bit 16 w) = a" "w AND 0xffff = 0"
proof -
  show "ucast (drop_bit 16 w) = a"
    unfolding w_def b64_word_def b64_group_defs b64_mask
    by (rule eq_u8I, drule less_8_cases, elim disjE, simp_all add: bit_simps bit_u8_ge)
  have m: "(0xffff :: u32) = mask 16" by (simp add: mask_eq_exp_minus_1)
  have "\<not> bit w i" if "i < 16" for i
    using that unfolding w_def b64_word_def b64_group_defs b64_mask by (auto simp: bit_simps bit_u8_ge)
  then show "w AND 0xffff = 0" unfolding m by (intro bit_word_eqI) (auto simp: bit_and_iff bit_mask_iff)
qed

lemma b64_word_end2:
  fixes a b :: u8
  defines "w \<equiv> b64_word (b64_first a) (b64_second a b) (b64_end2 b) 0"
  shows "ucast (drop_bit 16 w) = a" "ucast (drop_bit 8 w) = b" "w AND 0xff = 0"
proof -
  show "ucast (drop_bit 16 w) = a" "ucast (drop_bit 8 w) = b"
    unfolding w_def b64_word_def b64_group_defs b64_mask
    by (rule eq_u8I, drule less_8_cases, elim disjE, simp_all add: bit_simps bit_u8_ge)+
  have m: "(0xff :: u32) = mask 8" by (simp add: mask_eq_exp_minus_1)
  have "\<not> bit w i" if "i < 8" for i
    using that unfolding w_def b64_word_def b64_group_defs b64_mask by (auto simp: bit_simps bit_u8_ge)
  then show "w AND 0xff = 0" unfolding m by (intro bit_word_eqI) (auto simp: bit_and_iff bit_mask_iff)
qed

text \<open>The state after reading \<open>xs\<close>: the string, and what base64 left behind.\<close>

definition string_read ::
    "'u grpc_chttp2_hpack_parser \<Rightarrow> bytes \<Rightarrow> hpack_fault + bool \<times> 'u grpc_chttp2_hpack_parser \<Rightarrow> bool" where
  "string_read p xs r \<longleftrightarrow>
     (\<exists>s b st. string_holds s xs \<and> r = Inr (True, (set_parsed s p)\<lparr>base64_buffer := b, binary := st\<rparr>))"

lemma string_read_set:
  "string_read ((set_parsed s p)\<lparr>base64_buffer := b\<rparr>) xs r \<Longrightarrow> string_read p xs r"
  by (auto simp: string_read_def)

lemma string_readI:
  "string_holds s xs \<Longrightarrow> r = Inr (True, set_parsed s p) \<Longrightarrow> string_read p xs r"
  unfolding string_read_def
  by (intro exI[of _ s] exI[of _ "base64_buffer p"] exI[of _ "binary p"]) (simp add: set_parsed_def)

lemma append_base64_read:
  "hpack_reading p \<Longrightarrow> string_holds (parsed p) zs \<Longrightarrow> length zs + length xs + 1 < 4294967296 \<Longrightarrow>
     string_read p (zs @ xs) (hpack_seq (append_base64 B64_BYTE0 p (base64_spec xs)) finish_str)"
proof (induction xs arbitrary: p zs rule: b64_groups.induct)
  case 1
  from 1(3) have "length zs + 1 < 4294967296" by simp
  from terminate_parsing_holds[OF _ _ this, of "p\<lparr>binary := B64_BYTE0\<rparr>"] 1(1,2)
  obtain s where s: "terminate_parsing (p\<lparr>binary := B64_BYTE0\<rparr>) = Inr (True, set_parsed s (p\<lparr>binary := B64_BYTE0\<rparr>))"
    "string_holds s zs" by auto
  have "set_parsed s (p\<lparr>binary := B64_BYTE0\<rparr>) = (set_parsed s p)\<lparr>base64_buffer := base64_buffer p, binary := B64_BYTE0\<rparr>"
    by (simp add: set_parsed_def)
  with s show ?case by (auto simp: base64_spec_def finish_str_def string_read_def simp del: set_parsed_simps)
next
  case (2 a)
  let ?p = "p\<lparr>base64_buffer := b64_word (b64_first a) (b64_end1 a) 0 0, binary := B64_BYTE2\<rparr>"
  from 2(3) have room: "length zs + length [a] < 4294967296" "length (zs @ [a]) + 1 < 4294967296" by simp_all
  obtain t where t: "append_to_parsing ?p [a] = Inr (set_parsed t ?p)" "string_holds t (zs @ [a])"
    "hpack_reading (set_parsed t ?p)"
    using append_to_parsing_holds[OF _ _ room(1), of ?p] 2(1,2) by auto
  obtain s where s: "terminate_parsing (set_parsed t ?p) = Inr (True, set_parsed s (set_parsed t ?p))"
    "string_holds s (zs @ [a])"
    using terminate_parsing_holds[OF t(3) _ room(2)] t(2) by auto
  have "append_base64 B64_BYTE0 p (base64_spec [a]) = Inr (True, ?p)"
    by (simp add: base64_spec_def append_base64_char b64_group_less b64_word_def del: append_base64.simps(2))
  then show ?case
    using t s by (auto simp: finish_str_def b64_word_end1 string_read_def)
next
  case (3 a b)
  let ?p = "p\<lparr>base64_buffer := b64_word (b64_first a) (b64_second a b) (b64_end2 b) 0, binary := B64_BYTE3\<rparr>"
  from 3(3) have room: "length zs + length [a, b] < 4294967296" "length (zs @ [a, b]) + 1 < 4294967296" by simp_all
  obtain t where t: "append_to_parsing ?p [a, b] = Inr (set_parsed t ?p)" "string_holds t (zs @ [a, b])"
    "hpack_reading (set_parsed t ?p)"
    using append_to_parsing_holds[OF _ _ room(1), of ?p] 3(1,2) by auto
  obtain s where s: "terminate_parsing (set_parsed t ?p) = Inr (True, set_parsed s (set_parsed t ?p))"
    "string_holds s (zs @ [a, b])"
    using terminate_parsing_holds[OF t(3) _ room(2)] t(2) by auto
  have "append_base64 B64_BYTE0 p (base64_spec [a, b]) = Inr (True, ?p)"
    by (simp add: base64_spec_def append_base64_char b64_group_less b64_word_def or.assoc del: append_base64.simps(2))
  then show ?case
    using t s by (auto simp: finish_str_def b64_word_end2 string_read_def)
next
  case (4 a b c cs)
  let ?p = "p\<lparr>base64_buffer := b64_word (b64_first a) (b64_second a b) (b64_third b c) (b64_fourth c)\<rparr>"
  have room: "length zs + length [a, b, c] < 4294967296" "length (zs @ [a, b, c]) + length cs + 1 < 4294967296"
    using 4(4) by simp_all
  obtain t where t: "append_to_parsing ?p [a, b, c] = Inr (set_parsed t ?p)" "string_holds t (zs @ [a, b, c])"
    "hpack_reading (set_parsed t ?p)"
    using append_to_parsing_holds[OF _ _ room(1), of ?p] 4(2,3) by auto
  have "append_base64 B64_BYTE0 p (base64_spec (a # b # c # cs)) = append_base64 B64_BYTE0 (set_parsed t ?p) (base64_spec cs)"
    using t(1) by (simp add: base64_spec_def append_base64_char b64_group_less Let_def b64_word_triplet
        b64_word_def[symmetric] or.assoc del: append_base64.simps(2) drop_bit_or)
  with 4(1)[OF t(3) _ room(2)] t(2) show ?case
    by (auto dest!: string_read_set simp: set_parsed_simps(1))
qed

section \<open>Strings as they are sent\<close>

lemma append_string_read:
  assumes "hpack_reading p" "string_holds (parsed p) []" "length xs + 1 < 4294967296"
  shows "binary p = NOT_BINARY \<Longrightarrow> string_read p xs (hpack_seq (append_string p xs) finish_str)"
    "binary p = B64_BYTE0 \<Longrightarrow> string_read p xs (hpack_seq (append_string p (base64_spec xs)) finish_str)"
proof -
  have "length ([] :: bytes) + length xs < 4294967296" using assms(3) by simp
  from append_to_parsing_holds[OF assms(1,2) this] obtain t where
    t: "append_to_parsing p xs = Inr (set_parsed t p)" "string_holds t xs" "hpack_reading (set_parsed t p)" by auto
  obtain s where s: "terminate_parsing (set_parsed t p) = Inr (True, set_parsed s (set_parsed t p))" "string_holds s xs"
    using terminate_parsing_holds[OF t(3) _ assms(3)] t(2) by auto
  then show "string_read p xs (hpack_seq (append_string p xs) finish_str)" if "binary p = NOT_BINARY"
    using that t(1) by (intro string_readI[OF s(2)]) (simp add: append_string_def finish_str_def)
  show "string_read p xs (hpack_seq (append_string p (base64_spec xs)) finish_str)" if "binary p = B64_BYTE0"
    using append_base64_read[OF assms(1,2)] assms(3) that by (simp add: append_string_def)
qed

text \<open>With the Huffman flag, the parser reads the string that was compressed.\<close>

lemma add_huff_bytes_read:
  assumes "hpack_reading p" "huff_state p = 0" "byte_bits ws = huffman_code cs @ replicate k True" "k < 8"
    "hpack_seq (append_string p cs) finish_str = Inr (True, q)"
  shows "\<exists>t < 256. hpack_seq (add_huff_bytes p ws) finish_str = Inr (True, q\<lparr>huff_state := t\<rparr>)"
proof -
  from huff_symbols_decode[OF assms(3,4)] obtain t where
    t: "t < 256" "huff_symbols (huff_state p) ws = (map (\<lambda>c. int (unat c)) cs, t)" by (auto simp: assms(2))
  from assms(5) obtain r where r: "append_string p cs = Inr (True, r)" "finish_str r = Inr (True, q)"
    by (auto simp: hpack_seq_def hpack_try_def split: sum.splits prod.splits if_splits)
  from add_huff_bytes_symbols[OF assms(1) t(2)] have "add_huff_bytes p ws = Inr (True, r\<lparr>huff_state := t\<rparr>)"
    by (auto simp: r(1) string_agree_def split: sum.splits prod.splits)
  then show ?thesis using t(1) r(2) huff.finish_str[of t r] by auto
qed

text \<open>How a string is sent: as it is or in base64, then with or without compression.\<close>

definition string_sent :: "bool \<Rightarrow> bool \<Rightarrow> bytes \<Rightarrow> bytes \<Rightarrow> bool" where
  "string_sent compressed base64 xs ws \<longleftrightarrow>
     (let cs = (if base64 then base64_spec xs else xs) in
      if compressed then \<exists>k < 8. byte_bits ws = huffman_code cs @ replicate k True else ws = cs)"

lemma add_str_bytes_read:
  assumes "hpack_reading p" "string_holds (parsed p) []" "length xs + 1 < 4294967296" "huff_state p = 0"
    "binary p = (if base64 then B64_BYTE0 else NOT_BINARY)" "string_sent (huff p \<noteq> 0) base64 xs ws"
  shows "\<exists>s b st t. string_holds s xs \<and> t < 256 \<and> hpack_seq (add_str_bytes p ws) finish_str =
    Inr (True, (set_parsed s p)\<lparr>base64_buffer := b, binary := st, huff_state := t\<rparr>)"
proof -
  define cs where "cs = (if base64 then base64_spec xs else xs)"
  from append_string_read[OF assms(1-3)] assms(5) have "string_read p xs (hpack_seq (append_string p cs) finish_str)"
    by (auto simp: cs_def split: if_splits)
  then obtain s b st where s: "string_holds s xs"
    "hpack_seq (append_string p cs) finish_str = Inr (True, (set_parsed s p)\<lparr>base64_buffer := b, binary := st\<rparr>)"
    by (auto simp: string_read_def)
  show ?thesis
  proof (cases "huff p = 0")
    case True
    have "(set_parsed s p)\<lparr>base64_buffer := b, binary := st\<rparr> =
        (set_parsed s p)\<lparr>base64_buffer := b, binary := st, huff_state := 0\<rparr>"
      using assms(4) by (simp add: set_parsed_def)
    with s assms(6) True show ?thesis
      by (intro exI[of _ s] exI[of _ b] exI[of _ st] exI[of _ 0]) (simp add: add_str_bytes_def string_sent_def cs_def)
  next
    case False
    with assms(6) obtain k where "k < 8" "byte_bits ws = huffman_code cs @ replicate k True"
      by (auto simp: string_sent_def cs_def)
    from add_huff_bytes_read[OF assms(1,4) this(2,1) s(2)] s(1) False show ?thesis
      by (auto simp: add_str_bytes_def)
  qed
qed

lemma huffman_compress_sent:
  "\<forall>c \<in> set xs. unat (sym_length (huffman_sym c)) \<le> 24 \<Longrightarrow>
     \<exists>ws. grpc_chttp2_huffman_compress xs = Some ws \<and> string_sent True False xs ws"
  using huffman_compress_bits[of xs] by (auto simp: string_sent_def)

lemma one_pass_sent:
  "\<exists>ws. grpc_chttp2_base64_encode_and_huffman_compress xs = Some ws \<and> string_sent True True xs ws"
  using one_pass_bits[of xs] by (auto simp: string_sent_def huffman_code_def base64_spec_def group_sym_def comp_def)

text \<open>
  C14. A string that the encoder compressed is read back unchanged by the string
  functions of the parser, as long as no code in it is longer than 24 bits.
\<close>

theorem huffman_string_roundtrip:
  assumes "hpack_reading p" "string_holds (parsed p) []" "huff_state p = 0" "binary p = NOT_BINARY" "huff p \<noteq> 0"
    and "\<forall>c \<in> set xs. unat (sym_length (huffman_sym c)) \<le> 24" "length xs + 1 < 4294967296"
  shows "\<exists>ws q. grpc_chttp2_huffman_compress xs = Some ws \<and>
    hpack_seq (add_str_bytes p ws) finish_str = Inr (True, q) \<and> string_holds (parsed q) xs"
proof -
  from huffman_compress_sent[OF assms(6)] obtain ws where
    "grpc_chttp2_huffman_compress xs = Some ws" "string_sent True False xs ws" by blast
  with add_str_bytes_read[OF assms(1,2,7,3), of False ws] assms(4,5) show ?thesis
    by fastforce
qed

text \<open>
  C13. Any bytes that the encoder of binary headers writes (base64 and Huffman codes
  in one pass) are read back unchanged by the string functions of the parser.
\<close>

theorem binary_string_roundtrip:
  assumes "hpack_reading p" "string_holds (parsed p) []" "huff_state p = 0" "binary p = B64_BYTE0" "huff p \<noteq> 0"
    and "length xs + 1 < 4294967296"
  shows "\<exists>ws q. grpc_chttp2_base64_encode_and_huffman_compress xs = Some ws \<and>
    hpack_seq (add_str_bytes p ws) finish_str = Inr (True, q) \<and> string_holds (parsed q) xs"
proof -
  from one_pass_sent[of xs] obtain ws where
    "grpc_chttp2_base64_encode_and_huffman_compress xs = Some ws" "string_sent True True xs ws" by blast
  with add_str_bytes_read[OF assms(1,2,6,3), of True ws] assms(4,5) show ?thesis
    by fastforce
qed

text \<open>The parser that reads a string, from the example.\<close>

definition example_reading :: "binary_state \<Rightarrow> grpc_mdelem list grpc_chttp2_hpack_parser" where
  "example_reading b = example_hpack_parser\<lparr>parsing := Parsing_value, huff := 1, binary := b\<rparr>"

lemma example_reading_ok:
  "hpack_reading (example_reading b)" "string_holds (parsed (example_reading b)) []"
  "huff_state (example_reading b) = 0" "binary (example_reading b) = b" "huff (example_reading b) \<noteq> 0"
proof -
  have "hpack_base example_hpack_parser" using example_hpack_parser_ok by (simp add: hpack_parser_ok_def)
  then show "hpack_reading (example_reading b)" by (simp add: hpack_reading_def hpack_base_def example_reading_def)
qed (simp_all add: example_reading_def example_hpack_parser_def grpc_chttp2_hpack_parser_init_def parsed_def
    string_holds_def hpack_string_ok_def take_string_def)

theorem huffman_string_roundtrip_witness:
  "\<exists>ws q. grpc_chttp2_huffman_compress [0x61, 0x62, 0x63] = Some ws \<and>
    hpack_seq (add_str_bytes (example_reading NOT_BINARY) ws) finish_str = Inr (True, q) \<and>
    string_holds (parsed q) [0x61, 0x62, 0x63]"
  using printable_codes
  by (intro huffman_string_roundtrip example_reading_ok) (auto simp: word_le_nat_alt)

theorem binary_string_roundtrip_witness:
  "\<exists>ws q. grpc_chttp2_base64_encode_and_huffman_compress [0xff, 0, 0x80, 7] = Some ws \<and>
    hpack_seq (add_str_bytes (example_reading B64_BYTE0) ws) finish_str = Inr (True, q) \<and>
    string_holds (parsed q) [0xff, 0, 0x80, 7]"
  by (intro binary_string_roundtrip example_reading_ok) simp

end
