(* ===== verification/Varint.thy ===== *)
theory Varint
  imports String_Roundtrip
begin

text \<open>
  The variable-length integers of HPACK: the writer of
  \<^verbatim>\<open>src/core/transport/chttp2/varint.c\<close> and the macros of \<^verbatim>\<open>varint.h\<close>, and the
  round trip through the value functions of the parser.
\<close>

section \<open>Writing\<close>

definition grpc_chttp2_hpack_varint_length :: "u32 \<Rightarrow> nat" where
  "grpc_chttp2_hpack_varint_length tail_value =
     (if tail_value < push_bit 7 1 then 2
      else if tail_value < push_bit 14 1 then 3
      else if tail_value < push_bit 21 1 then 4
      else if tail_value < push_bit 28 1 then 5
      else 6)"

text \<open>The cases of the switch fall through, from the last byte to the first.\<close>

fun varint_tail_case :: "u32 \<Rightarrow> nat \<Rightarrow> bytes \<Rightarrow> bytes option" where
  "varint_tail_case tail_value 0 target = Some target"
| "varint_tail_case tail_value (Suc k) target =
     do {
       target \<leftarrow> c_write target k (ucast (drop_bit (7 * k) tail_value OR 0x80));
       varint_tail_case tail_value k target
     }"

definition grpc_chttp2_hpack_write_varint_tail :: "u32 \<Rightarrow> bytes \<Rightarrow> nat \<Rightarrow> bytes option" where
  "grpc_chttp2_hpack_write_varint_tail tail_value target tail_length =
     do {
       target \<leftarrow> (if tail_length \<le> 5 then varint_tail_case tail_value tail_length target else Some target);
       last \<leftarrow> c_read target (tail_length - 1);
       c_write target (tail_length - 1) (last AND 0x7f)
     }"

definition GRPC_CHTTP2_MAX_IN_PREFIX :: "nat \<Rightarrow> int" where
  "GRPC_CHTTP2_MAX_IN_PREFIX prefix_bits = 2 ^ (8 - prefix_bits) - 1"

text \<open>
  The macros are used at \<^verbatim>\<open>int\<close> and at \<^verbatim>\<open>gpr_uint32\<close>: \<open>n\<close> is the value of the
  argument, converted where the C expression converts it.
\<close>

definition GRPC_CHTTP2_VARINT_LENGTH :: "int \<Rightarrow> nat \<Rightarrow> nat" where
  "GRPC_CHTTP2_VARINT_LENGTH n prefix_bits =
     (if n < GRPC_CHTTP2_MAX_IN_PREFIX prefix_bits then 1
      else grpc_chttp2_hpack_varint_length (word_of_int (n - GRPC_CHTTP2_MAX_IN_PREFIX prefix_bits)))"

definition GRPC_CHTTP2_WRITE_VARINT :: "int \<Rightarrow> nat \<Rightarrow> u8 \<Rightarrow> bytes \<Rightarrow> nat \<Rightarrow> bytes option" where
  "GRPC_CHTTP2_WRITE_VARINT n prefix_bits prefix_or tgt len =
     (if len = 1 then c_write tgt 0 (prefix_or OR word_of_int n)
      else do {
        tgt \<leftarrow> c_write tgt 0 (prefix_or OR word_of_int (GRPC_CHTTP2_MAX_IN_PREFIX prefix_bits));
        tail \<leftarrow> grpc_chttp2_hpack_write_varint_tail
                 (word_of_int (n - GRPC_CHTTP2_MAX_IN_PREFIX prefix_bits)) (drop 1 tgt) (len - 1);
        Some (take 1 tgt @ tail)
      })"

section \<open>The bytes\<close>

text \<open>Groups of seven bits, the last without the continuation bit.\<close>

fun varint_groups :: "u32 \<Rightarrow> nat \<Rightarrow> nat \<Rightarrow> bytes" where
  "varint_groups v i 0 = []"
| "varint_groups v i (Suc 0) = [ucast (drop_bit (7 * i) v) AND 0x7f]"
| "varint_groups v i (Suc (Suc n)) = (ucast (drop_bit (7 * i) v) OR 0x80) # varint_groups v (Suc i) (Suc n)"

lemma length_varint_groups [simp]: "length (varint_groups v i n) = n"
  by (induction v i n rule: varint_groups.induct) auto

lemma varint_last: "(ucast (w :: u32) OR 0x80) AND (0x7f :: u8) = ucast w AND 0x7f"
proof -
  have "(0x80 :: u8) AND 0x7f = 0" by simp
  then show ?thesis by (simp add: bit.conj_disj_distrib2)
qed

definition varint_more :: "u32 \<Rightarrow> nat \<Rightarrow> u8" where
  "varint_more v i = ucast (drop_bit (7 * i) v) OR 0x80"

lemma varint_more_ucast: "ucast (drop_bit (7 * i) v OR 0x80 :: u32) = varint_more v i"
proof -
  have "ucast (0x80 :: u32) = (0x80 :: u8)" by simp
  then show ?thesis by (simp add: varint_more_def unsigned_or_eq)
qed

lemma varint_tail_case_map:
  "k \<le> length target \<Longrightarrow> varint_tail_case v k target = Some (map (varint_more v) [0..<k] @ drop k target)"
proof (induction k arbitrary: target)
  case (Suc k)
  then have "k < length target" by simp
  with Suc show ?case by (simp add: varint_more_ucast drop_update_swap Cons_nth_drop_Suc[symmetric])
qed simp

lemma varint_groups_map:
  "varint_groups v i (Suc n) = map (varint_more v) [i..<i + n] @ [ucast (drop_bit (7 * (i + n)) v) AND 0x7f]"
proof (induction n arbitrary: i)
  case (Suc n)
  have "[i..<i + Suc n] = i # [Suc i..<Suc i + n]" by (simp add: upt_conv_Cons del: upt_Suc)
  then show ?case unfolding varint_groups.simps Suc.IH by (simp add: varint_more_def algebra_simps)
qed simp

lemma write_varint_tail_groups:
  assumes "length target = Suc n" "n < 5"
  shows "grpc_chttp2_hpack_write_varint_tail v target (Suc n) = Some (varint_groups v 0 (Suc n))"
  unfolding grpc_chttp2_hpack_write_varint_tail_def varint_groups_map
  using assms varint_tail_case_map[of "Suc n" target v]
  by (simp add: nth_append list_update_append varint_last varint_more_def del: varint_tail_case.simps)

lemma varint_length_cases:
  "grpc_chttp2_hpack_varint_length v \<in> {2..6} \<and>
   unat v < 2 ^ (7 * (grpc_chttp2_hpack_varint_length v - 1))"
proof -
  have "unat v < 2 ^ 35" by (rule less_trans[OF unat_u32_less]) simp
  then show ?thesis by (auto simp: grpc_chttp2_hpack_varint_length_def word_less_nat_alt)
qed

section \<open>Reading\<close>

lemma take_bit_group:
  fixes t :: u32
  shows "take_bit (s + 7) t = take_bit s t + push_bit s (take_bit 7 (drop_bit s t))"
  using bits_ident[of s "take_bit (s + 7) t"] by (simp add: drop_bit_take_bit add.commute)

lemma group_value:
  fixes w :: u32
  shows "ucast ((ucast w OR 0x80 :: u8) AND 0x7f) = take_bit 7 w" "ucast ((ucast w AND 0x7f :: u8) AND 0x7f) = take_bit 7 w"
    "ucast (ucast w AND 0x7f :: u8) = take_bit 7 w"
    "(ucast w OR 0x80 :: u8) AND 0x80 \<noteq> 0" "(ucast w AND 0x7f :: u8) AND 0x80 = 0"
proof -
  have m: "(0x7f :: u8) = mask 7" by (simp add: mask_eq_exp_minus_1)
  show 3: "ucast (ucast w AND 0x7f :: u8) = take_bit 7 w"
    unfolding m by (rule bit_word_eqI) (auto simp: bit_simps)
  then show "ucast ((ucast w OR 0x80 :: u8) AND 0x7f) = take_bit 7 w" "ucast ((ucast w AND 0x7f :: u8) AND 0x7f) = take_bit 7 w"
    by (simp_all add: varint_last and.assoc)
  have "bit ((ucast w OR 0x80 :: u8) AND 0x80) 7" by (simp add: bit_simps)
  then show "(ucast w OR 0x80 :: u8) AND 0x80 \<noteq> 0" by (metis bit_0_eq bot_apply bot_bool_def)
  show "(ucast w AND 0x7f :: u8) AND 0x80 = 0" by (simp add: and.assoc)
qed

text \<open>One byte with the continuation bit, one without, at the first four positions.\<close>

definition varint_stage :: "nat \<Rightarrow> grpc_chttp2_hpack_parser_state" where
  "varint_stage i = [Parse_value0, Parse_value1, Parse_value2, Parse_value3, Parse_value4] ! i"

lemma parsing_get_put [simp]:
  "parsing p = Parsing_index \<or> parsing p = Parsing_strlen \<Longrightarrow> parsing_get (parsing_put p v) = Inr v"
  "parsing_put (parsing_put p v) w = parsing_put p w"
  "parsing (parsing_put p v) = parsing p"
  by (auto simp: parsing_get_def parsing_put_def)

lemma hpack_call_value_at:
  "i < 4 \<Longrightarrow> hpack_call (varint_stage i) = parse_value_at (varint_stage i) (7 * i) (varint_stage (Suc i))"
  by (auto simp: varint_stage_def less_Suc_eq numeral_eq_Suc parse_value0_def parse_value1_def parse_value2_def parse_value3_def)

lemma varint_more_bits:
  "ucast (varint_more t i AND 0x7f) = take_bit 7 (drop_bit (7 * i) t)" "varint_more t i AND 0x80 \<noteq> 0"
  unfolding varint_more_def by (rule group_value)+

definition varint_end :: "u32 \<Rightarrow> nat \<Rightarrow> u8" where
  "varint_end v i = ucast (drop_bit (7 * i) v) AND 0x7f"

lemma varint_end_bits:
  "ucast (varint_end t i AND 0x7f) = take_bit 7 (drop_bit (7 * i) t)" "varint_end t i AND 0x80 = 0"
  "ucast (varint_end t i) = take_bit 7 (drop_bit (7 * i) t)"
  unfolding varint_end_def by (rule group_value)+

lemma value_more:
  assumes "parsing p = Parsing_index \<or> parsing p = Parsing_strlen" "i < 4"
  shows "hpack_run (varint_stage i) (parsing_put p (v + take_bit (7 * i) t)) (varint_more t i # cur) =
    hpack_run (varint_stage (Suc i)) (parsing_put p (v + take_bit (7 * Suc i) t)) cur"
  using assms take_bit_group[of "7 * i" t]
  by (intro hpack_run_call(3)) (simp add: hpack_call_value_at parse_value_at_def varint_more_bits Let_def ac_simps)

lemma value_last:
  assumes "parsing p = Parsing_index \<or> parsing p = Parsing_strlen" "i < 4" "take_bit (7 * Suc i) t = t"
  shows "hpack_run (varint_stage i) (parsing_put p (v + take_bit (7 * i) t)) (varint_end t i # cur) =
    hpack_run Parse_next (parsing_put p (v + t)) cur"
proof -
  have t: "take_bit (7 * i) t + push_bit (7 * i) (take_bit 7 (drop_bit (7 * i) t)) = t"
    using assms(3) take_bit_group[of "7 * i" t] by (simp add: ac_simps)
  from assms(1,2) show ?thesis
    by (intro hpack_run_call(3)) (simp add: hpack_call_value_at parse_value_at_def varint_end_bits Let_def add.assoc t)
qed

lemma value_groups:
  assumes "parsing p = Parsing_index \<or> parsing p = Parsing_strlen"
  shows "i + n < 4 \<Longrightarrow> take_bit (7 * (i + Suc n)) t = t \<Longrightarrow>
    hpack_run (varint_stage i) (parsing_put p (v + take_bit (7 * i) t)) (varint_groups t i (Suc n) @ cur) =
    hpack_run Parse_next (parsing_put p (v + t)) cur"
proof (induction n arbitrary: i)
  case 0
  then show ?case using value_last[OF assms, of i t v] by (simp flip: varint_end_def)
next
  case (Suc n)
  then show ?case using value_more[OF assms, of i v t] Suc.IH[of "Suc i"]
    by (simp flip: varint_more_def)
qed

text \<open>The fifth group holds the last four bits and must not take the value past 32 bits.\<close>

lemma take_bit_full: "unat (t :: u32) < 2 ^ n \<Longrightarrow> take_bit n t = t"
  by (rule bit_word_eqI) (simp add: bit_take_bit_iff, meson bit_above not_le)

lemma value_fifth:
  assumes "parsing p = Parsing_index \<or> parsing p = Parsing_strlen" "unat v + unat t < 4294967296"
  shows "hpack_run Parse_value4 (parsing_put p (v + take_bit 28 t)) (varint_end t 4 # cur) =
    hpack_run Parse_next (parsing_put p (v + t)) cur"
proof -
  let ?w = "take_bit 28 t" and ?c = "drop_bit 28 t"
  have b: "varint_end t 4 AND 0x7f = varint_end t 4" by (simp add: varint_end_def and.assoc)
  have n: "unat t = unat ?w + unat ?c * 2 ^ 28"
    by (simp only: unsigned_take_bit_eq unat_drop_bit_eq) (simp add: take_bit_eq_mod drop_bit_eq_div)
  have c: "unat ?c < 16" using unat_u32_less[of t]
    by (simp only: unat_drop_bit_eq) (simp add: drop_bit_eq_div less_mult_imp_div_less)
  have uc: "ucast (varint_end t 4) = ?c"
    using varint_end_bits(3)[of t 4] c by (simp add: take_bit_full)
  then have "unat (varint_end t 4) = unat ?c" by (metis unat_ucast_u8)
  with c have small: "\<not> varint_end t 4 > 0xf" by (simp add: word_less_nat_alt)
  have add: "unat (push_bit 28 ?c) = unat ?c * 2 ^ 28" using c
    by (simp only: unsigned_push_bit_eq) (simp add: push_bit_eq_mult take_bit_nat_eq_self_iff)
  have v: "unat (v + ?w) = unat v + unat ?w" using assms(2) n by (simp add: unat_word_ariths)
  have room: "\<not> push_bit 28 ?c > 0xffffffff - (v + ?w)"
    using assms(2) n v add by (simp add: word_less_nat_alt unat_sub word_le_nat_alt)
  have split: "?w + push_bit 28 ?c = t" by (metis bits_ident add.commute)
  from assms(1) b uc small room varint_end_bits(2)[of t 4] show ?thesis
    by (intro hpack_run_call(3)) (simp add: parse_value4_def Let_def add.assoc split)
qed

text \<open>
  Any value that needs more than its prefix is read back: the value functions start
  from the prefix and add the tail that was written.
\<close>

lemma varint_tail_read:
  assumes "parsing p = Parsing_index \<or> parsing p = Parsing_strlen" "unat v + unat t < 4294967296"
  shows "hpack_run Parse_value0 (parsing_put p v) (varint_groups t 0 (grpc_chttp2_hpack_varint_length t - 1) @ cur) =
    hpack_run Parse_next (parsing_put p (v + t)) cur"
proof -
  obtain n where n: "grpc_chttp2_hpack_varint_length t = Suc (Suc n)" "n < 5"
    using varint_length_cases[of t] by (auto simp: le_iff_add)
  have t: "take_bit (7 * Suc n) t = t" using varint_length_cases[of t] n(1) by (intro take_bit_full) simp
  show ?thesis
  proof (cases "n < 4")
    case True
    then show ?thesis using value_groups[OF assms(1), of 0 n t v cur] t by (simp add: n(1) varint_stage_def)
  next
    case False
    with n(2) have 4: "n = 4" by simp
    have more: "hpack_run Parse_value0 (parsing_put p v) (map (varint_more t) [0..<4] @ ys) =
        hpack_run Parse_value4 (parsing_put p (v + take_bit 28 t)) ys" for ys
      using value_more[OF assms(1), of 0 v t] value_more[OF assms(1), of 1 v t]
        value_more[OF assms(1), of 2 v t] value_more[OF assms(1), of 3 v t]
      by (simp add: varint_stage_def numeral_eq_Suc)
    show ?thesis
      using more[of "varint_end t 4 # cur"] value_fifth[OF assms, of cur] n(1) varint_groups_map[of t 0 4]
      by (simp add: 4 varint_end_def)
  qed
qed

section \<open>The macros\<close>

text \<open>The bytes that the macros write for a value, after a prefix.\<close>

definition varint_bytes :: "int \<Rightarrow> nat \<Rightarrow> u8 \<Rightarrow> bytes" where
  "varint_bytes n prefix_bits prefix_or =
     (if n < GRPC_CHTTP2_MAX_IN_PREFIX prefix_bits then [prefix_or OR word_of_int n]
      else (prefix_or OR word_of_int (GRPC_CHTTP2_MAX_IN_PREFIX prefix_bits)) #
        (let t = word_of_int (n - GRPC_CHTTP2_MAX_IN_PREFIX prefix_bits) in
         varint_groups t 0 (grpc_chttp2_hpack_varint_length t - 1)))"

lemma write_varint_bytes:
  assumes "length tgt = GRPC_CHTTP2_VARINT_LENGTH n prefix_bits"
  shows "GRPC_CHTTP2_WRITE_VARINT n prefix_bits prefix_or tgt (length tgt) = Some (varint_bytes n prefix_bits prefix_or)"
proof (cases "n < GRPC_CHTTP2_MAX_IN_PREFIX prefix_bits")
  case True
  with assms have "length tgt = 1" by (simp add: GRPC_CHTTP2_VARINT_LENGTH_def)
  with True show ?thesis by (cases tgt) (auto simp: GRPC_CHTTP2_WRITE_VARINT_def varint_bytes_def)
next
  case False
  let ?t = "word_of_int (n - GRPC_CHTTP2_MAX_IN_PREFIX prefix_bits) :: u32"
  obtain k where k: "grpc_chttp2_hpack_varint_length ?t = Suc (Suc k)" "k < 5"
    using varint_length_cases[of ?t] by (auto simp: le_iff_add)
  with assms False obtain b xs where "tgt = b # xs" "length xs = Suc k"
    by (cases tgt) (auto simp: GRPC_CHTTP2_VARINT_LENGTH_def)
  with False k show ?thesis
    by (simp add: GRPC_CHTTP2_WRITE_VARINT_def varint_bytes_def Let_def write_varint_tail_groups)
qed

end
