(* ===== verification/Header_Decoder.thy ===== *)
theory Header_Decoder
  imports Varint
begin

text \<open>
  How the parser reads a header in each of the forms that the encoder sends: an index
  into the table, a literal value with the key's index, a literal key and value. The
  result of each is the same parser but for the pending functions, the strings, the
  table and what the callback made of the header.
\<close>

section \<open>Prefixed integers\<close>

lemma bit_above_word:
  assumes "unat (v :: 'a::len word) < 2 ^ n" "n \<le> i"
  shows "\<not> bit v i"
proof -
  have "unat v < 2 ^ i" using assms by (meson less_le_trans one_le_numeral power_increasing)
  then have "\<not> bit (unat v) i" by (simp add: bit_iff_odd)
  then show ?thesis by (simp add: bit_unsigned_iff)
qed

text \<open>A prefix that leaves the low \<open>k\<close> bits free.\<close>

definition varint_prefix :: "nat \<Rightarrow> u8 \<Rightarrow> bool" where
  "varint_prefix k hp \<longleftrightarrow> k \<le> 7 \<and> (\<forall>i < k. \<not> bit hp i)"

lemma varint_prefixes [simp]: "varint_prefix 7 0" "varint_prefix 7 0x80" "varint_prefix 6 0x40" "varint_prefix 4 0"
  by (auto simp: varint_prefix_def less_Suc_eq numeral_eq_Suc bit_simps)

lemma varint_prefix_byte:
  assumes "varint_prefix k hp" "n < 2 ^ k"
  shows "unat (hp OR word_of_nat n) = unat hp + n" "(hp OR word_of_nat n) AND mask k = word_of_nat n"
    "drop_bit k (hp OR word_of_nat n) = drop_bit k hp" "unat (word_of_nat n :: u8) = n"
proof -
  have "(2 :: nat) ^ k \<le> 2 ^ 7" using assms(1) by (intro power_increasing) (auto simp: varint_prefix_def)
  then have n: "n < 256" using assms(2) by simp
  then show un: "unat (word_of_nat n :: u8) = n" by (simp add: unsigned_of_nat take_bit_nat_eq_self)
  have above: "\<not> bit (word_of_nat n :: u8) i" if "k \<le> i" for i
    using bit_above_word[OF _ that, of "word_of_nat n :: u8"] un assms(2) by simp
  have below: "\<not> bit hp i" if "i < k" for i using assms(1) that by (simp add: varint_prefix_def)
  have disj: "hp AND word_of_nat n = 0" by (rule bit_word_eqI) (use above below not_le in \<open>auto simp: bit_and_iff\<close>)
  then have "hp OR word_of_nat n = hp + word_of_nat n" by (simp add: disjunctive_add_eq_or)
  moreover have "unat hp + n < 256"
  proof -
    have "unat hp AND n = 0"
      using arg_cong[OF disj, of unat] un by (simp add: unsigned_and_eq)
    then have "unat hp + n = unat hp OR n" by (simp add: disjunctive_add_eq_or)
    also have "\<dots> = unat (hp OR word_of_nat n :: u8)" using un by (simp add: unsigned_or_eq)
    finally show ?thesis using unat_u8_less by simp
  qed
  ultimately show "unat (hp OR word_of_nat n) = unat hp + n" using un by (simp add: unat_word_ariths)
  show "(hp OR word_of_nat n) AND mask k = word_of_nat n"
    by (rule bit_word_eqI) (use above below not_le in \<open>auto simp: bit_simps\<close>)
  show "drop_bit k (hp OR word_of_nat n) = drop_bit k hp"
    by (rule bit_word_eqI) (use above in \<open>auto simp: bit_simps\<close>)
qed

text \<open>The largest value of \<open>k\<close> bits, which says that more bytes follow.\<close>

definition varint_full :: "nat \<Rightarrow> nat" where
  "varint_full k = 2 ^ k - 1"

lemma varint_full_less [simp]: "varint_full k < 2 ^ k"
  by (simp add: varint_full_def)

lemma varint_full_mask: "(word_of_nat (varint_full k) :: u8) = mask k"
  by (simp add: varint_full_def mask_eq_exp_minus_1 of_nat_diff)

definition varint_rest :: "nat \<Rightarrow> nat \<Rightarrow> bytes" where
  "varint_rest k n = (let t = word_of_nat (n - varint_full k) in varint_groups t 0 (grpc_chttp2_hpack_varint_length t - 1))"

lemma varint_bytes_cases:
  assumes "k \<le> 8"
  shows "varint_bytes (int n) (8 - k) hp =
    (if n < varint_full k then [hp OR word_of_nat n] else (hp OR word_of_nat (varint_full k)) # varint_rest k n)"
proof -
  have p: "GRPC_CHTTP2_MAX_IN_PREFIX (8 - k) = int (varint_full k)"
    using assms by (simp add: GRPC_CHTTP2_MAX_IN_PREFIX_def varint_full_def of_nat_diff)
  have "word_of_int (int n - int (varint_full k)) = (word_of_nat (n - varint_full k) :: u32)" if "varint_full k \<le> n"
    using that by (simp add: of_nat_diff)
  then show ?thesis unfolding varint_bytes_def varint_rest_def p by (auto simp: Let_def)
qed

text \<open>The value functions read the rest of the value.\<close>

lemma varint_rest_read:
  assumes "parsing p = Parsing_index \<or> parsing p = Parsing_strlen" "varint_full k \<le> n" "n < 4294967296"
  shows "hpack_run Parse_value0 (parsing_put p (word_of_nat (varint_full k))) (varint_rest k n @ cur) =
    hpack_run Parse_next (parsing_put p (word_of_nat n)) cur"
proof -
  let ?v = "word_of_nat (varint_full k) :: u32" and ?t = "word_of_nat (n - varint_full k) :: u32"
  have "unat ?v = varint_full k" "unat ?t = n - varint_full k"
    using assms(2,3) by (intro unat_of_nat_u32; simp)+
  with assms(2,3) have "unat ?v + unat ?t < 4294967296" by linarith
  from varint_tail_read[OF assms(1) this, of cur]
  have "hpack_run Parse_value0 (parsing_put p ?v) (varint_rest k n @ cur) = hpack_run Parse_next (parsing_put p (?v + ?t)) cur"
    by (simp add: varint_rest_def Let_def)
  also have "?v + ?t = word_of_nat n" using assms(2) by (metis le_add_diff_inverse of_nat_add)
  finally show ?thesis .
qed

section \<open>The length of a string\<close>

lemma string_prefix_read:
  assumes "varint_prefix 7 hp" "n < 4294967296"
  shows "\<exists>ptr. hpack_run Parse_string_prefix p (varint_bytes (int n) 1 hp @ cur) =
    hpack_run Parse_next (p\<lparr>strlen := word_of_nat n, huff := drop_bit 7 hp, parsing := ptr\<rparr>) cur"
proof (cases "n < 127")
  case True
  let ?c = "hp OR word_of_nat n"
  have m: "mask 7 = (0x7f :: u8)" by (simp add: mask_eq_exp_minus_1)
  have c: "?c AND 0x7f = word_of_nat n" "drop_bit 7 ?c = drop_bit 7 hp" "unat (word_of_nat n :: u8) = n"
    using varint_prefix_byte[OF assms(1), of n] True by (simp_all add: m)
  have u: "(ucast (word_of_nat n :: u8) :: u32) = word_of_nat n"
    using c(3) True by (intro word_unat_eq_iff[THEN iffD2]) simp
  have "word_of_nat n \<noteq> (0x7f :: u32)" using True by (auto dest: arg_cong[where f = unat])
  with c(1,2) u have "hpack_call Parse_string_prefix p (varint_bytes (int n) 1 hp @ cur) =
      Inr (Hpack_call Parse_next (p\<lparr>strlen := word_of_nat n, huff := drop_bit 7 hp\<rparr>) cur)"
    using varint_bytes_cases[of 7 n hp] True by (simp add: varint_full_def parse_string_prefix_def Let_def)
  from hpack_run_call(3)[OF this] show ?thesis by (intro exI[of _ "parsing p"]) simp
next
  case False
  let ?c = "hp OR word_of_nat (varint_full 7)"
  have m: "mask 7 = (0x7f :: u8)" by (simp add: mask_eq_exp_minus_1)
  have c: "?c AND 0x7f = 0x7f" "drop_bit 7 ?c = drop_bit 7 hp"
    using varint_prefix_byte[OF assms(1) varint_full_less] by (simp_all add: m varint_full_mask)
  have f: "word_of_nat (varint_full 7) = (0x7f :: u32)" "varint_full 7 = 127" by (simp_all add: varint_full_def)
  let ?p = "p\<lparr>huff := drop_bit 7 hp, parsing := Parsing_strlen\<rparr>"
  have "hpack_call Parse_string_prefix p (varint_bytes (int n) 1 hp @ cur) =
      Inr (Hpack_call Parse_value0 (parsing_put ?p 0x7f) (varint_rest 7 n @ cur))"
    using varint_bytes_cases[of 7 n hp] False c by (simp add: parse_string_prefix_def Let_def parsing_put_def f)
  then have "hpack_run Parse_string_prefix p (varint_bytes (int n) 1 hp @ cur) =
      hpack_run Parse_next (parsing_put ?p (word_of_nat n)) cur"
    using varint_rest_read[of ?p 7 n cur] False assms(2) by (simp add: hpack_run_call(3) f)
  moreover have "parsing_put ?p (word_of_nat n) = p\<lparr>strlen := word_of_nat n, huff := drop_bit 7 hp, parsing := Parsing_strlen\<rparr>"
    by (simp add: parsing_put_def)
  ultimately show ?thesis by metis
qed

section \<open>A string\<close>

text \<open>What reading a string into the key or the value leaves of the parser.\<close>

definition string_result ::
    "'u grpc_chttp2_hpack_parser \<Rightarrow> hpack_parsing \<Rightarrow> bytes \<Rightarrow> 'u grpc_chttp2_hpack_parser \<Rightarrow> bool" where
  "string_result p ptr xs q \<longleftrightarrow>
     hpack_base q \<and> on_header q = on_header p \<and> on_header_user_data q = on_header_user_data p \<and>
     table q = table p \<and> index q = index p \<and>
     (if ptr = Parsing_key then string_holds (key q) xs \<and> value q = value p
      else string_holds (value q) xs \<and> key q = key p)"

lemma parse_string_seq:
  assumes "unat (strlen p - strgot p) = length ws"
    "hpack_seq (add_str_bytes p ws) finish_str = Inr (True, q)"
  shows "hpack_run Parse_string p (ws @ cur) = hpack_run Parse_next q cur"
proof -
  from assms(2) obtain r where "add_str_bytes p ws = Inr (True, r)" "finish_str r = Inr (True, q)"
    by (auto simp: hpack_seq_def hpack_try_def split: sum.splits prod.splits if_splits)
  with assms(1) have "hpack_call Parse_string p (ws @ cur) = Inr (Hpack_call Parse_next q cur)"
    by (simp add: parse_string_def Let_def)
  then show ?thesis by (rule hpack_run_call(3))
qed

lemma next_call:
  "next_state p = s # ss \<Longrightarrow> hpack_run Parse_next p cur = hpack_run s (p\<lparr>state := s, next_state := ss\<rparr>) cur"
  by (rule hpack_run_call(3)) (simp add: parse_next_def)

lemma string_begin_read:
  assumes "hpack_base p" "ptr = Parsing_key \<or> ptr = Parsing_value" "strlen p = word_of_nat (length ws)"
    "length ws < 4294967296" "length xs + 1 < 4294967296" "string_sent (huff p \<noteq> 0) base64 xs ws"
    "hpack_call v p (ws @ cur) = begin_parse_string p (ws @ cur) (if base64 then B64_BYTE0 else NOT_BINARY) ptr"
    "next_state p = s # ss"
  shows "\<exists>q. hpack_run v p (ws @ cur) = hpack_run s q cur \<and> string_result p ptr xs q \<and> next_state q = ss"
proof -
  define p1 where "p1 = (p\<lparr>strgot := 0\<rparr>)"
  define p2 where "p2 = (if ptr = Parsing_key then p1\<lparr>key := (key p1)\<lparr>string_length := 0\<rparr>\<rparr>
                else p1\<lparr>value := (value p1)\<lparr>string_length := 0\<rparr>\<rparr>)"
  define p3 where "p3 = p2\<lparr>parsing := ptr, huff_state := 0, binary := (if base64 then B64_BYTE0 else NOT_BINARY)\<rparr>"
  note defs = p1_def p2_def p3_def
  have call: "hpack_run v p (ws @ cur) = hpack_run Parse_string p3 (ws @ cur)"
    using assms(7) by (intro hpack_run_call(3)) (simp add: begin_parse_string_def defs Let_def)
  have r: "hpack_reading p3" "string_holds (parsed p3) []"
    using assms(1,2) by (auto simp: hpack_reading_def hpack_base_def defs string_holds_def parsed_def
        hpack_string_ok_def take_string_def)
  have f: "huff_state p3 = 0" "binary p3 = (if base64 then B64_BYTE0 else NOT_BINARY)" "huff p3 = huff p"
    "strlen p3 = strlen p" "strgot p3 = 0" "parsing p3 = ptr" "next_state p3 = s # ss"
    using assms(8) by (simp_all add: defs)
  have "string_sent (huff p3 \<noteq> 0) base64 xs ws" using assms(6) by (simp only: f(3))
  from add_str_bytes_read[OF r assms(5) f(1,2) this] obtain str b st t where
    str: "string_holds str xs" "t < 256"
    "hpack_seq (add_str_bytes p3 ws) finish_str =
       Inr (True, (set_parsed str p3)\<lparr>base64_buffer := b, binary := st, huff_state := t\<rparr>)" by blast
  define q where "q = (set_parsed str p3)\<lparr>base64_buffer := b, binary := st, huff_state := t,
      state := s, next_state := ss\<rparr>"
  have "unat (strlen p3 - strgot p3) = length ws" using assms(3,4) f by simp
  from parse_string_seq[OF this str(3)] next_call[of "(set_parsed str p3)\<lparr>base64_buffer := b, binary := st, huff_state := t\<rparr>" s ss cur]
  have "hpack_run Parse_string p3 (ws @ cur) = hpack_run s q cur"
    using f(7) by (simp add: q_def set_parsed_def)
  moreover have "string_result p ptr xs q"
    using str(1,2) assms(1,2) f(6)
    by (auto simp: string_result_def q_def set_parsed_def hpack_base_def string_holds_def defs)
  moreover have "next_state q = ss" by (simp add: q_def)
  ultimately show ?thesis using call by auto
qed

text \<open>From the length on; the function before the string sees the same key, index and table.\<close>

lemma string_read_field:
  fixes p :: "'u grpc_chttp2_hpack_parser"
  assumes "hpack_base p" "ptr = Parsing_key \<or> ptr = Parsing_value" "varint_prefix 7 hp"
    "length ws < 4294967296" "length xs + 1 < 4294967296" "string_sent (drop_bit 7 hp \<noteq> 0) base64 xs ws"
    "\<And>(q :: 'u grpc_chttp2_hpack_parser) bs. table q = table p \<Longrightarrow> index q = index p \<Longrightarrow> key q = key p \<Longrightarrow>
       hpack_call v q bs = begin_parse_string q bs (if base64 then B64_BYTE0 else NOT_BINARY) ptr"
    "next_state p = v # s # ss"
  shows "\<exists>q. hpack_run Parse_string_prefix p (varint_bytes (int (length ws)) 1 hp @ ws @ cur) = hpack_run s q cur \<and>
    string_result p ptr xs q \<and> next_state q = ss"
proof -
  from string_prefix_read[OF assms(3,4), of p "ws @ cur"] obtain pp where
    run: "hpack_run Parse_string_prefix p (varint_bytes (int (length ws)) 1 hp @ ws @ cur) =
      hpack_run Parse_next (p\<lparr>strlen := word_of_nat (length ws), huff := drop_bit 7 hp, parsing := pp\<rparr>) (ws @ cur)" by blast
  define p1 where "p1 = p\<lparr>strlen := word_of_nat (length ws), huff := drop_bit 7 hp, parsing := pp, state := v, next_state := s # ss\<rparr>"
  have "hpack_run Parse_string_prefix p (varint_bytes (int (length ws)) 1 hp @ ws @ cur) = hpack_run v p1 (ws @ cur)"
    unfolding run using assms(8) by (simp add: next_call p1_def)
  moreover have v: "hpack_call v p1 (ws @ cur) = begin_parse_string p1 (ws @ cur) (if base64 then B64_BYTE0 else NOT_BINARY) ptr"
    by (rule assms(7)) (simp_all add: p1_def)
  have "\<exists>q. hpack_run v p1 (ws @ cur) = hpack_run s q cur \<and> string_result p1 ptr xs q \<and> next_state q = ss"
    by (rule string_begin_read[OF _ assms(2) _ assms(4,5) _ v]) (use assms(1,6) in \<open>simp_all add: p1_def\<close>)
  ultimately show ?thesis by (auto simp: string_result_def p1_def)
qed

section \<open>Headers\<close>

text \<open>The header \<open>md\<close> has been reported, and added to the table if \<open>add\<close>.\<close>

definition header_read ::
    "'u grpc_chttp2_hpack_parser \<Rightarrow> grpc_mdelem \<Rightarrow> bool \<Rightarrow> 'u grpc_chttp2_hpack_parser \<Rightarrow> bool" where
  "header_read p md add q \<longleftrightarrow>
     hpack_base q \<and> on_header q = on_header p \<and>
     on_header p (on_header_user_data p) md = Some (on_header_user_data q) \<and>
     (if add then grpc_chttp2_hptbl_add (table p) md = Some (table q) else table q = table p)"

lemma on_hdr_read:
  assumes "hpack_base p" "on_header p (on_header_user_data p) md = Some u"
    "add \<longrightarrow> (\<exists>t. grpc_chttp2_hptbl_add (table p) md = Some t)"
  shows "\<exists>q. on_hdr p md add = Inr q \<and> header_read p md add q"
proof (cases add)
  case True
  with assms(3) obtain t where t: "grpc_chttp2_hptbl_add (table p) md = Some t" by blast
  moreover have "hptbl_shape t" using hptbl_add_shape[OF _ t] assms(1) by (simp add: hpack_base_def)
  ultimately show ?thesis using assms(1,2) True by (auto simp: on_hdr_def header_read_def hpack_base_def)
next
  case False
  with assms(1,2) show ?thesis by (auto simp: on_hdr_def header_read_def hpack_base_def)
qed

text \<open>The first byte chooses the function.\<close>

lemma begin_call:
  "hpack_run Parse_begin p (c # cur) = hpack_run (first_byte_action (first_byte_lut ! unat c)) p (c # cur)"
  by (rule hpack_run_call(3)) (simp add: parse_begin_def)

lemma indexed_field_read:
  assumes "hpack_base p" "0 < n" "n < 4294967296"
    "grpc_chttp2_hptbl_lookup (table p) (word_of_nat n) = Some (Some md)" "on_header p (on_header_user_data p) md = Some u"
  shows "\<exists>q. hpack_run Parse_begin p (varint_bytes (int n) 1 0x80 @ cur) = hpack_run Parse_begin q cur \<and> header_read p md False q"
proof -
  have m: "mask 7 = (0x7f :: u8)" by (simp add: mask_eq_exp_minus_1)
  have fin: "\<exists>q. hpack_run Finish_indexed_field r cur = hpack_run Parse_begin q cur \<and> header_read p md False q"
    if "r = p\<lparr>index := word_of_nat n, next_state := ns, parsing := pp, state := st\<rparr>" for r ns pp st
  proof -
    have "\<exists>q. on_hdr r md False = Inr q \<and> header_read r md False q"
      using that assms(1,5) by (intro on_hdr_read) (simp_all add: hpack_base_def)
    then obtain q where "on_hdr r md False = Inr q" "header_read r md False q" by blast
    then show ?thesis using assms(4) that
      by (intro exI[of _ q] conjI hpack_run_call(3)) (simp_all add: finish_indexed_field_def header_read_def)
  qed
  show ?thesis
  proof (cases "n < 127")
    case True
    let ?c = "0x80 OR word_of_nat n :: u8"
    have c: "unat ?c = 128 + n" "?c AND 0x7f = word_of_nat n" "unat (word_of_nat n :: u8) = n"
      using varint_prefix_byte[of 7 "0x80" n] True by (simp_all add: m)
    have u: "(ucast (word_of_nat n :: u8) :: u32) = word_of_nat n"
      using c(3) True by (intro word_unat_eq_iff[THEN iffD2]) simp
    have "hpack_run Parse_begin p (?c # cur) = hpack_run Parse_indexed_field p (?c # cur)"
      using c(1) True assms(2) by (simp add: begin_call first_byte_lut_nth)
    also have "\<dots> = hpack_run Finish_indexed_field (p\<lparr>index := word_of_nat n\<rparr>) cur"
      using c(2) u by (intro hpack_run_call(3)) (simp add: parse_indexed_field_def)
    finally show ?thesis
      using fin[of "p\<lparr>index := word_of_nat n\<rparr>" "state p" "parsing p" "next_state p"] varint_bytes_cases[of 7 n "0x80"] True
      by (simp add: varint_full_def)
  next
    case False
    have c: "unat (0x80 OR word_of_nat (varint_full 7) :: u8) = 255" by (simp add: varint_full_def)
    let ?p = "p\<lparr>next_state := [Finish_indexed_field], parsing := Parsing_index\<rparr>"
    have "hpack_run Parse_begin p (varint_bytes (int n) 1 0x80 @ cur) =
        hpack_run Parse_indexed_field_x p ((0x80 OR word_of_nat (varint_full 7)) # varint_rest 7 n @ cur)"
      using varint_bytes_cases[of 7 n "0x80"] False c by (simp add: begin_call first_byte_lut_nth varint_full_def)
    also have "\<dots> = hpack_run Parse_value0 (parsing_put ?p (word_of_nat (varint_full 7))) (varint_rest 7 n @ cur)"
      by (intro hpack_run_call(3)) (simp add: parse_indexed_field_x_def parse_field_x_def parsing_put_def varint_full_def)
    also have "\<dots> = hpack_run Parse_next (parsing_put ?p (word_of_nat n)) cur"
      using False assms(3) by (intro varint_rest_read) (simp_all add: varint_full_def)
    also have "\<dots> = hpack_run Finish_indexed_field ((parsing_put ?p (word_of_nat n))\<lparr>state := Finish_indexed_field, next_state := []\<rparr>) cur"
      by (rule next_call) (simp add: parsing_put_def)
    also have "(parsing_put ?p (word_of_nat n))\<lparr>state := Finish_indexed_field, next_state := []\<rparr> =
        p\<lparr>index := word_of_nat n, next_state := [], parsing := Parsing_index, state := Finish_indexed_field\<rparr>"
      by (simp add: parsing_put_def)
    finally show ?thesis using fin by simp
  qed
qed

text \<open>The index of a key, in the first byte or continued.\<close>

lemma field_index_read:
  assumes "varint_prefix k hp" "0 < n" "n < 4294967296"
    "\<And>i. 0 < i \<Longrightarrow> i < varint_full k \<Longrightarrow> first_byte_action (first_byte_lut ! (unat hp + i)) = f"
    "first_byte_action (first_byte_lut ! (unat hp + varint_full k)) = fx"
    "hpack_call f p = parse_field (mask k) [v, fin] Parse_string_prefix p"
    "hpack_call fx p = parse_field_x (word_of_nat (varint_full k)) [Parse_string_prefix, v, fin] p"
  shows "\<exists>pp st. hpack_run Parse_begin p (varint_bytes (int n) (8 - k) hp @ cur) =
    hpack_run Parse_string_prefix (p\<lparr>index := word_of_nat n, next_state := [v, fin], parsing := pp, state := st\<rparr>) cur"
proof (cases "n < varint_full k")
  case True
  then have "n < 2 ^ k" by (simp add: varint_full_def)
  note c = varint_prefix_byte[OF assms(1) this]
  have u: "(ucast (word_of_nat n :: u8) :: u32) = word_of_nat n"
    using c(4) assms(3) by (intro word_unat_eq_iff[THEN iffD2]) simp
  let ?c = "hp OR word_of_nat n"
  have "hpack_run Parse_begin p (?c # cur) = hpack_run f p (?c # cur)"
    using c(1) assms(2,4) True by (simp add: begin_call)
  also have "\<dots> = hpack_run Parse_string_prefix (p\<lparr>next_state := [v, fin], index := word_of_nat n\<rparr>) cur"
    using c(2) u assms(6) by (intro hpack_run_call(3)) (simp add: parse_field_def)
  also have "p\<lparr>next_state := [v, fin], index := word_of_nat n\<rparr> =
      p\<lparr>index := word_of_nat n, next_state := [v, fin], parsing := parsing p, state := state p\<rparr>" by simp
  finally show ?thesis
    using varint_bytes_cases[of k n hp] assms(1) True
    by (intro exI[of _ "parsing p"] exI[of _ "state p"]) (simp add: varint_prefix_def)
next
  case False
  let ?c = "hp OR word_of_nat (varint_full k)"
  let ?p = "p\<lparr>next_state := [Parse_string_prefix, v, fin], parsing := Parsing_index\<rparr>"
  have "hpack_run Parse_begin p (varint_bytes (int n) (8 - k) hp @ cur) = hpack_run Parse_begin p (?c # varint_rest k n @ cur)"
    using varint_bytes_cases[of k n hp] assms(1) False by (simp add: varint_prefix_def)
  also have "\<dots> = hpack_run fx p (?c # varint_rest k n @ cur)"
    using varint_prefix_byte(1)[OF assms(1) varint_full_less] assms(5) by (simp add: begin_call)
  also have "\<dots> = hpack_run Parse_value0 (parsing_put ?p (word_of_nat (varint_full k))) (varint_rest k n @ cur)"
    using assms(7) by (intro hpack_run_call(3)) (simp add: parse_field_x_def parsing_put_def)
  also have "\<dots> = hpack_run Parse_next (parsing_put ?p (word_of_nat n)) cur"
    using False assms(3) by (intro varint_rest_read) simp_all
  also have "\<dots> = hpack_run Parse_string_prefix
      ((parsing_put ?p (word_of_nat n))\<lparr>state := Parse_string_prefix, next_state := [v, fin]\<rparr>) cur"
    by (rule next_call) (simp add: parsing_put_def)
  also have "(parsing_put ?p (word_of_nat n))\<lparr>state := Parse_string_prefix, next_state := [v, fin]\<rparr> =
      p\<lparr>index := word_of_nat n, next_state := [v, fin], parsing := Parsing_index, state := Parse_string_prefix\<rparr>"
    by (simp add: parsing_put_def)
  finally show ?thesis by blast
qed

definition literal_prefix :: "bool \<Rightarrow> u8" where
  "literal_prefix add = (if add then 0x40 else 0)"

definition literal_bits :: "bool \<Rightarrow> nat" where
  "literal_bits add = (if add then 2 else 4)"

definition literal_finish :: "bool \<Rightarrow> grpc_chttp2_hpack_parser_state" where
  "literal_finish add = (if add then Finish_lithdr_incidx else Finish_lithdr_notidx)"

definition literal_finish_v :: "bool \<Rightarrow> grpc_chttp2_hpack_parser_state" where
  "literal_finish_v add = (if add then Finish_lithdr_incidx_v else Finish_lithdr_notidx_v)"

lemmas literal_defs = literal_prefix_def literal_bits_def literal_finish_def literal_finish_v_def

lemma literal_index_read:
  assumes "0 < n" "n < 4294967296"
  shows "\<exists>pp st. hpack_run Parse_begin p (varint_bytes (int n) (literal_bits add) (literal_prefix add) @ cur) =
    hpack_run Parse_string_prefix (p\<lparr>index := word_of_nat n,
      next_state := [Parse_value_string_with_indexed_key, literal_finish add], parsing := pp, state := st\<rparr>) cur"
proof (cases add)
  case True
  have "mask 6 = (0x3f :: u8)" by (simp add: mask_eq_exp_minus_1)
  then show ?thesis
    using field_index_read[of 6 "0x40" n Parse_lithdr_incidx Parse_lithdr_incidx_x p _ _ cur] assms True
    by (simp add: varint_full_def first_byte_lut_nth parse_lithdr_incidx_def parse_lithdr_incidx_x_def literal_defs)
next
  case False
  have "mask 4 = (0xf :: u8)" by (simp add: mask_eq_exp_minus_1)
  then show ?thesis
    using field_index_read[of 4 0 n Parse_lithdr_notidx Parse_lithdr_notidx_x p _ _ cur] assms False
    by (simp add: varint_full_def first_byte_lut_nth parse_lithdr_notidx_def parse_lithdr_notidx_x_def literal_defs)
qed

text \<open>A literal value with the index of its key.\<close>

lemma literal_indexed_read:
  fixes p :: "'u grpc_chttp2_hpack_parser"
  assumes "hpack_base p" "0 < n" "n < 4294967296" "varint_prefix 7 vp"
    "grpc_chttp2_hptbl_lookup (table p) (word_of_nat n) = Some (Some e)"
    "string_sent (drop_bit 7 vp \<noteq> 0) (grpc_is_binary_header (md_key e)) xs ws"
    "length ws < 4294967296" "length xs + 1 < 4294967296"
    "on_header p (on_header_user_data p) \<lparr> md_key = md_key e, md_value = xs \<rparr> = Some u"
    "add \<longrightarrow> (\<exists>t. grpc_chttp2_hptbl_add (table p) \<lparr> md_key = md_key e, md_value = xs \<rparr> = Some t)"
  shows "\<exists>q. hpack_run Parse_begin p (varint_bytes (int n) (literal_bits add) (literal_prefix add) @
      varint_bytes (int (length ws)) 1 vp @ ws @ cur) = hpack_run Parse_begin q cur \<and>
    header_read p \<lparr> md_key = md_key e, md_value = xs \<rparr> add q"
proof -
  from literal_index_read[OF assms(2,3), of p add "varint_bytes (int (length ws)) 1 vp @ ws @ cur"] obtain pp st where
    run: "hpack_run Parse_begin p (varint_bytes (int n) (literal_bits add) (literal_prefix add) @
        varint_bytes (int (length ws)) 1 vp @ ws @ cur) =
      hpack_run Parse_string_prefix (p\<lparr>index := word_of_nat n, next_state := [Parse_value_string_with_indexed_key, literal_finish add],
        parsing := pp, state := st\<rparr>) (varint_bytes (int (length ws)) 1 vp @ ws @ cur)" by blast
  define p1 where "p1 = p\<lparr>index := word_of_nat n, next_state := [Parse_value_string_with_indexed_key, literal_finish add],
      parsing := pp, state := st\<rparr>"
  have base: "hpack_base p1" using assms(1) by (simp add: p1_def hpack_base_def)
  have "\<exists>q. hpack_run Parse_string_prefix p1 (varint_bytes (int (length ws)) 1 vp @ ws @ cur) = hpack_run (literal_finish add) q cur \<and>
      string_result p1 Parsing_value xs q \<and> next_state q = []"
  proof (rule string_read_field[OF base _ assms(4,7,8,6)])
    fix q :: "'u grpc_chttp2_hpack_parser" and bs
    assume "table q = table p1" "index q = index p1"
    with assms(5) show "hpack_call Parse_value_string_with_indexed_key q bs =
        begin_parse_string q bs (if grpc_is_binary_header (md_key e) then B64_BYTE0 else NOT_BINARY) Parsing_value"
      by (simp add: parse_value_string_with_indexed_key_def is_binary_indexed_header_def p1_def)
  qed (simp_all add: p1_def)
  then obtain q where q: "hpack_run Parse_string_prefix p1 (varint_bytes (int (length ws)) 1 vp @ ws @ cur) =
      hpack_run (literal_finish add) q cur" "string_result p1 Parsing_value xs q" by blast
  let ?q = "q\<lparr>value := (value q)\<lparr>string_length := 0\<rparr>\<rparr>"
  have base: "hpack_base ?q" using q(2) by (auto simp: string_result_def hpack_base_def hpack_string_ok_def)
  have "\<exists>r. on_hdr ?q \<lparr> md_key = md_key e, md_value = xs \<rparr> add = Inr r \<and> header_read ?q \<lparr> md_key = md_key e, md_value = xs \<rparr> add r"
    using assms(9,10) q(2) by (intro on_hdr_read[OF base]) (simp_all add: string_result_def p1_def)
  then obtain r where r: "on_hdr ?q \<lparr> md_key = md_key e, md_value = xs \<rparr> add = Inr r"
    "header_read ?q \<lparr> md_key = md_key e, md_value = xs \<rparr> add r" by blast
  have "hpack_run (literal_finish add) q cur = hpack_run Parse_begin r cur"
    using q(2) r(1) assms(5)
    by (intro hpack_run_call(3)) (auto simp: literal_finish_def finish_lithdr_incidx_def finish_lithdr_notidx_def
        finish_lithdr_def take_value_def string_result_def string_holds_def p1_def)
  moreover have "header_read p \<lparr> md_key = md_key e, md_value = xs \<rparr> add r"
    using r(2) q(2) by (cases add) (simp_all add: header_read_def string_result_def p1_def)
  ultimately show ?thesis using run q(1) by (auto simp: p1_def)
qed

text \<open>A literal key and value.\<close>

lemma literal_new_read:
  fixes p :: "'u grpc_chttp2_hpack_parser"
  assumes "hpack_base p" "varint_prefix 7 vp" "string_sent (drop_bit 7 vp \<noteq> 0) (grpc_is_binary_header k) xs ws"
    "length k + 1 < 4294967296" "length ws < 4294967296" "length xs + 1 < 4294967296"
    "on_header p (on_header_user_data p) \<lparr> md_key = k, md_value = xs \<rparr> = Some u"
    "add \<longrightarrow> (\<exists>t. grpc_chttp2_hptbl_add (table p) \<lparr> md_key = k, md_value = xs \<rparr> = Some t)"
  shows "\<exists>q. hpack_run Parse_begin p (literal_prefix add # varint_bytes (int (length k)) 1 0 @ k @
      varint_bytes (int (length ws)) 1 vp @ ws @ cur) = hpack_run Parse_begin q cur \<and>
    header_read p \<lparr> md_key = k, md_value = xs \<rparr> add q"
proof -
  define p1 where "p1 = p\<lparr>next_state := [Parse_key_string, Parse_string_prefix, Parse_value_string_with_literal_key, literal_finish_v add]\<rparr>"
  let ?val = "varint_bytes (int (length ws)) 1 vp @ ws @ cur"
  have base: "hpack_base p1" using assms(1) by (simp add: p1_def hpack_base_def)
  let ?f = "if add then Parse_lithdr_incidx_v else Parse_lithdr_notidx_v"
  have "hpack_run Parse_begin p (literal_prefix add # varint_bytes (int (length k)) 1 0 @ k @ ?val) =
      hpack_run ?f p (literal_prefix add # varint_bytes (int (length k)) 1 0 @ k @ ?val)"
    by (simp add: begin_call first_byte_lut_nth literal_prefix_def)
  also have "\<dots> = hpack_run Parse_string_prefix p1 (varint_bytes (int (length k)) 1 0 @ k @ ?val)"
    by (intro hpack_run_call(3)) (simp add: parse_lithdr_incidx_v_def parse_lithdr_notidx_v_def parse_field_v_def p1_def literal_finish_v_def)
  finally have start: "hpack_run Parse_begin p (literal_prefix add # varint_bytes (int (length k)) 1 0 @ k @ ?val) =
      hpack_run Parse_string_prefix p1 (varint_bytes (int (length k)) 1 0 @ k @ ?val)" .
  have "\<exists>q. hpack_run Parse_string_prefix p1 (varint_bytes (int (length k)) 1 0 @ k @ ?val) = hpack_run Parse_string_prefix q ?val \<and>
      string_result p1 Parsing_key k q \<and> next_state q = [Parse_value_string_with_literal_key, literal_finish_v add]"
    by (rule string_read_field[OF base, of _ _ _ _ False Parse_key_string])
      (use assms(4) in \<open>simp_all add: string_sent_def parse_key_string_def p1_def\<close>)
  then obtain q where q: "hpack_run Parse_string_prefix p1 (varint_bytes (int (length k)) 1 0 @ k @ ?val) = hpack_run Parse_string_prefix q ?val"
    "string_result p1 Parsing_key k q" "next_state q = [Parse_value_string_with_literal_key, literal_finish_v add]" by blast
  have qb: "hpack_base q" and qk: "take_string (key q) = k" using q(2) by (simp_all add: string_result_def string_holds_def)
  have "\<exists>r. hpack_run Parse_string_prefix q ?val = hpack_run (literal_finish_v add) r cur \<and>
      string_result q Parsing_value xs r \<and> next_state r = []"
  proof (rule string_read_field[OF qb _ assms(2,5,6,3)])
    fix r :: "'u grpc_chttp2_hpack_parser" and bs
    assume "key r = key q"
    with qk show "hpack_call Parse_value_string_with_literal_key r bs =
        begin_parse_string r bs (if grpc_is_binary_header k then B64_BYTE0 else NOT_BINARY) Parsing_value"
      by (simp add: parse_value_string_with_literal_key_def is_binary_literal_header_def flip: take_string_def)
  qed (simp_all add: q(3))
  then obtain r where r: "hpack_run Parse_string_prefix q ?val = hpack_run (literal_finish_v add) r cur"
    "string_result q Parsing_value xs r" by blast
  let ?r = "r\<lparr>key := (key r)\<lparr>string_length := 0\<rparr>, value := (value r)\<lparr>string_length := 0\<rparr>\<rparr>"
  have rb: "hpack_base ?r" using r(2) by (auto simp: string_result_def hpack_base_def hpack_string_ok_def)
  have "\<exists>s. on_hdr ?r \<lparr> md_key = k, md_value = xs \<rparr> add = Inr s \<and> header_read ?r \<lparr> md_key = k, md_value = xs \<rparr> add s"
    using assms(7,8) q(2) r(2) by (intro on_hdr_read[OF rb]) (simp_all add: string_result_def p1_def)
  then obtain s where s: "on_hdr ?r \<lparr> md_key = k, md_value = xs \<rparr> add = Inr s"
    "header_read ?r \<lparr> md_key = k, md_value = xs \<rparr> add s" by blast
  have "hpack_run (literal_finish_v add) r cur = hpack_run Parse_begin s cur"
    using qk r(2) s(1)
    by (intro hpack_run_call(3)) (auto simp: literal_finish_v_def finish_lithdr_incidx_v_def finish_lithdr_notidx_v_def
        finish_lithdr_v_def take_value_def take_key_def string_result_def string_holds_def)
  moreover have "header_read p \<lparr> md_key = k, md_value = xs \<rparr> add s"
    using s(2) q(2) r(2) by (cases add) (simp_all add: header_read_def string_result_def p1_def)
  ultimately show ?thesis using start q(1) r(1) by auto
qed

end
