(* ===== verification/Gpr_Slice.thy ===== *)
theory Gpr_Slice
  imports Prelude
begin

text \<open>
  Slices and slice buffers of \<^verbatim>\<open>src/core/support/slice.c\<close> and
  \<^verbatim>\<open>slice_buffer.c\<close>. A slice without a reference count holds its bytes itself; the
  bytes behind a reference count are shared and never written after creation, so both
  kinds carry their bytes by value. Counting the references is left out.
\<close>

section \<open>Slices\<close>

datatype gpr_slice =
    Inlined (slice_bytes: bytes)
  | Refcounted (slice_bytes: bytes)

text \<open>\<^verbatim>\<open>sizeof(size_t) + sizeof(gpr_uint8 *) - 1\<close> on a 64-bit machine.\<close>

definition GPR_SLICE_INLINED_SIZE :: nat where
  "GPR_SLICE_INLINED_SIZE = 15"

fun slice_refcount :: "gpr_slice \<Rightarrow> bool" where
  "slice_refcount (Inlined bs) = False"
| "slice_refcount (Refcounted bs) = True"

definition GPR_SLICE_LENGTH :: "gpr_slice \<Rightarrow> nat" where
  "GPR_SLICE_LENGTH s = length (slice_bytes s)"

definition gpr_empty_slice :: gpr_slice where
  "gpr_empty_slice = Inlined []"

text \<open>A new slice; its bytes are what the memory held, here the argument \<open>mem\<close>.\<close>

definition gpr_slice_malloc :: "bytes \<Rightarrow> gpr_slice" where
  "gpr_slice_malloc mem = (if length mem > GPR_SLICE_INLINED_SIZE then Refcounted mem else Inlined mem)"

definition gpr_slice_new :: "bytes \<Rightarrow> gpr_slice" where
  "gpr_slice_new p = Refcounted p"

definition gpr_slice_from_copied_buffer :: "bytes \<Rightarrow> gpr_slice" where
  "gpr_slice_from_copied_buffer source = gpr_slice_malloc source"

definition gpr_slice_from_copied_string :: "bytes \<Rightarrow> gpr_slice" where
  "gpr_slice_from_copied_string source = gpr_slice_from_copied_buffer (takeWhile (\<lambda>c. c \<noteq> 0) source)"

definition sub_bytes :: "bytes \<Rightarrow> nat \<Rightarrow> nat \<Rightarrow> bytes" where
  "sub_bytes bs b e = take (e - b) (drop b bs)"

definition gpr_slice_sub_no_ref :: "gpr_slice \<Rightarrow> nat \<Rightarrow> nat \<Rightarrow> gpr_slice option" where
  "gpr_slice_sub_no_ref source b e =
     do {
       gpr_assert (e \<ge> b);
       gpr_assert (GPR_SLICE_LENGTH source \<ge> e);
       Some (if slice_refcount source then Refcounted (sub_bytes (slice_bytes source) b e)
             else Inlined (sub_bytes (slice_bytes source) b e))
     }"

text \<open>The difference is a \<^verbatim>\<open>size_t\<close>: with \<open>e < b\<close> it is too large to be copied.\<close>

definition gpr_slice_sub :: "gpr_slice \<Rightarrow> nat \<Rightarrow> nat \<Rightarrow> gpr_slice option" where
  "gpr_slice_sub source b e =
     (if b \<le> e \<and> e - b \<le> GPR_SLICE_INLINED_SIZE
      then do {
        gpr_assert (e \<le> GPR_SLICE_LENGTH source); \<comment> \<open>else bytes past the slice are copied\<close>
        Some (Inlined (sub_bytes (slice_bytes source) b e))
      }
      else do {
        subset \<leftarrow> gpr_slice_sub_no_ref source b e;
        gpr_assert (slice_refcount subset); \<comment> \<open>\<^verbatim>\<open>subset.refcount->ref\<close>\<close>
        Some subset
      })"

text \<open>The result is the rest of the source and the part split off.\<close>

definition gpr_slice_split_tail :: "gpr_slice \<Rightarrow> nat \<Rightarrow> (gpr_slice \<times> gpr_slice) option" where
  "gpr_slice_split_tail source split =
     do {
       gpr_assert (GPR_SLICE_LENGTH source \<ge> split);
       let head = take split (slice_bytes source);
       let tail = drop split (slice_bytes source);
       Some (if \<not> slice_refcount source then (Inlined head, Inlined tail)
             else (Refcounted head,
                   if GPR_SLICE_LENGTH source - split < GPR_SLICE_INLINED_SIZE then Inlined tail else Refcounted tail))
     }"

definition gpr_slice_split_head :: "gpr_slice \<Rightarrow> nat \<Rightarrow> (gpr_slice \<times> gpr_slice) option" where
  "gpr_slice_split_head source split =
     do {
       gpr_assert (GPR_SLICE_LENGTH source \<ge> split);
       let head = take split (slice_bytes source);
       let tail = drop split (slice_bytes source);
       Some (if \<not> slice_refcount source then (Inlined tail, Inlined head)
             else (Refcounted tail,
                   if split < GPR_SLICE_INLINED_SIZE then Inlined head else Refcounted head))
     }"

text \<open>\<^verbatim>\<open>memcmp\<close>: only the sign of the result is specified.\<close>

fun c_memcmp :: "bytes \<Rightarrow> bytes \<Rightarrow> int" where
  "c_memcmp (a # as) (b # bs) = (if a = b then c_memcmp as bs else if a < b then -1 else 1)"
| "c_memcmp _ _ = 0"

definition gpr_slice_cmp :: "gpr_slice \<Rightarrow> gpr_slice \<Rightarrow> int" where
  "gpr_slice_cmp a b =
     (let d = sint (word_of_int (int (GPR_SLICE_LENGTH a) - int (GPR_SLICE_LENGTH b)) :: u32) in
      if d \<noteq> 0 then d else c_memcmp (slice_bytes a) (take (GPR_SLICE_LENGTH a) (slice_bytes b)))"

definition gpr_slice_to_cstring :: "gpr_slice \<Rightarrow> bytes" where
  "gpr_slice_to_cstring s = slice_bytes s @ [0]"

section \<open>Slice buffers\<close>

text \<open>
  \<open>slices\<close> holds the first \<open>count\<close> elements of the array; \<open>on_heap\<close> says that it
  is not the array inside the buffer any more.
\<close>

record gpr_slice_buffer =
  slices :: "gpr_slice list"
  slice_capacity :: nat
  buffer_length :: nat
  on_heap :: bool

definition GRPC_SLICE_BUFFER_INLINE_ELEMENTS :: nat where
  "GRPC_SLICE_BUFFER_INLINE_ELEMENTS = 8"

abbreviation slice_count :: "gpr_slice_buffer \<Rightarrow> nat" where
  "slice_count sb \<equiv> length (slices sb)"

definition maybe_embiggen :: "gpr_slice_buffer \<Rightarrow> gpr_slice_buffer option" where
  "maybe_embiggen sb =
     (if slice_count sb = slice_capacity sb
      then (let cap = 3 * slice_capacity sb div 2 in
            do { gpr_assert (cap > slice_count sb); Some (sb\<lparr>slice_capacity := cap, on_heap := True\<rparr>) })
      else Some sb)"

definition gpr_slice_buffer_init :: gpr_slice_buffer where
  "gpr_slice_buffer_init =
     \<lparr> slices = [], slice_capacity = GRPC_SLICE_BUFFER_INLINE_ELEMENTS, buffer_length = 0, on_heap = False \<rparr>"

text \<open>
  The result is the place of the new bytes, a slice and an offset in it; the bytes
  are what the memory held, here zeros. More bytes than a slice can hold inline
  would be written past it.
\<close>

definition gpr_slice_buffer_tiny_add :: "gpr_slice_buffer \<Rightarrow> nat \<Rightarrow> (gpr_slice_buffer \<times> nat \<times> nat) option" where
  "gpr_slice_buffer_tiny_add sb n =
     (let sb = sb\<lparr>buffer_length := buffer_length sb + n\<rparr>; k = slice_count sb - 1 in
      if slices sb \<noteq> [] \<and> \<not> slice_refcount (last (slices sb)) \<and>
         GPR_SLICE_LENGTH (last (slices sb)) + n \<le> GPR_SLICE_INLINED_SIZE
      then Some (sb\<lparr>slices := (slices sb)[k := Inlined (slice_bytes (last (slices sb)) @ replicate n 0)]\<rparr>,
                 k, GPR_SLICE_LENGTH (last (slices sb)))
      else do {
        sb1 \<leftarrow> maybe_embiggen sb;
        gpr_assert (n \<le> GPR_SLICE_INLINED_SIZE);
        Some (sb1\<lparr>slices := slices sb1 @ [Inlined (replicate n 0)]\<rparr>, slice_count sb1, 0)
      })"

definition gpr_slice_buffer_add_indexed :: "gpr_slice_buffer \<Rightarrow> gpr_slice \<Rightarrow> (gpr_slice_buffer \<times> nat) option" where
  "gpr_slice_buffer_add_indexed sb s =
     do {
       let out = slice_count sb;
       sb1 \<leftarrow> maybe_embiggen sb;
       Some (sb1\<lparr>slices := slices sb1 @ [s], buffer_length := buffer_length sb1 + GPR_SLICE_LENGTH s\<rparr>, out)
     }"

definition gpr_slice_buffer_add :: "gpr_slice_buffer \<Rightarrow> gpr_slice \<Rightarrow> gpr_slice_buffer option" where
  "gpr_slice_buffer_add sb s =
     (let n = slice_count sb; back = last (slices sb) in
      if \<not> slice_refcount s \<and> n \<noteq> 0 \<and> \<not> slice_refcount back \<and> GPR_SLICE_LENGTH back < GPR_SLICE_INLINED_SIZE
      then
        (if GPR_SLICE_LENGTH s + GPR_SLICE_LENGTH back \<le> GPR_SLICE_INLINED_SIZE
         then Some (sb\<lparr>slices := (slices sb)[n - 1 := Inlined (slice_bytes back @ slice_bytes s)],
                       buffer_length := buffer_length sb + GPR_SLICE_LENGTH s\<rparr>)
         else
           (let cp1 = GPR_SLICE_INLINED_SIZE - GPR_SLICE_LENGTH back;
                sb1 = sb\<lparr>slices := (slices sb)[n - 1 := Inlined (slice_bytes back @ take cp1 (slice_bytes s))]\<rparr> in
            do {
              sb2 \<leftarrow> maybe_embiggen sb1;
              Some (sb2\<lparr>slices := slices sb2 @ [Inlined (drop cp1 (slice_bytes s))],
                        buffer_length := buffer_length sb2 + GPR_SLICE_LENGTH s\<rparr>)
            }))
      else do { (sb1, i) \<leftarrow> gpr_slice_buffer_add_indexed sb s; Some sb1 })"

fun gpr_slice_buffer_addn :: "gpr_slice_buffer \<Rightarrow> gpr_slice list \<Rightarrow> gpr_slice_buffer option" where
  "gpr_slice_buffer_addn sb [] = Some sb"
| "gpr_slice_buffer_addn sb (s # ss) = do { sb1 \<leftarrow> gpr_slice_buffer_add sb s; gpr_slice_buffer_addn sb1 ss }"

definition gpr_slice_buffer_pop :: "gpr_slice_buffer \<Rightarrow> gpr_slice_buffer" where
  "gpr_slice_buffer_pop sb =
     (if slices sb \<noteq> []
      then sb\<lparr>slices := butlast (slices sb), buffer_length := buffer_length sb - GPR_SLICE_LENGTH (last (slices sb))\<rparr>
      else sb)"

definition gpr_slice_buffer_reset_and_unref :: "gpr_slice_buffer \<Rightarrow> gpr_slice_buffer" where
  "gpr_slice_buffer_reset_and_unref sb = sb\<lparr>slices := [], buffer_length := 0\<rparr>"

text \<open>
  The four cases of the swap exchange the arrays, or the elements of the arrays that
  are inside the buffers.
\<close>

definition gpr_slice_buffer_swap :: "gpr_slice_buffer \<Rightarrow> gpr_slice_buffer \<Rightarrow> gpr_slice_buffer \<times> gpr_slice_buffer" where
  "gpr_slice_buffer_swap a b =
     (a\<lparr>slices := slices b, slice_capacity := slice_capacity b, buffer_length := buffer_length b, on_heap := on_heap b\<rparr>,
      b\<lparr>slices := slices a, slice_capacity := slice_capacity a, buffer_length := buffer_length a, on_heap := on_heap a\<rparr>)"

definition gpr_slice_buffer_move_into ::
    "gpr_slice_buffer \<Rightarrow> gpr_slice_buffer \<Rightarrow> (gpr_slice_buffer \<times> gpr_slice_buffer) option" where
  "gpr_slice_buffer_move_into src dst =
     (if slices src = [] then Some (src, dst)
      else if slices dst = [] then Some (gpr_slice_buffer_swap src dst)
      else do {
        dst1 \<leftarrow> gpr_slice_buffer_addn dst (slices src);
        Some (src\<lparr>slices := [], buffer_length := 0\<rparr>, dst1)
      })"

text \<open>The loop of \<^verbatim>\<open>gpr_slice_buffer_trim_end\<close>; without a slice it reads before the array.\<close>

function slice_trim_loop :: "gpr_slice list \<Rightarrow> nat \<Rightarrow> gpr_slice list option" where
  "slice_trim_loop ss n =
     (if ss = [] then None
      else
        (let slice = last ss; slice_len = GPR_SLICE_LENGTH slice in
         if slice_len > n then do { s \<leftarrow> gpr_slice_sub_no_ref slice 0 (slice_len - n); Some (butlast ss @ [s]) }
         else if slice_len = n then Some (butlast ss)
         else slice_trim_loop (butlast ss) (n - slice_len)))"
  by auto
termination by (relation "measure (\<lambda>(ss, n). length ss)") auto

declare slice_trim_loop.simps [simp del]

definition gpr_slice_buffer_trim_end :: "gpr_slice_buffer \<Rightarrow> nat \<Rightarrow> gpr_slice_buffer option" where
  "gpr_slice_buffer_trim_end sb n =
     do {
       gpr_assert (n \<le> buffer_length sb);
       ss \<leftarrow> slice_trim_loop (slices sb) n;
       Some (sb\<lparr>slices := ss, buffer_length := buffer_length sb - n\<rparr>)
     }"

section \<open>The bytes of a buffer\<close>

definition slices_bytes :: "gpr_slice list \<Rightarrow> bytes" where
  "slices_bytes ss = concat (map slice_bytes ss)"

definition buffer_bytes :: "gpr_slice_buffer \<Rightarrow> bytes" where
  "buffer_bytes sb = slices_bytes (slices sb)"

definition slice_ok :: "gpr_slice \<Rightarrow> bool" where
  "slice_ok s \<longleftrightarrow> slice_refcount s \<or> length (slice_bytes s) \<le> 15"

definition slice_buffer_ok :: "gpr_slice_buffer \<Rightarrow> bool" where
  "slice_buffer_ok sb \<longleftrightarrow>
     slice_count sb \<le> slice_capacity sb \<and> 8 \<le> slice_capacity sb \<and>
     buffer_length sb = length (buffer_bytes sb) \<and> (\<forall>s \<in> set (slices sb). slice_ok s)"

lemma slices_bytes_simps [simp]:
  "slices_bytes [] = []"
  "slices_bytes (s # ss) = slice_bytes s @ slices_bytes ss"
  "slices_bytes (ss @ ts) = slices_bytes ss @ slices_bytes ts"
  by (simp_all add: slices_bytes_def)

lemma slice_ok_simps [simp]:
  "slice_ok (Inlined bs) \<longleftrightarrow> length bs \<le> 15"
  "slice_ok (Refcounted bs)"
  by (simp_all add: slice_ok_def)

lemma slice_size [simp]: "GPR_SLICE_INLINED_SIZE = 15"
  by (simp add: GPR_SLICE_INLINED_SIZE_def)

lemma slice_inlined: "\<not> slice_refcount s \<longleftrightarrow> s = Inlined (slice_bytes s)"
  by (cases s) auto

lemma slice_length_inlined [simp]:
  "GPR_SLICE_LENGTH (Inlined bs) = length bs" "GPR_SLICE_LENGTH (Refcounted bs) = length bs"
  by (simp_all add: GPR_SLICE_LENGTH_def)

lemma maybe_embiggen_ok:
  assumes "slice_count sb \<le> slice_capacity sb" "8 \<le> slice_capacity sb"
  obtains cap heap where "maybe_embiggen sb = Some (sb\<lparr>slice_capacity := cap, on_heap := heap\<rparr>)"
    "slice_count sb < cap" "8 \<le> cap"
proof (cases "slice_count sb = slice_capacity sb")
  case True
  with assms show thesis
    by (intro that[where cap = "3 * slice_capacity sb div 2" and heap = True]) (auto simp: maybe_embiggen_def Let_def)
next
  case False
  with assms show thesis
    by (intro that[where cap = "slice_capacity sb" and heap = "on_heap sb"]) (auto simp: maybe_embiggen_def)
qed

text \<open>
  How the slices grow: the last one, if it holds its bytes itself, may get more, and
  slices may follow. The slices before it stay where they are.
\<close>

definition slices_grow :: "gpr_slice list \<Rightarrow> gpr_slice list \<Rightarrow> bool" where
  "slices_grow ss ts \<longleftrightarrow>
     (\<exists>ys. ts = ss @ ys) \<or>
     (\<exists>xs ys. ss \<noteq> [] \<and> \<not> slice_refcount (last ss) \<and> ts = butlast ss @ Inlined (slice_bytes (last ss) @ xs) # ys)"

lemma slices_grow_refl [simp]: "slices_grow ss ss"
  by (auto simp: slices_grow_def)

lemma slices_grow_append [simp]: "slices_grow ss (ss @ ys)"
  by (auto simp: slices_grow_def)

lemma slices_grow_trans:
  assumes "slices_grow ss ts" "slices_grow ts us"
  shows "slices_grow ss us"
proof (cases "ts = ss")
  case False
  from assms(2) obtain k xs where us: "\<exists>ys. us = ts @ ys \<or>
      (\<exists>xs. ts \<noteq> [] \<and> \<not> slice_refcount (last ts) \<and> us = butlast ts @ Inlined (slice_bytes (last ts) @ xs) # ys)"
    by (auto simp: slices_grow_def)
  show ?thesis
  proof (cases "\<exists>ys. ts = ss @ ys")
    case True
    then obtain y ys where ts: "ts = ss @ y # ys" using False by (metis append_Nil2 neq_Nil_conv)
    from us obtain zs where "us = ts @ zs \<or> (\<exists>xs. us = butlast ts @ Inlined (slice_bytes (last ts) @ xs) # zs)" by blast
    then have "\<exists>zs. us = ss @ zs" by (auto simp: ts butlast_append)
    then show ?thesis by (auto simp: slices_grow_def)
  next
    case no: False
    with assms(1) obtain xs ys where ts: "ss \<noteq> []" "\<not> slice_refcount (last ss)"
      "ts = butlast ss @ Inlined (slice_bytes (last ss) @ xs) # ys" by (auto simp: slices_grow_def)
    from us obtain zs where "us = ts @ zs \<or> (\<exists>vs. us = butlast ts @ Inlined (slice_bytes (last ts) @ vs) # zs)" by blast
    then have "\<exists>vs zs. us = butlast ss @ Inlined (slice_bytes (last ss) @ vs) # zs"
      by (cases ys rule: rev_cases) (auto simp: ts(3) butlast_append)
    then show ?thesis using ts(1,2) by (auto simp: slices_grow_def)
  qed
qed (use assms in simp)

lemma slices_grow_nth:
  assumes "slices_grow ss ts" "i < length ss"
  shows "i < length ts" "take i ts = take i ss" "\<exists>xs. slice_bytes (ts ! i) = slice_bytes (ss ! i) @ xs"
    "slice_refcount (ts ! i) = slice_refcount (ss ! i)"
proof -
  have "i < length ts \<and> take i ts = take i ss \<and> (\<exists>xs. slice_bytes (ts ! i) = slice_bytes (ss ! i) @ xs) \<and>
    slice_refcount (ts ! i) = slice_refcount (ss ! i)"
    using assms by (cases ss rule: rev_cases) (auto simp: slices_grow_def nth_append less_Suc_eq)
  then show "i < length ts" "take i ts = take i ss" "\<exists>xs. slice_bytes (ts ! i) = slice_bytes (ss ! i) @ xs"
    "slice_refcount (ts ! i) = slice_refcount (ss ! i)" by blast+
qed

lemma slices_bytes_last:
  "ss \<noteq> [] \<Longrightarrow> slices_bytes ss = slices_bytes (butlast ss) @ slice_bytes (last ss)"
  by (metis append_butlast_last_id slices_bytes_simps append_Nil2)

lemma update_last: "ss \<noteq> [] \<Longrightarrow> ss[length ss - Suc 0 := s] = butlast ss @ [s]"
  by (induction ss rule: rev_induct) auto

text \<open>The buffer after bytes have been added to the end.\<close>

definition buffer_added :: "gpr_slice_buffer \<Rightarrow> bytes \<Rightarrow> gpr_slice_buffer \<Rightarrow> bool" where
  "buffer_added sb bs sb1 \<longleftrightarrow>
     slice_buffer_ok sb1 \<and> buffer_bytes sb1 = buffer_bytes sb @ bs \<and> slices_grow (slices sb) (slices sb1)"

lemma buffer_added_trans: "buffer_added sb xs sb1 \<Longrightarrow> buffer_added sb1 ys sb2 \<Longrightarrow> buffer_added sb (xs @ ys) sb2"
  using slices_grow_trans by (auto simp: buffer_added_def)

lemma buffer_added_length: "buffer_added sb bs sb1 \<Longrightarrow> slice_buffer_ok sb \<Longrightarrow> buffer_length sb1 = buffer_length sb + length bs"
  by (simp add: buffer_added_def slice_buffer_ok_def)

lemma buffer_add_indexed_ok:
  assumes "slice_buffer_ok sb" "slice_ok s"
  shows "\<exists>sb1. gpr_slice_buffer_add_indexed sb s = Some (sb1, slice_count sb) \<and> buffer_added sb (slice_bytes s) sb1 \<and>
    slices sb1 = slices sb @ [s]"
proof -
  have "slice_count sb \<le> slice_capacity sb" "8 \<le> slice_capacity sb" using assms(1) by (simp_all add: slice_buffer_ok_def)
  then obtain cap heap where "maybe_embiggen sb = Some (sb\<lparr>slice_capacity := cap, on_heap := heap\<rparr>)"
    "slice_count sb < cap" "8 \<le> cap" by (rule maybe_embiggen_ok)
  then show ?thesis using assms
    by (auto simp: gpr_slice_buffer_add_indexed_def slice_buffer_ok_def buffer_bytes_def GPR_SLICE_LENGTH_def buffer_added_def)
qed

text \<open>More bytes in the last slice.\<close>

lemma buffer_last_ok:
  assumes "slice_buffer_ok sb" "slices sb \<noteq> []" "\<not> slice_refcount (last (slices sb))"
    "length (slice_bytes (last (slices sb)) @ xs) \<le> 15"
  shows "buffer_added sb xs (sb\<lparr>slices := butlast (slices sb) @ [Inlined (slice_bytes (last (slices sb)) @ xs)],
    buffer_length := buffer_length sb + length xs\<rparr>)"
  using assms slices_bytes_last[OF assms(2)]
  by (auto simp: buffer_added_def slice_buffer_ok_def buffer_bytes_def slices_grow_def dest: in_set_butlastD)

lemma buffer_add_ok:
  assumes "slice_buffer_ok sb" "slice_ok s"
  shows "\<exists>sb1. gpr_slice_buffer_add sb s = Some sb1 \<and> buffer_added sb (slice_bytes s) sb1"
proof -
  let ?final = "last (slices sb)"
  consider (indexed) "\<not> (\<not> slice_refcount s \<and> slices sb \<noteq> [] \<and> \<not> slice_refcount ?final \<and> GPR_SLICE_LENGTH ?final < 15)"
    | (fits) "\<not> slice_refcount s" "slices sb \<noteq> []" "\<not> slice_refcount ?final" "GPR_SLICE_LENGTH ?final < 15"
        "GPR_SLICE_LENGTH s + GPR_SLICE_LENGTH ?final \<le> 15"
    | (split) "\<not> slice_refcount s" "slices sb \<noteq> []" "\<not> slice_refcount ?final" "GPR_SLICE_LENGTH ?final < 15"
        "\<not> GPR_SLICE_LENGTH s + GPR_SLICE_LENGTH ?final \<le> 15" by blast
  then show ?thesis
  proof cases
    case indexed
    then show ?thesis using buffer_add_indexed_ok[OF assms]
      by (auto simp: gpr_slice_buffer_add_def Let_def)
  next
    case fits
    then have "buffer_added sb (slice_bytes s) (sb\<lparr>slices := butlast (slices sb) @ [Inlined (slice_bytes ?final @ slice_bytes s)],
        buffer_length := buffer_length sb + length (slice_bytes s)\<rparr>)"
      using assms(1) by (intro buffer_last_ok) (auto simp: GPR_SLICE_LENGTH_def)
    with fits show ?thesis by (simp add: gpr_slice_buffer_add_def update_last GPR_SLICE_LENGTH_def)
  next
    case split
    define cp1 where "cp1 = 15 - GPR_SLICE_LENGTH ?final"
    define sb1 where "sb1 = sb\<lparr>slices := butlast (slices sb) @ [Inlined (slice_bytes ?final @ take cp1 (slice_bytes s))],
        buffer_length := buffer_length sb + length (take cp1 (slice_bytes s))\<rparr>"
    have add1: "buffer_added sb (take cp1 (slice_bytes s)) sb1"
      unfolding sb1_def using assms(1) split by (intro buffer_last_ok) (auto simp: GPR_SLICE_LENGTH_def cp1_def)
    then have ok1: "slice_buffer_ok sb1" by (simp add: buffer_added_def)
    have "slice_ok (Inlined (drop cp1 (slice_bytes s)))"
      using assms(2) split(1) by (auto simp: slice_ok_def)
    from buffer_add_indexed_ok[OF ok1 this] obtain sb2 where
      sb2: "gpr_slice_buffer_add_indexed sb1 (Inlined (drop cp1 (slice_bytes s))) = Some (sb2, slice_count sb1)"
      "buffer_added sb1 (drop cp1 (slice_bytes s)) sb2" by auto
    have "gpr_slice_buffer_add sb s = Some sb2"
      using sb2(1) split
      by (auto simp: gpr_slice_buffer_add_def gpr_slice_buffer_add_indexed_def maybe_embiggen_def sb1_def Let_def update_last
          bind_eq_Some_conv GPR_SLICE_LENGTH_def cp1_def split: if_splits)
    moreover have "buffer_added sb (slice_bytes s) sb2"
      using buffer_added_trans[OF add1 sb2(2)] by simp
    ultimately show ?thesis by blast
  qed
qed

text \<open>The place that a small addition returns: writing there appends to the buffer.\<close>

definition slice_write :: "gpr_slice_buffer \<Rightarrow> nat \<Rightarrow> nat \<Rightarrow> bytes \<Rightarrow> gpr_slice_buffer option" where
  "slice_write sb i off bs =
     do {
       s \<leftarrow> c_read (slices sb) i;
       gpr_assert (off + length bs \<le> GPR_SLICE_LENGTH s);
       let data = take off (slice_bytes s) @ bs @ drop (off + length bs) (slice_bytes s);
       Some (sb\<lparr>slices := (slices sb)[i := if slice_refcount s then Refcounted data else Inlined data]\<rparr>)
     }"

lemma buffer_tiny_add_ok:
  assumes "slice_buffer_ok sb" "length bs \<le> 15"
  shows "\<exists>sb1 i off sb2. gpr_slice_buffer_tiny_add sb (length bs) = Some (sb1, i, off) \<and>
    slice_write sb1 i off bs = Some sb2 \<and> buffer_added sb bs sb2"
proof -
  let ?final = "last (slices sb)"
  define sb0 where "sb0 = sb\<lparr>buffer_length := buffer_length sb + length bs\<rparr>"
  show ?thesis
  proof (cases "slices sb \<noteq> [] \<and> \<not> slice_refcount ?final \<and> GPR_SLICE_LENGTH ?final + length bs \<le> 15")
    case True
    let ?sb2 = "sb\<lparr>slices := butlast (slices sb) @ [Inlined (slice_bytes ?final @ bs)], buffer_length := buffer_length sb + length bs\<rparr>"
    have "buffer_added sb bs ?sb2" using True assms(1) by (intro buffer_last_ok) (auto simp: GPR_SLICE_LENGTH_def)
    moreover have "slice_write (sb0\<lparr>slices := butlast (slices sb) @ [Inlined (slice_bytes ?final @ replicate (length bs) 0)]\<rparr>)
        (slice_count sb - 1) (GPR_SLICE_LENGTH ?final) bs = Some ?sb2"
      using True by (auto simp: slice_write_def GPR_SLICE_LENGTH_def sb0_def nth_append list_update_append)
    ultimately show ?thesis using True
      by (auto simp: gpr_slice_buffer_tiny_add_def Let_def update_last sb0_def)
  next
    case False
    have "slice_count sb0 \<le> slice_capacity sb0" "8 \<le> slice_capacity sb0"
      using assms(1) by (simp_all add: slice_buffer_ok_def sb0_def)
    then obtain cap heap where e: "maybe_embiggen sb0 = Some (sb0\<lparr>slice_capacity := cap, on_heap := heap\<rparr>)"
      "slice_count sb0 < cap" "8 \<le> cap" by (rule maybe_embiggen_ok)
    let ?sb2 = "sb0\<lparr>slices := slices sb @ [Inlined bs], slice_capacity := cap, on_heap := heap\<rparr>"
    have "gpr_slice_buffer_tiny_add sb (length bs) = Some (?sb2\<lparr>slices := slices sb @ [Inlined (replicate (length bs) 0)]\<rparr>, slice_count sb, 0)"
      using False e(1) assms(2) by (auto simp: gpr_slice_buffer_tiny_add_def Let_def sb0_def)
    moreover have "slice_write (?sb2\<lparr>slices := slices sb @ [Inlined (replicate (length bs) 0)]\<rparr>) (slice_count sb) 0 bs = Some ?sb2"
      by (simp add: slice_write_def list_update_append)
    moreover have "buffer_added sb bs ?sb2"
      using assms e by (auto simp: buffer_added_def slice_buffer_ok_def buffer_bytes_def sb0_def)
    ultimately show ?thesis by blast
  qed
qed

section \<open>Moving and trimming\<close>

lemma buffer_addn_ok:
  "slice_buffer_ok sb \<Longrightarrow> \<forall>s \<in> set ss. slice_ok s \<Longrightarrow>
     \<exists>sb1. gpr_slice_buffer_addn sb ss = Some sb1 \<and> buffer_added sb (slices_bytes ss) sb1"
proof (induction ss arbitrary: sb)
  case (Cons s ss)
  from buffer_add_ok[OF Cons.prems(1)] Cons.prems(2) obtain sb1 where
    sb1: "gpr_slice_buffer_add sb s = Some sb1" "buffer_added sb (slice_bytes s) sb1" by auto
  moreover from sb1(2) have "slice_buffer_ok sb1" by (simp add: buffer_added_def)
  from Cons.IH[OF this] Cons.prems(2) obtain sb2 where
    "gpr_slice_buffer_addn sb1 ss = Some sb2" "buffer_added sb1 (slices_bytes ss) sb2" by auto
  ultimately show ?case using buffer_added_trans by fastforce
qed (simp add: buffer_added_def)

lemma slice_trim_loop_ok:
  "ss \<noteq> [] \<Longrightarrow> n \<le> length (slices_bytes ss) \<Longrightarrow> \<forall>s \<in> set ss. slice_ok s \<Longrightarrow>
     \<exists>ts. slice_trim_loop ss n = Some ts \<and> slices_bytes ts = take (length (slices_bytes ss) - n) (slices_bytes ss) \<and>
       length ts \<le> length ss \<and> (\<forall>s \<in> set ts. slice_ok s)"
proof (induction ss n rule: slice_trim_loop.induct)
  case (1 ss n)
  let ?s = "last ss"
  note cat = slices_bytes_last[OF 1(2)]
  consider (cut) "GPR_SLICE_LENGTH ?s > n" | (whole) "GPR_SLICE_LENGTH ?s = n" | (more) "GPR_SLICE_LENGTH ?s < n" by linarith
  then show ?case
  proof cases
    case cut
    have "?s \<in> set ss" using 1(2) by simp
    with 1(4) have "slice_ok ?s" by blast
    with cut cat 1(2,4) show ?thesis
      by (subst slice_trim_loop.simps)
         (auto simp: gpr_slice_sub_no_ref_def GPR_SLICE_LENGTH_def sub_bytes_def slice_ok_def Let_def dest: in_set_butlastD)
  next
    case whole
    with cat 1(2,4) show ?thesis
      by (subst slice_trim_loop.simps) (auto simp: GPR_SLICE_LENGTH_def dest: in_set_butlastD)
  next
    case more
    then have "butlast ss \<noteq> []" using cat 1(3) by (auto simp: GPR_SLICE_LENGTH_def)
    moreover have "n - GPR_SLICE_LENGTH ?s \<le> length (slices_bytes (butlast ss))"
      using cat 1(3) by (simp add: GPR_SLICE_LENGTH_def)
    moreover have "\<forall>s \<in> set (butlast ss). slice_ok s" using 1(4) by (auto dest: in_set_butlastD)
    ultimately obtain ts where "slice_trim_loop (butlast ss) (n - GPR_SLICE_LENGTH ?s) = Some ts"
      "slices_bytes ts = take (length (slices_bytes (butlast ss)) - (n - GPR_SLICE_LENGTH ?s)) (slices_bytes (butlast ss))"
      "length ts \<le> length (butlast ss)" "\<forall>s \<in> set ts. slice_ok s"
      using 1(1)[of ?s "GPR_SLICE_LENGTH ?s"] 1(2) more by auto
    with cat 1(2) more show ?thesis
      by (subst slice_trim_loop.simps) (auto simp: GPR_SLICE_LENGTH_def)
  qed
qed

lemma buffer_move_into_ok:
  assumes "slice_buffer_ok src" "slice_buffer_ok dst"
  shows "\<exists>src1 dst1. gpr_slice_buffer_move_into src dst = Some (src1, dst1) \<and> slice_buffer_ok src1 \<and> slice_buffer_ok dst1 \<and>
    buffer_bytes src1 = [] \<and> buffer_bytes dst1 = buffer_bytes dst @ buffer_bytes src"
proof -
  consider "slices src = []" | "slices src \<noteq> []" "slices dst = []" | "slices src \<noteq> []" "slices dst \<noteq> []" by blast
  then show ?thesis
  proof cases
    case 3
    have "\<forall>s \<in> set (slices src). slice_ok s" using assms(1) by (simp add: slice_buffer_ok_def)
    from buffer_addn_ok[OF assms(2) this] 3 assms(1) show ?thesis
      by (auto simp: gpr_slice_buffer_move_into_def buffer_added_def slice_buffer_ok_def buffer_bytes_def)
  qed (use assms in \<open>auto simp: gpr_slice_buffer_move_into_def gpr_slice_buffer_swap_def slice_buffer_ok_def buffer_bytes_def\<close>)
qed

lemma buffer_trim_end_ok:
  assumes "slice_buffer_ok sb" "slices sb \<noteq> []" "n \<le> length (buffer_bytes sb)"
  shows "\<exists>sb1. gpr_slice_buffer_trim_end sb n = Some sb1 \<and> slice_buffer_ok sb1 \<and>
    buffer_bytes sb1 = take (length (buffer_bytes sb) - n) (buffer_bytes sb)"
proof -
  have "\<forall>s \<in> set (slices sb). slice_ok s" "n \<le> length (slices_bytes (slices sb))"
    using assms(1,3) by (simp_all add: slice_buffer_ok_def buffer_bytes_def)
  from slice_trim_loop_ok[OF assms(2) this(2,1)] assms(1,3) show ?thesis
    by (auto simp: gpr_slice_buffer_trim_end_def slice_buffer_ok_def buffer_bytes_def)
qed

lemma buffer_pop_ok:
  assumes "slice_buffer_ok sb"
  shows "slice_buffer_ok (gpr_slice_buffer_pop sb)"
    "slices sb \<noteq> [] \<Longrightarrow> buffer_bytes sb = buffer_bytes (gpr_slice_buffer_pop sb) @ slice_bytes (last (slices sb))"
    "slices (gpr_slice_buffer_pop sb) = butlast (slices sb)"
  using assms slices_bytes_last[of "slices sb"]
  by (auto simp: gpr_slice_buffer_pop_def slice_buffer_ok_def buffer_bytes_def GPR_SLICE_LENGTH_def dest: in_set_butlastD)

lemma buffer_swap_ok:
  assumes "slice_buffer_ok a" "slice_buffer_ok b" "gpr_slice_buffer_swap a b = (a1, b1)"
  shows "slice_buffer_ok a1" "slice_buffer_ok b1" "slices a1 = slices b" "slices b1 = slices a"
  using assms by (auto simp: gpr_slice_buffer_swap_def slice_buffer_ok_def buffer_bytes_def)

text \<open>
  C35. A slice buffer is the concatenation of its slices under every operation: adding a slice,
  with or without merging it into the last one, adding several, reserving a few bytes and
  writing them to the place returned, taking the last slice off, exchanging two buffers, moving
  one into the other, trimming the end and resetting act on the bytes as they should. No
  assertion fails, the length stays that of the bytes, and the index that adding a slice
  returns is where it stays. Trimming a buffer without slices is left out: it reads before
  the array.
\<close>

theorem slice_buffer_refines:
  assumes "slice_buffer_ok sb" "slice_buffer_ok src" "slice_ok s" "\<forall>s \<in> set ss. slice_ok s" "length bs \<le> GPR_SLICE_INLINED_SIZE"
  shows "(\<exists>sb1. gpr_slice_buffer_add sb s = Some sb1 \<and> slice_buffer_ok sb1 \<and> buffer_bytes sb1 = buffer_bytes sb @ slice_bytes s) \<and>
    (\<exists>sb1. gpr_slice_buffer_add_indexed sb s = Some (sb1, slice_count sb) \<and> slice_buffer_ok sb1 \<and> slices sb1 = slices sb @ [s]) \<and>
    (\<exists>sb1. gpr_slice_buffer_addn sb ss = Some sb1 \<and> slice_buffer_ok sb1 \<and> buffer_bytes sb1 = buffer_bytes sb @ slices_bytes ss) \<and>
    (\<exists>sb1 i off sb2. gpr_slice_buffer_tiny_add sb (length bs) = Some (sb1, i, off) \<and> slice_write sb1 i off bs = Some sb2 \<and>
      slice_buffer_ok sb2 \<and> buffer_bytes sb2 = buffer_bytes sb @ bs) \<and>
    (slice_buffer_ok (gpr_slice_buffer_pop sb) \<and> slices (gpr_slice_buffer_pop sb) = butlast (slices sb)) \<and>
    (\<exists>src1 sb1. gpr_slice_buffer_swap src sb = (src1, sb1) \<and> slice_buffer_ok src1 \<and> slice_buffer_ok sb1 \<and>
      slices src1 = slices sb \<and> slices sb1 = slices src) \<and>
    (\<exists>src1 sb1. gpr_slice_buffer_move_into src sb = Some (src1, sb1) \<and> slice_buffer_ok src1 \<and> slice_buffer_ok sb1 \<and>
      buffer_bytes src1 = [] \<and> buffer_bytes sb1 = buffer_bytes sb @ buffer_bytes src) \<and>
    (slices sb \<noteq> [] \<and> n \<le> length (buffer_bytes sb) \<longrightarrow>
      (\<exists>sb1. gpr_slice_buffer_trim_end sb n = Some sb1 \<and> slice_buffer_ok sb1 \<and>
        buffer_bytes sb1 = take (length (buffer_bytes sb) - n) (buffer_bytes sb))) \<and>
    (slice_buffer_ok (gpr_slice_buffer_reset_and_unref sb) \<and> buffer_bytes (gpr_slice_buffer_reset_and_unref sb) = [])"
proof (intro conjI impI)
  show "\<exists>sb1. gpr_slice_buffer_add sb s = Some sb1 \<and> slice_buffer_ok sb1 \<and> buffer_bytes sb1 = buffer_bytes sb @ slice_bytes s"
    using buffer_add_ok[OF assms(1,3)] by (auto simp: buffer_added_def)
  show "\<exists>sb1. gpr_slice_buffer_add_indexed sb s = Some (sb1, slice_count sb) \<and> slice_buffer_ok sb1 \<and> slices sb1 = slices sb @ [s]"
    using buffer_add_indexed_ok[OF assms(1,3)] by (auto simp: buffer_added_def)
  show "\<exists>sb1. gpr_slice_buffer_addn sb ss = Some sb1 \<and> slice_buffer_ok sb1 \<and> buffer_bytes sb1 = buffer_bytes sb @ slices_bytes ss"
    using buffer_addn_ok[OF assms(1,4)] by (auto simp: buffer_added_def)
  show "\<exists>sb1 i off sb2. gpr_slice_buffer_tiny_add sb (length bs) = Some (sb1, i, off) \<and> slice_write sb1 i off bs = Some sb2 \<and>
      slice_buffer_ok sb2 \<and> buffer_bytes sb2 = buffer_bytes sb @ bs"
    using buffer_tiny_add_ok[OF assms(1), of bs] assms(5) by (auto simp: buffer_added_def)
  obtain src1 sb1 where "gpr_slice_buffer_swap src sb = (src1, sb1)" by force
  with buffer_swap_ok[OF assms(2,1) this]
  show "\<exists>src1 sb1. gpr_slice_buffer_swap src sb = (src1, sb1) \<and> slice_buffer_ok src1 \<and> slice_buffer_ok sb1 \<and>
      slices src1 = slices sb \<and> slices sb1 = slices src" by blast
  show "\<exists>src1 sb1. gpr_slice_buffer_move_into src sb = Some (src1, sb1) \<and> slice_buffer_ok src1 \<and> slice_buffer_ok sb1 \<and>
      buffer_bytes src1 = [] \<and> buffer_bytes sb1 = buffer_bytes sb @ buffer_bytes src"
    by (rule buffer_move_into_ok[OF assms(2,1)])
qed (use assms(1) buffer_pop_ok[OF assms(1)] buffer_trim_end_ok[OF assms(1)] in
  \<open>auto simp: gpr_slice_buffer_reset_and_unref_def slice_buffer_ok_def buffer_bytes_def\<close>)

theorem slice_buffer_refines_witness:
  "(\<exists>sb1. gpr_slice_buffer_add (gpr_slice_buffer_init\<lparr>slices := [Inlined [1, 2]], buffer_length := 2\<rparr>) (Inlined [3]) = Some sb1 \<and>
      slice_buffer_ok sb1 \<and> buffer_bytes sb1 = [1, 2, 3]) \<and>
   (\<exists>sb1. gpr_slice_buffer_addn (gpr_slice_buffer_init\<lparr>slices := [Inlined [1, 2]], buffer_length := 2\<rparr>) [Inlined [5], Inlined [6]] =
        Some sb1 \<and> slice_buffer_ok sb1 \<and> buffer_bytes sb1 = [1, 2, 5, 6]) \<and>
   (\<exists>src1 sb1. gpr_slice_buffer_move_into (gpr_slice_buffer_init\<lparr>slices := [Inlined [4]], buffer_length := 1\<rparr>)
        (gpr_slice_buffer_init\<lparr>slices := [Inlined [1, 2]], buffer_length := 2\<rparr>) = Some (src1, sb1) \<and>
      slice_buffer_ok src1 \<and> slice_buffer_ok sb1 \<and> buffer_bytes src1 = [] \<and> buffer_bytes sb1 = [1, 2, 4]) \<and>
   (\<exists>sb1. gpr_slice_buffer_trim_end (gpr_slice_buffer_init\<lparr>slices := [Inlined [1, 2]], buffer_length := 2\<rparr>) 1 = Some sb1 \<and>
      slice_buffer_ok sb1 \<and> buffer_bytes sb1 = [1])"
  using slice_buffer_refines[of "gpr_slice_buffer_init\<lparr>slices := [Inlined [1, 2]], buffer_length := 2\<rparr>"
      "gpr_slice_buffer_init\<lparr>slices := [Inlined [4]], buffer_length := 1\<rparr>" "Inlined [3]" "[Inlined [5], Inlined [6]]" "[7]" 1]
  by (simp add: slice_buffer_ok_def buffer_bytes_def gpr_slice_buffer_init_def GRPC_SLICE_BUFFER_INLINE_ELEMENTS_def)

lemma buffer_trim_empty: "gpr_slice_buffer_trim_end gpr_slice_buffer_init 0 = None"
  by (simp add: gpr_slice_buffer_trim_end_def gpr_slice_buffer_init_def slice_trim_loop.simps)

end
