(* ===== verification/Timeout_Encoding.thy ===== *)
theory Timeout_Encoding
  imports Gpr_Time
begin

text \<open>
  The text form of deadlines: \<^verbatim>\<open>src/core/transport/chttp2/timeout_encoding.c\<close> with
  the integer printing of \<^verbatim>\<open>src/core/support/string.c\<close>. A string is the list of its
  bytes before the terminating zero, which the end of the list reads as.
\<close>

section \<open>Printing an integer\<close>

text \<open>Two pointers that swap bytes until they meet.\<close>

function reverse_loop :: "bytes \<Rightarrow> nat \<Rightarrow> nat \<Rightarrow> bytes" where
  "reverse_loop str p1 p2 =
     (if p2 > p1
      then (let temp = str ! p1; str = str[p1 := str ! p2]; str = str[p2 := temp] in
            reverse_loop str (p1 + 1) (p2 - 1))
      else str)"
  by auto
termination by (relation "measure (\<lambda>(_, p1, p2). p2 - p1)") auto

declare reverse_loop.simps [simp del]

definition gpr_reverse_bytes :: "bytes \<Rightarrow> nat \<Rightarrow> bytes" where
  "gpr_reverse_bytes str len = (if len = 0 then str else reverse_loop str 0 (len - 1))"

function ltoa_loop :: "int \<Rightarrow> bytes \<Rightarrow> bytes" where
  "ltoa_loop value string =
     (if value > 0 then ltoa_loop (value sdiv 10) (string @ [48 + word_of_int (value smod 10)]) else string)"
  by auto
termination by (relation "measure (\<lambda>(v, _). nat v)") (auto simp: sdiv_nonneg)

declare ltoa_loop.simps [simp del]

text \<open>The negation of the smallest value overflows.\<close>

definition gpr_ltoa :: "int \<Rightarrow> bytes option" where
  "gpr_ltoa value =
     (if value = 0 then Some [48]
      else do {
        v \<leftarrow> (if value < 0 then c_signed 64 (- value) else Some value);
        let string = ltoa_loop v [];
        let string = (if value < 0 then string @ [45] else string);
        Some (gpr_reverse_bytes string (length string))
      })"

section \<open>Encoding\<close>

definition round_up :: "int \<Rightarrow> int \<Rightarrow> int option" where
  "round_up x divisor = c_signed 32 ((x sdiv divisor + of_bool (x smod divisor \<noteq> 0)) * divisor)"

definition round_up_to_three_sig_figs :: "int \<Rightarrow> int option" where
  "round_up_to_three_sig_figs x =
     (if x < 1000 then Some x
      else if x < 10000 then round_up x 10
      else if x < 100000 then round_up x 100
      else if x < 1000000 then round_up x 1000
      else if x < 10000000 then round_up x 10000
      else if x < 100000000 then round_up x 100000
      else if x < 1000000000 then round_up x 1000000
      else round_up x 10000000)"

definition enc_tiny :: bytes where
  "enc_tiny = bytes_of_string ''1n''"

definition enc_ext :: "int \<Rightarrow> char \<Rightarrow> bytes option" where
  "enc_ext value ext = do { digits \<leftarrow> gpr_ltoa value; Some (digits @ bytes_of_string [ext]) }"

definition enc_seconds :: "int \<Rightarrow> bytes option" where
  "enc_seconds sec =
     (if sec smod 3600 = 0 then enc_ext (sec sdiv 3600) (CHR ''H'')
      else if sec smod 60 = 0 then enc_ext (sec sdiv 60) (CHR ''M'')
      else enc_ext sec (CHR ''S''))"

definition enc_nanos :: "int \<Rightarrow> bytes option" where
  "enc_nanos x0 =
     do {
       x \<leftarrow> round_up_to_three_sig_figs x0;
       (if x < 100000 then
          (if x smod 1000 = 0 then enc_ext (x sdiv 1000) (CHR ''u'') else enc_ext x (CHR ''n''))
        else if x < 100000000 then
          (if x smod 1000000 = 0 then enc_ext (x sdiv 1000000) (CHR ''m'') else enc_ext (x sdiv 1000) (CHR ''u''))
        else if x < 1000000000 then enc_ext (x sdiv 1000000) (CHR ''m'')
        else Some (bytes_of_string ''1S''))
     }"

definition enc_micros :: "int \<Rightarrow> bytes option" where
  "enc_micros x0 =
     do {
       x \<leftarrow> round_up_to_three_sig_figs x0;
       (if x < 100000 then
          (if x smod 1000 = 0 then enc_ext (x sdiv 1000) (CHR ''m'') else enc_ext x (CHR ''u''))
        else if x < 100000000 then
          (if x smod 1000000 = 0 then enc_ext (x sdiv 1000000) (CHR ''S'') else enc_ext (x sdiv 1000) (CHR ''m''))
        else enc_ext (x sdiv 1000000) (CHR ''S''))
     }"

text \<open>The microseconds are a \<^verbatim>\<open>long\<close> that is converted to \<^verbatim>\<open>int\<close>.\<close>

definition grpc_chttp2_encode_timeout :: "gpr_timespec \<Rightarrow> bytes option" where
  "grpc_chttp2_encode_timeout timeout =
     (if tv_sec timeout < 0 then Some enc_tiny
      else if tv_sec timeout = 0 then enc_nanos (tv_nsec timeout)
      else if tv_sec timeout < 1000 \<and> tv_nsec timeout \<noteq> 0 then
        do { x \<leftarrow> c_signed 32 (tv_sec timeout * 1000000 +
                    (tv_nsec timeout sdiv 1000 + of_bool (tv_nsec timeout smod 1000 \<noteq> 0)));
             enc_micros x }
      else do { s \<leftarrow> c_signed 64 (tv_sec timeout + of_bool (tv_nsec timeout \<noteq> 0)); enc_seconds s })"

section \<open>Decoding\<close>

fun is_all_whitespace :: "bytes \<Rightarrow> bool" where
  "is_all_whitespace [] = True"
| "is_all_whitespace (c # p) = (if c = 32 then is_all_whitespace p else c = 0)"

text \<open>The digits: the value and the rest, or \<^const>\<open>None\<close> when the check for overflow fires.\<close>

fun timeout_digits :: "u32 \<Rightarrow> bytes \<Rightarrow> (u32 \<times> bytes) option" where
  "timeout_digits x [] = Some (x, [])"
| "timeout_digits x (c # p) =
     (if 48 \<le> c \<and> c \<le> 57
      then (let xp = x * 10 + ucast c - 48 in if xp < x then None else timeout_digits xp p)
      else Some (x, c # p))"

definition timeout_unit :: "u32 \<Rightarrow> u8 \<Rightarrow> gpr_timespec option option" where
  "timeout_unit x c =
     (if c = of_char (CHR ''n'') then do { t \<leftarrow> gpr_time_from_nanos (int (unat x)) GPR_TIMESPAN; Some (Some t) }
      else if c = of_char (CHR ''u'') then do { t \<leftarrow> gpr_time_from_micros (int (unat x)) GPR_TIMESPAN; Some (Some t) }
      else if c = of_char (CHR ''m'') then do { t \<leftarrow> gpr_time_from_millis (int (unat x)) GPR_TIMESPAN; Some (Some t) }
      else if c = of_char (CHR ''S'') then Some (Some (gpr_time_from_seconds (int (unat x)) GPR_TIMESPAN))
      else if c = of_char (CHR ''M'') then do { t \<leftarrow> gpr_time_from_minutes (int (unat x)) GPR_TIMESPAN; Some (Some t) }
      else if c = of_char (CHR ''H'') then do { t \<leftarrow> gpr_time_from_hours (int (unat x)) GPR_TIMESPAN; Some (Some t) }
      else Some None)"

text \<open>
  The outer option is an abort, the inner one the answer 0. A unit followed by
  anything but blanks has stored the timeout before it answers 0; callers ignore it
  then.
\<close>

definition grpc_chttp2_decode_timeout :: "bytes \<Rightarrow> gpr_timespec option option" where
  "grpc_chttp2_decode_timeout buffer =
     (let p = dropWhile (\<lambda>c. c = 32) buffer in
      case timeout_digits 0 p of
        None \<Rightarrow> Some (Some (gpr_inf_future GPR_CLOCK_REALTIME))
      | Some (x, q) \<Rightarrow>
          (if q = p then Some None
           else case dropWhile (\<lambda>c. c = 32) q of
               [] \<Rightarrow> Some None
             | c # r \<Rightarrow>
                 do {
                   t \<leftarrow> timeout_unit x c;
                   Some (if t \<noteq> None \<and> is_all_whitespace r then t else None)
                 }))"

section \<open>Decimal numbers\<close>

lemma reverse_loop_nth:
  "p1 \<le> p2 + 1 \<Longrightarrow> p2 < length str \<Longrightarrow>
     length (reverse_loop str p1 p2) = length str \<and>
     (\<forall>i < length str. reverse_loop str p1 p2 ! i = (if p1 \<le> i \<and> i \<le> p2 then str ! (p1 + p2 - i) else str ! i))"
proof (induction str p1 p2 rule: reverse_loop.induct)
  case (1 str p1 p2)
  show ?case
  proof (cases "p2 > p1")
    case True
    let ?str = "str[p1 := str ! p2, p2 := str ! p1]"
    have "reverse_loop str p1 p2 = reverse_loop ?str (p1 + 1) (p2 - 1)"
      using True by (subst reverse_loop.simps) (simp add: Let_def)
    moreover have "length (reverse_loop ?str (p1 + 1) (p2 - 1)) = length str \<and>
        (\<forall>i < length str. reverse_loop ?str (p1 + 1) (p2 - 1) ! i =
          (if p1 + 1 \<le> i \<and> i \<le> p2 - 1 then ?str ! (p1 + 1 + (p2 - 1) - i) else ?str ! i))"
      using 1(1)[OF True refl refl refl] 1(3) True by simp
    ultimately show ?thesis using True 1(3) by (auto simp: nth_list_update)
  next
    case False
    then have "reverse_loop str p1 p2 = str" by (subst reverse_loop.simps) simp
    moreover have "p1 + p2 - i = i" if "p1 \<le> i" "i \<le> p2" for i using that False by linarith
    ultimately show ?thesis by simp
  qed
qed

lemma reverse_bytes_rev: "gpr_reverse_bytes str (length str) = rev str"
proof (cases "str = []")
  case False
  with reverse_loop_nth[of 0 "length str - 1" str] show ?thesis
    by (intro nth_equalityI) (auto simp: gpr_reverse_bytes_def rev_nth)
qed (simp add: gpr_reverse_bytes_def)

lemma smod_nonneg: "0 \<le> x \<Longrightarrow> 0 < k \<Longrightarrow> x smod k = x mod k" for x k :: int
  by (auto simp: signed_modulo_int_def sgn_if)

fun decimal :: "nat \<Rightarrow> bytes" where
  "decimal n = (if n < 10 then [48 + of_nat n] else decimal (n div 10) @ [48 + of_nat (n mod 10)])"

declare decimal.simps [simp del]

lemma ltoa_loop_decimal: "0 < n \<Longrightarrow> ltoa_loop (int n) s = s @ rev (decimal n)"
proof (induction n arbitrary: s rule: less_induct)
  case (less n)
  have d: "int n sdiv 10 = int (n div 10)" "int n smod 10 = int (n mod 10)"
    by (simp_all add: sdiv_nonneg smod_nonneg zdiv_int zmod_int)
  show ?case
  proof (cases "n < 10")
    case True
    then have "ltoa_loop 0 t = t" for t by (subst ltoa_loop.simps) simp
    with True less.prems d show ?thesis by (subst ltoa_loop.simps) (simp add: decimal.simps[of n])
  next
    case False
    then have "ltoa_loop (int (n div 10)) (s @ [48 + of_nat (n mod 10)]) = (s @ [48 + of_nat (n mod 10)]) @ rev (decimal (n div 10))"
      by (intro less.IH) auto
    with False less.prems d show ?thesis by (subst ltoa_loop.simps) (simp add: decimal.simps[of n])
  qed
qed

lemma ltoa_decimal: "gpr_ltoa (int n) = Some (decimal n)"
  using ltoa_loop_decimal[of n "[]"] reverse_bytes_rev[of "rev (decimal n)"]
  by (cases "n = 0") (auto simp: gpr_ltoa_def decimal.simps[of 0])

lemma pos_mod_bound_10: "n mod 10 < (10 :: nat)"
  by simp

lemma timeout_digits_decimal:
  "n < 4294967296 \<Longrightarrow> timeout_digits 0 (decimal n @ cs) = timeout_digits (of_nat n) cs"
proof (induction n arbitrary: cs rule: less_induct)
  case (less n)
  have digit: "48 \<le> (48 + of_nat d :: u8)" "(48 + of_nat d :: u8) \<le> 57" "(ucast (48 + of_nat d :: u8) :: u32) = 48 + of_nat d"
    if "d < 10" for d
  proof -
    from that have "d = 0 \<or> d = 1 \<or> d = 2 \<or> d = 3 \<or> d = 4 \<or> d = 5 \<or> d = 6 \<or> d = 7 \<or> d = 8 \<or> d = 9" by auto
    then show "48 \<le> (48 + of_nat d :: u8)" "(48 + of_nat d :: u8) \<le> 57" "(ucast (48 + of_nat d :: u8) :: u32) = 48 + of_nat d"
      by (elim disjE; simp)+
  qed
  show ?case
  proof (cases "n < 10")
    case True
    with digit[OF True] show ?thesis by (simp add: decimal.simps[of n])
  next
    case False
    let ?x = "of_nat (n div 10) :: u32"
    have "of_nat n = (of_nat (n div 10 * 10 + n mod 10) :: u32)" by (simp only: div_mult_mod_eq)
    then have "?x * 10 + of_nat (n mod 10) = of_nat n" by (simp only: of_nat_add of_nat_mult of_nat_numeral)
    then have x: "?x * 10 + ucast (48 + of_nat (n mod 10) :: u8) - 48 = of_nat n"
      unfolding digit(3)[OF pos_mod_bound_10] by simp
    have nl: "\<not> n < n div 10" by (simp only: not_less div_le_dividend)
    have "timeout_digits 0 (decimal n @ cs) = timeout_digits ?x ((48 + of_nat (n mod 10)) # cs)"
      using less.IH[of "n div 10"] False less.prems by (simp add: decimal.simps[of n])
    also have "\<dots> = timeout_digits (of_nat n) cs"
      using digit(1,2)[OF pos_mod_bound_10[of n]] less.prems x nl
      by (simp add: word_less_nat_alt unsigned_of_nat take_bit_nat_eq_self)
    finally show ?thesis .
  qed
qed

lemma decimal_digit: "decimal n = d # ds \<Longrightarrow> 48 \<le> d \<and> d \<le> 57"
proof (induction n arbitrary: d ds rule: less_induct)
  case (less n)
  show ?case
  proof (cases "n < 10")
    case True
    then have "n = 0 \<or> n = 1 \<or> n = 2 \<or> n = 3 \<or> n = 4 \<or> n = 5 \<or> n = 6 \<or> n = 7 \<or> n = 8 \<or> n = 9" by auto
    with less.prems show ?thesis by (elim disjE) (auto simp: decimal.simps)
  next
    case False
    have "decimal (n div 10) \<noteq> []" by (subst decimal.simps) simp
    then obtain e es where "decimal (n div 10) = e # es" by (cases "decimal (n div 10)") auto
    with less.IH[of "n div 10" e es] less.prems False show ?thesis by (simp add: decimal.simps[of n])
  qed
qed

text \<open>What a number and a unit decode to.\<close>

definition unit_ns :: "char \<Rightarrow> int" where
  "unit_ns u =
     (if u = CHR ''n'' then 1 else if u = CHR ''u'' then 1000 else if u = CHR ''m'' then 1000000
      else if u = CHR ''S'' then 1000000000 else if u = CHR ''M'' then 60000000000 else 3600000000000)"

lemma timeout_units:
  assumes "n < 4294967296"
  shows "\<exists>t. gpr_time_from_nanos (int n) GPR_TIMESPAN = Some t \<and> time_ok t \<and> clock_type t = GPR_TIMESPAN \<and> time_ns t = int n"
    "\<exists>t. gpr_time_from_micros (int n) GPR_TIMESPAN = Some t \<and> time_ok t \<and> clock_type t = GPR_TIMESPAN \<and> time_ns t = int n * 1000"
    "\<exists>t. gpr_time_from_millis (int n) GPR_TIMESPAN = Some t \<and> time_ok t \<and> clock_type t = GPR_TIMESPAN \<and> time_ns t = int n * 1000000"
    "time_ok (gpr_time_from_seconds (int n) GPR_TIMESPAN)" "clock_type (gpr_time_from_seconds (int n) GPR_TIMESPAN) = GPR_TIMESPAN"
    "time_ns (gpr_time_from_seconds (int n) GPR_TIMESPAN) = int n * 1000000000"
    "\<exists>t. gpr_time_from_minutes (int n) GPR_TIMESPAN = Some t \<and> time_ok t \<and> clock_type t = GPR_TIMESPAN \<and> time_ns t = int n * 60000000000"
    "\<exists>t. gpr_time_from_hours (int n) GPR_TIMESPAN = Some t \<and> time_ok t \<and> clock_type t = GPR_TIMESPAN \<and> time_ns t = int n * 3600000000000"
proof -
  let ?x = "int n"
  have n: "TIME_MIN \<le> ?x" "?x \<le> TIME_MAX" "?x \<noteq> TIME_MAX" "?x \<noteq> TIME_MIN"
    using assms by (simp_all add: TIME_MIN_def TIME_MAX_def)
  have k: "0 \<le> ?x div k" "?x div k < 4294967296" "0 \<le> ?x mod k" "?x mod k < k" "?x div k * k + ?x mod k = ?x"
    if "0 < k" for k
  proof -
    show p: "0 \<le> ?x div k" using that by (simp add: pos_imp_zdiv_nonneg_iff)
    have "?x div k * 1 \<le> ?x div k * k" using that p by (intro mult_left_mono) simp_all
    moreover have "?x div k * k + ?x mod k = ?x" "0 \<le> ?x mod k" using that by simp_all
    ultimately have "?x div k \<le> ?x" by linarith
    then show "?x div k < 4294967296" using assms by simp
  qed (use that in simp_all)
  have pos: "\<not> ?x div k * k < TIME_MIN" if "0 < k" for k
  proof -
    have "0 \<le> ?x div k * k" using k(1)[OF that] that by simp
    then show ?thesis by (simp add: TIME_MIN_def)
  qed
  note u = time_from_units[OF n(1,2), of GPR_TIMESPAN]
  have "gpr_time_from_nanos ?x GPR_TIMESPAN = Some \<lparr> tv_sec = ?x div 1000000000, tv_nsec = ?x mod 1000000000, clock_type = GPR_TIMESPAN \<rparr>"
    unfolding u(1) using n(3,4) pos[of 1000000000] by simp
  then show "\<exists>t. gpr_time_from_nanos ?x GPR_TIMESPAN = Some t \<and> time_ok t \<and> clock_type t = GPR_TIMESPAN \<and> time_ns t = ?x"
    using k[of 1000000000] by (simp add: time_ok_def time_ns_def TIME_MIN_def TIME_MAX_def)
  have "gpr_time_from_micros ?x GPR_TIMESPAN = Some \<lparr> tv_sec = ?x div 1000000, tv_nsec = ?x mod 1000000 * 1000, clock_type = GPR_TIMESPAN \<rparr>"
    unfolding u(2) using n(3,4) pos[of 1000000] by simp
  then show "\<exists>t. gpr_time_from_micros ?x GPR_TIMESPAN = Some t \<and> time_ok t \<and> clock_type t = GPR_TIMESPAN \<and> time_ns t = ?x * 1000"
    using k(1-4)[of 1000000] by (simp add: time_ok_def time_ns_def TIME_MIN_def TIME_MAX_def) (use k(5)[of 1000000] in linarith)
  have "gpr_time_from_millis ?x GPR_TIMESPAN = Some \<lparr> tv_sec = ?x div 1000, tv_nsec = ?x mod 1000 * 1000000, clock_type = GPR_TIMESPAN \<rparr>"
    unfolding u(3) using n(3,4) pos[of 1000] by simp
  then show "\<exists>t. gpr_time_from_millis ?x GPR_TIMESPAN = Some t \<and> time_ok t \<and> clock_type t = GPR_TIMESPAN \<and> time_ns t = ?x * 1000000"
    using k(1-4)[of 1000] by (simp add: time_ok_def time_ns_def TIME_MIN_def TIME_MAX_def) (use k(5)[of 1000] in linarith)
  have s: "gpr_time_from_seconds ?x GPR_TIMESPAN = \<lparr> tv_sec = ?x, tv_nsec = 0, clock_type = GPR_TIMESPAN \<rparr>"
    using n(3,4) by (simp add: gpr_time_from_seconds_def)
  then show "time_ok (gpr_time_from_seconds ?x GPR_TIMESPAN)" "clock_type (gpr_time_from_seconds ?x GPR_TIMESPAN) = GPR_TIMESPAN"
    "time_ns (gpr_time_from_seconds ?x GPR_TIMESPAN) = ?x * 1000000000"
    using n by (simp_all add: time_ok_def time_ns_def)
  have q: "TIME_MAX sdiv 60 = 153722867280912930" "TIME_MIN sdiv 60 = - 153722867280912930"
    "TIME_MAX sdiv 3600 = 2562047788015215" "TIME_MIN sdiv 3600 = - 2562047788015215"
    by (simp_all add: TIME_MAX_def TIME_MIN_def signed_divide_int_def)
  have "gpr_time_from_minutes ?x GPR_TIMESPAN = Some \<lparr> tv_sec = ?x * 60, tv_nsec = 0, clock_type = GPR_TIMESPAN \<rparr>"
    using assms by (simp add: gpr_time_from_minutes_def q c_signed_64)
  then show "\<exists>t. gpr_time_from_minutes ?x GPR_TIMESPAN = Some t \<and> time_ok t \<and> clock_type t = GPR_TIMESPAN \<and> time_ns t = ?x * 60000000000"
    using assms by (simp add: time_ok_def time_ns_def TIME_MIN_def TIME_MAX_def)
  have "gpr_time_from_hours ?x GPR_TIMESPAN = Some \<lparr> tv_sec = ?x * 3600, tv_nsec = 0, clock_type = GPR_TIMESPAN \<rparr>"
    using assms by (simp add: gpr_time_from_hours_def q c_signed_64)
  then show "\<exists>t. gpr_time_from_hours ?x GPR_TIMESPAN = Some t \<and> time_ok t \<and> clock_type t = GPR_TIMESPAN \<and> time_ns t = ?x * 3600000000000"
    using assms by (simp add: time_ok_def time_ns_def TIME_MIN_def TIME_MAX_def)
qed

lemma timeout_unit_simps:
  "timeout_unit x 110 = Option.bind (gpr_time_from_nanos (int (unat x)) GPR_TIMESPAN) (\<lambda>t. Some (Some t))"
  "timeout_unit x 117 = Option.bind (gpr_time_from_micros (int (unat x)) GPR_TIMESPAN) (\<lambda>t. Some (Some t))"
  "timeout_unit x 109 = Option.bind (gpr_time_from_millis (int (unat x)) GPR_TIMESPAN) (\<lambda>t. Some (Some t))"
  "timeout_unit x 83 = Some (Some (gpr_time_from_seconds (int (unat x)) GPR_TIMESPAN))"
  "timeout_unit x 77 = Option.bind (gpr_time_from_minutes (int (unat x)) GPR_TIMESPAN) (\<lambda>t. Some (Some t))"
  "timeout_unit x 72 = Option.bind (gpr_time_from_hours (int (unat x)) GPR_TIMESPAN) (\<lambda>t. Some (Some t))"
  by (simp_all add: timeout_unit_def)

lemma decode_ext:
  assumes "n < 4294967296" "u \<in> {CHR ''n'', CHR ''u'', CHR ''m'', CHR ''S'', CHR ''M'', CHR ''H''}"
  shows "\<exists>s t. enc_ext (int n) u = Some s \<and> grpc_chttp2_decode_timeout s = Some (Some t) \<and>
    time_ok t \<and> clock_type t = GPR_TIMESPAN \<and> time_ns t = int n * unit_ns u"
proof -
  let ?s = "decimal n @ [of_char u]"
  have ne: "decimal n \<noteq> []" by (subst decimal.simps) simp
  have "hd ?s \<noteq> 32" using ne decimal_digit[of n] by (cases "decimal n") (auto simp: word_le_nat_alt)
  then have sp: "dropWhile (\<lambda>c. c = 32) ?s = ?s" using ne by (cases "decimal n") auto
  have un: "\<not> (48 \<le> (of_char u :: u8) \<and> of_char u \<le> (57 :: u8))" "(of_char u :: u8) \<noteq> 32"
    using assms(2) by (auto simp: of_char_def)
  have d: "timeout_digits 0 ?s = Some (of_nat n, [of_char u])"
    using timeout_digits_decimal[OF assms(1), of "[of_char u]"] un(1) by simp
  have n: "uint (of_nat n :: u32) = int n"
    using assms(1) by (simp add: uint_nat unsigned_of_nat take_bit_nat_eq_self del: of_nat_unat)
  have "\<exists>t. timeout_unit (of_nat n) (of_char u) = Some (Some t) \<and> time_ok t \<and> clock_type t = GPR_TIMESPAN \<and>
      time_ns t = int n * unit_ns u"
    using assms(2) timeout_units[OF assms(1)]
    by (elim insertE emptyE) (auto simp: timeout_unit_simps unit_ns_def n)
  then obtain t where "timeout_unit (of_nat n) (of_char u) = Some (Some t)" "time_ok t"
    "clock_type t = GPR_TIMESPAN" "time_ns t = int n * unit_ns u" by blast
  moreover have "enc_ext (int n) u = Some ?s" by (simp add: enc_ext_def ltoa_decimal bytes_of_string_def)
  moreover have "grpc_chttp2_decode_timeout ?s = Some (Some t)"
    using sp d un(2) ne calculation(1) by (simp add: grpc_chttp2_decode_timeout_def)
  ultimately show ?thesis by blast
qed

section \<open>Rounding\<close>

lemma round_up_ok:
  assumes "0 \<le> x" "0 < d" "x + d \<le> 2147483647"
  obtains k where "round_up x d = Some (k * d)" "x \<le> k * d" "k * d < x + d"
proof -
  let ?k = "x div d + of_bool (x mod d \<noteq> 0)"
  have m: "x div d * d + x mod d = x" "0 \<le> x mod d" "x mod d < d" using assms(2) by simp_all
  have k: "?k * d = x div d * d + (if x mod d = 0 then 0 else d)" by (simp add: distrib_right)
  have b: "x \<le> ?k * d" "?k * d < x + d"
    unfolding k using assms(2)
    by (cases "x mod d = 0"; simp only: if_True if_False simp_thms; use m in linarith)+
  have "round_up x d = c_signed 32 (?k * d)"
    using assms(1,2) by (simp add: round_up_def sdiv_nonneg smod_nonneg)
  also have "\<dots> = Some (?k * d)" using b assms by (intro c_signed_32) linarith+
  finally show thesis using that[of ?k] b by simp
qed

text \<open>Three significant figures: at most one percent more, and a multiple of the last figure.\<close>

lemma three_sig_figs_ok:
  assumes "0 \<le> x" "x \<le> 1000000000"
  obtains y where "round_up_to_three_sig_figs x = Some y" "x \<le> y" "100 * y \<le> 101 * x" "y \<le> 1000000000"
    "100000 \<le> y \<Longrightarrow> y mod 1000 = 0" "100000000 \<le> y \<Longrightarrow> y mod 1000000 = 0"
proof (cases "x < 1000")
  case True
  with assms show thesis by (intro that[of x]) (simp_all add: round_up_to_three_sig_figs_def)
next
  case False
  define d where "d = (if x < 10000 then 10 else if x < 100000 then 100 else if x < 1000000 then 1000
     else if x < 10000000 then 10000 else if x < 100000000 then 100000 else if x < 1000000000 then 1000000 else 10000000 :: int)"
  have d: "0 < d" "x + d \<le> 2147483647" "100 * d \<le> x" using assms False by (auto simp: d_def)
  have r: "round_up_to_three_sig_figs x = round_up x d"
    using False by (simp add: round_up_to_three_sig_figs_def d_def)
  obtain k where k: "round_up x d = Some (k * d)" "x \<le> k * d" "k * d < x + d"
    by (rule round_up_ok[OF assms(1) d(1,2)])
  show thesis
  proof (rule that[of "k * d"])
    show "100 * (k * d) \<le> 101 * x" using k(3) d(3) by linarith
    show "k * d \<le> 1000000000" using k(3) assms(2) unfolding d_def by (simp split: if_splits)
    show "(k * d) mod 1000 = 0" if large: "100000 \<le> k * d"
    proof (cases "x < 100000")
      case True
      then have "d = 10 \<and> x < 10000 \<or> d = 100" using False by (auto simp: d_def)
      then have "k = 1000" using True large k(3) by auto
      then show ?thesis by simp
    next
      case False
      then have "1000 dvd d" by (simp add: d_def)
      then show ?thesis by simp
    qed
    show "(k * d) mod 1000000 = 0" if large: "100000000 \<le> k * d"
    proof (cases "x < 100000000")
      case True
      then have "d = 100000 \<or> d \<le> 10000 \<and> x < 10000000" using False by (auto simp: d_def)
      then have "k = 1000" using True large k(3) by auto
      then show ?thesis using \<open>d = 100000 \<or> _\<close> large k(3) by auto
    next
      case False
      then have "1000000 dvd d" by (simp add: d_def)
      then show ?thesis by simp
    qed
  qed (use k r in simp_all)
qed

section \<open>Round trip\<close>

text \<open>A string that decodes to a span of so many nanoseconds.\<close>

definition timeout_string :: "bytes \<Rightarrow> int \<Rightarrow> bool" where
  "timeout_string s ns \<longleftrightarrow>
     (\<exists>t. grpc_chttp2_decode_timeout s = Some (Some t) \<and> time_ok t \<and> clock_type t = GPR_TIMESPAN \<and> time_ns t = ns)"

lemma enc_ext_string:
  assumes "0 \<le> v" "v < 4294967296" "u \<in> {CHR ''n'', CHR ''u'', CHR ''m'', CHR ''S'', CHR ''M'', CHR ''H''}"
    "v * unit_ns u = ns"
  shows "\<exists>s. enc_ext v u = Some s \<and> timeout_string s ns"
  using decode_ext[of "nat v" u] assms by (auto simp: timeout_string_def)

lemma one_second_string: "timeout_string (bytes_of_string ''1S'') 1000000000"
proof -
  have "enc_ext (int 1) (CHR ''S'') = Some (bytes_of_string ''1S'')"
    by (simp add: enc_ext_def ltoa_decimal[of 1, simplified] decimal.simps bytes_of_string_def of_char_def)
  with decode_ext[of 1 "CHR ''S''"] show ?thesis by (auto simp: timeout_string_def unit_ns_def)
qed

lemma exact_multiple: "y mod k = 0 \<Longrightarrow> y sdiv k * k = y" if "0 \<le> y" "0 < k" for y k :: int
  using that by (simp add: sdiv_nonneg) (metis add.right_neutral div_mult_mod_eq)

lemma enc_nanos_string:
  assumes "0 \<le> x" "x < 1000000000"
  shows "\<exists>s y. enc_nanos x = Some s \<and> timeout_string s y \<and> x \<le> y \<and> 100 * y \<le> 101 * x"
proof -
  obtain y where y: "round_up_to_three_sig_figs x = Some y" "x \<le> y" "100 * y \<le> 101 * x" "y \<le> 1000000000"
    "100000 \<le> y \<Longrightarrow> y mod 1000 = 0" "100000000 \<le> y \<Longrightarrow> y mod 1000000 = 0"
    using three_sig_figs_ok[of x] assms by auto
  have pos: "0 \<le> y" using y(2) assms(1) by simp
  have mult: "y sdiv k * k = y" "0 \<le> y sdiv k" "y sdiv k < 4294967296" if "y mod k = 0" "0 < k" for k
  proof -
    show "y sdiv k * k = y" using exact_multiple[OF pos that(2,1)] .
    show p: "0 \<le> y sdiv k" using pos that(2) by (simp add: sdiv_nonneg pos_imp_zdiv_nonneg_iff)
    have "y sdiv k * 1 \<le> y sdiv k * k" using that(2) p by (intro mult_left_mono) simp_all
    then show "y sdiv k < 4294967296" using exact_multiple[OF pos that(2,1)] y(4) by simp
  qed
  note ext = enc_ext_string[where ns = y]
  have "\<exists>s. enc_nanos x = Some s \<and> timeout_string s y"
  proof (cases "y < 100000")
    case True
    show ?thesis
    proof (cases "y mod 1000 = 0")
      case m: True
      from ext[of "y sdiv 1000" "CHR ''u''"] mult[OF m] True m pos y(1) show ?thesis
        by (simp add: enc_nanos_def smod_nonneg unit_ns_def)
    next
      case m: False
      from ext[of y "CHR ''n''"] True m pos y(1) show ?thesis by (simp add: enc_nanos_def smod_nonneg unit_ns_def)
    qed
  next
    case large: False
    then have m: "y mod 1000 = 0" using y(5) by simp
    show ?thesis
    proof (cases "y mod 1000000 = 0")
      case m6: True
      from ext[of "y sdiv 1000000" "CHR ''m''"] mult[OF m6] large m6 pos y(1,4) one_second_string show ?thesis
        by (cases "y = 1000000000") (auto simp: enc_nanos_def smod_nonneg unit_ns_def)
    next
      case m6: False
      then have "y < 100000000" using y(6) by fastforce
      with ext[of "y sdiv 1000" "CHR ''u''"] mult[OF m] large m6 pos y(1) show ?thesis
        by (auto simp: enc_nanos_def smod_nonneg unit_ns_def)
    qed
  qed
  with y(2,3) show ?thesis by blast
qed

lemma enc_micros_string:
  assumes "0 \<le> x" "x \<le> 1000000000"
  shows "\<exists>s y. enc_micros x = Some s \<and> timeout_string s (y * 1000) \<and> x \<le> y \<and> 100 * y \<le> 101 * x"
proof -
  obtain y where y: "round_up_to_three_sig_figs x = Some y" "x \<le> y" "100 * y \<le> 101 * x" "y \<le> 1000000000"
    "100000 \<le> y \<Longrightarrow> y mod 1000 = 0" "100000000 \<le> y \<Longrightarrow> y mod 1000000 = 0"
    using three_sig_figs_ok[OF assms] by auto
  have pos: "0 \<le> y" using y(2) assms(1) by simp
  have mult: "y sdiv k * (k * 1000) = y * 1000" "0 \<le> y sdiv k" "y sdiv k < 4294967296" if "y mod k = 0" "0 < k" for k
  proof -
    show "y sdiv k * (k * 1000) = y * 1000" using exact_multiple[OF pos that(2,1)] by (simp flip: mult.assoc)
    show p: "0 \<le> y sdiv k" using pos that(2) by (simp add: sdiv_nonneg pos_imp_zdiv_nonneg_iff)
    have "y sdiv k * 1 \<le> y sdiv k * k" using that(2) p by (intro mult_left_mono) simp_all
    then show "y sdiv k < 4294967296" using exact_multiple[OF pos that(2,1)] y(4) by simp
  qed
  note ext = enc_ext_string[where ns = "y * 1000"]
  have "\<exists>s. enc_micros x = Some s \<and> timeout_string s (y * 1000)"
  proof (cases "y < 100000")
    case True
    show ?thesis
    proof (cases "y mod 1000 = 0")
      case m: True
      from ext[of "y sdiv 1000" "CHR ''m''"] mult[OF m] True m pos y(1) show ?thesis
        by (simp add: enc_micros_def smod_nonneg unit_ns_def)
    next
      case m: False
      from ext[of y "CHR ''u''"] True m pos y(1) show ?thesis by (simp add: enc_micros_def smod_nonneg unit_ns_def)
    qed
  next
    case large: False
    then have m: "y mod 1000 = 0" using y(5) by simp
    show ?thesis
    proof (cases "y mod 1000000 = 0")
      case m6: True
      from ext[of "y sdiv 1000000" "CHR ''S''"] mult[OF m6] large m6 pos y(1,4) show ?thesis
        by (auto simp: enc_micros_def smod_nonneg unit_ns_def)
    next
      case m6: False
      then have "y < 100000000" using y(6) by fastforce
      with ext[of "y sdiv 1000" "CHR ''m''"] mult[OF m] large m6 pos y(1) show ?thesis
        by (auto simp: enc_micros_def smod_nonneg unit_ns_def)
    qed
  qed
  with y(2,3) show ?thesis by blast
qed

lemma enc_seconds_string:
  assumes "0 < sec" "sec < 4294967296"
  shows "\<exists>s. enc_seconds sec = Some s \<and> timeout_string s (sec * 1000000000)"
proof -
  have mult: "sec sdiv k * (k * 1000000000) = sec * 1000000000" "0 \<le> sec sdiv k" "sec sdiv k < 4294967296"
    if "sec mod k = 0" "0 < k" for k
  proof -
    have e: "sec sdiv k * k = sec" using exact_multiple[OF less_imp_le[OF assms(1)] that(2,1)] .
    show "sec sdiv k * (k * 1000000000) = sec * 1000000000" by (simp add: e flip: mult.assoc)
    show p: "0 \<le> sec sdiv k" using assms(1) that(2) by (simp add: sdiv_nonneg pos_imp_zdiv_nonneg_iff)
    have "sec sdiv k * 1 \<le> sec sdiv k * k" using that(2) p by (intro mult_left_mono) simp_all
    then show "sec sdiv k < 4294967296" using e assms(2) by simp
  qed
  note ext = enc_ext_string[where ns = "sec * 1000000000"]
  consider (hours) "sec mod 3600 = 0" | (minutes) "sec mod 3600 \<noteq> 0" "sec mod 60 = 0"
    | (seconds) "sec mod 3600 \<noteq> 0" "sec mod 60 \<noteq> 0" by blast
  then show ?thesis
  proof cases
    case hours
    with ext[of "sec sdiv 3600" "CHR ''H''"] mult[OF hours] assms show ?thesis
      by (simp add: enc_seconds_def smod_nonneg unit_ns_def)
  next
    case minutes
    with ext[of "sec sdiv 60" "CHR ''M''"] mult[OF minutes(2)] assms show ?thesis
      by (simp add: enc_seconds_def smod_nonneg unit_ns_def)
  next
    case seconds
    with ext[of sec "CHR ''S''"] assms show ?thesis by (simp add: enc_seconds_def smod_nonneg unit_ns_def)
  qed
qed

text \<open>
  C36. A deadline of at most 2^32 - 2 seconds survives the trip to the peer: the encoder
  prints it, the decoder accepts what was printed, and the timeout it returns is a time
  span that is never shorter than the one sent and at most two percent longer.
\<close>

theorem timeout_roundtrip:
  assumes "time_ok t" "0 \<le> tv_sec t" "tv_sec t < 4294967295"
  shows "\<exists>s t'. grpc_chttp2_encode_timeout t = Some s \<and> grpc_chttp2_decode_timeout s = Some (Some t') \<and>
    clock_type t' = GPR_TIMESPAN \<and> time_ns t \<le> time_ns t' \<and> 50 * time_ns t' \<le> 51 * time_ns t"
proof -
  have ns: "0 \<le> tv_nsec t" "tv_nsec t < 1000000000" using assms(1) by (simp_all add: time_ok_def)
  have s64: "c_signed 64 (tv_sec t + of_bool (tv_nsec t \<noteq> 0)) = Some (tv_sec t + of_bool (tv_nsec t \<noteq> 0))"
    using assms by (intro c_signed_64) auto
  have "\<exists>s y. grpc_chttp2_encode_timeout t = Some s \<and> timeout_string s y \<and> time_ns t \<le> y \<and> 50 * y \<le> 51 * time_ns t"
  proof (cases "tv_sec t = 0")
    case True
    then obtain s y where "enc_nanos (tv_nsec t) = Some s" "timeout_string s y" "tv_nsec t \<le> y" "100 * y \<le> 101 * tv_nsec t"
      using enc_nanos_string[OF ns] by blast
    with True ns show ?thesis
      by (intro exI[of _ s] exI[of _ y]) (simp add: grpc_chttp2_encode_timeout_def time_ns_def)
  next
    case sec: False
    show ?thesis
    proof (cases "tv_sec t < 1000 \<and> tv_nsec t \<noteq> 0")
      case True
      define r where "r = tv_nsec t div 1000 + of_bool (tv_nsec t mod 1000 \<noteq> 0)"
      let ?x = "tv_sec t * 1000000 + r"
      have "1 \<le> tv_sec t" using sec assms(2) by simp
      have r: "0 \<le> r" "r \<le> 1000000" "tv_nsec t \<le> r * 1000" "r * 1000 < tv_nsec t + 1000"
      proof -
        define q m where "q = tv_nsec t div 1000" and "m = tv_nsec t mod 1000"
        have "tv_nsec t = q * 1000 + m" "0 \<le> m" "m < 1000" "r = q + of_bool (m \<noteq> 0)"
          by (simp_all add: q_def m_def r_def)
        with ns show "0 \<le> r" "r \<le> 1000000" "tv_nsec t \<le> r * 1000" "r * 1000 < tv_nsec t + 1000"
          by (cases "m = 0"; simp)+
      qed
      have x: "0 \<le> ?x" "?x \<le> 1000000000" using r True assms(2) by linarith+
      then have c: "c_signed 32 ?x = Some ?x" by (intro c_signed_32) auto
      obtain s y where y: "enc_micros ?x = Some s" "timeout_string s (y * 1000)" "?x \<le> y" "100 * y \<le> 101 * ?x"
        using enc_micros_string[OF x] by blast
      have "grpc_chttp2_encode_timeout t = Some s"
        using True sec assms(2) ns y(1) c by (simp add: grpc_chttp2_encode_timeout_def sdiv_nonneg smod_nonneg r_def)
      moreover have "time_ns t \<le> y * 1000" using y(3) r unfolding time_ns_def by linarith
      moreover have "50 * (y * 1000) \<le> 51 * time_ns t"
      proof -
        have "50 * (y * 1000) \<le> 50500 * (tv_sec t * 1000000 + r)" using y(4) by linarith
        also have "\<dots> \<le> 50500000000 * tv_sec t + 50500 * r" by simp
        finally have "50 * (y * 1000) \<le> 50500000000 * tv_sec t + 51000 * r" using r(1) by simp
        moreover have "51000 * r \<le> 51 * tv_nsec t + 51000" using r(4) by simp
        ultimately show ?thesis using \<open>1 \<le> tv_sec t\<close> unfolding time_ns_def by simp
      qed
      ultimately show ?thesis using y(2) by blast
    next
      case False
      let ?s = "tv_sec t + of_bool (tv_nsec t \<noteq> 0)"
      obtain s where s: "enc_seconds ?s = Some s" "timeout_string s (?s * 1000000000)"
        using enc_seconds_string[of ?s] sec assms by (cases "tv_nsec t = 0") auto
      have "grpc_chttp2_encode_timeout t = Some s"
        using False sec assms(2) s(1) s64 by (auto simp: grpc_chttp2_encode_timeout_def)
      moreover have "time_ns t \<le> ?s * 1000000000 \<and> 50 * (?s * 1000000000) \<le> 51 * time_ns t"
        using False ns sec assms(2) by (cases "tv_nsec t = 0") (simp_all add: time_ns_def)
      ultimately show ?thesis using s(2) by blast
    qed
  qed
  then show ?thesis by (auto simp: timeout_string_def)
qed

theorem timeout_roundtrip_witness:
  "\<exists>s t'. grpc_chttp2_encode_timeout \<lparr> tv_sec = 7, tv_nsec = 123456789, clock_type = GPR_TIMESPAN \<rparr> = Some s \<and>
     grpc_chttp2_decode_timeout s = Some (Some t') \<and> clock_type t' = GPR_TIMESPAN \<and>
     7123456789 \<le> time_ns t' \<and> 50 * time_ns t' \<le> 51 * 7123456789"
  using timeout_roundtrip[of "\<lparr> tv_sec = 7, tv_nsec = 123456789, clock_type = GPR_TIMESPAN \<rparr>"]
  by (simp add: time_simps)

section \<open>Large timeouts\<close>

text \<open>
  C38. The decoder's check for overflow compares the new value only with the old one, so
  it misses a sum that wraps around to something larger. A deadline of ten billion and one seconds
  is encoded exactly, but the decoder reads back about a seventh of it, so the call
  expires early.
\<close>

theorem timeout_overflow_shortens:
  "grpc_chttp2_encode_timeout \<lparr> tv_sec = 10000000001, tv_nsec = 0, clock_type = GPR_TIMESPAN \<rparr> =
     Some (bytes_of_string ''10000000001S'') \<and>
   grpc_chttp2_decode_timeout (bytes_of_string ''10000000001S'') =
     Some (Some \<lparr> tv_sec = 1410065409, tv_nsec = 0, clock_type = GPR_TIMESPAN \<rparr>)"
proof
  have "enc_ext (int 10000000001) (CHR ''S'') = Some (bytes_of_string ''10000000001S'')"
    by (simp add: enc_ext_def ltoa_decimal[of 10000000001, simplified] decimal.simps bytes_of_string_def of_char_def)
  then show "grpc_chttp2_encode_timeout \<lparr> tv_sec = 10000000001, tv_nsec = 0, clock_type = GPR_TIMESPAN \<rparr> =
     Some (bytes_of_string ''10000000001S'')"
    by (simp add: grpc_chttp2_encode_timeout_def enc_seconds_def smod_nonneg c_signed_64)
  show "grpc_chttp2_decode_timeout (bytes_of_string ''10000000001S'') =
     Some (Some \<lparr> tv_sec = 1410065409, tv_nsec = 0, clock_type = GPR_TIMESPAN \<rparr>)"
    by (simp add: grpc_chttp2_decode_timeout_def bytes_of_string_def of_char_def timeout_unit_def
        gpr_time_from_seconds_def TIME_MAX_def TIME_MIN_def)
qed

section \<open>The deadline of a request\<close>

text \<open>
  What \<^verbatim>\<open>on_header\<close> of \<^verbatim>\<open>parsing.c\<close> does with the value of a grpc-timeout header: a value
  that does not decode is replaced by an infinite time of the real-time clock. The
  element's cache holds the result of an earlier parse; \<^verbatim>\<open>now\<close> is the monotonic clock.
\<close>

definition on_header_timeout ::
  "gpr_timespec \<Rightarrow> gpr_timespec option \<Rightarrow> bytes \<Rightarrow> (gpr_timespec \<times> gpr_timespec) option" where
  "on_header_timeout now cached value =
     do {
       t \<leftarrow> (case cached of
              Some t \<Rightarrow> Some t
            | None \<Rightarrow> do {
                r \<leftarrow> grpc_chttp2_decode_timeout value;
                Some (case r of Some t \<Rightarrow> t | None \<Rightarrow> gpr_inf_future GPR_CLOCK_REALTIME)
              });
       deadline \<leftarrow> gpr_time_add now t;
       Some (deadline, t)
     }"

text \<open>
  C37. A peer can stop the process with one header: when the value of grpc-timeout does not
  decode, or its digits trip the check for overflow, the deadline is the sum of the current
  time and an infinite time of the real-time clock, and the addition asserts that its second
  argument is a time span.
\<close>

theorem bad_timeout_aborts:
  assumes "grpc_chttp2_decode_timeout value = Some None \<or>
    timeout_digits 0 (dropWhile (\<lambda>c. c = 32) value) = None"
  shows "on_header_timeout now None value = None"
proof -
  have "grpc_chttp2_decode_timeout value \<in> {Some None, Some (Some (gpr_inf_future GPR_CLOCK_REALTIME))}"
    using assms by (auto simp: grpc_chttp2_decode_timeout_def Let_def)
  moreover have "gpr_time_add now (gpr_inf_future GPR_CLOCK_REALTIME) = None"
    by (simp add: gpr_time_add_def gpr_inf_future_def)
  ultimately show ?thesis by (auto simp: on_header_timeout_def)
qed

theorem bad_timeout_aborts_witness:
  "on_header_timeout (gpr_time_0 GPR_CLOCK_MONOTONIC) None (bytes_of_string ''soon'') = None \<and>
   on_header_timeout (gpr_time_0 GPR_CLOCK_MONOTONIC) None (bytes_of_string ''4294967296S'') = None"
  using bad_timeout_aborts[of "bytes_of_string ''soon''" "gpr_time_0 GPR_CLOCK_MONOTONIC"]
    bad_timeout_aborts[of "bytes_of_string ''4294967296S''" "gpr_time_0 GPR_CLOCK_MONOTONIC"]
  by (simp add: grpc_chttp2_decode_timeout_def bytes_of_string_def of_char_def)

end
