(* ===== verification/Stream_Framer.thy ===== *)
theory Stream_Framer
  imports Gpr_Slice
begin

text \<open>
  The framing half of \<^verbatim>\<open>src/core/transport/chttp2/stream_encoder.c\<close>: the header of a
  frame is reserved when the frame begins and filled in when it ends, and a header block
  that does not fit into one frame goes on in continuation frames.
\<close>

section \<open>State and operations\<close>

definition GRPC_CHTTP2_FRAME_DATA :: u8 where "GRPC_CHTTP2_FRAME_DATA = 0"
definition GRPC_CHTTP2_FRAME_HEADER :: u8 where "GRPC_CHTTP2_FRAME_HEADER = 1"
definition GRPC_CHTTP2_FRAME_CONTINUATION :: u8 where "GRPC_CHTTP2_FRAME_CONTINUATION = 9"
definition GRPC_CHTTP2_MAX_PAYLOAD_LENGTH :: nat where "GRPC_CHTTP2_MAX_PAYLOAD_LENGTH = 16383"
definition GRPC_CHTTP2_DATA_FLAG_END_STREAM :: u8 where "GRPC_CHTTP2_DATA_FLAG_END_STREAM = 1"
definition GRPC_CHTTP2_DATA_FLAG_END_HEADERS :: u8 where "GRPC_CHTTP2_DATA_FLAG_END_HEADERS = 4"

lemmas frame_constants [simp] = GRPC_CHTTP2_FRAME_DATA_def GRPC_CHTTP2_FRAME_HEADER_def
  GRPC_CHTTP2_FRAME_CONTINUATION_def GRPC_CHTTP2_MAX_PAYLOAD_LENGTH_def
  GRPC_CHTTP2_DATA_FLAG_END_STREAM_def GRPC_CHTTP2_DATA_FLAG_END_HEADERS_def

datatype frame_type = HEADER | DATA | NONE

record framer_state =
  cur_frame_type :: frame_type
  output_length_at_start_of_frame :: nat
  header_idx :: nat
  last_was_header :: bool
  seen_regular_header :: bool
  stream_id :: u32
  framer_output :: gpr_slice_buffer

definition fill_header :: "u8 \<Rightarrow> u32 \<Rightarrow> u32 \<Rightarrow> u8 \<Rightarrow> bytes" where
  "fill_header typ sid len flags =
     [ucast (drop_bit 16 len), ucast (drop_bit 8 len), ucast len, typ, flags,
      ucast (drop_bit 24 sid), ucast (drop_bit 16 sid), ucast (drop_bit 8 sid), ucast sid]"

definition finish_frame :: "framer_state \<Rightarrow> bool \<Rightarrow> bool \<Rightarrow> framer_state option" where
  "finish_frame st is_header_boundary is_last_in_stream =
     (case cur_frame_type st of
        NONE \<Rightarrow> Some st
      | t \<Rightarrow>
          (let typ = (case t of
                 HEADER \<Rightarrow> if last_was_header st then GRPC_CHTTP2_FRAME_CONTINUATION else GRPC_CHTTP2_FRAME_HEADER
               | _ \<Rightarrow> GRPC_CHTTP2_FRAME_DATA);
               boundary = (is_header_boundary \<and> t = HEADER);
               len = word_of_nat (buffer_length (framer_output st) - output_length_at_start_of_frame st);
               flags = (if is_last_in_stream then GRPC_CHTTP2_DATA_FLAG_END_STREAM else 0) OR
                       (if boundary then GRPC_CHTTP2_DATA_FLAG_END_HEADERS else 0) in
           do {
             output \<leftarrow> slice_write (framer_output st) (header_idx st) 0 (fill_header typ (stream_id st) len flags);
             Some (st\<lparr>last_was_header := (t = HEADER), framer_output := output, cur_frame_type := NONE\<rparr>)
           }))"

text \<open>The nine bytes reserved for the header are what the memory held, here zeros.\<close>

definition begin_frame :: "framer_state \<Rightarrow> frame_type \<Rightarrow> framer_state option" where
  "begin_frame st typ =
     do {
       gpr_assert (typ \<noteq> NONE);
       gpr_assert (cur_frame_type st = NONE);
       (output, i) \<leftarrow> gpr_slice_buffer_add_indexed (framer_output st) (gpr_slice_malloc (replicate 9 0));
       Some (st\<lparr>cur_frame_type := typ, header_idx := i, framer_output := output,
                output_length_at_start_of_frame := buffer_length output\<rparr>)
     }"

definition begin_new_frame :: "framer_state \<Rightarrow> frame_type \<Rightarrow> framer_state option" where
  "begin_new_frame st typ =
     do {
       st \<leftarrow> finish_frame st True False;
       begin_frame (st\<lparr>last_was_header := False\<rparr>) typ
     }"

definition ensure_frame_type :: "framer_state \<Rightarrow> frame_type \<Rightarrow> nat \<Rightarrow> framer_state option" where
  "ensure_frame_type st typ need_bytes =
     (if cur_frame_type st = typ \<and>
         buffer_length (framer_output st) - output_length_at_start_of_frame st + need_bytes \<le> GRPC_CHTTP2_MAX_PAYLOAD_LENGTH
      then Some st
      else do {
        st \<leftarrow> finish_frame st (typ \<noteq> HEADER) False;
        begin_frame st typ
      })"

text \<open>The room left in a frame, after \<^const>\<open>ensure_frame_type\<close> at least one byte.\<close>

definition frame_remaining :: "framer_state \<Rightarrow> nat" where
  "frame_remaining st =
     GRPC_CHTTP2_MAX_PAYLOAD_LENGTH + output_length_at_start_of_frame st - buffer_length (framer_output st)"

partial_function (option) add_header_data :: "framer_state \<Rightarrow> gpr_slice \<Rightarrow> framer_state option" where
  "add_header_data st sl =
     (if GPR_SLICE_LENGTH sl = 0 then Some st
      else do {
        st \<leftarrow> ensure_frame_type st HEADER 1;
        (if GPR_SLICE_LENGTH sl \<le> frame_remaining st
         then do {
           output \<leftarrow> gpr_slice_buffer_add (framer_output st) sl;
           Some (st\<lparr>framer_output := output\<rparr>)
         }
         else do {
           (sl, first) \<leftarrow> gpr_slice_split_head sl (frame_remaining st);
           output \<leftarrow> gpr_slice_buffer_add (framer_output st) first;
           add_header_data (st\<lparr>framer_output := output\<rparr>) sl
         })
      })"

text \<open>The result is the place of the new bytes, a slice and an offset in it.\<close>

definition add_tiny_header_data :: "framer_state \<Rightarrow> nat \<Rightarrow> (framer_state \<times> nat \<times> nat) option" where
  "add_tiny_header_data st len =
     do {
       st \<leftarrow> ensure_frame_type st HEADER len;
       (output, i, off) \<leftarrow> gpr_slice_buffer_tiny_add (framer_output st) len;
       Some (st\<lparr>framer_output := output\<rparr>, i, off)
     }"

definition grpc_chttp2_data_frame_create_empty_close :: "u32 \<Rightarrow> gpr_slice" where
  "grpc_chttp2_data_frame_create_empty_close sid = gpr_slice_malloc (fill_header GRPC_CHTTP2_FRAME_DATA sid 0 1)"

section \<open>Frames\<close>

text \<open>A frame as HTTP/2 has it, and its bytes on the wire.\<close>

datatype http2_frame = Frame (wire_type: u8) (wire_flags: u8) (wire_payload: bytes)

definition frame_bytes :: "u32 \<Rightarrow> http2_frame \<Rightarrow> bytes" where
  "frame_bytes sid f =
     fill_header (wire_type f) sid (word_of_nat (length (wire_payload f))) (wire_flags f) @ wire_payload f"

definition frames_bytes :: "u32 \<Rightarrow> http2_frame list \<Rightarrow> bytes" where
  "frames_bytes sid fs = concat (map (frame_bytes sid) fs)"

definition frames_payload :: "http2_frame list \<Rightarrow> bytes" where
  "frames_payload fs = concat (map wire_payload fs)"

lemma frames_simps [simp]:
  "frames_bytes sid [] = []" "frames_bytes sid (f # fs) = frame_bytes sid f @ frames_bytes sid fs"
  "frames_bytes sid (fs @ gs) = frames_bytes sid fs @ frames_bytes sid gs"
  "frames_payload [] = []" "frames_payload (f # fs) = wire_payload f @ frames_payload fs"
  "frames_payload (fs @ gs) = frames_payload fs @ frames_payload gs"
  by (simp_all add: frames_bytes_def frames_payload_def)

lemma length_fill_header [simp]: "length (fill_header t sid n f) = 9"
  by (simp add: fill_header_def)

section \<open>The frame that is being written\<close>

text \<open>
  The output holds the bytes of the finished part, then nine bytes for the header of the
  current frame, then its payload.
\<close>

definition frame_open :: "framer_state \<Rightarrow> bytes \<Rightarrow> bytes \<Rightarrow> bool" where
  "frame_open st prev payload \<longleftrightarrow>
     cur_frame_type st \<noteq> NONE \<and> slice_buffer_ok (framer_output st) \<and>
     (\<exists>h. length h = 9 \<and> buffer_bytes (framer_output st) = prev @ h @ payload \<and>
        (\<exists>zs. header_idx st < slice_count (framer_output st) \<and>
          slice_bytes (slices (framer_output st) ! header_idx st) = h @ zs) \<and>
        slices_bytes (take (header_idx st) (slices (framer_output st))) = prev) \<and>
     output_length_at_start_of_frame st = length prev + 9 \<and> length payload \<le> 16383"

definition frame_closed :: "framer_state \<Rightarrow> bytes \<Rightarrow> bool" where
  "frame_closed st prev \<longleftrightarrow>
     cur_frame_type st = NONE \<and> slice_buffer_ok (framer_output st) \<and> buffer_bytes (framer_output st) = prev"

lemma frame_open_length:
  assumes "frame_open st prev payload"
  shows "buffer_length (framer_output st) - output_length_at_start_of_frame st = length payload"
    "frame_remaining st = 16383 - length payload"
  using assms by (auto simp: frame_open_def slice_buffer_ok_def frame_remaining_def)

lemma frame_open_added:
  assumes "frame_open st prev payload" "buffer_added (framer_output st) bs sb" "length payload + length bs \<le> 16383"
  shows "frame_open (st\<lparr>framer_output := sb\<rparr>) prev (payload @ bs)"
proof -
  let ?ss = "slices (framer_output st)"
  obtain h zs where h: "length h = 9" "buffer_bytes (framer_output st) = prev @ h @ payload"
    "header_idx st < length ?ss" "slice_bytes (?ss ! header_idx st) = h @ zs"
    "slices_bytes (take (header_idx st) ?ss) = prev"
    using assms(1) by (auto simp: frame_open_def)
  have g: "slices_grow ?ss (slices sb)" using assms(2) by (simp add: buffer_added_def)
  from slices_grow_nth(3)[OF g h(3)] obtain ys where "slice_bytes (slices sb ! header_idx st) = h @ zs @ ys"
    using h(4) by auto
  with h slices_grow_nth(1,2)[OF g h(3)] assms show ?thesis
    by (auto simp: frame_open_def buffer_added_def)
qed

lemma frame_open_unique:
  assumes "frame_open st prev payload" "frame_open st prev' payload'"
  shows "prev' = prev" "payload' = payload"
  using assms by (auto simp: frame_open_def)

section \<open>Beginning and ending frames\<close>

lemma begin_frame_ok:
  assumes "frame_closed st prev" "typ \<noteq> NONE"
  shows "\<exists>st'. begin_frame st typ = Some st' \<and> frame_open st' prev [] \<and> cur_frame_type st' = typ \<and>
    last_was_header st' = last_was_header st \<and> stream_id st' = stream_id st \<and>
    seen_regular_header st' = seen_regular_header st"
proof -
  let ?z = "gpr_slice_malloc (replicate 9 0)"
  have z: "slice_ok ?z" "slice_bytes ?z = replicate 9 0" by (simp_all add: gpr_slice_malloc_def)
  have ok: "slice_buffer_ok (framer_output st)" using assms(1) by (simp add: frame_closed_def)
  from buffer_add_indexed_ok[OF ok z(1)] obtain sb where
    sb: "gpr_slice_buffer_add_indexed (framer_output st) ?z = Some (sb, slice_count (framer_output st))"
    "buffer_added (framer_output st) (slice_bytes ?z) sb" "slices sb = slices (framer_output st) @ [?z]" by blast
  have "buffer_length sb = length prev + 9"
    using buffer_added_length[OF sb(2) ok] ok assms(1) by (simp add: frame_closed_def slice_buffer_ok_def z(2))
  with sb z assms show ?thesis
    by (auto simp: begin_frame_def frame_open_def frame_closed_def buffer_added_def buffer_bytes_def)
qed

text \<open>The frame that finishing the current frame writes.\<close>

definition finished_frame :: "framer_state \<Rightarrow> bool \<Rightarrow> bool \<Rightarrow> bytes \<Rightarrow> http2_frame" where
  "finished_frame st boundary eof payload =
     Frame (if cur_frame_type st = HEADER then (if last_was_header st then 9 else 1) else 0)
       ((if eof then 1 else 0) OR (if boundary \<and> cur_frame_type st = HEADER then 4 else 0)) payload"

lemma slice_bytes_split:
  "i < length ss \<Longrightarrow> slices_bytes ss = slices_bytes (take i ss) @ slice_bytes (ss ! i) @ slices_bytes (drop (Suc i) ss)"
  by (simp add: id_take_nth_drop[of i ss, symmetric] flip: slices_bytes_simps)

lemma slice_write_ok:
  assumes "slice_buffer_ok sb" "i < slice_count sb" "slice_bytes (slices sb ! i) = h @ zs" "length h = length bs"
  shows "\<exists>sb1. slice_write sb i 0 bs = Some sb1 \<and> slice_buffer_ok sb1 \<and>
    buffer_bytes sb1 = slices_bytes (take i (slices sb)) @ bs @ zs @ slices_bytes (drop (Suc i) (slices sb))"
proof -
  let ?s = "slices sb ! i"
  define s where "s = (if slice_refcount ?s then Refcounted (bs @ zs) else Inlined (bs @ zs))"
  define sb1 where "sb1 = sb\<lparr>slices := (slices sb)[i := s]\<rparr>"
  have s: "slice_bytes s = bs @ zs" by (simp add: s_def)
  have ok: "slice_ok ?s" using assms(1,2) by (auto simp: slice_buffer_ok_def)
  then have "slice_ok s" using assms(3,4) by (auto simp: s_def slice_ok_def)
  have "slice_write sb i 0 bs = Some sb1"
    using assms(2-4) by (simp add: slice_write_def GPR_SLICE_LENGTH_def s_def sb1_def Let_def)
  moreover have b: "buffer_bytes sb1 = slices_bytes (take i (slices sb)) @ bs @ zs @ slices_bytes (drop (Suc i) (slices sb))"
    using slice_bytes_split[of i "slices sb1"] assms(2) s by (simp add: buffer_bytes_def sb1_def)
  moreover have "length (buffer_bytes sb1) = length (buffer_bytes sb)"
    unfolding b using arg_cong[OF slice_bytes_split[OF assms(2)], of length] assms(3,4) by (simp add: buffer_bytes_def)
  then have "slice_buffer_ok sb1"
    using assms(1) \<open>slice_ok s\<close> set_update_subset_insert[of "slices sb" i s]
    by (auto simp: slice_buffer_ok_def sb1_def)
  ultimately show ?thesis by blast
qed

lemma finish_frame_ok:
  assumes "frame_open st prev payload"
  shows "\<exists>st'. finish_frame st boundary eof = Some st' \<and>
    frame_closed st' (prev @ frame_bytes (stream_id st) (finished_frame st boundary eof payload)) \<and>
    last_was_header st' = (cur_frame_type st = HEADER) \<and> stream_id st' = stream_id st \<and>
    seen_regular_header st' = seen_regular_header st"
proof -
  let ?sb = "framer_output st"
  obtain h zs where h: "length h = 9" "buffer_bytes ?sb = prev @ h @ payload"
    "header_idx st < slice_count ?sb" "slice_bytes (slices ?sb ! header_idx st) = h @ zs"
    "slices_bytes (take (header_idx st) (slices ?sb)) = prev" and ok: "slice_buffer_ok ?sb" "cur_frame_type st \<noteq> NONE"
    using assms by (auto simp: frame_open_def)
  define f where "f = finished_frame st boundary eof payload"
  let ?h = "fill_header (wire_type f) (stream_id st) (word_of_nat (length payload)) (wire_flags f)"
  obtain sb1 where sb1: "slice_write ?sb (header_idx st) 0 ?h = Some sb1" "slice_buffer_ok sb1"
    "buffer_bytes sb1 = prev @ ?h @ zs @ slices_bytes (drop (Suc (header_idx st)) (slices ?sb))"
    using slice_write_ok[OF ok(1) h(3,4), of ?h] h(1,5) by auto
  have "zs @ slices_bytes (drop (Suc (header_idx st)) (slices ?sb)) = payload"
    using slice_bytes_split[OF h(3)] h(1,2,4,5) by (simp add: buffer_bytes_def)
  then have b: "buffer_bytes sb1 = prev @ frame_bytes (stream_id st) f"
    using sb1(3) by (simp add: frame_bytes_def f_def finished_frame_def)
  have "finish_frame st boundary eof =
      Some (st\<lparr>last_was_header := (cur_frame_type st = HEADER), framer_output := sb1, cur_frame_type := NONE\<rparr>)"
    using sb1(1) ok(2) frame_open_length(1)[OF assms]
    by (cases "cur_frame_type st"; cases boundary; cases eof; cases "last_was_header st")
      (simp_all add: finish_frame_def f_def finished_frame_def)
  with b sb1(2) show ?thesis by (simp add: frame_closed_def f_def)
qed

section \<open>A header block\<close>

text \<open>Frames of a header block that is not complete.\<close>

fun header_frames :: "bool \<Rightarrow> http2_frame list \<Rightarrow> bool" where
  "header_frames cont [] = True"
| "header_frames cont (f # fs) \<longleftrightarrow>
     wire_type f = (if cont then 9 else 1) \<and> wire_flags f = 0 \<and> length (wire_payload f) \<le> 16383 \<and> header_frames True fs"

lemma header_frames_append:
  "header_frames c (fs @ gs) \<longleftrightarrow> header_frames c fs \<and> header_frames (c \<or> fs \<noteq> []) gs"
  by (induction c fs rule: header_frames.induct) auto

text \<open>The header block has grown by \<open>bs\<close>, whatever the frames it is cut into.\<close>

definition block_grows :: "framer_state \<Rightarrow> bytes \<Rightarrow> framer_state \<Rightarrow> bool" where
  "block_grows st bs st' \<longleftrightarrow>
     stream_id st' = stream_id st \<and> seen_regular_header st' = seen_regular_header st \<and>
     (\<forall>prev payload. frame_open st prev payload \<and> cur_frame_type st = HEADER \<longrightarrow>
        (\<exists>fs rest. frame_open st' (prev @ frames_bytes (stream_id st) fs) rest \<and> cur_frame_type st' = HEADER \<and>
           frames_payload fs @ rest = payload @ bs \<and> header_frames (last_was_header st) fs \<and>
           last_was_header st' = (last_was_header st \<or> fs \<noteq> [])))"

lemma block_growsI:
  assumes "frame_open st prev payload" "frame_open st' (prev @ frames_bytes (stream_id st) fs) rest"
    "cur_frame_type st' = HEADER" "frames_payload fs @ rest = payload @ bs" "header_frames (last_was_header st) fs"
    "last_was_header st' = (last_was_header st \<or> fs \<noteq> [])" "stream_id st' = stream_id st"
    "seen_regular_header st' = seen_regular_header st"
  shows "block_grows st bs st'"
  using assms frame_open_unique[OF assms(1)] unfolding block_grows_def by metis

lemma block_grows_refl [simp]: "block_grows st [] st"
proof -
  have "\<exists>fs rest. frame_open st (prev @ frames_bytes (stream_id st) fs) rest \<and> cur_frame_type st = HEADER \<and>
      frames_payload fs @ rest = payload \<and> header_frames (last_was_header st) fs \<and>
      last_was_header st = (last_was_header st \<or> fs \<noteq> [])"
    if "frame_open st prev payload" "cur_frame_type st = HEADER" for prev payload
    using that by (intro exI[of _ "[]"] exI[of _ payload]) simp
  then show ?thesis by (simp add: block_grows_def)
qed

lemma block_grows_trans [trans]:
  assumes "block_grows st xs st1" "block_grows st1 ys st2"
  shows "block_grows st (xs @ ys) st2"
  unfolding block_grows_def
proof (intro conjI allI impI)
  fix prev payload
  assume "frame_open st prev payload \<and> cur_frame_type st = HEADER"
  with assms(1) obtain fs rest where fs: "frame_open st1 (prev @ frames_bytes (stream_id st) fs) rest"
    "cur_frame_type st1 = HEADER" "frames_payload fs @ rest = payload @ xs" "header_frames (last_was_header st) fs"
    "last_was_header st1 = (last_was_header st \<or> fs \<noteq> [])" unfolding block_grows_def by metis
  with assms(2) obtain gs rest' where gs: "frame_open st2 ((prev @ frames_bytes (stream_id st) fs) @ frames_bytes (stream_id st1) gs) rest'"
    "cur_frame_type st2 = HEADER" "frames_payload gs @ rest' = rest @ ys" "header_frames (last_was_header st1) gs"
    "last_was_header st2 = (last_was_header st1 \<or> gs \<noteq> [])" unfolding block_grows_def by metis
  have "stream_id st1 = stream_id st" using assms(1) by (simp add: block_grows_def)
  moreover have "frames_payload fs @ frames_payload gs @ rest' = payload @ xs @ ys"
    unfolding gs(3) using fs(3) by (metis append.assoc)
  ultimately show "\<exists>fs rest. frame_open st2 (prev @ frames_bytes (stream_id st) fs) rest \<and> cur_frame_type st2 = HEADER \<and>
      frames_payload fs @ rest = payload @ xs @ ys \<and> header_frames (last_was_header st) fs \<and>
      last_was_header st2 = (last_was_header st \<or> fs \<noteq> [])"
    using fs gs by (intro exI[of _ "fs @ gs"] exI[of _ rest']) (auto simp: header_frames_append)
qed (use assms in \<open>simp_all add: block_grows_def\<close>)

text \<open>What each step needs of the state: a header frame is open.\<close>

definition header_open :: "framer_state \<Rightarrow> bool" where
  "header_open st \<longleftrightarrow> cur_frame_type st = HEADER \<and> (\<exists>prev payload. frame_open st prev payload)"

lemma block_grows_open: "block_grows st bs st' \<Longrightarrow> header_open st \<Longrightarrow> header_open st'"
  unfolding block_grows_def header_open_def by metis

lemma ensure_header_ok:
  assumes "header_open st" "n \<le> 16383"
  shows "\<exists>st' prev payload. ensure_frame_type st HEADER n = Some st' \<and> block_grows st [] st' \<and> cur_frame_type st' = HEADER \<and>
    frame_open st' prev payload \<and> length payload + n \<le> 16383"
proof -
  obtain prev payload where o: "frame_open st prev payload" and t: "cur_frame_type st = HEADER"
    using assms(1) by (auto simp: header_open_def)
  show ?thesis
  proof (cases "length payload + n \<le> 16383")
    case True
    with o t frame_open_length(1)[OF o] show ?thesis
      by (intro exI[of _ st] exI[of _ prev] exI[of _ payload]) (simp add: ensure_frame_type_def)
  next
    case False
    from finish_frame_ok[OF o, of False False] obtain st1 where st1: "finish_frame st False False = Some st1"
      "frame_closed st1 (prev @ frame_bytes (stream_id st) (finished_frame st False False payload))"
      "last_was_header st1" "stream_id st1 = stream_id st" "seen_regular_header st1 = seen_regular_header st"
      using t by auto
    from begin_frame_ok[OF st1(2), of HEADER] obtain st2 where st2: "begin_frame st1 HEADER = Some st2"
      "frame_open st2 (prev @ frame_bytes (stream_id st) (finished_frame st False False payload)) []"
      "cur_frame_type st2 = HEADER" "last_was_header st2" "stream_id st2 = stream_id st"
      "seen_regular_header st2 = seen_regular_header st" using st1(3-5) by auto
    have "ensure_frame_type st HEADER n = Some st2"
      using False st1(1) st2(1) frame_open_length(1)[OF o] by (simp add: ensure_frame_type_def)
    moreover have "block_grows st [] st2"
    proof (rule block_growsI[OF o, where fs = "[finished_frame st False False payload]" and rest = "[]"])
      show "header_frames (last_was_header st) [finished_frame st False False payload]"
        using o t by (simp add: finished_frame_def frame_open_def)
    qed (use st2(2-6) in \<open>simp_all add: finished_frame_def\<close>)
    ultimately show ?thesis using st2(2,3) assms(2)
      by (intro exI[of _ st2] exI[of _ "prev @ frame_bytes (stream_id st) (finished_frame st False False payload)"] exI[of _ "[]"]) simp
  qed
qed

text \<open>Bytes that fit into the frame.\<close>

lemma block_grows_added:
  assumes "frame_open st prev payload" "cur_frame_type st = HEADER" "buffer_added (framer_output st) bs sb"
    "length payload + length bs \<le> 16383"
  shows "block_grows st bs (st\<lparr>framer_output := sb\<rparr>)"
  using block_growsI[OF assms(1), of "st\<lparr>framer_output := sb\<rparr>" "[]" "payload @ bs" bs]
    frame_open_added[OF assms(1,3,4)] assms(2) by simp

lemma frame_open_output: "frame_open st prev payload \<Longrightarrow> slice_buffer_ok (framer_output st)"
  by (simp add: frame_open_def)

lemma add_tiny_header_data_ok:
  assumes "header_open st" "length bs \<le> 15"
  shows "\<exists>st1 i off sb. add_tiny_header_data st (length bs) = Some (st1, i, off) \<and>
    slice_write (framer_output st1) i off bs = Some sb \<and> block_grows st bs (st1\<lparr>framer_output := sb\<rparr>)"
proof -
  from ensure_header_ok[OF assms(1), of "length bs"] assms(2) obtain st1 prev payload where
    st1: "ensure_frame_type st HEADER (length bs) = Some st1" "block_grows st [] st1" "cur_frame_type st1 = HEADER"
    "frame_open st1 prev payload" "length payload + length bs \<le> 16383" by auto
  from buffer_tiny_add_ok[OF frame_open_output[OF st1(4)] assms(2)] obtain sb1 i off sb2 where
    sb: "gpr_slice_buffer_tiny_add (framer_output st1) (length bs) = Some (sb1, i, off)"
    "slice_write sb1 i off bs = Some sb2" "buffer_added (framer_output st1) bs sb2" by blast
  have "block_grows st ([] @ bs) (st1\<lparr>framer_output := sb2\<rparr>)"
    by (rule block_grows_trans[OF st1(2) block_grows_added[OF st1(4,3) sb(3) st1(5)]])
  with st1(1) sb show ?thesis by (simp add: add_tiny_header_data_def)
qed

lemma slice_split_head_ok:
  assumes "slice_ok s" "n \<le> length (slice_bytes s)"
  shows "\<exists>tail first. gpr_slice_split_head s n = Some (tail, first) \<and> slice_ok tail \<and> slice_ok first \<and>
    slice_bytes first = take n (slice_bytes s) \<and> slice_bytes tail = drop n (slice_bytes s)"
  using assms by (cases s) (auto simp: gpr_slice_split_head_def GPR_SLICE_LENGTH_def slice_ok_def Let_def)

lemma add_header_data_ok:
  assumes "header_open st" "slice_ok s"
  shows "\<exists>st'. add_header_data st s = Some st' \<and> block_grows st (slice_bytes s) st'"
  using assms
proof (induction "length (slice_bytes s)" arbitrary: st s rule: less_induct)
  case less
  show ?case
  proof (cases "slice_bytes s = []")
    case True
    then show ?thesis by (subst add_header_data.simps) (auto simp: GPR_SLICE_LENGTH_def)
  next
    case False
    from ensure_header_ok[OF less.prems(1), of 1] obtain st1 prev payload where
      st1: "ensure_frame_type st HEADER 1 = Some st1" "block_grows st [] st1" "cur_frame_type st1 = HEADER"
      "frame_open st1 prev payload" "length payload + 1 \<le> 16383" by auto
    note rem = frame_open_length(2)[OF st1(4)]
    have ok: "slice_buffer_ok (framer_output st1)" using st1(4) by (rule frame_open_output)
    show ?thesis
    proof (cases "GPR_SLICE_LENGTH s \<le> frame_remaining st1")
      case True
      from buffer_add_ok[OF ok less.prems(2)] obtain sb where
        sb: "gpr_slice_buffer_add (framer_output st1) s = Some sb" "buffer_added (framer_output st1) (slice_bytes s) sb" by blast
      have "length payload + length (slice_bytes s) \<le> 16383" using True st1(5) rem by (simp add: GPR_SLICE_LENGTH_def)
      from block_grows_trans[OF st1(2) block_grows_added[OF st1(4,3) sb(2) this]] True False st1(1) sb(1)
      show ?thesis by (subst add_header_data.simps) (simp add: GPR_SLICE_LENGTH_def)
    next
      case large: False
      let ?n = "frame_remaining st1"
      from large obtain tail first where split: "gpr_slice_split_head s ?n = Some (tail, first)" "slice_ok tail" "slice_ok first"
        "slice_bytes first = take ?n (slice_bytes s)" "slice_bytes tail = drop ?n (slice_bytes s)"
        using slice_split_head_ok[OF less.prems(2), of ?n] by (auto simp: GPR_SLICE_LENGTH_def)
      from buffer_add_ok[OF ok split(3)] obtain sb where
        sb: "gpr_slice_buffer_add (framer_output st1) first = Some sb" "buffer_added (framer_output st1) (slice_bytes first) sb" by blast
      have "length payload + length (slice_bytes first) \<le> 16383" using rem st1(5) split(4) by simp
      from block_grows_trans[OF st1(2) block_grows_added[OF st1(4,3) sb(2) this]]
      have g: "block_grows st (slice_bytes first) (st1\<lparr>framer_output := sb\<rparr>)" by simp
      have "length (slice_bytes tail) < length (slice_bytes s)"
        using split(5) rem st1(5) False by (simp add: length_greater_0_conv[symmetric] del: length_greater_0_conv)
      from less.hyps[OF this block_grows_open[OF g less.prems(1)] split(2)] obtain st' where
        st': "add_header_data (st1\<lparr>framer_output := sb\<rparr>) tail = Some st'"
        "block_grows (st1\<lparr>framer_output := sb\<rparr>) (slice_bytes tail) st'" by blast
      have "block_grows st (slice_bytes s) st'" using block_grows_trans[OF g st'(2)] split(4,5) by simp
      with st'(1) large False st1(1) split(1) sb(1) show ?thesis
        by (subst add_header_data.simps) (simp add: GPR_SLICE_LENGTH_def)
    qed
  qed
qed

end
