(* ===== verification/Murmur_Hash.thy ===== *)
theory Murmur_Hash
  imports Prelude
begin

text \<open>
  The hash of strings of \<^verbatim>\<open>src/core/support/murmur_hash.c\<close>, for a little-endian
  machine: a block of four bytes is read as a word with the first byte lowest.
\<close>

definition ROTL32 :: "u32 \<Rightarrow> nat \<Rightarrow> u32" where
  "ROTL32 x r = push_bit r x OR drop_bit (32 - r) x"

definition FMIX32 :: "u32 \<Rightarrow> u32" where
  "FMIX32 h =
     (let h = h XOR drop_bit 16 h;
          h = h * 0x85ebca6b;
          h = h XOR drop_bit 13 h;
          h = h * 0xc2b2ae35
      in h XOR drop_bit 16 h)"

definition murmur_mix :: "u32 \<Rightarrow> u32" where
  "murmur_mix k1 = (let k1 = k1 * 0xcc9e2d51; k1 = ROTL32 k1 15 in k1 * 0x1b873593)"

definition GETBLOCK32 :: "u8 \<Rightarrow> u8 \<Rightarrow> u8 \<Rightarrow> u8 \<Rightarrow> u32" where
  "GETBLOCK32 a b c d = ucast a OR push_bit 8 (ucast b) OR push_bit 16 (ucast c) OR push_bit 24 (ucast d)"

fun murmur_body :: "u32 \<Rightarrow> bytes \<Rightarrow> u32 \<times> bytes" where
  "murmur_body h1 (a # b # c # d # data) =
     (let h1 = h1 XOR murmur_mix (GETBLOCK32 a b c d); h1 = ROTL32 h1 13 in murmur_body (h1 * 5 + 0xe6546b64) data)"
| "murmur_body h1 tail = (h1, tail)"

text \<open>The cases of the switch fall through; an empty tail changes nothing.\<close>

fun murmur_tail :: "u32 \<Rightarrow> bytes \<Rightarrow> u32" where
  "murmur_tail h1 [t0, t1, t2] = h1 XOR murmur_mix (push_bit 16 (ucast t2) XOR push_bit 8 (ucast t1) XOR ucast t0)"
| "murmur_tail h1 [t0, t1] = h1 XOR murmur_mix (push_bit 8 (ucast t1) XOR ucast t0)"
| "murmur_tail h1 [t0] = h1 XOR murmur_mix (ucast t0)"
| "murmur_tail h1 _ = h1"

definition gpr_murmur_hash3 :: "bytes \<Rightarrow> u32 \<Rightarrow> u32" where
  "gpr_murmur_hash3 key seed =
     (let (h1, tail) = murmur_body seed key; h1 = murmur_tail h1 tail in FMIX32 (h1 XOR word_of_nat (length key)))"

text \<open>A published value of the function.\<close>

lemma murmur_hash3_test: "gpr_murmur_hash3 [0x74, 0x65, 0x73, 0x74] 0 = 0xba6bd213"
  by (simp add: gpr_murmur_hash3_def FMIX32_def murmur_mix_def ROTL32_def GETBLOCK32_def Let_def)

text \<open>The body reads whole blocks and leaves fewer than four bytes.\<close>

lemma murmur_body_tail: "length (snd (murmur_body h1 data)) < 4"
  by (induction h1 data rule: murmur_body.induct) (auto simp: Let_def)

end
