(* ===== verification/Hpack_Compressor.thy ===== *)
theory Hpack_Compressor
  imports Stream_Framer Header_Decoder Murmur_Hash Timeout_Encoding
begin

text \<open>
  The HPACK encoder of \<^verbatim>\<open>src/core/transport/chttp2/stream_encoder.c\<close>: the state that tells
  which elements the peer's table holds, the forms in which a header is written, and the
  choice between them. Keys and elements are interned, so the comparison of their
  pointers is equality of contents; the references the tables hold are not counted.
\<close>

section \<open>State\<close>

definition GRPC_CHTTP2_HPACKC_NUM_FILTERS :: nat where "GRPC_CHTTP2_HPACKC_NUM_FILTERS = 256"
definition GRPC_CHTTP2_HPACKC_NUM_VALUES :: nat where "GRPC_CHTTP2_HPACKC_NUM_VALUES = 256"
definition GRPC_CHTTP2_HPACKC_MAX_TABLE_ELEMS :: nat where "GRPC_CHTTP2_HPACKC_MAX_TABLE_ELEMS = 4096 div 32"
definition ONE_ON_ADD_PROBABILITY :: u32 where "ONE_ON_ADD_PROBABILITY = 128"
definition MAX_DECODER_SPACE_USAGE :: nat where "MAX_DECODER_SPACE_USAGE = 512"

lemmas compressor_constants = GRPC_CHTTP2_HPACKC_NUM_FILTERS_def GRPC_CHTTP2_HPACKC_NUM_VALUES_def
  GRPC_CHTTP2_HPACKC_MAX_TABLE_ELEMS_def ONE_ON_ADD_PROBABILITY_def MAX_DECODER_SPACE_USAGE_def

record grpc_chttp2_hpack_compressor =
  filter_elems_sum :: u32
  tail_remote_index :: u32
  table_size :: u16
  table_elems :: u16
  filter_elems :: "u8 list"
  hash_seed :: u32 \<comment> \<open>of the metadata context\<close>
  entries_keys :: "bytes option list"
  entries_elems :: "grpc_mdelem option list"
  indices_keys :: "u32 list"
  indices_elems :: "u32 list"
  table_elem_size :: "u16 list"

definition grpc_chttp2_hpack_compressor_init :: "u32 \<Rightarrow> grpc_chttp2_hpack_compressor" where
  "grpc_chttp2_hpack_compressor_init seed =
     \<lparr> filter_elems_sum = 0, tail_remote_index = 0, table_size = 0, table_elems = 0,
       filter_elems = replicate GRPC_CHTTP2_HPACKC_NUM_FILTERS 0, hash_seed = seed,
       entries_keys = replicate GRPC_CHTTP2_HPACKC_NUM_VALUES None,
       entries_elems = replicate GRPC_CHTTP2_HPACKC_NUM_VALUES None,
       indices_keys = replicate GRPC_CHTTP2_HPACKC_NUM_VALUES 0,
       indices_elems = replicate GRPC_CHTTP2_HPACKC_NUM_VALUES 0,
       table_elem_size = replicate GRPC_CHTTP2_HPACKC_MAX_TABLE_ELEMS 0 \<rparr>"

definition HASH_FRAGMENT_1 :: "u32 \<Rightarrow> nat" where "HASH_FRAGMENT_1 x = unat (x AND 255)"
definition HASH_FRAGMENT_2 :: "u32 \<Rightarrow> nat" where "HASH_FRAGMENT_2 x = unat (drop_bit 8 x AND 255)"
definition HASH_FRAGMENT_3 :: "u32 \<Rightarrow> nat" where "HASH_FRAGMENT_3 x = unat (drop_bit 16 x AND 255)"

definition GRPC_MDSTR_KV_HASH :: "u32 \<Rightarrow> u32 \<Rightarrow> u32" where
  "GRPC_MDSTR_KV_HASH k_hash v_hash = ROTL32 k_hash 2 XOR v_hash"

text \<open>The hashes that interning stores with a string.\<close>

definition mdstr_hash :: "grpc_chttp2_hpack_compressor \<Rightarrow> bytes \<Rightarrow> u32" where
  "mdstr_hash c s = gpr_murmur_hash3 s (hash_seed c)"

definition mdelem_hash :: "grpc_chttp2_hpack_compressor \<Rightarrow> grpc_mdelem \<Rightarrow> u32" where
  "mdelem_hash c e = GRPC_MDSTR_KV_HASH (mdstr_hash c (md_key e)) (mdstr_hash c (md_value e))"

text \<open>The slice of an interned string: short ones hold their bytes and a terminating zero.\<close>

definition mdstr_slice :: "bytes \<Rightarrow> gpr_slice" where
  "mdstr_slice s = (if length s + 1 < GPR_SLICE_INLINED_SIZE then Inlined s else Refcounted s)"

section \<open>Filters and the table\<close>

definition inc_filter :: "nat \<Rightarrow> u32 \<Rightarrow> u8 list \<Rightarrow> u32 \<times> u8 list" where
  "inc_filter idx count elems =
     (let elems = elems[idx := elems ! idx + 1] in
      if elems ! idx < 255 then (count + 1, elems)
      else (let elems = map (\<lambda>e. e div 2) elems in (sum_list (map ucast elems), elems)))"

text \<open>One turn of the loop that makes room in the remote table.\<close>

definition table_slot :: "u32 \<Rightarrow> nat" where
  "table_slot i = unat i mod GRPC_CHTTP2_HPACKC_MAX_TABLE_ELEMS"

definition drop_oldest :: "grpc_chttp2_hpack_compressor \<Rightarrow> grpc_chttp2_hpack_compressor option" where
  "drop_oldest c =
     (let tail = tail_remote_index c + 1; size = table_elem_size c ! table_slot tail in
      do {
        gpr_assert (tail > 0);
        gpr_assert (table_size c \<ge> size);
        gpr_assert (table_elems c > 0);
        Some (c\<lparr>tail_remote_index := tail, table_size := table_size c - size, table_elems := table_elems c - 1\<rparr>)
      })"

lemma drop_oldest_elems: "drop_oldest c = Some c1 \<Longrightarrow> unat (table_elems c1) < unat (table_elems c)"
  by (auto simp: drop_oldest_def Let_def bind_eq_Some_conv word_less_nat_alt unat_sub_if')

function make_room :: "u32 \<Rightarrow> grpc_chttp2_hpack_compressor \<Rightarrow> grpc_chttp2_hpack_compressor option" where
  "make_room elem_size c =
     (if ucast (table_size c) + elem_size > 4096
      then do { c \<leftarrow> drop_oldest c; make_room elem_size c }
      else Some c)"
  by auto
termination by (relation "measure (\<lambda>(_, c). unat (table_elems c))") (auto dest: drop_oldest_elems)

declare make_room.simps [simp del]

text \<open>
  The slot that a key or an element is stored in: the one it is in already, a free one,
  or the one with the older index. What the slot held before is the reference that is
  dropped.
\<close>

definition cuckoo_slot :: "'a option list \<Rightarrow> u32 list \<Rightarrow> u32 \<Rightarrow> 'a \<Rightarrow> nat" where
  "cuckoo_slot entries indices hash x =
     (if entries ! HASH_FRAGMENT_2 hash = Some x then HASH_FRAGMENT_2 hash
      else if entries ! HASH_FRAGMENT_3 hash = Some x then HASH_FRAGMENT_3 hash
      else if entries ! HASH_FRAGMENT_2 hash = None then HASH_FRAGMENT_2 hash
      else if entries ! HASH_FRAGMENT_3 hash = None then HASH_FRAGMENT_3 hash
      else if indices ! HASH_FRAGMENT_2 hash < indices ! HASH_FRAGMENT_3 hash then HASH_FRAGMENT_2 hash
      else HASH_FRAGMENT_3 hash)"

definition add_elem ::
    "grpc_chttp2_hpack_compressor \<Rightarrow> grpc_mdelem \<Rightarrow> (grpc_chttp2_hpack_compressor \<times> grpc_mdelem option) option" where
  "add_elem c elem =
     (let key_hash = mdstr_hash c (md_key elem);
          elem_hash = mdelem_hash c elem;
          new_index = tail_remote_index c + ucast (table_elems c) + 1;
          elem_size = 32 + word_of_nat (length (md_key elem)) + word_of_nat (length (md_value elem)) in
      do {
        c \<leftarrow> make_room elem_size c;
        gpr_assert (unat (table_elems c) < GRPC_CHTTP2_HPACKC_MAX_TABLE_ELEMS);
        let c = c\<lparr>table_elem_size := (table_elem_size c)[table_slot new_index := ucast elem_size],
                  table_size := table_size c + ucast elem_size, table_elems := table_elems c + 1\<rparr>;
        let i = cuckoo_slot (entries_elems c) (indices_elems c) elem_hash elem;
        let elem_to_unref = entries_elems c ! i;
        let c = c\<lparr>entries_elems := (entries_elems c)[i := Some elem], indices_elems := (indices_elems c)[i := new_index]\<rparr>;
        let j = cuckoo_slot (entries_keys c) (indices_keys c) key_hash (md_key elem);
        let c = c\<lparr>entries_keys := (entries_keys c)[j := Some (md_key elem)], indices_keys := (indices_keys c)[j := new_index]\<rparr>;
        Some (c, elem_to_unref)
      })"

section \<open>Emission\<close>

text \<open>A \<^verbatim>\<open>size_t\<close> converted to \<^verbatim>\<open>int\<close>.\<close>

definition c_int :: "nat \<Rightarrow> int" where
  "c_int n = sint (word_of_nat n :: u32)"

text \<open>\<^verbatim>\<open>GRPC_CHTTP2_WRITE_VARINT\<close> into freshly added tiny header data.\<close>

definition add_varint :: "framer_state \<Rightarrow> int \<Rightarrow> nat \<Rightarrow> u8 \<Rightarrow> nat \<Rightarrow> framer_state option" where
  "add_varint st n prefix_bits prefix_or len =
     do {
       (st, i, off) \<leftarrow> add_tiny_header_data st len;
       tgt \<leftarrow> GRPC_CHTTP2_WRITE_VARINT n prefix_bits prefix_or (replicate len 0) len;
       output \<leftarrow> slice_write (framer_output st) i off tgt;
       Some (st\<lparr>framer_output := output\<rparr>)
     }"

definition add_header_byte :: "framer_state \<Rightarrow> u8 \<Rightarrow> framer_state option" where
  "add_header_byte st b =
     do {
       (st, i, off) \<leftarrow> add_tiny_header_data st 1;
       output \<leftarrow> slice_write (framer_output st) i off [b];
       Some (st\<lparr>framer_output := output\<rparr>)
     }"

definition emit_indexed :: "u32 \<Rightarrow> framer_state \<Rightarrow> framer_state option" where
  "emit_indexed i st = add_varint st (uint i) 1 0x80 (GRPC_CHTTP2_VARINT_LENGTH (uint i) 1)"

text \<open>The space reserved for an encoded value decides how its slice is stored.\<close>

definition base64_huffman_max_length :: "bytes \<Rightarrow> nat option" where
  "base64_huffman_max_length input =
     do {
       extra \<leftarrow> c_read tail_xtra (length input mod 3);
       let max_output_bits = 11 * (length input div 3 * 4 + extra);
       Some (max_output_bits div 8 + (if max_output_bits mod 8 \<noteq> 0 then 1 else 0))
     }"

definition get_wire_value :: "grpc_mdelem \<Rightarrow> (gpr_slice \<times> u8) option" where
  "get_wire_value elem =
     (if grpc_is_binary_header (md_key elem)
      then do {
        output \<leftarrow> grpc_chttp2_base64_encode_and_huffman_compress (md_value elem);
        max_length \<leftarrow> base64_huffman_max_length (md_value elem);
        Some (if max_length > GPR_SLICE_INLINED_SIZE then Refcounted output else Inlined output, 0x80)
      }
      else Some (mdstr_slice (md_value elem), 0))"

text \<open>The prefix of the value's length is 0 in the first two forms, also for a compressed value.\<close>

definition emit_lithdr_incidx :: "u32 \<Rightarrow> grpc_mdelem \<Rightarrow> framer_state \<Rightarrow> framer_state option" where
  "emit_lithdr_incidx key_index elem st =
     do {
       (value_slice, huffman_prefix) \<leftarrow> get_wire_value elem;
       let len_val = c_int (GPR_SLICE_LENGTH value_slice);
       st \<leftarrow> add_varint st (uint key_index) 2 0x40 (GRPC_CHTTP2_VARINT_LENGTH (uint key_index) 2);
       st \<leftarrow> add_varint st len_val 1 0 (GRPC_CHTTP2_VARINT_LENGTH len_val 1);
       add_header_data st value_slice
     }"

definition emit_lithdr_noidx :: "u32 \<Rightarrow> grpc_mdelem \<Rightarrow> framer_state \<Rightarrow> framer_state option" where
  "emit_lithdr_noidx key_index elem st =
     do {
       (value_slice, huffman_prefix) \<leftarrow> get_wire_value elem;
       let len_val = c_int (GPR_SLICE_LENGTH value_slice);
       st \<leftarrow> add_varint st (uint key_index) 4 0 (GRPC_CHTTP2_VARINT_LENGTH (uint key_index) 4);
       st \<leftarrow> add_varint st len_val 1 0 (GRPC_CHTTP2_VARINT_LENGTH len_val 1);
       add_header_data st value_slice
     }"

definition emit_lithdr_incidx_v :: "grpc_mdelem \<Rightarrow> framer_state \<Rightarrow> framer_state option" where
  "emit_lithdr_incidx_v elem st =
     do {
       let len_key = c_int (length (md_key elem));
       (value_slice, huffman_prefix) \<leftarrow> get_wire_value elem;
       let len_val = c_int (GPR_SLICE_LENGTH value_slice);
       st \<leftarrow> add_header_byte st 0x40;
       st \<leftarrow> add_varint st len_key 1 0 (GRPC_CHTTP2_VARINT_LENGTH len_key 1);
       st \<leftarrow> add_header_data st (mdstr_slice (md_key elem));
       st \<leftarrow> add_varint st len_val 1 huffman_prefix (GRPC_CHTTP2_VARINT_LENGTH len_val 1);
       add_header_data st value_slice
     }"

definition emit_lithdr_noidx_v :: "grpc_mdelem \<Rightarrow> framer_state \<Rightarrow> framer_state option" where
  "emit_lithdr_noidx_v elem st =
     do {
       let len_key = c_int (length (md_key elem));
       (value_slice, huffman_prefix) \<leftarrow> get_wire_value elem;
       let len_val = c_int (GPR_SLICE_LENGTH value_slice);
       st \<leftarrow> add_header_byte st 0;
       st \<leftarrow> add_varint st len_key 1 0 (GRPC_CHTTP2_VARINT_LENGTH len_key 1);
       st \<leftarrow> add_header_data st (mdstr_slice (md_key elem));
       st \<leftarrow> add_varint st len_val 1 huffman_prefix (GRPC_CHTTP2_VARINT_LENGTH len_val 1);
       add_header_data st value_slice
     }"

definition dynidx :: "grpc_chttp2_hpack_compressor \<Rightarrow> u32 \<Rightarrow> u32" where
  "dynidx c i =
     1 + word_of_nat GRPC_CHTTP2_LAST_STATIC_ENTRY + tail_remote_index c + ucast (table_elems c) - i"

section \<open>A header\<close>

text \<open>An index of the key or the element that the remote table still holds.\<close>

definition live_index :: "grpc_chttp2_hpack_compressor \<Rightarrow> 'a option list \<Rightarrow> u32 list \<Rightarrow> nat \<Rightarrow> 'a \<Rightarrow> bool" where
  "live_index c entries indices i x \<longleftrightarrow> entries ! i = Some x \<and> indices ! i > tail_remote_index c"

definition should_add_elem :: "grpc_chttp2_hpack_compressor \<Rightarrow> grpc_mdelem \<Rightarrow> bool" where
  "should_add_elem c elem \<longleftrightarrow>
     32 + length (md_key elem) + length (md_value elem) < MAX_DECODER_SPACE_USAGE \<and>
     ucast (filter_elems c ! HASH_FRAGMENT_1 (mdelem_hash c elem)) \<ge> filter_elems_sum c div ONE_ON_ADD_PROBABILITY"

text \<open>The emission with the index of the key.\<close>

definition hpack_enc_key ::
    "grpc_chttp2_hpack_compressor \<Rightarrow> u32 \<Rightarrow> grpc_mdelem \<Rightarrow> framer_state \<Rightarrow>
      (grpc_chttp2_hpack_compressor \<times> framer_state \<times> grpc_mdelem option) option" where
  "hpack_enc_key c indices_key elem st =
     (if should_add_elem c elem
      then do {
        st \<leftarrow> emit_lithdr_incidx (dynidx c indices_key) elem st;
        (c, unref) \<leftarrow> add_elem c elem;
        Some (c, st, unref)
      }
      else do {
        st \<leftarrow> emit_lithdr_noidx (dynidx c indices_key) elem st;
        Some (c, st, Some elem)
      })"

definition hpack_enc ::
    "grpc_chttp2_hpack_compressor \<Rightarrow> grpc_mdelem \<Rightarrow> framer_state \<Rightarrow>
      (grpc_chttp2_hpack_compressor \<times> framer_state \<times> grpc_mdelem option) option" where
  "hpack_enc c elem st =
     (let key_hash = mdstr_hash c (md_key elem); elem_hash = mdelem_hash c elem in
      do {
        gpr_assert (length (md_key elem) > 0);
        st \<leftarrow> (if hd (md_key elem) \<noteq> of_char (CHR '':'') then Some (st\<lparr>seen_regular_header := True\<rparr>)
              else do { gpr_assert (\<not> seen_regular_header st); Some st });
        let (count, elems) = inc_filter (HASH_FRAGMENT_1 elem_hash) (filter_elems_sum c) (filter_elems c);
        let c = c\<lparr>filter_elems_sum := count, filter_elems := elems\<rparr>;
        (if live_index c (entries_elems c) (indices_elems c) (HASH_FRAGMENT_2 elem_hash) elem
         then do {
           st \<leftarrow> emit_indexed (dynidx c (indices_elems c ! HASH_FRAGMENT_2 elem_hash)) st;
           Some (c, st, Some elem)
         }
         else if live_index c (entries_elems c) (indices_elems c) (HASH_FRAGMENT_3 elem_hash) elem
         then do {
           st \<leftarrow> emit_indexed (dynidx c (indices_elems c ! HASH_FRAGMENT_3 elem_hash)) st;
           Some (c, st, Some elem)
         }
         else if live_index c (entries_keys c) (indices_keys c) (HASH_FRAGMENT_2 key_hash) (md_key elem)
         then hpack_enc_key c (indices_keys c ! HASH_FRAGMENT_2 key_hash) elem st
         else if live_index c (entries_keys c) (indices_keys c) (HASH_FRAGMENT_3 key_hash) (md_key elem)
         then hpack_enc_key c (indices_keys c ! HASH_FRAGMENT_3 key_hash) elem st
         else if should_add_elem c elem
         then do {
           st \<leftarrow> emit_lithdr_incidx_v elem st;
           (c, unref) \<leftarrow> add_elem c elem;
           Some (c, st, unref)
         }
         else do {
           st \<leftarrow> emit_lithdr_noidx_v elem st;
           Some (c, st, Some elem)
         })
      })"

text \<open>\<^verbatim>\<open>now\<close> reads a clock.\<close>

definition TIMEOUT_KEY :: bytes where
  "TIMEOUT_KEY = bytes_of_string ''grpc-timeout''"

definition deadline_enc ::
    "(gpr_clock_type \<Rightarrow> gpr_timespec) \<Rightarrow> grpc_chttp2_hpack_compressor \<Rightarrow> gpr_timespec \<Rightarrow> framer_state \<Rightarrow>
      (grpc_chttp2_hpack_compressor \<times> framer_state \<times> grpc_mdelem option) option" where
  "deadline_enc now c deadline st =
     do {
       t \<leftarrow> gpr_time_sub deadline (now (clock_type deadline));
       timeout_str \<leftarrow> grpc_chttp2_encode_timeout t;
       hpack_enc c \<lparr> md_key = TIMEOUT_KEY, md_value = timeout_str \<rparr> st
     }"

end
