(* ===== verification/Compressor_Emission.thy ===== *)
theory Compressor_Emission
  imports Hpack_Compressor
begin

text \<open>
  The bytes that each form of emission adds to the header block, whatever the slices and
  the frames they are cut into.
\<close>

section \<open>Emitters\<close>

text \<open>An emitter always succeeds on an open header block and adds these bytes to it.\<close>

definition emits :: "(framer_state \<Rightarrow> framer_state option) \<Rightarrow> bytes \<Rightarrow> bool" where
  "emits f bs \<longleftrightarrow> (\<forall>st. header_open st \<longrightarrow> (\<exists>st'. f st = Some st' \<and> block_grows st bs st'))"

named_theorems emission "what the emitters write"

lemma emits_bind [emission]:
  assumes "emits f xs" "emits g ys"
  shows "emits (\<lambda>st. Option.bind (f st) g) (xs @ ys)"
  unfolding emits_def
proof (intro allI impI)
  fix st
  assume "header_open st"
  with assms(1) obtain st1 where st1: "f st = Some st1" "block_grows st xs st1" by (auto simp: emits_def)
  with assms(2) block_grows_open[OF st1(2) \<open>header_open st\<close>] obtain st2 where
    "g st1 = Some st2" "block_grows st1 ys st2" by (auto simp: emits_def)
  with st1 block_grows_trans show "\<exists>st'. Option.bind (f st) g = Some st' \<and> block_grows st (xs @ ys) st'" by fastforce
qed

lemma length_varint_bytes: "length (varint_bytes n b p) = GRPC_CHTTP2_VARINT_LENGTH n b"
proof (cases "n < GRPC_CHTTP2_MAX_IN_PREFIX b")
  case False
  then show ?thesis
    using varint_length_cases[of "word_of_int (n - GRPC_CHTTP2_MAX_IN_PREFIX b)"]
    by (auto simp: varint_bytes_def GRPC_CHTTP2_VARINT_LENGTH_def Let_def)
qed (simp add: varint_bytes_def GRPC_CHTTP2_VARINT_LENGTH_def)

lemma varint_bytes_max: "length (varint_bytes n b p) \<le> 6"
  using varint_length_cases[of "word_of_int (n - GRPC_CHTTP2_MAX_IN_PREFIX b)"]
  by (auto simp: varint_bytes_def Let_def)

lemma tiny_emits:
  assumes "length bs \<le> 15"
  shows "emits (\<lambda>st. do {
      (st, i, off) \<leftarrow> add_tiny_header_data st (length bs);
      output \<leftarrow> slice_write (framer_output st) i off bs;
      Some (st\<lparr>framer_output := output\<rparr>)
    }) bs"
  unfolding emits_def using add_tiny_header_data_ok[OF _ assms] by fastforce

lemma add_varint_emits [emission]:
  "emits (\<lambda>st. add_varint st n b p (GRPC_CHTTP2_VARINT_LENGTH n b)) (varint_bytes n b p)"
proof -
  define ws where "ws = varint_bytes n b p"
  have l: "GRPC_CHTTP2_VARINT_LENGTH n b = length ws" by (simp add: length_varint_bytes ws_def)
  have w: "GRPC_CHTTP2_WRITE_VARINT n b p (replicate (length ws) 0) (length ws) = Some ws"
    using write_varint_bytes[of "replicate (length ws) 0" n b p] l by (simp add: ws_def)
  have "length ws \<le> 15" using varint_bytes_max[of n b p] by (simp add: ws_def)
  from tiny_emits[OF this] show ?thesis unfolding add_varint_def l w ws_def[symmetric] by simp
qed

lemma add_header_byte_emits [emission]: "emits (\<lambda>st. add_header_byte st c) [c]"
  using tiny_emits[of "[c]"] by (simp add: add_header_byte_def)

lemma add_header_data_emits [emission]: "slice_ok s \<Longrightarrow> emits (\<lambda>st. add_header_data st s) (slice_bytes s)"
  using add_header_data_ok by (auto simp: emits_def)

lemma mdstr_slice_ok [simp]: "slice_ok (mdstr_slice s)" "slice_bytes (mdstr_slice s) = s"
  by (simp_all add: mdstr_slice_def)

section \<open>Values on the wire\<close>

lemma c_int_small: "n < 2147483648 \<Longrightarrow> c_int n = int n"
  by (simp add: c_int_def signed_of_nat signed_take_bit_int_eq_self)

lemma one_pass_length:
  assumes "grpc_chttp2_base64_encode_and_huffman_compress xs = Some ws"
  shows "\<exists>m. base64_huffman_max_length xs = Some m \<and> length ws \<le> m \<and> m \<le> 2 * length xs + 5"
proof -
  have "length xs mod 3 < 3" by simp
  then have "length xs mod 3 = 0 \<or> length xs mod 3 = 1 \<or> length xs mod 3 = 2" by linarith
  then obtain e where e: "c_read tail_xtra (length xs mod 3) = Some e" "e \<le> 3"
    by (auto simp: tail_xtra_def c_read_def)
  let ?b = "11 * (length xs div 3 * 4 + e)"
  have m: "base64_huffman_max_length xs = Some (?b div 8 + (if ?b mod 8 \<noteq> 0 then 1 else 0))"
    using e(1) by (simp add: base64_huffman_max_length_def Let_def)
  moreover have "length ws \<le> ?b div 8 + (if ?b mod 8 \<noteq> 0 then 1 else 0)"
    using assms e(1) unfolding grpc_chttp2_base64_encode_and_huffman_compress_def Let_def
    by (auto simp: bind_eq_Some_conv split: prod.splits)
  moreover have "?b div 8 + (if ?b mod 8 \<noteq> 0 then 1 else 0) \<le> 2 * length xs + 5"
  proof -
    define q where "q = length xs div 3"
    have "q * 3 \<le> length xs" by (simp add: q_def)
    then have "q * 45 \<le> 15 * length xs" by simp
    then have "11 * (q * 4 + e) \<le> 15 * length xs + 33" using e(2) by simp
    then have "?b \<le> 15 * length xs + 33" by (simp only: q_def)
    then have "?b \<le> 7 + 8 * (2 * length xs + 4)" by simp
    then have "?b div 8 \<le> (7 + 8 * (2 * length xs + 4)) div 8" by (rule div_le_mono)
    also have "\<dots> = 2 * length xs + 4" by (subst div_mult_self2) simp_all
    finally show ?thesis by simp
  qed
  ultimately show ?thesis by blast
qed

lemma get_wire_value_ok:
  assumes "length (md_value e) < 1000000000"
  shows "\<exists>s. get_wire_value e = Some (s, if grpc_is_binary_header (md_key e) then 0x80 else 0) \<and> slice_ok s \<and>
    string_sent (grpc_is_binary_header (md_key e)) (grpc_is_binary_header (md_key e)) (md_value e) (slice_bytes s) \<and>
    length (slice_bytes s) < 2147483648"
proof (cases "grpc_is_binary_header (md_key e)")
  case True
  from one_pass_sent obtain ws where ws: "grpc_chttp2_base64_encode_and_huffman_compress (md_value e) = Some ws"
    "string_sent True True (md_value e) ws" by blast
  from one_pass_length[OF ws(1)] obtain m where m: "base64_huffman_max_length (md_value e) = Some m"
    "length ws \<le> m" "m \<le> 2 * length (md_value e) + 5" by blast
  from True ws m assms show ?thesis
    by (intro exI[of _ "if m > 15 then Refcounted ws else Inlined ws"]) (simp add: get_wire_value_def)
next
  case False
  with assms show ?thesis by (simp add: get_wire_value_def string_sent_def)
qed

section \<open>The forms of a header\<close>

lemma emit_indexed_emits [emission]: "emits (emit_indexed i) (varint_bytes (uint i) 1 0x80)"
  using add_varint_emits by (simp add: emit_indexed_def[abs_def])

definition indexed_key_bytes :: "bool \<Rightarrow> u32 \<Rightarrow> bytes \<Rightarrow> bytes" where
  "indexed_key_bytes add i ws =
     varint_bytes (uint i) (literal_bits add) (literal_prefix add) @ varint_bytes (int (length ws)) 1 0 @ ws"

definition new_key_bytes :: "bool \<Rightarrow> bytes \<Rightarrow> u8 \<Rightarrow> bytes \<Rightarrow> bytes" where
  "new_key_bytes add k vp ws =
     literal_prefix add # varint_bytes (int (length k)) 1 0 @ k @ varint_bytes (int (length ws)) 1 vp @ ws"

lemma emit_lithdr_emits:
  assumes "get_wire_value e = Some (s, vp)" "slice_ok s" "length (slice_bytes s) < 2147483648"
  shows "emits (if add then emit_lithdr_incidx i e else emit_lithdr_noidx i e) (indexed_key_bytes add i (slice_bytes s))"
proof -
  have l: "c_int (GPR_SLICE_LENGTH s) = int (length (slice_bytes s))"
    using assms(3) by (simp add: GPR_SLICE_LENGTH_def c_int_small)
  have "emits (\<lambda>st. Option.bind (add_varint st (uint i) (literal_bits add) (literal_prefix add)
          (GRPC_CHTTP2_VARINT_LENGTH (uint i) (literal_bits add)))
      (\<lambda>st. Option.bind (add_varint st (int (length (slice_bytes s))) 1 0 (GRPC_CHTTP2_VARINT_LENGTH (int (length (slice_bytes s))) 1))
        (\<lambda>st. add_header_data st s))) (indexed_key_bytes add i (slice_bytes s))"
    unfolding indexed_key_bytes_def by (intro emission assms(2))
  then show ?thesis using assms(1) l
    by (cases add) (simp_all add: emit_lithdr_incidx_def[abs_def] emit_lithdr_noidx_def[abs_def] literal_bits_def literal_prefix_def Let_def)
qed

lemma emit_lithdr_v_emits:
  assumes "get_wire_value e = Some (s, vp)" "slice_ok s" "length (slice_bytes s) < 2147483648" "length (md_key e) < 2147483648"
  shows "emits (if add then emit_lithdr_incidx_v e else emit_lithdr_noidx_v e) (new_key_bytes add (md_key e) vp (slice_bytes s))"
proof -
  let ?ws = "slice_bytes s" and ?k = "md_key e"
  have l: "c_int (GPR_SLICE_LENGTH s) = int (length ?ws)" "c_int (length ?k) = int (length ?k)"
    using assms(3,4) by (simp_all add: GPR_SLICE_LENGTH_def c_int_small)
  have "emits (\<lambda>st. add_header_data st (mdstr_slice ?k)) ?k"
    using add_header_data_emits[of "mdstr_slice ?k"] by simp
  then have "emits (\<lambda>st. Option.bind (add_header_byte st (literal_prefix add))
      (\<lambda>st. Option.bind (add_varint st (int (length ?k)) 1 0 (GRPC_CHTTP2_VARINT_LENGTH (int (length ?k)) 1))
        (\<lambda>st. Option.bind (add_header_data st (mdstr_slice ?k))
          (\<lambda>st. Option.bind (add_varint st (int (length ?ws)) 1 vp (GRPC_CHTTP2_VARINT_LENGTH (int (length ?ws)) 1))
            (\<lambda>st. add_header_data st s)))))
      ([literal_prefix add] @ varint_bytes (int (length ?k)) 1 0 @ ?k @ varint_bytes (int (length ?ws)) 1 vp @ ?ws)"
    by (intro emission assms(2))
  then show ?thesis using assms(1) l
    by (cases add) (simp_all add: emit_lithdr_incidx_v_def[abs_def] emit_lithdr_noidx_v_def[abs_def] new_key_bytes_def literal_prefix_def Let_def)
qed

end
