(* ===== verification/Encoder_Sync.thy ===== *)
theory Encoder_Sync
  imports Compressor_Emission
begin

text \<open>
  The encoder's tables follow the decoder's: from matching states, what the encoder writes
  for a header is read back as that header, and the states match again. This holds across
  evictions on both sides.
\<close>

section \<open>The invariant\<close>

text \<open>
  \<open>es\<close> are the decoder's dynamic entries, newest first. The absolute index of the oldest is
  one more than \<open>tail\<close>; a slot with an older index is stale.
\<close>

definition index_holds :: "nat \<Rightarrow> grpc_mdelem list \<Rightarrow> (grpc_mdelem \<Rightarrow> 'a) \<Rightarrow> nat \<Rightarrow> 'a \<Rightarrow> bool" where
  "index_holds tail es f i x \<longleftrightarrow> i \<le> tail + length es \<and> f (es ! (tail + length es - i)) = x"

definition slots_ok :: "nat \<Rightarrow> grpc_mdelem list \<Rightarrow> (grpc_mdelem \<Rightarrow> 'a) \<Rightarrow> 'a option list \<Rightarrow> u32 list \<Rightarrow> bool" where
  "slots_ok tail es f entries indices \<longleftrightarrow>
     length entries = 256 \<and> length indices = 256 \<and>
     (\<forall>j < 256. \<forall>x. entries ! j = Some x \<and> tail < unat (indices ! j) \<longrightarrow> index_holds tail es f (unat (indices ! j)) x)"

definition sizes_ok :: "nat \<Rightarrow> grpc_mdelem list \<Rightarrow> u16 list \<Rightarrow> bool" where
  "sizes_ok tail es sizes \<longleftrightarrow>
     length sizes = 128 \<and>
     (\<forall>i < length es. unat (sizes ! ((tail + length es - i) mod 128)) = hpack_entry_size (es ! i))"

definition enc_sync :: "grpc_chttp2_hpack_compressor \<Rightarrow> grpc_mdelem list \<Rightarrow> bool" where
  "enc_sync c es \<longleftrightarrow>
     unat (table_elems c) = length es \<and> unat (table_size c) = hpack_size es \<and> hpack_size es \<le> 4096 \<and>
     (\<forall>e \<in> set es. md_key e \<noteq> []) \<and> unat (tail_remote_index c) + length es < 4294967296 \<and>
     length (filter_elems c) = 256 \<and>
     sizes_ok (unat (tail_remote_index c)) es (table_elem_size c) \<and>
     slots_ok (unat (tail_remote_index c)) es (\<lambda>e. e) (entries_elems c) (indices_elems c) \<and>
     slots_ok (unat (tail_remote_index c)) es md_key (entries_keys c) (indices_keys c)"

text \<open>The number of insertions so far.\<close>

definition enc_inserted :: "grpc_chttp2_hpack_compressor \<Rightarrow> nat" where
  "enc_inserted c = unat (tail_remote_index c) + unat (table_elems c)"

lemma compressor_init_sync: "enc_sync (grpc_chttp2_hpack_compressor_init seed) []"
  by (simp add: enc_sync_def grpc_chttp2_hpack_compressor_init_def compressor_constants sizes_ok_def slots_ok_def)

lemma enc_sync_filter [simp]:
  "length fs = 256 \<Longrightarrow> enc_sync (c\<lparr>filter_elems_sum := n, filter_elems := fs\<rparr>) es \<longleftrightarrow> enc_sync (c\<lparr>filter_elems := fs\<rparr>) es"
  by (simp add: enc_sync_def)

section \<open>Dropping the oldest entry\<close>

lemma slots_ok_drop:
  assumes "slots_ok tail (es @ [x]) f entries indices"
  shows "slots_ok (Suc tail) es f entries indices"
proof -
  have "index_holds (Suc tail) es f i y" if "index_holds tail (es @ [x]) f i y" "Suc tail < i" for i y
    using that by (auto simp: index_holds_def nth_append)
  then show ?thesis using assms by (auto simp: slots_ok_def)
qed

lemma sizes_ok_drop:
  assumes "sizes_ok tail (es @ [x]) sizes"
  shows "sizes_ok (Suc tail) es sizes" "unat (sizes ! (Suc tail mod 128)) = hpack_entry_size x"
proof -
  have s: "unat (sizes ! ((tail + length (es @ [x]) - i) mod 128)) = hpack_entry_size ((es @ [x]) ! i)"
    if "i < length (es @ [x])" for i using assms that unfolding sizes_ok_def by blast
  show "unat (sizes ! (Suc tail mod 128)) = hpack_entry_size x" using s[of "length es"] by simp
  have "unat (sizes ! ((Suc tail + length es - i) mod 128)) = hpack_entry_size (es ! i)" if "i < length es" for i
    using s[of i] that by (simp add: nth_append)
  then show "sizes_ok (Suc tail) es sizes" using assms by (simp add: sizes_ok_def)
qed

lemma drop_oldest_ok:
  assumes "enc_sync c (es @ [x])"
  shows "\<exists>c1. drop_oldest c = Some c1 \<and> enc_sync c1 es \<and> enc_inserted c1 = enc_inserted c \<and> hash_seed c1 = hash_seed c"
proof -
  let ?t = "tail_remote_index c"
  have t: "unat (?t + 1) = Suc (unat ?t)"
    using assms by (simp add: enc_sync_def unat_word_ariths)
  have size: "unat (table_elem_size c ! table_slot (?t + 1)) = hpack_entry_size x"
    using assms sizes_ok_drop(2)[of "unat ?t" es x] by (simp add: enc_sync_def table_slot_def compressor_constants t)
  let ?c = "c\<lparr>tail_remote_index := ?t + 1, table_size := table_size c - table_elem_size c ! table_slot (?t + 1),
      table_elems := table_elems c - 1\<rparr>"
  have le: "table_elem_size c ! table_slot (?t + 1) \<le> table_size c"
    using assms size by (simp add: word_le_nat_alt enc_sync_def)
  have el: "unat (table_elems c) = Suc (length es)" using assms by (simp add: enc_sync_def)
  then have pos: "table_elems c > 0" by (auto simp: word_less_nat_alt)
  have "?t + 1 > 0" using t by (simp add: word_less_nat_alt)
  with le pos have "drop_oldest c = Some ?c" by (simp add: drop_oldest_def Let_def)
  moreover have n: "unat (table_elems c - 1) = length es"
    using el pos by (simp add: unat_sub word_le_nat_alt)
  moreover have "unat (table_size c - table_elem_size c ! table_slot (?t + 1)) = hpack_size es"
    using le size assms by (simp add: unat_sub enc_sync_def)
  ultimately show ?thesis
    using assms t slots_ok_drop[of "unat ?t" es x "\<lambda>e. e"] slots_ok_drop[of "unat ?t" es x md_key] sizes_ok_drop(1)[of "unat ?t" es x] el
    by (intro exI[of _ ?c]) (auto simp: enc_sync_def enc_inserted_def)
qed

lemma make_room_ok:
  assumes "enc_sync c es" "n \<le> 4096"
  shows "\<exists>c1. make_room (word_of_nat n) c = Some c1 \<and> enc_sync c1 (hpack_keep (4096 - n) es) \<and>
    enc_inserted c1 = enc_inserted c \<and> hash_seed c1 = hash_seed c"
  using assms(1)
proof (induction es arbitrary: c rule: rev_induct)
  case Nil
  have "\<not> ucast (table_size c) + (word_of_nat n :: u32) > 4096"
  proof -
    have "table_size c = 0" using Nil by (simp add: enc_sync_def unat_eq_0)
    then show ?thesis using assms(2) by (simp add: word_less_nat_alt)
  qed
  then show ?case using Nil by (subst make_room.simps) simp
next
  case (snoc x es)
  have s: "unat (ucast (table_size c) + (word_of_nat n :: u32)) = hpack_size (es @ [x]) + n"
  proof -
    have "unat (ucast (table_size c) :: u32) + unat (word_of_nat n :: u32) = hpack_size (es @ [x]) + n"
      using snoc.prems assms(2) by (simp add: unat_ucast_16 enc_sync_def)
    moreover have "hpack_size (es @ [x]) + n < 4294967296" using snoc.prems assms(2) by (simp add: enc_sync_def)
    ultimately show ?thesis by (simp add: unat_word_ariths)
  qed
  show ?case
  proof (cases "hpack_size (es @ [x]) \<le> 4096 - n")
    case True
    then have "\<not> ucast (table_size c) + (word_of_nat n :: u32) > 4096"
      using s assms(2) by (simp add: word_less_nat_alt)
    then show ?thesis using snoc.prems hpack_keep_all[OF True] by (subst make_room.simps) simp
  next
    case False
    then have "ucast (table_size c) + (word_of_nat n :: u32) > 4096" using s assms(2) by (simp add: word_less_nat_alt)
    moreover have "hpack_keep (4096 - n) (es @ [x]) = hpack_keep (4096 - n) es"
      using False hpack_keep_snoc[of "4096 - n" es x] by simp
    ultimately show ?thesis using drop_oldest_ok[OF snoc.prems] snoc.IH
      by (subst make_room.simps) (fastforce simp del: hpack_keep.simps)
  qed
qed

section \<open>Adding an entry\<close>

lemma slots_ok_add:
  assumes "slots_ok tail es f entries indices" "unat ix = tail + length es + 1" "j < 256"
  shows "slots_ok tail (e # es) f (entries[j := Some (f e)]) (indices[j := ix])"
proof -
  have "index_holds tail (e # es) f i x" if "index_holds tail es f i x" for i x
    using that by (auto simp: index_holds_def Suc_diff_le)
  moreover have "index_holds tail (e # es) f (unat ix) (f e)" using assms(2) by (simp add: index_holds_def)
  ultimately show ?thesis using assms(1,3) by (auto simp: slots_ok_def nth_list_update)
qed

lemma sizes_ok_add:
  assumes "sizes_ok tail es sizes" "unat n = hpack_entry_size e" "length es < 128"
  shows "sizes_ok tail (e # es) (sizes[(tail + length es + 1) mod 128 := n])"
proof -
  let ?k = "(tail + length es + 1) mod 128"
  have l: "?k < 128" "length sizes = 128" using assms(1) by (simp_all add: sizes_ok_def)
  have "unat (sizes[?k := n] ! ((tail + length (e # es) - i) mod 128)) = hpack_entry_size ((e # es) ! i)"
    if i: "i < length (e # es)" for i
  proof (cases i)
    case 0
    then show ?thesis using l assms(2) by simp
  next
    case (Suc k)
    have "(tail + length es - k) mod 128 \<noteq> (tail + length es - k + Suc k) mod 128"
      using ring_slots[of 0 "Suc k" "tail + length es - k"] i Suc assms(3) by simp
    moreover have "tail + length es - k + Suc k = tail + length es + 1" using i Suc by simp
    ultimately have "(tail + length es - k) mod 128 \<noteq> ?k" by metis
    then show ?thesis using assms(1) i Suc by (simp add: sizes_ok_def)
  qed
  then show ?thesis using l(2) unfolding sizes_ok_def by simp
qed

lemma hash_fragments [simp]: "HASH_FRAGMENT_1 h < 256" "HASH_FRAGMENT_2 h < 256" "HASH_FRAGMENT_3 h < 256"
proof -
  have "unat (x AND 255 :: u32) < 256" for x :: u32
  proof -
    have "x AND 255 \<le> 255" by (rule word_and_le1)
    then show ?thesis by (simp add: word_le_nat_alt)
  qed
  then show "HASH_FRAGMENT_1 h < 256" "HASH_FRAGMENT_2 h < 256" "HASH_FRAGMENT_3 h < 256"
    by (simp_all add: HASH_FRAGMENT_1_def HASH_FRAGMENT_2_def HASH_FRAGMENT_3_def)
qed

lemma cuckoo_slot_less [simp]: "cuckoo_slot entries indices h x < 256"
  by (simp add: cuckoo_slot_def)

text \<open>Keys are not empty, so an entry takes 33 bytes or more.\<close>

lemma entries_bound: "\<forall>e \<in> set es. md_key e \<noteq> [] \<Longrightarrow> 33 * length es \<le> hpack_size es"
proof (induction es)
  case (Cons e es)
  then have "1 \<le> length (md_key e)" by (simp add: Suc_le_eq)
  with Cons show ?case by (simp add: hpack_entry_size_def)
qed simp

lemma hpack_keep_set: "set (hpack_keep n es) \<subseteq> set es"
  by (induction n es rule: hpack_keep.induct) auto

lemma hpack_keep_length: "length (hpack_keep n es) \<le> length es"
  by (induction n es rule: hpack_keep.induct) auto

lemma add_elem_ok:
  assumes "enc_sync c es" "md_key e \<noteq> []" "hpack_entry_size e \<le> 4096" "enc_inserted c + 1 < 4294967296"
  shows "\<exists>c1 r. add_elem c e = Some (c1, r) \<and> enc_sync c1 (hpack_insert 4096 e es) \<and>
    enc_inserted c1 = enc_inserted c + 1 \<and> hash_seed c1 = hash_seed c"
proof -
  let ?n = "hpack_entry_size e" and ?xs = "hpack_keep (4096 - hpack_entry_size e) es"
  from make_room_ok[OF assms(1,3)] obtain c1 where c1: "make_room (word_of_nat ?n) c = Some c1" "enc_sync c1 ?xs"
    "enc_inserted c1 = enc_inserted c" "hash_seed c1 = hash_seed c" by blast
  define ix where "ix = tail_remote_index c + ucast (table_elems c) + 1"
  have ix: "unat ix = enc_inserted c + 1"
    using assms(4) by (simp add: ix_def enc_inserted_def unat_word_ariths unat_ucast_16)
  have size: "32 + word_of_nat (length (md_key e)) + word_of_nat (length (md_value e)) = (word_of_nat ?n :: u32)"
    by (simp add: hpack_entry_size_def)
  have keep: "hpack_size ?xs + ?n \<le> 4096" using hpack_keep_size[of "4096 - ?n" es] assms(3) by simp
  have keys: "\<forall>x \<in> set ?xs. md_key x \<noteq> []" using c1(2) by (simp add: enc_sync_def)
  have "33 * length ?xs \<le> 4096" using entries_bound[OF keys] keep by linarith
  then have len: "length ?xs < 128" by linarith
  have el: "unat (table_elems c1) = length ?xs" using c1(2) by (simp add: enc_sync_def)
  have tail: "unat (tail_remote_index c1) + length ?xs = enc_inserted c" using c1(3) el by (simp add: enc_inserted_def)
  have n16: "unat (ucast (word_of_nat ?n :: u32) :: u16) = ?n" "(ucast (word_of_nat ?n :: u32) :: u16) = word_of_nat ?n"
  proof -
    show "(ucast (word_of_nat ?n :: u32) :: u16) = word_of_nat ?n"
      using assms(3) by (intro word_unat_eq_iff[THEN iffD2]) (simp add: unsigned_ucast_eq unsigned_of_nat take_bit_nat_eq_self)
    then show "unat (ucast (word_of_nat ?n :: u32) :: u16) = ?n" using assms(3) by simp
  qed
  define i where "i = cuckoo_slot (entries_elems c1) (indices_elems c1) (mdelem_hash c e) e"
  define j where "j = cuckoo_slot (entries_keys c1) (indices_keys c1) (mdstr_hash c (md_key e)) (md_key e)"
  define c2 where "c2 = c1\<lparr>table_elem_size := (table_elem_size c1)[table_slot ix := word_of_nat ?n],
      table_size := table_size c1 + word_of_nat ?n, table_elems := table_elems c1 + 1,
      entries_elems := (entries_elems c1)[i := Some e], indices_elems := (indices_elems c1)[i := ix],
      entries_keys := (entries_keys c1)[j := Some (md_key e)], indices_keys := (indices_keys c1)[j := ix]\<rparr>"
  have "add_elem c e = Some (c2, entries_elems c1 ! i)"
    using c1(1) len el
    by (simp add: add_elem_def Let_def size n16(2) compressor_constants c2_def i_def j_def flip: ix_def)
  moreover have slots: "slots_ok (unat (tail_remote_index c1)) (e # ?xs) (\<lambda>e. e) ((entries_elems c1)[i := Some e]) ((indices_elems c1)[i := ix])"
    "slots_ok (unat (tail_remote_index c1)) (e # ?xs) md_key ((entries_keys c1)[j := Some (md_key e)]) ((indices_keys c1)[j := ix])"
    using slots_ok_add[of "unat (tail_remote_index c1)" ?xs "\<lambda>e. e" _ _ ix i e]
      slots_ok_add[of "unat (tail_remote_index c1)" ?xs md_key _ _ ix j e] c1(2) ix tail
    by (simp_all add: enc_sync_def i_def j_def)
  moreover have "table_slot ix = (unat (tail_remote_index c1) + length ?xs + 1) mod 128"
    by (simp add: table_slot_def compressor_constants ix tail)
  then have "sizes_ok (unat (tail_remote_index c1)) (e # ?xs) ((table_elem_size c1)[table_slot ix := word_of_nat ?n])"
    using sizes_ok_add[of "unat (tail_remote_index c1)" ?xs _ "word_of_nat ?n" e] c1(2) n16 len
    by (simp add: enc_sync_def)
  moreover have "unat (table_elems c1 + 1) = Suc (length ?xs)" "unat (table_size c1 + word_of_nat ?n) = hpack_size ?xs + ?n"
    using el len c1(2) keep assms(3) by (simp_all add: unat_word_ariths enc_sync_def)
  moreover have "hpack_insert 4096 e es = e # ?xs" using assms(3) by (simp add: hpack_insert_def)
  ultimately show ?thesis
    using keep keys assms(2,4) tail c1(2,4)
    by (intro exI[of _ c2] exI[of _ "entries_elems c1 ! i"]) (simp add: enc_sync_def enc_inserted_def c2_def)
qed

section \<open>Reading what was written\<close>

text \<open>A parser between two headers, whose table holds these entries.\<close>

definition parser_at :: "'u grpc_chttp2_hpack_parser \<Rightarrow> grpc_mdelem list \<Rightarrow> bool" where
  "parser_at p es \<longleftrightarrow> hpack_base p \<and> hptbl_ok (table p) \<and> hptbl_entries (table p) = es"

text \<open>The bytes are read as one header, if the callback accepts it.\<close>

definition reads_header :: "'u grpc_chttp2_hpack_parser \<Rightarrow> bytes \<Rightarrow> grpc_mdelem \<Rightarrow> grpc_mdelem list \<Rightarrow> bool" where
  "reads_header p bs md es' \<longleftrightarrow>
     (\<forall>u cur. on_header p (on_header_user_data p) md = Some u \<longrightarrow>
        (\<exists>q. hpack_run Parse_begin p (bs @ cur) = hpack_run Parse_begin q cur \<and> parser_at q es' \<and>
           on_header q = on_header p \<and> on_header_user_data q = u))"

definition entries_after :: "bool \<Rightarrow> grpc_mdelem \<Rightarrow> grpc_mdelem list \<Rightarrow> grpc_mdelem list" where
  "entries_after add md es = (if add then hpack_insert 4096 md es else es)"

lemma header_read_at:
  assumes "header_read p md add q" "parser_at p es" "add \<longrightarrow> hpack_entry_size md < 65536"
    "on_header p (on_header_user_data p) md = Some u"
  shows "parser_at q (entries_after add md es) \<and> on_header q = on_header p \<and> on_header_user_data q = u"
proof (cases add)
  case True
  with assms hptbl_add_refines[of "table p" md] show ?thesis
    by (auto simp: header_read_def parser_at_def entries_after_def)
next
  case False
  with assms show ?thesis by (auto simp: header_read_def parser_at_def entries_after_def)
qed

lemma parser_add: "parser_at p es \<Longrightarrow> hpack_entry_size md < 65536 \<Longrightarrow> \<exists>t. grpc_chttp2_hptbl_add (table p) md = Some t"
  using hptbl_add_refines[of "table p" md] by (auto simp: parser_at_def)

lemma indexed_reads:
  assumes "parser_at p es" "grpc_chttp2_hptbl_lookup (table p) i = Some (Some md)" "0 < unat i"
  shows "reads_header p (varint_bytes (uint i) 1 0x80) md es"
  unfolding reads_header_def
proof (intro allI impI)
  fix u cur
  assume u: "on_header p (on_header_user_data p) md = Some u"
  have "unat i < 4294967296" by (rule unat_u32_less)
  from indexed_field_read[of p "unat i" md u cur] this assms u obtain q where
    q: "hpack_run Parse_begin p (varint_bytes (uint i) 1 0x80 @ cur) = hpack_run Parse_begin q cur" "header_read p md False q"
    by (auto simp: parser_at_def)
  from header_read_at[OF q(2) assms(1) _ u] q(1)
  show "\<exists>q. hpack_run Parse_begin p (varint_bytes (uint i) 1 0x80 @ cur) = hpack_run Parse_begin q cur \<and> parser_at q es \<and>
      on_header q = on_header p \<and> on_header_user_data q = u" by (auto simp: entries_after_def)
qed

lemma indexed_key_reads:
  assumes "parser_at p es" "grpc_chttp2_hptbl_lookup (table p) i = Some (Some e)" "0 < unat i"
    "\<not> grpc_is_binary_header (md_key e)" "length xs < 4294967295" "md = \<lparr> md_key = md_key e, md_value = xs \<rparr>"
    "add \<longrightarrow> hpack_entry_size md < 65536"
  shows "reads_header p (indexed_key_bytes add i xs) md (entries_after add md es)"
  unfolding reads_header_def
proof (intro allI impI)
  fix u cur
  assume u: "on_header p (on_header_user_data p) md = Some u"
  have i: "unat i < 4294967296" "word_of_nat (unat i) = i" "int (unat i) = uint i" by (rule unat_u32_less) simp_all
  have "\<exists>q. hpack_run Parse_begin p (varint_bytes (int (unat i)) (literal_bits add) (literal_prefix add) @
      varint_bytes (int (length xs)) 1 0 @ xs @ cur) = hpack_run Parse_begin q cur \<and>
    header_read p \<lparr> md_key = md_key e, md_value = xs \<rparr> add q"
    using assms u parser_add[OF assms(1)] i
    by (intro literal_indexed_read) (auto simp: parser_at_def string_sent_def)
  then obtain q where q: "hpack_run Parse_begin p (indexed_key_bytes add i xs @ cur) = hpack_run Parse_begin q cur"
    "header_read p md add q" by (auto simp: indexed_key_bytes_def assms(6))
  from header_read_at[OF q(2) assms(1,7) u] q(1)
  show "\<exists>q. hpack_run Parse_begin p (indexed_key_bytes add i xs @ cur) = hpack_run Parse_begin q cur \<and>
      parser_at q (entries_after add md es) \<and> on_header q = on_header p \<and> on_header_user_data q = u" by blast
qed

lemma new_key_reads:
  assumes "parser_at p es" "varint_prefix 7 vp" "string_sent (drop_bit 7 vp \<noteq> 0) (grpc_is_binary_header (md_key md)) (md_value md) ws"
    "length (md_key md) < 4294967295" "length ws < 4294967296" "length (md_value md) < 4294967295"
    "add \<longrightarrow> hpack_entry_size md < 65536"
  shows "reads_header p (new_key_bytes add (md_key md) vp ws) md (entries_after add md es)"
  unfolding reads_header_def
proof (intro allI impI)
  fix u cur
  assume u: "on_header p (on_header_user_data p) md = Some u"
  have md: "\<lparr> md_key = md_key md, md_value = md_value md \<rparr> = md" by simp
  note read = literal_new_read[where p = p and vp = vp and k = "md_key md" and xs = "md_value md" and ws = ws and u = u
      and add = add and cur = cur, unfolded md]
  have "\<exists>q. hpack_run Parse_begin p (literal_prefix add # varint_bytes (int (length (md_key md))) 1 0 @ md_key md @
      varint_bytes (int (length ws)) 1 vp @ ws @ cur) = hpack_run Parse_begin q cur \<and> header_read p md add q"
    using assms u parser_add[OF assms(1)] by (intro read) (auto simp: parser_at_def)
  then obtain q where q: "hpack_run Parse_begin p (new_key_bytes add (md_key md) vp ws @ cur) = hpack_run Parse_begin q cur"
    "header_read p md add q" by (auto simp: new_key_bytes_def)
  from header_read_at[OF q(2) assms(1,7) u] q(1)
  show "\<exists>q. hpack_run Parse_begin p (new_key_bytes add (md_key md) vp ws @ cur) = hpack_run Parse_begin q cur \<and>
      parser_at q (entries_after add md es) \<and> on_header q = on_header p \<and> on_header_user_data q = u" by blast
qed

text \<open>A live slot names an entry that the decoder finds.\<close>

lemma live_index_lookup:
  assumes "enc_sync c es" "slots_ok (unat (tail_remote_index c)) es f entries indices" "j < 256"
    "live_index c entries indices j x"
  shows "\<exists>m \<in> set es. f m = x \<and> 0 < unat (dynidx c (indices ! j)) \<and>
    (\<forall>t. hptbl_ok t \<and> hptbl_entries t = es \<longrightarrow> grpc_chttp2_hptbl_lookup t (dynidx c (indices ! j)) = Some (Some m))"
proof -
  let ?i = "indices ! j" and ?t = "tail_remote_index c"
  have live: "unat ?t < unat ?i" "unat ?i \<le> unat ?t + length es" "f (es ! (unat ?t + length es - unat ?i)) = x"
    using assms(2-4) by (auto simp: slots_ok_def live_index_def index_holds_def word_less_nat_alt)
  let ?pos = "unat ?t + length es - unat ?i"
  have pos: "?pos < length es" using live(1,2) by linarith
  have len: "length es \<le> 128" "unat (table_elems c) = length es"
    using assms(1) hpack_size_length[of es] by (auto simp: enc_sync_def)
  have "dynidx c ?i = word_of_nat (62 + ?pos)"
  proof -
    have "(word_of_nat (62 + ?pos) :: u32) + word_of_nat (unat ?i) = word_of_nat (62 + unat ?t + length es)"
      using live(2) by (simp add: ac_simps flip: of_nat_add)
    moreover have "(ucast (table_elems c) :: u32) = word_of_nat (length es)"
      using len by (intro word_unat_eq_iff[THEN iffD2]) (simp add: unat_ucast_16 unat_of_nat_u32)
    ultimately show ?thesis by (simp add: dynidx_def algebra_simps)
  qed
  moreover have "unat (word_of_nat (62 + ?pos) :: u32) = 62 + ?pos" using pos len(1) by (intro unat_of_nat_u32) simp
  ultimately have i: "unat (dynidx c ?i) = 62 + ?pos" by (simp only:)
  then have "grpc_chttp2_hptbl_lookup t (dynidx c ?i) = Some (Some (es ! ?pos))"
    if "hptbl_ok t" "hptbl_entries t = es" for t
    using hptbl_lookup_correct[OF that(1), of "dynidx c ?i"] that(2) pos by (auto simp: unat_eq_0[symmetric])
  with live(3) pos i show ?thesis by (intro bexI[of _ "es ! ?pos"]) auto
qed

section \<open>One header\<close>

text \<open>The header block has grown; the mark for regular headers may be set.\<close>

definition headers_sent :: "framer_state \<Rightarrow> bytes \<Rightarrow> framer_state \<Rightarrow> bool" where
  "headers_sent st bs st' \<longleftrightarrow> block_grows (st\<lparr>seen_regular_header := seen_regular_header st'\<rparr>) bs st'"

lemma frame_open_seen [simp]: "frame_open (st\<lparr>seen_regular_header := s\<rparr>) prev payload = frame_open st prev payload"
  by (simp add: frame_open_def)

lemma header_open_seen [simp]: "header_open (st\<lparr>seen_regular_header := s\<rparr>) = header_open st"
  by (simp add: header_open_def)

lemma headers_sent_open: "headers_sent st bs st' \<Longrightarrow> header_open st \<Longrightarrow> header_open st'"
  using block_grows_open by (fastforce simp: headers_sent_def)

lemma headers_sent_refl [simp]: "headers_sent st [] st"
  by (simp add: headers_sent_def)

lemma headers_sent_trans:
  assumes "headers_sent st xs st1" "headers_sent st1 ys st2"
  shows "headers_sent st (xs @ ys) st2"
proof -
  have "block_grows (st\<lparr>seen_regular_header := seen_regular_header st2\<rparr>) xs (st1\<lparr>seen_regular_header := seen_regular_header st2\<rparr>)"
    using assms(1) by (simp add: headers_sent_def block_grows_def)
  from block_grows_trans[OF this] assms(2) show ?thesis by (simp add: headers_sent_def)
qed

text \<open>Writing succeeds, and any parser with the same entries reads the header back.\<close>

definition header_written ::
    "'u grpc_chttp2_hpack_parser itself \<Rightarrow> framer_state \<Rightarrow> framer_state \<Rightarrow> grpc_mdelem \<Rightarrow> grpc_mdelem list \<Rightarrow> grpc_mdelem list \<Rightarrow> bool" where
  "header_written T st st' md es es' \<longleftrightarrow>
     (\<exists>bs. block_grows st bs st' \<and> (\<forall>p :: 'u grpc_chttp2_hpack_parser. parser_at p es \<longrightarrow> reads_header p bs md es'))"

lemma header_writtenI:
  fixes T :: "'u grpc_chttp2_hpack_parser itself"
  assumes "emits f bs" "header_open st"
    "\<And>p :: 'u grpc_chttp2_hpack_parser. parser_at p es \<Longrightarrow> reads_header p bs md es'"
  shows "\<exists>st'. f st = Some st' \<and> header_written T st st' md es es'"
  using assms by (fastforce simp: emits_def header_written_def)

definition header_small :: "grpc_mdelem \<Rightarrow> bool" where
  "header_small e \<longleftrightarrow> md_key e \<noteq> [] \<and> length (md_key e) < 1000000000 \<and> length (md_value e) < 1000000000"

lemma emit_hit:
  fixes T :: "'u grpc_chttp2_hpack_parser itself"
  assumes "enc_sync c es" "live_index c (entries_elems c) (indices_elems c) j e" "j < 256" "header_open st"
  shows "\<exists>st'. emit_indexed (dynidx c (indices_elems c ! j)) st = Some st' \<and> header_written T st st' e es es"
proof -
  from live_index_lookup[OF assms(1) _ assms(3,2), of "\<lambda>e. e"] assms(1)
  have "0 < unat (dynidx c (indices_elems c ! j))"
    "\<And>t. hptbl_ok t \<Longrightarrow> hptbl_entries t = es \<Longrightarrow> grpc_chttp2_hptbl_lookup t (dynidx c (indices_elems c ! j)) = Some (Some e)"
    by (auto simp: enc_sync_def)
  note i = this
  show ?thesis
  proof (rule header_writtenI[OF emit_indexed_emits assms(4)])
    fix p :: "'u grpc_chttp2_hpack_parser"
    assume "parser_at p es"
    with i show "reads_header p (varint_bytes (uint (dynidx c (indices_elems c ! j))) 1 0x80) e es"
      by (intro indexed_reads) (auto simp: parser_at_def)
  qed
qed

text \<open>An element that is added is small.\<close>

lemma should_add_size: "should_add_elem c e \<Longrightarrow> hpack_entry_size e < 512"
  by (auto simp: should_add_elem_def hpack_entry_size_def compressor_constants)

lemma add_elem_after:
  assumes "enc_sync c es" "header_small e" "should_add_elem c e" "enc_inserted c + 1 < 4294967296"
  shows "\<exists>c1 r. add_elem c e = Some (c1, r) \<and> enc_sync c1 (entries_after True e es) \<and> enc_inserted c1 \<le> enc_inserted c + 1"
  using add_elem_ok[OF assms(1) _ _ assms(4), of e] should_add_size[OF assms(3)] assms(2)
  by (auto simp: entries_after_def header_small_def)

lemma enc_key_ok:
  fixes T :: "'u grpc_chttp2_hpack_parser itself"
  assumes "enc_sync c es" "live_index c (entries_keys c) (indices_keys c) j (md_key e)" "j < 256" "header_open st"
    "header_small e" "\<not> grpc_is_binary_header (md_key e)" "enc_inserted c + 1 < 4294967296"
  shows "\<exists>c1 st' r. hpack_enc_key c (indices_keys c ! j) e st = Some (c1, st', r) \<and>
    header_written T st st' e es (entries_after (should_add_elem c e) e es) \<and>
    enc_sync c1 (entries_after (should_add_elem c e) e es) \<and> enc_inserted c1 \<le> enc_inserted c + 1"
proof -
  let ?i = "dynidx c (indices_keys c ! j)" and ?add = "should_add_elem c e"
  from live_index_lookup[OF assms(1) _ assms(3,2), of md_key] assms(1) obtain m where m: "md_key m = md_key e" "0 < unat ?i"
    "\<And>t. hptbl_ok t \<Longrightarrow> hptbl_entries t = es \<Longrightarrow> grpc_chttp2_hptbl_lookup t ?i = Some (Some m)"
    by (auto simp: enc_sync_def)
  from get_wire_value_ok[of e] assms(5,6) obtain s where s: "get_wire_value e = Some (s, 0)" "slice_ok s"
    "slice_bytes s = md_value e" "length (slice_bytes s) < 2147483648"
    by (auto simp: header_small_def string_sent_def)
  have "\<exists>st'. (if ?add then emit_lithdr_incidx ?i e else emit_lithdr_noidx ?i e) st = Some st' \<and>
      header_written T st st' e es (entries_after ?add e es)"
  proof (rule header_writtenI[OF emit_lithdr_emits[OF s(1,2,4)] assms(4)])
    fix p :: "'u grpc_chttp2_hpack_parser"
    assume p: "parser_at p es"
    show "reads_header p (indexed_key_bytes ?add ?i (slice_bytes s)) e (entries_after ?add e es)"
      unfolding s(3) using p m assms(5,6) should_add_size[of c e]
      by (intro indexed_key_reads[of p es _ m]) (auto simp: parser_at_def header_small_def)
  qed
  then obtain st' where st': "(if ?add then emit_lithdr_incidx ?i e else emit_lithdr_noidx ?i e) st = Some st'"
    "header_written T st st' e es (entries_after ?add e es)" by blast
  show ?thesis
  proof (cases ?add)
    case True
    from add_elem_after[OF assms(1,5) True assms(7)] st' True show ?thesis
      by (auto simp: hpack_enc_key_def)
  next
    case False
    with st' assms(1) show ?thesis by (simp add: hpack_enc_key_def entries_after_def)
  qed
qed

lemma enc_new_ok:
  fixes T :: "'u grpc_chttp2_hpack_parser itself"
  assumes "enc_sync c es" "header_open st" "header_small e" "enc_inserted c + 1 < 4294967296"
  shows "\<exists>c1 st' r. (if should_add_elem c e
      then do { st \<leftarrow> emit_lithdr_incidx_v e st; (c, unref) \<leftarrow> add_elem c e; Some (c, st, unref) }
      else do { st \<leftarrow> emit_lithdr_noidx_v e st; Some (c, st, Some e) }) = Some (c1, st', r) \<and>
    header_written T st st' e es (entries_after (should_add_elem c e) e es) \<and>
    enc_sync c1 (entries_after (should_add_elem c e) e es) \<and> enc_inserted c1 \<le> enc_inserted c + 1"
proof -
  let ?add = "should_add_elem c e" and ?b = "grpc_is_binary_header (md_key e)"
  from get_wire_value_ok[of e] assms(3) obtain s where s: "get_wire_value e = Some (s, if ?b then 0x80 else 0)" "slice_ok s"
    "string_sent ?b ?b (md_value e) (slice_bytes s)" "length (slice_bytes s) < 2147483648"
    by (auto simp: header_small_def)
  have k: "length (md_key e) < 2147483648" using assms(3) by (simp add: header_small_def)
  have d: "(drop_bit 7 (if ?b then 0x80 else 0 :: u8) \<noteq> 0) = ?b" by simp
  have "\<exists>st'. (if ?add then emit_lithdr_incidx_v e else emit_lithdr_noidx_v e) st = Some st' \<and>
      header_written T st st' e es (entries_after ?add e es)"
  proof (rule header_writtenI[OF emit_lithdr_v_emits[OF s(1,2,4) k] assms(2)])
    fix p :: "'u grpc_chttp2_hpack_parser"
    assume p: "parser_at p es"
    show "reads_header p (new_key_bytes ?add (md_key e) (if ?b then 0x80 else 0) (slice_bytes s)) e (entries_after ?add e es)"
      by (rule new_key_reads[OF p]) (use s(3,4) k d assms(3) should_add_size[of c e] in \<open>auto simp: header_small_def\<close>)
  qed
  then obtain st' where st': "(if ?add then emit_lithdr_incidx_v e else emit_lithdr_noidx_v e) st = Some st'"
    "header_written T st st' e es (entries_after ?add e es)" by blast
  show ?thesis
  proof (cases ?add)
    case True
    from add_elem_after[OF assms(1,3) True assms(4)] st' True show ?thesis by auto
  next
    case False
    with st' assms(1) show ?thesis by (simp add: entries_after_def)
  qed
qed

lemma inc_filter_length: "inc_filter i n fs = (m, gs) \<Longrightarrow> length gs = length fs"
  by (auto simp: inc_filter_def Let_def split: if_splits)

lemma enc_sync_filters:
  "enc_sync c es \<Longrightarrow> length fs = 256 \<Longrightarrow> enc_sync (c\<lparr>filter_elems_sum := n, filter_elems := fs\<rparr>) es"
  by (simp add: enc_sync_def)

text \<open>
  The order of pseudo headers, and the exception: the key of a binary header must not be in
  the table, as its value would then be sent without the mark for compression.
\<close>

definition regular_header :: "grpc_mdelem \<Rightarrow> bool" where
  "regular_header e \<longleftrightarrow> hd (md_key e) \<noteq> of_char (CHR '':'')"

definition header_sendable :: "bool \<Rightarrow> bytes set \<Rightarrow> grpc_mdelem \<Rightarrow> bool" where
  "header_sendable seen keys e \<longleftrightarrow>
     header_small e \<and> (regular_header e \<or> \<not> seen) \<and> (grpc_is_binary_header (md_key e) \<longrightarrow> md_key e \<notin> keys)"

definition header_synced ::
    "'u grpc_chttp2_hpack_parser itself \<Rightarrow> framer_state \<Rightarrow> framer_state \<Rightarrow> grpc_mdelem \<Rightarrow> grpc_mdelem list \<Rightarrow>
      grpc_chttp2_hpack_compressor \<Rightarrow> nat \<Rightarrow> bool" where
  "header_synced T st st' e es c1 n \<longleftrightarrow>
     (\<exists>add. header_written T st st' e es (entries_after add e es) \<and> enc_sync c1 (entries_after add e es) \<and> enc_inserted c1 \<le> n + 1)"

lemma header_syncedI:
  "header_written T st st' e es (entries_after add e es) \<Longrightarrow> enc_sync c1 (entries_after add e es) \<Longrightarrow>
     enc_inserted c1 \<le> n + 1 \<Longrightarrow> header_synced T st st' e es c1 n"
  by (auto simp: header_synced_def)

lemma entries_after_keys: "md_key ` set (entries_after add e es) \<subseteq> insert (md_key e) (md_key ` set es)"
  using hpack_keep_set[of "4096 - hpack_entry_size e" es] by (auto simp: entries_after_def hpack_insert_def)

text \<open>The key of a binary header that is not in the table has no live slot.\<close>

lemma binary_key_dead:
  assumes "enc_sync c es" "j < 256" "md_key e \<notin> md_key ` set es"
  shows "\<not> live_index c (entries_keys c) (indices_keys c) j (md_key e)"
proof
  assume live: "live_index c (entries_keys c) (indices_keys c) j (md_key e)"
  have "slots_ok (unat (tail_remote_index c)) es md_key (entries_keys c) (indices_keys c)"
    using assms(1) by (simp add: enc_sync_def)
  from live_index_lookup[OF assms(1) this assms(2) live] obtain m where "m \<in> set es" "md_key m = md_key e" by blast
  with assms(3) show False by force
qed

lemma hpack_enc_ok:
  fixes T :: "'u grpc_chttp2_hpack_parser itself"
  assumes "enc_sync c es" "header_open st" "header_sendable (seen_regular_header st) (md_key ` set es) e"
    "enc_inserted c + 1 < 4294967296"
  defines "st0 \<equiv> st\<lparr>seen_regular_header := seen_regular_header st \<or> regular_header e\<rparr>"
  shows "\<exists>c1 st' r. hpack_enc c e st = Some (c1, st', r) \<and> header_synced T st0 st' e es c1 (enc_inserted c)"
proof -
  have small: "header_small e" and seen: "regular_header e \<or> \<not> seen_regular_header st"
    and bin: "grpc_is_binary_header (md_key e) \<Longrightarrow> md_key e \<notin> md_key ` set es"
    using assms(3) by (auto simp: header_sendable_def)
  obtain n fs where f: "inc_filter (HASH_FRAGMENT_1 (mdelem_hash c e)) (filter_elems_sum c) (filter_elems c) = (n, fs)" by force
  define c0 where "c0 = c\<lparr>filter_elems_sum := n, filter_elems := fs\<rparr>"
  have sync: "enc_sync c0 es"
    using enc_sync_filters[OF assms(1)] inc_filter_length[OF f] assms(1) by (simp add: c0_def enc_sync_def)
  have ins: "enc_inserted c0 = enc_inserted c" by (simp add: c0_def enc_inserted_def)
  have o: "header_open st0" using assms(2) by (simp add: st0_def)
  have mark: "(if regular_header e then Some (st\<lparr>seen_regular_header := True\<rparr>)
      else do { gpr_assert (\<not> seen_regular_header st); Some st }) = Some st0"
    using seen by (cases st) (auto simp: st0_def)
  define key_hash where "key_hash = mdstr_hash c (md_key e)"
  define elem_hash where "elem_hash = mdelem_hash c e"
  let ?elem = "\<lambda>j. live_index c0 (entries_elems c0) (indices_elems c0) j e"
  let ?key = "\<lambda>j. live_index c0 (entries_keys c0) (indices_keys c0) j (md_key e)"
  let ?e2 = "HASH_FRAGMENT_2 elem_hash" and ?e3 = "HASH_FRAGMENT_3 elem_hash"
  let ?k2 = "HASH_FRAGMENT_2 key_hash" and ?k3 = "HASH_FRAGMENT_3 key_hash"
  let ?hit = "\<lambda>j. do { st \<leftarrow> emit_indexed (dynidx c0 (indices_elems c0 ! j)) st0; Some (c0, st, Some e) }"
  let ?new = "if should_add_elem c0 e
      then do { st \<leftarrow> emit_lithdr_incidx_v e st0; (c, unref) \<leftarrow> add_elem c0 e; Some (c, st, unref) }
      else do { st \<leftarrow> emit_lithdr_noidx_v e st0; Some (c0, st, Some e) }"
  have run: "hpack_enc c e st =
      (if ?elem ?e2 then ?hit ?e2 else if ?elem ?e3 then ?hit ?e3
       else if ?key ?k2 then hpack_enc_key c0 (indices_keys c0 ! ?k2) e st0
       else if ?key ?k3 then hpack_enc_key c0 (indices_keys c0 ! ?k3) e st0 else ?new)"
    using small mark
    unfolding hpack_enc_def Let_def key_hash_def[symmetric] elem_hash_def[symmetric] f[folded elem_hash_def] regular_header_def
    by (simp add: header_small_def c0_def)
  have hit: "\<exists>c1 st' r. ?hit j = Some (c1, st', r) \<and> header_synced T st0 st' e es c1 (enc_inserted c)" if "?elem j" "j < 256" for j
    using emit_hit[OF sync that o, where T = T] sync ins
    by (auto simp: entries_after_def intro!: header_syncedI[where add = False])
  have key: "\<exists>c1 st' r. hpack_enc_key c0 (indices_keys c0 ! j) e st0 = Some (c1, st', r) \<and>
      header_synced T st0 st' e es c1 (enc_inserted c)" if j: "?key j" "j < 256" for j
  proof -
    have "\<not> grpc_is_binary_header (md_key e)" using binary_key_dead[OF sync j(2), of e] j(1) bin by blast
    from enc_key_ok[OF sync j o small this, where T = T] assms(4) ins show ?thesis
      by (auto intro!: header_syncedI)
  qed
  have new: "\<exists>c1 st' r. ?new = Some (c1, st', r) \<and> header_synced T st0 st' e es c1 (enc_inserted c)"
    using enc_new_ok[OF sync o small, where T = T] assms(4) ins by (auto intro!: header_syncedI)
  show ?thesis
    unfolding run using hit[of ?e2] hit[of ?e3] key[of ?k2] key[of ?k3] new hash_fragments by (simp only: split: if_split) blast
qed

end
