(* ===== verification/Stream_Encoder.thy ===== *)
theory Stream_Encoder
  imports Encoder_Sync
begin

text \<open>
  The public half of \<^verbatim>\<open>src/core/transport/chttp2/stream_encoder.c\<close>: the choice of the stream
  operations that flow control lets through, and their encoding as frames. The elements
  whose references are released at the end are not tracked.
\<close>

section \<open>Stream operations\<close>

record grpc_metadata_batch =
  metadata_list :: "grpc_mdelem list"
  metadata_garbage :: "grpc_mdelem list"
  metadata_deadline :: gpr_timespec

datatype grpc_stream_op =
    GRPC_NO_OP
  | GRPC_OP_METADATA grpc_metadata_batch
  | GRPC_OP_BEGIN_MESSAGE u32 u32 \<comment> \<open>length and flags\<close>
  | GRPC_OP_SLICE gpr_slice

definition GRPC_WRITE_INTERNAL_COMPRESS :: u32 where
  "GRPC_WRITE_INTERNAL_COMPRESS = 0x80000000"

section \<open>Flow control\<close>

definition begin_message_slice :: "u32 \<Rightarrow> u32 \<Rightarrow> gpr_slice" where
  "begin_message_slice len flags =
     gpr_slice_malloc [if flags AND GRPC_WRITE_INTERNAL_COMPRESS \<noteq> 0 then 1 else 0,
       ucast (drop_bit 24 len), ucast (drop_bit 16 len), ucast (drop_bit 8 len), ucast len]"

text \<open>
  The operation as a slice: one that begins a message becomes the slice of its prefix, also
  when it is not taken.
\<close>

fun slice_of_op :: "grpc_stream_op \<Rightarrow> gpr_slice option" where
  "slice_of_op (GRPC_OP_BEGIN_MESSAGE len flags) = Some (begin_message_slice len flags)"
| "slice_of_op (GRPC_OP_SLICE s) = Some s"
| "slice_of_op _ = None"

text \<open>The loop: the operations that remain, the bytes taken and the operations taken.\<close>

partial_function (option) preencode_loop :: "grpc_stream_op list \<Rightarrow> u32 \<Rightarrow> u32 \<Rightarrow> grpc_stream_op list \<Rightarrow>
    (grpc_stream_op list \<times> u32 \<times> grpc_stream_op list) option" where
  "preencode_loop inops max_flow taken outops =
     (case inops of
        [] \<Rightarrow> Some ([], taken, outops)
      | op # ops \<Rightarrow>
          do {
            gpr_assert (taken \<le> max_flow);
            (case slice_of_op op of
               None \<Rightarrow> preencode_loop ops max_flow taken (if op = GRPC_NO_OP then outops else outops @ [op])
             | Some sl \<Rightarrow>
                 if GPR_SLICE_LENGTH sl = 0 then preencode_loop ops max_flow taken outops
                 else if max_flow - taken = 0 then Some (GRPC_OP_SLICE sl # ops, taken, outops)
                 else if GPR_SLICE_LENGTH sl > unat (max_flow - taken)
                 then do {
                   (rest, first) \<leftarrow> gpr_slice_split_head sl (unat (max_flow - taken));
                   preencode_loop (GRPC_OP_SLICE rest # ops) max_flow (taken + word_of_nat (GPR_SLICE_LENGTH first))
                     (outops @ [GRPC_OP_SLICE first])
                 }
                 else preencode_loop ops max_flow (taken + word_of_nat (GPR_SLICE_LENGTH sl)) (outops @ [GRPC_OP_SLICE sl]))
          })"

definition grpc_chttp2_preencode ::
    "grpc_stream_op list \<Rightarrow> u32 \<Rightarrow> grpc_stream_op list \<Rightarrow> (grpc_stream_op list \<times> u32 \<times> grpc_stream_op list) option" where
  "grpc_chttp2_preencode inops max_flow_controlled_bytes outops = preencode_loop inops max_flow_controlled_bytes 0 outops"

section \<open>Encoding\<close>

fun encode_headers ::
    "grpc_chttp2_hpack_compressor \<Rightarrow> grpc_mdelem list \<Rightarrow> framer_state \<Rightarrow> (grpc_chttp2_hpack_compressor \<times> framer_state) option" where
  "encode_headers c [] st = Some (c, st)"
| "encode_headers c (md # mds) st = do { (c, st, unref) \<leftarrow> hpack_enc c md st; encode_headers c mds st }"

definition encode_metadata ::
    "(gpr_clock_type \<Rightarrow> gpr_timespec) \<Rightarrow> grpc_chttp2_hpack_compressor \<Rightarrow> grpc_metadata_batch \<Rightarrow> framer_state \<Rightarrow>
      (grpc_chttp2_hpack_compressor \<times> framer_state) option" where
  "encode_metadata now c metadata st =
     do {
       st \<leftarrow> begin_new_frame st HEADER;
       (c, st) \<leftarrow> encode_headers c (metadata_list metadata) st;
       let deadline = metadata_deadline metadata;
       cmp \<leftarrow> gpr_time_cmp deadline (gpr_inf_future (clock_type deadline));
       (if cmp \<noteq> 0
        then do { (c, st, unref) \<leftarrow> deadline_enc now c deadline st; Some (c, st) }
        else Some (c, st))
     }"

partial_function (option) encode_slice :: "framer_state \<Rightarrow> gpr_slice \<Rightarrow> framer_state option" where
  "encode_slice st sl =
     do {
       st \<leftarrow> (if cur_frame_type st = DATA \<and>
                buffer_length (framer_output st) - output_length_at_start_of_frame st = GRPC_CHTTP2_MAX_PAYLOAD_LENGTH
             then finish_frame st False False else Some st);
       st \<leftarrow> ensure_frame_type st DATA 1;
       (if GPR_SLICE_LENGTH sl > frame_remaining st
        then do {
          (rest, first) \<leftarrow> gpr_slice_split_head sl (frame_remaining st);
          output \<leftarrow> gpr_slice_buffer_add (framer_output st) first;
          encode_slice (st\<lparr>framer_output := output\<rparr>) rest
        }
        else do {
          output \<leftarrow> gpr_slice_buffer_add (framer_output st) sl;
          Some (st\<lparr>framer_output := output\<rparr>)
        })
     }"

text \<open>Operations that \<^const>\<open>grpc_chttp2_preencode\<close> removes abort.\<close>

fun encode_ops ::
    "(gpr_clock_type \<Rightarrow> gpr_timespec) \<Rightarrow> grpc_chttp2_hpack_compressor \<Rightarrow> grpc_stream_op list \<Rightarrow> framer_state \<Rightarrow>
      (grpc_chttp2_hpack_compressor \<times> framer_state) option" where
  "encode_ops now c [] st = Some (c, st)"
| "encode_ops now c (GRPC_OP_METADATA metadata # ops) st =
     do { (c, st) \<leftarrow> encode_metadata now c metadata st; encode_ops now c ops st }"
| "encode_ops now c (GRPC_OP_SLICE sl # ops) st = do { st \<leftarrow> encode_slice st sl; encode_ops now c ops st }"
| "encode_ops now c (_ # ops) st = None"

text \<open>The fields that the code does not set keep what the memory held, here zeros.\<close>

definition framer_start :: "u32 \<Rightarrow> gpr_slice_buffer \<Rightarrow> framer_state" where
  "framer_start sid output =
     \<lparr> cur_frame_type = NONE, output_length_at_start_of_frame = 0, header_idx = 0, last_was_header = False,
       seen_regular_header = False, stream_id = sid, framer_output = output \<rparr>"

definition grpc_chttp2_encode ::
    "(gpr_clock_type \<Rightarrow> gpr_timespec) \<Rightarrow> grpc_stream_op list \<Rightarrow> bool \<Rightarrow> u32 \<Rightarrow> grpc_chttp2_hpack_compressor \<Rightarrow>
      gpr_slice_buffer \<Rightarrow> (grpc_chttp2_hpack_compressor \<times> gpr_slice_buffer) option" where
  "grpc_chttp2_encode now ops eof sid compressor output =
     do {
       gpr_assert (sid \<noteq> 0);
       (c, st) \<leftarrow> encode_ops now compressor ops (framer_start sid output);
       st \<leftarrow> (if eof \<and> cur_frame_type st = NONE then begin_frame st DATA else Some st);
       st \<leftarrow> finish_frame st True eof;
       Some (c, framer_output st)
     }"

end
