(* ===== verification/Stream_Frames.thy ===== *)
theory Stream_Frames
  imports Stream_Encoder
begin

text \<open>
  What \<^const>\<open>grpc_chttp2_encode\<close> writes: frames in which header blocks are not interrupted, whose
  header payloads the HPACK parser reads back as the headers sent, and whose data payloads are
  the slices.
\<close>

section \<open>Sequences of frames\<close>

text \<open>
  Whether a header block is unfinished after a frame; \<^const>\<open>None\<close> for a frame out of order or too
  long: only continuation frames follow within a header block, and nowhere else. The flag
  END\_STREAM is not looked at here; the encoder sets it on the last frame also when that is a
  continuation frame, for which HTTP/2 does not define it.
\<close>

definition frame_step :: "bool \<Rightarrow> http2_frame \<Rightarrow> bool option" where
  "frame_step unfinished f =
     (if length (wire_payload f) \<le> 16383 \<and>
         (if unfinished then wire_type f = 9 else wire_type f = 0 \<or> wire_type f = 1)
      then Some (wire_type f \<noteq> 0 \<and> wire_flags f AND 4 = 0) else None)"

fun frames_step :: "bool \<Rightarrow> http2_frame list \<Rightarrow> bool option" where
  "frames_step unfinished [] = Some unfinished"
| "frames_step unfinished (f # fs) = do { u \<leftarrow> frame_step unfinished f; frames_step u fs }"

lemma frames_step_append: "frames_step u (fs @ gs) = do { v \<leftarrow> frames_step u fs; frames_step v gs }"
  by (induction u fs rule: frames_step.induct) (auto split: option.splits bind_splits)

definition end_stream :: "http2_frame \<Rightarrow> bool" where
  "end_stream f \<longleftrightarrow> wire_flags f AND 1 \<noteq> 0"

definition header_payload :: "http2_frame list \<Rightarrow> bytes" where
  "header_payload fs = frames_payload (filter (\<lambda>f. wire_type f \<noteq> 0) fs)"

definition data_payload :: "http2_frame list \<Rightarrow> bytes" where
  "data_payload fs = frames_payload (filter (\<lambda>f. wire_type f = 0) fs)"

lemma payload_simps [simp]:
  "header_payload [] = []" "data_payload [] = []"
  "header_payload (fs @ gs) = header_payload fs @ header_payload gs"
  "data_payload (fs @ gs) = data_payload fs @ data_payload gs"
  "header_payload [f] = (if wire_type f = 0 then [] else wire_payload f)"
  "data_payload [f] = (if wire_type f = 0 then wire_payload f else [])"
  by (simp_all add: header_payload_def data_payload_def)

lemma header_frames_facts:
  "header_frames c gs \<Longrightarrow> frames_step c gs = Some (c \<or> gs \<noteq> []) \<and> header_payload gs = frames_payload gs \<and>
     data_payload gs = [] \<and> (\<forall>f \<in> set gs. \<not> end_stream f)"
proof (induction c gs rule: header_frames.induct)
  case (2 c f fs)
  then have "wire_type f \<noteq> 0" by (auto split: if_splits)
  with 2 show ?case
    by (auto simp: frame_step_def end_stream_def header_payload_def data_payload_def split: if_splits)
qed simp

section \<open>The framer between operations\<close>

definition framed_as :: "framer_state \<Rightarrow> bytes \<Rightarrow> bytes \<Rightarrow> bytes \<Rightarrow> http2_frame list \<Rightarrow> bytes \<Rightarrow> bool" where
  "framed_as st base hs ds fs payload \<longleftrightarrow>
     (\<forall>f \<in> set fs. \<not> end_stream f) \<and>
     (case cur_frame_type st of
        NONE \<Rightarrow> frame_closed st (base @ frames_bytes (stream_id st) fs) \<and> frames_step False fs = Some False \<and>
          payload = [] \<and> hs = header_payload fs \<and> ds = data_payload fs
      | HEADER \<Rightarrow> frame_open st (base @ frames_bytes (stream_id st) fs) payload \<and>
          frames_step False fs = Some (last_was_header st) \<and> hs = header_payload fs @ payload \<and> ds = data_payload fs
      | DATA \<Rightarrow> frame_open st (base @ frames_bytes (stream_id st) fs) payload \<and>
          frames_step False fs = Some False \<and> hs = header_payload fs \<and> ds = data_payload fs @ payload)"

text \<open>The output so far: \<open>hs\<close> in header frames and \<open>ds\<close> in data frames, after \<open>base\<close>.\<close>

definition framed :: "framer_state \<Rightarrow> bytes \<Rightarrow> bytes \<Rightarrow> bytes \<Rightarrow> bool" where
  "framed st base hs ds \<longleftrightarrow> (\<exists>fs payload. framed_as st base hs ds fs payload)"

lemma framedI: "framed_as st base hs ds fs payload \<Longrightarrow> framed st base hs ds"
  by (auto simp: framed_def)

lemma framed_start:
  assumes "slice_buffer_ok output"
  shows "framed (framer_start sid output) (buffer_bytes output) [] []"
  unfolding framed_def
  by (rule exI[of _ "[]"], rule exI[of _ "[]"])
    (use assms in \<open>simp add: framed_as_def framer_start_def frame_closed_def\<close>)

text \<open>The last frame is closed; it ends the stream or not.\<close>

lemma finish_framed:
  assumes "framed st base hs ds" "cur_frame_type st \<noteq> NONE" "cur_frame_type st = HEADER \<longrightarrow> boundary"
  shows "\<exists>st' fs f. finish_frame st boundary eof = Some st' \<and> frame_closed st' (base @ frames_bytes (stream_id st) (fs @ [f])) \<and>
    stream_id st' = stream_id st \<and> seen_regular_header st' = seen_regular_header st \<and>
    (\<forall>g \<in> set fs. \<not> end_stream g) \<and> end_stream f = eof \<and> frames_step False (fs @ [f]) = Some False \<and>
    hs = header_payload (fs @ [f]) \<and> ds = data_payload (fs @ [f])"
proof -
  obtain fs payload where fs: "framed_as st base hs ds fs payload" using assms(1) by (auto simp: framed_def)
  define f where "f = finished_frame st boundary eof payload"
  have o: "frame_open st (base @ frames_bytes (stream_id st) fs) payload" "\<forall>g \<in> set fs. \<not> end_stream g"
    using fs assms(2) by (cases "cur_frame_type st"; simp add: framed_as_def)+
  from finish_frame_ok[OF o(1), of boundary eof] obtain st' where
    st': "finish_frame st boundary eof = Some st'" "frame_closed st' (base @ frames_bytes (stream_id st) (fs @ [f]))"
    "stream_id st' = stream_id st" "seen_regular_header st' = seen_regular_header st" by (auto simp: f_def)
  have len: "length payload \<le> 16383" using o(1) by (simp add: frame_open_def)
  have "end_stream f = eof" by (simp add: f_def finished_frame_def end_stream_def)
  moreover have "frames_step False (fs @ [f]) = Some False \<and> hs = header_payload (fs @ [f]) \<and> ds = data_payload (fs @ [f])"
  proof (cases "cur_frame_type st")
    case HEADER
    then show ?thesis using fs assms(3) len
      by (cases eof) (auto simp: framed_as_def frames_step_append frame_step_def f_def finished_frame_def)
  next
    case DATA
    then show ?thesis using fs len
      by (simp add: framed_as_def frames_step_append frame_step_def f_def finished_frame_def)
  next
    case NONE
    with assms(2) show ?thesis by simp
  qed
  ultimately show ?thesis using st' o(2) by blast
qed

lemma close_framed:
  assumes "framed st base hs ds" "cur_frame_type st = HEADER \<longrightarrow> boundary"
  shows "\<exists>st'. finish_frame st boundary False = Some st' \<and> framed st' base hs ds \<and> cur_frame_type st' = NONE \<and>
    stream_id st' = stream_id st \<and> seen_regular_header st' = seen_regular_header st"
proof (cases "cur_frame_type st = NONE")
  case True
  with assms show ?thesis by (simp add: finish_frame_def)
next
  case False
  from finish_framed[OF assms(1) False assms(2), of False] obtain st' fs f where
    st': "finish_frame st boundary False = Some st'" "frame_closed st' (base @ frames_bytes (stream_id st) (fs @ [f]))"
    "stream_id st' = stream_id st" "seen_regular_header st' = seen_regular_header st" "\<forall>g \<in> set (fs @ [f]). \<not> end_stream g"
    "frames_step False (fs @ [f]) = Some False" "hs = header_payload (fs @ [f])" "ds = data_payload (fs @ [f])" by auto
  then have "cur_frame_type st' = NONE" by (simp add: frame_closed_def)
  with st' have "framed_as st' base hs ds (fs @ [f]) []" by (simp add: framed_as_def)
  from framedI[OF this] st'(1,3,4) \<open>cur_frame_type st' = NONE\<close> show ?thesis by blast
qed

lemma begin_framed:
  assumes "framed st base hs ds" "cur_frame_type st = NONE" "ty \<noteq> NONE" "ty = HEADER \<longrightarrow> \<not> last_was_header st"
  shows "\<exists>st'. begin_frame st ty = Some st' \<and> framed st' base hs ds \<and> cur_frame_type st' = ty \<and>
    stream_id st' = stream_id st \<and> seen_regular_header st' = seen_regular_header st \<and>
    (\<exists>prev. frame_open st' prev [])"
proof -
  obtain fs payload where fs: "framed_as st base hs ds fs payload" using assms(1) by (auto simp: framed_def)
  then have c: "frame_closed st (base @ frames_bytes (stream_id st) fs)" using assms(2) by (simp add: framed_as_def)
  from begin_frame_ok[OF c assms(3)] obtain st' where st': "begin_frame st ty = Some st'"
    "frame_open st' (base @ frames_bytes (stream_id st) fs) []" "cur_frame_type st' = ty"
    "last_was_header st' = last_was_header st" "stream_id st' = stream_id st" "seen_regular_header st' = seen_regular_header st"
    by blast
  have "framed_as st' base hs ds fs []"
    using fs st' assms(2-4) by (cases ty) (auto simp: framed_as_def)
  from framedI[OF this] st' show ?thesis by blast
qed

lemma headers_framed:
  assumes "framed st base hs ds" "cur_frame_type st = HEADER" "headers_sent st bs st'"
  shows "framed st' base (hs @ bs) ds \<and> cur_frame_type st' = HEADER \<and> stream_id st' = stream_id st"
proof -
  obtain fs payload where fs: "framed_as st base hs ds fs payload" using assms(1) by (auto simp: framed_def)
  then have o: "frame_open st (base @ frames_bytes (stream_id st) fs) payload" using assms(2) by (simp add: framed_as_def)
  have "block_grows (st\<lparr>seen_regular_header := seen_regular_header st'\<rparr>) bs st'"
    using assms(3) by (simp add: headers_sent_def)
  then have sid: "stream_id st' = stream_id st" and
    "\<exists>gs rest. frame_open st' ((base @ frames_bytes (stream_id st) fs) @ frames_bytes (stream_id st) gs) rest \<and>
       cur_frame_type st' = HEADER \<and> frames_payload gs @ rest = payload @ bs \<and> header_frames (last_was_header st) gs \<and>
       last_was_header st' = (last_was_header st \<or> gs \<noteq> [])"
    using o assms(2) unfolding block_grows_def frame_open_seen by (simp_all del: append_assoc)
  then obtain gs rest where gs: "frame_open st' ((base @ frames_bytes (stream_id st) fs) @ frames_bytes (stream_id st) gs) rest"
    "cur_frame_type st' = HEADER" "frames_payload gs @ rest = payload @ bs" "header_frames (last_was_header st) gs"
    "last_was_header st' = (last_was_header st \<or> gs \<noteq> [])" by blast
  from header_frames_facts[OF gs(4)] have facts: "frames_step (last_was_header st) gs = Some (last_was_header st')"
    "header_payload gs = frames_payload gs" "data_payload gs = []" "\<forall>f \<in> set gs. \<not> end_stream f" using gs(5) by auto
  have "framed_as st' base (hs @ bs) ds (fs @ gs) rest"
    using fs assms(2) gs(1-3) facts sid by (auto simp: framed_as_def frames_step_append)
  from framedI[OF this] gs(2) sid show ?thesis by blast
qed

section \<open>Data\<close>

lemma ensure_data_framed:
  assumes "framed st base hs ds"
  shows "\<exists>st' prev payload. ensure_frame_type st DATA 1 = Some st' \<and> framed st' base hs ds \<and> cur_frame_type st' = DATA \<and>
    stream_id st' = stream_id st \<and> seen_regular_header st' = seen_regular_header st \<and>
    frame_open st' prev payload \<and> length payload + 1 \<le> 16383"
proof (cases "cur_frame_type st = DATA \<and> buffer_length (framer_output st) - output_length_at_start_of_frame st + 1 \<le> 16383")
  case True
  obtain fs payload where "framed_as st base hs ds fs payload" using assms by (auto simp: framed_def)
  with True have o: "frame_open st (base @ frames_bytes (stream_id st) fs) payload" by (simp add: framed_as_def)
  from frame_open_length(1)[OF this] True have "length payload + 1 \<le> 16383" by simp
  with o True assms show ?thesis by (auto simp: ensure_frame_type_def)
next
  case False
  from close_framed[OF assms, of True] obtain st1 where st1: "finish_frame st True False = Some st1" "framed st1 base hs ds"
    "cur_frame_type st1 = NONE" "stream_id st1 = stream_id st" "seen_regular_header st1 = seen_regular_header st" by auto
  from begin_framed[OF st1(2,3), of DATA] obtain st2 prev where st2: "begin_frame st1 DATA = Some st2" "framed st2 base hs ds"
    "cur_frame_type st2 = DATA" "stream_id st2 = stream_id st" "seen_regular_header st2 = seen_regular_header st"
    "frame_open st2 prev []" using st1(4,5) by auto
  have "ensure_frame_type st DATA 1 = Some st2" using False st1(1) st2(1) by (auto simp: ensure_frame_type_def)
  with st2 show ?thesis by (intro exI[of _ st2] exI[of _ prev] exI[of _ "[]"]) simp
qed

lemma data_added_framed:
  assumes "framed st base hs ds" "cur_frame_type st = DATA" "frame_open st prev payload"
    "buffer_added (framer_output st) bs sb" "length payload + length bs \<le> 16383"
  shows "framed (st\<lparr>framer_output := sb\<rparr>) base hs (ds @ bs)"
proof -
  obtain fs pl where fs: "framed_as st base hs ds fs pl" using assms(1) by (auto simp: framed_def)
  with assms(2) have o: "frame_open st (base @ frames_bytes (stream_id st) fs) pl" by (simp add: framed_as_def)
  have "pl = payload" using frame_open_unique(2)[OF assms(3) o] .
  with frame_open_added[OF o assms(4)] assms(5)
  have "frame_open (st\<lparr>framer_output := sb\<rparr>) (base @ frames_bytes (stream_id st) fs) (pl @ bs)" by simp
  with fs assms(2) have "framed_as (st\<lparr>framer_output := sb\<rparr>) base hs (ds @ bs) fs (pl @ bs)" by (simp add: framed_as_def)
  then show ?thesis by (rule framedI)
qed

lemma encode_slice_framed:
  assumes "framed st base hs ds" "slice_ok s"
  shows "\<exists>st'. encode_slice st s = Some st' \<and> framed st' base hs (ds @ slice_bytes s) \<and>
    stream_id st' = stream_id st \<and> seen_regular_header st' = seen_regular_header st"
  using assms
proof (induction "length (slice_bytes s)" arbitrary: st s ds rule: less_induct)
  case less
  have "\<exists>st0. (if cur_frame_type st = DATA \<and>
        buffer_length (framer_output st) - output_length_at_start_of_frame st = GRPC_CHTTP2_MAX_PAYLOAD_LENGTH
      then finish_frame st False False else Some st) = Some st0 \<and> framed st0 base hs ds \<and>
      stream_id st0 = stream_id st \<and> seen_regular_header st0 = seen_regular_header st"
    using close_framed[OF less.prems(1), of False] less.prems(1) by auto
  then obtain st0 where st0: "(if cur_frame_type st = DATA \<and>
        buffer_length (framer_output st) - output_length_at_start_of_frame st = GRPC_CHTTP2_MAX_PAYLOAD_LENGTH
      then finish_frame st False False else Some st) = Some st0" "framed st0 base hs ds"
    "stream_id st0 = stream_id st" "seen_regular_header st0 = seen_regular_header st" by blast
  from ensure_data_framed[OF st0(2)] obtain st1 prev payload where st1: "ensure_frame_type st0 DATA 1 = Some st1"
    "framed st1 base hs ds" "cur_frame_type st1 = DATA" "stream_id st1 = stream_id st"
    "seen_regular_header st1 = seen_regular_header st" "frame_open st1 prev payload" "length payload + 1 \<le> 16383"
    using st0(3,4) by auto
  note rem = frame_open_length(2)[OF st1(6)]
  have ok: "slice_buffer_ok (framer_output st1)" using st1(6) by (rule frame_open_output)
  have run: "encode_slice st s = (if GPR_SLICE_LENGTH s > frame_remaining st1
      then do { (rest, first) \<leftarrow> gpr_slice_split_head s (frame_remaining st1);
        output \<leftarrow> gpr_slice_buffer_add (framer_output st1) first; encode_slice (st1\<lparr>framer_output := output\<rparr>) rest }
      else do { output \<leftarrow> gpr_slice_buffer_add (framer_output st1) s; Some (st1\<lparr>framer_output := output\<rparr>) })"
    by (subst encode_slice.simps) (simp only: st0(1) st1(1) Option.bind.bind_lunit)
  show ?case
  proof (cases "GPR_SLICE_LENGTH s > frame_remaining st1")
    case False
    from buffer_add_ok[OF ok less.prems(2)] obtain sb where
      sb: "gpr_slice_buffer_add (framer_output st1) s = Some sb" "buffer_added (framer_output st1) (slice_bytes s) sb" by blast
    have "length payload + length (slice_bytes s) \<le> 16383" using False st1(7) rem by (simp add: GPR_SLICE_LENGTH_def)
    from data_added_framed[OF st1(2,3,6) sb(2) this] False sb(1) st1(4,5) show ?thesis by (simp add: run)
  next
    case True
    let ?n = "frame_remaining st1"
    from True obtain tail first where split: "gpr_slice_split_head s ?n = Some (tail, first)" "slice_ok tail" "slice_ok first"
      "slice_bytes first = take ?n (slice_bytes s)" "slice_bytes tail = drop ?n (slice_bytes s)"
      using slice_split_head_ok[OF less.prems(2), of ?n] by (auto simp: GPR_SLICE_LENGTH_def)
    from buffer_add_ok[OF ok split(3)] obtain sb where
      sb: "gpr_slice_buffer_add (framer_output st1) first = Some sb" "buffer_added (framer_output st1) (slice_bytes first) sb" by blast
    have "length payload + length (slice_bytes first) \<le> 16383" using rem st1(7) split(4) by simp
    from data_added_framed[OF st1(2,3,6) sb(2) this]
    have fr: "framed (st1\<lparr>framer_output := sb\<rparr>) base hs (ds @ slice_bytes first)" .
    have "length (slice_bytes tail) < length (slice_bytes s)"
      using split(5) rem st1(7) True by (simp add: GPR_SLICE_LENGTH_def)
    from less.hyps[OF this fr split(2)] split(4,5) True split(1) sb(1) st1(4,5) show ?thesis by (simp add: run)
  qed
qed

section \<open>Headers\<close>

fun headers_sendable :: "bool \<Rightarrow> bytes set \<Rightarrow> grpc_mdelem list \<Rightarrow> bool" where
  "headers_sendable seen keys [] = True"
| "headers_sendable seen keys (e # es) \<longleftrightarrow>
     header_sendable seen keys e \<and> headers_sendable (seen \<or> regular_header e) (insert (md_key e) keys) es"

lemma headers_sendable_mono:
  "headers_sendable seen keys es \<Longrightarrow> keys' \<subseteq> keys \<Longrightarrow> headers_sendable seen keys' es"
proof (induction seen keys es arbitrary: keys' rule: headers_sendable.induct)
  case (2 seen keys e es)
  then have "header_sendable seen keys' e" by (auto simp: header_sendable_def)
  moreover have "insert (md_key e) keys' \<subseteq> insert (md_key e) keys" using 2(3) by blast
  ultimately show ?case using 2 by simp
qed simp

lemma headers_sendable_append:
  "headers_sendable seen keys (es @ es') \<longleftrightarrow>
     headers_sendable seen keys es \<and> headers_sendable (seen \<or> (\<exists>e \<in> set es. regular_header e)) (keys \<union> md_key ` set es) es'"
  by (induction seen keys es rule: headers_sendable.induct) (auto simp: disj_assoc)

text \<open>A parser that collects the headers reads these bytes as these headers.\<close>

definition reads_headers :: "bytes \<Rightarrow> grpc_mdelem list \<Rightarrow> grpc_mdelem list \<Rightarrow> grpc_mdelem list \<Rightarrow> bool" where
  "reads_headers bs es mds es' \<longleftrightarrow>
     (\<forall>p cur us. parser_at p es \<and> on_header p = collect_header \<and> on_header_user_data p = Some us \<longrightarrow>
        (\<exists>q. hpack_run Parse_begin p (bs @ cur) = hpack_run Parse_begin q cur \<and> parser_at q es' \<and>
           on_header q = collect_header \<and> on_header_user_data q = Some (us @ mds)))"

lemma reads_headers_refl [simp]: "reads_headers [] es [] es"
  unfolding reads_headers_def by auto

lemma reads_headers_trans:
  assumes "reads_headers bs es mds es1" "reads_headers bs' es1 mds' es2"
  shows "reads_headers (bs @ bs') es (mds @ mds') es2"
  unfolding reads_headers_def
proof (intro allI impI)
  fix p cur us
  assume "parser_at p es \<and> on_header p = collect_header \<and> on_header_user_data p = Some us"
  with assms(1) obtain q where q: "hpack_run Parse_begin p (bs @ bs' @ cur) = hpack_run Parse_begin q (bs' @ cur)"
    "parser_at q es1" "on_header q = collect_header" "on_header_user_data q = Some (us @ mds)"
    unfolding reads_headers_def by metis
  with assms(2) obtain r where "hpack_run Parse_begin q (bs' @ cur) = hpack_run Parse_begin r cur"
    "parser_at r es2" "on_header r = collect_header" "on_header_user_data r = Some ((us @ mds) @ mds')"
    unfolding reads_headers_def by metis
  with q(1) show "\<exists>q. hpack_run Parse_begin p ((bs @ bs') @ cur) = hpack_run Parse_begin q cur \<and> parser_at q es2 \<and>
      on_header q = collect_header \<and> on_header_user_data q = Some (us @ mds @ mds')" by auto
qed

lemma reads_headersI:
  assumes "\<And>p :: grpc_mdelem list grpc_chttp2_hpack_parser. parser_at p es \<Longrightarrow> reads_header p bs md es'"
  shows "reads_headers bs es [md] es'"
  using assms unfolding reads_headers_def reads_header_def collect_header_def by fastforce

lemma hpack_enc_sent:
  assumes "enc_sync c es" "header_open st" "header_sendable (seen_regular_header st) (md_key ` set es) e"
    "enc_inserted c + 1 < 4294967296"
  shows "\<exists>c1 st' r bs es'. hpack_enc c e st = Some (c1, st', r) \<and> headers_sent st bs st' \<and> reads_headers bs es [e] es' \<and>
    seen_regular_header st' = (seen_regular_header st \<or> regular_header e) \<and> enc_sync c1 es' \<and>
    md_key ` set es' \<subseteq> insert (md_key e) (md_key ` set es) \<and> enc_inserted c1 \<le> enc_inserted c + 1"
proof -
  from hpack_enc_ok[OF assms, where T = "TYPE(grpc_mdelem list grpc_chttp2_hpack_parser)"] obtain c1 st' r add bs where
    r: "hpack_enc c e st = Some (c1, st', r)" "enc_sync c1 (entries_after add e es)" "enc_inserted c1 \<le> enc_inserted c + 1"
    "block_grows (st\<lparr>seen_regular_header := seen_regular_header st \<or> regular_header e\<rparr>) bs st'"
    "\<And>p :: grpc_mdelem list grpc_chttp2_hpack_parser. parser_at p es \<Longrightarrow> reads_header p bs e (entries_after add e es)"
    unfolding header_synced_def header_written_def by blast
  have seen: "seen_regular_header st' = (seen_regular_header st \<or> regular_header e)" using r(4) by (simp add: block_grows_def)
  with r(4) have "headers_sent st bs st'" by (simp add: headers_sent_def)
  with r seen reads_headersI[of es bs e] entries_after_keys[of add e es] show ?thesis by blast
qed

lemma encode_headers_sent:
  assumes "enc_sync c es" "header_open st" "headers_sendable (seen_regular_header st) (md_key ` set es) mds"
    "enc_inserted c + length mds < 4294967296"
  shows "\<exists>c1 st' bs es'. encode_headers c mds st = Some (c1, st') \<and> headers_sent st bs st' \<and> reads_headers bs es mds es' \<and>
    seen_regular_header st' = (seen_regular_header st \<or> (\<exists>e \<in> set mds. regular_header e)) \<and> enc_sync c1 es' \<and>
    md_key ` set es' \<subseteq> md_key ` set mds \<union> md_key ` set es \<and> enc_inserted c1 \<le> enc_inserted c + length mds"
  using assms
proof (induction mds arbitrary: c es st)
  case Nil
  then show ?case
    by (intro exI[of _ c] exI[of _ st] exI[of _ "[]"] exI[of _ es]) simp
next
  case (Cons md mds)
  from Cons.prems(3,4) have p: "header_sendable (seen_regular_header st) (md_key ` set es) md"
    "headers_sendable (seen_regular_header st \<or> regular_header md) (insert (md_key md) (md_key ` set es)) mds"
    "enc_inserted c + 1 < 4294967296" by simp_all
  from hpack_enc_sent[OF Cons.prems(1,2) p(1,3)] obtain c1 st1 r bs es1 where
    e: "hpack_enc c md st = Some (c1, st1, r)" "headers_sent st bs st1" "reads_headers bs es [md] es1"
    "seen_regular_header st1 = (seen_regular_header st \<or> regular_header md)" "enc_sync c1 es1"
    "md_key ` set es1 \<subseteq> insert (md_key md) (md_key ` set es)" "enc_inserted c1 \<le> enc_inserted c + 1" by blast
  have "headers_sendable (seen_regular_header st1) (md_key ` set es1) mds"
    using headers_sendable_mono[OF p(2) e(6)] e(4) by simp
  moreover have "enc_inserted c1 + length mds < 4294967296" using e(7) Cons.prems(4) by simp
  ultimately obtain c2 st2 bs2 es2 where
    i: "encode_headers c1 mds st1 = Some (c2, st2)" "headers_sent st1 bs2 st2" "reads_headers bs2 es1 mds es2"
    "seen_regular_header st2 = (seen_regular_header st1 \<or> (\<exists>e \<in> set mds. regular_header e))" "enc_sync c2 es2"
    "md_key ` set es2 \<subseteq> md_key ` set mds \<union> md_key ` set es1" "enc_inserted c2 \<le> enc_inserted c1 + length mds"
    using Cons.IH[OF e(5) headers_sent_open[OF e(2) Cons.prems(2)]] by blast
  have "reads_headers (bs @ bs2) es (md # mds) es2" using reads_headers_trans[OF e(3) i(3)] by simp
  moreover have "md_key ` set es2 \<subseteq> md_key ` set (md # mds) \<union> md_key ` set es" using i(6) e(6) by auto
  moreover have "enc_inserted c2 \<le> enc_inserted c + length (md # mds)" using i(7) e(7) by simp
  ultimately show ?case using e(1,4) i(1,4,5) headers_sent_trans[OF e(2) i(2)]
    by (intro exI[of _ c2] exI[of _ st2] exI[of _ "bs @ bs2"] exI[of _ es2]) auto
qed

section \<open>Operations\<close>

text \<open>The headers of a batch: its list, and the time left when there is a deadline.\<close>

definition batch_headers :: "(gpr_clock_type \<Rightarrow> gpr_timespec) \<Rightarrow> grpc_metadata_batch \<Rightarrow> grpc_mdelem list option" where
  "batch_headers now b =
     (let deadline = metadata_deadline b in
      do {
        cmp \<leftarrow> gpr_time_cmp deadline (gpr_inf_future (clock_type deadline));
        (if cmp \<noteq> 0
         then do {
           t \<leftarrow> gpr_time_sub deadline (now (clock_type deadline));
           s \<leftarrow> grpc_chttp2_encode_timeout t;
           Some (metadata_list b @ [\<lparr> md_key = TIMEOUT_KEY, md_value = s \<rparr>])
         }
         else Some (metadata_list b))
      })"

fun ops_headers :: "(gpr_clock_type \<Rightarrow> gpr_timespec) \<Rightarrow> grpc_stream_op list \<Rightarrow> grpc_mdelem list option" where
  "ops_headers now [] = Some []"
| "ops_headers now (GRPC_OP_METADATA b # ops) = do { hs \<leftarrow> batch_headers now b; hss \<leftarrow> ops_headers now ops; Some (hs @ hss) }"
| "ops_headers now (GRPC_OP_SLICE s # ops) = ops_headers now ops"
| "ops_headers now (_ # ops) = None"

fun ops_data :: "grpc_stream_op list \<Rightarrow> bytes" where
  "ops_data [] = []"
| "ops_data (GRPC_OP_SLICE s # ops) = slice_bytes s @ ops_data ops"
| "ops_data (_ # ops) = ops_data ops"

fun op_ok :: "grpc_stream_op \<Rightarrow> bool" where
  "op_ok (GRPC_OP_SLICE s) = slice_ok s"
| "op_ok _ = True"

lemma framed_last_was_header:
  "cur_frame_type st = NONE \<Longrightarrow> framed st base hs ds \<Longrightarrow> framed (st\<lparr>last_was_header := b\<rparr>) base hs ds"
  by (simp add: framed_def framed_as_def frame_closed_def)

lemma begin_headers_framed:
  assumes "framed st base hs ds"
  shows "\<exists>st'. begin_new_frame st HEADER = Some st' \<and> framed st' base hs ds \<and> cur_frame_type st' = HEADER \<and>
    header_open st' \<and> stream_id st' = stream_id st \<and> seen_regular_header st' = seen_regular_header st"
proof -
  from close_framed[OF assms, of True] obtain st1 where st1: "finish_frame st True False = Some st1" "framed st1 base hs ds"
    "cur_frame_type st1 = NONE" "stream_id st1 = stream_id st" "seen_regular_header st1 = seen_regular_header st" by auto
  from begin_framed[OF framed_last_was_header[OF st1(3,2), of False], of HEADER] st1 show ?thesis
    by (auto simp: begin_new_frame_def header_open_def)
qed

text \<open>The state after some operations: headers and data sent so far, and the tables.\<close>

definition encoded ::
    "framer_state \<Rightarrow> grpc_chttp2_hpack_compressor \<Rightarrow> grpc_mdelem list \<Rightarrow> framer_state \<Rightarrow> grpc_chttp2_hpack_compressor \<Rightarrow>
      grpc_mdelem list \<Rightarrow> grpc_mdelem list \<Rightarrow> bytes \<Rightarrow> bool" where
  "encoded st c es st' c' es' mds data \<longleftrightarrow>
     (\<exists>bs. (\<forall>base hs ds. framed st base hs ds \<longrightarrow> framed st' base (hs @ bs) (ds @ data)) \<and> reads_headers bs es mds es') \<and>
     stream_id st' = stream_id st \<and> seen_regular_header st' = (seen_regular_header st \<or> (\<exists>e \<in> set mds. regular_header e)) \<and>
     enc_sync c' es' \<and> md_key ` set es' \<subseteq> md_key ` set mds \<union> md_key ` set es \<and> enc_inserted c' \<le> enc_inserted c + length mds"

lemma encoded_refl: "enc_sync c es \<Longrightarrow> encoded st c es st c es [] []"
  by (auto simp: encoded_def intro!: exI[of _ "[]"])

lemma encoded_trans:
  assumes "encoded st c es st1 c1 es1 mds1 d1" "encoded st1 c1 es1 st2 c2 es2 mds2 d2"
  shows "encoded st c es st2 c2 es2 (mds1 @ mds2) (d1 @ d2)"
proof -
  obtain bs1 where b1: "\<And>base hs ds. framed st base hs ds \<Longrightarrow> framed st1 base (hs @ bs1) (ds @ d1)" "reads_headers bs1 es mds1 es1"
    using assms(1) by (auto simp: encoded_def)
  obtain bs2 where b2: "\<And>base hs ds. framed st1 base hs ds \<Longrightarrow> framed st2 base (hs @ bs2) (ds @ d2)" "reads_headers bs2 es1 mds2 es2"
    using assms(2) by (auto simp: encoded_def)
  have "framed st2 base (hs @ bs1 @ bs2) (ds @ d1 @ d2)" if "framed st base hs ds" for base hs ds
    using b2(1)[OF b1(1)[OF that]] by simp
  moreover have "md_key ` set es2 \<subseteq> md_key ` set (mds1 @ mds2) \<union> md_key ` set es"
    using assms unfolding encoded_def set_append image_Un by blast
  moreover have "stream_id st2 = stream_id st" "enc_sync c2 es2" "enc_inserted c2 \<le> enc_inserted c + length (mds1 @ mds2)"
    "seen_regular_header st2 = (seen_regular_header st \<or> (\<exists>e \<in> set (mds1 @ mds2). regular_header e))"
    using assms by (auto simp: encoded_def)
  ultimately show ?thesis using reads_headers_trans[OF b1(2) b2(2)]
    unfolding encoded_def by (intro conjI exI[of _ "bs1 @ bs2"]) blast+
qed

lemma encoded_headers:
  assumes "headers_sent st bs st'" "cur_frame_type st = HEADER" "reads_headers bs es mds es'"
    "seen_regular_header st' = (seen_regular_header st \<or> (\<exists>e \<in> set mds. regular_header e))" "enc_sync c' es'"
    "md_key ` set es' \<subseteq> md_key ` set mds \<union> md_key ` set es" "enc_inserted c' \<le> enc_inserted c + length mds"
  shows "encoded st c es st' c' es' mds []"
  using assms headers_framed[OF _ assms(2,1)]
  by (auto simp: encoded_def headers_sent_def block_grows_def intro!: exI[of _ bs])

lemma batch_headers_cases:
  assumes "batch_headers now b = Some mds"
  obtains (plain) "gpr_time_cmp (metadata_deadline b) (gpr_inf_future (clock_type (metadata_deadline b))) = Some 0"
      "mds = metadata_list b"
  | (deadline) cmp t s where "gpr_time_cmp (metadata_deadline b) (gpr_inf_future (clock_type (metadata_deadline b))) = Some cmp"
      "cmp \<noteq> 0" "gpr_time_sub (metadata_deadline b) (now (clock_type (metadata_deadline b))) = Some t"
      "grpc_chttp2_encode_timeout t = Some s" "mds = metadata_list b @ [\<lparr> md_key = TIMEOUT_KEY, md_value = s \<rparr>]"
  using assms by (auto simp: batch_headers_def Let_def bind_eq_Some_conv split: if_splits)

lemma encode_metadata_encoded:
  assumes "framed st base hs ds" "enc_sync c es" "batch_headers now b = Some mds"
    "headers_sendable (seen_regular_header st) (md_key ` set es) mds" "enc_inserted c + length mds < 4294967296"
  shows "\<exists>c1 st' es'. encode_metadata now c b st = Some (c1, st') \<and> encoded st c es st' c1 es' mds []"
proof -
  from begin_headers_framed[OF assms(1)] obtain st0 where st0: "begin_new_frame st HEADER = Some st0"
    "cur_frame_type st0 = HEADER" "header_open st0" "stream_id st0 = stream_id st" "seen_regular_header st0 = seen_regular_header st"
    by blast
  have start: "encoded st c es st0 c es [] []"
    using begin_headers_framed st0 assms(2) by (fastforce simp: encoded_def intro!: exI[of _ "[]"])
  have whole: "\<exists>c1 st' bs es'. encode_headers c hs st0 = Some (c1, st') \<and> headers_sent st0 bs st' \<and>
      encoded st c es st' c1 es' hs []"
    if "headers_sendable (seen_regular_header st) (md_key ` set es) hs" "length hs \<le> length mds" for hs
  proof -
    have "enc_inserted c + length hs < 4294967296" "headers_sendable (seen_regular_header st0) (md_key ` set es) hs"
      using that assms(5) st0(5) by simp_all
    from encode_headers_sent[OF assms(2) st0(3) this(2,1)] obtain c1 st' bs es' where
      "encode_headers c hs st0 = Some (c1, st')" "headers_sent st0 bs st'" "reads_headers bs es hs es'"
      "seen_regular_header st' = (seen_regular_header st0 \<or> (\<exists>e \<in> set hs. regular_header e))" "enc_sync c1 es'"
      "md_key ` set es' \<subseteq> md_key ` set hs \<union> md_key ` set es" "enc_inserted c1 \<le> enc_inserted c + length hs" by blast
    with encoded_trans[OF start encoded_headers] st0(2) show ?thesis by fastforce
  qed
  show ?thesis
    using assms(3)
  proof (cases rule: batch_headers_cases)
    case plain
    from whole[of mds] assms(4) obtain c1 st' es' where "encode_headers c mds st0 = Some (c1, st')" "encoded st c es st' c1 es' mds []"
      by blast
    with plain st0(1) have "encode_metadata now c b st = Some (c1, st') \<and> encoded st c es st' c1 es' mds []"
      by (simp add: encode_metadata_def Let_def)
    then show ?thesis by blast
  next
    case (deadline cmp t s)
    let ?e = "\<lparr> md_key = TIMEOUT_KEY, md_value = s \<rparr>"
    have split: "headers_sendable (seen_regular_header st) (md_key ` set es) (metadata_list b)"
      "header_sendable (seen_regular_header st \<or> (\<exists>e \<in> set (metadata_list b). regular_header e))
         (md_key ` set es \<union> md_key ` set (metadata_list b)) ?e"
      using assms(4) deadline(5) by (simp_all add: headers_sendable_append)
    from whole[of "metadata_list b"] split(1) deadline(5) obtain c1 st1 bs es1 where
      i: "encode_headers c (metadata_list b) st0 = Some (c1, st1)" "headers_sent st0 bs st1"
      "encoded st c es st1 c1 es1 (metadata_list b) []" by fastforce
    have "header_sendable (seen_regular_header st1) (md_key ` set es1) ?e"
    proof -
      have "md_key ` set es1 \<subseteq> md_key ` set es \<union> md_key ` set (metadata_list b)" using i(3) by (auto simp: encoded_def)
      with split(2) i(3) show ?thesis by (auto simp: header_sendable_def encoded_def)
    qed
    moreover have "enc_inserted c1 + 1 < 4294967296" "enc_sync c1 es1" using i(3) assms(5) deadline(5) by (auto simp: encoded_def)
    ultimately obtain c2 st2 r bs2 es2 where e: "hpack_enc c1 ?e st1 = Some (c2, st2, r)" "headers_sent st1 bs2 st2"
      "reads_headers bs2 es1 [?e] es2" "seen_regular_header st2 = (seen_regular_header st1 \<or> regular_header ?e)" "enc_sync c2 es2"
      "md_key ` set es2 \<subseteq> insert (md_key ?e) (md_key ` set es1)" "enc_inserted c2 \<le> enc_inserted c1 + 1"
      using hpack_enc_sent[OF _ headers_sent_open[OF i(2) st0(3)]] by blast
    have "cur_frame_type st1 = HEADER" using headers_sent_open[OF i(2) st0(3)] by (simp add: header_open_def)
    with e have "encoded st1 c1 es1 st2 c2 es2 [?e] []" by (intro encoded_headers) auto
    from encoded_trans[OF i(3) this] deadline(5) have "encoded st c es st2 c2 es2 mds []" by simp
    moreover have "encode_metadata now c b st = Some (c2, st2)"
      using deadline st0(1) i(1) e(1) by (simp add: encode_metadata_def deadline_enc_def Let_def)
    ultimately show ?thesis by blast
  qed
qed

lemma encode_ops_encoded:
  assumes "framed st base hs ds" "enc_sync c es" "ops_headers now ops = Some mds" "\<forall>op \<in> set ops. op_ok op"
    "headers_sendable (seen_regular_header st) (md_key ` set es) mds" "enc_inserted c + length mds < 4294967296"
  shows "\<exists>c1 st' es'. encode_ops now c ops st = Some (c1, st') \<and> encoded st c es st' c1 es' mds (ops_data ops)"
  using assms
proof (induction now c ops st arbitrary: es mds hs ds rule: encode_ops.induct)
  case (1 now c st)
  then show ?case using encoded_refl by auto
next
  case (2 now c b ops st)
  from 2(4) obtain m1 m2 where m: "batch_headers now b = Some m1" "ops_headers now ops = Some m2" "mds = m1 @ m2"
    by (auto simp: bind_eq_Some_conv)
  have s: "headers_sendable (seen_regular_header st) (md_key ` set es) m1"
    "headers_sendable (seen_regular_header st \<or> (\<exists>e \<in> set m1. regular_header e)) (md_key ` set es \<union> md_key ` set m1) m2"
    using 2(6) by (simp_all add: m(3) headers_sendable_append)
  have "enc_inserted c + length m1 < 4294967296" using 2(7) m(3) by simp
  from encode_metadata_encoded[OF 2(2,3) m(1) s(1) this] obtain c1 st1 es1 where
    e: "encode_metadata now c b st = Some (c1, st1)" "encoded st c es st1 c1 es1 m1 []" by blast
  obtain bs where f: "framed st1 base (hs @ bs) (ds @ [])" using e(2) 2(2) unfolding encoded_def by blast
  have k: "headers_sendable (seen_regular_header st1) (md_key ` set es1) m2"
  proof -
    have "md_key ` set es1 \<subseteq> md_key ` set es \<union> md_key ` set m1" using e(2) unfolding encoded_def by blast
    from headers_sendable_mono[OF s(2) this] e(2) show ?thesis by (simp only: encoded_def)
  qed
  have i: "enc_sync c1 es1" "enc_inserted c1 + length m2 < 4294967296" "\<forall>op \<in> set ops. op_ok op"
    using e(2) 2(5,7) m(3) by (auto simp: encoded_def)
  from 2(1)[OF e(1) refl f i(1) m(2) i(3) k i(2)] obtain c2 st2 es2 where "encode_ops now c1 ops st1 = Some (c2, st2)"
    "encoded st1 c1 es1 st2 c2 es2 m2 (ops_data ops)" by blast
  with encoded_trans[OF e(2)] e(1) m(3) show ?case by fastforce
next
  case (3 now c sl ops st)
  from encode_slice_framed[OF 3(2), of sl] 3(5) obtain st1 where st1: "encode_slice st sl = Some st1"
    "framed st1 base hs (ds @ slice_bytes sl)" "stream_id st1 = stream_id st" "seen_regular_header st1 = seen_regular_header st" by auto
  have d: "encoded st c es st1 c es [] (slice_bytes sl)"
    using encode_slice_framed[of st _ _ _ sl] 3(3,5) st1
    by (fastforce simp: encoded_def intro!: exI[of _ "[]"])
  have "headers_sendable (seen_regular_header st1) (md_key ` set es) mds" using 3(6) st1(4) by simp
  with 3 st1 obtain c2 st2 es2 where "encode_ops now c ops st1 = Some (c2, st2)"
    "encoded st1 c es st2 c2 es2 mds (ops_data ops)" by fastforce
  with encoded_trans[OF d] st1(1) show ?case by fastforce
qed simp_all

section \<open>The whole\<close>

fun ends_stream :: "bool \<Rightarrow> http2_frame list \<Rightarrow> bool" where
  "ends_stream eof [] \<longleftrightarrow> \<not> eof"
| "ends_stream eof [f] \<longleftrightarrow> end_stream f = eof"
| "ends_stream eof (f # g # fs) \<longleftrightarrow> \<not> end_stream f \<and> ends_stream eof (g # fs)"

lemma ends_stream_snoc: "\<forall>g \<in> set fs. \<not> end_stream g \<Longrightarrow> ends_stream (end_stream f) (fs @ [f])"
proof (induction fs)
  case (Cons g fs)
  then show ?case by (cases fs) auto
qed simp

lemma ends_stream_none: "\<forall>g \<in> set fs. \<not> end_stream g \<Longrightarrow> ends_stream False fs"
  by (induction False fs rule: ends_stream.induct) auto

lemma encode_result:
  assumes "enc_sync c es" "slice_buffer_ok output" "sid \<noteq> 0" "\<forall>op \<in> set ops. op_ok op"
    "ops_headers now ops = Some mds" "headers_sendable False (md_key ` set es) mds" "enc_inserted c + length mds < 4294967296"
  shows "\<exists>c1 out fs es'. grpc_chttp2_encode now ops eof sid c output = Some (c1, out) \<and> slice_buffer_ok out \<and>
    buffer_bytes out = buffer_bytes output @ frames_bytes sid fs \<and> frames_step False fs = Some False \<and> ends_stream eof fs \<and>
    data_payload fs = ops_data ops \<and> reads_headers (header_payload fs) es mds es' \<and> enc_sync c1 es'"
proof -
  let ?st = "framer_start sid output"
  have st: "framed ?st (buffer_bytes output) [] []" "stream_id ?st = sid" "seen_regular_header ?st = False"
    using framed_start[OF assms(2)] by (simp_all add: framer_start_def)
  from encode_ops_encoded[OF st(1) assms(1,5,4)] assms(6,7) st(3) obtain c1 st1 es' where
    e: "encode_ops now c ops ?st = Some (c1, st1)" "encoded ?st c es st1 c1 es' mds (ops_data ops)" by auto
  obtain bs where bs: "framed st1 (buffer_bytes output) bs (ops_data ops)" "reads_headers bs es mds es'" "enc_sync c1 es'"
    "stream_id st1 = sid" using e(2) st(1,2) unfolding encoded_def by fastforce
  obtain st2 where st2: "(if eof \<and> cur_frame_type st1 = NONE then begin_frame st1 DATA else Some st1) = Some st2"
    "framed st2 (buffer_bytes output) bs (ops_data ops)" "stream_id st2 = sid" "cur_frame_type st2 = NONE \<longrightarrow> \<not> eof"
    using begin_framed[OF bs(1), of DATA] bs(1,4) by (cases "eof \<and> cur_frame_type st1 = NONE") auto
  have "\<exists>st3 fs. finish_frame st2 True eof = Some st3 \<and> frame_closed st3 (buffer_bytes output @ frames_bytes sid fs) \<and>
      frames_step False fs = Some False \<and> ends_stream eof fs \<and> data_payload fs = ops_data ops \<and> header_payload fs = bs"
  proof (cases "cur_frame_type st2 = NONE")
    case True
    obtain fs payload where "framed_as st2 (buffer_bytes output) bs (ops_data ops) fs payload" using st2(2) by (auto simp: framed_def)
    with True st2(3,4) show ?thesis
      by (intro exI[of _ st2] exI[of _ fs]) (auto simp: framed_as_def finish_frame_def intro: ends_stream_none)
  next
    case False
    from finish_framed[OF st2(2) False, of True eof] obtain st3 fs f where fin: "finish_frame st2 True eof = Some st3"
      "frame_closed st3 (buffer_bytes output @ frames_bytes (stream_id st2) (fs @ [f]))" "\<forall>g \<in> set fs. \<not> end_stream g"
      "end_stream f = eof" "frames_step False (fs @ [f]) = Some False" "bs = header_payload (fs @ [f])"
      "ops_data ops = data_payload (fs @ [f])" by auto
    have "ends_stream eof (fs @ [f])" using ends_stream_snoc[OF fin(3), of f] unfolding fin(4) .
    with fin show ?thesis unfolding st2(3) by metis
  qed
  then obtain st3 fs where fin: "finish_frame st2 True eof = Some st3" "frame_closed st3 (buffer_bytes output @ frames_bytes sid fs)"
    "frames_step False fs = Some False" "ends_stream eof fs" "data_payload fs = ops_data ops" "header_payload fs = bs" by blast
  have "grpc_chttp2_encode now ops eof sid c output = Some (c1, framer_output st3)"
    unfolding grpc_chttp2_encode_def using assms(3) by (simp add: e(1) st2(1) fin(1) del: split_paired_All)
  moreover have "slice_buffer_ok (framer_output st3)" "buffer_bytes (framer_output st3) = buffer_bytes output @ frames_bytes sid fs"
    using fin(2) by (simp_all add: frame_closed_def)
  moreover have "reads_headers (header_payload fs) es mds es'" unfolding fin(6) by (rule bs(2))
  ultimately show ?thesis using fin(3-5) bs(3) by blast
qed

text \<open>
  C7. For sendable headers (pseudo headers first, no binary header whose key is in the table or
  repeated), any slices and fewer than 2^32 insertions over the life of the compressor, encoding
  succeeds and appends a sequence of frames to the output: no payload is longer than 16383
  bytes, a header block is not interrupted and only continued by continuation frames, the last
  frame and no other ends the stream when the end of the stream is asked for, and the payloads
  of the data frames are the bytes of the slices. The frame that ends the stream may be a
  continuation frame.
\<close>

theorem encode_frames:
  assumes "enc_sync c es" "slice_buffer_ok output" "sid \<noteq> 0" "\<forall>op \<in> set ops. op_ok op"
    "ops_headers now ops = Some mds" "headers_sendable False (md_key ` set es) mds" "enc_inserted c + length mds < 4294967296"
  shows "\<exists>c1 out fs. grpc_chttp2_encode now ops eof sid c output = Some (c1, out) \<and> slice_buffer_ok out \<and>
    buffer_bytes out = buffer_bytes output @ frames_bytes sid fs \<and> frames_step False fs = Some False \<and>
    ends_stream eof fs \<and> data_payload fs = ops_data ops"
  using encode_result[OF assms, of eof] by blast

text \<open>
  C6. The encoder and the parser agree: from a compressor in step with the parser's table,
  the payloads of the header frames, however the block is cut into frames, are read as
  exactly the headers that were sent, in order, and the compressor is in step with the
  parser's table again, so that this holds for the next call as well. It covers every
  choice of the encoder (index, indexed key, literal, compressed value), insertions and
  evictions. The headers must be sendable: pseudo headers first, and no binary header whose
  key is in the table or repeated; and the compressor, whose indices are of 32 bits, must have
  inserted fewer than 2^32 entries in all.
\<close>

theorem encode_headers_roundtrip:
  assumes "enc_sync c (hptbl_entries (table p))" "slice_buffer_ok output" "sid \<noteq> 0" "\<forall>op \<in> set ops. op_ok op"
    "ops_headers now ops = Some mds" "headers_sendable False (md_key ` set (hptbl_entries (table p))) mds"
    "enc_inserted c + length mds < 4294967296"
    and "hpack_base p" "hptbl_ok (table p)" "state p = Parse_begin" "on_header p = collect_header" "on_header_user_data p = Some us"
  shows "\<exists>c1 out fs q. grpc_chttp2_encode now ops eof sid c output = Some (c1, out) \<and>
    buffer_bytes out = buffer_bytes output @ frames_bytes sid fs \<and> frames_step False fs = Some False \<and>
    grpc_chttp2_hpack_parser_parse p (header_payload fs) = Inr (True, q) \<and> state q = Parse_begin \<and>
    on_header_user_data q = Some (us @ mds) \<and> hptbl_ok (table q) \<and> enc_sync c1 (hptbl_entries (table q))"
proof -
  from encode_result[OF assms(1-7), of eof] obtain c1 out fs es' where
    e: "grpc_chttp2_encode now ops eof sid c output = Some (c1, out)"
    "buffer_bytes out = buffer_bytes output @ frames_bytes sid fs" "frames_step False fs = Some False"
    "reads_headers (header_payload fs) (hptbl_entries (table p)) mds es'" "enc_sync c1 es'" by blast
  from e(4) assms(8,9,11,12) obtain q where q: "hpack_run Parse_begin p (header_payload fs @ []) = hpack_run Parse_begin q []"
    "parser_at q es'" "on_header_user_data q = Some (us @ mds)" unfolding reads_headers_def parser_at_def by blast
  have "hpack_run Parse_begin q [] = Inr (True, q\<lparr>state := Parse_begin\<rparr>)"
    by (subst hpack_run.simps) (simp add: parse_begin_def)
  with q assms(10) e show ?thesis
    by (intro exI[of _ c1] exI[of _ out] exI[of _ fs] exI[of _ "q\<lparr>state := Parse_begin\<rparr>"])
      (simp add: grpc_chttp2_hpack_parser_parse_def parser_at_def)
qed

text \<open>A request: two headers, no deadline, a message of three bytes.\<close>

definition example_ops :: "grpc_stream_op list" where
  "example_ops =
     [GRPC_OP_METADATA \<lparr> metadata_list = [\<lparr> md_key = bytes_of_string '':path'', md_value = bytes_of_string ''/a'' \<rparr>,
         \<lparr> md_key = bytes_of_string ''x'', md_value = bytes_of_string ''y'' \<rparr>],
       metadata_garbage = [], metadata_deadline = gpr_inf_future GPR_CLOCK_REALTIME \<rparr>,
      GRPC_OP_SLICE (Inlined [1, 2, 3])]"

definition example_headers :: "grpc_mdelem list" where
  "example_headers = [\<lparr> md_key = bytes_of_string '':path'', md_value = bytes_of_string ''/a'' \<rparr>,
     \<lparr> md_key = bytes_of_string ''x'', md_value = bytes_of_string ''y'' \<rparr>]"

lemma example_ops_facts:
  "ops_headers now example_ops = Some example_headers" "\<forall>op \<in> set example_ops. op_ok op"
  "headers_sendable False {} example_headers" "ops_data example_ops = [1, 2, 3]"
  by (simp_all add: example_ops_def example_headers_def batch_headers_def gpr_time_cmp_def gpr_inf_future_def
      header_sendable_def header_small_def regular_header_def bytes_of_string_def of_char_def grpc_is_binary_header_def)

lemma example_sync: "enc_sync (grpc_chttp2_hpack_compressor_init 7) (hptbl_entries grpc_chttp2_hptbl_init)"
  "enc_inserted (grpc_chttp2_hpack_compressor_init 7) = 0" "slice_buffer_ok gpr_slice_buffer_init"
  "hptbl_entries grpc_chttp2_hptbl_init = []" "buffer_bytes gpr_slice_buffer_init = []"
  using compressor_init_sync[of 7] hptbl_rep_entries[OF hptbl_init_rep]
  by (simp_all add: enc_inserted_def grpc_chttp2_hpack_compressor_init_def slice_buffer_ok_def gpr_slice_buffer_init_def
      GRPC_SLICE_BUFFER_INLINE_ELEMENTS_def buffer_bytes_def)

theorem encode_frames_witness:
  "\<exists>c1 out fs. grpc_chttp2_encode (\<lambda>ct. gpr_time_0 ct) example_ops True 1 (grpc_chttp2_hpack_compressor_init 7) gpr_slice_buffer_init =
      Some (c1, out) \<and> slice_buffer_ok out \<and> buffer_bytes out = frames_bytes 1 fs \<and> frames_step False fs = Some False \<and>
    ends_stream True fs \<and> data_payload fs = [1, 2, 3]"
  using encode_frames[OF example_sync(1,3), of 1 example_ops "\<lambda>ct. gpr_time_0 ct" example_headers True]
    example_ops_facts example_sync(2,4,5) by (simp add: example_headers_def)

theorem encode_headers_roundtrip_witness:
  "\<exists>c1 out fs q. grpc_chttp2_encode (\<lambda>ct. gpr_time_0 ct) example_ops False 1 (grpc_chttp2_hpack_compressor_init 7) gpr_slice_buffer_init =
      Some (c1, out) \<and> buffer_bytes out = frames_bytes 1 fs \<and> frames_step False fs = Some False \<and>
    grpc_chttp2_hpack_parser_parse example_hpack_parser (header_payload fs) = Inr (True, q) \<and> state q = Parse_begin \<and>
    on_header_user_data q = Some example_headers \<and> hptbl_ok (table q) \<and> enc_sync c1 (hptbl_entries (table q))"
proof -
  have p: "table example_hpack_parser = grpc_chttp2_hptbl_init" "state example_hpack_parser = Parse_begin"
    "on_header example_hpack_parser = collect_header" "on_header_user_data example_hpack_parser = Some []"
    by (simp_all add: example_hpack_parser_def grpc_chttp2_hpack_parser_init_def)
  have "hpack_base example_hpack_parser" using example_hpack_parser_ok by (simp add: hpack_parser_ok_def)
  with encode_headers_roundtrip[of _ example_hpack_parser gpr_slice_buffer_init 1 example_ops "\<lambda>ct. gpr_time_0 ct" example_headers "[]" False]
    example_ops_facts example_sync p hptbl_rep_ok[OF hptbl_init_rep]
  show ?thesis by (simp add: example_headers_def)
qed

end
