(* ===== verification/Indexed_Binary.thy ===== *)
theory Indexed_Binary
  imports Stream_Frames
begin

text \<open>
  Why a binary header must not have its key in the table: with an indexed key the encoder
  compresses the value but does not mark it as compressed, and the parser takes the
  compressed bytes for base64.
\<close>

section \<open>The parser's view\<close>

lemma base64_rejected:
  assumes "inverse_base64 ! unat w = 255" "huff p = 0" "binary p = B64_BYTE0" "unat (strlen p - strgot p) = Suc (length ws)"
  shows "hpack_run Parse_string p (w # ws @ cur) = Inr (False, p)"
proof -
  have "add_str_bytes p (w # ws) = Inr (False, p)"
    using assms(1-3) by (simp add: add_str_bytes_def append_string_def)
  with assms(4) have "hpack_call Parse_string p (w # ws @ cur) = Inr (Hpack_return False p)"
    by (simp add: parse_string_def Let_def)
  then show ?thesis by (subst hpack_run.simps) simp
qed

lemma indexed_key_rejected:
  fixes p :: "'u grpc_chttp2_hpack_parser"
  assumes "grpc_chttp2_hptbl_lookup (table p) i = Some (Some m)" "0 < unat i" "grpc_is_binary_header (md_key m)"
    "inverse_base64 ! unat w = 255" "Suc (length ws) < 4294967296"
  shows "\<exists>q. hpack_run Parse_begin p (indexed_key_bytes add i (w # ws) @ cur) = Inr (False, q)"
proof -
  let ?val = "varint_bytes (int (length (w # ws))) 1 0 @ w # ws @ cur"
  have i: "unat i < 4294967296" "word_of_nat (unat i) = i" "int (unat i) = uint i" by (rule unat_u32_less) simp_all
  from literal_index_read[OF assms(2) i(1), of p add ?val] obtain pp st where
    r1: "hpack_run Parse_begin p (indexed_key_bytes add i (w # ws) @ cur) =
      hpack_run Parse_string_prefix (p\<lparr>index := i, next_state := [Parse_value_string_with_indexed_key, literal_finish add],
        parsing := pp, state := st\<rparr>) ?val"
    unfolding indexed_key_bytes_def i(2,3) by auto
  define p1 where "p1 = p\<lparr>index := i, next_state := [Parse_value_string_with_indexed_key, literal_finish add], parsing := pp, state := st\<rparr>"
  from string_prefix_read[of 0 "length (w # ws)" p1 "w # ws @ cur"] assms(5) obtain ptr where
    r2: "hpack_run Parse_string_prefix p1 ?val =
      hpack_run Parse_next (p1\<lparr>strlen := word_of_nat (length (w # ws)), huff := 0, parsing := ptr\<rparr>) (w # ws @ cur)" by auto
  define p2 where "p2 = p1\<lparr>strlen := word_of_nat (length (w # ws)), huff := 0, parsing := ptr,
      state := Parse_value_string_with_indexed_key, next_state := [literal_finish add]\<rparr>"
  have r3: "hpack_run Parse_next (p1\<lparr>strlen := word_of_nat (length (w # ws)), huff := 0, parsing := ptr\<rparr>) (w # ws @ cur) =
      hpack_run Parse_value_string_with_indexed_key p2 (w # ws @ cur)"
    by (subst next_call) (simp_all add: p1_def p2_def)
  define p3 where "p3 = p2\<lparr>strgot := 0, value := (value p2)\<lparr>string_length := 0\<rparr>, parsing := Parsing_value,
      huff_state := 0, binary := B64_BYTE0\<rparr>"
  have "hpack_call Parse_value_string_with_indexed_key p2 (w # ws @ cur) = Inr (Hpack_call Parse_string p3 (w # ws @ cur))"
    using assms(1,3) by (simp add: parse_value_string_with_indexed_key_def is_binary_indexed_header_def begin_parse_string_def
        p1_def p2_def p3_def Let_def)
  then have r4: "hpack_run Parse_value_string_with_indexed_key p2 (w # ws @ cur) = hpack_run Parse_string p3 (w # ws @ cur)"
    by (rule hpack_run_call(3))
  have "unat (strlen p3 - strgot p3) = Suc (length ws)"
    using assms(5) unat_of_nat_u32[of "Suc (length ws)"] by (simp add: p2_def p3_def)
  from base64_rejected[OF assms(4) _ _ this, of cur] have "hpack_run Parse_string p3 (w # ws @ cur) = Inr (False, p3)"
    by (simp add: p2_def p3_def)
  then show ?thesis using r1 r2 r3 r4 by (auto simp: p1_def)
qed

section \<open>The encoder's view\<close>

text \<open>
  Two binary headers with one key, the first small enough for the table, the second with a value
  whose compressed form begins with a byte that is no character of base64.
\<close>

definition misread_value :: "bytes \<Rightarrow> bool" where
  "misread_value v \<longleftrightarrow>
     (case grpc_chttp2_base64_encode_and_huffman_compress v of Some (w # ws) \<Rightarrow> inverse_base64 ! unat w = 255 | _ \<Rightarrow> False)"

definition binary_pair :: "grpc_mdelem \<Rightarrow> grpc_mdelem \<Rightarrow> bool" where
  "binary_pair e1 e2 \<longleftrightarrow>
     md_key e1 = md_key e2 \<and> md_value e1 \<noteq> md_value e2 \<and> grpc_is_binary_header (md_key e1) \<and> regular_header e1 \<and>
     hpack_entry_size e1 < MAX_DECODER_SPACE_USAGE \<and> length (md_value e2) < 1000000000 \<and> misread_value (md_value e2)"

lemma binary_pair_facts:
  assumes "binary_pair e1 e2"
  shows "md_key e1 = md_key e2" "e1 \<noteq> e2" "grpc_is_binary_header (md_key e1)" "header_small e1" "header_small e2"
    "regular_header e1" "regular_header e2" "hpack_entry_size e1 < 512"
  using assms
  by (auto simp: binary_pair_def header_small_def regular_header_def hpack_entry_size_def MAX_DECODER_SPACE_USAGE_def
      grpc_is_binary_header_def split: if_splits)

lemma misread_wire_value:
  assumes "binary_pair e1 e2"
  obtains sl vp w ws where "get_wire_value e2 = Some (sl, vp)" "slice_ok sl" "slice_bytes sl = w # ws"
    "inverse_base64 ! unat w = 255" "length (w # ws) < 2147483648"
proof -
  have b: "grpc_is_binary_header (md_key e2)" "length (md_value e2) < 1000000000" "misread_value (md_value e2)"
    using assms by (auto simp: binary_pair_def)
  from b(3) obtain w ws where w: "grpc_chttp2_base64_encode_and_huffman_compress (md_value e2) = Some (w # ws)"
    "inverse_base64 ! unat w = 255" by (auto simp: misread_value_def split: option.splits list.splits)
  from get_wire_value_ok[OF b(2)] obtain sl vp where
    sl: "get_wire_value e2 = Some (sl, vp)" "slice_ok sl" "length (slice_bytes sl) < 2147483648" by blast
  then have "slice_bytes sl = w # ws"
    using b(1) w(1) by (auto simp: get_wire_value_def split: Option.bind_splits if_splits)
  with sl w(2) show thesis by (intro that[of sl vp w ws]) auto
qed

text \<open>After a first binary header, its key is the only one in the tables.\<close>

lemma first_binary_header:
  assumes "hpack_enc (grpc_chttp2_hpack_compressor_init seed) e st = Some (c1, st1, r)" "binary_pair e e2"
  shows "live_index c1 (entries_keys c1) (indices_keys c1) (HASH_FRAGMENT_2 (mdstr_hash c1 (md_key e))) (md_key e)"
    "\<forall>j < 256. entries_elems c1 ! j \<in> {None, Some e}"
proof -
  let ?c = "grpc_chttp2_hpack_compressor_init seed"
  let ?f = "HASH_FRAGMENT_1 (mdelem_hash ?c e)"
  define c0 where "c0 = ?c\<lparr>filter_elems_sum := 1, filter_elems := (replicate 256 0)[?f := 1]\<rparr>"
  note facts = binary_pair_facts[OF assms(2)]
  have dead: "\<not> live_index c0 (entries_elems c0) (indices_elems c0) j e" "\<not> live_index c0 (entries_keys c0) (indices_keys c0) j (md_key e)"
    if "j < 256" for j
    using that by (simp_all add: live_index_def c0_def grpc_chttp2_hpack_compressor_init_def compressor_constants)
  have "inc_filter ?f (filter_elems_sum ?c) (filter_elems ?c) = (1, (replicate 256 0)[?f := 1])"
    by (simp add: inc_filter_def grpc_chttp2_hpack_compressor_init_def compressor_constants Let_def)
  moreover have "should_add_elem c0 e"
    using facts(8)
    by (simp add: should_add_elem_def compressor_constants hpack_entry_size_def c0_def mdelem_hash_def mdstr_hash_def)
  ultimately have "hpack_enc ?c e st = do {
      st \<leftarrow> emit_lithdr_incidx_v e (st\<lparr>seen_regular_header := True\<rparr>); (c, unref) \<leftarrow> add_elem c0 e; Some (c, st, unref) }"
    using facts(4,6) dead unfolding hpack_enc_def Let_def by (simp add: c0_def header_small_def regular_header_def)
  with assms(1) have "do { st \<leftarrow> emit_lithdr_incidx_v e (st\<lparr>seen_regular_header := True\<rparr>); (c, unref) \<leftarrow> add_elem c0 e; Some (c, st, unref) }
      = Some (c1, st1, r)" by simp
  then have add: "add_elem c0 e = Some (c1, r)" by (auto simp: bind_eq_Some_conv)
  let ?kh = "mdstr_hash c0 (md_key e)" and ?eh = "mdelem_hash c0 e"
  let ?n = "32 + word_of_nat (length (md_key e)) + word_of_nat (length (md_value e)) :: u32"
  have none: "entries_keys c0 ! j = None" "entries_elems c0 ! j = None" if "j < 256" for j
    using that by (simp_all add: c0_def grpc_chttp2_hpack_compressor_init_def compressor_constants)
  have zero: "tail_remote_index c0 = 0" "table_elems c0 = 0" "table_size c0 = 0"
    by (simp_all add: c0_def grpc_chttp2_hpack_compressor_init_def)
  have "?n = word_of_nat (hpack_entry_size e)" by (simp add: hpack_entry_size_def)
  then have "unat ?n < 512" using facts(8) unat_of_nat_u32[of "hpack_entry_size e"] by simp
  then have room: "make_room ?n c0 = Some c0" by (subst make_room.simps) (simp add: zero word_less_nat_alt)
  from add have "c1 = c0\<lparr>table_elem_size := (table_elem_size c0)[table_slot 1 := ucast ?n], table_size := ucast ?n, table_elems := 1,
      entries_elems := (entries_elems c0)[HASH_FRAGMENT_2 ?eh := Some e], indices_elems := (indices_elems c0)[HASH_FRAGMENT_2 ?eh := 1],
      entries_keys := (entries_keys c0)[HASH_FRAGMENT_2 ?kh := Some (md_key e)], indices_keys := (indices_keys c0)[HASH_FRAGMENT_2 ?kh := 1]\<rparr>"
    unfolding add_elem_def Let_def room Option.bind.bind_lunit using none by (simp add: cuckoo_slot_def zero)
  then show "live_index c1 (entries_keys c1) (indices_keys c1) (HASH_FRAGMENT_2 (mdstr_hash c1 (md_key e))) (md_key e)"
    "\<forall>j < 256. entries_elems c1 ! j \<in> {None, Some e}"
    using none
    by (simp_all add: live_index_def mdstr_hash_def nth_list_update c0_def grpc_chttp2_hpack_compressor_init_def compressor_constants)
qed

text \<open>A second one with another value is sent with the index of the key.\<close>

lemma second_binary_header:
  assumes "live_index c (entries_keys c) (indices_keys c) (HASH_FRAGMENT_2 (mdstr_hash c (md_key e))) (md_key e)"
    "\<forall>j < 256. entries_elems c ! j \<noteq> Some e" "header_small e" "regular_header e"
  shows "\<exists>n fs. hpack_enc c e st = hpack_enc_key (c\<lparr>filter_elems_sum := n, filter_elems := fs\<rparr>)
      (indices_keys c ! HASH_FRAGMENT_2 (mdstr_hash c (md_key e))) e (st\<lparr>seen_regular_header := True\<rparr>) \<and>
    (length (filter_elems c) = 256 \<longrightarrow> length fs = 256)"
proof -
  obtain n fs where f: "inc_filter (HASH_FRAGMENT_1 (mdelem_hash c e)) (filter_elems_sum c) (filter_elems c) = (n, fs)" by force
  show ?thesis
    using assms inc_filter_length[OF f] unfolding hpack_enc_def Let_def regular_header_def
    by (intro exI[of _ n] exI[of _ fs]) (simp add: f live_index_def header_small_def)
qed

lemma binary_key_emission:
  fixes p :: "'u grpc_chttp2_hpack_parser"
  assumes "enc_sync c es" "enc_inserted c + 1 < 4294967296" "header_open st" "j < 256" "binary_pair e1 e"
    "live_index c (entries_keys c) (indices_keys c) j (md_key e)"
  shows "\<exists>c1 st' r bs. hpack_enc_key c (indices_keys c ! j) e st = Some (c1, st', r) \<and> block_grows st bs st' \<and>
    (\<forall>p :: 'u grpc_chttp2_hpack_parser. parser_at p es \<longrightarrow> (\<exists>q. hpack_run Parse_begin p bs = Inr (False, q)))"
proof -
  let ?i = "dynidx c (indices_keys c ! j)" and ?add = "should_add_elem c e"
  note facts = binary_pair_facts[OF assms(5)]
  from misread_wire_value[OF assms(5)] obtain sl vp w ws where wire: "get_wire_value e = Some (sl, vp)" "slice_ok sl"
    "slice_bytes sl = w # ws" "inverse_base64 ! unat w = 255" "length (w # ws) < 2147483648" by blast
  have "slots_ok (unat (tail_remote_index c)) es md_key (entries_keys c) (indices_keys c)" using assms(1) by (simp add: enc_sync_def)
  from live_index_lookup[OF assms(1) this assms(4,6)] obtain m where m: "md_key m = md_key e" "0 < unat ?i"
    "\<And>t. hptbl_ok t \<Longrightarrow> hptbl_entries t = es \<Longrightarrow> grpc_chttp2_hptbl_lookup t ?i = Some (Some m)" by blast
  have "emits (if ?add then emit_lithdr_incidx ?i e else emit_lithdr_noidx ?i e) (indexed_key_bytes ?add ?i (w # ws))"
    using emit_lithdr_emits[OF wire(1,2), of ?add ?i] wire(3,5) by simp
  then obtain st' where st': "(if ?add then emit_lithdr_incidx ?i e else emit_lithdr_noidx ?i e) st = Some st'"
    "block_grows st (indexed_key_bytes ?add ?i (w # ws)) st'" using assms(3) by (auto simp: emits_def)
  have "\<exists>q. hpack_run Parse_begin p (indexed_key_bytes ?add ?i (w # ws)) = Inr (False, q)" if "parser_at p es"
    for p :: "'u grpc_chttp2_hpack_parser"
    using indexed_key_rejected[where p = p and i = ?i and m = m and w = w and ws = ws and add = ?add and cur = "[]"]
      m that wire(4,5) facts(1,3) by (simp add: parser_at_def)
  moreover have "\<exists>c1 r. hpack_enc_key c (indices_keys c ! j) e st = Some (c1, st', r)"
  proof (cases ?add)
    case True
    with add_elem_after[OF assms(1) facts(5) True assms(2)] st'(1) show ?thesis by (auto simp: hpack_enc_key_def)
  next
    case False
    with st'(1) show ?thesis by (simp add: hpack_enc_key_def)
  qed
  ultimately show ?thesis using st'(2) by blast
qed

section \<open>From end to end\<close>

lemma encode_batch_frames:
  assumes "slice_buffer_ok output" "sid \<noteq> 0"
    "gpr_time_cmp (metadata_deadline b) (gpr_inf_future (clock_type (metadata_deadline b))) = Some 0"
    "\<And>st. header_open st \<Longrightarrow> \<not> seen_regular_header st \<Longrightarrow>
       \<exists>c1 st' bs. encode_headers c (metadata_list b) st = Some (c1, st') \<and> headers_sent st bs st' \<and> P bs"
  shows "\<exists>c1 out fs. grpc_chttp2_encode now [GRPC_OP_METADATA b] eof sid c output = Some (c1, out) \<and>
    buffer_bytes out = buffer_bytes output @ frames_bytes sid fs \<and> frames_step False fs = Some False \<and> P (header_payload fs)"
proof -
  let ?st = "framer_start sid output"
  have st: "framed ?st (buffer_bytes output) [] []" "stream_id ?st = sid" "\<not> seen_regular_header ?st"
    using framed_start[OF assms(1)] by (simp_all add: framer_start_def)
  from begin_headers_framed[OF st(1)] obtain st0 where st0: "begin_new_frame ?st HEADER = Some st0"
    "framed st0 (buffer_bytes output) [] []" "cur_frame_type st0 = HEADER" "header_open st0" "stream_id st0 = sid"
    "\<not> seen_regular_header st0" using st(2,3) by auto
  from assms(4)[OF st0(4,6)] obtain c1 st1 bs where e: "encode_headers c (metadata_list b) st0 = Some (c1, st1)"
    "headers_sent st0 bs st1" "P bs" by blast
  from headers_framed[OF st0(2,3) e(2)] st0(5) have f: "framed st1 (buffer_bytes output) bs []" "cur_frame_type st1 = HEADER"
    "stream_id st1 = sid" by auto
  have "cur_frame_type st1 \<noteq> NONE" using f(2) by simp
  from finish_framed[OF f(1) this, of True eof] obtain st2 fs where fin: "finish_frame st1 True eof = Some st2"
    "frame_closed st2 (buffer_bytes output @ frames_bytes sid fs)" "frames_step False fs = Some False" "bs = header_payload fs"
    unfolding f(3) by blast
  have "grpc_chttp2_encode now [GRPC_OP_METADATA b] eof sid c output = Some (c1, framer_output st2)"
    unfolding grpc_chttp2_encode_def
    using assms(2,3) by (simp add: encode_metadata_def st0(1) e(1) f(2) fin(1) Let_def)
  with fin e(3) show ?thesis by (auto simp: frame_closed_def)
qed

text \<open>The second of two binary headers with the same key is refused by the parser.\<close>

lemma two_binary_headers:
  fixes seed :: u32
  defines "c \<equiv> grpc_chttp2_hpack_compressor_init seed"
  assumes o: "header_open st" "\<not> seen_regular_header st" and pair: "binary_pair e1 e2"
  shows "\<exists>c2 st' bs1 bs2 es. encode_headers c [e1, e2] st = Some (c2, st') \<and> headers_sent st (bs1 @ bs2) st' \<and>
    reads_headers bs1 [] [e1] es \<and>
    (\<forall>p :: grpc_mdelem list grpc_chttp2_hpack_parser. parser_at p es \<longrightarrow> (\<exists>q. hpack_run Parse_begin p bs2 = Inr (False, q)))"
proof -
  note facts = binary_pair_facts[OF pair]
  have "header_sendable (seen_regular_header st) (md_key ` set []) e1" "enc_inserted c + 1 < 4294967296"
    using o(2) facts by (auto simp: header_sendable_def enc_inserted_def c_def grpc_chttp2_hpack_compressor_init_def)
  from hpack_enc_sent[OF compressor_init_sync[of seed, folded c_def] o(1) this] obtain c1 st1 r bs1 es1 where
    e: "hpack_enc c e1 st = Some (c1, st1, r)" "headers_sent st bs1 st1" "reads_headers bs1 [] [e1] es1"
    "seen_regular_header st1" "enc_sync c1 es1" "enc_inserted c1 \<le> enc_inserted c + 1"
    using facts(6) by auto
  note first = first_binary_header[OF e(1)[unfolded c_def] pair]
  have "\<forall>j < 256. entries_elems c1 ! j \<noteq> Some e2" using first(2) facts(2) by fastforce
  from second_binary_header[OF first(1)[unfolded facts(1)] this facts(5,7), of st1] obtain n fs where
    second: "hpack_enc c1 e2 st1 = hpack_enc_key (c1\<lparr>filter_elems_sum := n, filter_elems := fs\<rparr>)
      (indices_keys c1 ! HASH_FRAGMENT_2 (mdstr_hash c1 (md_key e2))) e2 (st1\<lparr>seen_regular_header := True\<rparr>)"
    "length (filter_elems c1) = 256 \<longrightarrow> length fs = 256" by blast
  define c0 where "c0 = c1\<lparr>filter_elems_sum := n, filter_elems := fs\<rparr>"
  have sync: "enc_sync c0 es1" using enc_sync_filters[OF e(5)] second(2) e(5) by (simp add: c0_def enc_sync_def)
  have live: "live_index c0 (entries_keys c0) (indices_keys c0) (HASH_FRAGMENT_2 (mdstr_hash c1 (md_key e2))) (md_key e2)"
    "indices_keys c0 = indices_keys c1"
    using first(1) facts(1) by (simp_all add: live_index_def c0_def)
  have "enc_inserted c0 + 1 < 4294967296"
    using e(6) by (simp add: c0_def c_def enc_inserted_def grpc_chttp2_hpack_compressor_init_def)
  from binary_key_emission[OF sync this _ hash_fragments(2) pair live(1), of "st1\<lparr>seen_regular_header := True\<rparr>",
      where 'u = "grpc_mdelem list"] headers_sent_open[OF e(2) o(1)] obtain c2 st2 r2 bs2 where
    k: "hpack_enc_key c0 (indices_keys c1 ! HASH_FRAGMENT_2 (mdstr_hash c1 (md_key e2))) e2 (st1\<lparr>seen_regular_header := True\<rparr>) = Some (c2, st2, r2)"
    "block_grows (st1\<lparr>seen_regular_header := True\<rparr>) bs2 st2"
    "\<And>p :: grpc_mdelem list grpc_chttp2_hpack_parser. parser_at p es1 \<Longrightarrow> \<exists>q. hpack_run Parse_begin p bs2 = Inr (False, q)"
    by (auto simp: live(2))
  have "headers_sent st1 bs2 st2" using k(2) by (auto simp: headers_sent_def block_grows_def)
  from headers_sent_trans[OF e(2) this] have "headers_sent st (bs1 @ bs2) st2" .
  moreover have "encode_headers c [e1, e2] st = Some (c2, st2)" using e(1) second(1) k(1) by (simp add: c0_def)
  ultimately show ?thesis using e(3) k(3) by blast
qed

text \<open>
  C8. A second binary header with the same key can break the connection: when the first header
  of a new connection went into the table, the second, with another value, is sent with the
  index of the key and its value compressed but not marked as compressed, and the parser takes
  the bytes for base64. If the first of them is no character of base64, it rejects the whole
  block; otherwise more of the value may be misread before anything is noticed, if it is. No
  assertion of the encoder fires. This holds for any seed of the hash.
\<close>

theorem repeated_binary_header_rejected:
  assumes "binary_pair e1 e2" "slice_buffer_ok output" "sid \<noteq> 0"
    and "hpack_base p" "hptbl_ok (table p)" "hptbl_entries (table p) = []" "state p = Parse_begin"
    "on_header p = collect_header" "on_header_user_data p = Some us"
  shows "\<exists>c1 out fs q.
    grpc_chttp2_encode now [GRPC_OP_METADATA \<lparr> metadata_list = [e1, e2], metadata_garbage = [],
        metadata_deadline = gpr_inf_future GPR_CLOCK_REALTIME \<rparr>] eof sid (grpc_chttp2_hpack_compressor_init seed) output =
      Some (c1, out) \<and>
    buffer_bytes out = buffer_bytes output @ frames_bytes sid fs \<and> frames_step False fs = Some False \<and>
    grpc_chttp2_hpack_parser_parse p (header_payload fs) = Inr (False, q)"
proof -
  let ?c = "grpc_chttp2_hpack_compressor_init seed"
  let ?b = "\<lparr> metadata_list = [e1, e2], metadata_garbage = [], metadata_deadline = gpr_inf_future GPR_CLOCK_REALTIME \<rparr>"
  have "\<exists>c2 st' bs. encode_headers ?c [e1, e2] st = Some (c2, st') \<and> headers_sent st bs st' \<and>
      (\<exists>q. hpack_run Parse_begin p bs = Inr (False, q))" if o: "header_open st" "\<not> seen_regular_header st" for st
  proof -
    from two_binary_headers[OF o assms(1), of seed] obtain c2 st' bs1 bs2 es where
      e: "encode_headers ?c [e1, e2] st = Some (c2, st')" "headers_sent st (bs1 @ bs2) st'"
      "reads_headers bs1 [] [e1] es"
      "\<And>p :: grpc_mdelem list grpc_chttp2_hpack_parser. parser_at p es \<Longrightarrow> \<exists>q. hpack_run Parse_begin p bs2 = Inr (False, q)" by blast
    from e(3) assms(4-9) obtain q where "hpack_run Parse_begin p (bs1 @ bs2) = hpack_run Parse_begin q bs2" "parser_at q es"
      unfolding reads_headers_def parser_at_def by blast
    with e(4) have "\<exists>q. hpack_run Parse_begin p (bs1 @ bs2) = Inr (False, q)" by auto
    with e(1,2) show ?thesis by blast
  qed
  from encode_batch_frames[OF assms(2,3), of ?b ?c "\<lambda>bs. \<exists>q. hpack_run Parse_begin p bs = Inr (False, q)" now eof] this assms(7)
  show ?thesis by (simp add: grpc_chttp2_hpack_parser_parse_def gpr_time_cmp_def gpr_inf_future_def)
qed

theorem repeated_binary_header_rejected_witness:
  "\<exists>c1 out fs q.
    grpc_chttp2_encode (\<lambda>ct. gpr_time_0 ct) [GRPC_OP_METADATA
        \<lparr> metadata_list = [\<lparr> md_key = bytes_of_string ''a-bin'', md_value = [0] \<rparr>, \<lparr> md_key = bytes_of_string ''a-bin'', md_value = [1] \<rparr>],
          metadata_garbage = [], metadata_deadline = gpr_inf_future GPR_CLOCK_REALTIME \<rparr>]
        True 1 (grpc_chttp2_hpack_compressor_init 0) gpr_slice_buffer_init = Some (c1, out) \<and>
    buffer_bytes out = frames_bytes 1 fs \<and> frames_step False fs = Some False \<and>
    grpc_chttp2_hpack_parser_parse example_hpack_parser (header_payload fs) = Inr (False, q)"
proof -
  have p: "table example_hpack_parser = grpc_chttp2_hptbl_init" "state example_hpack_parser = Parse_begin"
    "on_header example_hpack_parser = collect_header" "on_header_user_data example_hpack_parser = Some []"
    by (simp_all add: example_hpack_parser_def grpc_chttp2_hpack_parser_init_def)
  have "misread_value [1]" by code_simp
  then have "binary_pair \<lparr> md_key = bytes_of_string ''a-bin'', md_value = [0] \<rparr> \<lparr> md_key = bytes_of_string ''a-bin'', md_value = [1] \<rparr>"
    by (simp add: binary_pair_def bytes_of_string_def of_char_def grpc_is_binary_header_def regular_header_def
        hpack_entry_size_def MAX_DECODER_SPACE_USAGE_def)
  moreover have "hpack_base example_hpack_parser" using example_hpack_parser_ok by (simp add: hpack_parser_ok_def)
  ultimately show ?thesis
    using repeated_binary_header_rejected[OF _ example_sync(3), of _ _ 1 example_hpack_parser "[]" "\<lambda>ct. gpr_time_0 ct" True 0]
      p hptbl_rep_ok[OF hptbl_init_rep] example_sync(4,5)
    by simp
qed

end
