(* ===== verification/Stream_Flow.thy ===== *)
theory Stream_Flow
  imports Stream_Frames
begin

text \<open>
  Flow control: what \<^const>\<open>grpc_chttp2_preencode\<close> lets through, and that what it lets
  through can be encoded.
\<close>

text \<open>A list of operations as the sequence of metadata batches and bytes that it stands for.\<close>

fun op_items :: "grpc_stream_op \<Rightarrow> (grpc_metadata_batch + u8) list" where
  "op_items GRPC_NO_OP = []"
| "op_items (GRPC_OP_METADATA b) = [Inl b]"
| "op_items (GRPC_OP_BEGIN_MESSAGE len flags) = map Inr (slice_bytes (begin_message_slice len flags))"
| "op_items (GRPC_OP_SLICE s) = map Inr (slice_bytes s)"

definition ops_items :: "grpc_stream_op list \<Rightarrow> (grpc_metadata_batch + u8) list" where
  "ops_items ops = concat (map op_items ops)"

fun encodable_op :: "grpc_stream_op \<Rightarrow> bool" where
  "encodable_op (GRPC_OP_METADATA b) = True"
| "encodable_op (GRPC_OP_SLICE s) \<longleftrightarrow> slice_ok s \<and> slice_bytes s \<noteq> []"
| "encodable_op _ = False"

lemma ops_items_simps [simp]:
  "ops_items [] = []" "ops_items (op # ops) = op_items op @ ops_items ops" "ops_items (ops @ ops') = ops_items ops @ ops_items ops'"
  by (simp_all add: ops_items_def)

lemma ops_data_append [simp]: "ops_data (ops @ ops') = ops_data ops @ ops_data ops'"
  by (induction ops rule: ops_data.induct) auto

text \<open>The bytes that an operation will send.\<close>

fun op_length :: "grpc_stream_op \<Rightarrow> nat" where
  "op_length (GRPC_OP_BEGIN_MESSAGE len flags) = 5"
| "op_length (GRPC_OP_SLICE s) = length (slice_bytes s)"
| "op_length _ = 0"

abbreviation queue_length :: "grpc_stream_op list \<Rightarrow> nat" where
  "queue_length ops \<equiv> sum_list (map op_length ops)"

lemma op_length_slice: "slice_of_op op = Some s \<Longrightarrow> op_length op = length (slice_bytes s)"
  by (cases op) (auto simp: begin_message_slice_def gpr_slice_malloc_def)

lemma op_length_none: "slice_of_op op = None \<Longrightarrow> op_length op = 0"
  by (cases op) auto

lemma begin_message_slice_ok: "slice_ok (begin_message_slice len flags)"
  by (simp add: begin_message_slice_def gpr_slice_malloc_def)

lemma slice_of_op_facts:
  "slice_of_op op = Some s \<Longrightarrow> op_items op = map Inr (slice_bytes s)"
  "slice_of_op op = Some s \<Longrightarrow> op_ok op \<Longrightarrow> slice_ok s"
  "slice_of_op op = None \<Longrightarrow> op = GRPC_NO_OP \<or> (\<exists>b. op = GRPC_OP_METADATA b)"
  by (cases op; auto simp: begin_message_slice_ok)+

definition preencoded ::
    "grpc_stream_op list \<Rightarrow> u32 \<Rightarrow> u32 \<Rightarrow> grpc_stream_op list \<Rightarrow> u32 \<Rightarrow> grpc_stream_op list \<Rightarrow> bool" where
  "preencoded inops max_flow taken rest t out \<longleftrightarrow>
     t \<le> max_flow \<and> unat t = unat taken + length (ops_data out) \<and> ops_items out @ ops_items rest = ops_items inops \<and>
     (rest = [] \<or> t = max_flow \<and> 0 < queue_length rest) \<and>
     length (ops_data out) + queue_length rest = queue_length inops \<and>
     (\<forall>op \<in> set out. encodable_op op) \<and> (\<forall>op \<in> set rest. op_ok op)"

lemma preencode_exit:
  assumes "slice_of_op op = Some s" "slice_bytes s \<noteq> []"
  shows "preencode_loop (op # ops) m m outops = Some (GRPC_OP_SLICE s # ops, m, outops)"
  using assms by (subst preencode_loop.simps) (simp add: GPR_SLICE_LENGTH_def)

lemma preencode_loop_ok:
  assumes "\<forall>op \<in> set inops. op_ok op" "taken \<le> m"
  shows "\<exists>rest t out. preencode_loop inops m taken outops = Some (rest, t, outops @ out) \<and> preencoded inops m taken rest t out"
  using assms
proof (induction inops arbitrary: taken outops)
  case Nil
  then show ?case
    by (subst preencode_loop.simps) (auto simp: preencoded_def intro!: exI[of _ "[]"])
next
  case (Cons op ops)
  have next': "\<exists>rest t out. preencode_loop ops m (taken + word_of_nat (length (ops_data pre))) (outops @ pre) = Some (rest, t, outops @ out) \<and>
      preencoded (op # ops) m taken rest t out"
    if "op_items op = ops_items pre" "op_length op = length (ops_data pre)" "\<forall>x \<in> set pre. encodable_op x" "length (ops_data pre) \<le> unat (m - taken)" for pre
  proof -
    let ?n = "length (ops_data pre)"
    have m: "unat (m - taken) = unat m - unat taken" using Cons.prems(2) by (simp add: unat_sub)
    have "unat taken \<le> unat m" "unat m < 4294967296" using Cons.prems(2) unat_u32_less by (auto simp: word_le_nat_alt)
    then have n: "unat taken + ?n < 4294967296" "?n < 4294967296" using that(4) m by linarith+
    then have t: "unat (taken + word_of_nat ?n) = unat taken + ?n" by (simp add: unat_word_ariths unat_of_nat_u32[OF n(2)])
    then have "taken + word_of_nat ?n \<le> m" using that(4) m Cons.prems(2) by (simp add: word_le_nat_alt)
    with Cons.IH[of "taken + word_of_nat ?n" "outops @ pre"] Cons.prems(1) obtain rest t' out where
      "preencode_loop ops m (taken + word_of_nat ?n) (outops @ pre) = Some (rest, t', (outops @ pre) @ out)"
      "preencoded ops m (taken + word_of_nat ?n) rest t' out" by auto
    with that t show ?thesis by (intro exI[of _ rest] exI[of _ t'] exI[of _ "pre @ out"]) (auto simp: preencoded_def)
  qed
  show ?case
  proof (cases "slice_of_op op")
    case None
    let ?pre = "if op = GRPC_NO_OP then [] else [op]"
    have "op_items op = ops_items ?pre" "op_length op = 0" "\<forall>x \<in> set ?pre. encodable_op x" "ops_data ?pre = []"
      using slice_of_op_facts(3)[OF None] by auto
    with next'[of ?pre] None Cons.prems(2) show ?thesis
      by (subst preencode_loop.simps) (auto split: if_splits)
  next
    case (Some s)
    note facts = slice_of_op_facts(1,2)[OF Some]
    have ok: "slice_ok s" using facts(2) Cons.prems(1) by simp
    have opl: "op_length op = length (slice_bytes s)" by (rule op_length_slice[OF Some])
    have run: "preencode_loop (op # ops) m taken outops =
        (if slice_bytes s = [] then preencode_loop ops m taken outops
         else if m - taken = 0 then Some (GRPC_OP_SLICE s # ops, taken, outops)
         else if length (slice_bytes s) > unat (m - taken)
         then do { (rest, first) \<leftarrow> gpr_slice_split_head s (unat (m - taken));
           preencode_loop (GRPC_OP_SLICE rest # ops) m (taken + word_of_nat (GPR_SLICE_LENGTH first)) (outops @ [GRPC_OP_SLICE first]) }
         else preencode_loop ops m (taken + word_of_nat (length (slice_bytes s))) (outops @ [GRPC_OP_SLICE s]))"
      using Cons.prems(2) Some by (subst preencode_loop.simps) (simp add: GPR_SLICE_LENGTH_def)
    consider (empty) "slice_bytes s = []" | (full) "slice_bytes s \<noteq> []" "m = taken"
      | (split) "slice_bytes s \<noteq> []" "m \<noteq> taken" "length (slice_bytes s) > unat (m - taken)"
      | (all) "slice_bytes s \<noteq> []" "m \<noteq> taken" "length (slice_bytes s) \<le> unat (m - taken)" by linarith
    then show ?thesis
    proof cases
      case empty
      with next'[of "[]"] facts(1) opl show ?thesis by (simp add: run)
    next
      case full
      have "preencoded (op # ops) m taken (GRPC_OP_SLICE s # ops) taken []"
        using full facts(1) ok opl Cons.prems by (simp add: preencoded_def)
      moreover have "preencode_loop (op # ops) m taken outops = Some (GRPC_OP_SLICE s # ops, taken, outops @ [])"
        unfolding run using full by simp
      ultimately show ?thesis by blast
    next
      case all
      with next'[of "[GRPC_OP_SLICE s]"] facts(1) ok opl show ?thesis by (simp add: run)
    next
      case split
      from slice_split_head_ok[OF ok, of "unat (m - taken)"] split(3) obtain tail first where
        sp: "gpr_slice_split_head s (unat (m - taken)) = Some (tail, first)" "slice_ok tail" "slice_ok first"
        "slice_bytes first = take (unat (m - taken)) (slice_bytes s)" "slice_bytes tail = drop (unat (m - taken)) (slice_bytes s)" by auto
      have len: "length (slice_bytes first) = unat (m - taken)" "slice_bytes tail \<noteq> []" using sp(4,5) split(3) by simp_all
      have t: "taken + word_of_nat (GPR_SLICE_LENGTH first) = m" by (simp add: GPR_SLICE_LENGTH_def len(1))
      have "unat m = unat taken + unat (m - taken)" using Cons.prems(2) by (simp add: unat_sub word_le_nat_alt)
      moreover have "unat (m - taken) \<noteq> 0" using split(2) by (simp add: unat_eq_0)
      then have "slice_bytes first \<noteq> []" using len(1) by auto
      moreover have "map Inr (slice_bytes first) @ map Inr (slice_bytes tail) = (op_items op :: (grpc_metadata_batch + u8) list)"
        unfolding facts(1) sp(4,5) by (simp flip: map_append)
      ultimately have "preencoded (op # ops) m taken (GRPC_OP_SLICE tail # ops) m [GRPC_OP_SLICE first]"
        using Cons.prems(1) sp(2,3,5) len split(3) opl by (simp add: preencoded_def)
      moreover have "preencode_loop (op # ops) m taken outops = Some (GRPC_OP_SLICE tail # ops, m, outops @ [GRPC_OP_SLICE first])"
        using split sp(1) preencode_exit[of "GRPC_OP_SLICE tail" tail ops m "outops @ [GRPC_OP_SLICE first]"] len(2)
        by (simp add: run t)
      ultimately show ?thesis by blast
    qed
  qed
qed

lemma encodable_ok: "encodable_op op \<Longrightarrow> op_ok op"
  by (cases op) auto

text \<open>
  C9. Flow control takes operations from the front of the queue: it always returns, it
  takes no more bytes than allowed and reports how many they are, it splits a slice where
  the allowance ends, and what it takes followed by what it leaves is the queue it was
  given, as metadata batches and bytes, with the five-byte prefix of each message. It stops
  early only when the allowance is used up, and what it takes can be encoded.
\<close>

theorem preencode_conserves:
  assumes "\<forall>op \<in> set inops. op_ok op"
  shows "\<exists>rest t out. grpc_chttp2_preencode inops max_flow [] = Some (rest, t, out) \<and>
    t \<le> max_flow \<and> unat t = length (ops_data out) \<and> ops_items out @ ops_items rest = ops_items inops \<and>
    (rest = [] \<or> t = max_flow) \<and> (\<forall>op \<in> set out. encodable_op op) \<and> (\<forall>op \<in> set rest. op_ok op)"
  using preencode_loop_ok[OF assms, of 0 max_flow "[]"] by (auto simp: preencoded_def grpc_chttp2_preencode_def)

theorem preencode_conserves_witness:
  "\<exists>rest t out. grpc_chttp2_preencode [GRPC_OP_BEGIN_MESSAGE 3 0, GRPC_NO_OP, GRPC_OP_SLICE (Inlined [7, 8, 9])] 6 [] =
      Some (rest, t, out) \<and> t \<le> 6 \<and> unat t = length (ops_data out) \<and>
    ops_items out @ ops_items rest = map Inr [0, 0, 0, 0, 3, 7, 8, 9] \<and> (rest = [] \<or> t = 6)"
  using preencode_conserves[of "[GRPC_OP_BEGIN_MESSAGE 3 0, GRPC_NO_OP, GRPC_OP_SLICE (Inlined [7, 8, 9])]" 6]
  by (auto simp: begin_message_slice_def gpr_slice_malloc_def)

text \<open>The transport calls again whenever the peer's window allows more bytes.\<close>

fun preencode_rounds :: "grpc_stream_op list \<Rightarrow> u32 list \<Rightarrow> (grpc_stream_op list \<times> grpc_stream_op list) option" where
  "preencode_rounds inops [] = Some (inops, [])"
| "preencode_rounds inops (w # ws) =
     do {
       (rest, taken, out) \<leftarrow> grpc_chttp2_preencode inops w [];
       (rest, outs) \<leftarrow> preencode_rounds rest ws;
       Some (rest, out @ outs)
     }"

text \<open>
  C10. Everything queued is sent eventually: once the windows granted in some calls, however
  small each is, add up to the bytes in the queue, nothing is left in it, and what was taken
  in all the calls together is the queue, in order.
\<close>

theorem preencode_drains:
  assumes "\<forall>op \<in> set inops. op_ok op" "ws \<noteq> []" "queue_length inops \<le> sum_list (map unat ws)"
  shows "\<exists>outs. preencode_rounds inops ws = Some ([], outs) \<and> ops_items outs = ops_items inops"
  using assms
proof (induction ws arbitrary: inops)
  case (Cons w ws)
  from preencode_loop_ok[OF Cons.prems(1), of 0 w "[]"] obtain rest t out where
    p: "grpc_chttp2_preencode inops w [] = Some (rest, t, out)" "preencoded inops w 0 rest t out"
    by (auto simp: grpc_chttp2_preencode_def)
  show ?case
  proof (cases "rest = [] \<and> ws = []")
    case True
    with p show ?thesis by (simp add: preencoded_def)
  next
    case False
    have "ws \<noteq> [] \<and> queue_length rest \<le> sum_list (map unat ws)"
      using False p(2) Cons.prems(3) by (cases "rest = []") (auto simp: preencoded_def)
    moreover have "\<forall>op \<in> set rest. op_ok op" using p(2) by (simp add: preencoded_def)
    ultimately obtain outs where "preencode_rounds rest ws = Some ([], outs)" "ops_items outs = ops_items rest"
      using Cons.IH by blast
    with p show ?thesis by (simp add: preencoded_def)
  qed
qed simp

theorem preencode_drains_witness:
  "\<exists>outs. preencode_rounds [GRPC_OP_BEGIN_MESSAGE 3 0, GRPC_OP_SLICE (Inlined [7, 8, 9])] [2, 0, 5, 1] = Some ([], outs) \<and>
    ops_items outs = map Inr [0, 0, 0, 0, 3, 7, 8, 9]"
  using preencode_drains[of "[GRPC_OP_BEGIN_MESSAGE 3 0, GRPC_OP_SLICE (Inlined [7, 8, 9])]" "[2, 0, 5, 1]"]
  by (auto simp: begin_message_slice_def gpr_slice_malloc_def)

end
