(* ===== verification/Incoming_Metadata.thy ===== *)
theory Incoming_Metadata
  imports Gpr_Slice Gpr_Time Hpack_Table
begin

text \<open>
  The metadata and the operations that a stream receives:
  \<^verbatim>\<open>src/core/transport/chttp2/incoming_metadata.c\<close> and the buffers of stream operations it
  fills. The elements of all header blocks are gathered in one array; an operation that stands
  for a header block holds, while it is on its way up, not a list of elements but the number
  of elements in the array at the end of its block. Before the operations are handed to the
  application these numbers become lists.
\<close>

section \<open>Data\<close>

text \<open>
  A stream operation with \<open>'m\<close> in the place of the list of metadata elements: for an operation
  on its way up the number of elements at its end, for one that is handed over the positions
  of its first and last element in the array.
\<close>

datatype 'm received_op =
    Received_metadata 'm gpr_timespec
  | Received_begin_message u32 u32 \<comment> \<open>length and flags\<close>
  | Received_slice gpr_slice

type_synonym incoming_sopb = "nat received_op list"
type_synonym published_sopb = "(nat \<times> nat) received_op list"

text \<open>
  Pointers to elements are positions in the array; the null pointer is \<^const>\<open>None\<close>. An element
  whose memory was never written has no \<open>lm_md\<close>.
\<close>

record grpc_linked_mdelem =
  lm_md :: "grpc_mdelem option"
  lm_next :: "nat option"
  lm_prev :: "nat option"

definition unwritten_elem :: grpc_linked_mdelem where
  "unwritten_elem = \<lparr> lm_md = None, lm_next = None, lm_prev = None \<rparr>"

record grpc_chttp2_incoming_metadata_buffer =
  md_elems :: "grpc_linked_mdelem list" \<comment> \<open>the first \<open>count\<close> elements\<close>
  md_capacity :: nat
  md_deadline :: gpr_timespec

text \<open>The buffer is zeroed when its stream is created.\<close>

definition grpc_chttp2_incoming_metadata_buffer_init :: grpc_chttp2_incoming_metadata_buffer where
  "grpc_chttp2_incoming_metadata_buffer_init =
     \<lparr> md_elems = [], md_capacity = 0, md_deadline = gpr_inf_future GPR_CLOCK_REALTIME \<rparr>"

section \<open>Operations\<close>

text \<open>The links of a new element are what the memory held, here null.\<close>

definition grpc_chttp2_incoming_metadata_buffer_add ::
    "grpc_chttp2_incoming_metadata_buffer \<Rightarrow> grpc_mdelem \<Rightarrow> grpc_chttp2_incoming_metadata_buffer" where
  "grpc_chttp2_incoming_metadata_buffer_add b elem =
     (let b = (if md_capacity b = length (md_elems b) then b\<lparr>md_capacity := max 8 (2 * md_capacity b)\<rparr> else b) in
      b\<lparr>md_elems := md_elems b @ [unwritten_elem\<lparr>lm_md := Some elem\<rparr>]\<rparr>)"

definition grpc_chttp2_incoming_metadata_buffer_set_deadline ::
    "grpc_chttp2_incoming_metadata_buffer \<Rightarrow> gpr_timespec \<Rightarrow> grpc_chttp2_incoming_metadata_buffer" where
  "grpc_chttp2_incoming_metadata_buffer_set_deadline b deadline = b\<lparr>md_deadline := deadline\<rparr>"

definition grpc_chttp2_incoming_metadata_buffer_place_metadata_batch_into ::
    "grpc_chttp2_incoming_metadata_buffer \<Rightarrow> incoming_sopb \<Rightarrow> grpc_chttp2_incoming_metadata_buffer \<times> incoming_sopb" where
  "grpc_chttp2_incoming_metadata_buffer_place_metadata_batch_into b sopb =
     (b\<lparr>md_deadline := gpr_inf_future GPR_CLOCK_REALTIME\<rparr>,
      sopb @ [Received_metadata (length (md_elems b)) (md_deadline b)])"

definition grpc_chttp2_incoming_metadata_buffer_swap ::
    "grpc_chttp2_incoming_metadata_buffer \<Rightarrow> grpc_chttp2_incoming_metadata_buffer \<Rightarrow>
      grpc_chttp2_incoming_metadata_buffer \<times> grpc_chttp2_incoming_metadata_buffer" where
  "grpc_chttp2_incoming_metadata_buffer_swap a b = (b, a)"

fun shift_breadcrumb :: "nat \<Rightarrow> nat received_op \<Rightarrow> nat received_op" where
  "shift_breadcrumb delta (Received_metadata n d) = Received_metadata (delta + n) d"
| "shift_breadcrumb delta op = op"

text \<open>The results are the source, the destination and the operations.\<close>

definition grpc_incoming_metadata_buffer_move_to_referencing_sopb ::
    "grpc_chttp2_incoming_metadata_buffer \<Rightarrow> grpc_chttp2_incoming_metadata_buffer \<Rightarrow> incoming_sopb \<Rightarrow>
      (grpc_chttp2_incoming_metadata_buffer \<times> grpc_chttp2_incoming_metadata_buffer \<times> incoming_sopb) option" where
  "grpc_incoming_metadata_buffer_move_to_referencing_sopb src dst sopb =
     do {
       deadline \<leftarrow> gpr_time_min (md_deadline src) (md_deadline dst);
       let dst = dst\<lparr>md_deadline := deadline\<rparr>;
       (if md_elems src = [] then Some (src, dst, sopb)
        else if md_elems dst = [] then
          (let (src, dst) = grpc_chttp2_incoming_metadata_buffer_swap src dst in Some (src, dst, sopb))
        else
          (let delta = length (md_elems dst);
               n = length (md_elems src) + delta;
               dst = (if md_capacity dst < n then dst\<lparr>md_capacity := max (md_capacity dst * 2) n\<rparr> else dst) in
           Some (src\<lparr>md_elems := []\<rparr>, dst\<lparr>md_elems := md_elems dst @ md_elems src\<rparr>,
             map (shift_breadcrumb delta) sopb)))
     }"

definition set_lm_prev :: "grpc_linked_mdelem list \<Rightarrow> nat \<Rightarrow> nat option \<Rightarrow> grpc_linked_mdelem list option" where
  "set_lm_prev elems i p = do { e \<leftarrow> c_read elems i; c_write elems i (e\<lparr>lm_prev := p\<rparr>) }"

definition set_lm_next :: "grpc_linked_mdelem list \<Rightarrow> nat \<Rightarrow> nat option \<Rightarrow> grpc_linked_mdelem list option" where
  "set_lm_next elems i p = do { e \<leftarrow> c_read elems i; c_write elems i (e\<lparr>lm_next := p\<rparr>) }"

text \<open>The loop that links the elements of a block, from \<open>j\<close> on.\<close>

function link_loop :: "grpc_linked_mdelem list \<Rightarrow> nat \<Rightarrow> nat \<Rightarrow> grpc_linked_mdelem list option" where
  "link_loop elems j last_mdidx =
     (if j < last_mdidx then do {
        elems \<leftarrow> set_lm_prev elems j (Some (j - 1));
        elems \<leftarrow> set_lm_next elems (j - 1) (Some j);
        link_loop elems (j + 1) last_mdidx
      }
      else Some elems)"
  by auto
termination by (relation "measure (\<lambda>(elems, j, l). l - j)") auto

declare link_loop.simps [simp del]

definition link_block :: "grpc_linked_mdelem list \<Rightarrow> nat \<Rightarrow> nat \<Rightarrow> grpc_linked_mdelem list option" where
  "link_block elems mdidx last_mdidx =
     do {
       elems \<leftarrow> link_loop elems (mdidx + 1) last_mdidx;
       elems \<leftarrow> set_lm_prev elems mdidx None;
       set_lm_next elems (last_mdidx - 1) None
     }"

text \<open>The loop over the operations: \<open>mdidx\<close> is the end of the block before.\<close>

fun postprocess_ops ::
    "grpc_linked_mdelem list \<Rightarrow> nat \<Rightarrow> incoming_sopb \<Rightarrow> (grpc_linked_mdelem list \<times> nat \<times> published_sopb) option" where
  "postprocess_ops elems mdidx [] = Some (elems, mdidx, [])"
| "postprocess_ops elems mdidx (Received_metadata last_mdidx d # ops) =
     do {
       gpr_assert (last_mdidx > mdidx);
       gpr_assert (last_mdidx \<le> length elems);
       elems \<leftarrow> link_block elems mdidx last_mdidx;
       (elems, n, out) \<leftarrow> postprocess_ops elems last_mdidx ops;
       Some (elems, n, Received_metadata (mdidx, last_mdidx - 1) d # out)
     }"
| "postprocess_ops elems mdidx (Received_begin_message len flags # ops) =
     do { (elems, n, out) \<leftarrow> postprocess_ops elems mdidx ops; Some (elems, n, Received_begin_message len flags # out) }"
| "postprocess_ops elems mdidx (Received_slice s # ops) =
     do { (elems, n, out) \<leftarrow> postprocess_ops elems mdidx ops; Some (elems, n, Received_slice s # out) }"

fun is_metadata :: "'m received_op \<Rightarrow> bool" where
  "is_metadata (Received_metadata m d) = True"
| "is_metadata _ = False"

text \<open>
  The results are the buffer, the operations and the array that they point into, if it is set.
  Elements of a block that is not complete stay for the next time: an array for them is
  allocated, and \<^verbatim>\<open>memcpy\<close> has its arguments exchanged, so the new memory is copied over the
  elements and not the elements into the new memory.
\<close>

definition grpc_chttp2_incoming_metadata_buffer_postprocess_sopb_and_begin_live_op ::
    "grpc_chttp2_incoming_metadata_buffer \<Rightarrow> incoming_sopb \<Rightarrow>
      (grpc_chttp2_incoming_metadata_buffer \<times> published_sopb \<times> grpc_linked_mdelem list option) option" where
  "grpc_chttp2_incoming_metadata_buffer_postprocess_sopb_and_begin_live_op b sopb =
     do {
       (elems, mdidx, ops) \<leftarrow> postprocess_ops (md_elems b) 0 sopb;
       let count = length elems;
       (if \<not> list_ex is_metadata sopb then Some (b\<lparr>md_elems := elems\<rparr>, ops, None)
        else if mdidx \<noteq> count
        then (let new_count = count - mdidx; mem = replicate new_count unwritten_elem in
          do {
            gpr_assert (mdidx < count);
            Some (b\<lparr>md_elems := mem, md_capacity := new_count\<rparr>, ops, Some (take mdidx elems @ mem))
          })
        else Some (b\<lparr>md_elems := [], md_capacity := 0\<rparr>, ops, Some elems))
     }"

section \<open>Header blocks\<close>

text \<open>
  What is received on a stream, as a list of header blocks and other operations, and the
  operations and elements that stand for it.
\<close>

fun received_sopb :: "nat \<Rightarrow> grpc_mdelem list received_op list \<Rightarrow> incoming_sopb" where
  "received_sopb n [] = []"
| "received_sopb n (Received_metadata mds d # xs) =
     Received_metadata (n + length mds) d # received_sopb (n + length mds) xs"
| "received_sopb n (Received_begin_message len flags # xs) = Received_begin_message len flags # received_sopb n xs"
| "received_sopb n (Received_slice s # xs) = Received_slice s # received_sopb n xs"

fun block_elems :: "'a list received_op \<Rightarrow> 'a list" where
  "block_elems (Received_metadata mds d) = mds"
| "block_elems _ = []"

definition received_elems :: "'a list received_op list \<Rightarrow> 'a list" where
  "received_elems xs = concat (map block_elems xs)"

lemma received_elems_simps [simp]:
  "received_elems [] = []"
  "received_elems (x # xs) = block_elems x @ received_elems xs"
  "received_elems (xs @ ys) = received_elems xs @ received_elems ys"
  by (simp_all add: received_elems_def)

lemma received_sopb_append:
  "received_sopb n (xs @ ys) = received_sopb n xs @ received_sopb (n + length (received_elems xs)) ys"
  by (induction n xs rule: received_sopb.induct) (auto simp: add.assoc)

lemma received_sopb_shift:
  "map (shift_breadcrumb k) (received_sopb n xs) = received_sopb (k + n) xs"
  by (induction n xs rule: received_sopb.induct) (auto simp: add.assoc)

lemma received_sopb_is_metadata: "list_ex is_metadata (received_sopb n xs) \<longleftrightarrow> list_ex is_metadata xs"
  by (induction n xs rule: received_sopb.induct) auto

lemma received_elems_no_metadata: "\<not> list_ex is_metadata xs \<Longrightarrow> received_elems xs = []"
proof (induction xs)
  case (Cons x xs)
  then show ?case by (cases x) auto
qed simp

text \<open>
  An operation that was handed over holds a list of elements: following the links from its
  first element one meets exactly these elements and ends at its last element, and every
  element is linked back to the one before.
\<close>

fun linked_list :: "grpc_linked_mdelem list \<Rightarrow> nat option \<Rightarrow> nat option \<Rightarrow> nat \<Rightarrow> grpc_mdelem list \<Rightarrow> bool" where
  "linked_list elems prev cur tail [] \<longleftrightarrow> cur = None \<and> prev = Some tail"
| "linked_list elems prev cur tail (m # ms) \<longleftrightarrow>
     (case cur of
        None \<Rightarrow> False
      | Some i \<Rightarrow> i < length elems \<and> lm_md (elems ! i) = Some m \<and> lm_prev (elems ! i) = prev \<and>
          linked_list elems (Some i) (lm_next (elems ! i)) tail ms)"

fun op_holds :: "grpc_linked_mdelem list \<Rightarrow> (nat \<times> nat) received_op \<Rightarrow> grpc_mdelem list received_op \<Rightarrow> bool" where
  "op_holds elems (Received_metadata (head, tail) d) (Received_metadata mds d') \<longleftrightarrow>
     linked_list elems None (Some head) tail mds \<and> d = d'"
| "op_holds elems (Received_begin_message len flags) (Received_begin_message len' flags') \<longleftrightarrow> len = len' \<and> flags = flags'"
| "op_holds elems (Received_slice s) (Received_slice s') \<longleftrightarrow> s = s'"
| "op_holds elems _ _ \<longleftrightarrow> False"

definition published :: "grpc_linked_mdelem list option \<Rightarrow> published_sopb \<Rightarrow> grpc_mdelem list received_op list \<Rightarrow> bool" where
  "published live ops xs \<longleftrightarrow> list_all2 (op_holds (case live of None \<Rightarrow> [] | Some elems \<Rightarrow> elems)) ops xs"

definition no_empty_block :: "'a list received_op list \<Rightarrow> bool" where
  "no_empty_block xs \<longleftrightarrow> (\<forall>x \<in> set xs. is_metadata x \<longrightarrow> block_elems x \<noteq> [])"

section \<open>Linking\<close>

text \<open>A block occupies a range of the array, linked in order.\<close>

definition linked_range :: "grpc_linked_mdelem list \<Rightarrow> nat \<Rightarrow> nat \<Rightarrow> bool" where
  "linked_range elems a b \<longleftrightarrow>
     (\<forall>j \<in> {a..<b}. lm_prev (elems ! j) = (if j = a then None else Some (j - 1)) \<and>
        lm_next (elems ! j) = (if j + 1 = b then None else Some (j + 1)))"

lemma set_lm_ok:
  assumes "i < length elems"
  shows "set_lm_prev elems i p = Some (elems[i := (elems ! i)\<lparr>lm_prev := p\<rparr>])"
    "set_lm_next elems i p = Some (elems[i := (elems ! i)\<lparr>lm_next := p\<rparr>])"
  using assms by (simp_all add: set_lm_prev_def set_lm_next_def c_read_def c_write_def)

lemma link_loop_ok:
  assumes "a < j" "b \<le> length elems"
  shows "\<exists>elems'. link_loop elems j b = Some elems' \<and> map lm_md elems' = map lm_md elems \<and>
     (\<forall>i < length elems. lm_prev (elems' ! i) = (if j \<le> i \<and> i < b then Some (i - 1) else lm_prev (elems ! i)) \<and>
        lm_next (elems' ! i) = (if j \<le> i + 1 \<and> i + 1 < b then Some (i + 1) else lm_next (elems ! i)))"
  using assms
proof (induction elems j b rule: link_loop.induct)
  case (1 elems j b)
  show ?case
  proof (cases "j < b")
    case True
    let ?e1 = "elems[j := (elems ! j)\<lparr>lm_prev := Some (j - 1)\<rparr>]"
    let ?e2 = "?e1[j - 1 := (?e1 ! (j - 1))\<lparr>lm_next := Some j\<rparr>]"
    have s: "set_lm_prev elems j (Some (j - 1)) = Some ?e1" "set_lm_next ?e1 (j - 1) (Some j) = Some ?e2"
      using True 1(3) set_lm_ok[of j elems] set_lm_ok[of "j - 1" ?e1] by simp_all
    have md: "map lm_md ?e2 = map lm_md elems"
      using True 1(2,3) by (intro nth_equalityI) (auto simp: nth_list_update)
    from 1(1)[OF True s] 1(2,3) obtain e' where e': "link_loop ?e2 (j + 1) b = Some e'" "map lm_md e' = map lm_md ?e2"
      "\<forall>i < length elems. lm_prev (e' ! i) = (if j + 1 \<le> i \<and> i < b then Some (i - 1) else lm_prev (?e2 ! i)) \<and>
        lm_next (e' ! i) = (if j + 1 \<le> i + 1 \<and> i + 1 < b then Some (i + 1) else lm_next (?e2 ! i))" by auto
    have "link_loop elems j b = Some e'" using True s e'(1) by (simp add: link_loop.simps[of elems j b])
    moreover have "lm_prev (e' ! i) = (if j \<le> i \<and> i < b then Some (i - 1) else lm_prev (elems ! i)) \<and>
        lm_next (e' ! i) = (if j \<le> i + 1 \<and> i + 1 < b then Some (i + 1) else lm_next (elems ! i))" if "i < length elems" for i
      using e'(3) that True 1(2,3) by (cases "i = j") (auto simp: nth_list_update)
    ultimately show ?thesis using e'(2) md by auto
  qed (auto simp: link_loop.simps[of elems j b])
qed

lemma link_block_ok:
  assumes "a < b" "b \<le> length elems"
  obtains elems' where "link_block elems a b = Some elems'" "map lm_md elems' = map lm_md elems"
    "linked_range elems' a b" "\<And>x y. y \<le> a \<Longrightarrow> linked_range elems x y \<Longrightarrow> linked_range elems' x y"
proof -
  from link_loop_ok[of a "a + 1" b elems] assms(2) obtain e1 where e1: "link_loop elems (a + 1) b = Some e1"
    "map lm_md e1 = map lm_md elems"
    "\<forall>i < length elems. lm_prev (e1 ! i) = (if a + 1 \<le> i \<and> i < b then Some (i - 1) else lm_prev (elems ! i)) \<and>
        lm_next (e1 ! i) = (if a + 1 \<le> i + 1 \<and> i + 1 < b then Some (i + 1) else lm_next (elems ! i))" by auto
  have l: "length e1 = length elems" using e1(2) by (metis length_map)
  let ?e2 = "e1[a := (e1 ! a)\<lparr>lm_prev := None\<rparr>]"
  let ?e3 = "?e2[b - 1 := (?e2 ! (b - 1))\<lparr>lm_next := None\<rparr>]"
  have s: "set_lm_prev e1 a None = Some ?e2" "set_lm_next ?e2 (b - 1) None = Some ?e3"
    using assms l set_lm_ok[of a e1] set_lm_ok[of "b - 1" ?e2] by simp_all
  show thesis
  proof
    show "link_block elems a b = Some ?e3" using e1(1) s by (simp add: link_block_def)
    show "map lm_md ?e3 = map lm_md elems"
      using e1(2) assms l by (metis (no_types, lifting) list_update_id map_update nth_list_update grpc_linked_mdelem.select_convs(1) grpc_linked_mdelem.surjective grpc_linked_mdelem.update_convs(2,3) length_list_update)
    show "linked_range ?e3 a b"
      using e1(3) assms l by (auto simp: linked_range_def nth_list_update)
    show "linked_range ?e3 x y" if "y \<le> a" "linked_range elems x y" for x y
      using e1(3) assms l that by (auto simp: linked_range_def nth_list_update)
  qed
qed

lemma linked_range_list:
  assumes "linked_range elems a b" "a \<le> j" "j < b" "b \<le> length elems"
    "map lm_md (take (b - j) (drop j elems)) = map Some ms"
  shows "linked_list elems (if j = a then None else Some (j - 1)) (Some j) (b - 1) ms"
  using assms
proof (induction ms arbitrary: j)
  case Nil
  then show ?case by simp
next
  case (Cons m ms)
  have j: "lm_prev (elems ! j) = (if j = a then None else Some (j - 1))"
    "lm_next (elems ! j) = (if j + 1 = b then None else Some (j + 1))"
    using Cons.prems(1-3) by (auto simp: linked_range_def)
  have split: "take (b - j) (drop j elems) = elems ! j # take (b - (j + 1)) (drop (j + 1) elems)"
    using Cons.prems(3,4) by (simp add: Cons_nth_drop_Suc[symmetric] take_Cons' )
  show ?case
  proof (cases "j + 1 = b")
    case True
    with Cons.prems(3-5) split j show ?thesis by auto
  next
    case False
    with Cons.IH[of "j + 1"] Cons.prems split j show ?thesis by auto
  qed
qed

text \<open>The ranges of the blocks of a list of operations.\<close>

fun ranges_linked :: "grpc_linked_mdelem list \<Rightarrow> nat \<Rightarrow> grpc_mdelem list received_op list \<Rightarrow> bool" where
  "ranges_linked elems n [] \<longleftrightarrow> True"
| "ranges_linked elems n (x # xs) \<longleftrightarrow>
     (is_metadata x \<longrightarrow> linked_range elems n (n + length (block_elems x))) \<and> ranges_linked elems (n + length (block_elems x)) xs"

fun positions_sopb :: "nat \<Rightarrow> grpc_mdelem list received_op list \<Rightarrow> published_sopb" where
  "positions_sopb n [] = []"
| "positions_sopb n (Received_metadata mds d # xs) =
     Received_metadata (n, n + length mds - 1) d # positions_sopb (n + length mds) xs"
| "positions_sopb n (Received_begin_message len flags # xs) = Received_begin_message len flags # positions_sopb n xs"
| "positions_sopb n (Received_slice s # xs) = Received_slice s # positions_sopb n xs"

lemma no_empty_block_Cons [simp]:
  "no_empty_block (x # xs) \<longleftrightarrow> (is_metadata x \<longrightarrow> block_elems x \<noteq> []) \<and> no_empty_block xs"
  by (auto simp: no_empty_block_def)

lemma postprocess_received:
  assumes "no_empty_block xs" "n + length (received_elems xs) \<le> length elems"
  shows "\<exists>elems'. postprocess_ops elems n (received_sopb n xs) = Some (elems', n + length (received_elems xs), positions_sopb n xs) \<and>
    map lm_md elems' = map lm_md elems \<and> ranges_linked elems' n xs \<and>
    (\<forall>x y. y \<le> n \<longrightarrow> linked_range elems x y \<longrightarrow> linked_range elems' x y)"
  using assms
proof (induction xs arbitrary: n elems)
  case (Cons x xs)
  show ?case
  proof (cases x)
    case (Received_metadata mds d)
    let ?b = "n + length mds"
    have b: "n < ?b" "?b \<le> length elems" using Cons.prems Received_metadata by auto
    from link_block_ok[OF b] obtain e1 where e1: "link_block elems n ?b = Some e1" "map lm_md e1 = map lm_md elems"
      "linked_range e1 n ?b" "\<And>x y. y \<le> n \<Longrightarrow> linked_range elems x y \<Longrightarrow> linked_range e1 x y" by blast
    have "length e1 = length elems" using e1(2) by (metis length_map)
    with Cons.IH[of ?b e1] Cons.prems Received_metadata obtain e2 where
      e2: "postprocess_ops e1 ?b (received_sopb ?b xs) = Some (e2, ?b + length (received_elems xs), positions_sopb ?b xs)"
      "map lm_md e2 = map lm_md e1" "ranges_linked e2 ?b xs" "\<And>x y. y \<le> ?b \<Longrightarrow> linked_range e1 x y \<Longrightarrow> linked_range e2 x y"
      by (auto simp: add.assoc)
    have "linked_range e2 n ?b" by (rule e2(4)[OF _ e1(3)]) simp
    moreover have "linked_range e2 x y" if "y \<le> n" "linked_range elems x y" for x y
      by (rule e2(4)[OF _ e1(4)[OF that]]) (use that(1) in simp)
    ultimately show ?thesis using Received_metadata b e1(1,2) e2(1-3) by (auto simp: gpr_assert_def)
  qed (use Cons.IH[of n elems] Cons.prems in auto)
qed simp

lemma linked_range_cong:
  "take n live = take n elems \<Longrightarrow> b \<le> n \<Longrightarrow> n \<le> length elems \<Longrightarrow> linked_range elems a b \<Longrightarrow> linked_range live a b"
proof -
  assume t: "take n live = take n elems" "b \<le> n" "n \<le> length elems"
  have "live ! j = elems ! j" if "j < b" for j
    using t that by (metis less_le_trans nth_take)
  then show "linked_range elems a b \<Longrightarrow> linked_range live a b" by (simp add: linked_range_def)
qed

lemma published_positions:
  assumes "ranges_linked elems n xs" "no_empty_block xs" "n + length (received_elems xs) \<le> length elems"
    "map lm_md (take (length (received_elems xs)) (drop n elems)) = map Some (received_elems xs)"
  shows "list_all2 (op_holds elems) (positions_sopb n xs) xs"
  using assms
proof (induction xs arbitrary: n)
  case (Cons x xs)
  show ?case
  proof (cases x)
    case (Received_metadata mds d)
    let ?b = "n + length mds"
    have ne: "mds \<noteq> []" using Cons.prems(2) Received_metadata by simp
    have md: "map lm_md (take (length mds) (drop n elems)) = map Some mds"
      "map lm_md (take (length (received_elems xs)) (drop ?b elems)) = map Some (received_elems xs)"
      using Cons.prems(3,4) Received_metadata
      by (auto simp: take_add append_eq_append_conv add.commute)
    have "linked_list elems None (Some n) (?b - 1) mds"
      using linked_range_list[of elems n ?b n mds] Cons.prems(1,3) Received_metadata md(1) ne by simp
    moreover have "list_all2 (op_holds elems) (positions_sopb ?b xs) xs"
      by (rule Cons.IH) (use Cons.prems Received_metadata md(2) in auto)
    ultimately show ?thesis using Received_metadata by simp
  qed (use Cons.IH[of n] Cons.prems in auto)
qed simp

lemma published_no_metadata: "\<not> list_ex is_metadata xs \<Longrightarrow> list_all2 (op_holds elems) (positions_sopb n xs) xs"
proof (induction xs arbitrary: n)
  case (Cons x xs)
  then show ?case by (cases x) auto
qed simp

lemma ranges_linked_cong:
  "take k live = take k elems \<Longrightarrow> k \<le> length elems \<Longrightarrow> n + length (received_elems xs) \<le> k \<Longrightarrow> ranges_linked elems n xs \<Longrightarrow>
     ranges_linked live n xs"
proof (induction xs arbitrary: n)
  case (Cons x xs)
  then show ?case using linked_range_cong[of k live elems] by auto
qed simp

text \<open>The elements of the blocks received, and of a block that is not complete.\<close>

definition incoming_rep ::
    "grpc_chttp2_incoming_metadata_buffer \<Rightarrow> incoming_sopb \<Rightarrow> grpc_mdelem list received_op list \<Rightarrow> grpc_mdelem list \<Rightarrow> bool" where
  "incoming_rep b sopb xs part \<longleftrightarrow> map lm_md (md_elems b) = map Some (received_elems xs @ part) \<and> sopb = received_sopb 0 xs"

lemma incoming_rep_length: "incoming_rep b sopb xs part \<Longrightarrow> length (md_elems b) = length (received_elems xs) + length part"
  unfolding incoming_rep_def by (metis length_append length_map)

text \<open>Handing over: the operations hold their blocks, in the array that is handed over with them.\<close>

lemma postprocess_publishes:
  assumes "incoming_rep b sopb xs part" "no_empty_block xs"
  shows "\<exists>b' ops live. grpc_chttp2_incoming_metadata_buffer_postprocess_sopb_and_begin_live_op b sopb = Some (b', ops, live) \<and>
     published live ops xs \<and>
     (if list_ex is_metadata xs then md_elems b' = replicate (length part) unwritten_elem
      else map lm_md (md_elems b') = map Some part)"
proof -
  let ?n = "length (received_elems xs)"
  have r: "sopb = received_sopb 0 xs" "map lm_md (md_elems b) = map Some (received_elems xs @ part)"
    using assms(1) by (simp_all add: incoming_rep_def)
  have l: "length (md_elems b) = ?n + length part" by (rule incoming_rep_length[OF assms(1)])
  with postprocess_received[OF assms(2), of 0 "md_elems b"] obtain e where
    e: "postprocess_ops (md_elems b) 0 sopb = Some (e, ?n, positions_sopb 0 xs)" "map lm_md e = map lm_md (md_elems b)"
    "ranges_linked e 0 xs" using r(1) by auto
  have le: "length e = ?n + length part" using e(2) l by (metis length_map)
  have md: "map lm_md (take ?n e) = map Some (received_elems xs)" using e(2) r(2) by (simp add: take_map[symmetric])
  show ?thesis
  proof (cases "list_ex is_metadata xs")
    case False
    then have "?n = 0" by (simp add: received_elems_no_metadata)
    with False e l r published_no_metadata[OF False, of "[]" 0] show ?thesis
      by (simp add: grpc_chttp2_incoming_metadata_buffer_postprocess_sopb_and_begin_live_op_def received_sopb_is_metadata published_def)
  next
    case True
    define live where "live = (if part = [] then e else take ?n e @ replicate (length part) unwritten_elem)"
    have live: "take ?n live = take ?n e" "length live = length e" using le by (simp_all add: live_def)
    have "ranges_linked live 0 xs" by (rule ranges_linked_cong[OF live(1) _ _ e(3)]) (simp_all add: le)
    then have "published (Some live) (positions_sopb 0 xs) xs"
      using published_positions[of live 0 xs] assms(2) live le md by (simp add: published_def)
    then show ?thesis
      using True e(1) le r(1)
      by (auto simp: grpc_chttp2_incoming_metadata_buffer_postprocess_sopb_and_begin_live_op_def received_sopb_is_metadata
          live_def gpr_assert_def Let_def)
  qed
qed

lemma time_min_same_clock: "clock_type a = clock_type b \<Longrightarrow> \<exists>t. gpr_time_min a b = Some t"
  by (simp add: gpr_time_min_def gpr_time_cmp_def Let_def)

lemma incoming_rep_add:
  "incoming_rep b sopb xs part \<Longrightarrow> incoming_rep (grpc_chttp2_incoming_metadata_buffer_add b md) sopb xs (part @ [md])"
  by (simp add: incoming_rep_def grpc_chttp2_incoming_metadata_buffer_add_def Let_def)

lemma incoming_rep_place:
  assumes "incoming_rep b sopb xs part"
    "grpc_chttp2_incoming_metadata_buffer_place_metadata_batch_into b sopb = (b', sopb')"
  shows "incoming_rep b' sopb' (xs @ [Received_metadata part (md_deadline b)]) []"
  using assms incoming_rep_length[OF assms(1)] received_sopb_append[of 0 xs "[Received_metadata part (md_deadline b)]"]
  by (auto simp: incoming_rep_def grpc_chttp2_incoming_metadata_buffer_place_metadata_batch_into_def)

lemma incoming_rep_other:
  "incoming_rep b sopb xs [] \<Longrightarrow> \<not> is_metadata x \<Longrightarrow>
     incoming_rep b (sopb @ received_sopb 0 [x]) (xs @ [x]) []"
  by (cases x) (auto simp: incoming_rep_def received_sopb_append)

lemma incoming_rep_move:
  assumes src: "incoming_rep src sopb ys part" "no_empty_block ys" and dst: "incoming_rep dst sopb0 xs []"
    and clock: "clock_type (md_deadline src) = clock_type (md_deadline dst)"
  shows "\<exists>src' dst' sopb'. grpc_incoming_metadata_buffer_move_to_referencing_sopb src dst sopb = Some (src', dst', sopb') \<and>
     md_elems src' = [] \<and> incoming_rep dst' (sopb0 @ sopb') (xs @ ys) part"
proof -
  obtain t where t: "gpr_time_min (md_deadline src) (md_deadline dst) = Some t" using time_min_same_clock[OF clock] by auto
  consider (none) "md_elems src = []" | (first) "md_elems src \<noteq> []" "md_elems dst = []"
    | (both) "md_elems src \<noteq> []" "md_elems dst \<noteq> []" by blast
  then show ?thesis
  proof cases
    case none
    then have e: "received_elems ys = []" "part = []" using src(1) by (auto simp: incoming_rep_def)
    then have "\<not> list_ex is_metadata ys"
      using src(2) by (auto simp: no_empty_block_def list_ex_iff received_elems_def)
    then have "received_sopb 0 ys = received_sopb n ys" for n
    proof (induction ys)
      case (Cons y ys)
      then show ?case by (cases y) auto
    qed simp
    with none t e src(1) dst show ?thesis
      by (auto simp: grpc_incoming_metadata_buffer_move_to_referencing_sopb_def incoming_rep_def received_sopb_append)
  next
    case first
    then have "received_elems xs = []" using dst by (auto simp: incoming_rep_def)
    with first t src(1) dst show ?thesis
      by (auto simp: grpc_incoming_metadata_buffer_move_to_referencing_sopb_def incoming_rep_def received_sopb_append
          grpc_chttp2_incoming_metadata_buffer_swap_def)
  next
    case both
    have "map (shift_breadcrumb (length (md_elems dst))) sopb = received_sopb (length (received_elems xs)) ys"
      using src(1) incoming_rep_length[OF dst] by (simp add: incoming_rep_def received_sopb_shift)
    with both t src(1) dst show ?thesis
      by (auto simp: grpc_incoming_metadata_buffer_move_to_referencing_sopb_def incoming_rep_def received_sopb_append Let_def)
  qed
qed

text \<open>
  C2. Header blocks reach the application whole and in order. What was read on a stream, header
  blocks with at least one element each among messages, is moved behind what it received
  before, where the deadlines of both are on the same clock, and the operations are handed
  over. Then every header block is a doubly linked list of exactly its own elements, in order,
  from the first to the last; when no block is incomplete the buffer is empty again.
\<close>

theorem header_blocks_published:
  assumes "incoming_rep src sopb ys part" "incoming_rep dst sopb0 xs []" "no_empty_block (xs @ ys)"
    "clock_type (md_deadline src) = clock_type (md_deadline dst)"
  shows "\<exists>src' dst' sopb' dst'' ops live.
    grpc_incoming_metadata_buffer_move_to_referencing_sopb src dst sopb = Some (src', dst', sopb') \<and> md_elems src' = [] \<and>
    grpc_chttp2_incoming_metadata_buffer_postprocess_sopb_and_begin_live_op dst' (sopb0 @ sopb') = Some (dst'', ops, live) \<and>
    published live ops (xs @ ys) \<and> (part = [] \<longrightarrow> md_elems dst'' = [])"
proof -
  have "no_empty_block ys" using assms(3) by (simp add: no_empty_block_def)
  then obtain src' dst' sopb' where m:
    "grpc_incoming_metadata_buffer_move_to_referencing_sopb src dst sopb = Some (src', dst', sopb')" "md_elems src' = []"
    "incoming_rep dst' (sopb0 @ sopb') (xs @ ys) part"
    using incoming_rep_move[OF assms(1) _ assms(2,4)] by blast
  from postprocess_publishes[OF m(3) assms(3)] obtain dst'' ops live where
    "grpc_chttp2_incoming_metadata_buffer_postprocess_sopb_and_begin_live_op dst' (sopb0 @ sopb') = Some (dst'', ops, live)"
    "published live ops (xs @ ys)"
    "if list_ex is_metadata (xs @ ys) then md_elems dst'' = replicate (length part) unwritten_elem
     else map lm_md (md_elems dst'') = map Some part" by blast
  with m(1,2) show ?thesis by (auto split: if_splits)
qed

definition example_md :: "string \<Rightarrow> string \<Rightarrow> grpc_mdelem" where
  "example_md k v = \<lparr> md_key = bytes_of_string k, md_value = bytes_of_string v \<rparr>"

definition example_blocks :: "grpc_mdelem list received_op list" where
  "example_blocks =
     [Received_metadata [example_md ''a'' ''b'', example_md ''c'' ''d''] (gpr_inf_future GPR_CLOCK_REALTIME),
      Received_begin_message 3 0, Received_slice (Inlined [1, 2, 3])]"

definition example_buffer :: "grpc_mdelem list \<Rightarrow> grpc_chttp2_incoming_metadata_buffer" where
  "example_buffer mds = foldl grpc_chttp2_incoming_metadata_buffer_add grpc_chttp2_incoming_metadata_buffer_init mds"

theorem header_blocks_published_witness:
  "\<exists>src' dst' sopb' dst'' ops live.
    grpc_incoming_metadata_buffer_move_to_referencing_sopb (example_buffer [example_md ''a'' ''b'', example_md ''c'' ''d''])
      (example_buffer [example_md ''a'' ''b'', example_md ''c'' ''d'']) (received_sopb 0 example_blocks) =
        Some (src', dst', sopb') \<and> md_elems src' = [] \<and>
    grpc_chttp2_incoming_metadata_buffer_postprocess_sopb_and_begin_live_op dst' (received_sopb 0 example_blocks @ sopb') =
      Some (dst'', ops, live) \<and>
    published live ops (example_blocks @ example_blocks) \<and> (([] :: grpc_mdelem list) = [] \<longrightarrow> md_elems dst'' = [])"
  by (rule header_blocks_published)
     (auto simp: incoming_rep_def example_blocks_def example_buffer_def no_empty_block_def
       grpc_chttp2_incoming_metadata_buffer_init_def grpc_chttp2_incoming_metadata_buffer_add_def)

text \<open>
  C40. The elements of an incomplete header block are lost when operations are handed over:
  after a complete block is published, the memory that should hold them was never written.
\<close>

theorem partial_block_lost:
  assumes "incoming_rep b sopb xs part" "no_empty_block xs" "list_ex is_metadata xs" "part \<noteq> []"
  shows "\<exists>b' ops live. grpc_chttp2_incoming_metadata_buffer_postprocess_sopb_and_begin_live_op b sopb = Some (b', ops, live) \<and>
     published live ops xs \<and> md_elems b' = replicate (length part) unwritten_elem"
  using postprocess_publishes[OF assms(1,2)] assms(3) by auto

theorem partial_block_lost_witness:
  "\<exists>b' ops live. grpc_chttp2_incoming_metadata_buffer_postprocess_sopb_and_begin_live_op
      (example_buffer [example_md ''a'' ''b'', example_md ''c'' ''d'', example_md ''grpc-status'' ''0''])
      (received_sopb 0 example_blocks) = Some (b', ops, live) \<and>
    published live ops example_blocks \<and> md_elems b' = replicate (length [example_md ''grpc-status'' ''0'']) unwritten_elem"
  by (rule partial_block_lost)
     (auto simp: incoming_rep_def example_blocks_def example_buffer_def no_empty_block_def
       grpc_chttp2_incoming_metadata_buffer_init_def grpc_chttp2_incoming_metadata_buffer_add_def)

text \<open>
  A header block without elements ends where it begins, which fails an assertion; and a
  deadline read from an incomplete block is on the monotonic clock, where the deadlines it is
  compared with are on the real-time clock, which fails another.
\<close>

lemma empty_block_aborts:
  assumes "incoming_rep b sopb xs []" "no_empty_block xs"
    "grpc_chttp2_incoming_metadata_buffer_place_metadata_batch_into b sopb = (b', sopb')"
  shows "grpc_chttp2_incoming_metadata_buffer_postprocess_sopb_and_begin_live_op b' (sopb' @ sopb'') = None"
proof -
  have run: "postprocess_ops elems n (received_sopb n xs @ Received_metadata (n + length (received_elems xs)) d # ops) = None"
    if "no_empty_block xs" "n + length (received_elems xs) \<le> length elems" for elems n xs d ops
    using that
  proof (induction xs arbitrary: n elems)
    case (Cons x xs)
    show ?case
    proof (cases x)
      case (Received_metadata mds d)
      have b: "n < n + length mds" "n + length mds \<le> length elems" using Cons.prems Received_metadata by auto
      from link_block_ok[OF b] obtain e1 where e1: "link_block elems n (n + length mds) = Some e1" "map lm_md e1 = map lm_md elems"
        by blast
      have "length e1 = length elems" using e1(2) by (metis length_map)
      with Cons.IH[of "n + length mds" e1] Cons.prems e1(1) Received_metadata show ?thesis by (auto simp: add.assoc)
    qed (use Cons.IH[of n elems] Cons.prems in auto)
  qed simp
  have "b' = b\<lparr>md_deadline := gpr_inf_future GPR_CLOCK_REALTIME\<rparr>"
      "sopb' = received_sopb 0 xs @ [Received_metadata (length (received_elems xs)) (md_deadline b)]"
    using assms(1,3) incoming_rep_length[OF assms(1)]
    by (auto simp: incoming_rep_def grpc_chttp2_incoming_metadata_buffer_place_metadata_batch_into_def)
  with run[OF assms(2), of 0 "md_elems b" "md_deadline b" sopb''] incoming_rep_length[OF assms(1)] show ?thesis
    by (simp add: grpc_chttp2_incoming_metadata_buffer_postprocess_sopb_and_begin_live_op_def)
qed

lemma deadline_clock_mismatch_aborts:
  assumes "clock_type (md_deadline src) \<noteq> clock_type (md_deadline dst)"
  shows "grpc_incoming_metadata_buffer_move_to_referencing_sopb src dst sopb = None"
  using assms by (simp add: grpc_incoming_metadata_buffer_move_to_referencing_sopb_def gpr_time_min_def gpr_time_cmp_def Let_def)

end
