(* ===== verification/Stream_Lists.thy ===== *)
theory Stream_Lists
  imports Prelude
begin

text \<open>
  The lists of streams of \<^verbatim>\<open>src/core/transport/chttp2/stream_lists.c\<close>: a transport has a head
  and a tail for each kind of list, and a stream has, for each kind, the links to its
  neighbours and a flag that says whether it is in the list. Streams are addresses; the
  casts between a stream and its global, writing and parsing parts are the identity.
\<close>

section \<open>Data and operations\<close>

type_synonym stream_ref = nat

datatype grpc_chttp2_stream_list_id =
    GRPC_CHTTP2_LIST_ALL_STREAMS
  | GRPC_CHTTP2_LIST_READ_WRITE_STATE_CHANGED
  | GRPC_CHTTP2_LIST_WRITABLE
  | GRPC_CHTTP2_LIST_WRITING
  | GRPC_CHTTP2_LIST_WRITTEN
  | GRPC_CHTTP2_LIST_PARSING_SEEN
  | GRPC_CHTTP2_LIST_CLOSED_WAITING_FOR_PARSING
  | GRPC_CHTTP2_LIST_CANCELLED_WAITING_FOR_WRITING
  | GRPC_CHTTP2_LIST_INCOMING_WINDOW_UPDATED
  | GRPC_CHTTP2_LIST_WAITING_FOR_CONCURRENCY

text \<open>The fields \<open>lists\<close> of the transport and \<open>links\<close> and \<open>included\<close> of every stream.\<close>

record stream_lists =
  list_head :: "grpc_chttp2_stream_list_id \<Rightarrow> stream_ref option"
  list_tail :: "grpc_chttp2_stream_list_id \<Rightarrow> stream_ref option"
  link_next :: "grpc_chttp2_stream_list_id \<Rightarrow> stream_ref \<Rightarrow> stream_ref option"
  link_prev :: "grpc_chttp2_stream_list_id \<Rightarrow> stream_ref \<Rightarrow> stream_ref option"
  included :: "grpc_chttp2_stream_list_id \<Rightarrow> stream_ref \<Rightarrow> bool"

definition upd2 :: "('a \<Rightarrow> 'b \<Rightarrow> 'c) \<Rightarrow> 'a \<Rightarrow> 'b \<Rightarrow> 'c \<Rightarrow> 'a \<Rightarrow> 'b \<Rightarrow> 'c" where
  "upd2 f i x v = f(i := (f i)(x := v))"

lemma upd2_apply: "upd2 f i x v j = (if j = i then (f i)(x := v) else f j)"
  by (simp add: upd2_def)

text \<open>A transport after \<^verbatim>\<open>memset\<close>, and streams likewise.\<close>

definition stream_lists_init :: stream_lists where
  "stream_lists_init =
     \<lparr> list_head = (\<lambda>_. None), list_tail = (\<lambda>_. None), link_next = (\<lambda>_ _. None),
       link_prev = (\<lambda>_ _. None), included = (\<lambda>_ _. False) \<rparr>"

definition stream_list_empty :: "stream_lists \<Rightarrow> grpc_chttp2_stream_list_id \<Rightarrow> bool" where
  "stream_list_empty t i \<longleftrightarrow> list_head t i = None"

definition stream_list_pop ::
    "stream_lists \<Rightarrow> grpc_chttp2_stream_list_id \<Rightarrow> (stream_lists \<times> stream_ref option) option" where
  "stream_list_pop t i =
     (case list_head t i of
        None \<Rightarrow> Some (t, None)
      | Some s \<Rightarrow>
          do {
            gpr_assert (included t i s);
            let t = (case link_next t i s of
                Some new_head \<Rightarrow>
                  t\<lparr>list_head := (list_head t)(i := Some new_head),
                    link_prev := upd2 (link_prev t) i new_head None\<rparr>
              | None \<Rightarrow> t\<lparr>list_head := (list_head t)(i := None), list_tail := (list_tail t)(i := None)\<rparr>);
            Some (t\<lparr>included := upd2 (included t) i s False\<rparr>, Some s)
          })"

definition stream_list_remove ::
    "stream_lists \<Rightarrow> stream_ref \<Rightarrow> grpc_chttp2_stream_list_id \<Rightarrow> stream_lists option" where
  "stream_list_remove t s i =
     do {
       gpr_assert (included t i s);
       let t = t\<lparr>included := upd2 (included t) i s False\<rparr>;
       t \<leftarrow> (case link_prev t i s of
               Some p \<Rightarrow> Some (t\<lparr>link_next := upd2 (link_next t) i p (link_next t i s)\<rparr>)
             | None \<Rightarrow> do {
                 gpr_assert (list_head t i = Some s);
                 Some (t\<lparr>list_head := (list_head t)(i := link_next t i s)\<rparr>)
               });
       Some (case link_next t i s of
               Some n \<Rightarrow> t\<lparr>link_prev := upd2 (link_prev t) i n (link_prev t i s)\<rparr>
             | None \<Rightarrow> t\<lparr>list_tail := (list_tail t)(i := link_prev t i s)\<rparr>)
     }"

definition stream_list_maybe_remove ::
    "stream_lists \<Rightarrow> stream_ref \<Rightarrow> grpc_chttp2_stream_list_id \<Rightarrow> stream_lists option" where
  "stream_list_maybe_remove t s i = (if included t i s then stream_list_remove t s i else Some t)"

definition stream_list_add_head ::
    "stream_lists \<Rightarrow> stream_ref \<Rightarrow> grpc_chttp2_stream_list_id \<Rightarrow> stream_lists option" where
  "stream_list_add_head t s i =
     do {
       gpr_assert (\<not> included t i s);
       let old_head = list_head t i;
       let t = t\<lparr>link_next := upd2 (link_next t) i s old_head, link_prev := upd2 (link_prev t) i s None\<rparr>;
       let t = (case old_head of
           Some h \<Rightarrow> t\<lparr>link_prev := upd2 (link_prev t) i h (Some s)\<rparr>
         | None \<Rightarrow> t\<lparr>list_tail := (list_tail t)(i := Some s)\<rparr>);
       Some (t\<lparr>list_head := (list_head t)(i := Some s), included := upd2 (included t) i s True\<rparr>)
     }"

definition stream_list_add_tail ::
    "stream_lists \<Rightarrow> stream_ref \<Rightarrow> grpc_chttp2_stream_list_id \<Rightarrow> stream_lists option" where
  "stream_list_add_tail t s i =
     do {
       gpr_assert (\<not> included t i s);
       let old_tail = list_tail t i;
       let t = t\<lparr>link_next := upd2 (link_next t) i s None, link_prev := upd2 (link_prev t) i s old_tail\<rparr>;
       let t = (case old_tail of
           Some l \<Rightarrow> t\<lparr>link_next := upd2 (link_next t) i l (Some s)\<rparr>
         | None \<Rightarrow> t\<lparr>list_head := (list_head t)(i := Some s)\<rparr>);
       Some (t\<lparr>list_tail := (list_tail t)(i := Some s), included := upd2 (included t) i s True\<rparr>)
     }"

definition stream_list_add ::
    "stream_lists \<Rightarrow> stream_ref \<Rightarrow> grpc_chttp2_stream_list_id \<Rightarrow> stream_lists option" where
  "stream_list_add t s i = (if included t i s then Some t else stream_list_add_tail t s i)"

section \<open>The lists by their uses\<close>

text \<open>A stream is put on the list of writable streams with its identifier, which is not zero.\<close>

definition grpc_chttp2_list_add_writable_stream :: "stream_lists \<Rightarrow> stream_ref \<Rightarrow> u32 \<Rightarrow> stream_lists option" where
  "grpc_chttp2_list_add_writable_stream t s sid =
     do { gpr_assert (sid \<noteq> 0); stream_list_add t s GRPC_CHTTP2_LIST_WRITABLE }"

definition grpc_chttp2_list_add_first_writable_stream :: "stream_lists \<Rightarrow> stream_ref \<Rightarrow> u32 \<Rightarrow> stream_lists option" where
  "grpc_chttp2_list_add_first_writable_stream t s sid =
     do { gpr_assert (sid \<noteq> 0); stream_list_add_head t s GRPC_CHTTP2_LIST_WRITABLE }"

definition grpc_chttp2_list_pop_writable_stream :: "stream_lists \<Rightarrow> (stream_lists \<times> stream_ref option) option" where
  "grpc_chttp2_list_pop_writable_stream t = stream_list_pop t GRPC_CHTTP2_LIST_WRITABLE"

definition grpc_chttp2_list_remove_writable_stream :: "stream_lists \<Rightarrow> stream_ref \<Rightarrow> stream_lists option" where
  "grpc_chttp2_list_remove_writable_stream t s = stream_list_maybe_remove t s GRPC_CHTTP2_LIST_WRITABLE"

definition grpc_chttp2_list_add_writing_stream :: "stream_lists \<Rightarrow> stream_ref \<Rightarrow> stream_lists option" where
  "grpc_chttp2_list_add_writing_stream t s = stream_list_add t s GRPC_CHTTP2_LIST_WRITING"

definition grpc_chttp2_list_have_writing_streams :: "stream_lists \<Rightarrow> bool" where
  "grpc_chttp2_list_have_writing_streams t \<longleftrightarrow> \<not> stream_list_empty t GRPC_CHTTP2_LIST_WRITING"

definition grpc_chttp2_list_pop_writing_stream :: "stream_lists \<Rightarrow> (stream_lists \<times> stream_ref option) option" where
  "grpc_chttp2_list_pop_writing_stream t = stream_list_pop t GRPC_CHTTP2_LIST_WRITING"

definition grpc_chttp2_list_add_written_stream :: "stream_lists \<Rightarrow> stream_ref \<Rightarrow> stream_lists option" where
  "grpc_chttp2_list_add_written_stream t s = stream_list_add t s GRPC_CHTTP2_LIST_WRITTEN"

definition grpc_chttp2_list_pop_written_stream :: "stream_lists \<Rightarrow> (stream_lists \<times> stream_ref option) option" where
  "grpc_chttp2_list_pop_written_stream t = stream_list_pop t GRPC_CHTTP2_LIST_WRITTEN"

definition grpc_chttp2_list_add_parsing_seen_stream :: "stream_lists \<Rightarrow> stream_ref \<Rightarrow> stream_lists option" where
  "grpc_chttp2_list_add_parsing_seen_stream t s = stream_list_add t s GRPC_CHTTP2_LIST_PARSING_SEEN"

definition grpc_chttp2_list_pop_parsing_seen_stream :: "stream_lists \<Rightarrow> (stream_lists \<times> stream_ref option) option" where
  "grpc_chttp2_list_pop_parsing_seen_stream t = stream_list_pop t GRPC_CHTTP2_LIST_PARSING_SEEN"

definition grpc_chttp2_list_add_waiting_for_concurrency :: "stream_lists \<Rightarrow> stream_ref \<Rightarrow> stream_lists option" where
  "grpc_chttp2_list_add_waiting_for_concurrency t s = stream_list_add t s GRPC_CHTTP2_LIST_WAITING_FOR_CONCURRENCY"

definition grpc_chttp2_list_pop_waiting_for_concurrency ::
    "stream_lists \<Rightarrow> (stream_lists \<times> stream_ref option) option" where
  "grpc_chttp2_list_pop_waiting_for_concurrency t = stream_list_pop t GRPC_CHTTP2_LIST_WAITING_FOR_CONCURRENCY"

definition grpc_chttp2_list_add_closed_waiting_for_parsing :: "stream_lists \<Rightarrow> stream_ref \<Rightarrow> stream_lists option" where
  "grpc_chttp2_list_add_closed_waiting_for_parsing t s = stream_list_add t s GRPC_CHTTP2_LIST_CLOSED_WAITING_FOR_PARSING"

definition grpc_chttp2_list_pop_closed_waiting_for_parsing ::
    "stream_lists \<Rightarrow> (stream_lists \<times> stream_ref option) option" where
  "grpc_chttp2_list_pop_closed_waiting_for_parsing t = stream_list_pop t GRPC_CHTTP2_LIST_CLOSED_WAITING_FOR_PARSING"

definition grpc_chttp2_list_add_cancelled_waiting_for_writing :: "stream_lists \<Rightarrow> stream_ref \<Rightarrow> stream_lists option" where
  "grpc_chttp2_list_add_cancelled_waiting_for_writing t s = stream_list_add t s GRPC_CHTTP2_LIST_CANCELLED_WAITING_FOR_WRITING"

definition grpc_chttp2_list_pop_cancelled_waiting_for_writing ::
    "stream_lists \<Rightarrow> (stream_lists \<times> stream_ref option) option" where
  "grpc_chttp2_list_pop_cancelled_waiting_for_writing t = stream_list_pop t GRPC_CHTTP2_LIST_CANCELLED_WAITING_FOR_WRITING"

definition grpc_chttp2_list_add_incoming_window_updated :: "stream_lists \<Rightarrow> stream_ref \<Rightarrow> stream_lists option" where
  "grpc_chttp2_list_add_incoming_window_updated t s = stream_list_add t s GRPC_CHTTP2_LIST_INCOMING_WINDOW_UPDATED"

definition grpc_chttp2_list_pop_incoming_window_updated ::
    "stream_lists \<Rightarrow> (stream_lists \<times> stream_ref option) option" where
  "grpc_chttp2_list_pop_incoming_window_updated t = stream_list_pop t GRPC_CHTTP2_LIST_INCOMING_WINDOW_UPDATED"

definition grpc_chttp2_list_remove_incoming_window_updated :: "stream_lists \<Rightarrow> stream_ref \<Rightarrow> stream_lists option" where
  "grpc_chttp2_list_remove_incoming_window_updated t s =
     stream_list_maybe_remove t s GRPC_CHTTP2_LIST_INCOMING_WINDOW_UPDATED"

definition grpc_chttp2_list_add_read_write_state_changed :: "stream_lists \<Rightarrow> stream_ref \<Rightarrow> stream_lists option" where
  "grpc_chttp2_list_add_read_write_state_changed t s = stream_list_add t s GRPC_CHTTP2_LIST_READ_WRITE_STATE_CHANGED"

definition grpc_chttp2_list_pop_read_write_state_changed ::
    "stream_lists \<Rightarrow> (stream_lists \<times> stream_ref option) option" where
  "grpc_chttp2_list_pop_read_write_state_changed t = stream_list_pop t GRPC_CHTTP2_LIST_READ_WRITE_STATE_CHANGED"

definition grpc_chttp2_register_stream :: "stream_lists \<Rightarrow> stream_ref \<Rightarrow> stream_lists option" where
  "grpc_chttp2_register_stream t s = stream_list_add_tail t s GRPC_CHTTP2_LIST_ALL_STREAMS"

definition grpc_chttp2_unregister_stream :: "stream_lists \<Rightarrow> stream_ref \<Rightarrow> (stream_lists \<times> bool) option" where
  "grpc_chttp2_unregister_stream t s =
     do {
       t \<leftarrow> stream_list_maybe_remove t s GRPC_CHTTP2_LIST_ALL_STREAMS;
       Some (t, stream_list_empty t GRPC_CHTTP2_LIST_ALL_STREAMS)
     }"

definition grpc_chttp2_has_streams :: "stream_lists \<Rightarrow> bool" where
  "grpc_chttp2_has_streams t \<longleftrightarrow> \<not> stream_list_empty t GRPC_CHTTP2_LIST_ALL_STREAMS"

text \<open>
  The callback works on the whole transport, of which \<open>lists_of\<close> gives the lists; the link
  to the next stream is read after the callback.
\<close>

partial_function (option) for_all_streams_loop ::
    "('g \<Rightarrow> stream_lists) \<Rightarrow> ('g \<Rightarrow> stream_ref \<Rightarrow> 'g option) \<Rightarrow> 'g \<Rightarrow> stream_ref option \<Rightarrow> 'g option" where
  "for_all_streams_loop lists_of cb g p =
     (case p of
        None \<Rightarrow> Some g
      | Some s \<Rightarrow> do {
          g \<leftarrow> cb g s;
          for_all_streams_loop lists_of cb g (link_next (lists_of g) GRPC_CHTTP2_LIST_ALL_STREAMS s)
        })"

definition grpc_chttp2_for_all_streams ::
    "('g \<Rightarrow> stream_lists) \<Rightarrow> ('g \<Rightarrow> stream_ref \<Rightarrow> 'g option) \<Rightarrow> 'g \<Rightarrow> 'g option" where
  "grpc_chttp2_for_all_streams lists_of cb g =
     for_all_streams_loop lists_of cb g (list_head (lists_of g) GRPC_CHTTP2_LIST_ALL_STREAMS)"

section \<open>The lists that the links stand for\<close>

fun first_of :: "'a list \<Rightarrow> 'a option \<Rightarrow> 'a option" where
  "first_of [] z = z"
| "first_of (x # xs) z = Some x"

text \<open>The nodes \<open>xs\<close> are linked in both directions between the ends \<open>b\<close> and \<open>a\<close>.\<close>

fun linked :: "('a \<Rightarrow> 'a option) \<Rightarrow> ('a \<Rightarrow> 'a option) \<Rightarrow> 'a option \<Rightarrow> 'a list \<Rightarrow> 'a option \<Rightarrow> bool" where
  "linked nxt prv b [] a \<longleftrightarrow> True"
| "linked nxt prv b (x # xs) a \<longleftrightarrow> prv x = b \<and> nxt x = first_of xs a \<and> linked nxt prv (Some x) xs a"

definition list_rep :: "stream_lists \<Rightarrow> grpc_chttp2_stream_list_id \<Rightarrow> stream_ref list \<Rightarrow> bool" where
  "list_rep t i xs \<longleftrightarrow>
     distinct xs \<and> list_head t i = first_of xs None \<and> list_tail t i = first_of (rev xs) None \<and>
     linked (link_next t i) (link_prev t i) None xs None \<and> (\<forall>s. included t i s \<longleftrightarrow> s \<in> set xs)"

definition lists_rep :: "stream_lists \<Rightarrow> (grpc_chttp2_stream_list_id \<Rightarrow> stream_ref list) \<Rightarrow> bool" where
  "lists_rep t f \<longleftrightarrow> (\<forall>i. list_rep t i (f i))"

lemma first_of_append [simp]: "first_of (xs @ ys) z = first_of xs (first_of ys z)"
  by (cases xs) auto

lemma first_of_rev_append [simp]: "first_of (rev (xs @ ys)) z = first_of (rev ys) (first_of (rev xs) z)"
  by simp

lemma first_of_eq [simp]: "first_of xs None = None \<longleftrightarrow> xs = []" "first_of xs (Some z) \<noteq> None"
  by (cases xs; simp)+

lemma first_of_Some: "first_of xs z = Some y \<longleftrightarrow> (xs = [] \<and> z = Some y) \<or> (\<exists>ys. xs = y # ys)"
  by (cases xs) auto

lemma linked_append [simp]:
  "linked n p b (xs @ ys) a \<longleftrightarrow> linked n p b xs (first_of ys a) \<and> linked n p (first_of (rev xs) b) ys a"
proof (induction xs arbitrary: b)
  case (Cons x xs)
  have "first_of (rev xs) (Some x) = first_of (rev (x # xs)) b" by simp
  with Cons show ?case by simp
qed simp

lemma linked_upd [simp]:
  "x \<notin> set xs \<Longrightarrow> linked (n(x := v)) p b xs a \<longleftrightarrow> linked n p b xs a"
  "x \<notin> set xs \<Longrightarrow> linked n (p(x := v)) b xs a \<longleftrightarrow> linked n p b xs a"
  by (induction xs arbitrary: b) auto

lemma linked_first: "linked n p b (x # xs) a \<Longrightarrow> linked n (p(x := b')) b' (x # xs) a" if "x \<notin> set xs"
  using that by simp

lemma linked_last:
  "linked n p b (xs @ [x]) a \<Longrightarrow> x \<notin> set xs \<Longrightarrow> linked (n(x := a')) p b (xs @ [x]) a'"
  by simp

lemma list_rep_init: "list_rep stream_lists_init i []"
  by (simp add: list_rep_def stream_lists_init_def)

lemma lists_rep_update:
  assumes "lists_rep t f" "list_rep t' i xs" "\<And>j. j \<noteq> i \<Longrightarrow> list_rep t j (f j) \<Longrightarrow> list_rep t' j (f j)"
  shows "lists_rep t' (f(i := xs))"
  using assms by (auto simp: lists_rep_def)

text \<open>What an operation leaves alone in the lists of other kinds.\<close>

definition same_list :: "stream_lists \<Rightarrow> stream_lists \<Rightarrow> grpc_chttp2_stream_list_id \<Rightarrow> bool" where
  "same_list t t' j \<longleftrightarrow>
     list_head t' j = list_head t j \<and> list_tail t' j = list_tail t j \<and> link_next t' j = link_next t j \<and>
     link_prev t' j = link_prev t j \<and> included t' j = included t j"

lemma same_list_rep: "same_list t t' j \<Longrightarrow> list_rep t' j xs \<longleftrightarrow> list_rep t j xs"
  by (simp add: same_list_def list_rep_def)

lemma pop_rep:
  assumes "list_rep t i (s # xs)"
  obtains t' where "stream_list_pop t i = Some (t', Some s)" "list_rep t' i xs" "\<And>j. j \<noteq> i \<Longrightarrow> same_list t t' j"
proof -
  have f: "distinct (s # xs)" "list_head t i = Some s" "list_tail t i = first_of (rev xs) (Some s)"
    "link_next t i s = first_of xs None" "linked (link_next t i) (link_prev t i) (Some s) xs None"
    "\<And>u. included t i u \<longleftrightarrow> u = s \<or> u \<in> set xs"
    using assms by (auto simp: list_rep_def)
  show ?thesis
  proof (cases xs)
    case Nil
    with f show ?thesis
      by (intro that, simp add: stream_list_pop_def) (auto simp: list_rep_def same_list_def upd2_def)
  next
    case (Cons y ys)
    with f show ?thesis
      by (intro that, simp add: stream_list_pop_def) (auto simp: list_rep_def same_list_def upd2_def)
  qed
qed

lemma pop_rep_empty: "list_rep t i [] \<Longrightarrow> stream_list_pop t i = Some (t, None)"
  by (simp add: list_rep_def stream_list_pop_def)

lemma add_head_rep:
  assumes "list_rep t i xs" "s \<notin> set xs"
  obtains t' where "stream_list_add_head t s i = Some t'" "list_rep t' i (s # xs)" "\<And>j. j \<noteq> i \<Longrightarrow> same_list t t' j"
proof (cases xs)
  case Nil
  with assms show ?thesis
    by (intro that, simp add: stream_list_add_head_def list_rep_def) (auto simp: list_rep_def same_list_def upd2_def)
next
  case (Cons y ys)
  with assms show ?thesis
    by (intro that, simp add: stream_list_add_head_def list_rep_def) (auto simp: list_rep_def same_list_def upd2_def)
qed

lemma add_tail_rep:
  assumes "list_rep t i xs" "s \<notin> set xs"
  obtains t' where "stream_list_add_tail t s i = Some t'" "list_rep t' i (xs @ [s])" "\<And>j. j \<noteq> i \<Longrightarrow> same_list t t' j"
proof (cases xs rule: rev_cases)
  case Nil
  with assms show ?thesis
    by (intro that, simp add: stream_list_add_tail_def list_rep_def) (auto simp: list_rep_def same_list_def upd2_def)
next
  case (snoc ys y)
  with assms show ?thesis
    by (intro that, simp add: stream_list_add_tail_def list_rep_def) (auto simp: list_rep_def same_list_def upd2_def)
qed

lemma add_rep:
  assumes "list_rep t i xs"
  obtains t' where "stream_list_add t s i = Some t'" "list_rep t' i (if s \<in> set xs then xs else xs @ [s])"
    "\<And>j. j \<noteq> i \<Longrightarrow> same_list t t' j"
proof (cases "s \<in> set xs")
  case True
  with assms have "included t i s" by (simp add: list_rep_def)
  with True assms that show ?thesis by (simp add: stream_list_add_def same_list_def)
next
  case False
  with assms have "\<not> included t i s" by (simp add: list_rep_def)
  with False assms that show ?thesis by (simp add: stream_list_add_def) (metis add_tail_rep)
qed

lemma remove_rep:
  assumes "list_rep t i xs" "s \<in> set xs"
  obtains t' where "stream_list_remove t s i = Some t'" "list_rep t' i (remove1 s xs)" "\<And>j. j \<noteq> i \<Longrightarrow> same_list t t' j"
proof -
  obtain as bs where xs: "xs = as @ s # bs" "s \<notin> set as" using assms(2) split_list_first by metis
  have d: "distinct (as @ s # bs)" and inc: "\<And>u. included t i u \<longleftrightarrow> u \<in> set (as @ s # bs)"
    and l: "linked (link_next t i) (link_prev t i) None as (Some s)"
      "linked (link_next t i) (link_prev t i) (Some s) bs None"
      "link_prev t i s = first_of (rev as) None" "link_next t i s = first_of bs None"
    and h: "list_head t i = first_of as (Some s)" "list_tail t i = first_of (rev bs) (first_of (s # rev as) None)"
    using assms(1) xs by (auto simp: list_rep_def)
  have r: "remove1 s xs = as @ bs" using xs by (simp add: remove1_append)
  show ?thesis
  proof (cases as rule: rev_cases; cases bs)
    assume "as = []" "bs = []"
    with r d inc l h show ?thesis
      by (intro that, simp add: stream_list_remove_def upd2_def) (auto simp: list_rep_def same_list_def upd2_def)
  next
    fix b bs' assume "as = []" "bs = b # bs'"
    with r d inc l h show ?thesis
      by (intro that, simp add: stream_list_remove_def upd2_def) (auto simp: list_rep_def same_list_def upd2_def)
  next
    fix a as' assume "as = as' @ [a]" "bs = []"
    with r d inc l h show ?thesis
      by (intro that, simp add: stream_list_remove_def upd2_def) (auto simp: list_rep_def same_list_def upd2_def)
  next
    fix a as' b bs' assume "as = as' @ [a]" "bs = b # bs'"
    with r d inc l h show ?thesis
      by (intro that, simp add: stream_list_remove_def upd2_def) (auto simp: list_rep_def same_list_def upd2_def)
  qed
qed

section \<open>A list as a queue without repetition\<close>

text \<open>
  What the transport relies on: streams wait in the order in which they were first added,
  each at most once.
\<close>

fun enlist :: "'s list \<Rightarrow> 's list \<Rightarrow> 's list" where
  "enlist xs [] = xs"
| "enlist xs (s # ss) = enlist (if s \<in> set xs then xs else xs @ [s]) ss"

locale worklist =
  fixes rep :: "'t \<Rightarrow> 's list \<Rightarrow> bool"
    and add :: "'t \<Rightarrow> 's \<Rightarrow> 't option"
    and pop :: "'t \<Rightarrow> ('t \<times> 's option) option"
  assumes rep_distinct: "rep t xs \<Longrightarrow> distinct xs"
    and add_new: "rep t xs \<Longrightarrow> s \<notin> set xs \<Longrightarrow> \<exists>t'. add t s = Some t' \<and> rep t' (xs @ [s])"
    and add_old: "rep t xs \<Longrightarrow> s \<in> set xs \<Longrightarrow> add t s = Some t"
    and pop_first: "rep t (s # xs) \<Longrightarrow> \<exists>t'. pop t = Some (t', Some s) \<and> rep t' xs"
    and pop_none: "rep t [] \<Longrightarrow> pop t = Some (t, None)"
begin

fun add_all :: "'t \<Rightarrow> 's list \<Rightarrow> 't option" where
  "add_all t [] = Some t"
| "add_all t (s # ss) = do { t \<leftarrow> add t s; add_all t ss }"

fun pop_all :: "nat \<Rightarrow> 't \<Rightarrow> ('t \<times> 's list) option" where
  "pop_all 0 t = Some (t, [])"
| "pop_all (Suc n) t =
     do {
       (t, s) \<leftarrow> pop t;
       (case s of
          None \<Rightarrow> Some (t, [])
        | Some s \<Rightarrow> do { (t, ss) \<leftarrow> pop_all n t; Some (t, s # ss) })
     }"

lemma add_all_rep: "rep t xs \<Longrightarrow> \<exists>t'. add_all t ss = Some t' \<and> rep t' (enlist xs ss)"
proof (induction ss arbitrary: t xs)
  case (Cons s ss)
  show ?case
  proof (cases "s \<in> set xs")
    case True
    with Cons.IH[OF Cons.prems] add_old[OF Cons.prems] show ?thesis by simp
  next
    case False
    with add_new[OF Cons.prems] obtain t' where "add t s = Some t'" "rep t' (xs @ [s])" by blast
    with Cons.IH[of t' "xs @ [s]"] False show ?thesis by simp
  qed
qed simp

lemma pop_all_rep: "rep t xs \<Longrightarrow> length xs < n \<Longrightarrow> \<exists>t'. pop_all n t = Some (t', xs) \<and> rep t' []"
proof (induction xs arbitrary: t n)
  case Nil
  then show ?case by (cases n) (auto simp: pop_none)
next
  case (Cons s xs)
  from pop_first[OF Cons.prems(1)] obtain t' where t': "pop t = Some (t', Some s)" "rep t' xs" by blast
  obtain m where m: "n = Suc m" "length xs < m" using Cons.prems(2) by (cases n) auto
  from Cons.IH[OF t'(2) m(2)] t'(1) m(1) show ?case by auto
qed

lemma add_pop_all:
  assumes "rep t xs" "length (enlist xs ss) < n"
  shows "\<exists>t1 t2. add_all t ss = Some t1 \<and> pop_all n t1 = Some (t2, enlist xs ss) \<and> rep t2 []"
  using add_all_rep[OF assms(1), of ss] pop_all_rep[OF _ assms(2)] by blast

end

interpretation stream_list: worklist "\<lambda>t xs. list_rep t i xs" "\<lambda>t s. stream_list_add t s i" "\<lambda>t. stream_list_pop t i" for i
proof
  fix t :: stream_lists and s :: stream_ref and xs :: "stream_ref list"
  show "distinct xs" if "list_rep t i xs" using that by (simp add: list_rep_def)
  show "\<exists>t'. stream_list_add t s i = Some t' \<and> list_rep t' i (xs @ [s])" if "list_rep t i xs" "s \<notin> set xs"
    using that(2) by (cases rule: add_rep[OF that(1), of s]) auto
  show "stream_list_add t s i = Some t" if "list_rep t i xs" "s \<in> set xs"
    using that by (simp add: stream_list_add_def list_rep_def)
  show "\<exists>t'. stream_list_pop t i = Some (t', Some s) \<and> list_rep t' i xs" if "list_rep t i (s # xs)"
    by (cases rule: pop_rep[OF that]) auto
  show "stream_list_pop t i = Some (t, None)" if "list_rep t i []"
    using that by (rule pop_rep_empty)
qed

section \<open>Iteration\<close>

lemma for_all_loop_runs:
  assumes keep: "\<And>g s g'. keep_inv g \<Longrightarrow> s \<in> set (as @ xs) \<Longrightarrow> cb g s = Some g' \<Longrightarrow>
      keep_inv g' \<and> list_rep (lists_of g') GRPC_CHTTP2_LIST_ALL_STREAMS (as @ xs)"
    and some: "\<And>g s. keep_inv g \<Longrightarrow> s \<in> set (as @ xs) \<Longrightarrow> \<exists>g'. cb g s = Some g'"
  shows "keep_inv g \<Longrightarrow> \<exists>g'. for_all_streams_loop lists_of cb g (first_of xs None) = Some g' \<and>
    keep_inv g' \<and> foldl (\<lambda>g s. Option.bind g (\<lambda>g. cb g s)) (Some g) xs = Some g'"
  using assms
proof (induction xs arbitrary: as g)
  case Nil
  then show ?case by (subst for_all_streams_loop.simps) simp
next
  case (Cons x xs)
  obtain g1 where g1: "cb g x = Some g1" using Cons.prems(3)[OF Cons.prems(1)] by auto
  with Cons.prems(2)[OF Cons.prems(1) _ g1] have i: "keep_inv g1" "list_rep (lists_of g1) GRPC_CHTTP2_LIST_ALL_STREAMS (as @ x # xs)"
    by auto
  then have "link_next (lists_of g1) GRPC_CHTTP2_LIST_ALL_STREAMS x = first_of xs None" by (auto simp: list_rep_def)
  with Cons.IH[of g1 "as @ [x]"] i(1) Cons.prems(2,3) g1 show ?case
    by (subst for_all_streams_loop.simps) simp
qed

section \<open>The operations on the lists\<close>

text \<open>
  C22. The linked lists of a transport are lists: with every kind of list linked in both
  directions, free of repetitions and flagged in the streams, each operation is the
  operation on lists, aborts nowhere, and leaves the lists of other kinds as they are.
\<close>

theorem stream_lists_refine:
  assumes "lists_rep t f"
  shows "(stream_list_empty t i \<longleftrightarrow> f i = []) \<and>
    (\<exists>t'. stream_list_pop t i = Some (t', first_of (f i) None) \<and> lists_rep t' (f(i := tl (f i)))) \<and>
    (\<exists>t'. stream_list_add t s i = Some t' \<and> lists_rep t' (f(i := if s \<in> set (f i) then f i else f i @ [s]))) \<and>
    (s \<notin> set (f i) \<longrightarrow> (\<exists>t'. stream_list_add_head t s i = Some t' \<and> lists_rep t' (f(i := s # f i)))) \<and>
    (\<exists>t'. stream_list_maybe_remove t s i = Some t' \<and> lists_rep t' (f(i := remove1 s (f i))))"
proof (intro conjI impI)
  have r: "list_rep t j (f j)" for j using assms by (simp add: lists_rep_def)
  have u: "lists_rep t' (f(i := xs))" if "list_rep t' i xs" "\<And>j. j \<noteq> i \<Longrightarrow> same_list t t' j" for t' xs
    by (rule lists_rep_update[OF assms that(1)]) (simp add: same_list_rep[OF that(2)])
  show "stream_list_empty t i \<longleftrightarrow> f i = []" using r[of i] by (simp add: stream_list_empty_def list_rep_def)
  show "\<exists>t'. stream_list_pop t i = Some (t', first_of (f i) None) \<and> lists_rep t' (f(i := tl (f i)))"
  proof (cases "f i")
    case Nil
    with pop_rep_empty r[of i] have "stream_list_pop t i = Some (t, None)" by simp
    with Nil assms show ?thesis by (simp add: fun_upd_idem)
  next
    case (Cons x xs)
    show ?thesis by (rule pop_rep[OF r[of i, unfolded Cons]]) (use u Cons in auto)
  qed
  show "\<exists>t'. stream_list_add t s i = Some t' \<and> lists_rep t' (f(i := if s \<in> set (f i) then f i else f i @ [s]))"
    by (rule add_rep[OF r[of i], of s]) (use u in blast)
  show "\<exists>t'. stream_list_add_head t s i = Some t' \<and> lists_rep t' (f(i := s # f i))" if "s \<notin> set (f i)"
    by (rule add_head_rep[OF r[of i] that]) (use u in blast)
  show "\<exists>t'. stream_list_maybe_remove t s i = Some t' \<and> lists_rep t' (f(i := remove1 s (f i)))"
  proof (cases "s \<in> set (f i)")
    case True
    then have "included t i s" using r[of i] by (simp add: list_rep_def)
    then show ?thesis unfolding stream_list_maybe_remove_def
      by (rule_tac remove_rep[OF r[of i] True]) (use u in auto)
  next
    case False
    then have "\<not> included t i s" using r[of i] by (simp add: list_rep_def)
    with False assms show ?thesis by (simp add: stream_list_maybe_remove_def remove1_idem)
  qed
qed

lemma lists_rep_init: "lists_rep stream_lists_init (\<lambda>_. [])"
  by (simp add: lists_rep_def list_rep_init)

theorem stream_lists_refine_witness:
  "(\<exists>t'. stream_list_add stream_lists_init 7 GRPC_CHTTP2_LIST_WRITABLE = Some t' \<and>
      lists_rep t' ((\<lambda>_. [])(GRPC_CHTTP2_LIST_WRITABLE := [7]))) \<and>
   stream_list_pop stream_lists_init GRPC_CHTTP2_LIST_WRITABLE = Some (stream_lists_init, None)"
  using stream_lists_refine[OF lists_rep_init, of GRPC_CHTTP2_LIST_WRITABLE 7]
  by (auto simp: stream_list_pop_def stream_lists_init_def)

end
