(* ===== verification/Frame_Data.thy ===== *)
theory Frame_Data
  imports Incoming_Metadata Stream_Lists Stream_Encoder
begin

text \<open>
  The messages inside DATA frames, \<^verbatim>\<open>src/core/transport/chttp2/frame_data.c\<close>, and the part
  of a stream that reading works on. The parser cuts the payload into messages, each a byte
  that says whether it is compressed, a length of four bytes and the bytes of the message,
  wherever the payload is cut into frames and slices.
\<close>

section \<open>The reading side of a stream\<close>

datatype grpc_chttp2_parse_error =
    GRPC_CHTTP2_PARSE_OK
  | GRPC_CHTTP2_STREAM_ERROR
  | GRPC_CHTTP2_CONNECTION_ERROR

datatype grpc_chttp2_stream_state =
    GRPC_CHTTP2_DATA_FH_0
  | GRPC_CHTTP2_DATA_FH_1
  | GRPC_CHTTP2_DATA_FH_2
  | GRPC_CHTTP2_DATA_FH_3
  | GRPC_CHTTP2_DATA_FH_4
  | GRPC_CHTTP2_DATA_FRAME

record grpc_chttp2_data_parser =
  data_state :: grpc_chttp2_stream_state
  is_last_frame :: bool
  data_frame_type :: u8
  data_frame_size :: u32
  is_frame_compressed :: bool
  incoming_sopb :: incoming_sopb

record grpc_chttp2_stream_parsing =
  parsing_id :: u32
  received_close :: bool
  saw_rst_stream :: bool
  s_incoming_window_delta :: u32
  s_incoming_window :: u32
  data_parser :: grpc_chttp2_data_parser
  rst_stream_reason :: u32
  s_outgoing_window_update :: u64
  parsing_metadata :: grpc_chttp2_incoming_metadata_buffer

section \<open>Operations\<close>

definition grpc_chttp2_data_parser_init :: "grpc_chttp2_data_parser \<Rightarrow> grpc_chttp2_data_parser" where
  "grpc_chttp2_data_parser_init p = p\<lparr>data_state := GRPC_CHTTP2_DATA_FH_0, incoming_sopb := []\<rparr>"

definition grpc_chttp2_data_parser_begin_frame ::
    "grpc_chttp2_data_parser \<Rightarrow> u8 \<Rightarrow> grpc_chttp2_parse_error \<times> grpc_chttp2_data_parser" where
  "grpc_chttp2_data_parser_begin_frame p flags =
     (if flags AND NOT GRPC_CHTTP2_DATA_FLAG_END_STREAM \<noteq> 0 then (GRPC_CHTTP2_STREAM_ERROR, p)
      else (GRPC_CHTTP2_PARSE_OK, p\<lparr>is_last_frame := (flags AND GRPC_CHTTP2_DATA_FLAG_END_STREAM \<noteq> 0)\<rparr>))"

definition grpc_sopb_add_begin_message :: "incoming_sopb \<Rightarrow> u32 \<Rightarrow> u32 \<Rightarrow> incoming_sopb" where
  "grpc_sopb_add_begin_message sopb len flags = sopb @ [Received_begin_message len flags]"

definition grpc_sopb_add_slice :: "incoming_sopb \<Rightarrow> gpr_slice \<Rightarrow> incoming_sopb" where
  "grpc_sopb_add_slice sopb s = sopb @ [Received_slice s]"

text \<open>The rank of the labels: \<open>FRAME\<close> may go to \<open>FH_0\<close> without consuming a byte.\<close>

fun data_rank :: "grpc_chttp2_stream_state \<Rightarrow> nat" where
  "data_rank GRPC_CHTTP2_DATA_FRAME = 1"
| "data_rank _ = 0"

text \<open>
  The statement with label \<open>at\<close>, on the slice \<open>sl\<close> from the byte \<open>cur\<close> on; a fall through or
  a jump is a call. The labels of the header are reached with \<open>cur\<close> before the end.
  \<open>message_flags\<close> is the local variable of that name.
\<close>

function data_parse_at ::
    "gpr_slice \<Rightarrow> stream_ref \<Rightarrow> grpc_chttp2_stream_state \<Rightarrow> stream_lists \<Rightarrow> grpc_chttp2_data_parser \<Rightarrow> u32 \<Rightarrow> nat \<Rightarrow>
      (grpc_chttp2_parse_error \<times> stream_lists \<times> grpc_chttp2_data_parser) option" where
  "data_parse_at sl stream at l p message_flags cur =
     (let end = GPR_SLICE_LENGTH sl;
          byte = slice_bytes sl ! cur in
      if end < cur \<or> (end \<le> cur \<and> at \<noteq> GRPC_CHTTP2_DATA_FRAME) then None
      else (case at of
        GRPC_CHTTP2_DATA_FH_0 \<Rightarrow>
          (let p = p\<lparr>data_frame_type := byte\<rparr> in
           if byte = 0 \<or> byte = 1 then
             (let p = p\<lparr>is_frame_compressed := (byte = 1)\<rparr> in
              if cur + 1 = end then Some (GRPC_CHTTP2_PARSE_OK, l, p\<lparr>data_state := GRPC_CHTTP2_DATA_FH_1\<rparr>)
              else data_parse_at sl stream GRPC_CHTTP2_DATA_FH_1 l p message_flags (cur + 1))
           else Some (GRPC_CHTTP2_STREAM_ERROR, l, p))
      | GRPC_CHTTP2_DATA_FH_1 \<Rightarrow>
          (let p = p\<lparr>data_frame_size := push_bit 24 (ucast byte)\<rparr> in
           if cur + 1 = end then Some (GRPC_CHTTP2_PARSE_OK, l, p\<lparr>data_state := GRPC_CHTTP2_DATA_FH_2\<rparr>)
           else data_parse_at sl stream GRPC_CHTTP2_DATA_FH_2 l p message_flags (cur + 1))
      | GRPC_CHTTP2_DATA_FH_2 \<Rightarrow>
          (let p = p\<lparr>data_frame_size := data_frame_size p OR push_bit 16 (ucast byte)\<rparr> in
           if cur + 1 = end then Some (GRPC_CHTTP2_PARSE_OK, l, p\<lparr>data_state := GRPC_CHTTP2_DATA_FH_3\<rparr>)
           else data_parse_at sl stream GRPC_CHTTP2_DATA_FH_3 l p message_flags (cur + 1))
      | GRPC_CHTTP2_DATA_FH_3 \<Rightarrow>
          (let p = p\<lparr>data_frame_size := data_frame_size p OR push_bit 8 (ucast byte)\<rparr> in
           if cur + 1 = end then Some (GRPC_CHTTP2_PARSE_OK, l, p\<lparr>data_state := GRPC_CHTTP2_DATA_FH_4\<rparr>)
           else data_parse_at sl stream GRPC_CHTTP2_DATA_FH_4 l p message_flags (cur + 1))
      | GRPC_CHTTP2_DATA_FH_4 \<Rightarrow>
          (let p = p\<lparr>data_frame_size := data_frame_size p OR ucast byte, data_state := GRPC_CHTTP2_DATA_FRAME\<rparr>;
               message_flags = (if is_frame_compressed p then message_flags OR GRPC_WRITE_INTERNAL_COMPRESS else message_flags);
               p = p\<lparr>incoming_sopb := grpc_sopb_add_begin_message (incoming_sopb p) (data_frame_size p) message_flags\<rparr> in
           data_parse_at sl stream GRPC_CHTTP2_DATA_FRAME l p message_flags (cur + 1))
      | GRPC_CHTTP2_DATA_FRAME \<Rightarrow>
          do {
            l \<leftarrow> grpc_chttp2_list_add_parsing_seen_stream l stream;
            (if cur = end then Some (GRPC_CHTTP2_PARSE_OK, l, p)
             else if word_of_nat (end - cur) = data_frame_size p then do {
               s \<leftarrow> gpr_slice_sub sl cur end;
               Some (GRPC_CHTTP2_PARSE_OK, l,
                 p\<lparr>incoming_sopb := grpc_sopb_add_slice (incoming_sopb p) s, data_state := GRPC_CHTTP2_DATA_FH_0\<rparr>)
             }
             else if word_of_nat (end - cur) > data_frame_size p then do {
               s \<leftarrow> gpr_slice_sub sl cur (cur + unat (data_frame_size p));
               data_parse_at sl stream GRPC_CHTTP2_DATA_FH_0 l
                 (p\<lparr>incoming_sopb := grpc_sopb_add_slice (incoming_sopb p) s\<rparr>) message_flags (cur + unat (data_frame_size p))
             }
             else do {
               s \<leftarrow> gpr_slice_sub sl cur end;
               Some (GRPC_CHTTP2_PARSE_OK, l,
                 p\<lparr>incoming_sopb := grpc_sopb_add_slice (incoming_sopb p) s,
                   data_frame_size := data_frame_size p - word_of_nat (end - cur)\<rparr>)
             })
          }))"
  by auto
termination
  by (relation "measure (\<lambda>(sl, stream, at, l, p, f, cur). 2 * (GPR_SLICE_LENGTH sl - cur) + data_rank at)") auto

declare data_parse_at.simps [simp del]

definition grpc_chttp2_data_parser_parse ::
    "stream_lists \<Rightarrow> stream_ref \<Rightarrow> grpc_chttp2_stream_parsing \<Rightarrow> gpr_slice \<Rightarrow> bool \<Rightarrow>
      (grpc_chttp2_parse_error \<times> stream_lists \<times> grpc_chttp2_stream_parsing) option" where
  "grpc_chttp2_data_parser_parse l stream s sl is_last =
     (let p = data_parser s;
          s = (if is_last \<and> is_last_frame p then s\<lparr>received_close := True\<rparr> else s) in
      if GPR_SLICE_LENGTH sl = 0 then Some (GRPC_CHTTP2_PARSE_OK, l, s)
      else do {
        (err, l, p) \<leftarrow> data_parse_at sl stream (data_state p) l p 0 0;
        Some (err, l, s\<lparr>data_parser := p\<rparr>)
      })"

section \<open>Messages byte by byte\<close>

text \<open>
  The specification: an automaton that reads one byte at a time and gives the beginnings of
  messages and the bytes in them. \<open>mf\<close> are the flags that a message gets which is not
  compressed: none at the beginning of a slice, and those of a compressed message once one has
  begun in the slice.
\<close>

datatype message_pos = In_header bytes | In_body nat

definition body_pos :: "nat \<Rightarrow> message_pos" where
  "body_pos n = (if n = 0 then In_header [] else In_body n)"

fun word_of_bytes :: "bytes \<Rightarrow> u32" where
  "word_of_bytes [a, b, c, d] =
     push_bit 24 (ucast a) OR push_bit 16 (ucast b) OR push_bit 8 (ucast c) OR ucast d"
| "word_of_bytes [a, b, c] = push_bit 24 (ucast a) OR push_bit 16 (ucast b) OR push_bit 8 (ucast c)"
| "word_of_bytes [a, b] = push_bit 24 (ucast a) OR push_bit 16 (ucast b)"
| "word_of_bytes [a] = push_bit 24 (ucast a)"
| "word_of_bytes _ = 0"

definition message_flags :: "u8 \<Rightarrow> u32" where
  "message_flags c = (if c = 1 then GRPC_WRITE_INTERNAL_COMPRESS else 0)"

type_synonym received_item = "nat received_op + u8"

definition next_flags :: "u8 \<Rightarrow> u32 \<Rightarrow> u32" where
  "next_flags c mf = (if c = 1 then mf OR GRPC_WRITE_INTERNAL_COMPRESS else mf)"

fun message_step :: "u32 \<Rightarrow> message_pos \<Rightarrow> u8 \<Rightarrow> (u32 \<times> message_pos \<times> received_item list) option" where
  "message_step mf (In_header bs) b =
     (if bs = [] \<and> b \<notin> {0, 1} then None
      else if length bs < 4 then Some (mf, In_header (bs @ [b]), [])
      else (let len = word_of_bytes (tl bs @ [b]); mf = next_flags (hd bs) mf in
        Some (mf, body_pos (unat len), [Inl (Received_begin_message len mf)])))"
| "message_step mf (In_body n) b = Some (mf, body_pos (n - 1), [Inr b])"

fun message_run :: "u32 \<Rightarrow> message_pos \<Rightarrow> bytes \<Rightarrow> (u32 \<times> message_pos \<times> received_item list) option" where
  "message_run mf pos [] = Some (mf, pos, [])"
| "message_run mf pos (b # bs) =
     do { (mf, pos, out) \<leftarrow> message_step mf pos b; (mf, pos, out') \<leftarrow> message_run mf pos bs; Some (mf, pos, out @ out') }"

lemma message_run_append:
  "message_run mf pos (xs @ ys) =
     do { (mf, pos, out) \<leftarrow> message_run mf pos xs; (mf, pos, out') \<leftarrow> message_run mf pos ys; Some (mf, pos, out @ out') }"
proof (induction xs arbitrary: mf pos)
  case Nil
  then show ?case by (cases "message_run mf pos ys") auto
next
  case (Cons x xs)
  then show ?case
    by (cases "message_step mf pos x") (auto split: Option.bind_splits)
qed

lemma message_run_body:
  "0 < n \<Longrightarrow> length bs \<le> n \<Longrightarrow>
     message_run mf (In_body n) bs = Some (mf, if bs = [] then In_body n else body_pos (n - length bs), map Inr bs)"
proof (induction bs arbitrary: n)
  case (Cons b bs)
  then show ?case by (cases "bs = []") (auto simp: body_pos_def)
qed simp

fun received_op_items :: "nat received_op \<Rightarrow> received_item list" where
  "received_op_items (Received_slice s) = map Inr (slice_bytes s)"
| "received_op_items op = [Inl op]"

definition received_items :: "incoming_sopb \<Rightarrow> received_item list" where
  "received_items ops = concat (map received_op_items ops)"

lemma received_items_simps [simp]:
  "received_items [] = []"
  "received_items (xs @ ys) = received_items xs @ received_items ys"
  "received_items (grpc_sopb_add_slice xs s) = received_items xs @ map Inr (slice_bytes s)"
  "received_items (grpc_sopb_add_begin_message xs len flags) = received_items xs @ [Inl (Received_begin_message len flags)]"
  by (simp_all add: received_items_def grpc_sopb_add_slice_def grpc_sopb_add_begin_message_def)

section \<open>The parser and the automaton\<close>

text \<open>The label and the fields of the parser that a position stands for.\<close>

fun header_label :: "nat \<Rightarrow> grpc_chttp2_stream_state" where
  "header_label n =
     (if n = 1 then GRPC_CHTTP2_DATA_FH_1 else if n = 2 then GRPC_CHTTP2_DATA_FH_2
      else if n = 3 then GRPC_CHTTP2_DATA_FH_3 else GRPC_CHTTP2_DATA_FH_4)"

fun pos_rel :: "grpc_chttp2_stream_state \<Rightarrow> grpc_chttp2_data_parser \<Rightarrow> message_pos \<Rightarrow> bool" where
  "pos_rel at p (In_body n) \<longleftrightarrow>
     at = GRPC_CHTTP2_DATA_FRAME \<and> data_state p = GRPC_CHTTP2_DATA_FRAME \<and> unat (data_frame_size p) = n \<and> 0 < n"
| "pos_rel at p (In_header bs) \<longleftrightarrow>
     (if bs = [] then at = GRPC_CHTTP2_DATA_FH_0 \<or>
        at = GRPC_CHTTP2_DATA_FRAME \<and> data_state p = GRPC_CHTTP2_DATA_FRAME \<and> data_frame_size p = 0
      else length bs \<le> 4 \<and> at = header_label (length bs) \<and> is_frame_compressed p = (hd bs = 1) \<and>
        (2 \<le> length bs \<longrightarrow> data_frame_size p = word_of_bytes (tl bs)))"

lemma pos_rel_fields:
  "pos_rel at (p\<lparr>data_state := st\<rparr>) pos \<longleftrightarrow> pos_rel at p pos" if "at \<noteq> GRPC_CHTTP2_DATA_FRAME"
  using that by (cases pos) auto

lemma pos_rel_sopb [simp]: "pos_rel at (p\<lparr>incoming_sopb := x\<rparr>) pos \<longleftrightarrow> pos_rel at p pos"
  by (cases pos) auto

lemma seen_twice:
  assumes "list_rep l GRPC_CHTTP2_LIST_PARSING_SEEN xs"
  obtains l1 ys where "grpc_chttp2_list_add_parsing_seen_stream l s = Some l1"
    "grpc_chttp2_list_add_parsing_seen_stream l1 s = Some l1" "list_rep l1 GRPC_CHTTP2_LIST_PARSING_SEEN ys"
proof (rule add_rep[OF assms, of s])
  fix l1 assume l1: "stream_list_add l s GRPC_CHTTP2_LIST_PARSING_SEEN = Some l1"
    "list_rep l1 GRPC_CHTTP2_LIST_PARSING_SEEN (if s \<in> set xs then xs else xs @ [s])"
  have "stream_list_add l1 s GRPC_CHTTP2_LIST_PARSING_SEEN = Some l1"
    using l1(2) by (rule stream_list.add_old) auto
  with l1 that show ?thesis by (simp add: grpc_chttp2_list_add_parsing_seen_stream_def)
qed

lemma slice_sub_bytes:
  assumes "slice_ok sl" "a \<le> b" "b \<le> GPR_SLICE_LENGTH sl"
  shows "\<exists>s. gpr_slice_sub sl a b = Some s \<and> slice_bytes s = take (b - a) (drop a (slice_bytes sl))"
  using assms
  by (cases sl)
    (auto simp: gpr_slice_sub_def gpr_slice_sub_no_ref_def slice_ok_def GPR_SLICE_LENGTH_def GPR_SLICE_INLINED_SIZE_def sub_bytes_def)

definition data_outcome ::
    "stream_ref \<Rightarrow> stream_lists \<Rightarrow> grpc_chttp2_data_parser \<Rightarrow> message_pos \<Rightarrow> received_item list \<Rightarrow>
      (grpc_chttp2_parse_error \<times> stream_lists \<times> grpc_chttp2_data_parser) option \<Rightarrow> bool" where
  "data_outcome stream l p pos out r \<longleftrightarrow>
     (\<exists>l' p'. r = Some (GRPC_CHTTP2_PARSE_OK, l', p') \<and> pos_rel (data_state p') p' pos \<and>
        received_items (incoming_sopb p') = received_items (incoming_sopb p) @ out \<and> is_last_frame p' = is_last_frame p \<and>
        (l' = l \<or> grpc_chttp2_list_add_parsing_seen_stream l stream = Some l'))"

lemma data_outcomeI:
  assumes "r = Some (GRPC_CHTTP2_PARSE_OK, l', p')" "pos_rel (data_state p') p' pos"
    "received_items (incoming_sopb p') = received_items (incoming_sopb p) @ out" "is_last_frame p' = is_last_frame p"
    "l' = l \<or> grpc_chttp2_list_add_parsing_seen_stream l stream = Some l'"
  shows "data_outcome stream l p pos out r"
  using assms by (auto simp: data_outcome_def)

lemma data_outcome_extend:
  assumes "data_outcome stream l1 p1 pos out2 r" "received_items (incoming_sopb p1) = received_items (incoming_sopb p) @ out1"
    "out = out1 @ out2" "is_last_frame p1 = is_last_frame p"
    "l1 = l \<or> grpc_chttp2_list_add_parsing_seen_stream l stream = Some l1 \<and> grpc_chttp2_list_add_parsing_seen_stream l1 stream = Some l1"
  shows "data_outcome stream l p pos out r"
  using assms by (fastforce simp: data_outcome_def)

text \<open>One byte of a header: the step of the automaton, and the label that is reached.\<close>

lemma header_step:
  assumes "message_run mf (In_header bs) (b # ys) = Some (mf', pos', out)" "length bs < 4"
  shows "bs = [] \<longrightarrow> b \<in> {0, 1}" "message_run mf (In_header (bs @ [b])) ys = Some (mf', pos', out)"
  using assms by (auto split: if_splits Option.bind_splits)

lemma header_last_step:
  assumes "message_run mf (In_header bs) (b # ys) = Some (mf', pos', out)" "length bs = 4"
  shows "\<exists>out'. out = Inl (Received_begin_message (word_of_bytes (tl bs @ [b])) (next_flags (hd bs) mf)) # out' \<and>
     message_run (next_flags (hd bs) mf) (body_pos (unat (word_of_bytes (tl bs @ [b])))) ys = Some (mf', pos', out')"
  using assms by (auto simp: Let_def split: if_splits Option.bind_splits)

lemma list_of_4: "length bs = 4 \<Longrightarrow> \<exists>a b c d. bs = [a, b, c, d]"
  by (auto simp: numeral_eq_Suc length_Suc_conv)

lemma word_of_bytes_snoc:
  "word_of_bytes ([] @ [b]) = push_bit 24 (ucast b)"
  "length bs = 1 \<Longrightarrow> word_of_bytes (bs @ [b]) = word_of_bytes bs OR push_bit 16 (ucast b)"
  "length bs = 2 \<Longrightarrow> word_of_bytes (bs @ [b]) = word_of_bytes bs OR push_bit 8 (ucast b)"
  "length bs = 3 \<Longrightarrow> word_of_bytes (bs @ [b]) = word_of_bytes bs OR ucast b"
  by (auto simp: numeral_eq_Suc length_Suc_conv or.assoc)

lemma data_parse_messages:
  assumes "slice_ok sl" "GPR_SLICE_LENGTH sl < 2 ^ 32"
  shows "pos_rel at p pos \<Longrightarrow> list_rep l GRPC_CHTTP2_LIST_PARSING_SEEN xs \<Longrightarrow>
     cur < GPR_SLICE_LENGTH sl \<or> cur = GPR_SLICE_LENGTH sl \<and> at = GRPC_CHTTP2_DATA_FRAME \<Longrightarrow>
     message_run mf pos (drop cur (slice_bytes sl)) = Some (mf', pos', out) \<Longrightarrow>
     data_outcome stream l p pos' out (data_parse_at sl stream at l p mf cur)"
proof (induction "2 * (GPR_SLICE_LENGTH sl - cur) + data_rank at" arbitrary: at l p mf cur pos out xs rule: less_induct)
  case less
  let ?e = "GPR_SLICE_LENGTH sl" and ?b = "slice_bytes sl ! cur"
  have e: "?e = length (slice_bytes sl)" by (simp add: GPR_SLICE_LENGTH_def)
  have drop: "drop cur (slice_bytes sl) = ?b # drop (cur + 1) (slice_bytes sl)" if "cur < ?e"
    using that by (simp add: e Cons_nth_drop_Suc)
  show ?case
  proof (cases "at = GRPC_CHTTP2_DATA_FRAME")
    case False
    then have cur: "cur < ?e" using less.prems(3) by simp
    obtain bs where pos: "pos = In_header bs" using less.prems(1) False by (cases pos) auto
    have len: "length bs \<le> 4" using less.prems(1) pos by (auto split: if_splits)
    have at: "at = (if bs = [] then GRPC_CHTTP2_DATA_FH_0 else header_label (length bs))"
      using less.prems(1) pos False by (auto split: if_splits)
    have run: "message_run mf (In_header bs) (?b # drop (cur + 1) (slice_bytes sl)) = Some (mf', pos', out)"
      using less.prems(4) pos drop[OF cur] by simp
    have go: "data_outcome stream l p pos' out
        (if cur + 1 = ?e then Some (GRPC_CHTTP2_PARSE_OK, l, p1\<lparr>data_state := header_label (length bs + 1)\<rparr>)
         else data_parse_at sl stream (header_label (length bs + 1)) l p1 mf (cur + 1))"
      if p1: "pos_rel (header_label (length bs + 1)) p1 (In_header (bs @ [?b]))" "incoming_sopb p1 = incoming_sopb p"
        "is_last_frame p1 = is_last_frame p" and l4: "length bs < 4" for p1
    proof (cases "cur + 1 = ?e")
      case True
      have "header_label (length bs + 1) \<noteq> GRPC_CHTTP2_DATA_FRAME" by simp
      from pos_rel_fields[OF this] p1(1)
      have "pos_rel (header_label (length bs + 1)) (p1\<lparr>data_state := header_label (length bs + 1)\<rparr>) (In_header (bs @ [?b]))" by blast
      with True header_step(2)[OF run l4] p1(2,3) e show ?thesis
        by (auto simp: data_outcome_def)
    next
      case False
      with cur have "data_outcome stream l p1 pos' out (data_parse_at sl stream (header_label (length bs + 1)) l p1 mf (cur + 1))"
        by (intro less.hyps[OF _ p1(1) less.prems(2) _ header_step(2)[OF run l4]]) auto
      with False p1(2,3) show ?thesis by (auto simp: data_outcome_def)
    qed
    note defs = data_parse_at.simps[of sl stream _ l p mf cur] Let_def
    consider (h0) "bs = []" | (h1) "length bs = 1" | (h2) "length bs = 2" | (h3) "length bs = 3" | (h4) "length bs = 4"
      using len by (cases bs) (auto simp: le_Suc_eq numeral_eq_Suc)
    then show ?thesis
    proof cases
      case h0
      then have b: "?b = 0 \<or> ?b = 1" using header_step(1)[OF run] by simp
      with h0 go[of "p\<lparr>data_frame_type := ?b, is_frame_compressed := (?b = 1)\<rparr>"] at cur show ?thesis
        by (auto simp: defs)
    next
      case h1
      with go[of "p\<lparr>data_frame_size := push_bit 24 (ucast ?b)\<rparr>"] at cur less.prems(1) pos show ?thesis
        by (cases bs) (auto simp: defs)
    next
      case h2
      with go[of "p\<lparr>data_frame_size := data_frame_size p OR push_bit 16 (ucast ?b)\<rparr>"] at cur less.prems(1) pos show ?thesis
        by (cases bs) (auto simp: defs word_of_bytes_snoc)
    next
      case h3
      with go[of "p\<lparr>data_frame_size := data_frame_size p OR push_bit 8 (ucast ?b)\<rparr>"] at cur less.prems(1) pos show ?thesis
        by (cases bs) (auto simp: defs word_of_bytes_snoc)
    next
      case h4
      let ?len = "word_of_bytes (tl bs @ [?b])" and ?p = "p\<lparr>data_frame_size := data_frame_size p OR ucast ?b, data_state := GRPC_CHTTP2_DATA_FRAME\<rparr>"
      let ?q = "?p\<lparr>incoming_sopb := grpc_sopb_add_begin_message (incoming_sopb p) ?len (next_flags (hd bs) mf)\<rparr>"
      obtain out' where out: "out = Inl (Received_begin_message ?len (next_flags (hd bs) mf)) # out'"
        "message_run (next_flags (hd bs) mf) (body_pos (unat ?len)) (drop (cur + 1) (slice_bytes sl)) = Some (mf', pos', out')"
        using header_last_step[OF run h4] by auto
      have sz: "data_frame_size p OR ucast ?b = ?len" using h4 less.prems(1) pos by (cases bs) (auto simp: word_of_bytes_snoc)
      have rel: "pos_rel GRPC_CHTTP2_DATA_FRAME ?q (body_pos (unat ?len))"
        using sz by (auto simp: body_pos_def unat_eq_0 unat_gt_0)
      have comp: "is_frame_compressed p = (hd bs = 1)" using h4 less.prems(1) pos by (cases bs) auto
      have "data_parse_at sl stream at l p mf cur =
          data_parse_at sl stream GRPC_CHTTP2_DATA_FRAME l ?q (next_flags (hd bs) mf) (cur + 1)"
        using h4 at cur comp sz by (cases bs) (auto simp: defs next_flags_def)
      moreover have "data_outcome stream l ?q pos' out'
          (data_parse_at sl stream GRPC_CHTTP2_DATA_FRAME l ?q (next_flags (hd bs) mf) (cur + 1))"
        by (rule less.hyps[OF _ rel less.prems(2) _ out(2)])
           (use cur False in \<open>auto simp: at\<close>)
      ultimately show ?thesis by (auto intro: data_outcome_extend simp: out(1))
    qed
  next
    case True
    obtain l1 ys where l1: "grpc_chttp2_list_add_parsing_seen_stream l stream = Some l1"
      "grpc_chttp2_list_add_parsing_seen_stream l1 stream = Some l1" "list_rep l1 GRPC_CHTTP2_LIST_PARSING_SEEN ys"
      using seen_twice[OF less.prems(2)] by metis
    have st: "data_state p = GRPC_CHTTP2_DATA_FRAME" using less.prems(1) True by (cases pos) (auto split: if_splits)
    have le: "cur \<le> ?e" using less.prems(3) by auto
    have w: "unat (word_of_nat (?e - cur) :: u32) = ?e - cur" using assms(2) by (simp add: unat_of_nat take_bit_nat_eq_self)
    let ?n = "unat (data_frame_size p)"
    have pos: "pos = body_pos ?n" using less.prems(1) True by (cases pos) (auto simp: body_pos_def split: if_splits)
    note defs = data_parse_at.simps[of sl stream _ l p mf cur] Let_def
    consider (fin) "cur = ?e" | (exact) "cur < ?e" "?e - cur = ?n" | (more) "cur < ?e" "?n < ?e - cur"
      | (part) "cur < ?e" "?e - cur < ?n" using le by linarith
    then show ?thesis
    proof cases
      case fin
      with less.prems(4) e have "pos' = pos" "out = []" by auto
      with fin True l1(1) st less.prems(1) show ?thesis
        by (auto simp: data_outcome_def data_parse_at.simps[of sl stream _ l p mf ?e])
    next
      case exact
      obtain s where s: "gpr_slice_sub sl cur ?e = Some s" "slice_bytes s = drop cur (slice_bytes sl)"
        using slice_sub_bytes[OF assms(1) le] e by auto
      have eq: "word_of_nat (?e - cur) = data_frame_size p" by (simp add: exact(2))
      have n: "0 < ?n" using exact by linarith
      then have "pos = In_body ?n" by (simp add: pos body_pos_def)
      then have "pos' = body_pos 0" "out = map Inr (drop cur (slice_bytes sl))"
        using less.prems(4) message_run_body[OF n, of "drop cur (slice_bytes sl)" mf] exact e by auto
      with exact True l1(1) s eq show ?thesis by (auto simp: data_outcome_def defs body_pos_def)
    next
      case more
      have b: "cur \<le> cur + ?n" "cur + ?n \<le> ?e" using more by linarith+
      obtain s where s: "gpr_slice_sub sl cur (cur + ?n) = Some s" "slice_bytes s = take ?n (drop cur (slice_bytes sl))"
        using slice_sub_bytes[OF assms(1) b] by auto
      have gt: "data_frame_size p < word_of_nat (?e - cur)" "word_of_nat (?e - cur) \<noteq> data_frame_size p"
        using more w by (auto simp: word_less_nat_alt)
      let ?q = "p\<lparr>incoming_sopb := grpc_sopb_add_slice (incoming_sopb p) s\<rparr>"
      have "drop cur (slice_bytes sl) = take ?n (drop cur (slice_bytes sl)) @ drop (cur + ?n) (slice_bytes sl)"
        by (metis add.commute append_take_drop_id drop_drop)
      with less.prems(4) obtain out' where out: "out = map Inr (take ?n (drop cur (slice_bytes sl))) @ out'"
        "message_run mf (In_header []) (drop (cur + ?n) (slice_bytes sl)) = Some (mf', pos', out')"
        using message_run_append[of mf pos "take ?n (drop cur (slice_bytes sl))" "drop (cur + ?n) (slice_bytes sl)"]
          message_run_body[of ?n "take ?n (drop cur (slice_bytes sl))" mf] more e
        by (cases "?n = 0") (auto simp: pos body_pos_def split: Option.bind_splits if_splits)
      have "data_parse_at sl stream at l p mf cur = data_parse_at sl stream GRPC_CHTTP2_DATA_FH_0 l1 ?q mf (cur + ?n)"
        using more True l1(1) s gt by (auto simp: defs)
      moreover have "data_outcome stream l1 ?q pos' out' (data_parse_at sl stream GRPC_CHTTP2_DATA_FH_0 l1 ?q mf (cur + ?n))"
        by (rule less.hyps[OF _ _ l1(3) _ out(2)]) (use more True in auto)
      ultimately show ?thesis using l1(1,2) by (auto intro!: data_outcome_extend[where l = l and p = p] simp: out(1) s(2))
    next
      case part
      obtain s where s: "gpr_slice_sub sl cur ?e = Some s" "slice_bytes s = drop cur (slice_bytes sl)"
        using slice_sub_bytes[OF assms(1) le] e by auto
      have lt: "\<not> data_frame_size p < word_of_nat (?e - cur)" "word_of_nat (?e - cur) \<noteq> data_frame_size p"
        using part w by (auto simp: word_less_nat_alt)
      have d: "unat (data_frame_size p - word_of_nat (?e - cur)) = ?n - (?e - cur)"
        using part w by (simp add: unat_sub word_le_nat_alt)
      have n: "0 < ?n" using part by linarith
      then have "pos = In_body ?n" by (simp add: pos body_pos_def)
      then have "pos' = In_body (?n - (?e - cur))" "out = map Inr (drop cur (slice_bytes sl))"
        using less.prems(4) message_run_body[OF n, of "drop cur (slice_bytes sl)" mf] part e by (auto simp: body_pos_def)
      with part True l1(1) s lt d st show ?thesis by (auto simp: data_outcome_def defs)
    qed
  qed
qed

section \<open>Messages on a stream\<close>

text \<open>The slices given to the parser, each with whether it is the last of its frame.\<close>

fun data_feed ::
    "stream_lists \<Rightarrow> stream_ref \<Rightarrow> grpc_chttp2_stream_parsing \<Rightarrow> (gpr_slice \<times> bool) list \<Rightarrow>
      (grpc_chttp2_parse_error \<times> stream_lists \<times> grpc_chttp2_stream_parsing) option" where
  "data_feed l stream s [] = Some (GRPC_CHTTP2_PARSE_OK, l, s)"
| "data_feed l stream s ((sl, is_last) # rest) =
     do {
       (err, l, s) \<leftarrow> grpc_chttp2_data_parser_parse l stream s sl is_last;
       (if err = GRPC_CHTTP2_PARSE_OK then data_feed l stream s rest else Some (err, l, s))
     }"

definition message_bytes :: "u8 \<Rightarrow> bytes \<Rightarrow> bytes" where
  "message_bytes c m =
     (let len = word_of_nat (length m) :: u32 in
      [c, ucast (drop_bit 24 len), ucast (drop_bit 16 len), ucast (drop_bit 8 len), ucast len] @ m)"

definition message_items :: "u8 \<Rightarrow> bytes \<Rightarrow> received_item list" where
  "message_items c m = Inl (Received_begin_message (word_of_nat (length m)) (message_flags c)) # map Inr m"

lemma word_of_bytes_split:
  "word_of_bytes [ucast (drop_bit 24 len), ucast (drop_bit 16 len), ucast (drop_bit 8 len), ucast len] = len"
proof (rule bit_word_eqI)
  fix n assume "n < LENGTH(32)"
  then have "n < 8 \<or> 8 \<le> n \<and> n - 8 < 8 \<or> 16 \<le> n \<and> n - 16 < 8 \<or> 24 \<le> n \<and> n - 24 < 8" by auto
  then show "bit (word_of_bytes [ucast (drop_bit 24 len), ucast (drop_bit 16 len), ucast (drop_bit 8 len), ucast len]) n = bit len n"
    by (auto simp: bit_simps)
qed

lemma message_run_message:
  assumes "length m < 2 ^ 32" "c \<in> {0, 1}"
  shows "message_run mf (In_header []) (message_bytes c m) =
    Some (next_flags c mf, In_header [], Inl (Received_begin_message (word_of_nat (length m)) (next_flags c mf)) # map Inr m)"
proof -
  let ?len = "word_of_nat (length m) :: u32"
  have n: "unat ?len = length m" using assms(1) by (simp add: unat_of_nat take_bit_nat_eq_self)
  have b: "message_run mf (body_pos (length m)) m = Some (mf, In_header [], map Inr m)" for mf
    using message_run_body[of "length m" m mf] by (cases "m = []") (auto simp: body_pos_def)
  show ?thesis
    using assms(2) by (auto simp: message_bytes_def Let_def word_of_bytes_split n b simp del: word_of_bytes.simps)
qed

section \<open>What the flags become\<close>

text \<open>
  The same bytes with the flags of every message its own, and how what is reported differs: a
  message that is not compressed may be reported as compressed.
\<close>

fun exact_run :: "message_pos \<Rightarrow> bytes \<Rightarrow> (message_pos \<times> received_item list) option" where
  "exact_run pos [] = Some (pos, [])"
| "exact_run pos (b # bs) =
     do { (mf, pos, out) \<leftarrow> message_step 0 pos b; (pos, out') \<leftarrow> exact_run pos bs; Some (pos, out @ out') }"

fun reported_as :: "received_item \<Rightarrow> received_item \<Rightarrow> bool" where
  "reported_as (Inl (Received_begin_message len f)) (Inl (Received_begin_message len' f')) \<longleftrightarrow>
     len = len' \<and> (f = f' \<or> f = GRPC_WRITE_INTERNAL_COMPRESS)"
| "reported_as x y \<longleftrightarrow> x = y"

lemma reported_as_refl [simp]: "reported_as x x"
  by (cases "(x, x)" rule: reported_as.cases) auto

lemma reported_as_all: "list_all2 reported_as xs xs"
  by (rule list_all2_refl) simp

fun begins_compressed :: "received_item \<Rightarrow> bool" where
  "begins_compressed (Inl (Received_begin_message len f)) \<longleftrightarrow> f = GRPC_WRITE_INTERNAL_COMPRESS"
| "begins_compressed _ \<longleftrightarrow> False"

definition none_compressed :: "received_item list \<Rightarrow> bool" where
  "none_compressed out \<longleftrightarrow> (\<forall>x \<in> set out. \<not> begins_compressed x)"

lemma none_compressed_simps [simp]:
  "none_compressed []" "none_compressed (x # xs) \<longleftrightarrow> \<not> begins_compressed x \<and> none_compressed xs"
  "none_compressed (xs @ ys) \<longleftrightarrow> none_compressed xs \<and> none_compressed ys"
  by (auto simp: none_compressed_def)

lemma exact_run_append:
  "exact_run pos (xs @ ys) =
     do { (pos, out) \<leftarrow> exact_run pos xs; (pos, out') \<leftarrow> exact_run pos ys; Some (pos, out @ out') }"
proof (induction xs arbitrary: pos)
  case Nil
  then show ?case by (cases "exact_run pos ys") auto
next
  case (Cons x xs)
  then show ?case by (cases "message_step 0 pos x") (auto split: Option.bind_splits)
qed

lemma message_step_exact:
  assumes "message_step 0 pos b = Some (mf0, pos', out0)" "mf \<in> {0, GRPC_WRITE_INTERNAL_COMPRESS}"
  shows "\<exists>mf' out. message_step mf pos b = Some (mf', pos', out) \<and> mf' \<in> {0, GRPC_WRITE_INTERNAL_COMPRESS} \<and>
    list_all2 reported_as out out0 \<and> (mf = 0 \<and> none_compressed out0 \<longrightarrow> mf' = 0 \<and> out = out0)"
  using assms by (cases pos) (auto simp: next_flags_def GRPC_WRITE_INTERNAL_COMPRESS_def Let_def split: if_splits)

lemma message_run_exact:
  "exact_run pos bs = Some (pos', out0) \<Longrightarrow> mf \<in> {0, GRPC_WRITE_INTERNAL_COMPRESS} \<Longrightarrow>
    \<exists>mf' out. message_run mf pos bs = Some (mf', pos', out) \<and> list_all2 reported_as out out0 \<and>
      (mf = 0 \<and> none_compressed out0 \<longrightarrow> mf' = 0 \<and> out = out0)"
proof (induction bs arbitrary: pos mf out0)
  case (Cons b bs)
  from Cons.prems(1) obtain mf0 pos1 o1 o2 where s: "message_step 0 pos b = Some (mf0, pos1, o1)"
    "exact_run pos1 bs = Some (pos', o2)" "out0 = o1 @ o2" by (auto split: Option.bind_splits)
  from message_step_exact[OF s(1) Cons.prems(2)] obtain mf1 out1 where
    1: "message_step mf pos b = Some (mf1, pos1, out1)" "mf1 \<in> {0, GRPC_WRITE_INTERNAL_COMPRESS}" "list_all2 reported_as out1 o1"
    "mf = 0 \<and> none_compressed o1 \<longrightarrow> mf1 = 0 \<and> out1 = o1" by blast
  from Cons.IH[OF s(2) 1(2)] obtain mf2 out2 where
    2: "message_run mf1 pos1 bs = Some (mf2, pos', out2)" "list_all2 reported_as out2 o2"
    "mf1 = 0 \<and> none_compressed o2 \<longrightarrow> mf2 = 0 \<and> out2 = o2" by blast
  from 1 2 s(3) show ?case by (auto intro: list_all2_appendI)
qed simp

text \<open>The flags begin anew with every slice.\<close>

fun slices_run :: "message_pos \<Rightarrow> bytes list \<Rightarrow> (message_pos \<times> received_item list) option" where
  "slices_run pos [] = Some (pos, [])"
| "slices_run pos (bs # bss) =
     do { (mf, pos, out) \<leftarrow> message_run 0 pos bs; (pos, out') \<leftarrow> slices_run pos bss; Some (pos, out @ out') }"

lemma slices_run_exact:
  "exact_run pos (concat bss) = Some (pos', out0) \<Longrightarrow>
    \<exists>out. slices_run pos bss = Some (pos', out) \<and> list_all2 reported_as out out0 \<and>
      (none_compressed out0 \<longrightarrow> out = out0)"
proof (induction bss arbitrary: pos out0)
  case (Cons bs bss)
  from Cons.prems obtain pos1 o1 o2 where s: "exact_run pos bs = Some (pos1, o1)"
    "exact_run pos1 (concat bss) = Some (pos', o2)" "out0 = o1 @ o2" by (auto simp: exact_run_append split: Option.bind_splits)
  from message_run_exact[OF s(1), of 0] obtain mf1 out1 where
    1: "message_run 0 pos bs = Some (mf1, pos1, out1)" "list_all2 reported_as out1 o1"
    "none_compressed o1 \<longrightarrow> out1 = o1" by auto
  from Cons.IH[OF s(2)] obtain out2 where
    2: "slices_run pos1 bss = Some (pos', out2)" "list_all2 reported_as out2 o2"
    "none_compressed o2 \<longrightarrow> out2 = o2" by blast
  from 1 2 s(3) show ?case by (auto intro: list_all2_appendI)
qed simp

definition messages_bytes :: "(u8 \<times> bytes) list \<Rightarrow> bytes" where
  "messages_bytes ms = concat (map (\<lambda>(c, m). message_bytes c m) ms)"

definition messages_items :: "(u8 \<times> bytes) list \<Rightarrow> received_item list" where
  "messages_items ms = concat (map (\<lambda>(c, m). message_items c m) ms)"

definition proper_messages :: "(u8 \<times> bytes) list \<Rightarrow> bool" where
  "proper_messages ms \<longleftrightarrow> (\<forall>(c, m) \<in> set ms. c \<in> {0, 1} \<and> length m < 2 ^ 32)"

lemma next_flags_own: "c \<in> {0, 1} \<Longrightarrow> next_flags c 0 = message_flags c"
  by (auto simp: next_flags_def message_flags_def)

lemma exact_run_body: "0 < n \<Longrightarrow> length bs \<le> n \<Longrightarrow>
    exact_run (In_body n) bs = Some (if bs = [] then In_body n else body_pos (n - length bs), map Inr bs)"
proof (induction bs arbitrary: n)
  case (Cons b bs)
  then show ?case by (cases "bs = []") (auto simp: body_pos_def)
qed simp

lemma exact_run_message:
  assumes "length m < 2 ^ 32" "c \<in> {0, 1}"
  shows "exact_run (In_header []) (message_bytes c m) = Some (In_header [], message_items c m)"
proof -
  let ?len = "word_of_nat (length m) :: u32"
  have n: "unat ?len = length m" using assms(1) by (simp add: unat_of_nat take_bit_nat_eq_self)
  have b: "exact_run (body_pos (length m)) m = Some (In_header [], map Inr m)"
    using exact_run_body[of "length m" m] by (cases "m = []") (auto simp: body_pos_def)
  show ?thesis
    using assms(2) next_flags_own[OF assms(2)]
    by (auto simp: message_bytes_def message_items_def Let_def word_of_bytes_split n b simp del: word_of_bytes.simps)
qed

lemma exact_run_messages:
  "proper_messages ms \<Longrightarrow> exact_run (In_header []) (messages_bytes ms) = Some (In_header [], messages_items ms)"
  by (induction ms) (auto simp: proper_messages_def messages_bytes_def messages_items_def exact_run_append exact_run_message)

lemma messages_items_begins:
  "\<forall>(c, m) \<in> set ms. c = 0 \<Longrightarrow> none_compressed (messages_items ms)"
  by (induction ms)
     (auto simp: messages_items_def message_items_def message_flags_def GRPC_WRITE_INTERNAL_COMPRESS_def none_compressed_def)

lemma reported_compressed:
  "list_all2 reported_as out (messages_items ms) \<Longrightarrow> \<forall>(c, m) \<in> set ms. c = 1 \<Longrightarrow> out = messages_items ms"
proof -
  assume r: "list_all2 reported_as out (messages_items ms)" and c: "\<forall>(c, m) \<in> set ms. c = 1"
  have "reported_as x y \<longrightarrow> x = y" if "y \<in> set (messages_items ms)" for x y
    using that c
    by (cases "(x, y)" rule: reported_as.cases) (auto simp: messages_items_def message_items_def message_flags_def)
  then have "list_all2 (=) out (messages_items ms)" using r by (auto simp: list_all2_conv_all_nth)
  then show ?thesis by (simp add: list.rel_eq)
qed

section \<open>The stream\<close>

text \<open>A stream whose parser is at a position of the automaton.\<close>

definition stream_at :: "grpc_chttp2_stream_parsing \<Rightarrow> message_pos \<Rightarrow> bool" where
  "stream_at s pos \<longleftrightarrow> pos_rel (data_state (data_parser s)) (data_parser s) pos"

lemma data_parser_parse_run:
  assumes "slice_ok sl" "GPR_SLICE_LENGTH sl < 2 ^ 32" "stream_at s pos"
    "list_rep l GRPC_CHTTP2_LIST_PARSING_SEEN xs" "message_run 0 pos (slice_bytes sl) = Some (mf', pos', out)"
  shows "\<exists>l' s' ys. grpc_chttp2_data_parser_parse l stream s sl is_last = Some (GRPC_CHTTP2_PARSE_OK, l', s') \<and>
     stream_at s' pos' \<and> list_rep l' GRPC_CHTTP2_LIST_PARSING_SEEN ys \<and>
     received_items (incoming_sopb (data_parser s')) = received_items (incoming_sopb (data_parser s)) @ out"
proof (cases "GPR_SLICE_LENGTH sl = 0")
  case True
  then have "pos' = pos" "out = []" using assms(5) by (auto simp: GPR_SLICE_LENGTH_def)
  with True assms(3,4) show ?thesis by (auto simp: grpc_chttp2_data_parser_parse_def Let_def stream_at_def)
next
  case False
  let ?p = "data_parser s"
  have "message_run 0 pos (drop 0 (slice_bytes sl)) = Some (mf', pos', out)" using assms(5) by simp
  then have "data_outcome stream l ?p pos' out (data_parse_at sl stream (data_state ?p) l ?p 0 0)"
    using data_parse_messages[OF assms(1,2)] assms(3,4) False by (auto simp: stream_at_def)
  then obtain l' p' where r: "data_parse_at sl stream (data_state ?p) l ?p 0 0 = Some (GRPC_CHTTP2_PARSE_OK, l', p')"
    "pos_rel (data_state p') p' pos'" "received_items (incoming_sopb p') = received_items (incoming_sopb ?p) @ out"
    "l' = l \<or> grpc_chttp2_list_add_parsing_seen_stream l stream = Some l'"
    by (auto simp: data_outcome_def)
  have "\<exists>ys. list_rep l' GRPC_CHTTP2_LIST_PARSING_SEEN ys"
    using r(4) seen_twice[OF assms(4), of stream] assms(4) by (metis option.sel)
  with r False show ?thesis by (auto simp: grpc_chttp2_data_parser_parse_def Let_def stream_at_def)
qed

definition good_pieces :: "(gpr_slice \<times> bool) list \<Rightarrow> bool" where
  "good_pieces cs \<longleftrightarrow> (\<forall>(sl, x) \<in> set cs. slice_ok sl \<and> GPR_SLICE_LENGTH sl < 2 ^ 32)"

lemma data_feed_run:
  assumes "good_pieces cs" "stream_at s pos" "list_rep l GRPC_CHTTP2_LIST_PARSING_SEEN xs"
    "slices_run pos (map (slice_bytes \<circ> fst) cs) = Some (pos', out)"
  shows "\<exists>l' s'. data_feed l stream s cs = Some (GRPC_CHTTP2_PARSE_OK, l', s') \<and> stream_at s' pos' \<and>
     received_items (incoming_sopb (data_parser s')) = received_items (incoming_sopb (data_parser s)) @ out"
  using assms
proof (induction cs arbitrary: l s pos xs out)
  case (Cons x cs)
  obtain sl is_last where x: "x = (sl, is_last)" by (cases x)
  from Cons.prems(4) x obtain mf1 pos1 out1 out2 where m: "message_run 0 pos (slice_bytes sl) = Some (mf1, pos1, out1)"
    "slices_run pos1 (map (slice_bytes \<circ> fst) cs) = Some (pos', out2)" "out = out1 @ out2"
    by (auto simp: comp_def split: Option.bind_splits)
  have sl: "slice_ok sl" "GPR_SLICE_LENGTH sl < 2 ^ 32" using Cons.prems(1) x by (auto simp: good_pieces_def)
  from data_parser_parse_run[OF sl Cons.prems(2,3) m(1)] obtain l1 s1 ys where
    s1: "grpc_chttp2_data_parser_parse l stream s sl is_last = Some (GRPC_CHTTP2_PARSE_OK, l1, s1)" "stream_at s1 pos1"
    "list_rep l1 GRPC_CHTTP2_LIST_PARSING_SEEN ys"
    "received_items (incoming_sopb (data_parser s1)) = received_items (incoming_sopb (data_parser s)) @ out1" by blast
  have "good_pieces cs" using Cons.prems(1) by (auto simp: good_pieces_def)
  from Cons.IH[OF this s1(2,3) m(2)] s1(1,4) m(3) x show ?case by auto
qed simp

text \<open>
  C1. Messages arrive whole. However the bytes of a sequence of messages, compressed ones and
  others in any order, are cut into frames and slices, empty ones included, a stream that is
  between messages receives for each message its beginning with its length, and then exactly
  its bytes, and is between messages again. Every compressed message is reported as compressed;
  one that is not may be reported as compressed too, but not when all are alike.
\<close>

theorem messages_reassembled:
  assumes "proper_messages ms" "stream_at s (In_header [])" "list_rep l GRPC_CHTTP2_LIST_PARSING_SEEN xs"
    and "good_pieces cs" "concat (map (slice_bytes \<circ> fst) cs) = messages_bytes ms"
  shows "\<exists>l' s' out. data_feed l stream s cs = Some (GRPC_CHTTP2_PARSE_OK, l', s') \<and> stream_at s' (In_header []) \<and>
     received_items (incoming_sopb (data_parser s')) = received_items (incoming_sopb (data_parser s)) @ out \<and>
     list_all2 reported_as out (messages_items ms) \<and>
     ((\<forall>(c, m) \<in> set ms. c = 0) \<or> (\<forall>(c, m) \<in> set ms. c = 1) \<longrightarrow> out = messages_items ms)"
proof -
  have "exact_run (In_header []) (concat (map (slice_bytes \<circ> fst) cs)) = Some (In_header [], messages_items ms)"
    unfolding assms(5) by (rule exact_run_messages[OF assms(1)])
  from slices_run_exact[OF this] obtain out where out: "slices_run (In_header []) (map (slice_bytes \<circ> fst) cs) = Some (In_header [], out)"
    "list_all2 reported_as out (messages_items ms)" "none_compressed (messages_items ms) \<longrightarrow> out = messages_items ms"
    by blast
  have "(\<forall>(c, m) \<in> set ms. c = 0) \<or> (\<forall>(c, m) \<in> set ms. c = 1) \<longrightarrow> out = messages_items ms"
    using out(2,3) messages_items_begins reported_compressed by blast
  with data_feed_run[OF assms(4,2,3) out(1)] out(2) show ?thesis by blast
qed

definition example_stream :: grpc_chttp2_stream_parsing where
  "example_stream =
     \<lparr> parsing_id = 1, received_close = False, saw_rst_stream = False, s_incoming_window_delta = 0, s_incoming_window = 65535,
       data_parser = \<lparr> data_state = GRPC_CHTTP2_DATA_FH_0, is_last_frame = False, data_frame_type = 0, data_frame_size = 0,
         is_frame_compressed = False, incoming_sopb = [] \<rparr>,
       rst_stream_reason = 0, s_outgoing_window_update = 0, parsing_metadata = grpc_chttp2_incoming_metadata_buffer_init \<rparr>"

theorem messages_reassembled_witness:
  "\<exists>l' s' out. data_feed stream_lists_init 7 example_stream
       [(Inlined [0, 0, 0], False), (Inlined [], True), (Inlined [0, 3, 104, 105], False), (Inlined [33, 1, 0, 0, 0, 0], True)] =
       Some (GRPC_CHTTP2_PARSE_OK, l', s') \<and> stream_at s' (In_header []) \<and>
     received_items (incoming_sopb (data_parser s')) = received_items (incoming_sopb (data_parser example_stream)) @ out \<and>
     list_all2 reported_as out (messages_items [(0, [104, 105, 33]), (1, [])]) \<and>
     ((\<forall>(c, m) \<in> set [(0 :: u8, [104, 105, 33 :: u8]), (1, [])]. c = 0) \<or> (\<forall>(c, m) \<in> set [(0 :: u8, [104, 105, 33 :: u8]), (1, [])]. c = 1) \<longrightarrow>
        out = messages_items [(0, [104, 105, 33]), (1, [])])"
  by (rule messages_reassembled[where xs = "[]"])
     (auto simp: example_stream_def stream_at_def slice_ok_def GPR_SLICE_LENGTH_def proper_messages_def messages_bytes_def
       good_pieces_def message_bytes_def list_rep_init)

text \<open>
  C39. A message that is not compressed is reported as compressed when its bytes come in one
  slice after those of a compressed message, and as it is when the slice ends between them:
  whatever the two messages are.
\<close>

theorem compressed_flag_leaks:
  assumes "length m1 < 2 ^ 32" "length m2 < 2 ^ 32" "stream_at s (In_header [])" "list_rep l GRPC_CHTTP2_LIST_PARSING_SEEN xs"
    and "good_pieces [(sl, x)]" "slice_bytes sl = message_bytes 1 m1 @ message_bytes 0 m2"
    and "good_pieces [(sl1, x1), (sl2, x2)]" "slice_bytes sl1 = message_bytes 1 m1" "slice_bytes sl2 = message_bytes 0 m2"
  shows "(\<exists>l' s'. data_feed l stream s [(sl, x)] = Some (GRPC_CHTTP2_PARSE_OK, l', s') \<and>
      received_items (incoming_sopb (data_parser s')) = received_items (incoming_sopb (data_parser s)) @ message_items 1 m1 @
        Inl (Received_begin_message (word_of_nat (length m2)) GRPC_WRITE_INTERNAL_COMPRESS) # map Inr m2) \<and>
    (\<exists>l' s'. data_feed l stream s [(sl1, x1), (sl2, x2)] = Some (GRPC_CHTTP2_PARSE_OK, l', s') \<and>
      received_items (incoming_sopb (data_parser s')) = received_items (incoming_sopb (data_parser s)) @ message_items 1 m1 @
        Inl (Received_begin_message (word_of_nat (length m2)) 0) # map Inr m2)"
proof
  have m: "message_run 0 (In_header []) (message_bytes 1 m1) =
      Some (GRPC_WRITE_INTERNAL_COMPRESS, In_header [], message_items 1 m1)"
    "message_run mf (In_header []) (message_bytes 0 m2) =
      Some (mf, In_header [], Inl (Received_begin_message (word_of_nat (length m2)) mf) # map Inr m2)" for mf
    using message_run_message[OF assms(1), of 1 0] message_run_message[OF assms(2), of 0 mf]
    by (simp_all add: next_flags_def message_items_def message_flags_def)
  have "slices_run (In_header []) (map (slice_bytes \<circ> fst) [(sl, x)]) = Some (In_header [], message_items 1 m1 @
        Inl (Received_begin_message (word_of_nat (length m2)) GRPC_WRITE_INTERNAL_COMPRESS) # map Inr m2)"
    by (simp add: assms(6) message_run_append m)
  from data_feed_run[OF assms(5,3,4) this] show "\<exists>l' s'. data_feed l stream s [(sl, x)] = Some (GRPC_CHTTP2_PARSE_OK, l', s') \<and>
      received_items (incoming_sopb (data_parser s')) = received_items (incoming_sopb (data_parser s)) @ message_items 1 m1 @
        Inl (Received_begin_message (word_of_nat (length m2)) GRPC_WRITE_INTERNAL_COMPRESS) # map Inr m2" by blast
  have "slices_run (In_header []) (map (slice_bytes \<circ> fst) [(sl1, x1), (sl2, x2)]) = Some (In_header [], message_items 1 m1 @
        Inl (Received_begin_message (word_of_nat (length m2)) 0) # map Inr m2)"
    by (simp add: assms(8,9) m)
  from data_feed_run[OF assms(7,3,4) this] show "\<exists>l' s'. data_feed l stream s [(sl1, x1), (sl2, x2)] = Some (GRPC_CHTTP2_PARSE_OK, l', s') \<and>
      received_items (incoming_sopb (data_parser s')) = received_items (incoming_sopb (data_parser s)) @ message_items 1 m1 @
        Inl (Received_begin_message (word_of_nat (length m2)) 0) # map Inr m2" by blast
qed

theorem compressed_flag_leaks_witness:
  "(\<exists>l' s'. data_feed stream_lists_init 7 example_stream [(Refcounted (message_bytes 1 [65] @ message_bytes 0 [66]), True)] =
        Some (GRPC_CHTTP2_PARSE_OK, l', s') \<and>
      received_items (incoming_sopb (data_parser s')) = received_items (incoming_sopb (data_parser example_stream)) @ message_items 1 [65] @
        Inl (Received_begin_message (word_of_nat (length [66 :: u8])) GRPC_WRITE_INTERNAL_COMPRESS) # map Inr [66]) \<and>
    (\<exists>l' s'. data_feed stream_lists_init 7 example_stream [(Refcounted (message_bytes 1 [65]), False), (Refcounted (message_bytes 0 [66]), True)] =
        Some (GRPC_CHTTP2_PARSE_OK, l', s') \<and>
      received_items (incoming_sopb (data_parser s')) = received_items (incoming_sopb (data_parser example_stream)) @ message_items 1 [65] @
        Inl (Received_begin_message (word_of_nat (length [66 :: u8])) 0) # map Inr [66])"
  by (rule compressed_flag_leaks[where xs = "[]"])
     (auto simp: example_stream_def stream_at_def slice_ok_def GPR_SLICE_LENGTH_def good_pieces_def message_bytes_def list_rep_init)

end
