(* ===== verification/Parsing_State.thy ===== *)
theory Parsing_State
  imports Frame_Data Stream_Map Timeout_Encoding Hpack_Parser_Run
begin

text \<open>
  The state of the reading side of a transport, \<^verbatim>\<open>grpc_chttp2_transport_parsing\<close> of
  \<^verbatim>\<open>src/core/transport/chttp2/internal.h\<close>, and the parsers of the frames other than DATA that
  it contains.
\<close>

section \<open>Parsers\<close>

record grpc_chttp2_window_update_parser =
  update_byte :: u8
  update_amount :: u32

record grpc_chttp2_rst_stream_parser =
  rst_byte :: u8
  reason_bytes :: bytes

record grpc_chttp2_ping_parser =
  ping_byte :: u8
  ping_is_ack :: u8
  opaque_8bytes :: bytes

datatype grpc_chttp2_settings_parse_state =
    GRPC_CHTTP2_SPS_ID0 | GRPC_CHTTP2_SPS_ID1 | GRPC_CHTTP2_SPS_VAL0
  | GRPC_CHTTP2_SPS_VAL1 | GRPC_CHTTP2_SPS_VAL2 | GRPC_CHTTP2_SPS_VAL3

text \<open>\<^verbatim>\<open>target_settings\<close> always points to the settings of the transport.\<close>

record grpc_chttp2_settings_parser =
  sps_state :: grpc_chttp2_settings_parse_state
  settings_is_ack :: bool
  setting_id :: u16
  setting_value :: u32
  incoming_settings :: "u32 list"

datatype grpc_chttp2_goaway_parse_state =
    GRPC_CHTTP2_GOAWAY_LSI0 | GRPC_CHTTP2_GOAWAY_LSI1 | GRPC_CHTTP2_GOAWAY_LSI2 | GRPC_CHTTP2_GOAWAY_LSI3
  | GRPC_CHTTP2_GOAWAY_ERR0 | GRPC_CHTTP2_GOAWAY_ERR1 | GRPC_CHTTP2_GOAWAY_ERR2 | GRPC_CHTTP2_GOAWAY_ERR3
  | GRPC_CHTTP2_GOAWAY_DEBUG

record grpc_chttp2_goaway_parser =
  goaway_state :: grpc_chttp2_goaway_parse_state
  last_stream_id :: u32
  error_code :: u32
  debug_data :: "bytes option" \<comment> \<open>\<^const>\<open>None\<close> is the null pointer\<close>
  debug_length :: u32
  debug_pos :: u32

text \<open>The union \<open>simple\<close>; reading a member other than the one written last aborts.\<close>

datatype simple_parser =
    Simple_window_update grpc_chttp2_window_update_parser
  | Simple_settings grpc_chttp2_settings_parser
  | Simple_ping grpc_chttp2_ping_parser
  | Simple_rst_stream grpc_chttp2_rst_stream_parser

fun simple_window_update :: "simple_parser \<Rightarrow> grpc_chttp2_window_update_parser option" where
  "simple_window_update (Simple_window_update p) = Some p"
| "simple_window_update _ = None"

fun simple_settings :: "simple_parser \<Rightarrow> grpc_chttp2_settings_parser option" where
  "simple_settings (Simple_settings p) = Some p"
| "simple_settings _ = None"

fun simple_ping :: "simple_parser \<Rightarrow> grpc_chttp2_ping_parser option" where
  "simple_ping (Simple_ping p) = Some p"
| "simple_ping _ = None"

fun simple_rst_stream :: "simple_parser \<Rightarrow> grpc_chttp2_rst_stream_parser option" where
  "simple_rst_stream (Simple_rst_stream p) = Some p"
| "simple_rst_stream _ = None"

section \<open>The transport\<close>

text \<open>The values of the function pointer \<open>parser\<close>.\<close>

datatype frame_parser =
    Skip_parser
  | Header_parser
  | Data_parser
  | Rst_stream_parser
  | Settings_parser
  | Window_update_parser
  | Ping_parser
  | Goaway_parser

datatype grpc_chttp2_deframe_transport_state =
    GRPC_DTS_CLIENT_PREFIX nat
  | GRPC_DTS_FH_0 | GRPC_DTS_FH_1 | GRPC_DTS_FH_2 | GRPC_DTS_FH_3 | GRPC_DTS_FH_4
  | GRPC_DTS_FH_5 | GRPC_DTS_FH_6 | GRPC_DTS_FH_7 | GRPC_DTS_FH_8
  | GRPC_DTS_FRAME

record grpc_chttp2_outstanding_ping =
  ping_id :: bytes
  ping_on_recv :: nat \<comment> \<open>the closure\<close>

text \<open>
  What the callbacks of the header parser work on: the reading sides of the streams by their
  addresses, the lists, and the stream of the frame being read.
\<close>

record parsing_streams =
  stream_parsing :: "stream_ref \<Rightarrow> grpc_chttp2_stream_parsing"
  parsing_lists :: stream_lists
  incoming_stream :: "stream_ref option"

text \<open>
  \<open>pings\<close> is \<^const>\<open>None\<close> while the links of the list are the null pointers that \<^verbatim>\<open>memset\<close> left.
  \<open>parser_data\<close> is always the data of \<open>parser\<close>; the data parser's is in the incoming stream.
  The map of streams of the transport belongs to the reading side while it reads.
\<close>

record grpc_chttp2_transport_parsing =
  is_client :: bool
  settings_updated :: bool
  settings_ack_received :: bool
  goaway_received :: bool
  initial_window_update :: int
  qbuf :: gpr_slice_buffer
  hpack_parser :: "parsing_streams grpc_chttp2_hpack_parser"
  simple :: simple_parser
  goaway_parser :: grpc_chttp2_goaway_parser
  incoming_window :: u32
  incoming_window_delta :: u32
  next_stream_id :: u32
  last_incoming_stream_id :: u32
  deframe_state :: grpc_chttp2_deframe_transport_state
  incoming_frame_type :: u8
  incoming_frame_flags :: u8
  header_eof :: bool
  expect_continuation_stream_id :: u32
  incoming_frame_size :: u32
  incoming_stream_id :: u32
  parser :: "frame_parser option"
  settings :: "u32 list"
  goaway_error :: u32
  goaway_last_stream_index :: u32
  goaway_text :: gpr_slice
  outgoing_window_update :: u64
  pings :: "grpc_chttp2_outstanding_ping list option"
  streams :: parsing_streams
  parsing_stream_map :: "stream_ref stream_map"

text \<open>The reading side of a stream: reading and writing through the pointer.\<close>

definition get_stream :: "grpc_chttp2_transport_parsing \<Rightarrow> stream_ref \<Rightarrow> grpc_chttp2_stream_parsing" where
  "get_stream tp s = stream_parsing (streams tp) s"

definition put_stream ::
    "grpc_chttp2_transport_parsing \<Rightarrow> stream_ref \<Rightarrow> grpc_chttp2_stream_parsing \<Rightarrow> grpc_chttp2_transport_parsing" where
  "put_stream tp s x = tp\<lparr>streams := (streams tp)\<lparr>stream_parsing := (stream_parsing (streams tp))(s := x)\<rparr>\<rparr>"

definition add_seen :: "grpc_chttp2_transport_parsing \<Rightarrow> stream_ref \<Rightarrow> grpc_chttp2_transport_parsing option" where
  "add_seen tp s =
     do {
       l \<leftarrow> grpc_chttp2_list_add_parsing_seen_stream (parsing_lists (streams tp)) s;
       Some (tp\<lparr>streams := (streams tp)\<lparr>parsing_lists := l\<rparr>\<rparr>)
     }"

definition set_incoming_stream ::
    "grpc_chttp2_transport_parsing \<Rightarrow> stream_ref option \<Rightarrow> grpc_chttp2_transport_parsing" where
  "set_incoming_stream tp s = tp\<lparr>streams := (streams tp)\<lparr>incoming_stream := s\<rparr>\<rparr>"

definition add_qbuf :: "grpc_chttp2_transport_parsing \<Rightarrow> gpr_slice \<Rightarrow> grpc_chttp2_transport_parsing option" where
  "add_qbuf tp s = do { q \<leftarrow> gpr_slice_buffer_add (qbuf tp) s; Some (tp\<lparr>qbuf := q\<rparr>) }"

text \<open>The big-endian bytes of an integer of the wire.\<close>

definition bytes_of_word :: "u32 \<Rightarrow> bytes" where
  "bytes_of_word w = [ucast (drop_bit 24 w), ucast (drop_bit 16 w), ucast (drop_bit 8 w), ucast w]"

lemma length_bytes_of_word [simp]: "length (bytes_of_word w) = 4"
  by (simp add: bytes_of_word_def)

lemma word_of_bytes_of_word [simp]: "word_of_bytes (bytes_of_word w) = w"
  unfolding bytes_of_word_def by (rule word_of_bytes_split)

lemma put_get_simps [simp]:
  "get_stream (put_stream tp s x) s = x"
  "incoming_stream (streams (set_incoming_stream tp st)) = st"
  by (simp_all add: get_stream_def put_stream_def set_incoming_stream_def)

end
