(* ===== verification/Frame_Control.thy ===== *)
theory Frame_Control
  imports Parsing_State
begin

text \<open>
  The frames that carry no data: \<^verbatim>\<open>frame_window_update.c\<close>, \<^verbatim>\<open>frame_rst_stream.c\<close>,
  \<^verbatim>\<open>frame_ping.c\<close>, \<^verbatim>\<open>frame_goaway.c\<close> and \<^verbatim>\<open>frame_settings.c\<close> of
  \<^verbatim>\<open>src/core/transport/chttp2\<close>. For each, the function that writes it, the one that begins
  reading it and the one that reads a slice of it.
\<close>

definition GRPC_CHTTP2_FRAME_RST_STREAM :: u8 where "GRPC_CHTTP2_FRAME_RST_STREAM = 3"
definition GRPC_CHTTP2_FRAME_SETTINGS :: u8 where "GRPC_CHTTP2_FRAME_SETTINGS = 4"
definition GRPC_CHTTP2_FRAME_PING :: u8 where "GRPC_CHTTP2_FRAME_PING = 6"
definition GRPC_CHTTP2_FRAME_GOAWAY :: u8 where "GRPC_CHTTP2_FRAME_GOAWAY = 7"
definition GRPC_CHTTP2_FRAME_WINDOW_UPDATE :: u8 where "GRPC_CHTTP2_FRAME_WINDOW_UPDATE = 8"
definition GRPC_CHTTP2_FLAG_ACK :: u8 where "GRPC_CHTTP2_FLAG_ACK = 1"

lemmas control_constants [simp] = GRPC_CHTTP2_FRAME_RST_STREAM_def GRPC_CHTTP2_FRAME_SETTINGS_def
  GRPC_CHTTP2_FRAME_PING_def GRPC_CHTTP2_FRAME_GOAWAY_def GRPC_CHTTP2_FRAME_WINDOW_UPDATE_def
  GRPC_CHTTP2_FLAG_ACK_def

section \<open>WINDOW_UPDATE\<close>

definition grpc_chttp2_window_update_create :: "u32 \<Rightarrow> u32 \<Rightarrow> gpr_slice option" where
  "grpc_chttp2_window_update_create sid window_update =
     do {
       gpr_assert (window_update \<noteq> 0);
       Some (gpr_slice_malloc ([0, 0, 4, GRPC_CHTTP2_FRAME_WINDOW_UPDATE, 0] @ bytes_of_word sid @ bytes_of_word window_update))
     }"

definition grpc_chttp2_window_update_parser_begin_frame ::
    "u32 \<Rightarrow> u8 \<Rightarrow> grpc_chttp2_window_update_parser option" where
  "grpc_chttp2_window_update_parser_begin_frame len flags =
     (if flags \<noteq> 0 \<or> len \<noteq> 4 then None else Some \<lparr> update_byte = 0, update_amount = 0 \<rparr>)"

fun window_update_loop :: "grpc_chttp2_window_update_parser \<Rightarrow> bytes \<Rightarrow> grpc_chttp2_window_update_parser" where
  "window_update_loop p [] = p"
| "window_update_loop p (c # cur) =
     (if update_byte p = 4 then p
      else window_update_loop (p\<lparr>update_amount := update_amount p OR push_bit (8 * (3 - unat (update_byte p))) (ucast c),
        update_byte := update_byte p + 1\<rparr>) cur)"

definition grpc_chttp2_window_update_parser_parse ::
    "grpc_chttp2_transport_parsing \<Rightarrow> stream_ref option \<Rightarrow> bytes \<Rightarrow> bool \<Rightarrow>
      (grpc_chttp2_parse_error \<times> grpc_chttp2_transport_parsing) option" where
  "grpc_chttp2_window_update_parser_parse tp stream bs is_last =
     do {
       p \<leftarrow> simple_window_update (simple tp);
       let p = window_update_loop p bs;
       let tp = tp\<lparr>simple := Simple_window_update p\<rparr>;
       (if update_byte p = 4 then
          if update_amount p = 0 \<or> update_amount p AND 0x80000000 \<noteq> 0 then Some (GRPC_CHTTP2_CONNECTION_ERROR, tp)
          else do {
            gpr_assert is_last;
            (if incoming_stream_id tp \<noteq> 0 then
               (case stream of
                  Some s \<Rightarrow> do {
                    let x = get_stream tp s;
                    tp \<leftarrow> add_seen (put_stream tp s
                      (x\<lparr>s_outgoing_window_update := s_outgoing_window_update x + ucast (update_amount p)\<rparr>)) s;
                    Some (GRPC_CHTTP2_PARSE_OK, tp)
                  }
                | None \<Rightarrow> Some (GRPC_CHTTP2_PARSE_OK, tp))
             else Some (GRPC_CHTTP2_PARSE_OK,
               tp\<lparr>outgoing_window_update := outgoing_window_update tp + ucast (update_amount p)\<rparr>))
          }
        else Some (GRPC_CHTTP2_PARSE_OK, tp))
     }"

section \<open>RST_STREAM\<close>

definition grpc_chttp2_rst_stream_create :: "u32 \<Rightarrow> u32 \<Rightarrow> gpr_slice" where
  "grpc_chttp2_rst_stream_create sid code =
     gpr_slice_malloc ([0, 0, 4, GRPC_CHTTP2_FRAME_RST_STREAM, 0] @ bytes_of_word sid @ bytes_of_word code)"

text \<open>The bytes of the reason are those that the memory held, here zeros.\<close>

definition grpc_chttp2_rst_stream_parser_begin_frame ::
    "u32 \<Rightarrow> u8 \<Rightarrow> grpc_chttp2_rst_stream_parser option" where
  "grpc_chttp2_rst_stream_parser_begin_frame len flags =
     (if len \<noteq> 4 then None else Some \<lparr> rst_byte = 0, reason_bytes = [0, 0, 0, 0] \<rparr>)"

fun rst_stream_loop :: "grpc_chttp2_rst_stream_parser \<Rightarrow> bytes \<Rightarrow> grpc_chttp2_rst_stream_parser" where
  "rst_stream_loop p [] = p"
| "rst_stream_loop p (c # cur) =
     (if rst_byte p = 4 then p
      else rst_stream_loop (p\<lparr>reason_bytes := (reason_bytes p)[unat (rst_byte p) := c], rst_byte := rst_byte p + 1\<rparr>) cur)"

definition grpc_chttp2_rst_stream_parser_parse ::
    "grpc_chttp2_transport_parsing \<Rightarrow> stream_ref option \<Rightarrow> bytes \<Rightarrow> bool \<Rightarrow>
      (grpc_chttp2_parse_error \<times> grpc_chttp2_transport_parsing) option" where
  "grpc_chttp2_rst_stream_parser_parse tp stream bs is_last =
     do {
       p \<leftarrow> simple_rst_stream (simple tp);
       let p = rst_stream_loop p bs;
       let tp = tp\<lparr>simple := Simple_rst_stream p\<rparr>;
       (if rst_byte p = 4 then do {
          gpr_assert is_last;
          s \<leftarrow> stream;
          Some (GRPC_CHTTP2_PARSE_OK,
            put_stream tp s ((get_stream tp s)\<lparr>received_close := True, saw_rst_stream := True,
              rst_stream_reason := word_of_bytes (reason_bytes p)\<rparr>))
        }
        else Some (GRPC_CHTTP2_PARSE_OK, tp))
     }"

section \<open>PING\<close>

definition grpc_chttp2_ping_create :: "u8 \<Rightarrow> bytes \<Rightarrow> gpr_slice" where
  "grpc_chttp2_ping_create ack opaque =
     gpr_slice_malloc ([0, 0, 8, GRPC_CHTTP2_FRAME_PING, if ack \<noteq> 0 then 1 else 0, 0, 0, 0, 0] @ take 8 opaque)"

definition grpc_chttp2_ping_parser_begin_frame :: "u32 \<Rightarrow> u8 \<Rightarrow> grpc_chttp2_ping_parser option" where
  "grpc_chttp2_ping_parser_begin_frame len flags =
     (if flags AND 0xfe \<noteq> 0 \<or> len \<noteq> 8 then None
      else Some \<lparr> ping_byte = 0, ping_is_ack = flags, opaque_8bytes = replicate 8 0 \<rparr>)"

fun ping_loop :: "grpc_chttp2_ping_parser \<Rightarrow> bytes \<Rightarrow> grpc_chttp2_ping_parser" where
  "ping_loop p [] = p"
| "ping_loop p (c # cur) =
     (if ping_byte p = 8 then p
      else ping_loop (p\<lparr>opaque_8bytes := (opaque_8bytes p)[unat (ping_byte p) := c], ping_byte := ping_byte p + 1\<rparr>) cur)"

text \<open>
  The loop over the pings that wait for an answer starts at the link \<open>pings.next\<close>, which may
  be null, and takes the link to the next ping from the one it has just released.
\<close>

definition ping_acknowledged :: "grpc_chttp2_outstanding_ping list option \<Rightarrow> unit option" where
  "ping_acknowledged ps = (case ps of Some [] \<Rightarrow> Some () | _ \<Rightarrow> None)"

definition grpc_chttp2_ping_parser_parse ::
    "grpc_chttp2_transport_parsing \<Rightarrow> bytes \<Rightarrow> bool \<Rightarrow> (grpc_chttp2_parse_error \<times> grpc_chttp2_transport_parsing) option" where
  "grpc_chttp2_ping_parser_parse tp bs is_last =
     do {
       p \<leftarrow> simple_ping (simple tp);
       let p = ping_loop p bs;
       let tp = tp\<lparr>simple := Simple_ping p\<rparr>;
       (if ping_byte p = 8 then do {
          gpr_assert is_last;
          (if ping_is_ack p \<noteq> 0 then do { ping_acknowledged (pings tp); Some (GRPC_CHTTP2_PARSE_OK, tp) }
           else do {
             tp \<leftarrow> add_qbuf tp (grpc_chttp2_ping_create 1 (opaque_8bytes p));
             Some (GRPC_CHTTP2_PARSE_OK, tp)
           })
        }
        else Some (GRPC_CHTTP2_PARSE_OK, tp))
     }"

section \<open>GOAWAY\<close>

definition grpc_chttp2_goaway_append :: "u32 \<Rightarrow> u32 \<Rightarrow> gpr_slice \<Rightarrow> gpr_slice_buffer \<Rightarrow> gpr_slice_buffer option" where
  "grpc_chttp2_goaway_append last_id code debug sb =
     do {
       let len = (4 + 4 + word_of_nat (GPR_SLICE_LENGTH debug) :: u32);
       sb \<leftarrow> gpr_slice_buffer_add sb (gpr_slice_malloc
         ([ucast (drop_bit 16 len), ucast (drop_bit 8 len), ucast len, GRPC_CHTTP2_FRAME_GOAWAY, 0, 0, 0, 0, 0] @
          bytes_of_word last_id @ bytes_of_word code));
       gpr_slice_buffer_add sb debug
     }"

definition grpc_chttp2_goaway_parser_init :: "grpc_chttp2_goaway_parser \<Rightarrow> grpc_chttp2_goaway_parser" where
  "grpc_chttp2_goaway_parser_init p = p\<lparr>debug_data := None\<rparr>"

definition grpc_chttp2_goaway_parser_begin_frame ::
    "grpc_chttp2_goaway_parser \<Rightarrow> u32 \<Rightarrow> u8 \<Rightarrow> grpc_chttp2_goaway_parser option" where
  "grpc_chttp2_goaway_parser_begin_frame p len flags =
     (if len < 8 then None
      else Some (p\<lparr>debug_length := len - 8, debug_data := Some (replicate (unat (len - 8)) 0), debug_pos := 0,
        goaway_state := GRPC_CHTTP2_GOAWAY_LSI0\<rparr>))"

text \<open>
  The case \<open>DEBUG\<close>; in the other cases a byte is read and the next case follows, which stores
  itself when the slice ends.
\<close>

definition goaway_debug ::
    "grpc_chttp2_transport_parsing \<Rightarrow> bytes \<Rightarrow> bool \<Rightarrow> (grpc_chttp2_parse_error \<times> grpc_chttp2_transport_parsing) option" where
  "goaway_debug tp bs is_last =
     do {
       let p = goaway_parser tp;
       buf \<leftarrow> debug_data p;
       gpr_assert (unat (debug_pos p) + length bs \<le> length buf);
       let buf = take (unat (debug_pos p)) buf @ bs @ drop (unat (debug_pos p) + length bs) buf;
       let p = p\<lparr>debug_data := Some buf, debug_pos := debug_pos p + word_of_nat (length bs),
         goaway_state := GRPC_CHTTP2_GOAWAY_DEBUG\<rparr>;
       Some (GRPC_CHTTP2_PARSE_OK,
         (if is_last
          then tp\<lparr>goaway_parser := p\<lparr>debug_data := None\<rparr>, goaway_received := True,
            goaway_last_stream_index := last_stream_id p, goaway_error := error_code p, goaway_text := gpr_slice_new buf\<rparr>
          else tp\<lparr>goaway_parser := p\<rparr>))
     }"

fun goaway_parser_byte :: "grpc_chttp2_goaway_parser \<Rightarrow> u8 \<Rightarrow> grpc_chttp2_goaway_parser" where
  "goaway_parser_byte p c =
     (case goaway_state p of
        GRPC_CHTTP2_GOAWAY_LSI0 \<Rightarrow> p\<lparr>last_stream_id := push_bit 24 (ucast c), goaway_state := GRPC_CHTTP2_GOAWAY_LSI1\<rparr>
      | GRPC_CHTTP2_GOAWAY_LSI1 \<Rightarrow>
          p\<lparr>last_stream_id := last_stream_id p OR push_bit 16 (ucast c), goaway_state := GRPC_CHTTP2_GOAWAY_LSI2\<rparr>
      | GRPC_CHTTP2_GOAWAY_LSI2 \<Rightarrow>
          p\<lparr>last_stream_id := last_stream_id p OR push_bit 8 (ucast c), goaway_state := GRPC_CHTTP2_GOAWAY_LSI3\<rparr>
      | GRPC_CHTTP2_GOAWAY_LSI3 \<Rightarrow>
          p\<lparr>last_stream_id := last_stream_id p OR ucast c, goaway_state := GRPC_CHTTP2_GOAWAY_ERR0\<rparr>
      | GRPC_CHTTP2_GOAWAY_ERR0 \<Rightarrow> p\<lparr>error_code := push_bit 24 (ucast c), goaway_state := GRPC_CHTTP2_GOAWAY_ERR1\<rparr>
      | GRPC_CHTTP2_GOAWAY_ERR1 \<Rightarrow>
          p\<lparr>error_code := error_code p OR push_bit 16 (ucast c), goaway_state := GRPC_CHTTP2_GOAWAY_ERR2\<rparr>
      | GRPC_CHTTP2_GOAWAY_ERR2 \<Rightarrow>
          p\<lparr>error_code := error_code p OR push_bit 8 (ucast c), goaway_state := GRPC_CHTTP2_GOAWAY_ERR3\<rparr>
      | GRPC_CHTTP2_GOAWAY_ERR3 \<Rightarrow>
          p\<lparr>error_code := error_code p OR ucast c, goaway_state := GRPC_CHTTP2_GOAWAY_DEBUG\<rparr>
      | GRPC_CHTTP2_GOAWAY_DEBUG \<Rightarrow> p)"

fun grpc_chttp2_goaway_parser_parse ::
    "grpc_chttp2_transport_parsing \<Rightarrow> bytes \<Rightarrow> bool \<Rightarrow> (grpc_chttp2_parse_error \<times> grpc_chttp2_transport_parsing) option" where
  "grpc_chttp2_goaway_parser_parse tp [] is_last =
     (if goaway_state (goaway_parser tp) = GRPC_CHTTP2_GOAWAY_DEBUG then goaway_debug tp [] is_last
      else Some (GRPC_CHTTP2_PARSE_OK, tp))"
| "grpc_chttp2_goaway_parser_parse tp (c # cur) is_last =
     (if goaway_state (goaway_parser tp) = GRPC_CHTTP2_GOAWAY_DEBUG then goaway_debug tp (c # cur) is_last
      else grpc_chttp2_goaway_parser_parse (tp\<lparr>goaway_parser := goaway_parser_byte (goaway_parser tp) c\<rparr>) cur is_last)"

section \<open>SETTINGS\<close>

datatype grpc_chttp2_invalid_value_behavior = GRPC_CHTTP2_CLAMP_INVALID_VALUE | GRPC_CHTTP2_DISCONNECT_ON_INVALID_VALUE

record grpc_chttp2_setting_parameters =
  setting_name :: "string option"
  default_value :: u32
  min_value :: u32
  max_value :: u32
  invalid_value_behavior :: grpc_chttp2_invalid_value_behavior

abbreviation GRPC_CHTTP2_SETTINGS_INITIAL_WINDOW_SIZE :: nat where "GRPC_CHTTP2_SETTINGS_INITIAL_WINDOW_SIZE \<equiv> 4"
abbreviation GRPC_CHTTP2_NUM_SETTINGS :: nat where "GRPC_CHTTP2_NUM_SETTINGS \<equiv> 7"

definition grpc_chttp2_settings_parameters :: "grpc_chttp2_setting_parameters list" where
  "grpc_chttp2_settings_parameters =
     (let row = (\<lambda>n d lo hi b. \<lparr> setting_name = n, default_value = d, min_value = lo, max_value = hi, invalid_value_behavior = b \<rparr>) in
      [row None 0 0 0 GRPC_CHTTP2_DISCONNECT_ON_INVALID_VALUE,
       row (Some ''HEADER_TABLE_SIZE'') 4096 0 0xffffffff GRPC_CHTTP2_CLAMP_INVALID_VALUE,
       row (Some ''ENABLE_PUSH'') 1 0 1 GRPC_CHTTP2_DISCONNECT_ON_INVALID_VALUE,
       row (Some ''MAX_CONCURRENT_STREAMS'') 0xffffffff 0 0xffffffff GRPC_CHTTP2_DISCONNECT_ON_INVALID_VALUE,
       row (Some ''INITIAL_WINDOW_SIZE'') 65535 0 0xffffffff GRPC_CHTTP2_DISCONNECT_ON_INVALID_VALUE,
       row (Some ''MAX_FRAME_SIZE'') 16384 16384 16777215 GRPC_CHTTP2_DISCONNECT_ON_INVALID_VALUE,
       row (Some ''MAX_HEADER_LIST_SIZE'') 0xffffffff 0 0xffffffff GRPC_CHTTP2_CLAMP_INVALID_VALUE])"

definition settings_fill_header :: "u32 \<Rightarrow> u8 \<Rightarrow> bytes" where
  "settings_fill_header len flags =
     [ucast (drop_bit 16 len), ucast (drop_bit 8 len), ucast len, GRPC_CHTTP2_FRAME_SETTINGS, flags, 0, 0, 0, 0]"

definition setting_sent :: "u32 list \<Rightarrow> u32 list \<Rightarrow> u32 \<Rightarrow> nat \<Rightarrow> bool option" where
  "setting_sent old new force_mask i =
     do { a \<leftarrow> c_read new i; b \<leftarrow> c_read old i; Some (a \<noteq> b \<or> force_mask AND push_bit i 1 \<noteq> 0) }"

text \<open>The first loop counts the settings, the second writes them and makes them the old ones.\<close>

fun settings_count :: "u32 list \<Rightarrow> u32 list \<Rightarrow> u32 \<Rightarrow> nat list \<Rightarrow> nat option" where
  "settings_count old new force_mask [] = Some 0"
| "settings_count old new force_mask (i # is) =
     do { b \<leftarrow> setting_sent old new force_mask i; n \<leftarrow> settings_count old new force_mask is; Some (of_bool b + n) }"

fun settings_write :: "u32 list \<Rightarrow> u32 list \<Rightarrow> u32 \<Rightarrow> nat list \<Rightarrow> (bytes \<times> u32 list) option" where
  "settings_write old new force_mask [] = Some ([], old)"
| "settings_write old new force_mask (i # is) =
     do {
       b \<leftarrow> setting_sent old new force_mask i;
       (if b then do {
          gpr_assert (i \<noteq> 0);
          v \<leftarrow> c_read new i;
          old \<leftarrow> c_write old i v;
          (bs, old) \<leftarrow> settings_write old new force_mask is;
          Some ([word_of_nat (i div 256), word_of_nat i] @ bytes_of_word v @ bs, old)
        }
        else settings_write old new force_mask is)
     }"

definition grpc_chttp2_settings_create ::
    "u32 list \<Rightarrow> u32 list \<Rightarrow> u32 \<Rightarrow> nat \<Rightarrow> (gpr_slice \<times> u32 list) option" where
  "grpc_chttp2_settings_create old new force_mask count =
     do {
       n \<leftarrow> settings_count old new force_mask [0..<count];
       (bs, old) \<leftarrow> settings_write old new force_mask [0..<count];
       gpr_assert (length bs = 6 * n);
       Some (gpr_slice_malloc (settings_fill_header (word_of_nat (6 * n)) 0 @ bs), old)
     }"

definition grpc_chttp2_settings_ack_create :: gpr_slice where
  "grpc_chttp2_settings_ack_create = gpr_slice_malloc (settings_fill_header 0 GRPC_CHTTP2_FLAG_ACK)"

text \<open>The identifier and the value are those that the memory held, here zeros.\<close>

definition grpc_chttp2_settings_parser_begin_frame ::
    "u32 \<Rightarrow> u8 \<Rightarrow> u32 list \<Rightarrow> grpc_chttp2_parse_error \<times> grpc_chttp2_settings_parser" where
  "grpc_chttp2_settings_parser_begin_frame len flags setts =
     (let p = \<lparr> sps_state = GRPC_CHTTP2_SPS_ID0, settings_is_ack = False, setting_id = 0, setting_value = 0,
                incoming_settings = setts \<rparr> in
      if flags = GRPC_CHTTP2_FLAG_ACK then
        (if len \<noteq> 0 then GRPC_CHTTP2_CONNECTION_ERROR else GRPC_CHTTP2_PARSE_OK, p\<lparr>settings_is_ack := True\<rparr>)
      else if flags \<noteq> 0 then (GRPC_CHTTP2_CONNECTION_ERROR, p)
      else if len mod 6 \<noteq> 0 then (GRPC_CHTTP2_CONNECTION_ERROR, p)
      else (GRPC_CHTTP2_PARSE_OK, p))"

definition GPR_CLAMP :: "u32 \<Rightarrow> u32 \<Rightarrow> u32 \<Rightarrow> u32" where
  "GPR_CLAMP a lo hi = (if a < lo then lo else if a > hi then hi else a)"

text \<open>A setting that has been read, from \<^verbatim>\<open>if (parser->id > 0\<close> on.\<close>

definition settings_apply ::
    "grpc_chttp2_transport_parsing \<Rightarrow> grpc_chttp2_settings_parser \<Rightarrow>
      grpc_chttp2_parse_error \<times> grpc_chttp2_transport_parsing \<times> grpc_chttp2_settings_parser" where
  "settings_apply tp p =
     (let i = unat (setting_id p) in
      if 0 < i \<and> i < GRPC_CHTTP2_NUM_SETTINGS then
        (let sp = grpc_chttp2_settings_parameters ! i; v = setting_value p in
         if (v < min_value sp \<or> v > max_value sp) \<and> invalid_value_behavior sp = GRPC_CHTTP2_DISCONNECT_ON_INVALID_VALUE
         then (GRPC_CHTTP2_CONNECTION_ERROR, tp, p)
         else
           (let v = (if v < min_value sp \<or> v > max_value sp then GPR_CLAMP v (min_value sp) (max_value sp) else v);
                old = incoming_settings p ! i;
                tp = (if i = GRPC_CHTTP2_SETTINGS_INITIAL_WINDOW_SIZE \<and> old \<noteq> v
                      then tp\<lparr>initial_window_update := uint v - uint old\<rparr> else tp) in
            (GRPC_CHTTP2_PARSE_OK, tp, p\<lparr>setting_value := v, incoming_settings := (incoming_settings p)[i := v]\<rparr>)))
      else (GRPC_CHTTP2_PARSE_OK, tp, p))"

text \<open>One byte; only the last of a setting can end the frame with an error.\<close>

definition settings_byte ::
    "grpc_chttp2_transport_parsing \<Rightarrow> grpc_chttp2_settings_parser \<Rightarrow> u8 \<Rightarrow>
      grpc_chttp2_parse_error \<times> grpc_chttp2_transport_parsing \<times> grpc_chttp2_settings_parser" where
  "settings_byte tp p c =
     (case sps_state p of
        GRPC_CHTTP2_SPS_ID0 \<Rightarrow>
          (GRPC_CHTTP2_PARSE_OK, tp, p\<lparr>setting_id := push_bit 8 (ucast c), sps_state := GRPC_CHTTP2_SPS_ID1\<rparr>)
      | GRPC_CHTTP2_SPS_ID1 \<Rightarrow>
          (GRPC_CHTTP2_PARSE_OK, tp, p\<lparr>setting_id := setting_id p OR ucast c, sps_state := GRPC_CHTTP2_SPS_VAL0\<rparr>)
      | GRPC_CHTTP2_SPS_VAL0 \<Rightarrow>
          (GRPC_CHTTP2_PARSE_OK, tp, p\<lparr>setting_value := push_bit 24 (ucast c), sps_state := GRPC_CHTTP2_SPS_VAL1\<rparr>)
      | GRPC_CHTTP2_SPS_VAL1 \<Rightarrow>
          (GRPC_CHTTP2_PARSE_OK, tp, p\<lparr>setting_value := setting_value p OR push_bit 16 (ucast c), sps_state := GRPC_CHTTP2_SPS_VAL2\<rparr>)
      | GRPC_CHTTP2_SPS_VAL2 \<Rightarrow>
          (GRPC_CHTTP2_PARSE_OK, tp, p\<lparr>setting_value := setting_value p OR push_bit 8 (ucast c), sps_state := GRPC_CHTTP2_SPS_VAL3\<rparr>)
      | GRPC_CHTTP2_SPS_VAL3 \<Rightarrow>
          settings_apply tp (p\<lparr>setting_value := setting_value p OR ucast c, sps_state := GRPC_CHTTP2_SPS_ID0\<rparr>))"

fun settings_loop ::
    "grpc_chttp2_transport_parsing \<Rightarrow> grpc_chttp2_settings_parser \<Rightarrow> bytes \<Rightarrow> bool \<Rightarrow>
      (grpc_chttp2_parse_error \<times> grpc_chttp2_transport_parsing) option" where
  "settings_loop tp p [] is_last =
     (if sps_state p = GRPC_CHTTP2_SPS_ID0 \<and> is_last then do {
        tp \<leftarrow> add_qbuf (tp\<lparr>simple := Simple_settings p, settings_updated := True, settings := incoming_settings p\<rparr>)
          grpc_chttp2_settings_ack_create;
        Some (GRPC_CHTTP2_PARSE_OK, tp)
      }
      else Some (GRPC_CHTTP2_PARSE_OK, tp\<lparr>simple := Simple_settings p\<rparr>))"
| "settings_loop tp p (c # cur) is_last =
     (case settings_byte tp p c of (err, tp, p) \<Rightarrow>
        if err = GRPC_CHTTP2_PARSE_OK then settings_loop tp p cur is_last
        else Some (err, tp\<lparr>simple := Simple_settings p\<rparr>))"

definition grpc_chttp2_settings_parser_parse ::
    "grpc_chttp2_transport_parsing \<Rightarrow> bytes \<Rightarrow> bool \<Rightarrow> (grpc_chttp2_parse_error \<times> grpc_chttp2_transport_parsing) option" where
  "grpc_chttp2_settings_parser_parse tp bs is_last =
     do {
       p \<leftarrow> simple_settings (simple tp);
       (if settings_is_ack p then Some (GRPC_CHTTP2_PARSE_OK, tp) else settings_loop tp p bs is_last)
     }"

end
