(* ===== verification/Transport_Parsing.thy ===== *)
theory Transport_Parsing
  imports Frame_Control
begin

text \<open>
  Reading from a connection, \<^verbatim>\<open>src/core/transport/chttp2/parsing.c\<close>, with
  \<^verbatim>\<open>grpc_chttp2_header_parser_parse\<close> of \<^verbatim>\<open>hpack_parser.c\<close> and the functions of
  \<^verbatim>\<open>chttp2_transport.c\<close> that find and accept streams: the connection is cut into frames, each
  frame begins with a check and the choice of a parser, and its payload is given to that
  parser slice by slice.
\<close>

section \<open>Surroundings\<close>

text \<open>
  What reading takes from elsewhere: the monotonic clock, the address of the stream object
  that the application creates when a stream is accepted, and the window announced for new
  streams. An application that creates none leaves the local variable \<open>accepting\<close> unset, and the
  code goes on with an address inside whatever it points to: the check for null that follows
  never holds, and the model aborts.
\<close>

record parsing_env =
  env_now :: gpr_timespec
  env_new_stream :: "u32 \<Rightarrow> stream_ref option"
  env_initial_window :: u32

definition grpc_chttp2_parsing_lookup_stream :: "grpc_chttp2_transport_parsing \<Rightarrow> u32 \<Rightarrow> stream_ref option option" where
  "grpc_chttp2_parsing_lookup_stream tp sid = grpc_chttp2_stream_map_find (parsing_stream_map tp) sid"

text \<open>The reading side of a stream after \<^verbatim>\<open>init_stream\<close>.\<close>

definition init_stream_parsing :: "u32 \<Rightarrow> grpc_chttp2_stream_parsing" where
  "init_stream_parsing window =
     \<lparr> parsing_id = 0, received_close = False, saw_rst_stream = False, s_incoming_window_delta = 0,
       s_incoming_window = window,
       data_parser = grpc_chttp2_data_parser_init
         \<lparr> data_state = GRPC_CHTTP2_DATA_FH_0, is_last_frame = False, data_frame_type = 0, data_frame_size = 0,
           is_frame_compressed = False, incoming_sopb = [] \<rparr>,
       rst_stream_reason = 0, s_outgoing_window_update = 0,
       parsing_metadata = grpc_chttp2_incoming_metadata_buffer_init \<rparr>"

text \<open>
  The reading side after \<^verbatim>\<open>init_transport\<close>, with the memory that \<^verbatim>\<open>memset\<close> has cleared: the
  pings stay as it left them.
\<close>

definition init_hpack_parser :: "parsing_streams grpc_chttp2_hpack_parser" where
  "init_hpack_parser =
     grpc_chttp2_hpack_parser_init
       \<lparr> on_header = on_header_not_set, on_header_user_data = None, state = Parse_begin, next_state = [],
         after_prioritization = Parse_begin, parsing = Parsing_index,
         key = \<lparr> str = [], string_length = 0, capacity = 0 \<rparr>, value = \<lparr> str = [], string_length = 0, capacity = 0 \<rparr>,
         index = 0, strlen = 0, strgot = 0, huff_state = 0, binary = NOT_BINARY, huff = 0, is_boundary = 0, is_eof = 0,
         base64_buffer = 0, table = grpc_chttp2_hptbl_init \<rparr>"

definition init_transport_parsing :: "bool \<Rightarrow> grpc_chttp2_transport_parsing option" where
  "init_transport_parsing client =
     do {
       m \<leftarrow> grpc_chttp2_stream_map_init 8;
       Some \<lparr> is_client = client, settings_updated = False, settings_ack_received = False, goaway_received = False,
         initial_window_update = 0, qbuf = gpr_slice_buffer_init, hpack_parser = init_hpack_parser,
         simple = Simple_window_update \<lparr> update_byte = 0, update_amount = 0 \<rparr>,
         goaway_parser = grpc_chttp2_goaway_parser_init \<lparr> goaway_state = GRPC_CHTTP2_GOAWAY_LSI0, last_stream_id = 0,
           error_code = 0, debug_data = None, debug_length = 0, debug_pos = 0 \<rparr>,
         incoming_window = 0, incoming_window_delta = 0, next_stream_id = 0, last_incoming_stream_id = 0,
         deframe_state = (if client then GRPC_DTS_FH_0 else GRPC_DTS_CLIENT_PREFIX 0),
         incoming_frame_type = 0, incoming_frame_flags = 0, header_eof = False, expect_continuation_stream_id = 0,
         incoming_frame_size = 0, incoming_stream_id = 0, parser = None,
         settings = map default_value grpc_chttp2_settings_parameters,
         goaway_error = 0, goaway_last_stream_index = 0, goaway_text = Inlined [], outgoing_window_update = 0, pings = None,
         streams = \<lparr> stream_parsing = (\<lambda>_. init_stream_parsing 0), parsing_lists = stream_lists_init, incoming_stream = None \<rparr>,
         parsing_stream_map = m \<rparr>
     }"

definition grpc_chttp2_parsing_accept_stream ::
    "parsing_env \<Rightarrow> grpc_chttp2_transport_parsing \<Rightarrow> u32 \<Rightarrow> (stream_ref \<times> grpc_chttp2_transport_parsing) option" where
  "grpc_chttp2_parsing_accept_stream env tp sid =
     do {
       s \<leftarrow> env_new_stream env sid;
       l \<leftarrow> grpc_chttp2_register_stream (parsing_lists (streams tp)) s;
       m \<leftarrow> grpc_chttp2_stream_map_add (parsing_stream_map tp) sid (Some s);
       let tp = put_stream (tp\<lparr>parsing_stream_map := m\<rparr>) s (init_stream_parsing (env_initial_window env));
       Some (s, tp\<lparr>streams := (streams tp)\<lparr>parsing_lists := l\<rparr>\<rparr>)
     }"

section \<open>Header blocks\<close>

definition TIMEOUT_HEADER :: bytes where
  "TIMEOUT_HEADER = bytes_of_string ''grpc-timeout''"

text \<open>A parsed timeout is kept with its element, so parsing it again gives the same.\<close>

definition on_header :: "parsing_env \<Rightarrow> parsing_streams option \<Rightarrow> grpc_mdelem \<Rightarrow> parsing_streams option option" where
  "on_header env user_data md =
     do {
       st \<leftarrow> user_data;
       s \<leftarrow> incoming_stream st;
       let x = stream_parsing st s;
       x \<leftarrow> (if md_key md = TIMEOUT_HEADER then do {
                (deadline, t) \<leftarrow> on_header_timeout (env_now env) None (takeWhile (\<lambda>c. c \<noteq> 0) (md_value md));
                Some (x\<lparr>parsing_metadata := grpc_chttp2_incoming_metadata_buffer_set_deadline (parsing_metadata x) deadline\<rparr>)
              }
              else Some (x\<lparr>parsing_metadata := grpc_chttp2_incoming_metadata_buffer_add (parsing_metadata x) md\<rparr>));
       l \<leftarrow> grpc_chttp2_list_add_parsing_seen_stream (parsing_lists st) s;
       Some (Some (st\<lparr>stream_parsing := (stream_parsing st)(s := x), parsing_lists := l\<rparr>))
     }"

definition skip_header :: "parsing_streams option \<Rightarrow> grpc_mdelem \<Rightarrow> parsing_streams option option" where
  "skip_header user_data md = Some user_data"

text \<open>
  The user data of the callback is the transport itself: the streams are handed to the parser
  with each slice and taken back after it.
\<close>

definition with_user_data :: "grpc_chttp2_transport_parsing \<Rightarrow> parsing_streams grpc_chttp2_hpack_parser" where
  "with_user_data tp =
     (let p = hpack_parser tp in
      case on_header_user_data p of None \<Rightarrow> p | Some _ \<Rightarrow> p\<lparr>on_header_user_data := Some (streams tp)\<rparr>)"

definition take_user_data ::
    "grpc_chttp2_transport_parsing \<Rightarrow> parsing_streams grpc_chttp2_hpack_parser \<Rightarrow> grpc_chttp2_transport_parsing" where
  "take_user_data tp p =
     (let tp = tp\<lparr>hpack_parser := p\<rparr> in
      case on_header_user_data p of None \<Rightarrow> tp | Some st \<Rightarrow> tp\<lparr>streams := st\<rparr>)"

definition grpc_chttp2_header_parser_parse ::
    "grpc_chttp2_transport_parsing \<Rightarrow> stream_ref option \<Rightarrow> bytes \<Rightarrow> bool \<Rightarrow>
      (grpc_chttp2_parse_error \<times> grpc_chttp2_transport_parsing) option" where
  "grpc_chttp2_header_parser_parse tp stream bs is_last =
     (case grpc_chttp2_hpack_parser_parse (with_user_data tp) bs of
        Inl fault \<Rightarrow> None
      | Inr (ok, p) \<Rightarrow>
          (let tp = take_user_data tp p in
           if \<not> ok then Some (GRPC_CHTTP2_CONNECTION_ERROR, tp)
           else if \<not> is_last then Some (GRPC_CHTTP2_PARSE_OK, tp)
           else if is_boundary p \<noteq> 0 \<and> state p \<noteq> Parse_begin then Some (GRPC_CHTTP2_CONNECTION_ERROR, tp)
           else do {
             tp \<leftarrow> (if is_boundary p \<noteq> 0 then do {
                      s \<leftarrow> stream;
                      let x = get_stream tp s;
                      let (b, sopb) = grpc_chttp2_incoming_metadata_buffer_place_metadata_batch_into
                        (parsing_metadata x) (incoming_sopb (data_parser x));
                      add_seen (put_stream tp s
                        (x\<lparr>parsing_metadata := b, data_parser := (data_parser x)\<lparr>incoming_sopb := sopb\<rparr>\<rparr>)) s
                    }
                    else Some tp);
             tp \<leftarrow> (if is_eof p \<noteq> 0 then do {
                      s \<leftarrow> stream;
                      Some (put_stream tp s ((get_stream tp s)\<lparr>received_close := True\<rparr>))
                    }
                    else Some tp);
             Some (GRPC_CHTTP2_PARSE_OK,
               tp\<lparr>hpack_parser := p\<lparr>on_header := on_header_not_set, on_header_user_data := None,
                 is_boundary := 0xde, is_eof := 0xde\<rparr>\<rparr>)
           }))"

section \<open>The beginning of a frame\<close>

text \<open>
  Each function gives whether reading may go on. What is skipped in a header block is still
  decoded, as it changes the table; \<open>is_eoh\<close> is as the code computes it.
\<close>

definition of_flag :: "bool \<Rightarrow> u8" where
  "of_flag b = (if b then 1 else 0)"

definition init_skip_frame_parser :: "grpc_chttp2_transport_parsing \<Rightarrow> bool \<Rightarrow> grpc_chttp2_transport_parsing" where
  "init_skip_frame_parser tp is_header =
     (if is_header then
        (let is_eoh = (expect_continuation_stream_id tp \<noteq> 0) in
         tp\<lparr>parser := Some Header_parser,
            hpack_parser := (hpack_parser tp)\<lparr>on_header := skip_header, on_header_user_data := None,
              is_boundary := of_flag is_eoh, is_eof := (if is_eoh then of_flag (header_eof tp) else 0)\<rparr>\<rparr>)
      else tp\<lparr>parser := Some Skip_parser\<rparr>)"

definition grpc_chttp2_parsing_become_skip_parser :: "grpc_chttp2_transport_parsing \<Rightarrow> grpc_chttp2_transport_parsing" where
  "grpc_chttp2_parsing_become_skip_parser tp = init_skip_frame_parser tp (parser tp = Some Header_parser)"

definition update_incoming_window ::
    "grpc_chttp2_transport_parsing \<Rightarrow> stream_ref \<Rightarrow> (grpc_chttp2_parse_error \<times> grpc_chttp2_transport_parsing) option" where
  "update_incoming_window tp s =
     (let x = get_stream tp s; n = incoming_frame_size tp in
      if n > incoming_window tp then Some (GRPC_CHTTP2_CONNECTION_ERROR, tp)
      else if n > s_incoming_window x then Some (GRPC_CHTTP2_CONNECTION_ERROR, tp)
      else do {
        tp \<leftarrow> add_seen (put_stream (tp\<lparr>incoming_window := incoming_window tp - n,
             incoming_window_delta := incoming_window_delta tp + n\<rparr>) s
           (x\<lparr>s_incoming_window := s_incoming_window x - n, s_incoming_window_delta := s_incoming_window_delta x + n\<rparr>)) s;
        Some (GRPC_CHTTP2_PARSE_OK, tp)
      })"

definition GRPC_CHTTP2_PROTOCOL_ERROR :: u32 where "GRPC_CHTTP2_PROTOCOL_ERROR = 1"

definition init_data_frame_parser :: "grpc_chttp2_transport_parsing \<Rightarrow> (bool \<times> grpc_chttp2_transport_parsing) option" where
  "init_data_frame_parser tp =
     do {
       st \<leftarrow> grpc_chttp2_parsing_lookup_stream tp (incoming_stream_id tp);
       (case st of
          None \<Rightarrow> Some (True, init_skip_frame_parser tp False)
        | Some s \<Rightarrow>
            if received_close (get_stream tp s) then Some (True, init_skip_frame_parser tp False)
            else do {
              (err, tp) \<leftarrow> update_incoming_window tp s;
              let (err, tp) =
                (if err = GRPC_CHTTP2_PARSE_OK then
                   (let x = get_stream tp s;
                        (err, d) = grpc_chttp2_data_parser_begin_frame (data_parser x) (incoming_frame_flags tp) in
                    (err, put_stream tp s (x\<lparr>data_parser := d\<rparr>)))
                 else (err, tp));
              (case err of
                 GRPC_CHTTP2_PARSE_OK \<Rightarrow> Some (True, (set_incoming_stream tp (Some s))\<lparr>parser := Some Data_parser\<rparr>)
               | GRPC_CHTTP2_STREAM_ERROR \<Rightarrow> do {
                   let tp = put_stream tp s ((get_stream tp s)\<lparr>received_close := True, saw_rst_stream := True,
                     rst_stream_reason := GRPC_CHTTP2_PROTOCOL_ERROR\<rparr>);
                   tp \<leftarrow> add_qbuf tp (grpc_chttp2_rst_stream_create (incoming_stream_id tp) GRPC_CHTTP2_PROTOCOL_ERROR);
                   Some (True, init_skip_frame_parser tp False)
                 }
               | GRPC_CHTTP2_CONNECTION_ERROR \<Rightarrow> Some (False, tp))
            })
     }"

definition GRPC_CHTTP2_FLAG_HAS_PRIORITY :: u8 where "GRPC_CHTTP2_FLAG_HAS_PRIORITY = 0x20"

text \<open>The part of \<open>init_header_frame_parser\<close> after the stream has been found or accepted.\<close>

definition init_header_stream ::
    "parsing_env \<Rightarrow> grpc_chttp2_transport_parsing \<Rightarrow> bool \<Rightarrow> stream_ref \<Rightarrow> bool \<times> grpc_chttp2_transport_parsing" where
  "init_header_stream env tp is_continuation s =
     (let is_eoh = (incoming_frame_flags tp AND GRPC_CHTTP2_DATA_FLAG_END_HEADERS \<noteq> 0) in
      if received_close (get_stream tp s)
      then (True, init_skip_frame_parser (set_incoming_stream tp None) True)
      else
        (let p = (hpack_parser tp)\<lparr>on_header := on_header env, on_header_user_data := Some (streams tp),
               is_boundary := of_flag is_eoh, is_eof := (if is_eoh then of_flag (header_eof tp) else 0)\<rparr>;
             p = (if \<not> is_continuation \<and> incoming_frame_flags tp AND GRPC_CHTTP2_FLAG_HAS_PRIORITY \<noteq> 0
                  then grpc_chttp2_hpack_parser_set_has_priority p else p) in
         (True, tp\<lparr>parser := Some Header_parser, hpack_parser := p\<rparr>)))"

definition init_header_frame_parser ::
    "parsing_env \<Rightarrow> grpc_chttp2_transport_parsing \<Rightarrow> bool \<Rightarrow> (bool \<times> grpc_chttp2_transport_parsing) option" where
  "init_header_frame_parser env tp is_continuation =
     (let is_eoh = (incoming_frame_flags tp AND GRPC_CHTTP2_DATA_FLAG_END_HEADERS \<noteq> 0);
          tp = tp\<lparr>expect_continuation_stream_id := (if is_eoh then 0 else incoming_stream_id tp)\<rparr>;
          tp = (if is_continuation then tp
                else tp\<lparr>header_eof := (incoming_frame_flags tp AND GRPC_CHTTP2_DATA_FLAG_END_STREAM \<noteq> 0)\<rparr>) in
      do {
        st \<leftarrow> grpc_chttp2_parsing_lookup_stream tp (incoming_stream_id tp);
        (case st of
           Some s \<Rightarrow> Some (init_header_stream env (set_incoming_stream tp (Some s)) is_continuation s)
         | None \<Rightarrow>
             if is_continuation then Some (True, init_skip_frame_parser tp True)
             else if is_client tp then Some (True, init_skip_frame_parser tp True)
             else if last_incoming_stream_id tp > incoming_stream_id tp then Some (True, init_skip_frame_parser tp True)
             else if incoming_stream_id tp AND 1 = 0 then Some (True, init_skip_frame_parser tp True)
             else do {
               (s, tp) \<leftarrow> grpc_chttp2_parsing_accept_stream env tp (incoming_stream_id tp);
               Some (init_header_stream env (set_incoming_stream tp (Some s)) is_continuation s)
             })
      })"

definition init_window_update_frame_parser ::
    "grpc_chttp2_transport_parsing \<Rightarrow> (bool \<times> grpc_chttp2_transport_parsing) option" where
  "init_window_update_frame_parser tp =
     do {
       let r = grpc_chttp2_window_update_parser_begin_frame (incoming_frame_size tp) (incoming_frame_flags tp);
       let tp = (case r of Some p \<Rightarrow> tp\<lparr>simple := Simple_window_update p\<rparr> | None \<Rightarrow> tp);
       tp \<leftarrow> (if incoming_stream_id tp \<noteq> 0 then do {
                st \<leftarrow> grpc_chttp2_parsing_lookup_stream tp (incoming_stream_id tp);
                Some (set_incoming_stream tp st)
              }
              else Some tp);
       Some (r \<noteq> None, tp\<lparr>parser := Some Window_update_parser\<rparr>)
     }"

definition init_ping_parser :: "grpc_chttp2_transport_parsing \<Rightarrow> bool \<times> grpc_chttp2_transport_parsing" where
  "init_ping_parser tp =
     (let r = grpc_chttp2_ping_parser_begin_frame (incoming_frame_size tp) (incoming_frame_flags tp);
          tp = (case r of Some p \<Rightarrow> tp\<lparr>simple := Simple_ping p\<rparr> | None \<Rightarrow> tp) in
      (r \<noteq> None, tp\<lparr>parser := Some Ping_parser\<rparr>))"

definition init_rst_stream_parser :: "grpc_chttp2_transport_parsing \<Rightarrow> (bool \<times> grpc_chttp2_transport_parsing) option" where
  "init_rst_stream_parser tp =
     do {
       let r = grpc_chttp2_rst_stream_parser_begin_frame (incoming_frame_size tp) (incoming_frame_flags tp);
       let tp = (case r of Some p \<Rightarrow> tp\<lparr>simple := Simple_rst_stream p\<rparr> | None \<Rightarrow> tp);
       st \<leftarrow> grpc_chttp2_parsing_lookup_stream tp (incoming_stream_id tp);
       let tp = set_incoming_stream tp st;
       (if st = None then Some (True, init_skip_frame_parser tp False)
        else Some (r \<noteq> None, tp\<lparr>parser := Some Rst_stream_parser\<rparr>))
     }"

definition init_goaway_parser :: "grpc_chttp2_transport_parsing \<Rightarrow> bool \<times> grpc_chttp2_transport_parsing" where
  "init_goaway_parser tp =
     (let r = grpc_chttp2_goaway_parser_begin_frame (goaway_parser tp) (incoming_frame_size tp) (incoming_frame_flags tp);
          tp = (case r of Some p \<Rightarrow> tp\<lparr>goaway_parser := p\<rparr> | None \<Rightarrow> tp) in
      (r \<noteq> None, tp\<lparr>parser := Some Goaway_parser\<rparr>))"

definition init_settings_frame_parser :: "grpc_chttp2_transport_parsing \<Rightarrow> bool \<times> grpc_chttp2_transport_parsing" where
  "init_settings_frame_parser tp =
     (if incoming_stream_id tp \<noteq> 0 then (False, tp)
      else
        (let (err, p) = grpc_chttp2_settings_parser_begin_frame (incoming_frame_size tp) (incoming_frame_flags tp) (settings tp);
             tp = tp\<lparr>simple := Simple_settings p\<rparr> in
         if err \<noteq> GRPC_CHTTP2_PARSE_OK then (False, tp)
         else
           (let tp = (if incoming_frame_flags tp AND GRPC_CHTTP2_FLAG_ACK \<noteq> 0 then tp\<lparr>settings_ack_received := True\<rparr> else tp) in
            (True, tp\<lparr>parser := Some Settings_parser\<rparr>))))"

definition init_frame_parser ::
    "parsing_env \<Rightarrow> grpc_chttp2_transport_parsing \<Rightarrow> (bool \<times> grpc_chttp2_transport_parsing) option" where
  "init_frame_parser env tp =
     (let typ = incoming_frame_type tp in
      if expect_continuation_stream_id tp \<noteq> 0 then
        (if typ \<noteq> GRPC_CHTTP2_FRAME_CONTINUATION then Some (False, tp)
         else if expect_continuation_stream_id tp \<noteq> incoming_stream_id tp then Some (False, tp)
         else init_header_frame_parser env tp True)
      else if typ = GRPC_CHTTP2_FRAME_DATA then init_data_frame_parser tp
      else if typ = GRPC_CHTTP2_FRAME_HEADER then init_header_frame_parser env tp False
      else if typ = GRPC_CHTTP2_FRAME_CONTINUATION then Some (False, tp)
      else if typ = GRPC_CHTTP2_FRAME_RST_STREAM then init_rst_stream_parser tp
      else if typ = GRPC_CHTTP2_FRAME_SETTINGS then Some (init_settings_frame_parser tp)
      else if typ = GRPC_CHTTP2_FRAME_WINDOW_UPDATE then init_window_update_frame_parser tp
      else if typ = GRPC_CHTTP2_FRAME_PING then Some (init_ping_parser tp)
      else if typ = GRPC_CHTTP2_FRAME_GOAWAY then Some (init_goaway_parser tp)
      else Some (True, init_skip_frame_parser tp False))"

section \<open>The payload of a frame\<close>

text \<open>The call through the function pointer \<open>parser\<close>.\<close>

definition call_parser ::
    "grpc_chttp2_transport_parsing \<Rightarrow> stream_ref option \<Rightarrow> gpr_slice \<Rightarrow> bool \<Rightarrow>
      (grpc_chttp2_parse_error \<times> grpc_chttp2_transport_parsing) option" where
  "call_parser tp stream sl is_last =
     do {
       f \<leftarrow> parser tp;
       (case f of
          Skip_parser \<Rightarrow> Some (GRPC_CHTTP2_PARSE_OK, tp)
        | Header_parser \<Rightarrow> grpc_chttp2_header_parser_parse tp stream (slice_bytes sl) is_last
        | Data_parser \<Rightarrow> do {
            s \<leftarrow> stream;
            (err, l, x) \<leftarrow> grpc_chttp2_data_parser_parse (parsing_lists (streams tp)) s (get_stream tp s) sl is_last;
            let tp = put_stream tp s x;
            Some (err, tp\<lparr>streams := (streams tp)\<lparr>parsing_lists := l\<rparr>\<rparr>)
          }
        | Rst_stream_parser \<Rightarrow> grpc_chttp2_rst_stream_parser_parse tp stream (slice_bytes sl) is_last
        | Settings_parser \<Rightarrow> grpc_chttp2_settings_parser_parse tp (slice_bytes sl) is_last
        | Window_update_parser \<Rightarrow> grpc_chttp2_window_update_parser_parse tp stream (slice_bytes sl) is_last
        | Ping_parser \<Rightarrow> grpc_chttp2_ping_parser_parse tp (slice_bytes sl) is_last
        | Goaway_parser \<Rightarrow> grpc_chttp2_goaway_parser_parse tp (slice_bytes sl) is_last)
     }"

definition parse_frame_slice ::
    "grpc_chttp2_transport_parsing \<Rightarrow> gpr_slice \<Rightarrow> bool \<Rightarrow> (bool \<times> grpc_chttp2_transport_parsing) option" where
  "parse_frame_slice tp sl is_last =
     do {
       let stream = incoming_stream (streams tp);
       (err, tp) \<leftarrow> call_parser tp stream sl is_last;
       (case err of
          GRPC_CHTTP2_PARSE_OK \<Rightarrow>
            (case stream of
               Some s \<Rightarrow> do { tp \<leftarrow> add_seen tp s; Some (True, tp) }
             | None \<Rightarrow> Some (True, tp))
        | GRPC_CHTTP2_STREAM_ERROR \<Rightarrow> do {
            let tp = grpc_chttp2_parsing_become_skip_parser tp;
            (case stream of
               Some s \<Rightarrow> do {
                 let tp = put_stream tp s ((get_stream tp s)\<lparr>saw_rst_stream := True,
                   rst_stream_reason := GRPC_CHTTP2_PROTOCOL_ERROR\<rparr>);
                 tp \<leftarrow> add_qbuf tp (grpc_chttp2_rst_stream_create (incoming_stream_id tp) GRPC_CHTTP2_PROTOCOL_ERROR);
                 Some (True, tp)
               }
             | None \<Rightarrow> Some (True, tp))
          }
        | GRPC_CHTTP2_CONNECTION_ERROR \<Rightarrow> Some (False, tp))
     }"

section \<open>The connection\<close>

definition GRPC_CHTTP2_CLIENT_CONNECT_STRING :: bytes where
  "GRPC_CHTTP2_CLIENT_CONNECT_STRING =
     bytes_of_string ''PRI * HTTP/2.0'' @ [13, 10, 13, 10] @ bytes_of_string ''SM'' @ [13, 10, 13, 10]"

fun deframe_rank :: "grpc_chttp2_deframe_transport_state \<Rightarrow> nat" where
  "deframe_rank GRPC_DTS_FRAME = 1"
| "deframe_rank _ = 0"

definition slice_from :: "nat \<Rightarrow> gpr_slice \<Rightarrow> gpr_slice" where
  "slice_from n sl = (case sl of Inlined bs \<Rightarrow> Inlined (drop n bs) | Refcounted bs \<Rightarrow> Refcounted (drop n bs))"

lemma slice_bytes_from [simp]: "slice_bytes (slice_from n sl) = drop n (slice_bytes sl)"
  by (cases sl) (auto simp: slice_from_def)

text \<open>
  \<open>sl\<close> is the slice from the byte \<open>cur\<close> on. The code falls through from one byte of the frame
  header to the next and stores the state when the slice ends; here it is stored with each
  byte, as nothing reads it in between.
\<close>

function grpc_chttp2_perform_read ::
    "parsing_env \<Rightarrow> grpc_chttp2_transport_parsing \<Rightarrow> gpr_slice \<Rightarrow> (bool \<times> grpc_chttp2_transport_parsing) option" where
  "grpc_chttp2_perform_read env tp sl =
     (case slice_bytes sl of
        [] \<Rightarrow> Some (True, tp)
      | byte # _ \<Rightarrow>
          (case deframe_state tp of
             GRPC_DTS_CLIENT_PREFIX n \<Rightarrow> do {
               c \<leftarrow> c_read GRPC_CHTTP2_CLIENT_CONNECT_STRING n;
               (if byte \<noteq> c then Some (False, tp)
                else grpc_chttp2_perform_read env
                  (tp\<lparr>deframe_state := (if n + 1 = 24 then GRPC_DTS_FH_0 else GRPC_DTS_CLIENT_PREFIX (n + 1))\<rparr>) (slice_from 1 sl))
             }
           | GRPC_DTS_FH_0 \<Rightarrow> grpc_chttp2_perform_read env
               (tp\<lparr>incoming_frame_size := push_bit 16 (ucast byte), deframe_state := GRPC_DTS_FH_1\<rparr>) (slice_from 1 sl)
           | GRPC_DTS_FH_1 \<Rightarrow> grpc_chttp2_perform_read env
               (tp\<lparr>incoming_frame_size := incoming_frame_size tp OR push_bit 8 (ucast byte), deframe_state := GRPC_DTS_FH_2\<rparr>)
               (slice_from 1 sl)
           | GRPC_DTS_FH_2 \<Rightarrow> grpc_chttp2_perform_read env
               (tp\<lparr>incoming_frame_size := incoming_frame_size tp OR ucast byte, deframe_state := GRPC_DTS_FH_3\<rparr>) (slice_from 1 sl)
           | GRPC_DTS_FH_3 \<Rightarrow> grpc_chttp2_perform_read env
               (tp\<lparr>incoming_frame_type := byte, deframe_state := GRPC_DTS_FH_4\<rparr>) (slice_from 1 sl)
           | GRPC_DTS_FH_4 \<Rightarrow> grpc_chttp2_perform_read env
               (tp\<lparr>incoming_frame_flags := byte, deframe_state := GRPC_DTS_FH_5\<rparr>) (slice_from 1 sl)
           | GRPC_DTS_FH_5 \<Rightarrow> grpc_chttp2_perform_read env
               (tp\<lparr>incoming_stream_id := push_bit 24 (ucast byte AND 0x7f), deframe_state := GRPC_DTS_FH_6\<rparr>) (slice_from 1 sl)
           | GRPC_DTS_FH_6 \<Rightarrow> grpc_chttp2_perform_read env
               (tp\<lparr>incoming_stream_id := incoming_stream_id tp OR push_bit 16 (ucast byte), deframe_state := GRPC_DTS_FH_7\<rparr>)
               (slice_from 1 sl)
           | GRPC_DTS_FH_7 \<Rightarrow> grpc_chttp2_perform_read env
               (tp\<lparr>incoming_stream_id := incoming_stream_id tp OR push_bit 8 (ucast byte), deframe_state := GRPC_DTS_FH_8\<rparr>)
               (slice_from 1 sl)
           | GRPC_DTS_FH_8 \<Rightarrow> do {
               (ok, tp) \<leftarrow> init_frame_parser env
                 (tp\<lparr>incoming_stream_id := incoming_stream_id tp OR ucast byte, deframe_state := GRPC_DTS_FRAME\<rparr>);
               let tp = (if ok \<and> incoming_stream_id tp \<noteq> 0 then tp\<lparr>last_incoming_stream_id := incoming_stream_id tp\<rparr> else tp);
               (if \<not> ok then Some (False, tp)
                else if incoming_frame_size tp = 0 then do {
                  (ok, tp) \<leftarrow> parse_frame_slice tp gpr_empty_slice True;
                  (if \<not> ok then Some (False, tp)
                   else grpc_chttp2_perform_read env ((set_incoming_stream tp None)\<lparr>deframe_state := GRPC_DTS_FH_0\<rparr>) (slice_from 1 sl))
                }
                else grpc_chttp2_perform_read env (tp\<lparr>deframe_state := GRPC_DTS_FRAME\<rparr>) (slice_from 1 sl))
             }
           | GRPC_DTS_FRAME \<Rightarrow>
               (let n = word_of_nat (GPR_SLICE_LENGTH sl) in
                if n = incoming_frame_size tp then do {
                  (ok, tp) \<leftarrow> parse_frame_slice tp sl True;
                  (if \<not> ok then Some (False, tp)
                   else Some (True, (set_incoming_stream tp None)\<lparr>deframe_state := GRPC_DTS_FH_0\<rparr>))
                }
                else if n > incoming_frame_size tp then do {
                  let size = unat (incoming_frame_size tp);
                  part \<leftarrow> gpr_slice_sub_no_ref sl 0 size;
                  (ok, tp) \<leftarrow> parse_frame_slice tp part True;
                  (if \<not> ok then Some (False, tp)
                   else grpc_chttp2_perform_read env ((set_incoming_stream tp None)\<lparr>deframe_state := GRPC_DTS_FH_0\<rparr>) (slice_from size sl))
                }
                else do {
                  (ok, tp) \<leftarrow> parse_frame_slice tp sl False;
                  (if \<not> ok then Some (False, tp)
                   else Some (True, tp\<lparr>incoming_frame_size := incoming_frame_size tp - n\<rparr>))
                })))"
  by auto
termination
  by (relation "measure (\<lambda>(env, tp, sl). 2 * length (slice_bytes sl) + deframe_rank (deframe_state tp))") auto

declare grpc_chttp2_perform_read.simps [simp del]

text \<open>A client has sent its preface before it reads, and is between two frames.\<close>

definition quiet_env :: parsing_env where
  "quiet_env = \<lparr> env_now = \<lparr> tv_sec = 0, tv_nsec = 0, clock_type = GPR_CLOCK_MONOTONIC \<rparr>,
     env_new_stream = (\<lambda>_. None), env_initial_window = 65535 \<rparr>"

lemma client_connected:
  obtains tp where "init_transport_parsing True = Some tp" "deframe_state tp = GRPC_DTS_FH_0" "is_client tp"
    "incoming_stream (streams tp) = None" "expect_continuation_stream_id tp = 0" "pings tp = None"
    "qbuf tp = gpr_slice_buffer_init" "settings tp = map default_value grpc_chttp2_settings_parameters"
    "initial_window_update tp = 0" "state (hpack_parser tp) = Parse_begin" "grpc_chttp2_parsing_lookup_stream tp 1 = Some None"
proof -
  obtain tp where tp: "init_transport_parsing True = Some tp"
    by (simp add: init_transport_parsing_def grpc_chttp2_stream_map_init_def gpr_assert_def)
  then have "parsing_stream_map tp = \<lparr> sm_keys = replicate 8 0, sm_values = replicate 8 None,
      sm_count = 0, sm_free = 0, sm_capacity = 8 \<rparr>"
    by (auto simp: init_transport_parsing_def grpc_chttp2_stream_map_init_def gpr_assert_def)
  then have "grpc_chttp2_parsing_lookup_stream tp 1 = Some None"
    by (simp add: grpc_chttp2_parsing_lookup_stream_def grpc_chttp2_stream_map_find_def stream_map_slot_def)
  with tp show thesis
    by (intro that[of tp]) (auto simp: init_transport_parsing_def grpc_chttp2_stream_map_init_def gpr_assert_def
        init_hpack_parser_def grpc_chttp2_hpack_parser_init_def)
qed

lemma empty_buffer: "slice_buffer_ok gpr_slice_buffer_init" "buffer_bytes gpr_slice_buffer_init = []"
  by (simp_all add: slice_buffer_ok_def buffer_bytes_def gpr_slice_buffer_init_def GRPC_SLICE_BUFFER_INLINE_ELEMENTS_def)

end
