(* ===== verification/Transport_Frames.thy ===== *)
theory Transport_Frames
  imports Transport_Parsing
begin

text \<open>
  Reading is deframing: however the bytes of a connection are cut into slices, reading them is
  reading the frames one by one, each from its header and the pieces of its payload.
\<close>

section \<open>Reading slices\<close>

fun perform_reads ::
    "parsing_env \<Rightarrow> grpc_chttp2_transport_parsing \<Rightarrow> gpr_slice list \<Rightarrow> (bool \<times> grpc_chttp2_transport_parsing) option" where
  "perform_reads env tp [] = Some (True, tp)"
| "perform_reads env tp (sl # sls) =
     do {
       (ok, tp) \<leftarrow> grpc_chttp2_perform_read env tp sl;
       (if ok then perform_reads env tp sls else Some (False, tp))
     }"

section \<open>What a frame does not touch\<close>

text \<open>
  Neither the beginning of a frame nor its payload changes what deframing keeps, nor the list of
  pings.
\<close>

definition same_frame :: "grpc_chttp2_transport_parsing \<Rightarrow> grpc_chttp2_transport_parsing \<Rightarrow> bool" where
  "same_frame tp tp' \<longleftrightarrow> deframe_state tp' = deframe_state tp \<and> incoming_frame_size tp' = incoming_frame_size tp \<and>
     pings tp' = pings tp"

lemma same_frame_refl [simp]: "same_frame tp tp" by (simp add: same_frame_def)

lemma same_frame_trans: "same_frame a b \<Longrightarrow> same_frame b c \<Longrightarrow> same_frame a c" by (simp add: same_frame_def)

lemma same_frame_add_qbuf: "add_qbuf tp sl = Some tp' \<Longrightarrow> same_frame tp tp'"
  by (auto simp: add_qbuf_def same_frame_def split: Option.bind_splits)

lemma same_frame_add_seen: "add_seen tp s = Some tp' \<Longrightarrow> same_frame tp tp'"
  by (auto simp: add_seen_def same_frame_def split: Option.bind_splits)

lemma same_frame_settings_byte: "settings_byte tp p c = (err, tp', p') \<Longrightarrow> same_frame tp tp'"
  by (auto simp: settings_byte_def settings_apply_def same_frame_def Let_def split: grpc_chttp2_settings_parse_state.splits if_splits)

lemma same_frame_settings_loop: "settings_loop tp p bs is_last = Some (err, tp') \<Longrightarrow> same_frame tp tp'"
proof (induction tp p bs is_last rule: settings_loop.induct)
  case (1 tp p is_last)
  then show ?case
    by (auto dest!: same_frame_add_qbuf simp: same_frame_def split: if_splits Option.bind_splits)
next
  case (2 tp p c cur is_last)
  obtain err1 tp1 p1 where b: "settings_byte tp p c = (err1, tp1, p1)" by (cases "settings_byte tp p c")
  from same_frame_settings_byte[OF b] 2 b show ?case
    by (cases "err1 = GRPC_CHTTP2_PARSE_OK") (auto simp: same_frame_def)
qed

lemma same_frame_goaway: "grpc_chttp2_goaway_parser_parse tp bs is_last = Some (err, tp') \<Longrightarrow> same_frame tp tp'"
proof (induction tp bs is_last rule: grpc_chttp2_goaway_parser_parse.induct)
  case (1 tp is_last)
  then show ?case by (auto simp: goaway_debug_def same_frame_def Let_def gpr_assert_def split: if_splits Option.bind_splits)
next
  case (2 tp c cur is_last)
  then show ?case
    by (cases "goaway_state (goaway_parser tp) = GRPC_CHTTP2_GOAWAY_DEBUG")
       (auto simp: goaway_debug_def same_frame_def Let_def gpr_assert_def simp del: goaway_parser_byte.simps split: if_splits Option.bind_splits)
qed

lemma same_frame_put_stream [simp]: "same_frame tp (put_stream tp' s x) \<longleftrightarrow> same_frame tp tp'"
  by (simp add: same_frame_def put_stream_def)

lemma same_frame_header_parser:
  "grpc_chttp2_header_parser_parse tp stream bs is_last = Some (err, tp') \<Longrightarrow> same_frame tp tp'"
  by (auto dest!: same_frame_add_seen simp: grpc_chttp2_header_parser_parse_def take_user_data_def same_frame_def Let_def
      put_stream_def split: sum.splits option.splits prod.splits if_splits Option.bind_splits)

lemma same_frame_call_parser: "call_parser tp stream sl is_last = Some (err, tp') \<Longrightarrow> same_frame tp tp'"
proof (cases "parser tp")
  case (Some f)
  assume c: "call_parser tp stream sl is_last = Some (err, tp')"
  show ?thesis
  proof (cases f)
    case Window_update_parser
    with c Some show ?thesis
      by (auto dest!: same_frame_add_seen simp: call_parser_def grpc_chttp2_window_update_parser_parse_def same_frame_def Let_def
          put_stream_def gpr_assert_def split: if_splits Option.bind_splits option.splits)
  next
    case Rst_stream_parser
    with c Some show ?thesis
      by (auto simp: call_parser_def grpc_chttp2_rst_stream_parser_parse_def same_frame_def Let_def
          put_stream_def gpr_assert_def split: if_splits Option.bind_splits option.splits)
  next
    case Ping_parser
    with c Some show ?thesis
      by (auto dest!: same_frame_add_qbuf simp: call_parser_def grpc_chttp2_ping_parser_parse_def same_frame_def Let_def
          put_stream_def gpr_assert_def split: if_splits Option.bind_splits option.splits)
  next
    case Settings_parser
    with c Some show ?thesis
      by (auto dest!: same_frame_settings_loop simp: call_parser_def grpc_chttp2_settings_parser_parse_def
          split: if_splits Option.bind_splits)
  next
    case Data_parser
    with c Some show ?thesis
      by (auto simp: call_parser_def same_frame_def put_stream_def Let_def split: Option.bind_splits)
  qed (use c Some same_frame_goaway same_frame_header_parser in \<open>auto simp: call_parser_def same_frame_def\<close>)
qed (simp add: call_parser_def)

lemma same_frame_parse_frame_slice:
  assumes "parse_frame_slice tp sl is_last = Some (ok, tp')"
  shows "same_frame tp tp'"
proof -
  have skip: "same_frame tp (grpc_chttp2_parsing_become_skip_parser tp1) \<longleftrightarrow> same_frame tp tp1" for tp1
    by (simp add: grpc_chttp2_parsing_become_skip_parser_def init_skip_frame_parser_def same_frame_def Let_def)
  obtain err tp1 where c: "call_parser tp (incoming_stream (streams tp)) sl is_last = Some (err, tp1)"
    using assms by (auto simp: parse_frame_slice_def Let_def split: Option.bind_splits)
  note s = same_frame_call_parser[OF c]
  show ?thesis
    using assms c s skip[of tp1]
    by (cases err; cases "incoming_stream (streams tp)")
       (auto simp: parse_frame_slice_def Let_def split: Option.bind_splits
        dest!: same_frame_add_seen same_frame_add_qbuf elim: same_frame_trans simp: same_frame_def put_stream_def)
qed

lemma same_frame_lookup:
  "same_frame tp (set_incoming_stream tp' st) \<longleftrightarrow> same_frame tp tp'"
  "same_frame tp (init_skip_frame_parser tp' h) \<longleftrightarrow> same_frame tp tp'"
  by (simp_all add: set_incoming_stream_def init_skip_frame_parser_def same_frame_def Let_def)

lemma same_frame_header_stream: "init_header_stream env tp k s = (ok, tp') \<Longrightarrow> same_frame tp tp'"
  by (auto simp: init_header_stream_def Let_def same_frame_lookup split: if_splits) (simp_all add: same_frame_def)

lemma same_frame_accept: "grpc_chttp2_parsing_accept_stream env tp sid = Some (s, tp') \<Longrightarrow> same_frame tp tp'"
  by (auto simp: grpc_chttp2_parsing_accept_stream_def Let_def same_frame_def put_stream_def split: Option.bind_splits)

lemma same_frame_init_header: "init_header_frame_parser env tp k = Some (ok, tp') \<Longrightarrow> same_frame tp tp'"
  by (auto simp: init_header_frame_parser_def Let_def same_frame_def set_incoming_stream_def init_skip_frame_parser_def
      split: if_splits option.splits Option.bind_splits
      dest!: same_frame_header_stream same_frame_accept)

lemma same_frame_init_data: "init_data_frame_parser tp = Some (ok, tp') \<Longrightarrow> same_frame tp tp'"
  by (auto simp: init_data_frame_parser_def update_incoming_window_def Let_def same_frame_def set_incoming_stream_def
      init_skip_frame_parser_def put_stream_def
      split: if_splits option.splits Option.bind_splits prod.splits grpc_chttp2_parse_error.splits
      dest!: same_frame_add_seen same_frame_add_qbuf)

lemma same_frame_init:
  assumes "init_frame_parser env tp = Some (ok, tp')"
  shows "same_frame tp tp'"
proof -
  have "init_window_update_frame_parser tp = Some (ok, tp') \<Longrightarrow> same_frame tp tp'"
    by (auto simp: init_window_update_frame_parser_def Let_def same_frame_def set_incoming_stream_def
        split: if_splits option.splits Option.bind_splits)
  moreover have "init_rst_stream_parser tp = Some (ok, tp') \<Longrightarrow> same_frame tp tp'"
    by (auto simp: init_rst_stream_parser_def Let_def same_frame_def set_incoming_stream_def init_skip_frame_parser_def
        split: if_splits option.splits Option.bind_splits)
  moreover have "init_settings_frame_parser tp = (ok, tp') \<Longrightarrow> same_frame tp tp'"
    by (auto simp: init_settings_frame_parser_def Let_def same_frame_def split: if_splits prod.splits)
  moreover have "init_ping_parser tp = (ok, tp') \<Longrightarrow> same_frame tp tp'" "init_goaway_parser tp = (ok, tp') \<Longrightarrow> same_frame tp tp'"
    by (auto simp: init_ping_parser_def init_goaway_parser_def Let_def same_frame_def split: option.splits)
  ultimately show ?thesis
    using assms
    by (auto simp: init_frame_parser_def Let_def same_frame_lookup simp del: control_constants split: if_splits
        dest: same_frame_init_header same_frame_init_data)
qed

section \<open>Frame by frame\<close>

text \<open>The payload of a frame in pieces, none of them empty unless the payload is.\<close>

fun feed_payload :: "grpc_chttp2_transport_parsing \<Rightarrow> gpr_slice list \<Rightarrow> (bool \<times> grpc_chttp2_transport_parsing) option" where
  "feed_payload tp [] = parse_frame_slice tp gpr_empty_slice True"
| "feed_payload tp [sl] = parse_frame_slice tp sl True"
| "feed_payload tp (sl # sls) =
     do {
       (ok, tp) \<leftarrow> parse_frame_slice tp sl False;
       (if ok then feed_payload (tp\<lparr>incoming_frame_size := incoming_frame_size tp - word_of_nat (GPR_SLICE_LENGTH sl)\<rparr>) sls
        else Some (False, tp))
     }"

definition frame_header :: "u32 \<Rightarrow> http2_frame \<Rightarrow> grpc_chttp2_transport_parsing \<Rightarrow> grpc_chttp2_transport_parsing" where
  "frame_header sid f tp =
     tp\<lparr>incoming_frame_size := word_of_nat (length (wire_payload f)), incoming_frame_type := wire_type f,
       incoming_frame_flags := wire_flags f, incoming_stream_id := sid AND 0x7fffffff, deframe_state := GRPC_DTS_FRAME\<rparr>"

definition read_frame ::
    "parsing_env \<Rightarrow> grpc_chttp2_transport_parsing \<Rightarrow> u32 \<Rightarrow> http2_frame \<Rightarrow> gpr_slice list \<Rightarrow>
      (bool \<times> grpc_chttp2_transport_parsing) option" where
  "read_frame env tp sid f pieces =
     do {
       (ok, tp) \<leftarrow> init_frame_parser env (frame_header sid f tp);
       (if \<not> ok then Some (False, tp)
        else do {
          (ok, tp) \<leftarrow> feed_payload
            (if incoming_stream_id tp \<noteq> 0 then tp\<lparr>last_incoming_stream_id := incoming_stream_id tp\<rparr> else tp) pieces;
          Some (if ok then (True, (set_incoming_stream tp None)\<lparr>deframe_state := GRPC_DTS_FH_0\<rparr>) else (False, tp))
        })
     }"

fun read_frames ::
    "parsing_env \<Rightarrow> grpc_chttp2_transport_parsing \<Rightarrow> (u32 \<times> http2_frame \<times> gpr_slice list) list \<Rightarrow>
      (bool \<times> grpc_chttp2_transport_parsing) option" where
  "read_frames env tp [] = Some (True, tp)"
| "read_frames env tp ((sid, f, pieces) # rest) =
     do {
       (ok, tp) \<leftarrow> read_frame env tp sid f pieces;
       (if ok then read_frames env tp rest else Some (False, tp))
     }"

definition good_slices :: "gpr_slice list \<Rightarrow> bool" where
  "good_slices sls \<longleftrightarrow> (\<forall>sl \<in> set sls. slice_ok sl \<and> GPR_SLICE_LENGTH sl < 2 ^ 32)"

lemma slice_ok_from [simp]: "slice_ok sl \<Longrightarrow> slice_ok (slice_from n sl)"
  by (cases sl) (auto simp: slice_ok_def slice_from_def)

lemma GPR_SLICE_LENGTH_from [simp]: "GPR_SLICE_LENGTH (slice_from n sl) = GPR_SLICE_LENGTH sl - n"
  by (simp add: GPR_SLICE_LENGTH_def)

lemma good_slices_from: "good_slices (sl # sls) \<Longrightarrow> good_slices (slice_from n sl # sls)"
  by (auto simp: good_slices_def)

lemma perform_reads_empty: "slice_bytes sl = [] \<Longrightarrow> perform_reads env tp (sl # sls) = perform_reads env tp sls"
  by (simp add: grpc_chttp2_perform_read.simps)

text \<open>Slices that are not all empty may be taken to begin with one that is not.\<close>

lemma perform_reads_nonempty:
  assumes "slices_bytes sls \<noteq> []" "good_slices sls"
  obtains sl rest where "slice_bytes sl \<noteq> []" "good_slices (sl # rest)"
    "slice_bytes sl @ slices_bytes rest = slices_bytes sls"
    "\<And>env tp. perform_reads env tp sls = perform_reads env tp (sl # rest)"
  using assms
proof (induction sls arbitrary: thesis)
  case (Cons sl sls)
  show ?case
  proof (cases "slice_bytes sl = []")
    case True
    with Cons.prems have "slices_bytes sls \<noteq> []" "good_slices sls" by (auto simp: good_slices_def)
    from Cons.IH[OF _ this] obtain s rest where "slice_bytes s \<noteq> []" "good_slices (s # rest)"
      "slice_bytes s @ slices_bytes rest = slices_bytes sls"
      "\<And>env tp. perform_reads env tp sls = perform_reads env tp (s # rest)" by metis
    with Cons.prems(1) True show ?thesis by (metis append_Nil perform_reads_empty slices_bytes_simps(2))
  qed (use Cons.prems in auto)
qed simp


section \<open>Deframing\<close>

text \<open>One of the first eight bytes of the header of a frame.\<close>

fun header_byte :: "grpc_chttp2_transport_parsing \<Rightarrow> u8 \<Rightarrow> grpc_chttp2_transport_parsing" where
  "header_byte tp b =
     (case deframe_state tp of
        GRPC_DTS_FH_0 \<Rightarrow> tp\<lparr>incoming_frame_size := push_bit 16 (ucast b), deframe_state := GRPC_DTS_FH_1\<rparr>
      | GRPC_DTS_FH_1 \<Rightarrow> tp\<lparr>incoming_frame_size := incoming_frame_size tp OR push_bit 8 (ucast b), deframe_state := GRPC_DTS_FH_2\<rparr>
      | GRPC_DTS_FH_2 \<Rightarrow> tp\<lparr>incoming_frame_size := incoming_frame_size tp OR ucast b, deframe_state := GRPC_DTS_FH_3\<rparr>
      | GRPC_DTS_FH_3 \<Rightarrow> tp\<lparr>incoming_frame_type := b, deframe_state := GRPC_DTS_FH_4\<rparr>
      | GRPC_DTS_FH_4 \<Rightarrow> tp\<lparr>incoming_frame_flags := b, deframe_state := GRPC_DTS_FH_5\<rparr>
      | GRPC_DTS_FH_5 \<Rightarrow> tp\<lparr>incoming_stream_id := push_bit 24 (ucast b AND 0x7f), deframe_state := GRPC_DTS_FH_6\<rparr>
      | GRPC_DTS_FH_6 \<Rightarrow> tp\<lparr>incoming_stream_id := incoming_stream_id tp OR push_bit 16 (ucast b), deframe_state := GRPC_DTS_FH_7\<rparr>
      | GRPC_DTS_FH_7 \<Rightarrow> tp\<lparr>incoming_stream_id := incoming_stream_id tp OR push_bit 8 (ucast b), deframe_state := GRPC_DTS_FH_8\<rparr>
      | _ \<Rightarrow> tp)"

fun is_header_state :: "grpc_chttp2_deframe_transport_state \<Rightarrow> bool" where
  "is_header_state (GRPC_DTS_CLIENT_PREFIX n) = False"
| "is_header_state GRPC_DTS_FH_8 = False"
| "is_header_state GRPC_DTS_FRAME = False"
| "is_header_state _ = True"

fun header_states :: "grpc_chttp2_transport_parsing \<Rightarrow> bytes \<Rightarrow> bool" where
  "header_states tp [] = True"
| "header_states tp (b # bs) = (is_header_state (deframe_state tp) \<and> header_states (header_byte tp b) bs)"

lemma perform_reads_header_byte:
  assumes "is_header_state (deframe_state tp)" "slice_bytes sl = b # bs"
  shows "perform_reads env tp (sl # sls) = perform_reads env (header_byte tp b) (slice_from 1 sl # sls)"
  using assms by (cases "deframe_state tp") (simp_all add: grpc_chttp2_perform_read.simps[of env tp sl])

lemma perform_reads_header:
  assumes "header_states tp hs" "slices_bytes sls = hs @ bs" "good_slices sls"
  shows "\<exists>sls'. good_slices sls' \<and> slices_bytes sls' = bs \<and>
     perform_reads env tp sls = perform_reads env (foldl header_byte tp hs) sls'"
  using assms
proof (induction hs arbitrary: tp sls)
  case (Cons h hs)
  from Cons.prems(2) have "slices_bytes sls \<noteq> []" by simp
  from perform_reads_nonempty[OF this Cons.prems(3)] obtain sl rest where
    r: "slice_bytes sl \<noteq> []" "good_slices (sl # rest)" "slice_bytes sl @ slices_bytes rest = slices_bytes sls"
    "\<And>env tp. perform_reads env tp sls = perform_reads env tp (sl # rest)" by blast
  with Cons.prems(2) obtain tl where sl: "slice_bytes sl = h # tl" "tl @ slices_bytes rest = hs @ bs"
    by (cases "slice_bytes sl") auto
  have "slices_bytes (slice_from 1 sl # rest) = hs @ bs" using sl by simp
  with Cons.IH[OF _ this good_slices_from[OF r(2)]] Cons.prems(1) obtain sls' where
    "good_slices sls'" "slices_bytes sls' = bs"
    "perform_reads env (header_byte tp h) (slice_from 1 sl # rest) = perform_reads env (foldl header_byte (header_byte tp h) hs) sls'"
    by (auto simp del: header_byte.simps)
  moreover have "perform_reads env tp sls = perform_reads env (header_byte tp h) (slice_from 1 sl # rest)"
    using Cons.prems(1) r(4) perform_reads_header_byte[OF _ sl(1)] by (simp del: header_byte.simps)
  ultimately show ?case by (auto simp del: header_byte.simps)
qed auto

lemma frame_size_of_header:
  assumes "n < 2 ^ 24"
  shows "push_bit 16 (ucast (ucast (drop_bit 16 (word_of_nat n :: u32)) :: u8)) OR
     push_bit 8 (ucast (ucast (drop_bit 8 (word_of_nat n :: u32)) :: u8)) OR ucast (ucast (word_of_nat n :: u32) :: u8) =
     (word_of_nat n :: u32)"
proof (rule bit_word_eqI)
  fix m assume "m < LENGTH(32)"
  then consider "m < 8" | "8 \<le> m" "m - 8 < 8" | "16 \<le> m" "m - 16 < 8" | "24 \<le> m" "m < 32" by fastforce
  then show "bit (push_bit 16 (ucast (ucast (drop_bit 16 (word_of_nat n :: u32)) :: u8)) OR
     push_bit 8 (ucast (ucast (drop_bit 8 (word_of_nat n :: u32)) :: u8)) OR ucast (ucast (word_of_nat n :: u32) :: u8) :: u32) m =
     bit (word_of_nat n :: u32) m"
  proof cases
    case 4
    then have "n < 2 ^ m" using assms by (meson less_le_trans one_le_numeral power_increasing)
    then have "\<not> bit n m" by (simp add: bit_iff_odd)
    with 4 show ?thesis by (simp add: bit_simps)
  qed (auto simp: bit_simps)
qed


lemma stream_id_of_header:
  "push_bit 24 (ucast (ucast (drop_bit 24 sid) :: u8) AND 0x7f) OR push_bit 16 (ucast (ucast (drop_bit 16 sid) :: u8)) OR
     push_bit 8 (ucast (ucast (drop_bit 8 sid) :: u8)) OR ucast (ucast (sid :: u32) :: u8) = sid AND 0x7fffffff"
proof -
  have m: "(0x7fffffff :: u32) = mask 31" "(0x7f :: u32) = mask 7" by (simp_all add: mask_eq_exp_minus_1)
  show ?thesis
    unfolding m
  proof (rule bit_word_eqI)
    fix m assume "m < LENGTH(32)"
    then consider "m < 8" | "8 \<le> m" "m - 8 < 8" | "16 \<le> m" "m - 16 < 8" | "24 \<le> m" "m - 24 < 7" | "m = 31" by fastforce
    then show "bit (push_bit 24 (ucast (ucast (drop_bit 24 sid) :: u8) AND mask 7) OR push_bit 16 (ucast (ucast (drop_bit 16 sid) :: u8)) OR
       push_bit 8 (ucast (ucast (drop_bit 8 sid) :: u8)) OR ucast (ucast sid :: u8) :: u32) m = bit (sid AND mask 31) m"
      by cases (auto simp: bit_simps)
  qed
qed

lemma header_bytes_read:
  fixes sid :: u32
  assumes "length (wire_payload f) < 2 ^ 24" "deframe_state tp = GRPC_DTS_FH_0"
  defines "hs \<equiv> fill_header (wire_type f) sid (word_of_nat (length (wire_payload f))) (wire_flags f)"
  shows "header_states tp (butlast hs)" "deframe_state (foldl header_byte tp (butlast hs)) = GRPC_DTS_FH_8"
    "(foldl header_byte tp (butlast hs))
       \<lparr>incoming_stream_id := incoming_stream_id (foldl header_byte tp (butlast hs)) OR ucast (last hs), deframe_state := GRPC_DTS_FRAME\<rparr> =
     frame_header sid f tp"
  using assms(2) frame_size_of_header[OF assms(1)] stream_id_of_header[of sid]
  by (simp_all add: hs_def fill_header_def frame_header_def or.assoc)

text \<open>The ninth byte begins the frame.\<close>

lemma record_same_state: "deframe_state tp = s \<Longrightarrow> tp\<lparr>deframe_state := s\<rparr> = tp"
  by (cases tp) simp

lemma perform_reads_start:
  assumes "deframe_state tp = GRPC_DTS_FH_8" "slices_bytes sls = b # bs" "good_slices sls"
  defines "tp0 \<equiv> tp\<lparr>incoming_stream_id := incoming_stream_id tp OR ucast b, deframe_state := GRPC_DTS_FRAME\<rparr>"
  shows "\<exists>sls'. good_slices sls' \<and> slices_bytes sls' = bs \<and>
     perform_reads env tp sls =
       do {
         (ok, tp) \<leftarrow> init_frame_parser env tp0;
         let tp = (if ok \<and> incoming_stream_id tp \<noteq> 0 then tp\<lparr>last_incoming_stream_id := incoming_stream_id tp\<rparr> else tp);
         (if \<not> ok then Some (False, tp)
          else if incoming_frame_size tp = 0 then do {
            (ok, tp) \<leftarrow> parse_frame_slice tp gpr_empty_slice True;
            (if \<not> ok then Some (False, tp)
             else perform_reads env ((set_incoming_stream tp None)\<lparr>deframe_state := GRPC_DTS_FH_0\<rparr>) sls')
          }
          else perform_reads env (tp\<lparr>deframe_state := GRPC_DTS_FRAME\<rparr>) sls')
       }"
proof -
  from assms(2) have "slices_bytes sls \<noteq> []" by simp
  from perform_reads_nonempty[OF this assms(3)] obtain sl rest where
    r: "slice_bytes sl \<noteq> []" "good_slices (sl # rest)" "slice_bytes sl @ slices_bytes rest = slices_bytes sls"
    "\<And>env tp. perform_reads env tp sls = perform_reads env tp (sl # rest)" by blast
  with assms(2) obtain tl where sl: "slice_bytes sl = b # tl" "tl @ slices_bytes rest = bs"
    by (cases "slice_bytes sl") auto
  show ?thesis
  proof (intro exI conjI)
    show "good_slices (slice_from 1 sl # rest)" by (rule good_slices_from[OF r(2)])
    show "slices_bytes (slice_from 1 sl # rest) = bs" using sl by simp
  qed (use r(4) sl(1) assms(1) in \<open>auto simp: grpc_chttp2_perform_read.simps[of env tp sl] tp0_def Let_def split: Option.bind_splits\<close>)
qed


text \<open>The payload is taken off the slices in pieces.\<close>

definition pieces_of :: "gpr_slice list \<Rightarrow> bytes \<Rightarrow> bool" where
  "pieces_of pieces payload \<longleftrightarrow>
     slices_bytes pieces = payload \<and> good_slices pieces \<and> (\<forall>p \<in> set pieces. slice_bytes p \<noteq> [])"

lemma pieces_of_simps [simp]:
  "pieces_of [] payload \<longleftrightarrow> payload = []"
  "pieces_of (p # ps) payload \<longleftrightarrow>
     slice_bytes p \<noteq> [] \<and> slice_ok p \<and> GPR_SLICE_LENGTH p < 2 ^ 32 \<and> (\<exists>q. payload = slice_bytes p @ q \<and> pieces_of ps q)"
  by (auto simp: pieces_of_def good_slices_def)

abbreviation frame_done :: "grpc_chttp2_transport_parsing \<Rightarrow> grpc_chttp2_transport_parsing" where
  "frame_done tp \<equiv> (set_incoming_stream tp None)\<lparr>deframe_state := GRPC_DTS_FH_0\<rparr>"

lemma sub_no_ref_take:
  assumes "n \<le> GPR_SLICE_LENGTH sl" "slice_ok sl"
  obtains part where "gpr_slice_sub_no_ref sl 0 n = Some part" "slice_bytes part = take n (slice_bytes sl)" "slice_ok part"
    "GPR_SLICE_LENGTH part = n"
  using assms by (intro that, simp add: gpr_slice_sub_no_ref_def gpr_assert_def)
    (auto simp: sub_bytes_def slice_ok_def GPR_SLICE_LENGTH_def)

lemma feed_payload_Cons:
  "sls \<noteq> [] \<Longrightarrow> feed_payload tp (sl # sls) =
     do {
       (ok, tp) \<leftarrow> parse_frame_slice tp sl False;
       (if ok then feed_payload (tp\<lparr>incoming_frame_size := incoming_frame_size tp - word_of_nat (GPR_SLICE_LENGTH sl)\<rparr>) sls
        else Some (False, tp))
     }"
  by (auto simp: neq_Nil_conv)

lemma unat_word_of_length: "n < 2 ^ 32 \<Longrightarrow> unat (word_of_nat n :: u32) = n"
  by (simp add: unat_of_nat take_bit_nat_eq_self)

text \<open>One slice while a payload is read.\<close>

lemma perform_reads_frame_slice:
  assumes st: "deframe_state tp = GRPC_DTS_FRAME" and size: "incoming_frame_size tp = word_of_nat n" "n < 2 ^ 32"
    and sl: "slice_bytes sl \<noteq> []" "GPR_SLICE_LENGTH sl < 2 ^ 32"
  shows "perform_reads env tp (sl # rest) =
     (if GPR_SLICE_LENGTH sl < n then do {
        (ok, tp) \<leftarrow> parse_frame_slice tp sl False;
        (if ok then perform_reads env (tp\<lparr>incoming_frame_size := incoming_frame_size tp - word_of_nat (GPR_SLICE_LENGTH sl)\<rparr>) rest
         else Some (False, tp))
      }
      else if GPR_SLICE_LENGTH sl = n then do {
        (ok, tp) \<leftarrow> parse_frame_slice tp sl True;
        (if ok then perform_reads env (frame_done tp) rest else Some (False, tp))
      }
      else do {
        part \<leftarrow> gpr_slice_sub_no_ref sl 0 n;
        (ok, tp) \<leftarrow> parse_frame_slice tp part True;
        (if ok then perform_reads env (frame_done tp) (slice_from n sl # rest) else Some (False, tp))
      })"
proof -
  have u: "unat (word_of_nat (GPR_SLICE_LENGTH sl) :: u32) = GPR_SLICE_LENGTH sl" "unat (word_of_nat n :: u32) = n"
    using sl(2) size(2) by (simp_all only: unat_word_of_length)
  have cmp: "(word_of_nat (GPR_SLICE_LENGTH sl) :: u32) = word_of_nat n \<longleftrightarrow> GPR_SLICE_LENGTH sl = n"
    "(word_of_nat n :: u32) < word_of_nat (GPR_SLICE_LENGTH sl) \<longleftrightarrow> n < GPR_SLICE_LENGTH sl"
    by (metis u, simp only: word_less_nat_alt u)
  obtain b bs where b: "slice_bytes sl = b # bs" using sl(1) by (cases "slice_bytes sl") auto
  consider "GPR_SLICE_LENGTH sl < n" | "GPR_SLICE_LENGTH sl = n" | "n < GPR_SLICE_LENGTH sl" by linarith
  then show ?thesis
    by cases (auto simp: grpc_chttp2_perform_read.simps[of env tp sl] b st size(1) cmp u Let_def simp del: of_nat_eq_iff split: Option.bind_splits)
qed

lemma perform_reads_payload:
  assumes "deframe_state tp = GRPC_DTS_FRAME" "incoming_frame_size tp = word_of_nat (length payload)"
    "length payload < 2 ^ 32" "payload \<noteq> []" "slices_bytes sls = payload @ bs" "good_slices sls"
  shows "\<exists>pieces rest. pieces \<noteq> [] \<and> pieces_of pieces payload \<and> good_slices rest \<and> slices_bytes rest = bs \<and>
     perform_reads env tp sls =
       do { (ok, tp) \<leftarrow> feed_payload tp pieces; (if ok then perform_reads env (frame_done tp) rest else Some (False, tp)) }"
  using assms
proof (induction "length payload" arbitrary: tp payload sls rule: less_induct)
  case less
  let ?n = "length payload"
  have "slices_bytes sls \<noteq> []" using less.prems(4,5) by simp
  from perform_reads_nonempty[OF this less.prems(6)] obtain sl rest where
    r: "slice_bytes sl \<noteq> []" "good_slices (sl # rest)" "slice_bytes sl @ slices_bytes rest = payload @ bs"
    "\<And>env tp. perform_reads env tp sls = perform_reads env tp (sl # rest)" using less.prems(5) by metis
  have g: "slice_ok sl" "GPR_SLICE_LENGTH sl < 2 ^ 32" "good_slices rest" using r(2) by (auto simp: good_slices_def)
  note step = perform_reads_frame_slice[OF less.prems(1,2,3) r(1) g(2), of env rest]
  let ?m = "GPR_SLICE_LENGTH sl"
  have m: "?m = length (slice_bytes sl)" by (simp add: GPR_SLICE_LENGTH_def)
  consider (part) "?m < ?n" | (whole) "?m = ?n" | (more) "?n < ?m" by linarith
  then show ?case
  proof cases
    case part
    then obtain q where q: "payload = slice_bytes sl @ q" "slices_bytes rest = q @ bs" "q \<noteq> []"
      using r(3) m by (auto simp: append_eq_append_conv2)
    show ?thesis
    proof (cases "parse_frame_slice tp sl False")
      case None
      have "\<exists>pieces rest'. pieces \<noteq> [] \<and> pieces_of pieces q \<and> good_slices rest' \<and> slices_bytes rest' = bs"
        using less.hyps[of q "tp\<lparr>incoming_frame_size := word_of_nat (length q)\<rparr>" rest] q less.prems(1,3) g(3) r(1) by auto
      then obtain pieces rest' where e: "pieces \<noteq> []" "pieces_of pieces q" "good_slices rest'" "slices_bytes rest' = bs" by blast
      have "perform_reads env tp sls =
         do { (ok, tp) \<leftarrow> feed_payload tp (sl # pieces); (if ok then perform_reads env (frame_done tp) rest' else Some (False, tp)) }"
        using r(4) step part None by (simp add: feed_payload_Cons[OF e(1)])
      moreover have "pieces_of (sl # pieces) payload" using e(2) q(1) r(1) g by auto
      ultimately show ?thesis using e(3,4) by blast
    next
      case (Some x)
      then obtain ok tp1 where p: "parse_frame_slice tp sl False = Some (ok, tp1)" by (cases x) auto
      let ?tp2 = "tp1\<lparr>incoming_frame_size := incoming_frame_size tp1 - word_of_nat ?m\<rparr>"
      have same: "same_frame tp tp1" by (rule same_frame_parse_frame_slice[OF p])
      have "incoming_frame_size ?tp2 = word_of_nat (length q)"
        using same less.prems(2) q(1) m by (simp add: same_frame_def)
      with less.hyps[of q ?tp2 rest] q same less.prems(1,3) g(3) r(1) obtain pieces rest' where
        ih: "pieces \<noteq> []" "pieces_of pieces q" "good_slices rest'" "slices_bytes rest' = bs"
        "perform_reads env ?tp2 rest =
           do { (ok, tp) \<leftarrow> feed_payload ?tp2 pieces; (if ok then perform_reads env (frame_done tp) rest' else Some (False, tp)) }"
        by (auto simp: same_frame_def)
      have "perform_reads env tp sls =
         do { (ok, tp) \<leftarrow> feed_payload tp (sl # pieces); (if ok then perform_reads env (frame_done tp) rest' else Some (False, tp)) }"
        using r(4) step part p ih(5) by (cases ok) (simp_all add: feed_payload_Cons[OF ih(1)])
      moreover have "pieces_of (sl # pieces) payload" using ih(2) q(1) r(1) g by auto
      ultimately show ?thesis using ih(3,4) by blast
    qed
  next
    case whole
    then have q: "payload = slice_bytes sl" "slices_bytes rest = bs" using r(3) m by auto
    have "perform_reads env tp sls =
       do { (ok, tp) \<leftarrow> feed_payload tp [sl]; (if ok then perform_reads env (frame_done tp) rest else Some (False, tp)) }"
      using r(4) step whole by simp
    moreover have "pieces_of [sl] payload" using q r(1) g by auto
    ultimately show ?thesis using q(2) g(3) by blast
  next
    case more
    then have "?n \<le> ?m" by simp
    from sub_no_ref_take[OF this g(1)] obtain part where
      pt: "gpr_slice_sub_no_ref sl 0 ?n = Some part" "slice_bytes part = take ?n (slice_bytes sl)" "slice_ok part"
      "GPR_SLICE_LENGTH part = ?n" .
    have q: "take ?n (slice_bytes sl) = payload" "drop ?n (slice_bytes sl) @ slices_bytes rest = bs"
      using r(3) more m by (auto simp: append_eq_append_conv2)
    have "perform_reads env tp sls =
       do { (ok, tp) \<leftarrow> feed_payload tp [part];
            (if ok then perform_reads env (frame_done tp) (slice_from ?n sl # rest) else Some (False, tp)) }"
      using r(4) step more pt(1) by simp
    moreover have "pieces_of [part] payload" using q(1) pt less.prems(3,4) by (auto simp: pieces_of_def good_slices_def)
    moreover have "good_slices (slice_from ?n sl # rest)" by (rule good_slices_from[OF r(2)])
    moreover have "slices_bytes (slice_from ?n sl # rest) = bs" using q(2) by simp
    ultimately show ?thesis by blast
  qed
qed


lemma perform_reads_frame:
  assumes "deframe_state tp = GRPC_DTS_FH_0" "length (wire_payload f) < 2 ^ 24"
    "slices_bytes sls = frame_bytes sid f @ bs" "good_slices sls"
  shows "\<exists>pieces rest. pieces_of pieces (wire_payload f) \<and> good_slices rest \<and> slices_bytes rest = bs \<and>
     perform_reads env tp sls =
       do { (ok, tp) \<leftarrow> read_frame env tp sid f pieces; (if ok then perform_reads env tp rest else Some (False, tp)) }"
proof -
  let ?pl = "wire_payload f"
  let ?n = "length ?pl"
  define hs where "hs = fill_header (wire_type f) sid (word_of_nat ?n) (wire_flags f)"
  have n32: "?n < 2 ^ 32" using assms(2) by simp
  note h = header_bytes_read[OF assms(2,1), of sid, folded hs_def]
  have "hs = butlast hs @ [last hs]" by (simp add: hs_def fill_header_def)
  then have "slices_bytes sls = butlast hs @ (last hs # ?pl @ bs)" using assms(3) by (metis append.assoc append_Cons append_Nil frame_bytes_def hs_def)
  from perform_reads_header[OF h(1) this assms(4)] obtain sls1 where
    s1: "good_slices sls1" "slices_bytes sls1 = last hs # ?pl @ bs"
    "perform_reads env tp sls = perform_reads env (foldl header_byte tp (butlast hs)) sls1" by blast
  let ?tp0 = "frame_header sid f tp"
  from perform_reads_start[OF h(2) s1(2,1), of env, unfolded h(3)] obtain sls2 where
    s2: "good_slices sls2" "slices_bytes sls2 = ?pl @ bs" and
    eq: "perform_reads env tp sls =
       do {
         (ok, tp) \<leftarrow> init_frame_parser env ?tp0;
         let tp = (if ok \<and> incoming_stream_id tp \<noteq> 0 then tp\<lparr>last_incoming_stream_id := incoming_stream_id tp\<rparr> else tp);
         (if \<not> ok then Some (False, tp)
          else if incoming_frame_size tp = 0 then do {
            (ok, tp) \<leftarrow> parse_frame_slice tp gpr_empty_slice True;
            (if \<not> ok then Some (False, tp) else perform_reads env (frame_done tp) sls2)
          }
          else perform_reads env (tp\<lparr>deframe_state := GRPC_DTS_FRAME\<rparr>) sls2)
       }"
    unfolding s1(3) by blast
  define opened where "opened tp1 = (if incoming_stream_id tp1 \<noteq> 0 then tp1\<lparr>last_incoming_stream_id := incoming_stream_id tp1\<rparr> else tp1)"
    for tp1 :: grpc_chttp2_transport_parsing
  have tp0: "deframe_state ?tp0 = GRPC_DTS_FRAME" "incoming_frame_size ?tp0 = word_of_nat ?n" by (simp_all add: frame_header_def)
  have zero: "(word_of_nat ?n :: u32) = 0 \<longleftrightarrow> ?pl = []"
    using arg_cong[of "word_of_nat ?n :: u32" 0 unat] unat_word_of_length[OF n32] by auto
  have rf: "read_frame env tp sid f pieces =
     do {
       (ok, tp) \<leftarrow> init_frame_parser env ?tp0;
       (if \<not> ok then Some (False, tp)
        else do {
          (ok, tp) \<leftarrow> feed_payload (opened tp) pieces;
          Some (if ok then (True, frame_done tp) else (False, tp))
        })
     }" for pieces
    unfolding read_frame_def opened_def ..
  show ?thesis
  proof (cases "\<exists>tp1. init_frame_parser env ?tp0 = Some (True, tp1)")
    case False
    have "\<exists>pieces rest. pieces_of pieces ?pl \<and> good_slices rest \<and> slices_bytes rest = bs"
    proof (cases "?pl = []")
      case True
      with s2 show ?thesis by (intro exI[of _ "[]"] exI[of _ sls2]) simp
    qed (use perform_reads_payload[OF tp0 n32 _ s2(2,1)] in blast)
    moreover have "perform_reads env tp sls =
       do { (ok, tp) \<leftarrow> read_frame env tp sid f pieces; (if ok then perform_reads env tp rest else Some (False, tp)) }" for pieces rest
      using False by (cases "init_frame_parser env ?tp0") (auto simp: eq rf)
    ultimately show ?thesis by blast
  next
    case True
    then obtain tp1 where i: "init_frame_parser env ?tp0 = Some (True, tp1)" ..
    have o: "deframe_state (opened tp1) = GRPC_DTS_FRAME" "incoming_frame_size (opened tp1) = word_of_nat ?n"
      "incoming_frame_size tp1 = word_of_nat ?n"
      using same_frame_init[OF i] tp0 by (simp_all add: same_frame_def opened_def)
    show ?thesis
    proof (cases "?pl = []")
      case True
      have "perform_reads env tp sls =
         do { (ok, tp) \<leftarrow> read_frame env tp sid f []; (if ok then perform_reads env tp sls2 else Some (False, tp)) }"
        using i o(2) True zero by (auto simp: eq rf opened_def[symmetric] split: Option.bind_splits)
      with True s2 show ?thesis by (intro exI[of _ "[]"] exI[of _ sls2]) simp
    next
      case False
      from perform_reads_payload[OF o(1,2) n32 False s2(2,1), of env] obtain pieces rest where
        p: "pieces_of pieces ?pl" "good_slices rest" "slices_bytes rest = bs"
        "perform_reads env (opened tp1) sls2 =
         do { (ok, tp) \<leftarrow> feed_payload (opened tp1) pieces; (if ok then perform_reads env (frame_done tp) rest else Some (False, tp)) }"
        by blast
      have "perform_reads env tp sls = perform_reads env (opened tp1) sls2"
        using i o False zero by (simp add: eq opened_def[symmetric] record_same_state)
      then have "perform_reads env tp sls =
         do { (ok, tp) \<leftarrow> read_frame env tp sid f pieces; (if ok then perform_reads env tp rest else Some (False, tp)) }"
        using i p(4) by (auto simp: rf split: Option.bind_splits)
      with p(1-3) show ?thesis by blast
    qed
  qed
qed

lemma perform_reads_nothing: "slices_bytes sls = [] \<Longrightarrow> perform_reads env tp sls = Some (True, tp)"
  by (induction sls) (simp_all add: perform_reads_empty del: perform_reads.simps(2))

lemma read_frame_state: "read_frame env tp sid f pieces = Some (True, tp') \<Longrightarrow> deframe_state tp' = GRPC_DTS_FH_0"
  by (auto simp: read_frame_def split: Option.bind_splits if_splits)

lemma some_pieces_all:
  assumes "\<forall>(sid, f) \<in> set fs. length (wire_payload f) < 2 ^ 24"
  shows "\<exists>pss. list_all2 (\<lambda>(sid, f) ps. pieces_of ps (wire_payload f)) fs pss"
proof (rule exI)
  show "list_all2 (\<lambda>(sid, f) ps. pieces_of ps (wire_payload f)) fs
      (map (\<lambda>(sid, f). if wire_payload f = [] then [] else [Refcounted (wire_payload f)]) fs)"
    using assms by (force simp: list.rel_map list_all2_same slice_ok_def GPR_SLICE_LENGTH_def)
qed

definition wire_bytes :: "(u32 \<times> http2_frame) list \<Rightarrow> bytes" where
  "wire_bytes fs = concat (map (\<lambda>(sid, f). frame_bytes sid f) fs)"

definition with_pieces :: "(u32 \<times> http2_frame) list \<Rightarrow> gpr_slice list list \<Rightarrow> (u32 \<times> http2_frame \<times> gpr_slice list) list" where
  "with_pieces fs pss = map (\<lambda>((sid, f), ps). (sid, f, ps)) (zip fs pss)"

text \<open>
  C3. Reading is deframing. However the bytes of a sequence of frames are cut into slices,
  reading the slices is the same as beginning each frame with its type, flags, length and
  stream, handing its payload to the parser of the frame in non-empty pieces (a frame without
  payload with one empty slice), the last one marked, and finishing it before the next begins.
\<close>

theorem reads_are_frames:
  assumes "deframe_state tp = GRPC_DTS_FH_0" "\<forall>(sid, f) \<in> set fs. length (wire_payload f) < 2 ^ 24"
    and "slices_bytes sls = wire_bytes fs" "good_slices sls"
  shows "\<exists>pss. list_all2 (\<lambda>(sid, f) ps. pieces_of ps (wire_payload f)) fs pss \<and>
     perform_reads env tp sls = read_frames env tp (with_pieces fs pss)"
  using assms
proof (induction fs arbitrary: tp sls)
  case Nil
  then show ?case by (auto simp: perform_reads_nothing wire_bytes_def with_pieces_def)
next
  case (Cons x fs)
  obtain sid f where x: "x = (sid, f)" by (cases x)
  have len: "length (wire_payload f) < 2 ^ 24" "\<forall>(sid, f) \<in> set fs. length (wire_payload f) < 2 ^ 24"
    using Cons.prems(2) x by auto
  have "slices_bytes sls = frame_bytes sid f @ wire_bytes fs" using Cons.prems(3) x by (simp add: wire_bytes_def)
  from perform_reads_frame[OF Cons.prems(1) len(1) this Cons.prems(4), of env] obtain pieces rest where
    p: "pieces_of pieces (wire_payload f)" "good_slices rest" "slices_bytes rest = wire_bytes fs"
    "perform_reads env tp sls =
       do { (ok, tp) \<leftarrow> read_frame env tp sid f pieces; (if ok then perform_reads env tp rest else Some (False, tp)) }" by blast
  show ?case
  proof (cases "\<exists>tp1. read_frame env tp sid f pieces = Some (True, tp1)")
    case True
    then obtain tp1 where r: "read_frame env tp sid f pieces = Some (True, tp1)" ..
    from Cons.IH[OF read_frame_state[OF r] len(2) p(3,2)] obtain pss where
      "list_all2 (\<lambda>(sid, f) ps. pieces_of ps (wire_payload f)) fs pss"
      "perform_reads env tp1 rest = read_frames env tp1 (with_pieces fs pss)" by blast
    with p(1,4) r x show ?thesis by (intro exI[of _ "pieces # pss"]) (simp add: with_pieces_def)
  next
    case False
    from some_pieces_all[OF len(2)] obtain pss where "list_all2 (\<lambda>(sid, f) ps. pieces_of ps (wire_payload f)) fs pss" ..
    with p(1,4) False x show ?thesis
      by (intro exI[of _ "pieces # pss"]) (cases "read_frame env tp sid f pieces", auto simp: with_pieces_def)
  qed
qed

theorem reads_are_frames_witness:
  "\<exists>tp pss. init_transport_parsing True = Some tp \<and>
     list_all2 (\<lambda>(sid, f) ps. pieces_of ps (wire_payload f)) [(0 :: u32, Frame 6 0 [1, 2, 3, 4, 5, 6, 7, 8]), (0, Frame 4 1 [])] pss \<and>
     perform_reads quiet_env tp
       [Refcounted [0, 0, 8, 6, 0], Refcounted [0, 0, 0, 0, 1, 2, 3], Refcounted [4, 5, 6, 7, 8, 0, 0, 0, 4, 1, 0, 0, 0, 0]] =
     read_frames quiet_env tp (with_pieces [(0, Frame 6 0 [1, 2, 3, 4, 5, 6, 7, 8]), (0, Frame 4 1 [])] pss)"
proof -
  obtain tp where tp: "init_transport_parsing True = Some tp" "deframe_state tp = GRPC_DTS_FH_0" by (rule client_connected)
  let ?fs = "[(0, Frame 6 0 [1, 2, 3, 4, 5, 6, 7, 8]), (0, Frame 4 1 [])] :: (u32 \<times> http2_frame) list"
  let ?sls = "[Refcounted [0, 0, 8, 6, 0], Refcounted [0, 0, 0, 0, 1, 2, 3], Refcounted [4, 5, 6, 7, 8, 0, 0, 0, 4, 1, 0, 0, 0, 0]]"
  have "\<forall>(sid, f) \<in> set ?fs. length (wire_payload f) < 2 ^ 24" "slices_bytes ?sls = wire_bytes ?fs" "good_slices ?sls"
    by (simp_all add: wire_bytes_def frame_bytes_def fill_header_def good_slices_def slice_ok_def slices_bytes_def)
  from reads_are_frames[OF tp(2) this, of quiet_env] tp(1) show ?thesis by blast
qed

end
