(* ===== verification/Frame_Pieces.thy ===== *)
theory Frame_Pieces
  imports Transport_Frames
begin

text \<open>
  The parsers of the frames that carry no data are incremental: the pieces in which a payload
  arrives do not matter. The locale states what a parser of \<^verbatim>\<open>frame_*.c\<close> promises to
  \<^verbatim>\<open>parse_frame_slice\<close>, and each parser is an instance of it.
\<close>

section \<open>The contract\<close>

type_synonym parse_result = "(grpc_chttp2_parse_error \<times> grpc_chttp2_transport_parsing) option"

definition parse_then :: "parse_result \<Rightarrow> (grpc_chttp2_transport_parsing \<Rightarrow> parse_result) \<Rightarrow> parse_result" where
  "parse_then r k = do { (err, tp) \<leftarrow> r; (if err = GRPC_CHTTP2_PARSE_OK then k tp else Some (err, tp)) }"

definition with_size :: "u32 \<Rightarrow> grpc_chttp2_transport_parsing \<Rightarrow> grpc_chttp2_transport_parsing" where
  "with_size n tp = tp\<lparr>incoming_frame_size := n\<rparr>"

lemma parse_then_simps [simp]:
  "parse_then None k = None" "parse_then (Some (GRPC_CHTTP2_PARSE_OK, tp)) k = k tp"
  "err \<noteq> GRPC_CHTTP2_PARSE_OK \<Longrightarrow> parse_then (Some (err, tp)) k = Some (err, tp)"
  by (simp_all add: parse_then_def)

text \<open>
  \<open>more tp n\<close> says that \<open>n\<close> bytes do not end the frame. The number of bytes left, which
  deframing keeps, is not the parser's business.
\<close>

lemma with_size_simps [simp]:
  "with_size n (with_size m tp) = with_size n tp" "parser (with_size n tp) = parser tp"
  "streams (with_size n tp) = streams tp" "deframe_state (with_size n tp) = deframe_state tp"
  "pings (with_size n tp) = pings tp" "incoming_frame_size (with_size n tp) = n"
  "simple (with_size n tp) = simple tp" "goaway_parser (with_size n tp) = goaway_parser tp"
  "qbuf (with_size n tp) = qbuf tp" "incoming_stream_id (with_size n tp) = incoming_stream_id tp"
  "settings (with_size n tp) = settings tp" "outgoing_window_update (with_size n tp) = outgoing_window_update tp"
  "expect_continuation_stream_id (with_size n tp) = expect_continuation_stream_id tp"
  by (simp_all add: with_size_def)

definition up_to_size :: "('a \<times> grpc_chttp2_transport_parsing) option \<Rightarrow> ('a \<times> grpc_chttp2_transport_parsing) option" where
  "up_to_size r = map_option (map_prod (\<lambda>e. e) (with_size 0)) r"

lemma up_to_size_simps [simp]:
  "up_to_size None = None" "up_to_size (Some (e, tp)) = Some (e, with_size 0 tp)"
  by (simp_all add: up_to_size_def)

definition parse_outcome :: "parse_result \<Rightarrow> (bool \<times> grpc_chttp2_transport_parsing) option" where
  "parse_outcome r = map_option (map_prod (\<lambda>e. e = GRPC_CHTTP2_PARSE_OK) (\<lambda>tp. tp)) r"

lemma parse_outcome_simps [simp]:
  "parse_outcome None = None" "parse_outcome (Some (e, tp)) = Some (e = GRPC_CHTTP2_PARSE_OK, tp)"
  by (simp_all add: parse_outcome_def)

lemma parse_outcome_size: "up_to_size (parse_outcome r) = parse_outcome (up_to_size r)"
  by (cases r) (auto simp: map_prod_def split: prod.splits)

text \<open>
  The parser \<open>f\<close> of a frame of the connection, which has no stream. \<open>more tp n\<close> says that \<open>n\<close>
  bytes do not end the frame. The number of bytes left, which deframing keeps, is not the
  parser's business.
\<close>

locale frame_reader =
  fixes f :: frame_parser
    and parse :: "grpc_chttp2_transport_parsing \<Rightarrow> bytes \<Rightarrow> bool \<Rightarrow> parse_result"
    and more :: "grpc_chttp2_transport_parsing \<Rightarrow> nat \<Rightarrow> bool"
  assumes call_parse: "parser tp = Some f \<Longrightarrow> call_parser tp None sl x = parse tp (slice_bytes sl) x"
    and parse_split: "more tp (length xs) \<Longrightarrow> parse tp (xs @ ys) x = parse_then (parse tp xs False) (\<lambda>tp. parse tp ys x)"
    and more_left: "more tp (length xs + n) \<Longrightarrow> parse tp xs False = Some (GRPC_CHTTP2_PARSE_OK, tp') \<Longrightarrow> more tp' n"
    and more_less: "more tp n \<Longrightarrow> m \<le> n \<Longrightarrow> more tp m"
    and more_size: "more (with_size k tp) n = more tp n"
    and parse_size: "parse (with_size k tp) bs x = map_option (map_prod (\<lambda>e. e) (with_size k)) (parse tp bs x)"
    and parse_keeps: "parse tp bs x = Some (e, tp') \<Longrightarrow>
      e \<noteq> GRPC_CHTTP2_STREAM_ERROR \<and> parser tp' = parser tp \<and> incoming_stream (streams tp') = incoming_stream (streams tp)"
begin

lemma parse_size_ignored: "up_to_size (parse (with_size k tp) bs x) = up_to_size (parse tp bs x)"
  by (simp add: parse_size up_to_size_def option.map_comp prod.map_comp comp_def)

lemma frame_slice:
  assumes "parser tp = Some f" "incoming_stream (streams tp) = None"
  shows "parse_frame_slice tp sl x = parse_outcome (parse tp (slice_bytes sl) x)"
  using assms parse_keeps[of tp "slice_bytes sl" x]
  by (cases "parse tp (slice_bytes sl) x")
     (auto simp: parse_frame_slice_def call_parse split: prod.splits grpc_chttp2_parse_error.splits)

lemma payload_in_pieces:
  assumes "parser tp = Some f" "incoming_stream (streams tp) = None" "more tp (length payload - 1)" "pieces_of pieces payload"
  shows "up_to_size (feed_payload tp pieces) = up_to_size (parse_outcome (parse tp payload True))"
  using assms
proof (induction pieces arbitrary: tp payload)
  case Nil
  then show ?case by (simp add: frame_slice gpr_empty_slice_def)
next
  case (Cons p ps)
  then obtain q where q: "payload = slice_bytes p @ q" "pieces_of ps q" "slice_bytes p \<noteq> []" by auto
  note slice = frame_slice[OF Cons.prems(1,2)]
  show ?case
  proof (cases "ps = []")
    case True
    with q show ?thesis by (simp add: slice)
  next
    case False
    with q(2) have "q \<noteq> []" by (cases ps) auto
    then have m: "more tp (length (slice_bytes p) + (length q - 1))"
      using Cons.prems(3) q(1,3) by (simp add: Suc_leI)
    have "more tp (length (slice_bytes p))" by (rule more_less[OF m]) simp
    note split = parse_split[OF this, of q True]
    show ?thesis
    proof (cases "parse tp (slice_bytes p) False")
      case None
      with q(1) False split show ?thesis by (simp add: feed_payload_Cons slice)
    next
      case (Some r)
      then obtain e tp1 where r: "parse tp (slice_bytes p) False = Some (e, tp1)" by (cases r) auto
      note k = parse_keeps[OF r]
      show ?thesis
      proof (cases "e = GRPC_CHTTP2_PARSE_OK")
        case True
        let ?tp2 = "with_size (incoming_frame_size tp1 - word_of_nat (GPR_SLICE_LENGTH p)) tp1"
        have "more ?tp2 (length q - 1)" using more_left[OF m] r True by (simp add: more_size)
        with Cons.IH[of ?tp2 q] q(2) k Cons.prems(1,2)
        have "up_to_size (feed_payload ?tp2 ps) = up_to_size (parse_outcome (parse ?tp2 q True))" by simp
        also have "\<dots> = up_to_size (parse_outcome (parse tp1 q True))" by (simp add: parse_outcome_size parse_size_ignored)
        finally show ?thesis
          using q(1) False split r True by (simp add: feed_payload_Cons slice with_size_def)
      qed (use q(1) False split r in \<open>simp add: feed_payload_Cons slice\<close>)
    qed
  qed
qed

end


section \<open>PING\<close>

definition more_ping :: "grpc_chttp2_transport_parsing \<Rightarrow> nat \<Rightarrow> bool" where
  "more_ping tp n = (case simple tp of Simple_ping p \<Rightarrow> unat (ping_byte p) + n < 8 | _ \<Rightarrow> True)"

lemma unat_plus_1: "unat (b :: u8) < 8 \<Longrightarrow> unat (b + 1) = Suc (unat b)"
  by (simp add: unat_word_ariths)

lemma ping_loop_full: "ping_byte p = 8 \<Longrightarrow> ping_loop p bs = p"
  by (cases bs) simp_all

lemma ping_loop_append: "ping_loop p (xs @ ys) = ping_loop (ping_loop p xs) ys"
  by (induction p xs rule: ping_loop.induct) (simp_all add: ping_loop_full)

lemma ping_loop_byte: "unat (ping_byte p) + length bs \<le> 8 \<Longrightarrow> unat (ping_byte (ping_loop p bs)) = unat (ping_byte p) + length bs"
proof (induction p bs rule: ping_loop.induct)
  case (2 p c cur)
  then have "ping_byte p \<noteq> 8" "unat (ping_byte p) < 8" by auto
  with 2 unat_plus_1[of "ping_byte p"] show ?case by simp
qed simp

lemma simple_ping_Some: "simple_ping s = Some p \<longleftrightarrow> s = Simple_ping p"
  by (cases s) auto

lemma add_qbuf_size: "add_qbuf (with_size n tp) s = map_option (with_size n) (add_qbuf tp s)"
  by (cases "gpr_slice_buffer_add (qbuf tp) s") (simp_all add: add_qbuf_def with_size_def)

lemma add_qbuf_keeps: "add_qbuf tp s = Some tp' \<Longrightarrow> parser tp' = parser tp \<and> streams tp' = streams tp"
  by (auto simp: add_qbuf_def split: Option.bind_splits)

interpretation ping_reader: frame_reader Ping_parser grpc_chttp2_ping_parser_parse more_ping
proof unfold_locales
  fix tp x and xs ys :: bytes
  assume m: "more_ping tp (length xs)"
  show "grpc_chttp2_ping_parser_parse tp (xs @ ys) x =
    parse_then (grpc_chttp2_ping_parser_parse tp xs False) (\<lambda>tp. grpc_chttp2_ping_parser_parse tp ys x)"
  proof (cases "simple tp")
    case (Simple_ping p)
    with m have l: "unat (ping_byte p) + length xs < 8" by (simp add: more_ping_def)
    then have "unat (ping_byte (ping_loop p xs)) < 8" using ping_loop_byte[of p xs] by simp
    then have "ping_byte (ping_loop p xs) \<noteq> 8" by auto
    with Simple_ping show ?thesis
      by (simp add: grpc_chttp2_ping_parser_parse_def ping_loop_append Let_def)
  qed (simp_all add: grpc_chttp2_ping_parser_parse_def)
next
  fix tp tp' n and xs :: bytes
  assume "more_ping tp (length xs + n)" "grpc_chttp2_ping_parser_parse tp xs False = Some (GRPC_CHTTP2_PARSE_OK, tp')"
  then show "more_ping tp' n"
    using ping_loop_byte
    by (cases "simple tp") (auto simp: grpc_chttp2_ping_parser_parse_def more_ping_def Let_def gpr_assert_def split: if_splits)
next
  fix k tp x and bs :: bytes
  show "grpc_chttp2_ping_parser_parse (with_size k tp) bs x = map_option (map_prod (\<lambda>e. e) (with_size k)) (grpc_chttp2_ping_parser_parse tp bs x)"
  proof (cases "simple tp")
    case (Simple_ping p)
    have "with_size k tp\<lparr>simple := s\<rparr> = with_size k (tp\<lparr>simple := s\<rparr>)" for s by (simp add: with_size_def)
    with Simple_ping show ?thesis
      by (auto simp: grpc_chttp2_ping_parser_parse_def Let_def add_qbuf_size gpr_assert_def option.map_comp split: Option.bind_splits)
  qed (simp_all add: grpc_chttp2_ping_parser_parse_def)
next
  fix tp tp' x e and bs :: bytes
  assume "grpc_chttp2_ping_parser_parse tp bs x = Some (e, tp')"
  then show "e \<noteq> GRPC_CHTTP2_STREAM_ERROR \<and> parser tp' = parser tp \<and> incoming_stream (streams tp') = incoming_stream (streams tp)"
    by (auto simp: grpc_chttp2_ping_parser_parse_def Let_def dest!: add_qbuf_keeps split: Option.bind_splits if_splits)
qed (auto simp: call_parser_def more_ping_def split: simple_parser.splits)

section \<open>WINDOW\_UPDATE of the connection\<close>

definition more_window_update :: "grpc_chttp2_transport_parsing \<Rightarrow> nat \<Rightarrow> bool" where
  "more_window_update tp n = (case simple tp of Simple_window_update p \<Rightarrow> unat (update_byte p) + n < 4 | _ \<Rightarrow> True)"

lemma window_update_loop_full: "update_byte p = 4 \<Longrightarrow> window_update_loop p bs = p"
  by (cases bs) simp_all

lemma window_update_loop_append: "window_update_loop p (xs @ ys) = window_update_loop (window_update_loop p xs) ys"
  by (induction p xs rule: window_update_loop.induct) (simp_all add: window_update_loop_full)

lemma window_update_loop_byte:
  "unat (update_byte p) + length bs \<le> 4 \<Longrightarrow> unat (update_byte (window_update_loop p bs)) = unat (update_byte p) + length bs"
proof (induction p bs rule: window_update_loop.induct)
  case (2 p c cur)
  then have "update_byte p \<noteq> 4" "unat (update_byte p) < 8" by auto
  with 2 unat_plus_1[of "update_byte p"] show ?case by auto
qed simp

abbreviation connection_window_update where
  "connection_window_update tp bs x \<equiv> grpc_chttp2_window_update_parser_parse tp None bs x"

interpretation window_update_reader: frame_reader Window_update_parser connection_window_update more_window_update
proof unfold_locales
  fix tp x and xs ys :: bytes
  assume m: "more_window_update tp (length xs)"
  show "connection_window_update tp (xs @ ys) x = parse_then (connection_window_update tp xs False) (\<lambda>tp. connection_window_update tp ys x)"
  proof (cases "simple tp")
    case (Simple_window_update p)
    with m have l: "unat (update_byte p) + length xs < 4" by (simp add: more_window_update_def)
    then have "unat (update_byte (window_update_loop p xs)) < 4" using window_update_loop_byte[of p xs] by simp
    then have "update_byte (window_update_loop p xs) \<noteq> 4" by auto
    with Simple_window_update show ?thesis
      by (simp add: grpc_chttp2_window_update_parser_parse_def window_update_loop_append Let_def)
  qed (simp_all add: grpc_chttp2_window_update_parser_parse_def)
next
  fix tp tp' n and xs :: bytes
  assume "more_window_update tp (length xs + n)" "connection_window_update tp xs False = Some (GRPC_CHTTP2_PARSE_OK, tp')"
  then show "more_window_update tp' n"
    using window_update_loop_byte
    by (cases "simple tp")
       (auto simp: grpc_chttp2_window_update_parser_parse_def more_window_update_def Let_def gpr_assert_def split: if_splits)
next
  fix k tp x and bs :: bytes
  have s: "with_size k tp\<lparr>simple := s\<rparr> = with_size k (tp\<lparr>simple := s\<rparr>)" for s by (simp add: with_size_def)
  have w: "with_size k tp\<lparr>outgoing_window_update := w\<rparr> = with_size k (tp\<lparr>outgoing_window_update := w\<rparr>)" for w tp by (simp add: with_size_def)
  show "connection_window_update (with_size k tp) bs x = map_option (map_prod (\<lambda>e. e) (with_size k)) (connection_window_update tp bs x)"
    by (cases "simple tp")
       (auto simp: grpc_chttp2_window_update_parser_parse_def Let_def s w gpr_assert_def split: Option.bind_splits)
next
  fix tp tp' x e and bs :: bytes
  assume "connection_window_update tp bs x = Some (e, tp')"
  then show "e \<noteq> GRPC_CHTTP2_STREAM_ERROR \<and> parser tp' = parser tp \<and> incoming_stream (streams tp') = incoming_stream (streams tp)"
    by (auto simp: grpc_chttp2_window_update_parser_parse_def Let_def split: Option.bind_splits if_splits)
qed (auto simp: call_parser_def more_window_update_def split: simple_parser.splits)


section \<open>SETTINGS\<close>

text \<open>The parser of settings does not count bytes: any piece may be followed by more.\<close>

definition any_more :: "grpc_chttp2_transport_parsing \<Rightarrow> nat \<Rightarrow> bool" where
  "any_more tp n \<longleftrightarrow> True"

text \<open>A byte changes nothing of the transport but the change of the window.\<close>

lemma settings_byte_map:
  assumes "\<And>w tp. g (tp\<lparr>initial_window_update := w\<rparr>) = (g tp)\<lparr>initial_window_update := w\<rparr>"
  shows "settings_byte (g tp) p c = (case settings_byte tp p c of (e, tp, p) \<Rightarrow> (e, g tp, p))"
proof -
  have "settings_apply (g tp) q = (case settings_apply tp q of (e, tp, p) \<Rightarrow> (e, g tp, p))" for q
    using assms by (auto simp: settings_apply_def Let_def)
  then show ?thesis by (simp add: settings_byte_def split: grpc_chttp2_settings_parse_state.split)
qed

lemma settings_byte_simple:
  "settings_byte (tp\<lparr>simple := s\<rparr>) p c = (case settings_byte tp p c of (e, tp, p) \<Rightarrow> (e, tp\<lparr>simple := s\<rparr>, p))"
  by (rule settings_byte_map[where g = "\<lambda>tp. tp\<lparr>simple := s\<rparr>"]) simp

lemma settings_byte_size:
  "settings_byte (with_size n tp) p c = (case settings_byte tp p c of (e, tp, p) \<Rightarrow> (e, with_size n tp, p))"
  by (rule settings_byte_map) (simp add: with_size_def)

lemma settings_loop_simple: "settings_loop (tp\<lparr>simple := s\<rparr>) p bs x = settings_loop tp p bs x"
proof (induction tp p bs x rule: settings_loop.induct)
  case (2 tp p c cur x)
  then show ?case by (cases "settings_byte tp p c") (auto simp: settings_byte_simple)
qed simp

lemma settings_byte_facts:
  "settings_byte tp p c = (e, tp', p') \<Longrightarrow>
     e \<noteq> GRPC_CHTTP2_STREAM_ERROR \<and> parser tp' = parser tp \<and> streams tp' = streams tp \<and> settings_is_ack p' = settings_is_ack p"
  by (cases "sps_state p") (auto simp: settings_byte_def settings_apply_def Let_def split: if_splits)

lemma settings_loop_split:
  "\<not> settings_is_ack p \<Longrightarrow> settings_loop tp p (xs @ ys) x =
     parse_then (settings_loop tp p xs False) (\<lambda>tp. grpc_chttp2_settings_parser_parse tp ys x)"
proof (induction xs arbitrary: tp p)
  case Nil
  then show ?case by (simp add: grpc_chttp2_settings_parser_parse_def settings_loop_simple)
next
  case (Cons c xs)
  obtain e tp1 p1 where b: "settings_byte tp p c = (e, tp1, p1)" by (cases "settings_byte tp p c")
  with Cons settings_byte_facts[OF b] show ?case by simp
qed

lemma settings_loop_size:
  "settings_loop (with_size k tp) p bs x = map_option (map_prod (\<lambda>e. e) (with_size k)) (settings_loop tp p bs x)"
proof (induction tp p bs x rule: settings_loop.induct)
  case (1 tp p x)
  have "with_size k tp\<lparr>simple := s, settings_updated := u, settings := v\<rparr> =
    with_size k (tp\<lparr>simple := s, settings_updated := u, settings := v\<rparr>)" for s u v by (simp add: with_size_def)
  moreover have "with_size k tp\<lparr>simple := s\<rparr> = with_size k (tp\<lparr>simple := s\<rparr>)" for s by (simp add: with_size_def)
  ultimately show ?case
    by (cases "sps_state p = GRPC_CHTTP2_SPS_ID0 \<and> x"; simp only: settings_loop.simps if_True if_False add_qbuf_size)
       (auto simp: option.map_comp split: Option.bind_splits)
next
  case (2 tp p c cur x)
  have s: "with_size k tp\<lparr>simple := s\<rparr> = with_size k (tp\<lparr>simple := s\<rparr>)" for s tp by (simp add: with_size_def)
  from 2 show ?case by (cases "settings_byte tp p c") (auto simp: settings_byte_size s)
qed

lemma settings_loop_keeps:
  "settings_loop tp p bs x = Some (e, tp') \<Longrightarrow>
     e \<noteq> GRPC_CHTTP2_STREAM_ERROR \<and> parser tp' = parser tp \<and> streams tp' = streams tp"
proof (induction tp p bs x rule: settings_loop.induct)
  case (1 tp p x)
  then show ?case by (auto dest!: add_qbuf_keeps split: if_splits Option.bind_splits)
next
  case (2 tp p c cur x)
  obtain e1 tp1 p1 where b: "settings_byte tp p c = (e1, tp1, p1)" by (cases "settings_byte tp p c")
  with 2 settings_byte_facts[OF b] show ?case by (auto split: if_splits)
qed

lemma simple_settings_Some: "simple_settings s = Some p \<longleftrightarrow> s = Simple_settings p"
  by (cases s) auto

interpretation settings_reader: frame_reader Settings_parser grpc_chttp2_settings_parser_parse any_more
proof unfold_locales
  fix tp x and xs ys :: bytes
  show "grpc_chttp2_settings_parser_parse tp (xs @ ys) x =
    parse_then (grpc_chttp2_settings_parser_parse tp xs False) (\<lambda>tp. grpc_chttp2_settings_parser_parse tp ys x)"
  proof (cases "simple_settings (simple tp)")
    case (Some p)
    then show ?thesis
      by (cases "settings_is_ack p") (simp_all add: grpc_chttp2_settings_parser_parse_def[of tp] settings_loop_split
        grpc_chttp2_settings_parser_parse_def[of tp ys])
  qed (simp add: grpc_chttp2_settings_parser_parse_def)
next
  fix k tp x and bs :: bytes
  show "grpc_chttp2_settings_parser_parse (with_size k tp) bs x =
    map_option (map_prod (\<lambda>e. e) (with_size k)) (grpc_chttp2_settings_parser_parse tp bs x)"
    by (cases "simple_settings (simple tp)") (auto simp: grpc_chttp2_settings_parser_parse_def settings_loop_size)
next
  fix tp tp' x e and bs :: bytes
  assume "grpc_chttp2_settings_parser_parse tp bs x = Some (e, tp')"
  then show "e \<noteq> GRPC_CHTTP2_STREAM_ERROR \<and> parser tp' = parser tp \<and> incoming_stream (streams tp') = incoming_stream (streams tp)"
    by (auto simp: grpc_chttp2_settings_parser_parse_def dest!: settings_loop_keeps split: if_splits Option.bind_splits)
qed (auto simp: call_parser_def any_more_def)

section \<open>GOAWAY\<close>

definition more_goaway :: "grpc_chttp2_transport_parsing \<Rightarrow> nat \<Rightarrow> bool" where
  "more_goaway tp n \<longleftrightarrow> (\<forall>buf. debug_data (goaway_parser tp) = Some buf \<longrightarrow> length buf < 2 ^ 32)"

lemma goaway_parser_byte_keeps [simp]:
  "debug_data (goaway_parser_byte p c) = debug_data p" "debug_pos (goaway_parser_byte p c) = debug_pos p"
  by (auto split: grpc_chttp2_goaway_parse_state.splits)

lemma goaway_debug_state: "goaway_state (goaway_parser tp) = GRPC_CHTTP2_GOAWAY_DEBUG \<Longrightarrow>
    grpc_chttp2_goaway_parser_parse tp bs x = goaway_debug tp bs x"
  by (cases bs) simp_all

definition overwrite :: "nat \<Rightarrow> bytes \<Rightarrow> bytes \<Rightarrow> bytes" where
  "overwrite i bs buf = take i buf @ bs @ drop (i + length bs) buf"

lemma overwrite_twice:
  "i + length xs \<le> length buf \<Longrightarrow> overwrite (i + length xs) ys (overwrite i xs buf) = overwrite i (xs @ ys) buf"
  by (cases xs) (auto simp: overwrite_def min_def ac_simps)

lemma length_overwrite: "i + length xs \<le> length buf \<Longrightarrow> length (overwrite i xs buf) = length buf"
  by (simp add: overwrite_def)

definition goaway_store :: "grpc_chttp2_transport_parsing \<Rightarrow> bytes \<Rightarrow> u32 \<Rightarrow> bool \<Rightarrow> grpc_chttp2_transport_parsing" where
  "goaway_store tp buf pos x =
     (let p = (goaway_parser tp)\<lparr>debug_data := Some buf, debug_pos := pos, goaway_state := GRPC_CHTTP2_GOAWAY_DEBUG\<rparr> in
      if x then tp\<lparr>goaway_parser := p\<lparr>debug_data := None\<rparr>, goaway_received := True,
        goaway_last_stream_index := last_stream_id p, goaway_error := error_code p, goaway_text := gpr_slice_new buf\<rparr>
      else tp\<lparr>goaway_parser := p\<rparr>)"

lemma goaway_debug_store:
  "debug_data (goaway_parser tp) = Some buf \<Longrightarrow> goaway_debug tp bs x =
     (let i = unat (debug_pos (goaway_parser tp)) in
      if i + length bs \<le> length buf
      then Some (GRPC_CHTTP2_PARSE_OK, goaway_store tp (overwrite i bs buf) (debug_pos (goaway_parser tp) + word_of_nat (length bs)) x)
      else None)"
  by (simp add: goaway_debug_def goaway_store_def overwrite_def gpr_assert_def Let_def)

lemma goaway_debug_null: "debug_data (goaway_parser tp) = None \<Longrightarrow> goaway_debug tp bs x = None"
  by (simp add: goaway_debug_def Let_def)

lemma goaway_store_simps [simp]:
  "goaway_store (goaway_store tp buf pos False) buf' pos' x = goaway_store tp buf' pos' x"
  "debug_data (goaway_parser (goaway_store tp buf pos False)) = Some buf"
  "debug_pos (goaway_parser (goaway_store tp buf pos False)) = pos"
  "goaway_state (goaway_parser (goaway_store tp buf pos x)) = GRPC_CHTTP2_GOAWAY_DEBUG"
  "parser (goaway_store tp buf pos x) = parser tp" "streams (goaway_store tp buf pos x) = streams tp"
  "goaway_store (with_size k tp) buf pos x = with_size k (goaway_store tp buf pos x)"
  by (simp_all add: goaway_store_def with_size_def Let_def)

lemma goaway_debug_split:
  assumes "more_goaway tp n"
  shows "goaway_debug tp (xs @ ys) x = parse_then (goaway_debug tp xs False) (\<lambda>tp. goaway_debug tp ys x)"
proof (cases "debug_data (goaway_parser tp)")
  case (Some buf)
  let ?pos = "debug_pos (goaway_parser tp)"
  have buf: "length buf < 2 ^ 32" using assms Some by (simp add: more_goaway_def)
  show ?thesis
  proof (cases "unat ?pos + length xs \<le> length buf")
    case True
    then have "unat (?pos + word_of_nat (length xs)) = unat ?pos + length xs"
      using buf by (simp add: unat_word_ariths unat_of_nat take_bit_nat_eq_self)
    with True show ?thesis
      by (simp add: goaway_debug_store[OF Some] goaway_debug_store Let_def length_overwrite overwrite_twice add.assoc)
  qed (simp add: goaway_debug_store[OF Some] Let_def)
qed (simp add: goaway_debug_null)

lemma goaway_debug_then:
  "parse_then (goaway_debug tp bs False) (\<lambda>tp. goaway_debug tp ys x) =
     parse_then (goaway_debug tp bs False) (\<lambda>tp. grpc_chttp2_goaway_parser_parse tp ys x)"
  by (cases "debug_data (goaway_parser tp)") (auto simp: goaway_debug_store goaway_debug_null goaway_debug_state Let_def)

lemma goaway_split:
  "more_goaway tp n \<Longrightarrow> grpc_chttp2_goaway_parser_parse tp (xs @ ys) x =
     parse_then (grpc_chttp2_goaway_parser_parse tp xs False) (\<lambda>tp. grpc_chttp2_goaway_parser_parse tp ys x)"
proof (induction xs arbitrary: tp)
  case Nil
  show ?case
  proof (cases "goaway_state (goaway_parser tp) = GRPC_CHTTP2_GOAWAY_DEBUG")
    case True
    have "goaway_debug tp ys x = parse_then (goaway_debug tp [] False) (\<lambda>tp. goaway_debug tp ys x)"
      using goaway_debug_split[OF Nil, of "[]" ys x] by simp
    also note goaway_debug_then
    finally show ?thesis using True by (simp add: goaway_debug_state)
  qed simp
next
  case (Cons c xs)
  show ?case
  proof (cases "goaway_state (goaway_parser tp) = GRPC_CHTTP2_GOAWAY_DEBUG")
    case True
    have "goaway_debug tp (c # xs @ ys) x = parse_then (goaway_debug tp (c # xs) False) (\<lambda>tp. goaway_debug tp ys x)"
      using goaway_debug_split[OF Cons.prems, of "c # xs" ys x] by simp
    also note goaway_debug_then
    finally show ?thesis using True by (simp add: goaway_debug_state)
  next
    case False
    have "more_goaway (tp\<lparr>goaway_parser := goaway_parser_byte (goaway_parser tp) c\<rparr>) n"
      using Cons.prems by (simp add: more_goaway_def del: goaway_parser_byte.simps)
    from Cons.IH[OF this] False show ?thesis by (simp del: goaway_parser_byte.simps)
  qed
qed

lemma goaway_debug_size:
  "goaway_debug (with_size k tp) bs x = map_option (map_prod (\<lambda>e. e) (with_size k)) (goaway_debug tp bs x)"
  by (cases "debug_data (goaway_parser tp)") (simp_all add: goaway_debug_store goaway_debug_null Let_def)

lemma goaway_size:
  "grpc_chttp2_goaway_parser_parse (with_size k tp) bs x = map_option (map_prod (\<lambda>e. e) (with_size k)) (grpc_chttp2_goaway_parser_parse tp bs x)"
proof (induction bs arbitrary: tp)
  case Nil
  then show ?case by (simp add: goaway_debug_size)
next
  case (Cons c bs)
  have "with_size k tp\<lparr>goaway_parser := p\<rparr> = with_size k (tp\<lparr>goaway_parser := p\<rparr>)" for p by (simp add: with_size_def)
  with Cons show ?case by (simp add: goaway_debug_size del: goaway_parser_byte.simps)
qed

lemma goaway_debug_left: "goaway_debug tp bs False = Some (e, tp') \<Longrightarrow> more_goaway tp n \<Longrightarrow> more_goaway tp' m"
  by (cases "debug_data (goaway_parser tp)")
     (auto simp: goaway_debug_store goaway_debug_null more_goaway_def Let_def length_overwrite split: if_splits)

lemma goaway_left: "grpc_chttp2_goaway_parser_parse tp xs False = Some (e, tp') \<Longrightarrow> more_goaway tp n \<Longrightarrow> more_goaway tp' m"
proof (induction xs arbitrary: tp)
  case Nil
  show ?case
  proof (cases "goaway_state (goaway_parser tp) = GRPC_CHTTP2_GOAWAY_DEBUG")
    case True
    with Nil have "goaway_debug tp [] False = Some (e, tp')" by simp
    from goaway_debug_left[OF this Nil(2)] show ?thesis .
  qed (use Nil in \<open>auto simp: more_goaway_def\<close>)
next
  case (Cons c xs)
  show ?case
  proof (cases "goaway_state (goaway_parser tp) = GRPC_CHTTP2_GOAWAY_DEBUG")
    case True
    with Cons.prems have "goaway_debug tp (c # xs) False = Some (e, tp')" by simp
    from goaway_debug_left[OF this Cons.prems(2)] show ?thesis .
  next
    case False
    have "more_goaway (tp\<lparr>goaway_parser := goaway_parser_byte (goaway_parser tp) c\<rparr>) n"
      using Cons.prems(2) by (simp add: more_goaway_def del: goaway_parser_byte.simps)
    from Cons.IH[OF _ this] Cons.prems(1) False show ?thesis by (simp del: goaway_parser_byte.simps)
  qed
qed

lemma goaway_keeps:
  "grpc_chttp2_goaway_parser_parse tp bs x = Some (e, tp') \<Longrightarrow>
     e = GRPC_CHTTP2_PARSE_OK \<and> parser tp' = parser tp \<and> streams tp' = streams tp"
proof (induction tp bs x rule: grpc_chttp2_goaway_parser_parse.induct)
  case (1 tp x)
  then show ?case
    by (cases "debug_data (goaway_parser tp)")
       (auto simp: goaway_debug_store goaway_debug_null Let_def split: if_splits)
next
  case (2 tp c cur x)
  then show ?case
    by (cases "debug_data (goaway_parser tp)")
       (auto simp: goaway_debug_store goaway_debug_null Let_def simp del: goaway_parser_byte.simps split: if_splits)
qed

interpretation goaway_reader: frame_reader Goaway_parser grpc_chttp2_goaway_parser_parse more_goaway
proof unfold_locales
  fix tp tp' n and xs :: bytes
  assume "more_goaway tp (length xs + n)" "grpc_chttp2_goaway_parser_parse tp xs False = Some (GRPC_CHTTP2_PARSE_OK, tp')"
  then show "more_goaway tp' n" using goaway_left by blast
next
  fix tp tp' x e and bs :: bytes
  assume "grpc_chttp2_goaway_parser_parse tp bs x = Some (e, tp')"
  from goaway_keeps[OF this]
  show "e \<noteq> GRPC_CHTTP2_STREAM_ERROR \<and> parser tp' = parser tp \<and> incoming_stream (streams tp') = incoming_stream (streams tp)" by simp
qed (auto simp: call_parser_def more_goaway_def goaway_size intro: goaway_split[unfolded more_goaway_def])

end
