(* ===== verification/Connection_Frames.thy ===== *)
theory Connection_Frames
  imports Frame_Pieces
begin

text \<open>
  Reading the frames of the connection itself: SETTINGS, PING, GOAWAY and WINDOW\_UPDATE with
  stream 0.
\<close>

section \<open>Slicing does not matter\<close>

definition connection_frame :: "u32 \<times> http2_frame \<Rightarrow> bool" where
  "connection_frame = (\<lambda>(sid, f). sid AND 0x7fffffff = 0 \<and> length (wire_payload f) < 2 ^ 24 \<and>
     wire_type f \<in> {GRPC_CHTTP2_FRAME_SETTINGS, GRPC_CHTTP2_FRAME_PING, GRPC_CHTTP2_FRAME_GOAWAY, GRPC_CHTTP2_FRAME_WINDOW_UPDATE})"

text \<open>What the beginning of such a frame leaves for its parser.\<close>

definition pieces_ignored :: "grpc_chttp2_transport_parsing \<Rightarrow> bytes \<Rightarrow> bool" where
  "pieces_ignored tp payload \<longleftrightarrow>
     (\<exists>r. \<forall>pieces. pieces_of pieces payload \<longrightarrow> up_to_size (feed_payload tp pieces) = r)"

lemma word_of_length_eq: "n < 2 ^ 24 \<Longrightarrow> m < 2 ^ 24 \<Longrightarrow> (word_of_nat n :: u32) = word_of_nat m \<longleftrightarrow> n = m"
proof
  assume "n < 2 ^ 24" "m < 2 ^ 24" and eq: "(word_of_nat n :: u32) = word_of_nat m"
  then have "n < 2 ^ 32" "m < 2 ^ 32" by simp_all
  then show "n = m" using arg_cong[OF eq, of unat] by (simp only: unat_word_of_length)
qed simp

lemma pieces_ignored_by:
  "parser tp = Some Ping_parser \<Longrightarrow> incoming_stream (streams tp) = None \<Longrightarrow> more_ping tp (length payload - 1) \<Longrightarrow> pieces_ignored tp payload"
  "parser tp = Some Window_update_parser \<Longrightarrow> incoming_stream (streams tp) = None \<Longrightarrow> more_window_update tp (length payload - 1) \<Longrightarrow> pieces_ignored tp payload"
  "parser tp = Some Settings_parser \<Longrightarrow> incoming_stream (streams tp) = None \<Longrightarrow> pieces_ignored tp payload"
  "parser tp = Some Goaway_parser \<Longrightarrow> incoming_stream (streams tp) = None \<Longrightarrow> more_goaway tp (length payload - 1) \<Longrightarrow> pieces_ignored tp payload"
  using ping_reader.payload_in_pieces window_update_reader.payload_in_pieces settings_reader.payload_in_pieces
    goaway_reader.payload_in_pieces
  unfolding pieces_ignored_def by (blast, blast, (metis any_more_def), blast)

lemma connection_frame_begun:
  assumes "connection_frame (sid, f)" "incoming_stream (streams tp) = None"
    "init_frame_parser env (frame_header sid f tp) = Some (True, tp1)"
  shows "incoming_stream (streams tp1) = None \<and> incoming_stream_id tp1 = 0 \<and> pieces_ignored tp1 (wire_payload f)"
proof -
  let ?n = "length (wire_payload f)"
  let ?tp = "frame_header sid f tp"
  have h: "incoming_frame_type ?tp = wire_type f" "incoming_frame_size ?tp = word_of_nat ?n" "incoming_stream_id ?tp = 0"
    "streams ?tp = streams tp" "sid AND 0x7fffffff = 0" "?n < 2 ^ 24"
    using assms(1) by (simp_all add: frame_header_def connection_frame_def)
  have len: "(word_of_nat ?n :: u32) = 8 \<longleftrightarrow> ?n = 8" "(word_of_nat ?n :: u32) = 4 \<longleftrightarrow> ?n = 4"
    using word_of_length_eq[OF h(6), of 8] word_of_length_eq[OF h(6), of 4] by simp_all
  have e: "expect_continuation_stream_id ?tp = 0"
    using assms(1,3) by (auto simp: init_frame_parser_def h connection_frame_def split: if_splits)
  consider "wire_type f = GRPC_CHTTP2_FRAME_PING" | "wire_type f = GRPC_CHTTP2_FRAME_WINDOW_UPDATE"
    | "wire_type f = GRPC_CHTTP2_FRAME_SETTINGS" | "wire_type f = GRPC_CHTTP2_FRAME_GOAWAY"
    using assms(1) by (auto simp: connection_frame_def)
  then show ?thesis
  proof cases
    case 1
    with assms(3) e have "init_ping_parser ?tp = (True, tp1)" by (simp add: init_frame_parser_def h)
    then show ?thesis
      using assms(2) h len by (auto simp: init_ping_parser_def grpc_chttp2_ping_parser_begin_frame_def Let_def more_ping_def
          intro!: pieces_ignored_by(1) split: if_splits)
  next
    case 2
    with assms(3) e have "init_window_update_frame_parser ?tp = Some (True, tp1)" by (simp add: init_frame_parser_def h)
    then show ?thesis
      using assms(2) h len
      by (auto simp: init_window_update_frame_parser_def grpc_chttp2_window_update_parser_begin_frame_def Let_def more_window_update_def
          intro!: pieces_ignored_by(2) split: if_splits)
  next
    case 3
    with assms(3) e have "init_settings_frame_parser ?tp = (True, tp1)" by (simp add: init_frame_parser_def h)
    then show ?thesis
      using assms(2) h by (auto simp: init_settings_frame_parser_def Let_def intro!: pieces_ignored_by(3) split: if_splits prod.splits)
  next
    case 4
    with assms(3) e have "init_goaway_parser ?tp = (True, tp1)" by (simp add: init_frame_parser_def h)
    moreover have "unat (w :: u32) < 4294967296" for w using unsigned_less[of w, where 'a = nat] by simp
    ultimately show ?thesis
      using assms(2) h
      by (auto simp: init_goaway_parser_def grpc_chttp2_goaway_parser_begin_frame_def Let_def more_goaway_def
          intro!: pieces_ignored_by(4) split: if_splits)
  qed
qed

lemma frame_header_size: "frame_header sid f (with_size n tp) = frame_header sid f tp"
  by (simp add: frame_header_def with_size_def)

lemma read_frame_size: "read_frame env (with_size n tp) sid f pieces = read_frame env tp sid f pieces"
  by (simp add: read_frame_def frame_header_size)

lemma with_size_done: "with_size n (frame_done tp) = frame_done (with_size n tp)"
  by (simp add: set_incoming_stream_def with_size_def)

lemma read_connection_frame:
  assumes "connection_frame (sid, f)" "incoming_stream (streams tp) = None"
    "pieces_of pieces (wire_payload f)" "pieces_of pieces' (wire_payload f)"
  shows "up_to_size (read_frame env tp sid f pieces) = up_to_size (read_frame env tp sid f pieces')"
proof (cases "\<exists>tp1. init_frame_parser env (frame_header sid f tp) = Some (True, tp1)")
  case True
  then obtain tp1 where i: "init_frame_parser env (frame_header sid f tp) = Some (True, tp1)" ..
  note b = connection_frame_begun[OF assms(1,2) i]
  then have "up_to_size (feed_payload tp1 pieces) = up_to_size (feed_payload tp1 pieces')"
    using assms(3,4) by (auto simp: pieces_ignored_def)
  then show ?thesis
    using i b
    by (cases "feed_payload tp1 pieces"; cases "feed_payload tp1 pieces'")
       (auto simp: read_frame_def with_size_done split: if_splits)
next
  case False
  then show ?thesis
    by (cases "init_frame_parser env (frame_header sid f tp)") (auto simp: read_frame_def)
qed

lemma up_to_size_cases:
  assumes "up_to_size r = up_to_size r'"
  obtains "r = None" "r' = None"
    | e tp tp' where "r = Some (e, tp)" "r' = Some (e, tp')" "with_size 0 tp = with_size 0 tp'"
  using assms by (cases r; cases r') (auto simp: up_to_size_def)

lemma with_size_eq: "with_size 0 tp = with_size 0 tp' \<Longrightarrow> \<exists>n. tp' = with_size n tp"
  by (intro exI[of _ "incoming_frame_size tp'"]) (cases tp, cases tp', simp add: with_size_def)

lemma perform_reads_size:
  "deframe_state tp = GRPC_DTS_FH_0 \<Longrightarrow> slices_bytes sls \<noteq> [] \<Longrightarrow> good_slices sls \<Longrightarrow>
     perform_reads env (with_size n tp) sls = perform_reads env tp sls"
proof (induction sls)
  case (Cons sl sls)
  show ?case
  proof (cases "slice_bytes sl")
    case Nil
    with Cons show ?thesis by (simp add: perform_reads_empty good_slices_def del: perform_reads.simps)
  next
    case (Cons b bs)
    have "header_byte (with_size n tp) b = header_byte tp b" using Cons.prems(1) by (simp add: with_size_def)
    with Cons Cons.prems(1) show ?thesis
      by (simp add: perform_reads_header_byte del: perform_reads.simps header_byte.simps)
  qed
qed simp

text \<open>
  C5. The slicing of the frames of a connection does not matter. Two ways to cut the bytes of a
  sequence of SETTINGS, PING, GOAWAY and connection WINDOW\_UPDATE frames into slices, well
  formed or not, give the same answer and the same state (but for the length of the frame that
  was read last), or both abort.
\<close>

theorem connection_reads_sliced:
  assumes "deframe_state tp = GRPC_DTS_FH_0" "incoming_stream (streams tp) = None" "\<forall>x \<in> set fs. connection_frame x"
    and "slices_bytes sls = wire_bytes fs" "good_slices sls" "slices_bytes sls' = wire_bytes fs" "good_slices sls'"
  shows "up_to_size (perform_reads env tp sls) = up_to_size (perform_reads env tp sls')"
  using assms
proof (induction fs arbitrary: tp sls sls')
  case Nil
  then show ?case by (simp add: perform_reads_nothing wire_bytes_def)
next
  case (Cons x fs)
  obtain sid f where x: "x = (sid, f)" by (cases x)
  have c: "connection_frame (sid, f)" using Cons.prems(3) x by simp
  then have len: "length (wire_payload f) < 2 ^ 24" by (simp add: connection_frame_def)
  have b: "slices_bytes sls = frame_bytes sid f @ wire_bytes fs" "slices_bytes sls' = frame_bytes sid f @ wire_bytes fs"
    using Cons.prems(4,6) x by (simp_all add: wire_bytes_def)
  from perform_reads_frame[OF Cons.prems(1) len b(1) Cons.prems(5), of env] obtain ps rest where
    p: "pieces_of ps (wire_payload f)" "good_slices rest" "slices_bytes rest = wire_bytes fs"
    "perform_reads env tp sls =
       do { (ok, tp) \<leftarrow> read_frame env tp sid f ps; (if ok then perform_reads env tp rest else Some (False, tp)) }" by blast
  from perform_reads_frame[OF Cons.prems(1) len b(2) Cons.prems(7), of env] obtain ps' rest' where
    p': "pieces_of ps' (wire_payload f)" "good_slices rest'" "slices_bytes rest' = wire_bytes fs"
    "perform_reads env tp sls' =
       do { (ok, tp) \<leftarrow> read_frame env tp sid f ps'; (if ok then perform_reads env tp rest' else Some (False, tp)) }" by blast
  from read_connection_frame[OF c Cons.prems(2) p(1) p'(1), of env] show ?case
  proof (cases rule: up_to_size_cases)
    case 1
    with p(4) p'(4) show ?thesis by simp
  next
    case (2 ok tp1 tp2)
    show ?thesis
    proof (cases ok)
      case True
      have st: "deframe_state tp1 = GRPC_DTS_FH_0" "incoming_stream (streams tp1) = None"
        using 2(1) True by (auto simp: read_frame_def split: Option.bind_splits if_splits)
      from with_size_eq[OF 2(3)] obtain n where n: "tp2 = with_size n tp1" ..
      have "up_to_size (perform_reads env tp1 rest) = up_to_size (perform_reads env tp1 rest')"
        using Cons.IH[OF st _ p(3,2) p'(3,2)] Cons.prems(3) by simp
      also have "\<dots> = up_to_size (perform_reads env tp2 rest')"
      proof (cases "wire_bytes fs = []")
        case True
        with n p'(3) show ?thesis by (simp add: perform_reads_nothing)
      qed (use perform_reads_size[OF st(1) _ p'(2), of env n] p'(3) n in simp)
      finally show ?thesis using p(4) p'(4) 2 True by simp
    qed (use p(4) p'(4) 2 in simp)
  qed
qed

theorem connection_reads_sliced_witness:
  "\<exists>tp. init_transport_parsing True = Some tp \<and>
     up_to_size (perform_reads quiet_env tp
       [Refcounted [0, 0, 4, 8, 0, 0, 0], Refcounted [0, 0, 0, 0], Refcounted [1, 0, 0, 0, 0, 4, 1, 0, 0, 0, 0]]) =
     up_to_size (perform_reads quiet_env tp [Refcounted [0, 0, 4, 8, 0, 0, 0, 0, 0, 0, 0, 1, 0, 0, 0, 0, 4, 1, 0, 0, 0, 0]])"
proof -
  obtain tp where tp: "init_transport_parsing True = Some tp" "deframe_state tp = GRPC_DTS_FH_0"
    "incoming_stream (streams tp) = None" by (rule client_connected)
  from connection_reads_sliced[OF tp(2,3), of "[(0, Frame 8 0 [0, 0, 1, 0]), (0, Frame 4 1 [])]"
      "[Refcounted [0, 0, 4, 8, 0, 0, 0], Refcounted [0, 0, 0, 0], Refcounted [1, 0, 0, 0, 0, 4, 1, 0, 0, 0, 0]]"
      "[Refcounted [0, 0, 4, 8, 0, 0, 0, 0, 0, 0, 0, 1, 0, 0, 0, 0, 4, 1, 0, 0, 0, 0]]" quiet_env]
  show ?thesis using tp(1)
    by (simp add: wire_bytes_def frame_bytes_def fill_header_def good_slices_def slice_ok_def slices_bytes_def connection_frame_def)
qed

section \<open>A whole ping\<close>

lemma ping_loop_whole:
  assumes "length payload = 8"
  shows "ping_loop \<lparr> ping_byte = 0, ping_is_ack = a, opaque_8bytes = replicate 8 0 \<rparr> payload =
    \<lparr> ping_byte = 8, ping_is_ack = a, opaque_8bytes = payload \<rparr>"
proof -
  obtain b0 b1 b2 b3 b4 b5 b6 b7 where "payload = [b0, b1, b2, b3, b4, b5, b6, b7]"
    using assms by (auto simp: length_Suc_conv eval_nat_numeral)
  moreover have "replicate 8 (0 :: u8) = [0, 0, 0, 0, 0, 0, 0, 0]" by (simp add: numeral_eq_Suc)
  ultimately show ?thesis by simp
qed

end
