(* ===== verification/Settings_Roundtrip.thy ===== *)
theory Settings_Roundtrip
  imports Connection_Frames
begin

text \<open>
  What one side writes about its settings and pings, the other side reads, and answers.
\<close>

section \<open>Reading one frame of the connection\<close>

lemma add_qbuf_ok:
  assumes "slice_buffer_ok (qbuf tp)" "slice_ok sl"
  obtains q where "add_qbuf tp sl = Some (tp\<lparr>qbuf := q\<rparr>)" "slice_buffer_ok q"
    "buffer_bytes q = buffer_bytes (qbuf tp) @ slice_bytes sl"
  using buffer_add_ok[OF assms] by (auto simp: add_qbuf_def buffer_added_def intro: that)

lemma read_whole_frame:
  assumes "deframe_state tp = GRPC_DTS_FH_0" "incoming_stream (streams tp) = None" "connection_frame (sid, f)"
    "slices_bytes sls = frame_bytes sid f" "good_slices sls"
    "init_frame_parser env (frame_header sid f tp) = Some (True, tp1)"
    "\<And>pieces. pieces_of pieces (wire_payload f) \<Longrightarrow> up_to_size (feed_payload tp1 pieces) = Some (True, tp2)"
  shows "\<exists>n. perform_reads env tp sls = Some (True, frame_done (with_size n tp2))"
proof -
  have len: "length (wire_payload f) < 2 ^ 24" using assms(3) by (simp add: connection_frame_def)
  from perform_reads_frame[OF assms(1) len, of sls sid "[]" env] assms(4,5) obtain ps rest where
    p: "pieces_of ps (wire_payload f)" "slices_bytes rest = []"
    "perform_reads env tp sls =
       do { (ok, tp) \<leftarrow> read_frame env tp sid f ps; (if ok then perform_reads env tp rest else Some (False, tp)) }" by auto
  from assms(7)[OF p(1)] obtain tp3 where f: "feed_payload tp1 ps = Some (True, tp3)" "tp2 = with_size 0 tp3"
    by (auto simp: up_to_size_def)
  have "incoming_stream_id tp1 = 0" using connection_frame_begun[OF assms(3,2,6)] by simp
  then have "read_frame env tp sid f ps = Some (True, frame_done tp3)" using assms(6) f(1) by (simp add: read_frame_def)
  moreover have "frame_done (with_size (incoming_frame_size tp3) tp2) = frame_done tp3"
    using f(2) by (simp add: with_size_def set_incoming_stream_def)
  ultimately show ?thesis using p(2,3) by (intro exI[of _ "incoming_frame_size tp3"]) (simp add: perform_reads_nothing)
qed

section \<open>Pings\<close>

text \<open>
  A ping is answered with its own data: however the bytes of a PING frame that is not an
  answer are cut into slices, reading them succeeds and queues the PING frame with the same
  eight bytes and the flag ACK.
\<close>

theorem ping_answered:
  assumes "deframe_state tp = GRPC_DTS_FH_0" "incoming_stream (streams tp) = None" "expect_continuation_stream_id tp = 0"
    "slice_buffer_ok (qbuf tp)" "length payload = 8"
    and "slices_bytes sls = frame_bytes 0 (Frame GRPC_CHTTP2_FRAME_PING 0 payload)" "good_slices sls"
  shows "\<exists>tp'. perform_reads env tp sls = Some (True, tp') \<and> deframe_state tp' = GRPC_DTS_FH_0 \<and>
     buffer_bytes (qbuf tp') = buffer_bytes (qbuf tp) @ frame_bytes 0 (Frame GRPC_CHTTP2_FRAME_PING GRPC_CHTTP2_FLAG_ACK payload)"
proof -
  let ?f = "Frame GRPC_CHTTP2_FRAME_PING 0 payload"
  let ?p = "\<lparr> ping_byte = 0, ping_is_ack = 0, opaque_8bytes = replicate 8 0 \<rparr>"
  let ?tp1 = "(frame_header 0 ?f tp)\<lparr>simple := Simple_ping ?p, parser := Some Ping_parser\<rparr>"
  have init: "init_frame_parser env (frame_header 0 ?f tp) = Some (True, ?tp1)"
    using assms(3,5) by (simp add: init_frame_parser_def frame_header_def init_ping_parser_def grpc_chttp2_ping_parser_begin_frame_def)
  let ?tp2 = "?tp1\<lparr>simple := Simple_ping \<lparr> ping_byte = 8, ping_is_ack = 0, opaque_8bytes = payload \<rparr>\<rparr>"
  have ok: "slice_ok (grpc_chttp2_ping_create 1 payload)" by (auto simp: grpc_chttp2_ping_create_def gpr_slice_malloc_def slice_ok_def)
  obtain q where q: "add_qbuf ?tp2 (grpc_chttp2_ping_create 1 payload) = Some (?tp2\<lparr>qbuf := q\<rparr>)"
    "buffer_bytes q = buffer_bytes (qbuf tp) @ slice_bytes (grpc_chttp2_ping_create 1 payload)"
    using add_qbuf_ok[OF _ ok, of ?tp2] assms(4) by (auto simp: frame_header_def)
  have parse: "grpc_chttp2_ping_parser_parse ?tp1 payload True = Some (GRPC_CHTTP2_PARSE_OK, ?tp2\<lparr>qbuf := q\<rparr>)"
    using q(1) ping_loop_whole[OF assms(5), of 0] by (simp add: grpc_chttp2_ping_parser_parse_def gpr_assert_def)
  have feed: "up_to_size (feed_payload ?tp1 pieces) = Some (True, with_size 0 (?tp2\<lparr>qbuf := q\<rparr>))"
    if "pieces_of pieces (wire_payload ?f)" for pieces
    using ping_reader.payload_in_pieces[of ?tp1 payload pieces] that assms(2,5) parse
    by (simp add: more_ping_def frame_header_def)
  have "connection_frame (0, ?f)" using assms(5) by (simp add: connection_frame_def)
  from read_whole_frame[OF assms(1,2) this assms(6,7) init feed] obtain n where
    "perform_reads env tp sls = Some (True, frame_done (with_size n (with_size 0 (?tp2\<lparr>qbuf := q\<rparr>))))" ..
  moreover have "slice_bytes (grpc_chttp2_ping_create 1 payload) = frame_bytes 0 (Frame GRPC_CHTTP2_FRAME_PING GRPC_CHTTP2_FLAG_ACK payload)"
    using assms(5) by (simp add: grpc_chttp2_ping_create_def gpr_slice_malloc_def frame_bytes_def fill_header_def)
  ultimately show ?thesis using q(2) by (simp add: set_incoming_stream_def)
qed

theorem ping_answered_witness:
  "\<exists>tp tp'. init_transport_parsing True = Some tp \<and>
     perform_reads quiet_env tp [Refcounted [0, 0, 8, 6, 0], Refcounted [0, 0, 0, 0, 1, 2, 3, 4, 5, 6, 7, 8]] = Some (True, tp') \<and>
     buffer_bytes (qbuf tp') = [0, 0, 8, 6, 1, 0, 0, 0, 0, 1, 2, 3, 4, 5, 6, 7, 8]"
proof -
  obtain tp where tp: "init_transport_parsing True = Some tp" "deframe_state tp = GRPC_DTS_FH_0"
    "incoming_stream (streams tp) = None" "expect_continuation_stream_id tp = 0" "qbuf tp = gpr_slice_buffer_init"
    by (rule client_connected)
  from ping_answered[OF tp(2-4), of "[1, 2, 3, 4, 5, 6, 7, 8]"
      "[Refcounted [0, 0, 8, 6, 0], Refcounted [0, 0, 0, 0, 1, 2, 3, 4, 5, 6, 7, 8]]" quiet_env]
  show ?thesis using tp(1,5)
    by (auto simp: frame_bytes_def fill_header_def good_slices_def slice_ok_def slices_bytes_def empty_buffer)
qed


section \<open>Settings\<close>

text \<open>Settings that a peer may choose.\<close>

definition settings_allowed :: "u32 list \<Rightarrow> bool" where
  "settings_allowed new \<longleftrightarrow> length new = GRPC_CHTTP2_NUM_SETTINGS \<and>
     (\<forall>i \<in> {1..<GRPC_CHTTP2_NUM_SETTINGS}.
        min_value (grpc_chttp2_settings_parameters ! i) \<le> new ! i \<and> new ! i \<le> max_value (grpc_chttp2_settings_parameters ! i))"

lemma settings_write_new:
  "settings_write old new force is = Some (bs, old') \<Longrightarrow>
     length old' = length old \<and> (\<forall>i. old' ! i = (if i \<in> set is \<and> i < length old then new ! i else old ! i))"
proof (induction "is" arbitrary: old bs old')
  case (Cons i "is")
  show ?case
  proof (cases "setting_sent old new force i")
    case (Some b)
    have "c_read new i = Some (new ! i)" "c_read old i = Some (old ! i)" "i < length old" "i < length new" "\<not> b \<Longrightarrow> new ! i = old ! i"
      using Some by (auto simp: setting_sent_def c_read_def split: if_splits Option.bind_splits)
    with Cons Some show ?thesis
      by (fastforce simp: c_write_def nth_list_update split: if_splits Option.bind_splits)
  qed (use Cons.prems in simp)
qed simp

text \<open>The six bytes of a setting.\<close>

lemma setting_id_read:
  assumes "i < GRPC_CHTTP2_NUM_SETTINGS"
  shows "push_bit 8 (ucast (word_of_nat (i div 256) :: u8)) OR ucast (word_of_nat i :: u8) = (word_of_nat i :: u16)"
    "unat (word_of_nat i :: u16) = i" "ucast (word_of_nat i :: u8) = (word_of_nat i :: u16)"
proof -
  have "i \<in> {0, 1, 2, 3, 4, 5, 6}" using assms by auto
  then show "push_bit 8 (ucast (word_of_nat (i div 256) :: u8)) OR ucast (word_of_nat i :: u8) = (word_of_nat i :: u16)"
    "unat (word_of_nat i :: u16) = i" "ucast (word_of_nat i :: u8) = (word_of_nat i :: u16)" by auto
qed

definition window_change :: "u32 list \<Rightarrow> u32 list \<Rightarrow> nat list \<Rightarrow> int \<Rightarrow> int" where
  "window_change old new is w =
     (let k = GRPC_CHTTP2_SETTINGS_INITIAL_WINDOW_SIZE in
      if k \<in> set is \<and> old ! k \<noteq> new ! k then uint (new ! k) - uint (old ! k) else w)"

lemma settings_loop_setting:
  assumes "sps_state p = GRPC_CHTTP2_SPS_ID0" "1 \<le> i" "i < GRPC_CHTTP2_NUM_SETTINGS" "settings_allowed new"
  obtains p' where
    "settings_loop tp p ([word_of_nat (i div 256), word_of_nat i] @ bytes_of_word (new ! i) @ rest) x =
       settings_loop (tp\<lparr>initial_window_update := window_change (incoming_settings p) new [i] (initial_window_update tp)\<rparr>) p' rest x"
    "sps_state p' = GRPC_CHTTP2_SPS_ID0" "incoming_settings p' = (incoming_settings p)[i := new ! i]"
    "settings_is_ack p' = settings_is_ack p"
proof -
  let ?v = "new ! i"
  let ?q = "p\<lparr>setting_id := word_of_nat i, setting_value := ?v, sps_state := GRPC_CHTTP2_SPS_ID0\<rparr>"
  let ?q' = "?q\<lparr>incoming_settings := (incoming_settings p)[i := ?v]\<rparr>"
  let ?tp = "tp\<lparr>initial_window_update := window_change (incoming_settings p) new [i] (initial_window_update tp)\<rparr>"
  have range: "\<not> ?v < min_value (grpc_chttp2_settings_parameters ! i)" "\<not> ?v > max_value (grpc_chttp2_settings_parameters ! i)"
    using assms(2-4) by (auto simp: settings_allowed_def not_less)
  have keep: "tp\<lparr>initial_window_update := initial_window_update tp\<rparr> = tp" by simp
  have app: "settings_apply tp ?q = (GRPC_CHTTP2_PARSE_OK, ?tp, ?q')"
    using assms(2,3) range by (auto simp: settings_apply_def setting_id_read Let_def window_change_def)
  have v: "push_bit 24 (ucast (ucast (drop_bit 24 ?v) :: u8)) OR (push_bit 16 (ucast (ucast (drop_bit 16 ?v) :: u8)) OR
      (push_bit 8 (ucast (ucast (drop_bit 8 ?v) :: u8)) OR ucast (ucast ?v :: u8))) = ?v"
    using word_of_bytes_of_word[of ?v] by (simp add: bytes_of_word_def or.assoc del: word_of_bytes_of_word)
  have "settings_loop tp p ([word_of_nat (i div 256), word_of_nat i] @ bytes_of_word ?v @ rest) x = settings_loop ?tp ?q' rest x"
    using assms(1,3) app
    by (simp add: bytes_of_word_def settings_byte_def or.assoc v setting_id_read)
  then show thesis by (rule that) simp_all
qed

lemma settings_loop_write:
  assumes "settings_write old new force is = Some (bs, old')" "\<forall>i \<in> set is. i < GRPC_CHTTP2_NUM_SETTINGS" "settings_allowed new" "distinct is"
    "sps_state p = GRPC_CHTTP2_SPS_ID0" "incoming_settings p = old"
  obtains p' where
    "settings_loop tp p (bs @ rest) x =
       settings_loop (tp\<lparr>initial_window_update := window_change old new is (initial_window_update tp)\<rparr>) p' rest x"
    "sps_state p' = GRPC_CHTTP2_SPS_ID0" "incoming_settings p' = old'"
  using assms
proof (induction "is" arbitrary: old bs tp p thesis)
  case Nil
  then show ?case by (auto simp: window_change_def)
next
  case (Cons i "is")
  from Cons.prems(2) obtain b where b: "setting_sent old new force i = Some b" by (auto split: Option.bind_splits)
  show ?case
  proof (cases b)
    case False
    then have same: "old ! i = new ! i" using b by (auto simp: setting_sent_def c_read_def split: if_splits Option.bind_splits)
    have w: "settings_write old new force is = Some (bs, old')" using Cons.prems(2) b False by simp
    have "window_change old new (i # is) (initial_window_update tp) = window_change old new is (initial_window_update tp)"
      using same by (auto simp: window_change_def Let_def)
    have d: "\<forall>i \<in> set is. i < GRPC_CHTTP2_NUM_SETTINGS" "distinct is" using Cons.prems(3,5) by auto
    from Cons.IH[OF _ w d(1) Cons.prems(4) d(2) Cons.prems(6,7), of tp] obtain p' where
      "settings_loop tp p (bs @ rest) x =
         settings_loop (tp\<lparr>initial_window_update := window_change old new is (initial_window_update tp)\<rparr>) p' rest x"
      "sps_state p' = GRPC_CHTTP2_SPS_ID0" "incoming_settings p' = old'" by blast
    with Cons.prems(1) \<open>window_change old new (i # is) (initial_window_update tp) = _\<close> show ?thesis by simp
  next
    case True
    with Cons.prems(2) b obtain bs1 where w: "i \<noteq> 0" "settings_write (old[i := new ! i]) new force is = Some (bs1, old')"
      "bs = [word_of_nat (i div 256), word_of_nat i] @ bytes_of_word (new ! i) @ bs1"
      by (auto simp: gpr_assert_def c_read_def c_write_def split: if_splits Option.bind_splits)
    have i: "1 \<le> i" "i < GRPC_CHTTP2_NUM_SETTINGS" using w(1) Cons.prems(3) by auto
    from settings_loop_setting[OF Cons.prems(6) i Cons.prems(4)] obtain p1 where p1:
      "settings_loop tp p (bs @ rest) x =
         settings_loop (tp\<lparr>initial_window_update := window_change old new [i] (initial_window_update tp)\<rparr>) p1 (bs1 @ rest) x"
      "sps_state p1 = GRPC_CHTTP2_SPS_ID0" "incoming_settings p1 = old[i := new ! i]"
      using w(3) Cons.prems(7) by (metis append.assoc)
    let ?tp1 = "tp\<lparr>initial_window_update := window_change old new [i] (initial_window_update tp)\<rparr>"
    from Cons.IH[OF _ w(2) _ Cons.prems(4) _ p1(2,3), of ?tp1] Cons.prems(3,5) obtain p2 where
      p2: "settings_loop ?tp1 p1 (bs1 @ rest) x =
         settings_loop (?tp1\<lparr>initial_window_update := window_change (old[i := new ! i]) new is (initial_window_update ?tp1)\<rparr>) p2 rest x"
      "sps_state p2 = GRPC_CHTTP2_SPS_ID0" "incoming_settings p2 = old'" by auto
    have "window_change (old[i := new ! i]) new is (initial_window_update ?tp1) = window_change old new (i # is) (initial_window_update tp)"
      using Cons.prems(5) by (cases "i = GRPC_CHTTP2_SETTINGS_INITIAL_WINDOW_SIZE") (auto simp: window_change_def Let_def)
    with p1(1) p2 Cons.prems(1) show ?thesis by simp
  qed
qed

lemma settings_count_length:
  "settings_write old new force is = Some (bs, old') \<Longrightarrow> length bs \<le> 6 * length is"
  by (induction "is" arbitrary: old bs) (fastforce split: Option.bind_splits if_splits)+

lemma settings_ack_ok: "slice_ok grpc_chttp2_settings_ack_create"
  by (simp add: grpc_chttp2_settings_ack_create_def gpr_slice_malloc_def slice_ok_def settings_fill_header_def)

lemma settings_ack_bytes:
  "slice_bytes grpc_chttp2_settings_ack_create = frame_bytes 0 (Frame GRPC_CHTTP2_FRAME_SETTINGS GRPC_CHTTP2_FLAG_ACK [])"
  by (simp add: grpc_chttp2_settings_ack_create_def gpr_slice_malloc_def settings_fill_header_def frame_bytes_def fill_header_def)

text \<open>
  C4. Settings arrive as they were sent. When a peer that knows the settings of the other side
  reads the frame that \<^verbatim>\<open>grpc_chttp2_settings_create\<close> makes from them and new allowed settings,
  in whatever slices, it takes over exactly the new settings, queues an acknowledgement, and
  notes by how much the initial window changes. The sender then has the new settings as well.
\<close>

theorem settings_roundtrip:
  assumes "grpc_chttp2_settings_create old new force GRPC_CHTTP2_NUM_SETTINGS = Some (sl, old')"
    "length old = GRPC_CHTTP2_NUM_SETTINGS" "settings_allowed new"
    and "deframe_state tp = GRPC_DTS_FH_0" "incoming_stream (streams tp) = None" "expect_continuation_stream_id tp = 0"
    "settings tp = old" "slice_buffer_ok (qbuf tp)"
    and "slices_bytes sls = slice_bytes sl" "good_slices sls"
  shows "\<exists>tp'. perform_reads env tp sls = Some (True, tp') \<and> deframe_state tp' = GRPC_DTS_FH_0 \<and>
     settings_updated tp' \<and> settings tp' = new \<and> old' = new \<and>
     initial_window_update tp' = window_change old new [0..<GRPC_CHTTP2_NUM_SETTINGS] (initial_window_update tp) \<and>
     buffer_bytes (qbuf tp') = buffer_bytes (qbuf tp) @ frame_bytes 0 (Frame GRPC_CHTTP2_FRAME_SETTINGS GRPC_CHTTP2_FLAG_ACK [])"
proof -
  let ?ids = "[0..<GRPC_CHTTP2_NUM_SETTINGS]"
  from assms(1) obtain n bs where w: "settings_write old new force ?ids = Some (bs, old')" "length bs = 6 * n"
    "sl = gpr_slice_malloc (settings_fill_header (word_of_nat (6 * n)) 0 @ bs)"
    by (auto simp: grpc_chttp2_settings_create_def gpr_assert_def simp del: upt_rec_numeral split: Option.bind_splits if_splits)
  have new: "old' = new"
    using settings_write_new[OF w(1)] assms(2,3) by (intro nth_equalityI) (auto simp: settings_allowed_def)
  let ?f = "Frame GRPC_CHTTP2_FRAME_SETTINGS 0 bs"
  have sls: "slices_bytes sls = frame_bytes 0 ?f"
    using assms(9) w(2,3) by (simp add: gpr_slice_malloc_def settings_fill_header_def frame_bytes_def fill_header_def)
  have len: "length bs \<le> 42" using settings_count_length[OF w(1)] by simp
  let ?p = "\<lparr> sps_state = GRPC_CHTTP2_SPS_ID0, settings_is_ack = False, setting_id = 0, setting_value = 0, incoming_settings = old \<rparr>"
  let ?tp1 = "(frame_header 0 ?f tp)\<lparr>simple := Simple_settings ?p, parser := Some Settings_parser\<rparr>"
  have n6: "(word_of_nat (length bs) :: u32) mod 6 = 0"
  proof -
    have "unat ((word_of_nat (length bs) :: u32) mod 6) = length bs mod 6"
      using len by (simp add: unat_mod_distrib unat_word_of_length)
    then show ?thesis using w(2) by (metis mod_mult_self1_is_0 unsigned_0 unsigned_word_eqI)
  qed
  have init: "init_frame_parser env (frame_header 0 ?f tp) = Some (True, ?tp1)"
    using assms(6,7) n6 by (simp add: init_frame_parser_def frame_header_def init_settings_frame_parser_def
        grpc_chttp2_settings_parser_begin_frame_def)
  let ?tp2 = "?tp1\<lparr>initial_window_update := window_change old new ?ids (initial_window_update tp)\<rparr>"
  obtain p' where p': "settings_loop ?tp1 ?p bs True = settings_loop ?tp2 p' [] True"
    "sps_state p' = GRPC_CHTTP2_SPS_ID0" "incoming_settings p' = new"
    using settings_loop_write[OF w(1) _ assms(3) _ _ , of ?p ?tp1 "[]" True] new
    by (auto simp: frame_header_def simp del: upt_rec_numeral)
  let ?tp3 = "?tp2\<lparr>simple := Simple_settings p', settings_updated := True, settings := new\<rparr>"
  obtain q where q: "add_qbuf ?tp3 grpc_chttp2_settings_ack_create = Some (?tp3\<lparr>qbuf := q\<rparr>)"
    "buffer_bytes q = buffer_bytes (qbuf tp) @ slice_bytes grpc_chttp2_settings_ack_create"
    using add_qbuf_ok[OF _ settings_ack_ok, of ?tp3] assms(8) by (auto simp: frame_header_def)
  have parse: "grpc_chttp2_settings_parser_parse ?tp1 bs True = Some (GRPC_CHTTP2_PARSE_OK, ?tp3\<lparr>qbuf := q\<rparr>)"
    using q(1) p' by (simp add: grpc_chttp2_settings_parser_parse_def)
  have feed: "up_to_size (feed_payload ?tp1 pieces) = Some (True, with_size 0 (?tp3\<lparr>qbuf := q\<rparr>))"
    if "pieces_of pieces (wire_payload ?f)" for pieces
    using settings_reader.payload_in_pieces[of ?tp1 bs pieces] that assms(5) parse
    by (simp add: any_more_def frame_header_def)
  have "connection_frame (0, ?f)" using len by (simp add: connection_frame_def)
  from read_whole_frame[OF assms(4,5) this sls assms(10) init feed] obtain n where
    "perform_reads env tp sls = Some (True, frame_done (with_size n (with_size 0 (?tp3\<lparr>qbuf := q\<rparr>))))" ..
  then show ?thesis using q(2) new settings_ack_bytes by (simp add: set_incoming_stream_def with_size_def)
qed

text \<open>The default settings with an initial window of 100000 bytes, 0x186a0.\<close>

theorem settings_roundtrip_witness:
  "\<exists>tp tp' sl. init_transport_parsing True = Some tp \<and>
     grpc_chttp2_settings_create (settings tp) ((settings tp)[4 := 100000]) 0 GRPC_CHTTP2_NUM_SETTINGS =
       Some (sl, (settings tp)[4 := 100000]) \<and>
     slice_bytes sl = [0, 0, 6, 4, 0, 0, 0, 0, 0, 0, 4, 0, 1, 0x86, 0xa0] \<and>
     perform_reads quiet_env tp [Refcounted [0, 0, 6, 4, 0, 0, 0, 0, 0, 0, 4, 0], Refcounted [1, 0x86, 0xa0]] = Some (True, tp') \<and>
     settings tp' = (settings tp)[4 := 100000] \<and> initial_window_update tp' = 34465"
proof -
  obtain tp where tp: "init_transport_parsing True = Some tp" "deframe_state tp = GRPC_DTS_FH_0"
    "incoming_stream (streams tp) = None" "expect_continuation_stream_id tp = 0" "qbuf tp = gpr_slice_buffer_init"
    "settings tp = map default_value grpc_chttp2_settings_parameters"
    by (rule client_connected)
  let ?new = "(settings tp)[4 := 100000]"
  let ?sl = "gpr_slice_malloc [0, 0, 6, 4, 0, 0, 0, 0, 0, 0, 4, 0, 1, 0x86, 0xa0]"
  have create: "grpc_chttp2_settings_create (settings tp) ?new 0 GRPC_CHTTP2_NUM_SETTINGS = Some (?sl, ?new)"
    unfolding tp(6) by code_simp
  have allowed: "length (settings tp) = GRPC_CHTTP2_NUM_SETTINGS" "settings_allowed ?new" unfolding tp(6) by code_simp+
  have w: "window_change (settings tp) ?new [0..<GRPC_CHTTP2_NUM_SETTINGS] 0 = 34465" unfolding tp(6) by code_simp
  from settings_roundtrip[OF create allowed tp(2-4) refl, of "[Refcounted [0, 0, 6, 4, 0, 0, 0, 0, 0, 0, 4, 0], Refcounted [1, 0x86, 0xa0]]" quiet_env]
  obtain tp' where "perform_reads quiet_env tp [Refcounted [0, 0, 6, 4, 0, 0, 0, 0, 0, 0, 4, 0], Refcounted [1, 0x86, 0xa0]] = Some (True, tp')"
    "settings tp' = ?new" "initial_window_update tp' = window_change (settings tp) ?new [0..<GRPC_CHTTP2_NUM_SETTINGS] (initial_window_update tp)"
    using tp(5) by (auto simp: good_slices_def slice_ok_def slices_bytes_def gpr_slice_malloc_def empty_buffer simp del: upt_rec_numeral)
  moreover have "initial_window_update tp = 0" using tp(1) by (auto simp: init_transport_parsing_def split: Option.bind_splits)
  ultimately show ?thesis using tp(1) create w by (intro exI[of _ tp] exI[of _ tp'] exI[of _ ?sl]) (simp add: gpr_slice_malloc_def)
qed

end
