(* ===== verification/Transport_Errors.thy ===== *)
theory Transport_Errors
  imports Connection_Frames
begin

text \<open>
  Frames that end the process: two that a peer may send, because the code that reads them relies
  on a list that is never set up and on a flag that is inverted.
\<close>

section \<open>Pings\<close>

lemma perform_read_pings: "grpc_chttp2_perform_read env tp sl = Some (ok, tp') \<Longrightarrow> pings tp' = pings tp"
proof (induction "2 * length (slice_bytes sl) + deframe_rank (deframe_state tp)" arbitrary: tp sl rule: less_induct)
  case less
  note eq = less.prems[unfolded grpc_chttp2_perform_read.simps[of env tp sl]]
  show ?case
  proof (cases "slice_bytes sl")
    case Nil
    with eq show ?thesis by simp
  next
    case (Cons b bs)
    note p = eq[unfolded Cons list.case]
    have ih: "pings tp' = pings tp2" if "grpc_chttp2_perform_read env tp2 (slice_from n sl) = Some (ok, tp')" "0 < n"
      for tp2 n
      using that less.hyps[of "slice_from n sl" tp2] Cons by (cases "deframe_state tp2") auto
    show ?thesis
    proof (cases "deframe_state tp")
      case (GRPC_DTS_CLIENT_PREFIX n)
      with p show ?thesis by (auto split: Option.bind_splits if_splits dest!: ih)
    next
      case GRPC_DTS_FH_8
      then show ?thesis
        using p
        by (auto simp: Let_def same_frame_def set_incoming_stream_def split: Option.bind_splits if_splits
            dest!: same_frame_init same_frame_parse_frame_slice ih)
    next
      case GRPC_DTS_FRAME
      have "pings tp' = pings tp2"
        if "grpc_chttp2_perform_read env tp2 (slice_from n sl) = Some (ok, tp')" "deframe_state tp2 = GRPC_DTS_FH_0" for tp2 n
        using that less.hyps[of "slice_from n sl" tp2] GRPC_DTS_FRAME by simp
      note ih = this
      show ?thesis
        using p GRPC_DTS_FRAME
        by (auto simp: Let_def same_frame_def set_incoming_stream_def split: Option.bind_splits if_splits
            dest!: same_frame_parse_frame_slice ih)
    qed (use p Cons in \<open>auto dest!: ih\<close>)
  qed
qed

lemma perform_reads_pings: "perform_reads env tp sls = Some (ok, tp') \<Longrightarrow> pings tp' = pings tp"
proof (induction sls arbitrary: tp)
  case (Cons sl sls)
  then show ?case by (fastforce dest: perform_read_pings split: Option.bind_splits if_splits)
qed simp

lemma init_transport_pings: "init_transport_parsing client = Some tp \<Longrightarrow> pings tp = None"
  by (auto simp: init_transport_parsing_def split: Option.bind_splits)

text \<open>A frame whose payload cannot be read ends the process.\<close>

lemma reads_of_aborting_frame:
  assumes "deframe_state tp = GRPC_DTS_FH_0" "length (wire_payload f) < 2 ^ 24"
    "slices_bytes sls = frame_bytes sid f" "good_slices sls"
    "\<And>pieces. pieces_of pieces (wire_payload f) \<Longrightarrow> read_frame env tp sid f pieces = None"
  shows "perform_reads env tp sls = None"
proof -
  from perform_reads_frame[OF assms(1,2), of sls sid "[]" env] assms(3,4) obtain ps rest where
    "pieces_of ps (wire_payload f)"
    "perform_reads env tp sls =
       do { (ok, tp) \<leftarrow> read_frame env tp sid f ps; (if ok then perform_reads env tp rest else Some (False, tp)) }" by auto
  then show ?thesis using assms(5) by simp
qed

text \<open>
  A ping that is marked as an answer ends the process. In any state that a transport reaches
  by reading, between two frames, the bytes of a PING frame with the flag ACK make it follow the
  null pointer that was left in the list of pings of the reading side: pings that wait for an
  answer are kept in the list of the transport, and never get to the one that is searched.
\<close>

theorem ping_ack_crashes:
  assumes "init_transport_parsing client = Some tp0" "perform_reads env tp0 sls0 = Some (True, tp)"
    and "deframe_state tp = GRPC_DTS_FH_0" "incoming_stream (streams tp) = None" "expect_continuation_stream_id tp = 0"
    and "slices_bytes sls = frame_bytes 0 (Frame GRPC_CHTTP2_FRAME_PING GRPC_CHTTP2_FLAG_ACK payload)" "good_slices sls"
    "length payload = 8"
  shows "perform_reads env tp sls = None"
proof -
  let ?f = "Frame GRPC_CHTTP2_FRAME_PING GRPC_CHTTP2_FLAG_ACK payload"
  let ?p = "\<lparr> ping_byte = 0, ping_is_ack = 1, opaque_8bytes = replicate 8 0 \<rparr>"
  let ?tp1 = "(frame_header 0 ?f tp)\<lparr>simple := Simple_ping ?p, parser := Some Ping_parser\<rparr>"
  have null: "pings tp = None" using perform_reads_pings[OF assms(2)] init_transport_pings[OF assms(1)] by simp
  have init: "init_frame_parser env (frame_header 0 ?f tp) = Some (True, ?tp1)"
    using assms(5,8) by (simp add: init_frame_parser_def frame_header_def init_ping_parser_def grpc_chttp2_ping_parser_begin_frame_def)
  have "grpc_chttp2_ping_parser_parse ?tp1 payload True = None"
    using null ping_loop_whole[OF assms(8), of 1] by (simp add: grpc_chttp2_ping_parser_parse_def Let_def ping_acknowledged_def frame_header_def gpr_assert_def)
  then have "up_to_size (feed_payload ?tp1 pieces) = None" if "pieces_of pieces payload" for pieces
    using ping_reader.payload_in_pieces[of ?tp1 payload pieces] that assms(4,8) by (simp add: more_ping_def frame_header_def)
  then have "read_frame env tp 0 ?f pieces = None" if "pieces_of pieces payload" for pieces
    using that init by (simp add: read_frame_def up_to_size_def frame_header_def)
  then show ?thesis
    using reads_of_aborting_frame[OF assms(3) _ assms(6,7)] assms(8) by simp
qed

theorem ping_ack_crashes_witness:
  "\<exists>tp. init_transport_parsing True = Some tp \<and> perform_reads quiet_env tp [] = Some (True, tp) \<and>
     perform_reads quiet_env tp [Refcounted [0, 0, 8, 6, 1, 0, 0, 0, 0, 1], Refcounted [2, 3, 4, 5, 6, 7, 8]] = None"
proof -
  obtain tp where tp: "init_transport_parsing True = Some tp" "deframe_state tp = GRPC_DTS_FH_0"
    "incoming_stream (streams tp) = None" "expect_continuation_stream_id tp = 0" by (rule client_connected)
  have empty: "perform_reads quiet_env tp [] = Some (True, tp)" by simp
  from ping_ack_crashes[OF tp(1) empty tp(2,3,4), of "[Refcounted [0, 0, 8, 6, 1, 0, 0, 0, 0, 1], Refcounted [2, 3, 4, 5, 6, 7, 8]]"
      "[1, 2, 3, 4, 5, 6, 7, 8]"]
  show ?thesis using tp(1) empty
    by (auto simp: frame_bytes_def fill_header_def good_slices_def slice_ok_def slices_bytes_def simp del: perform_reads.simps)
qed

section \<open>Header blocks that nobody wants\<close>

lemma parse_nothing: "state p = Parse_begin \<Longrightarrow> grpc_chttp2_hpack_parser_parse p [] = Inr (True, p)"
  unfolding grpc_chttp2_hpack_parser_parse_def by (subst hpack_run.simps) (simp add: parse_begin_def)

lemma pieces_of_nothing: "pieces_of pieces [] \<Longrightarrow> pieces = []"
  by (cases pieces) auto

text \<open>
  The headers of a stream that is gone end the process. When a client reads a HEADERS frame
  of a stream it does not know, one without END\_HEADERS, as for a block that will be continued,
  the end of the frame is taken for the end of the block and the block is given to the null
  pointer instead of the stream.
\<close>

theorem skipped_headers_crash:
  assumes "deframe_state tp = GRPC_DTS_FH_0" "is_client tp" "expect_continuation_stream_id tp = 0"
    "state (hpack_parser tp) = Parse_begin" "sid AND 0x7fffffff \<noteq> 0"
    "grpc_chttp2_parsing_lookup_stream tp (sid AND 0x7fffffff) = Some None" "incoming_stream (streams tp) = None"
    and "flags AND GRPC_CHTTP2_DATA_FLAG_END_HEADERS = 0"
    "slices_bytes sls = frame_bytes sid (Frame GRPC_CHTTP2_FRAME_HEADER flags [])" "good_slices sls"
  shows "perform_reads env tp sls = None"
proof -
  let ?f = "Frame GRPC_CHTTP2_FRAME_HEADER flags []"
  let ?tp0 = "frame_header sid ?f tp"
  define tp1 where "tp1 = init_skip_frame_parser
    (?tp0\<lparr>expect_continuation_stream_id := sid AND 0x7fffffff, header_eof := (flags AND GRPC_CHTTP2_DATA_FLAG_END_STREAM \<noteq> 0)\<rparr>) True"
  have "grpc_chttp2_parsing_lookup_stream (?tp0\<lparr>expect_continuation_stream_id := e, header_eof := h\<rparr>) s =
      grpc_chttp2_parsing_lookup_stream tp s" for e h s
    by (simp add: grpc_chttp2_parsing_lookup_stream_def frame_header_def)
  then have init: "init_frame_parser env ?tp0 = Some (True, tp1)"
    using assms(2,3,6,8) by (simp add: init_frame_parser_def init_header_frame_parser_def tp1_def frame_header_def)
  have tp1: "parser tp1 = Some Header_parser" "incoming_stream (streams tp1) = None" "state (hpack_parser tp1) = Parse_begin"
    "on_header_user_data (hpack_parser tp1) = None" "is_boundary (hpack_parser tp1) \<noteq> 0" "incoming_stream_id tp1 = sid AND 0x7fffffff"
    using assms(4,5,7) by (simp_all add: tp1_def init_skip_frame_parser_def frame_header_def of_flag_def Let_def)
  have "grpc_chttp2_header_parser_parse (tp1\<lparr>last_incoming_stream_id := k\<rparr>) None [] True = None" for k
    using tp1 parse_nothing[of "hpack_parser tp1"]
    by (simp add: grpc_chttp2_header_parser_parse_def with_user_data_def take_user_data_def Let_def)
  then have "feed_payload (tp1\<lparr>last_incoming_stream_id := k\<rparr>) [] = None" for k
    using tp1(1,2) by (simp add: parse_frame_slice_def call_parser_def gpr_empty_slice_def)
  then have "read_frame env tp sid ?f [] = None" using init tp1(6) assms(5) by (simp add: read_frame_def)
  then show ?thesis using reads_of_aborting_frame[OF assms(1) _ assms(9,10)] by (auto dest: pieces_of_nothing)
qed

theorem skipped_headers_crash_witness:
  "\<exists>tp. init_transport_parsing True = Some tp \<and>
     perform_reads quiet_env tp [Refcounted [0, 0, 0, 1, 0, 0, 0], Refcounted [0, 1]] = None"
proof -
  obtain tp where tp: "init_transport_parsing True = Some tp" "deframe_state tp = GRPC_DTS_FH_0" "is_client tp"
    "incoming_stream (streams tp) = None" "expect_continuation_stream_id tp = 0" "state (hpack_parser tp) = Parse_begin"
    "grpc_chttp2_parsing_lookup_stream tp 1 = Some None" by (rule client_connected)
  from skipped_headers_crash[OF tp(2,3,5,6), of 1 0 "[Refcounted [0, 0, 0, 1, 0, 0, 0], Refcounted [0, 1]]" quiet_env]
  show ?thesis using tp(1,4,7) by (auto simp: frame_bytes_def fill_header_def good_slices_def slice_ok_def slices_bytes_def)
qed

end
