(* ===== verification/Spec2Isabelle.thy ===== *)
theory Spec2Isabelle
  imports Json_Safety Json_Tree Json_Writer Gpr_Time Alarm_Shard Stream_Map Hpack_Table
    Hpack_Parser_Chunks Header_Decoder Gpr_Slice Timeout_Encoding Indexed_Binary Stream_Flow
    Settings_Roundtrip Transport_Errors
begin

text \<open>
  The core of the gRPC library that the application links, written in C under
  \<^verbatim>\<open>src/lib/grpc/src/core\<close>, as functions of HOL. Paths below are relative to that
  directory.

  \<^bold>\<open>Conventions.\<close> A struct is a record, an enum a datatype, an unsigned integer of the C
  code a word of its width; a signed integer is an \<^typ>\<open>int\<close>, with \<^verbatim>\<open>c_signed\<close> of the
  prelude where an operation may leave its range. A C string is its list of bytes. An
  operation that the code ends by an assertion, by abort(), by reading or writing memory it
  must not, or by a signed overflow has the value \<^const>\<open>None\<close> (in the JSON reader and the
  HPACK parser a left value); error returns of the code are results like any other. Shared
  mutable objects (alarms, JSON nodes) live in explicit stores. Reference counts, allocation
  failure, locks, logging and tracing are left out everywhere.

  \<^bold>\<open>Parts and theories.\<close>
  \<^item> \<^verbatim>\<open>Prelude\<close>: integer types, aborting runs, lemmas on lists, options and words.
  \<^item> JSON (\<^verbatim>\<open>json/*.c\<close>). \<^verbatim>\<open>Json_Reader\<close> is the state machine of grpc_json_reader_run over a table of
    callbacks, one function per group of cases; its run is a partial function without fuel, and
    that it returns is proved with the callbacks of json_string.c. The depth of nesting is an \<^typ>\<open>int\<close>
    without the bounds of the C counter. \<^verbatim>\<open>Json_String\<close> holds the
    node store, the callbacks that build trees and the parse and dump entry points (the input is a
    buffer; the early return for a null pointer is left out), \<^verbatim>\<open>Json_Writer\<close>
    the writer. \<^verbatim>\<open>Json_Reader_Client\<close> states the contract between reader and callbacks as a locale;
    \<^verbatim>\<open>Json_Tree\<close> says when a store represents a forest; \<^verbatim>\<open>Json_Safety\<close> interprets the locale on
    the callbacks of json_string.c: parsing any readable buffer neither aborts nor runs on, and a
    returned tree is well formed; it also shows three divergences from the JSON grammar.
  \<^item> \<^verbatim>\<open>Gpr_Time\<close> (\<^verbatim>\<open>support/time.c\<close>): addition, subtraction, comparison and conversion of points in
    time and spans, exact in nanoseconds or saturated.
  \<^item> \<^verbatim>\<open>Timeout_Encoding\<close> (\<^verbatim>\<open>transport/chttp2/timeout_encoding.c\<close>, \<^verbatim>\<open>support/string.c\<close>): the text form
    of deadlines; the round trip, and what the header callback does with a bad value.
  \<^item> \<^verbatim>\<open>Alarm_Heap\<close> (\<^verbatim>\<open>iomgr/alarm_heap.c\<close>): the array heap with the indices kept in the alarms; every
    operation keeps the invariant, and the locale \<^verbatim>\<open>alarm_queue\<close> gives the order of draining, the
    latest deadline first. Indices are natural numbers where the code computes 1 + 2 * i in an int,
    which differs beyond 2^30 alarms.
  \<^item> \<^verbatim>\<open>Alarm_Shard\<close> (\<^verbatim>\<open>iomgr/alarm.c\<close>): one shard of alarms, with the heap, the circular list that refills
    it, and the taking of due alarms; because the heap keeps the latest deadline on top, due alarms
    wait for later ones.
  \<^item> \<^verbatim>\<open>Stream_Map\<close> (\<^verbatim>\<open>transport/chttp2/stream_map.c\<close>): parallel arrays with lazy deletion and
    compaction, refining a partial map; the locale \<^verbatim>\<open>increasing_map\<close> is its client's interface.
  \<^item> \<^verbatim>\<open>Gpr_Slice\<close> (\<^verbatim>\<open>support/slice.c\<close>, \<^verbatim>\<open>slice_buffer.c\<close>): slices by value, and the buffer of slices as
    the concatenation of its bytes.
  \<^item> HPACK (\<^verbatim>\<open>transport/chttp2\<close>). \<^verbatim>\<open>Hpack_Table\<close> is hpack_table.c, refining a list of entries with
    eviction; \<^verbatim>\<open>Hpack_Huffman\<close> the code table of huffsyms.c and the nibble tables of hpack_parser.c,
    \<^verbatim>\<open>Huffman_Tables\<close> the kernel's check of one against the other; \<^verbatim>\<open>Hpack_Parser\<close> the parser
    functions, whose saved function pointer is a datatype, \<^verbatim>\<open>Hpack_Parser_Run\<close> the run over the
    input with its termination, \<^verbatim>\<open>Hpack_Parser_Safety\<close> its invariant and memory safety,
    \<^verbatim>\<open>Hpack_Parser_Chunks\<close> the independence of how the input is sliced. \<^verbatim>\<open>Bit_Strings\<close>,
    \<^verbatim>\<open>Bin_Encoder\<close>, \<^verbatim>\<open>Huffman_Encoder\<close>, \<^verbatim>\<open>Huffman_Decoder\<close>, \<^verbatim>\<open>Huffman_Roundtrip\<close> and
    \<^verbatim>\<open>String_Roundtrip\<close> relate bin_encoder.c to the parser: what is compressed or written in base64
    is read back. \<^verbatim>\<open>Varint\<close> is varint.c with the parser's reading of its integers, and
    \<^verbatim>\<open>Header_Decoder\<close> says how the parser reads each form of header field.
  \<^item> The stream encoder (\<^verbatim>\<open>transport/chttp2/stream_encoder.c\<close>). \<^verbatim>\<open>Stream_Framer\<close> is its framing half
    over a slice buffer, \<^verbatim>\<open>Hpack_Compressor\<close> the HPACK compressor with its filter and its two-way hash
    tables (hashed by \<^verbatim>\<open>Murmur_Hash\<close>, \<^verbatim>\<open>support/murmur_hash.c\<close>), \<^verbatim>\<open>Stream_Encoder\<close> flow control and the
    encoding of stream operations. \<^verbatim>\<open>Compressor_Emission\<close> gives the bytes of each emission,
    \<^verbatim>\<open>Encoder_Sync\<close> the invariant that relates the compressor to the entries in the table of the
    peer's parser (up to 2^32 insertions, after which the 32-bit indices of the compressor wrap),
    \<^verbatim>\<open>Stream_Frames\<close> the frames written and the round trip of headers through the parser,
    \<^verbatim>\<open>Indexed_Binary\<close> the defect in the encoding of binary headers with one key, \<^verbatim>\<open>Stream_Flow\<close> what flow
    control lets through. Which references the encoder releases is not modelled.
  \<^item> \<^verbatim>\<open>Stream_Lists\<close> (\<^verbatim>\<open>transport/chttp2/stream_lists.c\<close>): the intrusive lists of streams, refining
    lists; the locale \<^verbatim>\<open>worklist\<close> is what the loops of the transport rely on.
  \<^item> Reading a connection (\<^verbatim>\<open>transport/chttp2\<close>). \<^verbatim>\<open>Incoming_Metadata\<close> is incoming_metadata.c: received
    elements in an array, published as doubly linked lists. \<^verbatim>\<open>Frame_Data\<close> is frame_data.c, refining an
    automaton over the bytes of messages. \<^verbatim>\<open>Parsing_State\<close> is the state of the reading side
    (internal.h), \<^verbatim>\<open>Frame_Control\<close> the other frames (frame_*.c), \<^verbatim>\<open>Transport_Parsing\<close> is parsing.c with
    the functions of chttp2_transport.c that set up the state and find and accept streams.
    \<^verbatim>\<open>Transport_Frames\<close> shows that reading slices is reading the frames one by one, whatever the
    slices; the locale \<^verbatim>\<open>frame_reader\<close> of \<^verbatim>\<open>Frame_Pieces\<close> is the promise that a parser does not
    depend on the pieces of its payload, with the parsers of SETTINGS, PING, GOAWAY and
    WINDOW\_UPDATE as its instances; \<^verbatim>\<open>Connection_Frames\<close> concludes that the slicing of the frames of
    a connection does not matter, \<^verbatim>\<open>Settings_Roundtrip\<close> that settings and pings are read as they
    were written and answered, \<^verbatim>\<open>Transport_Errors\<close> shows two frames that end the process.

  \<^bold>\<open>Interaction.\<close> A transport hands the bytes of header frames to the HPACK parser slice by slice;
  the parser keeps partial strings, base64 and Huffman positions between slices, looks up and adds
  elements in the table and reports each header to a callback, which is a parameter there. The
  callback of the transport, in \<^verbatim>\<open>Transport_Parsing\<close>, decodes deadlines, adds them to the current
  time and collects the other elements in the buffer of the stream. Streams are found
  by identifier in the stream map. In the other direction flow control takes operations from the
  queue of a stream, and the encoder writes them as frames into a slice buffer, compressing headers
  against its copy of the peer's table. The JSON reader pulls characters and pushes nodes through its
  table of callbacks.

  \<^bold>\<open>Not modelled.\<close> What the transport does outside reading and encoding (locks, merging what was
  read and written into its global state, closing of streams), the queue of the alarm shards, the surface (calls, servers, completion queues), channels and
  name resolution, security, the event loop, the HTTP/1 client and the statistics: they consist of
  locking, closures on the event loop, system calls and calls into OpenSSL. The interning of
  metadata is modelled as equality of contents.
\<close>

end
